(* ===== verification/Sigil_Prelude.thy ===== *)
theory Sigil_Prelude
  imports Main "HOL-Library.Word"
begin

text \<open>
  What the component theories share: the machine integers, Rust's \<^verbatim>\<open>HashMap\<close> and
  \<^verbatim>\<open>HashSet\<close> as lists, ASCII character classes, decimal and hexadecimal printing, and
  generic lemmas on lists.

  A \<^verbatim>\<open>HashMap\<close> is an association list and a \<^verbatim>\<open>HashSet\<close> a list. The order
  of the list stands for the order in which Rust iterates, which the language leaves
  unspecified; every result below is stated for an arbitrary list, so for every order.
  The two interfaces are the locales \<open>hash_map\<close> and \<open>hash_set\<close>, and the component
  proofs use only what these promise.
\<close>

named_theorems hm_simps \<open>rewriting of hash map and hash set operations\<close>

section \<open>Machine integers\<close>

type_synonym usize = "64 word"
type_synonym i64 = "64 word"
type_synonym byte = "8 word"

definition usize_max :: usize where
  "usize_max = - 1"

definition saturating_add :: "usize \<Rightarrow> usize \<Rightarrow> usize" where
  "saturating_add a b = (if a + b < a then usize_max else a + b)"

lemma unat_usize_max [simp]: "unat usize_max = 2 ^ 64 - 1"
  by (simp add: usize_max_def unsigned_minus_1_eq_mask mask_eq_exp_minus_1)

lemma unat_saturating_add:
  "unat (saturating_add a b) = min (unat a + unat b) (2 ^ 64 - 1)"
proof (cases "unat a + unat b < 2 ^ LENGTH(64)")
  case True
  then have "unat (a + b) = unat a + unat b" by (simp add: unat_word_ariths)
  then show ?thesis using True by (simp add: saturating_add_def word_less_nat_alt)
next
  case False
  have a: "unat a < 2 ^ LENGTH(64)" and b: "unat b < 2 ^ LENGTH(64)" by (rule unsigned_less)+
  then have "unat (a + b) = unat a + unat b - 2 ^ LENGTH(64)"
    using False by (simp add: unat_word_ariths mod_if)
  then have "unat (a + b) < unat a" using a b False by linarith
  then show ?thesis using False by (simp add: saturating_add_def word_less_nat_alt)
qed

section \<open>Hash maps and hash sets\<close>

type_synonym ('k, 'v) hmap = "('k \<times> 'v) list"
type_synonym 'a hset = "'a list"

definition hm_get :: "('k, 'v) hmap \<Rightarrow> 'k \<Rightarrow> 'v option" where
  "hm_get m k = map_of m k"

fun hm_insert :: "'k \<Rightarrow> 'v \<Rightarrow> ('k, 'v) hmap \<Rightarrow> ('k, 'v) hmap" where
  "hm_insert k v [] = [(k, v)]"
| "hm_insert k v ((k', v') # m) =
     (if k = k' then (k, v) # m else (k', v') # hm_insert k v m)"

definition hm_remove :: "'k \<Rightarrow> ('k, 'v) hmap \<Rightarrow> ('k, 'v) hmap" where
  "hm_remove k m = filter (\<lambda>p. fst p \<noteq> k) m"

definition hm_contains_key :: "('k, 'v) hmap \<Rightarrow> 'k \<Rightarrow> bool" where
  "hm_contains_key m k \<longleftrightarrow> hm_get m k \<noteq> None"

definition hm_keys :: "('k, 'v) hmap \<Rightarrow> 'k list" where
  "hm_keys m = map fst m"

definition hm_values :: "('k, 'v) hmap \<Rightarrow> 'v list" where
  "hm_values m = map snd m"

definition hm_wf :: "('k, 'v) hmap \<Rightarrow> bool" where
  "hm_wf m \<longleftrightarrow> distinct (map fst m)"

definition hs_insert :: "'a \<Rightarrow> 'a hset \<Rightarrow> 'a hset" where
  "hs_insert x s = (if x \<in> set s then s else s @ [x])"

definition hs_remove :: "'a \<Rightarrow> 'a hset \<Rightarrow> 'a hset" where
  "hs_remove x s = filter (\<lambda>y. y \<noteq> x) s"

subsection \<open>Their interfaces\<close>

locale hash_map =
  fixes empty :: "'m"
    and get :: "'m \<Rightarrow> 'k \<Rightarrow> 'v option"
    and ins :: "'k \<Rightarrow> 'v \<Rightarrow> 'm \<Rightarrow> 'm"
    and rem :: "'k \<Rightarrow> 'm \<Rightarrow> 'm"
    and keys :: "'m \<Rightarrow> 'k list"
    and wf :: "'m \<Rightarrow> bool"
  assumes get_empty: "get empty k = None"
    and get_insert: "get (ins k v m) j = (if j = k then Some v else get m j)"
    and get_remove: "get (rem k m) j = (if j = k then None else get m j)"
    and set_keys: "set (keys m) = {k. get m k \<noteq> None}"
    and wf_empty: "wf empty"
    and wf_insert: "wf m \<Longrightarrow> wf (ins k v m)"
    and wf_remove: "wf m \<Longrightarrow> wf (rem k m)"
    and distinct_keys: "wf m \<Longrightarrow> distinct (keys m)"
begin

lemma keys_insert: "set (keys (ins k v m)) = insert k (set (keys m))"
  by (auto simp: set_keys get_insert)

lemma keys_remove: "set (keys (rem k m)) = set (keys m) - {k}"
  by (auto simp: set_keys get_remove)

lemma get_fold_insert:
  "get (fold (\<lambda>(k, v) m. ins k v m) xs m) j =
     (case map_of (rev xs) j of Some v \<Rightarrow> Some v | None \<Rightarrow> get m j)"
  by (induction xs arbitrary: m) (auto simp: get_insert map_add_def split: option.splits)

lemma wf_fold_insert: "wf m \<Longrightarrow> wf (fold (\<lambda>(k, v) m. ins k v m) xs m)"
  by (induction xs arbitrary: m) (auto simp: wf_insert)

end

locale hash_set =
  fixes empty :: "'s"
    and mem :: "'a \<Rightarrow> 's \<Rightarrow> bool"
    and ins :: "'a \<Rightarrow> 's \<Rightarrow> 's"
    and rem :: "'a \<Rightarrow> 's \<Rightarrow> 's"
    and elems :: "'s \<Rightarrow> 'a list"
  assumes mem_empty: "\<not> mem x empty"
    and mem_insert: "mem x (ins y s) \<longleftrightarrow> x = y \<or> mem x s"
    and mem_remove: "mem x (rem y s) \<longleftrightarrow> x \<noteq> y \<and> mem x s"
    and mem_elems: "mem x s \<longleftrightarrow> x \<in> set (elems s)"
begin

lemma elems_insert: "set (elems (ins y s)) = insert y (set (elems s))"
  by (auto simp: mem_elems [symmetric] mem_insert)

lemma elems_fold_insert: "set (elems (fold ins xs s)) = set xs \<union> set (elems s)"
  by (induction xs arbitrary: s) (auto simp: elems_insert)

end

subsection \<open>Lists provide them\<close>

lemma hm_get_Nil [simp, hm_simps]: "hm_get [] k = None"
  by (simp add: hm_get_def)

lemma hm_get_insert [simp, hm_simps]:
  "hm_get (hm_insert k v m) j = (if j = k then Some v else hm_get m j)"
  by (induction k v m rule: hm_insert.induct) (auto simp: hm_get_def)

lemma hm_get_remove [simp, hm_simps]:
  "hm_get (hm_remove k m) j = (if j = k then None else hm_get m j)"
  by (induction m) (auto simp: hm_get_def hm_remove_def)

lemma set_hm_keys: "set (hm_keys m) = {k. hm_get m k \<noteq> None}"
  by (auto simp: hm_keys_def hm_get_def map_of_eq_None_iff image_iff)

lemma keys_hm_insert: "fst ` set (hm_insert k v m) = insert k (fst ` set m)"
  by (induction k v m rule: hm_insert.induct) auto

lemma hm_wf_insert [simp, intro]: "hm_wf m \<Longrightarrow> hm_wf (hm_insert k v m)"
  by (induction k v m rule: hm_insert.induct)
    (auto simp: hm_wf_def keys_hm_insert)

lemma hm_wf_remove [simp, intro]: "hm_wf m \<Longrightarrow> hm_wf (hm_remove k m)"
  by (simp add: hm_wf_def hm_remove_def distinct_map_filter)

lemma hm_wf_Nil [simp, intro]: "hm_wf []"
  by (simp add: hm_wf_def)

interpretation hm: hash_map "[]" hm_get hm_insert hm_remove hm_keys hm_wf
  by unfold_locales (auto simp: set_hm_keys, auto simp: hm_wf_def hm_keys_def)

lemma set_hs_insert [simp, hm_simps]: "set (hs_insert x s) = insert x (set s)"
  by (auto simp: hs_insert_def)

lemma set_hs_remove [simp, hm_simps]: "set (hs_remove x s) = set s - {x}"
  by (auto simp: hs_remove_def)

lemma distinct_hs_insert [simp, intro]: "distinct s \<Longrightarrow> distinct (hs_insert x s)"
  by (simp add: hs_insert_def)

interpretation hs: hash_set "[]" "\<lambda>x s. x \<in> set s" hs_insert hs_remove "\<lambda>s. s"
  by unfold_locales auto

lemma hm_contains_key_iff [hm_simps]: "hm_contains_key m k \<longleftrightarrow> k \<in> set (hm_keys m)"
  by (simp add: hm_contains_key_def set_hm_keys)

lemma hm_values_get: "hm_wf m \<Longrightarrow> v \<in> set (hm_values m) \<longleftrightarrow> (\<exists>k. hm_get m k = Some v)"
  by (force simp: hm_values_def hm_get_def hm_wf_def image_iff)

section \<open>Characters\<close>

definition in_range :: "nat \<Rightarrow> nat \<Rightarrow> char \<Rightarrow> bool" where
  "in_range lo hi c \<longleftrightarrow> lo \<le> of_char c \<and> of_char c \<le> hi"

definition is_ascii_digit :: "char \<Rightarrow> bool" where
  "is_ascii_digit c \<longleftrightarrow> in_range 48 57 c"

definition is_ascii_lower :: "char \<Rightarrow> bool" where
  "is_ascii_lower c \<longleftrightarrow> in_range 97 122 c"

definition is_ascii_upper :: "char \<Rightarrow> bool" where
  "is_ascii_upper c \<longleftrightarrow> in_range 65 90 c"

definition is_ascii_alphabetic :: "char \<Rightarrow> bool" where
  "is_ascii_alphabetic c \<longleftrightarrow> is_ascii_lower c \<or> is_ascii_upper c"

definition is_ascii_alphanumeric :: "char \<Rightarrow> bool" where
  "is_ascii_alphanumeric c \<longleftrightarrow> is_ascii_alphabetic c \<or> is_ascii_digit c"

definition is_ascii_hexdigit :: "char \<Rightarrow> bool" where
  "is_ascii_hexdigit c \<longleftrightarrow> is_ascii_digit c \<or> in_range 97 102 c \<or> in_range 65 70 c"

lemmas char_class_defs = in_range_def is_ascii_digit_def is_ascii_lower_def
  is_ascii_upper_def is_ascii_alphabetic_def is_ascii_alphanumeric_def is_ascii_hexdigit_def

definition to_ascii_lower :: "char \<Rightarrow> char" where
  "to_ascii_lower c = (if is_ascii_upper c then char_of (of_char c + 32 :: nat) else c)"

abbreviation newline_char :: char where
  "newline_char \<equiv> CHR 0x0A"

fun join_with :: "string \<Rightarrow> string list \<Rightarrow> string" where
  "join_with sep [] = []"
| "join_with sep [s] = s"
| "join_with sep (s # t # ss) = s @ sep @ join_with sep (t # ss)"

abbreviation return_char :: char where
  "return_char \<equiv> CHR 0x0D"

abbreviation tab_char :: char where
  "tab_char \<equiv> CHR 0x09"

abbreviation quote_char :: char where
  "quote_char \<equiv> CHR 0x22"

abbreviation backslash_char :: char where
  "backslash_char \<equiv> CHR 0x5C"

section \<open>Numerals in text\<close>

definition digit_char :: "nat \<Rightarrow> char" where
  "digit_char d = char_of (if d < 10 then 48 + d else 87 + d)"

definition digit_val :: "char \<Rightarrow> nat" where
  "digit_val c = (let n = of_char c in
     if n \<le> 57 then n - 48 else if n \<le> 70 then n - 55 else n - 87)"

fun nat_to_dec :: "nat \<Rightarrow> string" where
  "nat_to_dec n = (if n < 10 then [digit_char n] else nat_to_dec (n div 10) @ [digit_char (n mod 10)])"

declare nat_to_dec.simps [simp del]

definition int_to_dec :: "int \<Rightarrow> string" where
  "int_to_dec i = (if i < 0 then CHR ''-'' # nat_to_dec (nat (- i)) else nat_to_dec (nat i))"

definition digits_val :: "nat \<Rightarrow> string \<Rightarrow> nat" where
  "digits_val b s = foldl (\<lambda>n c. n * b + digit_val c) 0 s"

definition bool_to_str :: "bool \<Rightarrow> string" where
  "bool_to_str b = (if b then ''true'' else ''false'')"

definition single_quoted :: "string \<Rightarrow> string" where
  "single_quoted s = CHR 0x27 # s @ [CHR 0x27]"

definition usize_to_dec :: "usize \<Rightarrow> string" where
  "usize_to_dec n = nat_to_dec (unat n)"

lemma digits_val_snoc [simp]: "digits_val b (s @ [c]) = digits_val b s * b + digit_val c"
  by (simp add: digits_val_def)

lemma digits_val_Nil [simp]: "digits_val b [] = 0"
  by (simp add: digits_val_def)

lemma digit_val_digit_char [simp]: "d < 16 \<Longrightarrow> digit_val (digit_char d) = d"
  by (auto simp: digit_val_def digit_char_def Let_def of_char_of)

lemma is_ascii_digit_digit_char [simp]: "d < 10 \<Longrightarrow> is_ascii_digit (digit_char d)"
  by (auto simp: char_class_defs digit_char_def of_char_of)

lemma nat_to_dec_digits: "\<forall>c \<in> set (nat_to_dec n). is_ascii_digit c"
  by (induction n rule: nat_to_dec.induct) (subst nat_to_dec.simps, auto)

lemma nat_to_dec_nonempty [simp]: "nat_to_dec n \<noteq> []"
  by (subst nat_to_dec.simps) simp

lemma digits_val_nat_to_dec [simp]: "digits_val 10 (nat_to_dec n) = n"
proof (induction n rule: nat_to_dec.induct)
  case (1 n)
  show ?case
  proof (cases "n < 10")
    case True
    then show ?thesis by (subst nat_to_dec.simps) (simp add: digits_val_def)
  next
    case False
    with 1 show ?thesis by (subst nat_to_dec.simps) simp
  qed
qed

section \<open>Lists\<close>

lemma set_concat_map: "set (concat (map f xs)) = (\<Union>x \<in> set xs. set (f x))"
  by simp

lemma concat_map_eq_Nil: "concat (map f xs) = [] \<longleftrightarrow> (\<forall>x \<in> set xs. f x = [])"
  by simp

lemma find_Some_iff_ex: "(\<exists>y. find P xs = Some y) \<longleftrightarrow> (\<exists>x \<in> set xs. P x)"
  by (induction xs) auto

lemma find_SomeD: "find P xs = Some y \<Longrightarrow> y \<in> set xs \<and> P y"
  by (induction xs) (auto split: if_splits)

lemma find_None: "find P xs = None \<longleftrightarrow> (\<forall>x \<in> set xs. \<not> P x)"
  by (induction xs) auto

lemma dropWhile_length_less: "xs \<noteq> [] \<Longrightarrow> length (dropWhile P (tl xs)) < length xs"
  by (cases xs) (auto simp: le_imp_less_Suc length_dropWhile_le)

end
