(* ===== verification/Sigil_Ast.thy ===== *)
theory Sigil_Ast
  imports Sigil_Prelude
begin

text \<open>
  The abstract syntax of Sigil, after \<^verbatim>\<open>compiler/src/ast.rs\<close>, with the
  \<^verbatim>\<open>Span\<close> of \<^verbatim>\<open>compiler/src/lexer.rs\<close> that every node carries.

  The enumerations keep the source's variants. The 28 arithmetic, comparison and
  bitwise variants of \<^verbatim>\<open>Expr\<close> that share the shape \<^verbatim>\<open>Op(a, b, size)\<close>
  are grouped under the five headings the source comments give them, so
  \<^verbatim>\<open>Expr::Iadd(a, b, n)\<close> is \<open>IArith Iadd a b n\<close>,
  \<^verbatim>\<open>Expr::Flt(a, b, n)\<close> is \<open>FCmp Flt a b n\<close> and so on. A float literal is kept as
  its decimal text: no modelled component computes with its value.
\<close>

section \<open>Source positions and types\<close>

record span =
  sp_line :: nat
  sp_col :: nat
  sp_len :: nat

definition span_new :: "nat \<Rightarrow> nat \<Rightarrow> nat \<Rightarrow> span" where
  "span_new l c n = \<lparr>sp_line = l, sp_col = c, sp_len = n\<rparr>"

datatype stype = TBytes | TInt | TFloat | TString

datatype guarantee = Pure | NoAlloc | WritesOutput

section \<open>Contracts\<close>

record parameter =
  p_name :: string
  p_typ :: stype
  p_size :: usize

record behavior_ref =
  br_name :: string
  br_hash :: string

record requirements =
  rq_behaviors :: "behavior_ref list"
  rq_memory :: "string list"

definition requirements_default :: requirements where
  "requirements_default = \<lparr>rq_behaviors = [], rq_memory = []\<rparr>"

record contract =
  c_inputs :: "parameter list"
  c_outputs :: "parameter list"
  c_requires :: requirements
  c_guarantees :: "guarantee list"

section \<open>Expressions and nodes\<close>

datatype iarith = Iadd | Isub | Imul | Idiv | Imod
datatype icmp = Ieq | Ine | Ilt | Igt | Ile | Ige
datatype farith = Fadd | Fsub | Fmul | Fdiv
datatype fcmp = Feq | Fne | Flt | Fgt | Fle | Fge
datatype bitop = And | Or | Xor | Shl | Shr | Sar

datatype expr =
    IntLit i64
  | FloatLit string
  | StringLit string
  | Var string
  | Field expr string
  | Load expr usize "expr option"
  | Alloc expr stype bool
  | IArith iarith expr expr usize
  | Ineg expr usize
  | FArith farith expr expr usize
  | Fneg expr usize
  | ICmp icmp expr expr usize
  | FCmp fcmp expr expr usize
  | Bitwise bitop expr expr usize
  | BNot expr usize
  | AtomicLoad expr usize
  | AtomicStore expr expr usize
  | Cas expr expr expr usize
  | AtomicAdd expr expr usize
  | AtomicSub expr expr usize
  | Ftoi expr usize usize
  | Itof expr usize usize
  | Call string "expr list"
  | Channel stype expr
  | ChannelReceive string
  | Spawn string "expr list"
  | Wait string

datatype node = Node span node_kind
and node_kind =
    Assignment string expr
  | Label string
  | Scope "node list"
  | Branch expr string string
  | Jump string
  | Set string expr
  | Discard expr
  | Store string expr usize "expr option"
  | Free string
  | SpawnNode string string "expr list"
  | WaitNode string string
  | WaitAll "string list" "string list"
  | WaitAny string string "string list"
  | ChannelSend string expr
  | ChannelClose string
  | CallNode "string option" string "expr list" "string list"

fun node_span :: "node \<Rightarrow> span" where
  "node_span (Node sp k) = sp"

fun node_kind_of :: "node \<Rightarrow> node_kind" where
  "node_kind_of (Node sp k) = k"

definition node_line :: "node \<Rightarrow> nat" where
  "node_line n = sp_line (node_span n)"

section \<open>Behaviors, patterns, libraries and executables\<close>

record platform_impl =
  pi_platform :: "string option"
  pi_nodes :: "node list"

record behavior =
  b_name :: string
  b_description :: "string option"
  b_contract :: contract
  b_hash :: string
  b_implementations :: "platform_impl list"
  b_composition :: "node list option"
  b_is_native :: bool

record memory_decl =
  md_name :: string
  md_typ :: stype
  md_size :: usize

record pattern =
  pt_name :: string
  pt_memory :: "memory_decl list"
  pt_on_create :: "node list"
  pt_behaviors :: "behavior list"
  pt_on_destroy :: "node list"

record library =
  lib_name :: string
  lib_behaviors :: "behavior list"

record executable =
  ex_name :: string
  ex_description :: "string option"
  ex_uses :: "string list"
  ex_entry :: "node list"

definition empty_contract :: contract where
  "empty_contract =
     \<lparr>c_inputs = [], c_outputs = [], c_requires = requirements_default, c_guarantees = []\<rparr>"

definition behavior_new :: "string \<Rightarrow> behavior" where
  "behavior_new name =
     \<lparr>b_name = name, b_description = None, b_contract = empty_contract, b_hash = [],
      b_implementations = [], b_composition = None, b_is_native = False\<rparr>"

end
