(* ===== verification/Sigil_Error.thy ===== *)
theory Sigil_Error
  imports Sigil_Ast
begin

text \<open>
  The errors and warnings of the semantic analyzer, after
  \<^verbatim>\<open>compiler/src/semantic/types.rs\<close>. \<open>error_kind\<close> keeps the variants of
  \<^verbatim>\<open>ErrorKind\<close>; variants whose source name is already a constructor of another type
  carry the suffix \<open>Err\<close>.
\<close>

datatype error_kind =
    InvalidIntSize usize
  | InvalidFloatSize usize
  | TypeMismatch string string
  | HandleUsedAsValue string string string
  | UndefinedLabel string
  | DuplicateLabel string nat
  | UninitializedRead string
  | PossibleBoundsViolation string usize usize
  | MissingDependency string
  | CallArgCountMismatch string nat nat
  | CallArgTypeMismatch string string string string
  | CallArgSizeMismatch string string usize usize
  | OutputSizeMismatch string usize usize
  | HashMismatch string string
  | DependencyHashMismatch string string string
  | CompositeComputes string
  | LeafCalls string
  | UnconsumedOutput string string
  | PureViolation string
  | NoAllocViolation string
  | OutputNotWritten "string list"
  | SpawnRequiresPattern string
  | NonAtomicSharedAccess string string
  | ChannelTypeMismatch string string string
  | MemoryLeak string
  | UninitializedLoad string
  | PathDoesNotTerminate
  | ChannelSendTypeMismatch string string string
  | ChannelReceiveTypeMismatch string string string
  | UseAfterFree string nat
  | DoubleFree string nat
  | FreeWhileBorrowed string string
  | FreeBorrowedHandle string
  | UndefinedVariable string

record semantic_error =
  se_kind :: error_kind
  se_line :: nat
  se_context :: "string option"

record semantic_warning =
  sw_message :: string
  sw_line :: nat

section \<open>The analyzer's own state\<close>

record analyzer =
  an_errors :: "semantic_error list"
  an_warnings :: "semantic_warning list"

definition analyzer_new :: analyzer where
  "analyzer_new = \<lparr>an_errors = [], an_warnings = []\<rparr>"

definition sem_error :: "error_kind \<Rightarrow> nat \<Rightarrow> string option \<Rightarrow> semantic_error" where
  "sem_error k l c = \<lparr>se_kind = k, se_line = l, se_context = c\<rparr>"

definition push_error :: "error_kind \<Rightarrow> nat \<Rightarrow> string option \<Rightarrow> analyzer \<Rightarrow> analyzer" where
  "push_error k l c an = an\<lparr>an_errors := an_errors an @ [sem_error k l c]\<rparr>"

definition push_warning :: "string \<Rightarrow> nat \<Rightarrow> analyzer \<Rightarrow> analyzer" where
  "push_warning m l an = an\<lparr>an_warnings := an_warnings an @ [\<lparr>sw_message = m, sw_line = l\<rparr>]\<rparr>"

lemma errors_push_error [simp]:
  "an_errors (push_error k l c an) = an_errors an @ [sem_error k l c]"
  by (simp add: push_error_def)

lemma errors_push_warning [simp]: "an_errors (push_warning m l an) = an_errors an"
  by (simp add: push_warning_def)

lemma kind_sem_error [simp]: "se_kind (sem_error k l c) = k"
  by (simp add: sem_error_def)

lemma line_sem_error [simp]: "se_line (sem_error k l c) = l"
  by (simp add: sem_error_def)

text \<open>The kinds of the errors an analyzer holds.\<close>

definition kinds :: "analyzer \<Rightarrow> error_kind set" where
  "kinds an = se_kind ` set (an_errors an)"

lemma kinds_push_error [simp]: "kinds (push_error k l c an) = insert k (kinds an)"
  by (auto simp: kinds_def)

lemma kinds_push_warning [simp]: "kinds (push_warning m l an) = kinds an"
  by (simp add: kinds_def)

lemma kinds_new [simp]: "kinds analyzer_new = {}"
  by (simp add: kinds_def analyzer_new_def)

lemma errors_empty_iff: "an_errors an = [] \<longleftrightarrow> kinds an = {}"
  by (simp add: kinds_def)

end
