(* ===== verification/Sigil_Context.thy ===== *)
theory Sigil_Context
  imports Sigil_Error
begin

text \<open>
  The context of semantic analysis, after \<^verbatim>\<open>compiler/src/semantic/context.rs\<close>: variable
  origins and ownership states, the context record, and the operations on it. A
  \<^verbatim>\<open>HashMap\<close> or \<^verbatim>\<open>HashSet\<close> field is a list as explained in the prelude.
\<close>

section \<open>Variables\<close>

datatype var_origin =
    OInput usize
  | OOutput usize
  | OAlloc "usize option"
  | LoadResult
  | Computed
  | CallResult "usize option"

datatype handle_state = Owned | Borrowed | Freed nat | NotAHandle

record active_borrow =
  ab_pattern_name :: string
  ab_spawn_line :: nat
  ab_spawn_handle :: string

record var_info =
  vi_typ :: "stype option"
  vi_size :: usize
  vi_initialized :: bool
  vi_origin :: var_origin
  vi_state :: handle_state
  vi_shared :: bool
  vi_channel_element_type :: "stype option"

definition allocated_size :: "var_info \<Rightarrow> usize option" where
  "allocated_size info = (case vi_origin info of
     OInput declared \<Rightarrow> Some declared
   | OOutput declared \<Rightarrow> Some declared
   | OAlloc sz \<Rightarrow> sz
   | CallResult sz \<Rightarrow> sz
   | LoadResult \<Rightarrow> None
   | Computed \<Rightarrow> None)"

section \<open>The context\<close>

record analysis_context =
  ac_labels :: "(string, nat) hmap"
  ac_variables :: "(string, var_info) hmap"
  ac_inputs :: "(string, parameter) hmap"
  ac_outputs :: "(string, parameter) hmap"
  ac_written_outputs :: "string hset"
  ac_guarantees :: "guarantee list"
  ac_current_line :: nat
  ac_has_unscoped_alloc :: bool
  ac_scope_depth :: nat
  ac_has_channel_ops :: bool
  ac_has_non_output_writes :: bool
  ac_dependency_contracts :: "(string, contract) hmap"
  ac_pattern_names :: "string hset"
  ac_spawn_borrows :: "(string, active_borrow list) hmap"

definition input_info :: "parameter \<Rightarrow> var_info" where
  "input_info p = \<lparr>vi_typ = Some (p_typ p), vi_size = p_size p, vi_initialized = True,
     vi_origin = OInput (p_size p), vi_state = Borrowed, vi_shared = False,
     vi_channel_element_type = None\<rparr>"

definition output_info :: "parameter \<Rightarrow> var_info" where
  "output_info p = \<lparr>vi_typ = Some (p_typ p), vi_size = p_size p, vi_initialized = False,
     vi_origin = OOutput (p_size p), vi_state = Borrowed, vi_shared = False,
     vi_channel_element_type = None\<rparr>"

definition register_input :: "parameter \<Rightarrow> analysis_context \<Rightarrow> analysis_context" where
  "register_input p ctx = ctx\<lparr>ac_inputs := hm_insert (p_name p) p (ac_inputs ctx),
     ac_variables := hm_insert (p_name p) (input_info p) (ac_variables ctx)\<rparr>"

definition register_output :: "parameter \<Rightarrow> analysis_context \<Rightarrow> analysis_context" where
  "register_output p ctx = ctx\<lparr>ac_outputs := hm_insert (p_name p) p (ac_outputs ctx),
     ac_variables := hm_insert (p_name p) (output_info p) (ac_variables ctx)\<rparr>"

definition context_new ::
  "behavior \<Rightarrow> (string, contract) hmap \<Rightarrow> string hset \<Rightarrow> analysis_context" where
  "context_new behavior dependencies patterns =
     (let ctx = \<lparr>ac_labels = [], ac_variables = [], ac_inputs = [], ac_outputs = [],
        ac_written_outputs = [], ac_guarantees = c_guarantees (b_contract behavior),
        ac_current_line = 1, ac_has_unscoped_alloc = False, ac_scope_depth = 0,
        ac_has_channel_ops = False, ac_has_non_output_writes = False,
        ac_dependency_contracts = dependencies, ac_pattern_names = patterns,
        ac_spawn_borrows = []\<rparr>
      in fold register_output (c_outputs (b_contract behavior))
           (fold register_input (c_inputs (b_contract behavior)) ctx))"

section \<open>Operations\<close>

definition define_label :: "string \<Rightarrow> nat \<Rightarrow> analysis_context \<Rightarrow> nat option \<times> analysis_context" where
  "define_label name line ctx = (case hm_get (ac_labels ctx) name of
     Some first \<Rightarrow> (Some first, ctx)
   | None \<Rightarrow> (None, ctx\<lparr>ac_labels := hm_insert name line (ac_labels ctx)\<rparr>))"

definition label_exists :: "analysis_context \<Rightarrow> string \<Rightarrow> bool" where
  "label_exists ctx name \<longleftrightarrow> hm_contains_key (ac_labels ctx) name"

definition define_var ::
  "string \<Rightarrow> stype option \<Rightarrow> usize \<Rightarrow> var_origin \<Rightarrow> handle_state \<Rightarrow> bool \<Rightarrow> stype option
     \<Rightarrow> analysis_context \<Rightarrow> analysis_context" where
  "define_var name typ sz origin state shared elem ctx =
     ctx\<lparr>ac_variables := hm_insert name
        \<lparr>vi_typ = typ, vi_size = sz, vi_initialized = True, vi_origin = origin, vi_state = state,
         vi_shared = shared, vi_channel_element_type = elem\<rparr> (ac_variables ctx)\<rparr>"

definition get_var :: "analysis_context \<Rightarrow> string \<Rightarrow> var_info option" where
  "get_var ctx name = hm_get (ac_variables ctx) name"

definition var_exists :: "analysis_context \<Rightarrow> string \<Rightarrow> bool" where
  "var_exists ctx name \<longleftrightarrow> hm_contains_key (ac_variables ctx) name"

definition mark_freed :: "string \<Rightarrow> nat \<Rightarrow> analysis_context \<Rightarrow> analysis_context" where
  "mark_freed name line ctx = (case hm_get (ac_variables ctx) name of
     Some info \<Rightarrow> ctx\<lparr>ac_variables := hm_insert name (info\<lparr>vi_state := Freed line\<rparr>) (ac_variables ctx)\<rparr>
   | None \<Rightarrow> ctx)"

definition get_active_borrow :: "analysis_context \<Rightarrow> string \<Rightarrow> active_borrow option" where
  "get_active_borrow ctx handle = (case hm_get (ac_spawn_borrows ctx) handle of
     Some (b # _) \<Rightarrow> Some b
   | _ \<Rightarrow> None)"

definition add_spawn_borrow ::
  "string \<Rightarrow> string \<Rightarrow> nat \<Rightarrow> string \<Rightarrow> analysis_context \<Rightarrow> analysis_context" where
  "add_spawn_borrow handle pat line spawn_handle ctx =
     (let old = (case hm_get (ac_spawn_borrows ctx) handle of Some bs \<Rightarrow> bs | None \<Rightarrow> [])
      in ctx\<lparr>ac_spawn_borrows := hm_insert handle
           (old @ [\<lparr>ab_pattern_name = pat, ab_spawn_line = line, ab_spawn_handle = spawn_handle\<rparr>])
           (ac_spawn_borrows ctx)\<rparr>)"

definition release_spawn_borrows :: "string \<Rightarrow> analysis_context \<Rightarrow> analysis_context" where
  "release_spawn_borrows spawn_handle ctx =
     ctx\<lparr>ac_spawn_borrows :=
        map (\<lambda>(k, bs). (k, filter (\<lambda>b. ab_spawn_handle b \<noteq> spawn_handle) bs)) (ac_spawn_borrows ctx)\<rparr>"

definition mark_output_written :: "string \<Rightarrow> analysis_context \<Rightarrow> analysis_context" where
  "mark_output_written name ctx =
     (if hm_contains_key (ac_outputs ctx) name
      then ctx\<lparr>ac_written_outputs := hs_insert name (ac_written_outputs ctx)\<rparr> else ctx)"

definition unwritten_outputs :: "analysis_context \<Rightarrow> string list" where
  "unwritten_outputs ctx =
     filter (\<lambda>k. k \<notin> set (ac_written_outputs ctx)) (hm_keys (ac_outputs ctx))"

definition has_guarantee :: "analysis_context \<Rightarrow> guarantee \<Rightarrow> bool" where
  "has_guarantee ctx g \<longleftrightarrow> g \<in> set (ac_guarantees ctx)"

section \<open>What the operations do to the lookups\<close>

lemma get_var_define_var [simp]:
  "get_var (define_var n t sz og st sh el ctx) x =
     (if x = n then Some \<lparr>vi_typ = t, vi_size = sz, vi_initialized = True, vi_origin = og,
        vi_state = st, vi_shared = sh, vi_channel_element_type = el\<rparr> else get_var ctx x)"
  by (simp add: get_var_def define_var_def)

lemma var_exists_get_var: "var_exists ctx x \<longleftrightarrow> get_var ctx x \<noteq> None"
  by (simp add: var_exists_def get_var_def hm_contains_key_def)

lemma var_exists_define_var [simp]:
  "var_exists (define_var n t sz og st sh el ctx) x \<longleftrightarrow> x = n \<or> var_exists ctx x"
  by (simp add: var_exists_get_var)

lemma hm_get_map_values: "hm_get (map (\<lambda>(k, v). (k, f v)) m) k = map_option f (hm_get m k)"
  by (induction m) (auto simp: hm_get_def)

text \<open>The spawn handles that hold a borrow of a variable.\<close>

definition borrows :: "analysis_context \<Rightarrow> string \<Rightarrow> active_borrow list" where
  "borrows ctx handle = (case hm_get (ac_spawn_borrows ctx) handle of Some bs \<Rightarrow> bs | None \<Rightarrow> [])"

lemma borrows_add [simp]:
  "borrows (add_spawn_borrow h p l s ctx) x =
     borrows ctx x @ (if x = h then [\<lparr>ab_pattern_name = p, ab_spawn_line = l, ab_spawn_handle = s\<rparr>] else [])"
  by (auto simp: borrows_def add_spawn_borrow_def Let_def split: option.splits)

lemma borrows_release [simp]:
  "borrows (release_spawn_borrows s ctx) x = filter (\<lambda>b. ab_spawn_handle b \<noteq> s) (borrows ctx x)"
  by (auto simp: borrows_def release_spawn_borrows_def hm_get_map_values split: option.splits)

lemma get_active_borrow_alt:
  "get_active_borrow ctx x = (case borrows ctx x of [] \<Rightarrow> None | b # _ \<Rightarrow> Some b)"
  by (auto simp: get_active_borrow_def borrows_def split: option.splits list.splits)

end
