(* ===== verification/Sigil_Expr_Check.thy ===== *)
theory Sigil_Expr_Check
  imports Sigil_Context
begin

text \<open>
  Expression checks of the semantic analyzer, after
  \<^verbatim>\<open>compiler/src/semantic/mod.rs\<close>: constant evaluation, type and origin inference, size and
  bounds checks, handle-as-value checks, call arguments and \<^verbatim>\<open>validate_expr\<close>.

  A method on \<^verbatim>\<open>&mut self\<close> maps the analyzer to the analyzer; one that also takes
  \<^verbatim>\<open>&mut AnalysisContext\<close> maps the pair of both. Line numbers and argument counts are
  natural numbers (they count lines and list elements of one source file); byte sizes and
  offsets are 64-bit words.
\<close>

section \<open>Sizes and constants\<close>

definition type_to_string :: "stype \<Rightarrow> string" where
  "type_to_string t = (case t of
     TInt \<Rightarrow> ''int'' | TFloat \<Rightarrow> ''float'' | TBytes \<Rightarrow> ''bytes'' | TString \<Rightarrow> ''string'')"

definition type_debug :: "stype \<Rightarrow> string" where
  "type_debug t = (case t of
     TInt \<Rightarrow> ''Int'' | TFloat \<Rightarrow> ''Float'' | TBytes \<Rightarrow> ''Bytes'' | TString \<Rightarrow> ''String'')"

definition valid_int_size :: "usize \<Rightarrow> bool" where
  "valid_int_size n \<longleftrightarrow> n = 1 \<or> n = 2 \<or> n = 4 \<or> n = 8"

definition valid_float_size :: "usize \<Rightarrow> bool" where
  "valid_float_size n \<longleftrightarrow> n = 4 \<or> n = 8"

definition validate_int_size :: "usize \<Rightarrow> nat \<Rightarrow> string \<Rightarrow> analyzer \<Rightarrow> analyzer" where
  "validate_int_size n line context an =
     (if valid_int_size n then an else push_error (InvalidIntSize n) line (Some context) an)"

definition validate_float_size :: "usize \<Rightarrow> nat \<Rightarrow> string \<Rightarrow> analyzer \<Rightarrow> analyzer" where
  "validate_float_size n line context an =
     (if valid_float_size n then an else push_error (InvalidFloatSize n) line (Some context) an)"

fun const_op :: "iarith \<Rightarrow> (usize \<Rightarrow> usize \<Rightarrow> usize) option" where
  "const_op Iadd = Some (+)"
| "const_op Isub = Some (-)"
| "const_op Imul = Some (*)"
| "const_op _ = None"

fun try_eval_const :: "expr \<Rightarrow> usize option" where
  "try_eval_const (IntLit n) = Some n"
| "try_eval_const (IArith iop a b _) =
     (case const_op iop of
        None \<Rightarrow> None
      | Some f \<Rightarrow> (case try_eval_const a of
            None \<Rightarrow> None
          | Some av \<Rightarrow> (case try_eval_const b of None \<Rightarrow> None | Some bv \<Rightarrow> Some (f av bv))))"
| "try_eval_const _ = None"

section \<open>Inference\<close>

type_synonym expr_info = "stype option \<times> usize \<times> var_origin \<times> handle_state \<times> bool"

definition value_info :: "stype \<Rightarrow> usize \<Rightarrow> expr_info" where
  "value_info t n = (Some t, n, Computed, NotAHandle, False)"

fun infer_expr_info :: "analysis_context \<Rightarrow> expr \<Rightarrow> expr_info" where
  "infer_expr_info ctx (IntLit _) = value_info TInt 8"
| "infer_expr_info ctx (FloatLit _) = value_info TFloat 8"
| "infer_expr_info ctx (StringLit s) = value_info TString (of_nat (length s) + 8)"
| "infer_expr_info ctx (Var name) = (case hm_get (ac_variables ctx) name of
     Some info \<Rightarrow> (vi_typ info, vi_size info, vi_origin info, vi_state info, vi_shared info)
   | None \<Rightarrow> (None, 8, Computed, NotAHandle, False))"
| "infer_expr_info ctx (Alloc sz typ shared) =
     (Some typ, (case try_eval_const sz of Some n \<Rightarrow> n | None \<Rightarrow> 8),
      OAlloc (try_eval_const sz), Owned, shared)"
| "infer_expr_info ctx (Load _ n _) = (Some TInt, n, LoadResult, NotAHandle, False)"
| "infer_expr_info ctx (Call _ _) = (None, 8, CallResult None, NotAHandle, False)"
| "infer_expr_info ctx (IArith _ _ _ n) = value_info TInt n"
| "infer_expr_info ctx (Ineg _ n) = value_info TInt n"
| "infer_expr_info ctx (ICmp _ _ _ _) = value_info TInt 8"
| "infer_expr_info ctx (FArith _ _ _ n) = value_info TFloat n"
| "infer_expr_info ctx (Fneg _ n) = value_info TFloat n"
| "infer_expr_info ctx (FCmp _ _ _ _) = value_info TInt 8"
| "infer_expr_info ctx (Bitwise _ _ _ n) = value_info TInt n"
| "infer_expr_info ctx (BNot _ n) = value_info TInt n"
| "infer_expr_info ctx (Ftoi _ _ int_size) = value_info TInt int_size"
| "infer_expr_info ctx (Itof _ _ float_size) = value_info TFloat float_size"
| "infer_expr_info ctx (AtomicLoad _ n) = (Some TInt, n, LoadResult, NotAHandle, False)"
| "infer_expr_info ctx (AtomicStore _ _ n) = value_info TInt n"
| "infer_expr_info ctx (Cas _ _ _ n) = value_info TInt n"
| "infer_expr_info ctx (AtomicAdd _ _ n) = value_info TInt n"
| "infer_expr_info ctx (AtomicSub _ _ n) = value_info TInt n"
| "infer_expr_info ctx (Spawn _ _) = (Some TInt, 8, Computed, Owned, False)"
| "infer_expr_info ctx (Wait _) = value_info TInt 8"
| "infer_expr_info ctx (Channel _ _) = (Some TInt, 8, Computed, Owned, False)"
| "infer_expr_info ctx (ChannelReceive c) = (case get_var ctx c of
     Some info \<Rightarrow> (case vi_channel_element_type info of
         Some t \<Rightarrow> value_info t 8
       | None \<Rightarrow> value_info TInt 8)
   | None \<Rightarrow> value_info TInt 8)"
| "infer_expr_info ctx (Field _ _) = (None, 8, Computed, NotAHandle, False)"

section \<open>Handles used as values\<close>

definition operand_handle_kind :: "analysis_context \<Rightarrow> expr \<Rightarrow> string option" where
  "operand_handle_kind ctx e = (case e of
     Field _ _ \<Rightarrow> Some ''CALL-result field''
   | Alloc _ _ _ \<Rightarrow> Some ''ALLOC handle''
   | Var name \<Rightarrow> (case hm_get (ac_variables ctx) name of
         None \<Rightarrow> None
       | Some info \<Rightarrow> (case vi_origin info of
             OInput _ \<Rightarrow> Some ''INPUT''
           | OOutput _ \<Rightarrow> Some ''OUTPUT''
           | OAlloc _ \<Rightarrow> Some ''ALLOC handle''
           | CallResult _ \<Rightarrow> Some ''CALL result''
           | LoadResult \<Rightarrow> None
           | Computed \<Rightarrow> None))
   | _ \<Rightarrow> None)"

definition operand_name :: "expr \<Rightarrow> string" where
  "operand_name e = (case e of
     Var n \<Rightarrow> n
   | Field base field \<Rightarrow> (case base of Var b \<Rightarrow> b @ ''.'' @ field | _ \<Rightarrow> field)
   | _ \<Rightarrow> ''operand'')"

definition check_value_operand :: "expr \<Rightarrow> string \<Rightarrow> analysis_context \<Rightarrow> analyzer \<Rightarrow> analyzer" where
  "check_value_operand e op ctx an = (case operand_handle_kind ctx e of
     Some kind \<Rightarrow> push_error (HandleUsedAsValue (operand_name e) kind op) (ac_current_line ctx) None an
   | None \<Rightarrow> an)"

section \<open>Bounds\<close>

definition check_bounds ::
  "analysis_context \<Rightarrow> string \<Rightarrow> usize \<Rightarrow> expr option \<Rightarrow> nat \<Rightarrow> string \<Rightarrow> analyzer \<Rightarrow> analyzer" where
  "check_bounds ctx handle access_size offset_expr line operation an =
     (case get_var ctx handle of
        None \<Rightarrow> an
      | Some info \<Rightarrow> (case allocated_size info of
          None \<Rightarrow> an
        | Some asz \<Rightarrow>
            (case (case offset_expr of None \<Rightarrow> Some 0 | Some e \<Rightarrow> try_eval_const e) of
               None \<Rightarrow> push_warning (operation @ '' with dynamic offset on '' @ single_quoted handle
                   @ '': bounds cannot be verified at compile time'') line an
             | Some offset \<Rightarrow>
                 (let end_offset = saturating_add offset access_size in
                  if end_offset > asz
                  then push_error (PossibleBoundsViolation handle offset access_size) line
                    (Some (operation @ '': access at ['' @ usize_to_dec offset @ '':'' @
                       usize_to_dec end_offset @ ''] exceeds allocation size '' @ usize_to_dec asz)) an
                  else an))))"

section \<open>Call arguments\<close>

definition size_mismatch :: "stype \<Rightarrow> usize \<Rightarrow> usize \<Rightarrow> bool" where
  "size_mismatch t arg_size param_size \<longleftrightarrow> (case t of
     TBytes \<Rightarrow> arg_size > param_size
   | TString \<Rightarrow> False
   | TInt \<Rightarrow> arg_size \<noteq> param_size
   | TFloat \<Rightarrow> arg_size \<noteq> param_size)"

definition arg_context :: "nat \<Rightarrow> parameter \<Rightarrow> string" where
  "arg_context i p = ''argument '' @ nat_to_dec (i + 1) @ '' ('' @ single_quoted (p_name p) @ '')''"

definition validate_call_arg ::
  "string \<Rightarrow> nat \<Rightarrow> analysis_context \<Rightarrow> nat \<times> expr \<times> parameter \<Rightarrow> analyzer \<Rightarrow> analyzer" where
  "validate_call_arg behavior line ctx = (\<lambda>(i, arg, p) an.
     (let (arg_type, arg_size, _) = infer_expr_info ctx arg;
          an1 = (case arg_type of
              Some t \<Rightarrow> (if t \<noteq> p_typ p
                 then push_error (CallArgTypeMismatch behavior (p_name p) (type_to_string (p_typ p))
                        (type_to_string t)) line (Some (arg_context i p)) an else an)
            | None \<Rightarrow> an)
      in if size_mismatch (p_typ p) arg_size (p_size p)
         then push_error (CallArgSizeMismatch behavior (p_name p) (p_size p) arg_size) line
                (Some (arg_context i p)) an1
         else an1))"

definition validate_call_args ::
  "string \<Rightarrow> expr list \<Rightarrow> contract \<Rightarrow> nat \<Rightarrow> analysis_context \<Rightarrow> analyzer \<Rightarrow> analyzer" where
  "validate_call_args behavior args callee line ctx an =
     (let inputs = c_inputs callee;
          an1 = (if length inputs \<noteq> length args
             then push_error (CallArgCountMismatch behavior (length inputs) (length args)) line None an
             else an)
      in fold (validate_call_arg behavior line ctx)
           (zip [0..<length args] (zip args inputs)) an1)"

section \<open>Expressions\<close>

type_synonym astate = "analyzer \<times> analysis_context"

definition on_analyzer :: "(analysis_context \<Rightarrow> analyzer \<Rightarrow> analyzer) \<Rightarrow> astate \<Rightarrow> astate" where
  "on_analyzer f st = (f (snd st) (fst st), snd st)"

definition on_context :: "(analysis_context \<Rightarrow> analysis_context) \<Rightarrow> astate \<Rightarrow> astate" where
  "on_context f st = (fst st, f (snd st))"

definition int_size_at :: "usize \<Rightarrow> string \<Rightarrow> astate \<Rightarrow> astate" where
  "int_size_at n context = on_analyzer (\<lambda>ctx. validate_int_size n (ac_current_line ctx) context)"

definition float_size_at :: "usize \<Rightarrow> string \<Rightarrow> astate \<Rightarrow> astate" where
  "float_size_at n context = on_analyzer (\<lambda>ctx. validate_float_size n (ac_current_line ctx) context)"

definition value_operand :: "expr \<Rightarrow> string \<Rightarrow> astate \<Rightarrow> astate" where
  "value_operand e op = on_analyzer (\<lambda>ctx. check_value_operand e op ctx)"

definition require_var :: "string \<Rightarrow> string option \<Rightarrow> astate \<Rightarrow> astate" where
  "require_var name context = on_analyzer (\<lambda>ctx an.
     if var_exists ctx name then an
     else push_error (UndefinedVariable name) (ac_current_line ctx) context an)"

definition check_load_source :: "expr \<Rightarrow> usize \<Rightarrow> expr option \<Rightarrow> astate \<Rightarrow> astate" where
  "check_load_source source n offset = on_analyzer (\<lambda>ctx an. case source of
     Var name \<Rightarrow>
       (let an1 = check_bounds ctx name n offset (ac_current_line ctx) ''LOAD'' an in
        case get_var ctx name of
          Some info \<Rightarrow> (if vi_shared info
             then push_error (NonAtomicSharedAccess name ''LOAD'') (ac_current_line ctx)
                    (Some ''use ATOMIC_LOAD for SHARED handles'') an1 else an1)
        | None \<Rightarrow> an1)
   | _ \<Rightarrow> an)"

definition check_callee :: "string \<Rightarrow> expr list \<Rightarrow> astate \<Rightarrow> astate" where
  "check_callee behavior args = on_analyzer (\<lambda>ctx an.
     case hm_get (ac_dependency_contracts ctx) behavior of
       Some callee \<Rightarrow> validate_call_args behavior args callee (ac_current_line ctx) ctx an
     | None \<Rightarrow> an)"

definition check_spawn_target :: "string \<Rightarrow> astate \<Rightarrow> astate" where
  "check_spawn_target pat = on_analyzer (\<lambda>ctx an.
     if pat \<notin> set (ac_pattern_names ctx) \<and> hm_contains_key (ac_dependency_contracts ctx) pat
     then push_error (SpawnRequiresPattern pat) (ac_current_line ctx) None an else an)"

definition note_alloc :: "analysis_context \<Rightarrow> analysis_context" where
  "note_alloc ctx = (if ac_scope_depth ctx = 0 then ctx\<lparr>ac_has_unscoped_alloc := True\<rparr> else ctx)"

definition note_channel_op :: "analysis_context \<Rightarrow> analysis_context" where
  "note_channel_op ctx = ctx\<lparr>ac_has_channel_ops := True\<rparr>"

definition release_if_exists :: "string \<Rightarrow> analysis_context \<Rightarrow> analysis_context" where
  "release_if_exists handle ctx =
     (if var_exists ctx handle then release_spawn_borrows handle ctx else ctx)"

fun validate_expr :: "expr \<Rightarrow> astate \<Rightarrow> astate" where
  "validate_expr (Var name) st = require_var name None st"
| "validate_expr (Field base _) st = validate_expr base st"
| "validate_expr (Load source n offset) st =
     (let st1 = int_size_at n ''LOAD'' (validate_expr source st);
          st2 = (case offset of
              Some off \<Rightarrow> value_operand off ''a dynamic offset'' (validate_expr off st1)
            | None \<Rightarrow> st1)
      in check_load_source source n offset st2)"
| "validate_expr (Alloc sz _ _) st = on_context note_alloc (validate_expr sz st)"
| "validate_expr (Call behavior args) st = check_callee behavior args (fold validate_expr args st)"
| "validate_expr (IArith _ a b n) st =
     int_size_at n ''integer operation'' (value_operand b ''integer arithmetic''
       (value_operand a ''integer arithmetic'' (validate_expr b (validate_expr a st))))"
| "validate_expr (ICmp _ a b n) st =
     int_size_at n ''comparison'' (value_operand b ''integer comparison''
       (value_operand a ''integer comparison'' (validate_expr b (validate_expr a st))))"
| "validate_expr (FArith _ a b n) st =
     float_size_at n ''float operation'' (value_operand b ''float arithmetic''
       (value_operand a ''float arithmetic'' (validate_expr b (validate_expr a st))))"
| "validate_expr (FCmp _ a b n) st =
     float_size_at n ''float comparison'' (value_operand b ''float comparison''
       (value_operand a ''float comparison'' (validate_expr b (validate_expr a st))))"
| "validate_expr (Ineg a n) st =
     int_size_at n ''unary operation'' (value_operand a ''this operation'' (validate_expr a st))"
| "validate_expr (BNot a n) st =
     int_size_at n ''unary operation'' (value_operand a ''this operation'' (validate_expr a st))"
| "validate_expr (Fneg a n) st =
     float_size_at n ''float negation'' (value_operand a ''float negation'' (validate_expr a st))"
| "validate_expr (Bitwise _ a b n) st =
     int_size_at n ''bitwise operation'' (value_operand b ''bitwise op''
       (value_operand a ''bitwise op'' (validate_expr b (validate_expr a st))))"
| "validate_expr (Ftoi v float_size int_size) st =
     int_size_at int_size ''FTOI target'' (float_size_at float_size ''FTOI source''
       (value_operand v ''FTOI'' (validate_expr v st)))"
| "validate_expr (Itof v int_size float_size) st =
     float_size_at float_size ''ITOF target'' (int_size_at int_size ''ITOF source''
       (value_operand v ''ITOF'' (validate_expr v st)))"
| "validate_expr (AtomicLoad source n) st = int_size_at n ''ATOMIC_LOAD'' (validate_expr source st)"
| "validate_expr (AtomicStore target v n) st =
     int_size_at n ''ATOMIC_STORE'' (validate_expr v (validate_expr target st))"
| "validate_expr (Cas addr expected new n) st =
     int_size_at n ''CAS'' (validate_expr new (validate_expr expected (validate_expr addr st)))"
| "validate_expr (AtomicAdd target v n) st =
     int_size_at n ''atomic operation'' (validate_expr v (validate_expr target st))"
| "validate_expr (AtomicSub target v n) st =
     int_size_at n ''atomic operation'' (validate_expr v (validate_expr target st))"
| "validate_expr (Spawn pat args) st = check_spawn_target pat (fold validate_expr args st)"
| "validate_expr (Wait handle) st =
     on_context (release_if_exists handle) (require_var handle (Some ''WAIT handle'') st)"
| "validate_expr (Channel _ _) st = on_context note_channel_op st"
| "validate_expr (ChannelReceive c) st =
     require_var c (Some ''CHANNEL_RECEIVE channel'') (on_context note_channel_op st)"
| "validate_expr (IntLit _) st = st"
| "validate_expr (FloatLit _) st = st"
| "validate_expr (StringLit _) st = st"

text \<open>The integer a constant expression stands for, without wrap-around.\<close>

fun eval_int :: "expr \<Rightarrow> int option" where
  "eval_int (IntLit n) = Some (sint n)"
| "eval_int (IArith Iadd a b _) = (case (eval_int a, eval_int b) of (Some x, Some y) \<Rightarrow> Some (x + y) | _ \<Rightarrow> None)"
| "eval_int (IArith Isub a b _) = (case (eval_int a, eval_int b) of (Some x, Some y) \<Rightarrow> Some (x - y) | _ \<Rightarrow> None)"
| "eval_int (IArith Imul a b _) = (case (eval_int a, eval_int b) of (Some x, Some y) \<Rightarrow> Some (x * y) | _ \<Rightarrow> None)"
| "eval_int _ = None"

section \<open>When an expression is well formed\<close>

text \<open>
  The rules of the language reference, expression by expression, without reference to the
  order in which the analyzer visits them. \<open>subexprs\<close> is the set of expressions the analyzer
  is responsible for: all of them but the capacity of a channel.
\<close>

fun subexprs :: "expr \<Rightarrow> expr set" where
  "subexprs (Field base f) = insert (Field base f) (subexprs base)"
| "subexprs (Load source n offset) = insert (Load source n offset)
     (subexprs source \<union> (case offset of Some off \<Rightarrow> subexprs off | None \<Rightarrow> {}))"
| "subexprs (Alloc sz t sh) = insert (Alloc sz t sh) (subexprs sz)"
| "subexprs (Call f args) = insert (Call f args) (\<Union>a \<in> set args. subexprs a)"
| "subexprs (Spawn f args) = insert (Spawn f args) (\<Union>a \<in> set args. subexprs a)"
| "subexprs (IArith p a b n) = insert (IArith p a b n) (subexprs a \<union> subexprs b)"
| "subexprs (ICmp p a b n) = insert (ICmp p a b n) (subexprs a \<union> subexprs b)"
| "subexprs (FArith p a b n) = insert (FArith p a b n) (subexprs a \<union> subexprs b)"
| "subexprs (FCmp p a b n) = insert (FCmp p a b n) (subexprs a \<union> subexprs b)"
| "subexprs (Bitwise p a b n) = insert (Bitwise p a b n) (subexprs a \<union> subexprs b)"
| "subexprs (Ineg a n) = insert (Ineg a n) (subexprs a)"
| "subexprs (BNot a n) = insert (BNot a n) (subexprs a)"
| "subexprs (Fneg a n) = insert (Fneg a n) (subexprs a)"
| "subexprs (Ftoi a n m) = insert (Ftoi a n m) (subexprs a)"
| "subexprs (Itof a n m) = insert (Itof a n m) (subexprs a)"
| "subexprs (AtomicLoad a n) = insert (AtomicLoad a n) (subexprs a)"
| "subexprs (AtomicStore a b n) = insert (AtomicStore a b n) (subexprs a \<union> subexprs b)"
| "subexprs (Cas a b c n) = insert (Cas a b c n) (subexprs a \<union> subexprs b \<union> subexprs c)"
| "subexprs (AtomicAdd a b n) = insert (AtomicAdd a b n) (subexprs a \<union> subexprs b)"
| "subexprs (AtomicSub a b n) = insert (AtomicSub a b n) (subexprs a \<union> subexprs b)"
| "subexprs e = {e}"

definition is_handle :: "analysis_context \<Rightarrow> expr \<Rightarrow> bool" where
  "is_handle ctx e \<longleftrightarrow> (\<exists>b f. e = Field b f) \<or> (\<exists>n t s. e = Alloc n t s)
     \<or> (\<exists>x info. e = Var x \<and> get_var ctx x = Some info \<and> vi_origin info \<noteq> LoadResult \<and> vi_origin info \<noteq> Computed)"

definition const_offset :: "expr option \<Rightarrow> usize option" where
  "const_offset off = (case off of None \<Rightarrow> Some 0 | Some e \<Rightarrow> try_eval_const e)"

definition in_bounds :: "analysis_context \<Rightarrow> string \<Rightarrow> usize \<Rightarrow> expr option \<Rightarrow> bool" where
  "in_bounds ctx x n off \<longleftrightarrow> (\<forall>info asz k. get_var ctx x = Some info \<longrightarrow> allocated_size info = Some asz \<longrightarrow>
     const_offset off = Some k \<longrightarrow> unat k + unat n \<le> unat asz \<or> unat asz = 2 ^ 64 - 1)"

definition shared_var :: "analysis_context \<Rightarrow> string \<Rightarrow> bool" where
  "shared_var ctx x \<longleftrightarrow> (\<exists>info. get_var ctx x = Some info \<and> vi_shared info)"

definition arg_ok :: "analysis_context \<Rightarrow> expr \<Rightarrow> parameter \<Rightarrow> bool" where
  "arg_ok ctx arg p \<longleftrightarrow> (case infer_expr_info ctx arg of (t, n, _) \<Rightarrow>
     (t = None \<or> t = Some (p_typ p)) \<and> \<not> size_mismatch (p_typ p) n (p_size p))"

definition args_ok :: "analysis_context \<Rightarrow> expr list \<Rightarrow> contract \<Rightarrow> bool" where
  "args_ok ctx args callee \<longleftrightarrow> list_all2 (arg_ok ctx) args (c_inputs callee)"

definition local_ok :: "analysis_context \<Rightarrow> expr \<Rightarrow> bool" where
  "local_ok ctx e = (case e of
     Var x \<Rightarrow> var_exists ctx x
   | Load source n offset \<Rightarrow> valid_int_size n
       \<and> (case offset of Some off \<Rightarrow> \<not> is_handle ctx off | None \<Rightarrow> True)
       \<and> (case source of Var x \<Rightarrow> in_bounds ctx x n offset \<and> \<not> shared_var ctx x | _ \<Rightarrow> True)
   | Call f args \<Rightarrow> (case hm_get (ac_dependency_contracts ctx) f of
         Some callee \<Rightarrow> args_ok ctx args callee | None \<Rightarrow> True)
   | Spawn pat args \<Rightarrow> pat \<in> set (ac_pattern_names ctx) \<or> \<not> hm_contains_key (ac_dependency_contracts ctx) pat
   | Wait x \<Rightarrow> var_exists ctx x
   | ChannelReceive x \<Rightarrow> var_exists ctx x
   | IArith _ a b n \<Rightarrow> \<not> is_handle ctx a \<and> \<not> is_handle ctx b \<and> valid_int_size n
   | ICmp _ a b n \<Rightarrow> \<not> is_handle ctx a \<and> \<not> is_handle ctx b \<and> valid_int_size n
   | Bitwise _ a b n \<Rightarrow> \<not> is_handle ctx a \<and> \<not> is_handle ctx b \<and> valid_int_size n
   | FArith _ a b n \<Rightarrow> \<not> is_handle ctx a \<and> \<not> is_handle ctx b \<and> valid_float_size n
   | FCmp _ a b n \<Rightarrow> \<not> is_handle ctx a \<and> \<not> is_handle ctx b \<and> valid_float_size n
   | Ineg a n \<Rightarrow> \<not> is_handle ctx a \<and> valid_int_size n
   | BNot a n \<Rightarrow> \<not> is_handle ctx a \<and> valid_int_size n
   | Fneg a n \<Rightarrow> \<not> is_handle ctx a \<and> valid_float_size n
   | Ftoi a f i \<Rightarrow> \<not> is_handle ctx a \<and> valid_float_size f \<and> valid_int_size i
   | Itof a i f \<Rightarrow> \<not> is_handle ctx a \<and> valid_float_size f \<and> valid_int_size i
   | AtomicLoad _ n \<Rightarrow> valid_int_size n
   | AtomicStore _ _ n \<Rightarrow> valid_int_size n
   | Cas _ _ _ n \<Rightarrow> valid_int_size n
   | AtomicAdd _ _ n \<Rightarrow> valid_int_size n
   | AtomicSub _ _ n \<Rightarrow> valid_int_size n
   | _ \<Rightarrow> True)"

definition expr_ok :: "analysis_context \<Rightarrow> expr \<Rightarrow> bool" where
  "expr_ok ctx e \<longleftrightarrow> (\<forall>s \<in> subexprs e. local_ok ctx s)"

section \<open>Reports\<close>

text \<open>
  \<open>reports ok an an'\<close>: the analyzer only appends errors, and appends none exactly when
  \<open>ok\<close>. It composes along the passes of the analyzer.
\<close>

definition reports :: "bool \<Rightarrow> analyzer \<Rightarrow> analyzer \<Rightarrow> bool" where
  "reports ok an an' \<longleftrightarrow> (\<exists>new. an_errors an' = an_errors an @ new \<and> (new = [] \<longleftrightarrow> ok))"

named_theorems reports_intros \<open>introduction rules for reports\<close>

lemma reports_refl [intro, reports_intros]: "ok \<Longrightarrow> reports ok an an"
  by (simp add: reports_def)

lemma reports_trans: "reports p a b \<Longrightarrow> reports q b c \<Longrightarrow> reports (p \<and> q) a c"
  by (auto simp: reports_def)

lemma reports_iff: "reports ok an an' \<Longrightarrow> an_errors an' = an_errors an \<longleftrightarrow> ok"
  by (auto simp: reports_def)

lemma reports_errors: "reports ok an an' \<Longrightarrow> an_errors an' = [] \<longleftrightarrow> an_errors an = [] \<and> ok"
  by (auto simp: reports_def)

lemma reports_push [reports_intros]: "reports False an (push_error k l c an)"
  by (simp add: reports_def)

lemma reports_cong: "reports p a b \<Longrightarrow> p = q \<Longrightarrow> reports q a b"
  by simp

lemma reports_fold:
  "(\<And>x an. x \<in> set xs \<Longrightarrow> reports (ok x) an (f x an)) \<Longrightarrow> reports (\<forall>x \<in> set xs. ok x) an (fold f xs an)"
proof (induction xs arbitrary: an)
  case Nil
  then show ?case by (simp add: reports_def)
next
  case (Cons x xs)
  then show ?case using reports_trans [of "ok x" an "f x an"] by simp
qed

lemma reports_int_size: "reports (valid_int_size n) an (validate_int_size n l c an)"
  by (simp add: validate_int_size_def reports_def)

lemma reports_float_size: "reports (valid_float_size n) an (validate_float_size n l c an)"
  by (simp add: validate_float_size_def reports_def)

lemma handle_kind_None: "operand_handle_kind ctx e = None \<longleftrightarrow> \<not> is_handle ctx e"
  by (auto simp: operand_handle_kind_def is_handle_def get_var_def split: expr.splits option.splits var_origin.splits)

lemma reports_value_operand: "reports (\<not> is_handle ctx e) an (check_value_operand e op ctx an)"
  by (auto simp: check_value_operand_def handle_kind_None [symmetric] reports_def split: option.splits)

lemma saturated_exceeds:
  "saturating_add k n > asz \<longleftrightarrow> \<not> (unat k + unat n \<le> unat asz \<or> unat asz = 2 ^ 64 - 1)"
proof -
  have "unat asz < 2 ^ LENGTH(64)" by (rule unsigned_less)
  then have "unat asz \<le> 2 ^ 64 - 1" by simp
  then show ?thesis
    unfolding word_less_nat_alt unat_saturating_add by auto
qed

lemma reports_bounds: "reports (in_bounds ctx h n off) an (check_bounds ctx h n off l op an)"
proof -
  have "an_errors (check_bounds ctx h n off l op an) = an_errors an"
    if "in_bounds ctx h n off"
    using that by (auto simp: check_bounds_def in_bounds_def const_offset_def saturated_exceeds Let_def
        split: option.splits)
  moreover have "\<exists>e. an_errors (check_bounds ctx h n off l op an) = an_errors an @ [e]"
    if "\<not> in_bounds ctx h n off"
    using that by (auto simp: check_bounds_def in_bounds_def const_offset_def saturated_exceeds Let_def
        split: option.splits)
  ultimately show ?thesis by (cases "in_bounds ctx h n off") (auto simp: reports_def)
qed

lemma reports_call_arg:
  "reports (arg_ok ctx arg p) an (validate_call_arg f l ctx (i, arg, p) an)"
  by (auto simp: validate_call_arg_def arg_ok_def reports_def Let_def split: prod.splits option.splits)

lemma reports_call_args: "reports (args_ok ctx args callee) an (validate_call_args f args callee l ctx an)"
proof -
  let ?z = "zip [0..<length args] (zip args (c_inputs callee))"
  let ?an1 = "if length (c_inputs callee) \<noteq> length args
     then push_error (CallArgCountMismatch f (length (c_inputs callee)) (length args)) l None an else an"
  have 1: "reports (length args = length (c_inputs callee)) an ?an1"
    by (auto simp: reports_def)
  have 2: "reports (\<forall>x \<in> set ?z. arg_ok ctx (fst (snd x)) (snd (snd x))) ?an1
      (fold (validate_call_arg f l ctx) ?z ?an1)"
    by (rule reports_fold) (auto simp: reports_call_arg)
  have "snd ` set ?z = set (zip args (c_inputs callee))"
    by (simp add: map_snd_zip_take flip: set_map)
  moreover have "(\<forall>x \<in> set ?z. arg_ok ctx (fst (snd x)) (snd (snd x)))
      = (\<forall>y \<in> snd ` set ?z. arg_ok ctx (fst y) (snd y))" by simp
  ultimately have "(\<forall>x \<in> set ?z. arg_ok ctx (fst (snd x)) (snd (snd x)))
      = (\<forall>y \<in> set (zip args (c_inputs callee)). arg_ok ctx (fst y) (snd y))"
    by (simp only:)
  then have "(length args = length (c_inputs callee) \<and> (\<forall>x \<in> set ?z. arg_ok ctx (fst (snd x)) (snd (snd x))))
      = args_ok ctx args callee"
    by (auto simp: args_ok_def list_all2_iff)
  with reports_trans [OF 1 2] show ?thesis
    by (simp add: validate_call_args_def Let_def)
qed

section \<open>The expression checker reports exactly the ill-formed expressions\<close>

text \<open>Validating an expression leaves the context as it is but for these fields, which only
  record what has been seen.\<close>

definition strip_notes :: "analysis_context \<Rightarrow> analysis_context" where
  "strip_notes ctx = ctx\<lparr>ac_spawn_borrows := [], ac_written_outputs := [],
     ac_has_unscoped_alloc := False, ac_has_channel_ops := False, ac_has_non_output_writes := False\<rparr>"

definition same_scope :: "analysis_context \<Rightarrow> analysis_context \<Rightarrow> bool" where
  "same_scope ctx ctx' \<longleftrightarrow> strip_notes ctx' = strip_notes ctx"

lemma same_scope_refl [simp]: "same_scope ctx ctx"
  by (simp add: same_scope_def)

lemma same_scope_trans: "same_scope a b \<Longrightarrow> same_scope b c \<Longrightarrow> same_scope a c"
  by (simp add: same_scope_def)

lemma same_scope_fields:
  assumes "same_scope ctx ctx'"
  shows "ac_labels ctx' = ac_labels ctx" "ac_variables ctx' = ac_variables ctx"
    "ac_inputs ctx' = ac_inputs ctx" "ac_outputs ctx' = ac_outputs ctx"
    "ac_guarantees ctx' = ac_guarantees ctx"
    "ac_current_line ctx' = ac_current_line ctx" "ac_scope_depth ctx' = ac_scope_depth ctx"
    "ac_dependency_contracts ctx' = ac_dependency_contracts ctx"
    "ac_pattern_names ctx' = ac_pattern_names ctx"
  using assms by (cases ctx; cases ctx'; simp add: same_scope_def strip_notes_def)+

lemma same_scope_infer: "same_scope ctx ctx' \<Longrightarrow> infer_expr_info ctx' e = infer_expr_info ctx e"
  by (cases e) (simp_all add: same_scope_fields get_var_def)

lemma same_scope_ok:
  assumes "same_scope ctx ctx'"
  shows "local_ok ctx' e = local_ok ctx e"
proof -
  have v: "get_var ctx' = get_var ctx" "var_exists ctx' = var_exists ctx"
    using same_scope_fields [OF assms] by (simp_all add: get_var_def var_exists_def fun_eq_iff)
  have "is_handle ctx' = is_handle ctx" "in_bounds ctx' = in_bounds ctx" "shared_var ctx' = shared_var ctx"
    "args_ok ctx' = args_ok ctx"
    by (simp_all add: fun_eq_iff is_handle_def in_bounds_def shared_var_def args_ok_def arg_ok_def v
        same_scope_infer [OF assms] cong: list.rel_cong)
  then show ?thesis
    unfolding local_ok_def v same_scope_fields [OF assms] by (simp only:)
qed

text \<open>A checking step: what it reports, and the expressions it has looked at.\<close>

definition checks :: "bool \<Rightarrow> astate \<Rightarrow> astate \<Rightarrow> bool" where
  "checks ok st st' \<longleftrightarrow> reports ok (fst st) (fst st') \<and> same_scope (snd st) (snd st')"

lemma checks_trans:
  assumes "checks p st st1" and "same_scope (snd st) (snd st1) \<Longrightarrow> checks q st1 st2"
  shows "checks (p \<and> q) st st2"
  using assms reports_trans same_scope_trans unfolding checks_def by blast

lemma checks_cong: "checks p st st' \<Longrightarrow> p = q \<Longrightarrow> checks q st st'"
  by simp

lemma checks_analyzer: "reports ok (fst st) (f (snd st) (fst st)) \<Longrightarrow> checks ok st (on_analyzer f st)"
  by (simp add: checks_def on_analyzer_def)

lemma checks_context: "same_scope (snd st) (f (snd st)) \<Longrightarrow> checks True st (on_context f st)"
  by (simp add: checks_def on_context_def reports_refl)

lemma checks_int_size: "checks (valid_int_size n) st (int_size_at n c st)"
  unfolding int_size_at_def by (rule checks_analyzer) (rule reports_int_size)

lemma checks_float_size: "checks (valid_float_size n) st (float_size_at n c st)"
  unfolding float_size_at_def by (rule checks_analyzer) (rule reports_float_size)

lemma checks_value_operand: "checks (\<not> is_handle (snd st) e) st (value_operand e op st)"
  unfolding value_operand_def by (rule checks_analyzer) (rule reports_value_operand)

lemma checks_require_var: "checks (var_exists (snd st) x) st (require_var x c st)"
  unfolding require_var_def by (rule checks_analyzer) (auto simp: reports_def)

lemma checks_load_source:
  "checks (case source of Var x \<Rightarrow> in_bounds (snd st) x n off \<and> \<not> shared_var (snd st) x | _ \<Rightarrow> True)
     st (check_load_source source n off st)"
proof (cases "\<exists>x. source = Var x")
  case True
  then obtain x where x: "source = Var x" by blast
  let ?b = "check_bounds (snd st) x n off (ac_current_line (snd st)) ''LOAD'' (fst st)"
  have "reports (\<not> shared_var (snd st) x) ?b (case get_var (snd st) x of
          Some info \<Rightarrow> (if vi_shared info
             then push_error (NonAtomicSharedAccess x ''LOAD'') (ac_current_line (snd st))
                    (Some ''use ATOMIC_LOAD for SHARED handles'') ?b else ?b) | None \<Rightarrow> ?b)"
    by (auto simp: reports_def shared_var_def split: option.splits)
  from reports_trans [OF reports_bounds this] show ?thesis
    unfolding check_load_source_def x by (intro checks_analyzer) (simp only: expr.case Let_def)
next
  case False
  then show ?thesis
    by (cases source) (simp_all add: check_load_source_def checks_def on_analyzer_def reports_refl)
qed

lemma checks_callee:
  "checks (case hm_get (ac_dependency_contracts (snd st)) f of Some c \<Rightarrow> args_ok (snd st) args c | None \<Rightarrow> True)
     st (check_callee f args st)"
  unfolding check_callee_def
  by (rule checks_analyzer) (auto simp: reports_call_args reports_refl split: option.splits)

lemma checks_spawn:
  "checks (pat \<in> set (ac_pattern_names (snd st)) \<or> \<not> hm_contains_key (ac_dependency_contracts (snd st)) pat)
     st (check_spawn_target pat st)"
  unfolding check_spawn_target_def by (rule checks_analyzer) (auto simp: reports_def)

lemma same_scope_notes [simp]:
  "same_scope ctx (note_alloc ctx)" "same_scope ctx (note_channel_op ctx)" "same_scope ctx (release_if_exists h ctx)"
  by (simp_all add: note_alloc_def note_channel_op_def release_if_exists_def release_spawn_borrows_def
      same_scope_def strip_notes_def)

lemma checks_fold:
  assumes "\<And>a st. a \<in> set args \<Longrightarrow> checks (expr_ok (snd st) a) st (f a st)"
  shows "checks (\<forall>a \<in> set args. expr_ok (snd st) a) st (fold f args st)"
  using assms
proof (induction args arbitrary: st)
  case Nil
  then show ?case by (simp add: checks_def reports_refl)
next
  case (Cons a args)
  have "checks (expr_ok (snd st) a \<and> (\<forall>a \<in> set args. expr_ok (snd st) a)) st (fold f args (f a st))"
  proof (rule checks_trans)
    show "checks (expr_ok (snd st) a) st (f a st)" using Cons.prems by simp
    assume "same_scope (snd st) (snd (f a st))"
    then have eq: "expr_ok (snd (f a st)) = expr_ok (snd st)"
      by (simp add: expr_ok_def same_scope_ok fun_eq_iff)
    have "checks (\<forall>b \<in> set args. expr_ok (snd (f a st)) b) (f a st) (fold f args (f a st))"
      by (rule Cons.IH) (use Cons.prems in simp)
    then show "checks (\<forall>a \<in> set args. expr_ok (snd st) a) (f a st) (fold f args (f a st))"
      by (simp only: eq)
  qed
  then show ?case by simp
qed

lemma same_scope_preds:
  assumes "same_scope ctx ctx'"
  shows "local_ok ctx' = local_ok ctx" "expr_ok ctx' = expr_ok ctx" "is_handle ctx' = is_handle ctx"
    "in_bounds ctx' = in_bounds ctx" "shared_var ctx' = shared_var ctx" "args_ok ctx' = args_ok ctx"
    "var_exists ctx' = var_exists ctx"
proof -
  have "get_var ctx' = get_var ctx" "var_exists ctx' = var_exists ctx"
    using same_scope_fields [OF assms] by (simp_all add: get_var_def var_exists_def fun_eq_iff)
  then show "local_ok ctx' = local_ok ctx" "expr_ok ctx' = expr_ok ctx" "is_handle ctx' = is_handle ctx"
    "in_bounds ctx' = in_bounds ctx" "shared_var ctx' = shared_var ctx" "args_ok ctx' = args_ok ctx"
    "var_exists ctx' = var_exists ctx"
    by (simp_all add: fun_eq_iff expr_ok_def same_scope_ok [OF assms] is_handle_def in_bounds_def
        shared_var_def args_ok_def arg_ok_def same_scope_infer [OF assms] cong: list.rel_cong)
qed

text \<open>One rule per step, directed by the step.\<close>

lemma checks_start: "checks True st st"
  by (simp add: checks_def reports_refl)

lemma checks_then:
  assumes "checks p st st1" and "checks (Q (snd st1)) st1 st2"
    and "\<And>ctx ctx'. same_scope ctx ctx' \<Longrightarrow> Q ctx' = Q ctx"
  shows "checks (p \<and> Q (snd st)) st st2"
proof (rule checks_trans [OF assms(1)])
  assume "same_scope (snd st) (snd st1)"
  from assms(3) [OF this] assms(2) show "checks (Q (snd st)) st1 st2" by simp
qed

lemma then_int: "checks p st st1 \<Longrightarrow> checks (p \<and> valid_int_size n) st (int_size_at n c st1)"
  by (rule checks_then [where Q = "\<lambda>_. valid_int_size n", OF _ checks_int_size]) auto

lemma then_float: "checks p st st1 \<Longrightarrow> checks (p \<and> valid_float_size n) st (float_size_at n c st1)"
  by (rule checks_then [where Q = "\<lambda>_. valid_float_size n", OF _ checks_float_size]) auto

lemma then_value: "checks p st st1 \<Longrightarrow> checks (p \<and> \<not> is_handle (snd st) e) st (value_operand e op st1)"
  by (rule checks_then [where Q = "\<lambda>ctx. \<not> is_handle ctx e", OF _ checks_value_operand])
    (auto simp: same_scope_preds)

lemma then_var: "checks p st st1 \<Longrightarrow> checks (p \<and> var_exists (snd st) x) st (require_var x c st1)"
  by (rule checks_then [where Q = "\<lambda>ctx. var_exists ctx x", OF _ checks_require_var])
    (auto simp: same_scope_preds)

lemma then_expr:
  "checks p st st1 \<Longrightarrow> checks (expr_ok (snd st1) e) st1 (validate_expr e st1)
     \<Longrightarrow> checks (p \<and> expr_ok (snd st) e) st (validate_expr e st1)"
  by (rule checks_then [where Q = "\<lambda>ctx. expr_ok ctx e"]) (auto simp: same_scope_preds)

lemma then_load:
  "checks p st st1 \<Longrightarrow> checks (p \<and> (case source of Var x \<Rightarrow> in_bounds (snd st) x n off \<and> \<not> shared_var (snd st) x | _ \<Rightarrow> True))
     st (check_load_source source n off st1)"
  by (rule checks_then [where Q = "\<lambda>ctx. case source of Var x \<Rightarrow> in_bounds ctx x n off \<and> \<not> shared_var ctx x | _ \<Rightarrow> True",
      OF _ checks_load_source]) (auto simp: same_scope_preds split: expr.splits)

lemma then_callee:
  "checks p st st1 \<Longrightarrow> checks (p \<and> (case hm_get (ac_dependency_contracts (snd st)) f of
       Some c \<Rightarrow> args_ok (snd st) args c | None \<Rightarrow> True)) st (check_callee f args st1)"
  by (rule checks_then [where Q = "\<lambda>ctx. case hm_get (ac_dependency_contracts ctx) f of
       Some c \<Rightarrow> args_ok ctx args c | None \<Rightarrow> True", OF _ checks_callee])
    (auto simp: same_scope_preds same_scope_fields split: option.splits)

lemma then_spawn:
  "checks p st st1 \<Longrightarrow> checks (p \<and> (pat \<in> set (ac_pattern_names (snd st))
       \<or> \<not> hm_contains_key (ac_dependency_contracts (snd st)) pat)) st (check_spawn_target pat st1)"
  by (rule checks_then [where Q = "\<lambda>ctx. pat \<in> set (ac_pattern_names ctx)
       \<or> \<not> hm_contains_key (ac_dependency_contracts ctx) pat", OF _ checks_spawn])
    (auto simp: same_scope_fields)

lemma then_context:
  "checks p st st1 \<Longrightarrow> (\<And>ctx. same_scope ctx (f ctx)) \<Longrightarrow> checks p st (on_context f st1)"
  using checks_trans [of p st st1 True "on_context f st1"] checks_context by simp

lemmas then_rules = then_int then_float then_value then_var then_expr then_load then_callee then_spawn
  then_context

lemma then_args:
  "checks p st st1 \<Longrightarrow> (\<And>a st. a \<in> set args \<Longrightarrow> checks (expr_ok (snd st) a) st (validate_expr a st))
     \<Longrightarrow> checks (p \<and> (\<forall>a \<in> set args. expr_ok (snd st) a)) st (fold validate_expr args st1)"
  by (rule checks_then [where Q = "\<lambda>ctx. \<forall>a \<in> set args. expr_ok ctx a", OF _ checks_fold])
    (auto simp: same_scope_preds)

lemma checks_expr: "checks (expr_ok (snd st) e) st (validate_expr e st)"
proof (induction e st rule: validate_expr.induct)
  case (3 source n offset st)
  show ?case
  proof (cases offset)
    case None
    show ?thesis
      unfolding validate_expr.simps Let_def None option.case
      by (rule checks_cong, (rule then_rules checks_start 3)+)
        (auto simp: expr_ok_def local_ok_def None)
  next
    case (Some off)
    show ?thesis
      unfolding validate_expr.simps Let_def Some option.case
      by (rule checks_cong, (rule then_rules checks_start 3(1) 3(2) [OF refl Some])+)
        (auto simp: expr_ok_def local_ok_def Some)
  qed
next
  case (5 behavior args st)
  show ?case
    unfolding validate_expr.simps
    by (rule checks_cong, rule then_callee, rule then_args, rule checks_start, rule 5, assumption)
      (auto simp: expr_ok_def local_ok_def)
next
  case (21 pat args st)
  show ?case
    unfolding validate_expr.simps
    by (rule checks_cong, rule then_spawn, rule then_args, rule checks_start, rule 21, assumption)
      (auto simp: expr_ok_def local_ok_def)
qed (unfold validate_expr.simps,
  (rule checks_cong, (rule then_rules checks_start same_scope_notes | assumption)+, force simp: expr_ok_def local_ok_def)+)

text \<open>The facts the checker notes for the guarantees: unscoped allocations and channel operations.\<close>

definition allocates :: "expr \<Rightarrow> bool" where
  "allocates e \<longleftrightarrow> (\<exists>sz t sh. Alloc sz t sh \<in> subexprs e)"

definition uses_channel :: "expr \<Rightarrow> bool" where
  "uses_channel e \<longleftrightarrow> (\<exists>t c. Channel t c \<in> subexprs e) \<or> (\<exists>c. ChannelReceive c \<in> subexprs e)"

lemma snd_on_analyzer [simp]:
  "snd (on_analyzer f st) = snd st" "snd (int_size_at n c st) = snd st" "snd (float_size_at n c st) = snd st"
  "snd (value_operand e op st) = snd st" "snd (require_var x c' st) = snd st"
  "snd (check_load_source e n off st) = snd st" "snd (check_callee f' args st) = snd st"
  "snd (check_spawn_target pat st) = snd st"
  by (simp_all add: on_analyzer_def int_size_at_def float_size_at_def value_operand_def require_var_def
      check_load_source_def check_callee_def check_spawn_target_def)

lemma same_scope_expr [simp]: "same_scope (snd st) (snd (validate_expr e st))"
  using checks_expr [of st e] by (simp add: checks_def)

lemma scope_depth_expr [simp]: "ac_scope_depth (snd (validate_expr e st)) = ac_scope_depth (snd st)"
  by (rule same_scope_fields) simp

definition flags :: "bool \<Rightarrow> bool \<Rightarrow> bool \<Rightarrow> analysis_context \<Rightarrow> analysis_context \<Rightarrow> bool" where
  "flags al ch wr ctx ctx' \<longleftrightarrow> ac_scope_depth ctx' = ac_scope_depth ctx
     \<and> ac_has_unscoped_alloc ctx' = (ac_has_unscoped_alloc ctx \<or> ac_scope_depth ctx = 0 \<and> al)
     \<and> ac_has_channel_ops ctx' = (ac_has_channel_ops ctx \<or> ch)
     \<and> ac_has_non_output_writes ctx' = (ac_has_non_output_writes ctx \<or> wr)"

lemma flags_refl: "flags False False False ctx ctx"
  by (simp add: flags_def)

lemma flags_trans: "flags a c w x y \<Longrightarrow> flags a' c' w' y z \<Longrightarrow> flags (a \<or> a') (c \<or> c') (w \<or> w') x z"
  by (auto simp: flags_def)

lemma flags_cong: "flags a c w x y \<Longrightarrow> a = a' \<Longrightarrow> c = c' \<Longrightarrow> w = w' \<Longrightarrow> flags a' c' w' x y"
  by simp

lemma flags_ops:
  "flags True False False ctx (note_alloc ctx)" "flags False True False ctx (note_channel_op ctx)"
  "flags False False False ctx (release_if_exists h ctx)"
  by (simp_all add: flags_def note_alloc_def note_channel_op_def release_if_exists_def release_spawn_borrows_def)

lemma flags_context: "flags a c w ctx (snd st) \<Longrightarrow> flags a' c' w' (snd st) (f (snd st))
    \<Longrightarrow> flags (a \<or> a') (c \<or> c') (w \<or> w') ctx (snd (on_context f st))"
  by (simp add: on_context_def flags_trans)

lemma flags_fold:
  "(\<And>a st. a \<in> set args \<Longrightarrow> flags (al a) (ch a) False (snd st) (snd (f a st)))
     \<Longrightarrow> flags (\<exists>a \<in> set args. al a) (\<exists>a \<in> set args. ch a) False (snd st) (snd (fold f args st))"
proof (induction args arbitrary: st)
  case Nil
  then show ?case by (simp add: flags_refl)
next
  case (Cons a args)
  have "flags (al a) (ch a) False (snd st) (snd (f a st))" using Cons.prems by simp
  from flags_trans [OF this Cons.IH [of "f a st"]] Cons.prems show ?case by simp
qed

lemma subexprs_refl [simp]: "e \<in> subexprs e"
  by (cases e) auto

lemma allocates_simps [simp]:
  "allocates (Alloc sz t sh)" "allocates (Field b f) = allocates b"
  "allocates (Load e n off) = (allocates e \<or> (case off of Some o' \<Rightarrow> allocates o' | None \<Rightarrow> False))"
  "allocates (Call f args) = (\<exists>a \<in> set args. allocates a)" "allocates (Spawn f args) = (\<exists>a \<in> set args. allocates a)"
  "allocates (IArith p1 a b n) = (allocates a \<or> allocates b)" "allocates (ICmp p2 a b n) = (allocates a \<or> allocates b)"
  "allocates (FArith p3 a b n) = (allocates a \<or> allocates b)" "allocates (FCmp p4 a b n) = (allocates a \<or> allocates b)"
  "allocates (Bitwise p5 a b n) = (allocates a \<or> allocates b)"
  "allocates (Ineg a n) = allocates a" "allocates (BNot a n) = allocates a" "allocates (Fneg a n) = allocates a"
  "allocates (Ftoi a n m) = allocates a" "allocates (Itof a n m) = allocates a" "allocates (AtomicLoad a n) = allocates a"
  "allocates (AtomicStore a b n) = (allocates a \<or> allocates b)" "allocates (AtomicAdd a b n) = (allocates a \<or> allocates b)"
  "allocates (AtomicSub a b n) = (allocates a \<or> allocates b)" "allocates (Cas a b c n) = (allocates a \<or> allocates b \<or> allocates c)"
  "\<not> allocates (Var x)" "\<not> allocates (IntLit i)" "\<not> allocates (FloatLit s)" "\<not> allocates (StringLit s)"
  "\<not> allocates (Wait x)" "\<not> allocates (Channel t c)" "\<not> allocates (ChannelReceive x)"
  by (auto simp: allocates_def split: option.splits)

lemma uses_channel_simps [simp]:
  "uses_channel (Channel t c)" "uses_channel (ChannelReceive x)" "uses_channel (Field b f) = uses_channel b"
  "uses_channel (Load e n off) = (uses_channel e \<or> (case off of Some o' \<Rightarrow> uses_channel o' | None \<Rightarrow> False))"
  "uses_channel (Call f args) = (\<exists>a \<in> set args. uses_channel a)" "uses_channel (Spawn f args) = (\<exists>a \<in> set args. uses_channel a)"
  "uses_channel (IArith p1 a b n) = (uses_channel a \<or> uses_channel b)" "uses_channel (ICmp p2 a b n) = (uses_channel a \<or> uses_channel b)"
  "uses_channel (FArith p3 a b n) = (uses_channel a \<or> uses_channel b)" "uses_channel (FCmp p4 a b n) = (uses_channel a \<or> uses_channel b)"
  "uses_channel (Bitwise p5 a b n) = (uses_channel a \<or> uses_channel b)"
  "uses_channel (Ineg a n) = uses_channel a" "uses_channel (BNot a n) = uses_channel a" "uses_channel (Fneg a n) = uses_channel a"
  "uses_channel (Ftoi a n m) = uses_channel a" "uses_channel (Itof a n m) = uses_channel a" "uses_channel (AtomicLoad a n) = uses_channel a"
  "uses_channel (AtomicStore a b n) = (uses_channel a \<or> uses_channel b)" "uses_channel (AtomicAdd a b n) = (uses_channel a \<or> uses_channel b)"
  "uses_channel (AtomicSub a b n) = (uses_channel a \<or> uses_channel b)" "uses_channel (Cas a b c n) = (uses_channel a \<or> uses_channel b \<or> uses_channel c)"
  "uses_channel (Alloc sz t sh) = uses_channel sz"
  "\<not> uses_channel (Var x)" "\<not> uses_channel (IntLit i)" "\<not> uses_channel (FloatLit s)" "\<not> uses_channel (StringLit s)"
  "\<not> uses_channel (Wait x)"
  by (auto simp: uses_channel_def split: option.splits)

lemma flags_expr: "flags (allocates e) (uses_channel e) False (snd st) (snd (validate_expr e st))"
proof (induction e st rule: validate_expr.induct)
  case (5 behavior args st)
  then show ?case using flags_fold [of args allocates uses_channel validate_expr st] by simp
next
  case (21 pat args st)
  then show ?case using flags_fold [of args allocates uses_channel validate_expr st] by simp
qed (auto simp: Let_def flags_def on_context_def note_alloc_def note_channel_op_def release_if_exists_def
    release_spawn_borrows_def split: option.splits)

section \<open>Properties\<close>

text \<open>
  C34: \<open>validate_expr\<close> adds no error exactly when every expression it is responsible for is
  well formed: names are defined, sizes are valid, no handle is used as a value, loads with a
  constant offset stay within the allocation and off shared memory, calls match the callee's
  contract, and \<^verbatim>\<open>SPAWN\<close> does not name a behavior.
\<close>

theorem validate_expr_exact:
  "an_errors (fst (validate_expr e (an, ctx))) = an_errors an \<longleftrightarrow> expr_ok ctx e"
  using reports_iff [of "expr_ok ctx e" an] checks_expr [of "(an, ctx)" e] by (simp add: checks_def)

text \<open>
  Constant evaluation computes modulo \<open>2 ^ 64\<close>: where it returns a value, that value
  is the integer value of the expression reduced to the width of \<^verbatim>\<open>usize\<close>, and it returns
  one exactly for the expressions built from literals by addition, subtraction and
  multiplication.
\<close>

theorem try_eval_const_wraps: "try_eval_const e = map_option of_int (eval_int e)"
  by (induction e rule: eval_int.induct) (auto split: option.splits)

text \<open>
  The bounds check adds an error exactly when the size of the allocation and the offset
  are known and the access ends past the allocation, with the sum taken as integers, without
  wrap-around; the single exception is an allocation of size \<open>2 ^ 64 - 1\<close>, at which the
  saturated sum never exceeds it.
\<close>

theorem check_bounds_exact:
  "an_errors (check_bounds ctx h n off line op an) = an_errors an \<longleftrightarrow>
     (\<exists>info asz k. get_var ctx h = Some info \<and> allocated_size info = Some asz \<and> const_offset off = Some k
        \<and> unat asz < unat k + unat n \<and> unat asz < 2 ^ 64 - 1) = False"
proof -
  have "unat asz \<noteq> 2 ^ 64 - 1 \<longleftrightarrow> unat asz < 2 ^ 64 - 1" for asz :: usize
  proof -
    have "unat asz < 2 ^ LENGTH(64)" by (rule unsigned_less)
    then show ?thesis by auto
  qed
  then show ?thesis
    using reports_iff [OF reports_bounds [of ctx h n off an line op]]
    by (auto simp: in_bounds_def not_le)
qed

end
