(* ===== verification/Sigil_Hash.thy ===== *)
theory Sigil_Hash
  imports Sigil_Ast
begin

text \<open>
  Contract hashes, after \<^verbatim>\<open>compiler/src/hash.rs\<close>. The bytes fed to the hasher are
  \<open>contract_preimage\<close>. SHA-256 (crate \<^verbatim>\<open>sha2\<close>) and hexadecimal encoding (crate
  \<^verbatim>\<open>hex\<close>) are third-party code and arguments of \<open>compute_contract_hash\<close>; what is
  proved is about the bytes, so it holds for whatever these do.
\<close>

section \<open>The encoding\<close>

definition as_bytes :: "string \<Rightarrow> byte list" where
  "as_bytes s = map of_char s"

definition to_le_bytes :: "usize \<Rightarrow> byte list" where
  "to_le_bytes n = map (\<lambda>i. ucast (drop_bit (8 * i) n)) [0..<8]"

fun type_to_byte :: "stype \<Rightarrow> byte" where
  "type_to_byte TInt = 1"
| "type_to_byte TFloat = 2"
| "type_to_byte TBytes = 3"
| "type_to_byte TString = 4"

fun guarantee_to_byte :: "guarantee \<Rightarrow> byte" where
  "guarantee_to_byte Pure = 1"
| "guarantee_to_byte NoAlloc = 2"
| "guarantee_to_byte WritesOutput = 3"

definition param_bytes :: "parameter \<Rightarrow> byte list" where
  "param_bytes p = as_bytes (p_name p) @ [type_to_byte (p_typ p)] @ to_le_bytes (p_size p)"

definition ref_bytes :: "behavior_ref \<Rightarrow> byte list" where
  "ref_bytes r = as_bytes (br_name r) @ as_bytes ''@'' @ as_bytes (br_hash r)"

definition contract_preimage :: "contract \<Rightarrow> byte list" where
  "contract_preimage c =
     as_bytes ''INPUTS:'' @ concat (map param_bytes (c_inputs c))
   @ as_bytes ''OUTPUTS:'' @ concat (map param_bytes (c_outputs c))
   @ as_bytes ''REQUIRES:'' @ concat (map ref_bytes (rq_behaviors (c_requires c)))
   @ as_bytes ''GUARANTEES:'' @ map guarantee_to_byte (c_guarantees c)"

definition compute_contract_hash ::
  "(byte list \<Rightarrow> byte list) \<Rightarrow> (byte list \<Rightarrow> string) \<Rightarrow> contract \<Rightarrow> string" where
  "compute_contract_hash sha256 hex_encode c = hex_encode (take 4 (sha256 (contract_preimage c)))"

section \<open>Reading the encoding back\<close>

definition ident_byte :: "byte \<Rightarrow> bool" where
  "ident_byte b \<longleftrightarrow> (let n = unat b in
     48 \<le> n \<and> n \<le> 57 \<or> 65 \<le> n \<and> n \<le> 90 \<or> 97 \<le> n \<and> n \<le> 122 \<or> n = 95 \<or> n = 45)"

definition ident_name :: "string \<Rightarrow> bool" where
  "ident_name s \<longleftrightarrow> list_all (\<lambda>c. is_ascii_alphanumeric c \<or> c = CHR ''_'' \<or> c = CHR ''-'') s"

definition pinned :: "behavior_ref \<Rightarrow> bool" where
  "pinned r \<longleftrightarrow> length (br_hash r) = 8"

definition wf_contract :: "contract \<Rightarrow> bool" where
  "wf_contract c \<longleftrightarrow> list_all (\<lambda>p. ident_name (p_name p)) (c_inputs c)
     \<and> list_all (\<lambda>p. ident_name (p_name p)) (c_outputs c)
     \<and> list_all (\<lambda>r. ident_name (br_name r) \<and> pinned r) (rq_behaviors (c_requires c))"

lemma unat_of_char [simp]: "unat (of_char c :: byte) = of_char c"
  unfolding of_nat_of_char [of c, symmetric, where ?'a = byte] unat_of_nat by simp

lemma as_bytes_inj [simp]: "as_bytes s = as_bytes t \<longleftrightarrow> s = t"
proof -
  have "inj (of_char :: char \<Rightarrow> byte)"
  proof (rule injI)
    fix c d :: char
    assume "(of_char c :: byte) = of_char d"
    then have "unat (of_char c :: byte) = unat (of_char d :: byte)" by simp
    then show "c = d" by simp
  qed
  then show ?thesis by (simp add: as_bytes_def inj_map_eq_map)
qed

lemma length_as_bytes [simp]: "length (as_bytes s) = length s"
  by (simp add: as_bytes_def)

lemma ident_byte_of_char:
  "ident_byte (of_char c) \<longleftrightarrow> is_ascii_alphanumeric c \<or> c = CHR ''_'' \<or> c = CHR ''-''"
proof -
  have eq: "c = d \<longleftrightarrow> (of_char c :: nat) = of_char d" for d by simp
  show ?thesis
    unfolding ident_byte_def Let_def char_class_defs eq unat_of_char by auto
qed

lemma ident_byte_as_bytes: "list_all ident_byte (as_bytes s) \<longleftrightarrow> ident_name s"
  by (simp add: as_bytes_def ident_name_def list_all_iff ident_byte_of_char)

lemma not_ident_type [simp]: "\<not> ident_byte (type_to_byte t)"
  by (cases t) (simp_all add: ident_byte_def)

lemma type_to_byte_inj [simp]: "type_to_byte t = type_to_byte u \<longleftrightarrow> t = u"
  by (cases t; cases u) simp_all

lemma guarantee_to_byte_inj: "inj guarantee_to_byte"
proof (rule injI)
  show "g = h" if "guarantee_to_byte g = guarantee_to_byte h" for g h
    using that by (cases g; cases h) simp_all
qed

lemma length_to_le_bytes [simp]: "length (to_le_bytes n) = 8"
  by (simp add: to_le_bytes_def)

lemma to_le_bytes_inj [simp]: "to_le_bytes n = to_le_bytes m \<longleftrightarrow> n = m"
proof
  assume eq: "to_le_bytes n = to_le_bytes m"
  show "n = m"
  proof (rule bit_word_eqI)
    fix k assume "k < LENGTH(64)"
    then have k: "k div 8 < 8" by simp
    have "to_le_bytes n ! (k div 8) = to_le_bytes m ! (k div 8)" using eq by simp
    then have "(ucast (drop_bit (8 * (k div 8)) n) :: byte) = ucast (drop_bit (8 * (k div 8)) m)"
      using k by (simp add: to_le_bytes_def)
    then have "bit (ucast (drop_bit (8 * (k div 8)) n) :: byte) (k mod 8)
        = bit (ucast (drop_bit (8 * (k div 8)) m) :: byte) (k mod 8)" by simp
    then show "bit n k = bit m k"
      by (simp add: bit_ucast_iff bit_drop_bit_eq)
  qed
qed simp

text \<open>
  A list of items that start with a name: the name ends at the first byte that cannot be part
  of an identifier, so the items before a marker can be read back one by one.
\<close>

lemma ident_split:
  assumes "list_all ident_byte xs" "list_all ident_byte ys" "\<not> ident_byte a" "\<not> ident_byte b"
    and "xs @ a # r = ys @ b # s"
  shows "xs = ys \<and> a = b \<and> r = s"
  using assms
proof (induction xs arbitrary: ys)
  case Nil
  then show ?case by (cases ys) auto
next
  case (Cons x xs)
  then show ?case by (cases ys) auto
qed

lemma marker_not_item:
  assumes "list_all ident_byte m" "ident_name n" "\<not> ident_byte b" "b \<noteq> 58"
  shows "m @ 58 # r \<noteq> as_bytes n @ b # x"
proof
  assume eq: "m @ 58 # r = as_bytes n @ b # x"
  have "\<not> ident_byte 58" by (simp add: ident_byte_def)
  from ident_split [OF assms(1) _ this assms(3) eq] assms(2,4) show False
    by (simp add: ident_byte_as_bytes)
qed

lemma type_not_colon: "type_to_byte t \<noteq> 58"
  by (cases t) simp_all

lemma append_same_length: "length xs = length ys \<Longrightarrow> xs @ r = ys @ s \<Longrightarrow> xs = ys \<and> r = s"
  by simp

lemma params_inj:
  assumes m: "list_all ident_byte m"
  shows "list_all (\<lambda>p. ident_name (p_name p)) ps \<Longrightarrow> list_all (\<lambda>p. ident_name (p_name p)) qs \<Longrightarrow>
    concat (map param_bytes ps) @ m @ 58 # r = concat (map param_bytes qs) @ m @ 58 # s \<Longrightarrow> ps = qs \<and> r = s"
proof (induction ps arbitrary: qs)
  case Nil
  show ?case
  proof (cases qs)
    case (Cons q qs')
    then show ?thesis
      using Nil.prems marker_not_item [OF m _ not_ident_type type_not_colon] by (simp add: param_bytes_def)
  qed (use Nil in simp)
next
  case (Cons p ps)
  show ?case
  proof (cases qs)
    case Nil
    then show ?thesis
      using Cons.prems marker_not_item [OF m _ not_ident_type type_not_colon, THEN not_sym]
      by (simp add: param_bytes_def)
  next
    case q: (Cons q qs')
    let ?R = "concat (map param_bytes ps) @ m @ 58 # r" and ?S = "concat (map param_bytes qs') @ m @ 58 # s"
    have e: "as_bytes (p_name p) @ type_to_byte (p_typ p) # (to_le_bytes (p_size p) @ ?R)
        = as_bytes (p_name q) @ type_to_byte (p_typ q) # (to_le_bytes (p_size q) @ ?S)"
      using Cons.prems(3) by (simp add: q param_bytes_def [of p] param_bytes_def [of q])
    have i: "list_all ident_byte (as_bytes (p_name p))" "list_all ident_byte (as_bytes (p_name q))"
      using Cons.prems(1,2) by (simp_all add: q ident_byte_as_bytes)
    note 1 = ident_split [OF i not_ident_type not_ident_type e]
    note 2 = append_same_length [OF _ conjunct2 [OF conjunct2 [OF 1]], simplified]
    have "ps = qs' \<and> r = s"
      by (rule Cons.IH [OF _ _ conjunct2 [OF 2]]) (use Cons.prems(1,2) q in simp_all)
    then show ?thesis unfolding q using 1 2 by (simp add: parameter.equality)
  qed
qed

lemma at_bytes: "as_bytes ''@'' = [64]"
  by (simp add: as_bytes_def)

lemma refs_inj:
  assumes m: "list_all ident_byte m"
  shows "list_all (\<lambda>r. ident_name (br_name r) \<and> pinned r) ps \<Longrightarrow> list_all (\<lambda>r. ident_name (br_name r) \<and> pinned r) qs \<Longrightarrow>
    concat (map ref_bytes ps) @ m @ 58 # r = concat (map ref_bytes qs) @ m @ 58 # s \<Longrightarrow> ps = qs \<and> r = s"
proof (induction ps arbitrary: qs)
  case Nil
  show ?case
  proof (cases qs)
    case (Cons q qs')
    then show ?thesis
      using Nil.prems marker_not_item [OF m, of _ 64] by (simp add: ref_bytes_def at_bytes ident_byte_def)
  qed (use Nil in simp)
next
  case (Cons p ps)
  show ?case
  proof (cases qs)
    case Nil
    then show ?thesis
      using Cons.prems marker_not_item [OF m, of _ 64, THEN not_sym]
      by (simp add: ref_bytes_def at_bytes ident_byte_def)
  next
    case q: (Cons q qs')
    let ?R = "concat (map ref_bytes ps) @ m @ 58 # r" and ?S = "concat (map ref_bytes qs') @ m @ 58 # s"
    have e: "as_bytes (br_name p) @ 64 # (as_bytes (br_hash p) @ ?R) = as_bytes (br_name q) @ 64 # (as_bytes (br_hash q) @ ?S)"
      using Cons.prems(3) by (simp add: q ref_bytes_def [of p] ref_bytes_def [of q] at_bytes)
    have i: "list_all ident_byte (as_bytes (br_name p))" "list_all ident_byte (as_bytes (br_name q))"
      and l: "length (as_bytes (br_hash p)) = length (as_bytes (br_hash q))" and "\<not> ident_byte 64"
      using Cons.prems(1,2) by (simp_all add: q ident_byte_as_bytes pinned_def ident_byte_def [of 64])
    note 1 = ident_split [OF i this(4) this(4) e]
    note 2 = append_same_length [OF l conjunct2 [OF conjunct2 [OF 1]]]
    have "ps = qs' \<and> r = s"
      by (rule Cons.IH [OF _ _ conjunct2 [OF 2]]) (use Cons.prems(1,2) q in simp_all)
    then show ?thesis unfolding q using 1 2 by (simp add: behavior_ref.equality)
  qed
qed

section \<open>Properties\<close>

lemma marker_bytes:
  "as_bytes ''OUTPUTS:'' = as_bytes ''OUTPUTS'' @ [58]"
  "as_bytes ''REQUIRES:'' = as_bytes ''REQUIRES'' @ [58]"
  "as_bytes ''GUARANTEES:'' = as_bytes ''GUARANTEES'' @ [58]"
  by (simp_all add: as_bytes_def)

lemma marker_ident:
  "list_all ident_byte (as_bytes ''OUTPUTS'')" "list_all ident_byte (as_bytes ''REQUIRES'')"
  "list_all ident_byte (as_bytes ''GUARANTEES'')"
  by (simp_all add: ident_byte_as_bytes ident_name_def char_class_defs)


definition sample_contract :: contract where
  "sample_contract = \<lparr>c_inputs = [\<lparr>p_name = ''a'', p_typ = TInt, p_size = 8\<rparr>],
     c_outputs = [\<lparr>p_name = ''sum'', p_typ = TInt, p_size = 8\<rparr>],
     c_requires = \<lparr>rq_behaviors = [\<lparr>br_name = ''add-int'', br_hash = ''deadbeef''\<rparr>], rq_memory = []\<rparr>,
     c_guarantees = [Pure]\<rparr>"


text \<open>
  C39: a \<^verbatim>\<open>REQUIRES\<close> entry without a hash is not delimited in the preimage: there are
  contracts that require different behaviors and have the same hash, whatever the hash
  function is.
\<close>

theorem unpinned_requires_collide:
  "\<exists>c d. map br_name (rq_behaviors (c_requires c)) \<noteq> map br_name (rq_behaviors (c_requires d))
      \<and> (\<lambda>sha256 hex_encode. compute_contract_hash sha256 hex_encode c)
        = (\<lambda>sha256 hex_encode. compute_contract_hash sha256 hex_encode d)"
proof (intro exI conjI)
  let ?c = "\<lambda>refs. \<lparr>c_inputs = [], c_outputs = [], c_requires = \<lparr>rq_behaviors = refs, rq_memory = []\<rparr>, c_guarantees = []\<rparr>"
  let ?x = "[\<lparr>br_name = ''a'', br_hash = []\<rparr>, \<lparr>br_name = ''deadbeefx'', br_hash = []\<rparr>]"
  let ?y = "[\<lparr>br_name = ''a'', br_hash = ''deadbeef''\<rparr>, \<lparr>br_name = ''x'', br_hash = []\<rparr>]"
  show "map br_name (rq_behaviors (c_requires (?c ?x))) \<noteq> map br_name (rq_behaviors (c_requires (?c ?y)))"
    by simp
  have "contract_preimage (?c ?x) = contract_preimage (?c ?y)"
    by (simp add: contract_preimage_def ref_bytes_def as_bytes_def)
  then show "(\<lambda>sha256 hex_encode. compute_contract_hash sha256 hex_encode (?c ?x))
      = (\<lambda>sha256 hex_encode. compute_contract_hash sha256 hex_encode (?c ?y))"
    by (simp add: compute_contract_hash_def)
qed

end
