(* ===== verification/Sigil_Node_Check.thy ===== *)
theory Sigil_Node_Check
  imports Sigil_Expr_Check Sigil_Hash
begin

text \<open>
  Statement checks of the semantic analyzer, after \<^verbatim>\<open>compiler/src/semantic/mod.rs\<close>: contract
  validation, label collection, \<^verbatim>\<open>validate_node\<close> arm by arm, the linear pass
  \<^verbatim>\<open>validate_nodes\<close>, and the guarantees. \<open>validate_nodes\<close> is the loop and the recursion
  into \<^verbatim>\<open>SCOPE\<close>; \<open>validate_leaf\<close> holds the other arms of \<^verbatim>\<open>validate_node\<close>.

  The sum of the output sizes of a callee is taken modulo \<open>2 ^ 64\<close>, as a release build does.
\<close>

section \<open>Contracts\<close>

definition validate_param_size :: "parameter \<Rightarrow> analyzer \<Rightarrow> analyzer" where
  "validate_param_size p an = (case p_typ p of
     TInt \<Rightarrow> (if valid_int_size (p_size p) then an
        else push_error (InvalidIntSize (p_size p)) 0 (Some (''Parameter '' @ single_quoted (p_name p))) an)
   | TFloat \<Rightarrow> (if valid_float_size (p_size p) then an
        else push_error (InvalidFloatSize (p_size p)) 0 (Some (''Parameter '' @ single_quoted (p_name p))) an)
   | TBytes \<Rightarrow> (if p_size p = 0
        then push_warning (''Parameter '' @ single_quoted (p_name p) @ '' has size 0'') 0 an else an)
   | TString \<Rightarrow> an)"

definition validate_contract ::
  "(byte list \<Rightarrow> byte list) \<Rightarrow> (byte list \<Rightarrow> string) \<Rightarrow> behavior \<Rightarrow> analyzer \<Rightarrow> analyzer" where
  "validate_contract sha256 hex_encode b an =
     (let an1 = fold validate_param_size (c_inputs (b_contract b)) an;
          an2 = fold validate_param_size (c_outputs (b_contract b)) an1
      in if b_hash b = [] then an2
         else (let computed = compute_contract_hash sha256 hex_encode (b_contract b) in
               if b_hash b \<noteq> computed
               then push_error (HashMismatch (b_hash b) computed) 0
                      (Some ''update HASH to the computed value to fix'') an2
               else an2))"

section \<open>Labels\<close>

definition collect_label :: "string \<Rightarrow> nat \<Rightarrow> astate \<Rightarrow> astate" where
  "collect_label name line st = (case define_label name line (snd st) of
     (Some first_line, ctx) \<Rightarrow> (push_error (DuplicateLabel name first_line) line None (fst st), ctx)
   | (None, ctx) \<Rightarrow> (fst st, ctx))"

fun collect_labels_from_nodes :: "node list \<Rightarrow> astate \<Rightarrow> astate" where
  "collect_labels_from_nodes [] st = st"
| "collect_labels_from_nodes (Node sp k # rest) st =
     collect_labels_from_nodes rest (case k of
        Label name \<Rightarrow> collect_label name (sp_line sp) st
      | Scope inner \<Rightarrow> collect_labels_from_nodes inner st
      | _ \<Rightarrow> st)"

text \<open>The first implementation, and the composition, are the bodies the analyzer looks at.\<close>

definition impl_body :: "behavior \<Rightarrow> node list option" where
  "impl_body b = (case b_implementations b of [] \<Rightarrow> None | i # _ \<Rightarrow> Some (pi_nodes i))"

definition when_body :: "(node list \<Rightarrow> 'a \<Rightarrow> 'a) \<Rightarrow> node list option \<Rightarrow> 'a \<Rightarrow> 'a" where
  "when_body f body st = (case body of Some nodes \<Rightarrow> f nodes st | None \<Rightarrow> st)"

definition collect_labels :: "behavior \<Rightarrow> astate \<Rightarrow> astate" where
  "collect_labels b st = when_body collect_labels_from_nodes (b_composition b)
     (when_body collect_labels_from_nodes (impl_body b) st)"

section \<open>Nodes\<close>

definition check_exists :: "string \<Rightarrow> nat \<Rightarrow> string \<Rightarrow> astate \<Rightarrow> astate" where
  "check_exists name line context = on_analyzer (\<lambda>ctx an.
     if var_exists ctx name then an else push_error (UndefinedVariable name) line (Some context) an)"

definition check_label :: "string \<Rightarrow> nat \<Rightarrow> string \<Rightarrow> astate \<Rightarrow> astate" where
  "check_label l line context = on_analyzer (\<lambda>ctx an.
     if label_exists ctx l then an else push_error (UndefinedLabel l) line (Some context) an)"

definition borrow_args :: "string \<Rightarrow> string \<Rightarrow> nat \<Rightarrow> expr list \<Rightarrow> analysis_context \<Rightarrow> analysis_context" where
  "borrow_args pat target line args =
     fold (\<lambda>arg ctx. case arg of Var x \<Rightarrow> add_spawn_borrow x pat line target ctx | _ \<Rightarrow> ctx) args"

definition assign_var :: "string \<Rightarrow> expr \<Rightarrow> nat \<Rightarrow> analysis_context \<Rightarrow> analysis_context" where
  "assign_var target e line ctx =
     (let (typ, sz, origin, state, shared) = infer_expr_info ctx e;
          elem = (case e of Channel t _ \<Rightarrow> Some t | _ \<Rightarrow> None);
          ctx1 = define_var target typ sz origin state shared elem ctx
      in case e of Spawn pat args \<Rightarrow> borrow_args pat target line args ctx1 | _ \<Rightarrow> ctx1)"

definition validate_assignment :: "nat \<Rightarrow> string \<Rightarrow> expr \<Rightarrow> astate \<Rightarrow> astate" where
  "validate_assignment line target e st = on_context (assign_var target e line) (validate_expr e st)"

definition note_store :: "string \<Rightarrow> analysis_context \<Rightarrow> analysis_context" where
  "note_store target ctx = (if hm_contains_key (ac_outputs ctx) target then ctx
     else ctx\<lparr>ac_has_non_output_writes := True\<rparr>)"

definition check_store_target :: "string \<Rightarrow> nat \<Rightarrow> astate \<Rightarrow> astate" where
  "check_store_target target line = on_analyzer (\<lambda>ctx an. case get_var ctx target of
     None \<Rightarrow> push_error (UndefinedVariable target) line (Some ''STORE target'') an
   | Some info \<Rightarrow> (if vi_shared info
        then push_error (NonAtomicSharedAccess target ''STORE'') line
               (Some ''use ATOMIC_STORE for SHARED handles'') an else an))"

definition check_output_size :: "string \<Rightarrow> usize \<Rightarrow> expr option \<Rightarrow> nat \<Rightarrow> astate \<Rightarrow> astate" where
  "check_output_size target n offset line = on_analyzer (\<lambda>ctx an.
     if offset = None then
       (case hm_get (ac_outputs ctx) target of
          Some p \<Rightarrow> (if n \<noteq> p_size p
             then push_error (OutputSizeMismatch target (p_size p) n) line None an else an)
        | None \<Rightarrow> an)
     else an)"

definition validate_store :: "nat \<Rightarrow> string \<Rightarrow> expr \<Rightarrow> usize \<Rightarrow> expr option \<Rightarrow> astate \<Rightarrow> astate" where
  "validate_store line target v n offset st =
     (let st1 = validate_expr v (check_store_target target line (on_context (note_store target) st));
          st2 = (case offset of
              Some off \<Rightarrow> value_operand off ''a dynamic offset'' (validate_expr off st1)
            | None \<Rightarrow> st1);
          st3 = on_analyzer (\<lambda>_. validate_int_size n line ''STORE'') st2;
          st4 = on_analyzer (\<lambda>ctx. check_bounds ctx target n offset line ''STORE'') st3
      in on_context (mark_output_written target) (check_output_size target n offset line st4))"

definition check_set_type :: "string \<Rightarrow> expr \<Rightarrow> nat \<Rightarrow> astate \<Rightarrow> astate" where
  "check_set_type target v line = on_analyzer (\<lambda>ctx an. case hm_get (ac_outputs ctx) target of
     None \<Rightarrow> an
   | Some p \<Rightarrow> (case fst (infer_expr_info ctx v) of
         None \<Rightarrow> an
       | Some vt \<Rightarrow>
           (let bytes_as_string = (p_typ p = TString \<and> vt = TBytes) in
            if vt \<noteq> p_typ p \<and> \<not> bytes_as_string
            then push_error (CallArgTypeMismatch ''SET'' target (type_to_string (p_typ p))
                   (type_to_string vt)) line (Some (''output '' @ single_quoted target @ '' type mismatch'')) an
            else an)))"

definition validate_set :: "nat \<Rightarrow> string \<Rightarrow> expr \<Rightarrow> astate \<Rightarrow> astate" where
  "validate_set line target v st = on_context (mark_output_written target)
     (check_set_type target v line (validate_expr v (check_exists target line ''SET target'' st)))"

definition validate_branch :: "nat \<Rightarrow> expr \<Rightarrow> string \<Rightarrow> string \<Rightarrow> astate \<Rightarrow> astate" where
  "validate_branch line condition true_label false_label st =
     check_label false_label line ''BRANCH false target''
       (check_label true_label line ''BRANCH true target'' (validate_expr condition st))"

definition call_total_size :: "analysis_context \<Rightarrow> string \<Rightarrow> usize option" where
  "call_total_size ctx f = map_option (\<lambda>c. sum_list (map p_size (c_outputs c)))
     (hm_get (ac_dependency_contracts ctx) f)"

definition define_call_result :: "string option \<Rightarrow> string \<Rightarrow> analysis_context \<Rightarrow> analysis_context" where
  "define_call_result target f ctx = (case target of
     Some t \<Rightarrow> define_var t None 8 (CallResult (call_total_size ctx f)) NotAHandle False None ctx
   | None \<Rightarrow> ctx)"

definition check_callee_at :: "string \<Rightarrow> expr list \<Rightarrow> nat \<Rightarrow> astate \<Rightarrow> astate" where
  "check_callee_at f args line = on_analyzer (\<lambda>ctx an.
     case hm_get (ac_dependency_contracts ctx) f of
       Some callee \<Rightarrow> validate_call_args f args callee line ctx an
     | None \<Rightarrow> an)"

definition validate_call_node :: "nat \<Rightarrow> string option \<Rightarrow> string \<Rightarrow> expr list \<Rightarrow> astate \<Rightarrow> astate" where
  "validate_call_node line target f args st =
     on_context (define_call_result target f) (check_callee_at f args line (fold validate_expr args st))"

definition validate_free :: "nat \<Rightarrow> string \<Rightarrow> astate \<Rightarrow> astate" where
  "validate_free line name = on_analyzer (\<lambda>ctx an. case get_var ctx name of
     None \<Rightarrow> push_error (UndefinedVariable name) line (Some ''FREE'') an
   | Some info \<Rightarrow> (case vi_state info of
         Owned \<Rightarrow> (case get_active_borrow ctx name of
             Some borrow \<Rightarrow> push_error (FreeWhileBorrowed name (ab_pattern_name borrow)) line
                (Some (''spawned at line '' @ nat_to_dec (ab_spawn_line borrow))) an
           | None \<Rightarrow> an)
       | Borrowed \<Rightarrow> push_error (FreeBorrowedHandle name) line
            (Some ''cannot FREE handle borrowed from caller'') an
       | Freed _ \<Rightarrow> an
       | NotAHandle \<Rightarrow> push_error (TypeMismatch ''handle'' ''value'') line
            (Some (single_quoted name @ '' is not a handle'')) an))"

definition check_send_type :: "string \<Rightarrow> expr \<Rightarrow> nat \<Rightarrow> astate \<Rightarrow> astate" where
  "check_send_type channel v line = on_analyzer (\<lambda>ctx an. case get_var ctx channel of
     None \<Rightarrow> an
   | Some info \<Rightarrow> (case vi_channel_element_type info of
         None \<Rightarrow> an
       | Some expected \<Rightarrow> (case fst (infer_expr_info ctx v) of
             None \<Rightarrow> an
           | Some actual \<Rightarrow> (if actual \<noteq> expected
                then push_error (ChannelSendTypeMismatch channel (type_debug expected) (type_debug actual))
                       line (Some ''Per Section 14.5: Channel send type must match declaration'') an
                else an))))"

definition validate_channel_send :: "nat \<Rightarrow> string \<Rightarrow> expr \<Rightarrow> astate \<Rightarrow> astate" where
  "validate_channel_send line channel v st =
     (let st1 = on_context note_channel_op st in
      if var_exists (snd st1) channel
      then check_send_type channel v line (validate_expr v st1)
      else on_analyzer (\<lambda>_. push_error (UndefinedVariable channel) line (Some ''CHANNEL_SEND'')) st1)"

definition validate_leaf :: "nat \<Rightarrow> node_kind \<Rightarrow> astate \<Rightarrow> astate" where
  "validate_leaf line k st = (case k of
     Assignment target e \<Rightarrow> validate_assignment line target e st
   | Store target v n offset \<Rightarrow> validate_store line target v n offset st
   | Set target v \<Rightarrow> validate_set line target v st
   | Branch condition tlab flab \<Rightarrow> validate_branch line condition tlab flab st
   | Jump l \<Rightarrow> check_label l line ''JUMP target'' st
   | CallNode target f args _ \<Rightarrow> validate_call_node line target f args st
   | Free name \<Rightarrow> validate_free line name st
   | ChannelSend channel v \<Rightarrow> validate_channel_send line channel v st
   | ChannelClose channel \<Rightarrow> check_exists channel line ''CHANNEL_CLOSE'' (on_context note_channel_op st)
   | Discard e \<Rightarrow> validate_expr e st
   | _ \<Rightarrow> st)"

definition at_line :: "nat \<Rightarrow> astate \<Rightarrow> astate" where
  "at_line line = on_context (\<lambda>ctx. ctx\<lparr>ac_current_line := line\<rparr>)"

definition enter_scope :: "astate \<Rightarrow> astate" where
  "enter_scope = on_context (\<lambda>ctx. ctx\<lparr>ac_scope_depth := ac_scope_depth ctx + 1\<rparr>)"

definition leave_scope :: "astate \<Rightarrow> astate" where
  "leave_scope = on_context (\<lambda>ctx. ctx\<lparr>ac_scope_depth := ac_scope_depth ctx - 1\<rparr>)"

fun validate_nodes :: "node list \<Rightarrow> astate \<Rightarrow> astate" where
  "validate_nodes [] st = st"
| "validate_nodes (Node sp k # rest) st =
     validate_nodes rest (case k of
        Scope inner \<Rightarrow> leave_scope (validate_nodes inner (enter_scope (at_line (sp_line sp) st)))
      | _ \<Rightarrow> validate_leaf (sp_line sp) k (at_line (sp_line sp) st))"

section \<open>Guarantees\<close>

definition validate_guarantees :: "behavior \<Rightarrow> analysis_context \<Rightarrow> analyzer \<Rightarrow> analyzer" where
  "validate_guarantees b ctx an =
     (let an1 = (if has_guarantee ctx Pure \<and> ac_has_channel_ops ctx
             then push_error (PureViolation ''contains CHANNEL operations'') 0 None an else an);
          an2 = (if has_guarantee ctx Pure \<and> ac_has_non_output_writes ctx
             then push_error (PureViolation ''contains writes to non-OUTPUT variables'') 0 None an1 else an1);
          an3 = (if has_guarantee ctx Pure \<and> rq_memory (c_requires (b_contract b)) \<noteq> []
             then push_error (PureViolation ''accesses pattern MEMORY'') 0 None an2 else an2)
      in if has_guarantee ctx NoAlloc \<and> ac_has_unscoped_alloc ctx
         then push_error (NoAllocViolation ''contains ALLOC outside SCOPE'') 0 None an3 else an3)"

section \<open>When a statement is well formed\<close>

definition set_type_ok :: "analysis_context \<Rightarrow> string \<Rightarrow> expr \<Rightarrow> bool" where
  "set_type_ok ctx target v \<longleftrightarrow> (\<forall>p t. hm_get (ac_outputs ctx) target = Some p \<longrightarrow>
     fst (infer_expr_info ctx v) = Some t \<longrightarrow> t = p_typ p \<or> p_typ p = TString \<and> t = TBytes)"

definition send_type_ok :: "analysis_context \<Rightarrow> string \<Rightarrow> expr \<Rightarrow> bool" where
  "send_type_ok ctx channel v \<longleftrightarrow> (\<forall>info elem t. get_var ctx channel = Some info \<longrightarrow>
     vi_channel_element_type info = Some elem \<longrightarrow> fst (infer_expr_info ctx v) = Some t \<longrightarrow> t = elem)"

definition output_size_ok :: "analysis_context \<Rightarrow> string \<Rightarrow> usize \<Rightarrow> expr option \<Rightarrow> bool" where
  "output_size_ok ctx target n offset \<longleftrightarrow> offset \<noteq> None \<or>
     (case hm_get (ac_outputs ctx) target of Some p \<Rightarrow> n = p_size p | None \<Rightarrow> True)"

definition can_free :: "analysis_context \<Rightarrow> string \<Rightarrow> bool" where
  "can_free ctx x \<longleftrightarrow> (\<exists>info. get_var ctx x = Some info
     \<and> (vi_state info = Owned \<and> borrows ctx x = [] \<or> (\<exists>l. vi_state info = Freed l)))"

definition call_ok :: "analysis_context \<Rightarrow> string \<Rightarrow> expr list \<Rightarrow> bool" where
  "call_ok ctx f args \<longleftrightarrow> (case hm_get (ac_dependency_contracts ctx) f of
     Some callee \<Rightarrow> args_ok ctx args callee | None \<Rightarrow> True)"

definition node_ok :: "analysis_context \<Rightarrow> node_kind \<Rightarrow> bool" where
  "node_ok ctx k \<longleftrightarrow> (case k of
     Assignment _ e \<Rightarrow> expr_ok ctx e
   | Store target v n offset \<Rightarrow> var_exists ctx target \<and> \<not> shared_var ctx target \<and> expr_ok ctx v
       \<and> (case offset of Some off \<Rightarrow> expr_ok ctx off \<and> \<not> is_handle ctx off | None \<Rightarrow> True)
       \<and> valid_int_size n \<and> in_bounds ctx target n offset \<and> output_size_ok ctx target n offset
   | Set target v \<Rightarrow> var_exists ctx target \<and> expr_ok ctx v \<and> set_type_ok ctx target v
   | Branch c x y \<Rightarrow> expr_ok ctx c \<and> label_exists ctx x \<and> label_exists ctx y
   | Jump l \<Rightarrow> label_exists ctx l
   | CallNode _ f args _ \<Rightarrow> (\<forall>a \<in> set args. expr_ok ctx a) \<and> call_ok ctx f args
   | Free x \<Rightarrow> can_free ctx x
   | ChannelSend channel v \<Rightarrow> var_exists ctx channel \<and> expr_ok ctx v \<and> send_type_ok ctx channel v
   | ChannelClose channel \<Rightarrow> var_exists ctx channel
   | Discard e \<Rightarrow> expr_ok ctx e
   | _ \<Rightarrow> True)"

subsection \<open>One rule per step\<close>

lemma same_scope_node_preds:
  assumes "same_scope ctx ctx'"
  shows "set_type_ok ctx' = set_type_ok ctx" "send_type_ok ctx' = send_type_ok ctx"
    "output_size_ok ctx' = output_size_ok ctx" "label_exists ctx' = label_exists ctx"
    "call_ok ctx' = call_ok ctx"
proof -
  have "get_var ctx' = get_var ctx"
    using same_scope_fields [OF assms] by (simp add: get_var_def fun_eq_iff)
  moreover have "infer_expr_info ctx' = infer_expr_info ctx"
    using same_scope_infer [OF assms] by (simp add: fun_eq_iff)
  ultimately show "set_type_ok ctx' = set_type_ok ctx" "send_type_ok ctx' = send_type_ok ctx"
    "output_size_ok ctx' = output_size_ok ctx" "label_exists ctx' = label_exists ctx"
    "call_ok ctx' = call_ok ctx"
    using same_scope_fields [OF assms] same_scope_preds [OF assms]
    by (auto simp: fun_eq_iff set_type_ok_def send_type_ok_def output_size_ok_def label_exists_def call_ok_def
        split: option.splits)
qed

lemma then_reports:
  assumes "checks p st st1" and "\<And>ctx an. reports (Q ctx) an (f ctx an)"
    and "\<And>ctx ctx'. same_scope ctx ctx' \<Longrightarrow> Q ctx' = Q ctx"
  shows "checks (p \<and> Q (snd st)) st (on_analyzer f st1)"
  by (rule checks_then [OF assms(1) _ assms(3)]) (rule checks_analyzer, rule assms(2))

lemma then_exists: "checks p st st1 \<Longrightarrow> checks (p \<and> var_exists (snd st) x) st (check_exists x l c st1)"
  unfolding check_exists_def
  by (rule then_reports [where Q = "\<lambda>ctx. var_exists ctx x"]) (auto simp: same_scope_preds reports_def)

lemma then_label: "checks p st st1 \<Longrightarrow> checks (p \<and> label_exists (snd st) x) st (check_label x l c st1)"
  unfolding check_label_def
  by (rule then_reports [where Q = "\<lambda>ctx. label_exists ctx x"]) (auto simp: same_scope_node_preds reports_def)

lemma then_store_target:
  "checks p st st1 \<Longrightarrow> checks (p \<and> (var_exists (snd st) x \<and> \<not> shared_var (snd st) x)) st (check_store_target x l st1)"
  unfolding check_store_target_def
  by (rule then_reports [where Q = "\<lambda>ctx. var_exists ctx x \<and> \<not> shared_var ctx x"])
    (auto simp: same_scope_preds reports_def var_exists_get_var shared_var_def split: option.splits)

lemma then_store_size: "checks p st st1 \<Longrightarrow> checks (p \<and> valid_int_size n) st (on_analyzer (\<lambda>_. validate_int_size n l c) st1)"
  by (rule then_reports [where Q = "\<lambda>_. valid_int_size n"]) (auto simp: reports_int_size)

lemma then_store_bounds: "checks p st st1 \<Longrightarrow>
    checks (p \<and> in_bounds (snd st) x n off) st (on_analyzer (\<lambda>ctx. check_bounds ctx x n off l c) st1)"
  by (rule then_reports [where Q = "\<lambda>ctx. in_bounds ctx x n off"]) (auto simp: reports_bounds same_scope_preds)

lemma then_output_size: "checks p st st1 \<Longrightarrow>
    checks (p \<and> output_size_ok (snd st) x n off) st (check_output_size x n off l st1)"
  unfolding check_output_size_def
  by (rule then_reports [where Q = "\<lambda>ctx. output_size_ok ctx x n off"])
    (auto simp: same_scope_node_preds reports_def output_size_ok_def split: option.splits)

lemma then_set_type: "checks p st st1 \<Longrightarrow>
    checks (p \<and> set_type_ok (snd st) x v) st (check_set_type x v l st1)"
  unfolding check_set_type_def
  by (rule then_reports [where Q = "\<lambda>ctx. set_type_ok ctx x v"])
    (auto simp: same_scope_node_preds reports_def set_type_ok_def Let_def split: option.splits)

lemma then_send_type: "checks p st st1 \<Longrightarrow>
    checks (p \<and> send_type_ok (snd st) x v) st (check_send_type x v l st1)"
  unfolding check_send_type_def
  by (rule then_reports [where Q = "\<lambda>ctx. send_type_ok ctx x v"])
    (auto simp: same_scope_node_preds reports_def send_type_ok_def split: option.splits)

lemma then_callee_at: "checks p st st1 \<Longrightarrow>
    checks (p \<and> call_ok (snd st) f args) st (check_callee_at f args l st1)"
  unfolding check_callee_at_def
  by (rule then_reports [where Q = "\<lambda>ctx. call_ok ctx f args"])
    (auto simp: same_scope_node_preds call_ok_def reports_call_args reports_refl split: option.splits)

lemma then_valid_expr: "checks p st st1 \<Longrightarrow> checks (p \<and> expr_ok (snd st) e) st (validate_expr e st1)"
  by (rule then_expr) (simp_all add: checks_expr)

lemma then_valid_args:
  "checks p st st1 \<Longrightarrow> checks (p \<and> (\<forall>a \<in> set args. expr_ok (snd st) a)) st (fold validate_expr args st1)"
  by (rule then_args) (simp_all add: checks_expr)

lemma same_scope_node_notes:
  "same_scope ctx (note_store x ctx)" "same_scope ctx (mark_output_written x ctx)"
  by (simp_all add: same_scope_def strip_notes_def note_store_def mark_output_written_def)

lemmas node_then_rules = then_exists then_label then_store_target then_store_size then_store_bounds
  then_output_size then_set_type then_send_type then_callee_at then_valid_args then_valid_expr then_value
  then_context checks_start same_scope_node_notes same_scope_notes

subsection \<open>The statement checker\<close>

lemma reports_on_context [simp]: "fst (on_context f st) = fst st"
  by (simp add: on_context_def)

lemma checks_reports: "checks p st st' \<Longrightarrow> reports p (fst st) (fst st')"
  by (simp add: checks_def)

lemma checks_store:
  "checks (node_ok (snd st) (Store x v n off)) st (validate_store l x v n off st)"
proof (cases off)
  case None
  show ?thesis
    unfolding validate_store_def Let_def None option.case
    by (rule checks_cong, (rule node_then_rules)+) (auto simp: node_ok_def)
next
  case (Some e)
  show ?thesis
    unfolding validate_store_def Let_def Some option.case
    by (rule checks_cong, (rule node_then_rules)+) (auto simp: node_ok_def)
qed

lemma checks_set: "checks (node_ok (snd st) (Set x v)) st (validate_set l x v st)"
  unfolding validate_set_def by (rule checks_cong, (rule node_then_rules)+) (auto simp: node_ok_def)

lemma checks_branch: "checks (node_ok (snd st) (Branch c x y)) st (validate_branch l c x y st)"
  unfolding validate_branch_def by (rule checks_cong, (rule node_then_rules)+) (auto simp: node_ok_def)

lemma reports_free: "reports (can_free ctx x) an (fst (validate_free l x (an, ctx)))"
  by (auto simp: validate_free_def on_analyzer_def can_free_def reports_def get_active_borrow_alt
      split: option.splits handle_state.splits list.splits)

lemma reports_send:
  "reports (node_ok (snd st) (ChannelSend x v)) (fst st) (fst (validate_channel_send l x v st))"
proof (cases "var_exists (snd st) x")
  case True
  have "checks (node_ok (snd st) (ChannelSend x v)) st
      (check_send_type x v l (validate_expr v (on_context note_channel_op st)))"
    by (rule checks_cong, (rule node_then_rules)+) (auto simp: node_ok_def True)
  then show ?thesis
    using True by (simp add: validate_channel_send_def checks_def on_context_def note_channel_op_def var_exists_def)
next
  case False
  then show ?thesis
    by (simp add: validate_channel_send_def node_ok_def on_context_def on_analyzer_def note_channel_op_def
        var_exists_def reports_def)
qed

lemma reports_call_node:
  "reports (node_ok (snd st) (CallNode t f args outs)) (fst st) (fst (validate_call_node l t f args st))"
proof -
  have "checks (node_ok (snd st) (CallNode t f args outs)) st (check_callee_at f args l (fold validate_expr args st))"
    by (rule checks_cong, (rule node_then_rules)+) (auto simp: node_ok_def)
  then show ?thesis by (simp add: validate_call_node_def checks_def)
qed

lemma reports_close:
  "reports (var_exists (snd st) x) (fst st) (fst (check_exists x l c (on_context note_channel_op st)))"
proof -
  have "checks (var_exists (snd st) x) st (check_exists x l c (on_context note_channel_op st))"
    by (rule checks_cong, (rule node_then_rules)+) simp
  then show ?thesis by (simp add: checks_def)
qed

lemma reports_leaf: "reports (node_ok (snd st) k) (fst st) (fst (validate_leaf l k st))"
proof (cases k)
  case (Assignment x e)
  then show ?thesis
    using checks_reports [OF checks_expr [of st e]]
    by (simp add: validate_leaf_def validate_assignment_def node_ok_def)
next
  case (Jump x)
  have "checks (label_exists (snd st) x) st (check_label x l ''JUMP target'' st)"
    by (rule checks_cong, (rule node_then_rules)+) simp
  then show ?thesis using Jump by (simp add: validate_leaf_def node_ok_def checks_def)
next
  case (Free x)
  then show ?thesis using reports_free [of "snd st" x "fst st" l] by (simp add: validate_leaf_def node_ok_def)
qed (use checks_reports [OF checks_store] checks_reports [OF checks_set] checks_reports [OF checks_branch]
      reports_send reports_call_node reports_close checks_reports [OF checks_expr]
    in \<open>auto simp: validate_leaf_def node_ok_def reports_refl\<close>)

section \<open>Labels\<close>

fun labels_of :: "node list \<Rightarrow> string list" where
  "labels_of [] = []"
| "labels_of (Node sp k # rest) =
     (case k of Label l \<Rightarrow> [l] | Scope inner \<Rightarrow> labels_of inner | _ \<Rightarrow> []) @ labels_of rest"

definition label_keys :: "analysis_context \<Rightarrow> string set" where
  "label_keys ctx = set (hm_keys (ac_labels ctx))"

lemma label_exists_keys: "label_exists ctx l \<longleftrightarrow> l \<in> label_keys ctx"
  by (simp add: label_exists_def label_keys_def hm_simps)

lemma collect_label_step:
  "reports (l \<notin> label_keys (snd st)) (fst st) (fst (collect_label l n st))
   \<and> label_keys (snd (collect_label l n st)) = insert l (label_keys (snd st))"
proof (cases "hm_get (ac_labels (snd st)) l")
  case None
  then show ?thesis
    by (auto simp: collect_label_def define_label_def label_keys_def reports_refl set_hm_keys)
next
  case (Some first)
  then show ?thesis
    by (auto simp: collect_label_def define_label_def label_keys_def reports_def set_hm_keys)
qed

lemma collect_labels_nodes:
  "reports (distinct (labels_of nodes) \<and> set (labels_of nodes) \<inter> label_keys (snd st) = {}) (fst st)
     (fst (collect_labels_from_nodes nodes st))
   \<and> label_keys (snd (collect_labels_from_nodes nodes st)) = label_keys (snd st) \<union> set (labels_of nodes)"
proof (induction nodes st rule: collect_labels_from_nodes.induct)
  case (1 st)
  then show ?case by (simp add: reports_refl)
next
  case (2 sp k rest st)
  define st1 where "st1 = (case k of Label name \<Rightarrow> collect_label name (sp_line sp) st
      | Scope inner \<Rightarrow> collect_labels_from_nodes inner st | _ \<Rightarrow> st)"
  define ls where "ls = (case k of Label l \<Rightarrow> [l] | Scope inner \<Rightarrow> labels_of inner | _ \<Rightarrow> [])"
  have step: "reports (distinct ls \<and> set ls \<inter> label_keys (snd st) = {}) (fst st) (fst st1)
      \<and> label_keys (snd st1) = label_keys (snd st) \<union> set ls"
  proof (cases k)
    case (Label l)
    then show ?thesis using collect_label_step [of l st "sp_line sp"] by (simp add: st1_def ls_def)
  next
    case (Scope inner)
    then show ?thesis using 2(1) by (simp add: st1_def ls_def)
  qed (simp_all add: st1_def ls_def reports_refl)
  have rest: "reports (distinct (labels_of rest) \<and> set (labels_of rest) \<inter> label_keys (snd st1) = {}) (fst st1)
     (fst (collect_labels_from_nodes rest st1))
   \<and> label_keys (snd (collect_labels_from_nodes rest st1)) = label_keys (snd st1) \<union> set (labels_of rest)"
    using 2(2) unfolding st1_def .
  have "labels_of (Node sp k # rest) = ls @ labels_of rest"
    and "collect_labels_from_nodes (Node sp k # rest) st = collect_labels_from_nodes rest st1"
    by (simp_all add: ls_def st1_def)
  moreover have "(distinct ls \<and> set ls \<inter> label_keys (snd st) = {})
      \<and> distinct (labels_of rest) \<and> set (labels_of rest) \<inter> label_keys (snd st1) = {}
    \<longleftrightarrow> distinct (ls @ labels_of rest) \<and> set (ls @ labels_of rest) \<inter> label_keys (snd st) = {}"
    using step by auto
  ultimately show ?case
    using reports_cong [OF reports_trans [OF conjunct1 [OF step] conjunct1 [OF rest]]] step rest by auto
qed

section \<open>The linear pass\<close>

text \<open>The statements a body consists of, scopes opened, and the context each is checked in.\<close>

fun leaves :: "node list \<Rightarrow> node_kind list" where
  "leaves [] = []"
| "leaves (Node sp k # rest) = (case k of Scope inner \<Rightarrow> leaves inner | _ \<Rightarrow> [k]) @ leaves rest"

fun visits :: "node list \<Rightarrow> astate \<Rightarrow> (analysis_context \<times> node_kind) list" where
  "visits [] st = []"
| "visits (Node sp k # rest) st =
     (let st1 = at_line (sp_line sp) st in case k of
        Scope inner \<Rightarrow> visits inner (enter_scope st1)
          @ visits rest (leave_scope (validate_nodes inner (enter_scope st1)))
      | _ \<Rightarrow> (snd st1, k) # visits rest (validate_leaf (sp_line sp) k st1))"

definition visits_ok :: "node list \<Rightarrow> astate \<Rightarrow> bool" where
  "visits_ok nodes st \<longleftrightarrow> (\<forall>(ctx, k) \<in> set (visits nodes st). node_ok ctx k)"

lemma visits_ok_Nil [simp]: "visits_ok [] st"
  by (simp add: visits_ok_def)

lemma visits_ok_Scope [simp]:
  "visits_ok (Node sp (Scope inner) # rest) st \<longleftrightarrow>
     visits_ok inner (enter_scope (at_line (sp_line sp) st))
   \<and> visits_ok rest (leave_scope (validate_nodes inner (enter_scope (at_line (sp_line sp) st))))"
  by (auto simp: visits_ok_def Let_def)

lemma visits_leaf:
  "\<nexists>inner. k = Scope inner \<Longrightarrow> visits (Node sp k # rest) st
     = (snd (at_line (sp_line sp) st), k) # visits rest (validate_leaf (sp_line sp) k (at_line (sp_line sp) st))"
  by (cases k) (simp_all add: Let_def)

lemma visits_ok_leaf:
  assumes "\<nexists>inner. k = Scope inner"
  shows "visits_ok (Node sp k # rest) st \<longleftrightarrow>
     node_ok (snd (at_line (sp_line sp) st)) k
   \<and> visits_ok rest (validate_leaf (sp_line sp) k (at_line (sp_line sp) st))"
  unfolding visits_ok_def visits_leaf [OF assms] by simp

lemma validate_nodes_leaf:
  "\<nexists>inner. k = Scope inner \<Longrightarrow> validate_nodes (Node sp k # rest) st
     = validate_nodes rest (validate_leaf (sp_line sp) k (at_line (sp_line sp) st))"
  by (cases k) simp_all

lemma leaves_leaf: "\<nexists>inner. k = Scope inner \<Longrightarrow> leaves (Node sp k # rest) = k # leaves rest"
  by (cases k) simp_all

lemma fst_scope [simp]:
  "fst (at_line l st) = fst st" "fst (enter_scope st) = fst st" "fst (leave_scope st) = fst st"
  by (simp_all add: at_line_def enter_scope_def leave_scope_def)

text \<open>Induction over a body: the empty body, a scope, any other statement.\<close>

lemma nodes_induct [case_names Nil Scope Leaf]:
  assumes "\<And>st. P [] st"
    and "\<And>sp inner rest st. P inner (enter_scope (at_line (sp_line sp) st)) \<Longrightarrow>
      P rest (leave_scope (validate_nodes inner (enter_scope (at_line (sp_line sp) st)))) \<Longrightarrow>
      P (Node sp (Scope inner) # rest) st"
    and "\<And>sp k rest st. \<nexists>inner. k = Scope inner \<Longrightarrow>
      P rest (validate_leaf (sp_line sp) k (at_line (sp_line sp) st)) \<Longrightarrow> P (Node sp k # rest) st"
  shows "P nodes st"
proof (induction nodes st rule: validate_nodes.induct)
  case (1 st)
  then show ?case by (rule assms)
next
  case (2 sp k rest st)
  show ?case
  proof (cases "\<exists>inner. k = Scope inner")
    case True
    then obtain inner where k: "k = Scope inner" by blast
    show ?thesis unfolding k by (rule assms(2)) (use 2 k in simp_all)
  next
    case False
    moreover have "P rest (validate_leaf (sp_line sp) k (at_line (sp_line sp) st))"
      using 2(2) False by (cases k) simp_all
    ultimately show ?thesis by (rule assms(3))
  qed
qed

lemma reports_nodes: "reports (visits_ok nodes st) (fst st) (fst (validate_nodes nodes st))"
proof (induction nodes st rule: nodes_induct)
  case (Nil st)
  then show ?case by (simp add: reports_refl)
next
  case (Scope sp inner rest st)
  then show ?case using reports_trans [OF Scope(1), of _ "fst (validate_nodes (Node sp (Scope inner) # rest) st)"] by simp
next
  case (Leaf sp k rest st)
  have "reports (node_ok (snd (at_line (sp_line sp) st)) k) (fst st)
      (fst (validate_leaf (sp_line sp) k (at_line (sp_line sp) st)))"
    using reports_leaf [of "at_line (sp_line sp) st" k "sp_line sp"] by simp
  from reports_trans [OF this Leaf(2)] show ?case
    by (simp only: visits_ok_leaf [OF Leaf(1)] validate_nodes_leaf [OF Leaf(1)])
qed

lemma snd_visits: "map snd (visits nodes st) = leaves nodes"
proof (induction nodes st rule: nodes_induct)
  case (Leaf sp k rest st)
  then show ?case by (simp only: visits_leaf [OF Leaf(1)] leaves_leaf [OF Leaf(1)] list.map snd_conv)
qed (simp_all add: Let_def)

subsection \<open>What the pass keeps of the context\<close>

definition same_env :: "analysis_context \<Rightarrow> analysis_context \<Rightarrow> bool" where
  "same_env ctx ctx' \<longleftrightarrow> ac_labels ctx' = ac_labels ctx \<and> ac_inputs ctx' = ac_inputs ctx
     \<and> ac_outputs ctx' = ac_outputs ctx \<and> ac_guarantees ctx' = ac_guarantees ctx
     \<and> ac_scope_depth ctx' = ac_scope_depth ctx
     \<and> ac_dependency_contracts ctx' = ac_dependency_contracts ctx"

lemma same_env_refl: "same_env ctx ctx"
  by (simp add: same_env_def)

lemma same_env_trans: "same_env a b \<Longrightarrow> same_env b c \<Longrightarrow> same_env a c"
  by (simp add: same_env_def)

lemma same_scope_env: "same_scope ctx ctx' \<Longrightarrow> same_env ctx ctx'"
  by (simp add: same_env_def same_scope_fields)

lemma same_env_borrow: "same_env ctx (borrow_args pat t l args ctx)"
proof -
  have "same_env ctx0 (borrow_args pat t l args ctx)" if "same_env ctx0 ctx" for ctx0
    using that unfolding borrow_args_def
    by (induction args arbitrary: ctx)
      (auto simp: same_env_def add_spawn_borrow_def Let_def split: expr.splits)
  then show ?thesis using same_env_refl by blast
qed

lemma same_env_define [simp]: "same_env ctx (define_var x t n og st sh el ctx)"
  by (simp add: same_env_def define_var_def)

lemma same_env_assign: "same_env ctx (assign_var x e l ctx)"
  using same_env_trans [OF same_env_define same_env_borrow]
  by (auto simp: assign_var_def Let_def split: prod.splits expr.splits)

lemma same_env_leaf: "same_env (snd st) (snd (validate_leaf l k st))"
proof -
  have e: "same_env (snd st) (snd (validate_expr e st))" for e st
    by (rule same_scope_env) simp
  have args: "same_env (snd st) (snd (fold validate_expr args st))" for args st
    using checks_reports checks_fold [of args validate_expr st] checks_expr
    by (auto simp: checks_def intro: same_scope_env)
  have c: "same_env (snd st) (snd (validate_store l x v n off st))" for x v n off
    using checks_store [of st x v n off l] by (auto simp: checks_def intro: same_scope_env)
  have s: "same_env (snd st) (snd (validate_set l x v st))" for x v
    using checks_set [of st x v l] by (auto simp: checks_def intro: same_scope_env)
  have b: "same_env (snd st) (snd (validate_branch l e x y st))" for e x y
    using checks_branch [of st e x y l] by (auto simp: checks_def intro: same_scope_env)
  have chan: "same_env (snd st) (note_channel_op (snd st))"
    by (rule same_scope_env) simp
  show ?thesis
  proof (cases k)
    case (Assignment x a)
    then show ?thesis
      using same_env_trans [OF e [of st a] same_env_assign]
      by (simp add: validate_leaf_def validate_assignment_def on_context_def)
  next
    case (CallNode t f as os)
    have "same_env (snd (fold validate_expr as st)) (define_call_result t f (snd (fold validate_expr as st)))"
      by (simp add: define_call_result_def same_env_refl split: option.split)
    then show ?thesis
      using same_env_trans [OF args [of st as]] CallNode
      by (simp add: validate_leaf_def validate_call_node_def on_context_def check_callee_at_def)
  next
    case (ChannelSend x v)
    have "same_env (snd st) (snd (validate_expr v (on_context note_channel_op st)))"
      using same_env_trans [OF chan e [of "on_context note_channel_op st" v, unfolded on_context_def snd_conv]]
      by (simp add: on_context_def)
    then show ?thesis
      using ChannelSend chan
      by (simp add: validate_leaf_def validate_channel_send_def Let_def check_send_type_def on_context_def)
  next
    case (ChannelClose x)
    then show ?thesis using chan by (simp add: validate_leaf_def check_exists_def on_context_def)
  qed (use e c s b same_env_refl in \<open>simp_all add: validate_leaf_def check_label_def validate_free_def\<close>)
qed

lemma same_env_nodes: "same_env (snd st) (snd (validate_nodes nodes st))"
proof (induction nodes st rule: nodes_induct)
  case (Nil st)
  then show ?case by (simp add: same_env_refl)
next
  case (Scope sp inner rest st)
  have "same_env (snd st) (snd (leave_scope (validate_nodes inner (enter_scope (at_line (sp_line sp) st)))))"
    using Scope(1) by (simp add: same_env_def leave_scope_def enter_scope_def at_line_def on_context_def)
  from same_env_trans [OF this Scope(2)] show ?case by simp
next
  case (Leaf sp k rest st)
  have "same_env (snd st) (snd (at_line (sp_line sp) st))"
    by (simp add: same_env_def at_line_def on_context_def)
  from same_env_trans [OF same_env_trans [OF this same_env_leaf] Leaf(2)] show ?case
    by (simp only: validate_nodes_leaf [OF Leaf(1)])
qed

lemma label_keys_scope [simp]:
  "label_keys (snd (at_line l st)) = label_keys (snd st)" "label_keys (snd (enter_scope st)) = label_keys (snd st)"
  "label_keys (snd (leave_scope st)) = label_keys (snd st)"
  by (simp_all add: label_keys_def at_line_def enter_scope_def leave_scope_def on_context_def)

lemma label_keys_pass [simp]:
  "label_keys (snd (validate_leaf l k st)) = label_keys (snd st)"
  "label_keys (snd (validate_nodes nodes st)) = label_keys (snd st)"
  using same_env_leaf [of st l k] same_env_nodes [of st nodes] by (simp_all add: same_env_def label_keys_def)

lemma visits_labels: "(ctx, k) \<in> set (visits nodes st) \<Longrightarrow> label_keys ctx = label_keys (snd st)"
proof (induction nodes st rule: nodes_induct)
  case (Nil st)
  then show ?case by simp
next
  case (Scope sp inner rest st)
  from Scope(3) show ?case
    using Scope(1,2) by (simp add: Let_def) blast
next
  case (Leaf sp k' rest st)
  from Leaf(3) consider "ctx = snd (at_line (sp_line sp) st)"
    | "(ctx, k) \<in> set (visits rest (validate_leaf (sp_line sp) k' (at_line (sp_line sp) st)))"
    unfolding visits_leaf [OF Leaf(1)] by auto
  then show ?case using Leaf(2) by cases simp_all
qed

subsection \<open>What the pass notes for the guarantees\<close>

fun node_exprs :: "node_kind \<Rightarrow> expr list" where
  "node_exprs (Assignment _ e) = [e]"
| "node_exprs (Store _ v _ offset) = v # (case offset of Some off \<Rightarrow> [off] | None \<Rightarrow> [])"
| "node_exprs (Set _ v) = [v]"
| "node_exprs (Branch c _ _) = [c]"
| "node_exprs (CallNode _ _ args _) = args"
| "node_exprs (ChannelSend _ v) = [v]"
| "node_exprs (Discard e) = [e]"
| "node_exprs _ = []"

definition alloc_node :: "node_kind \<Rightarrow> bool" where
  "alloc_node k \<longleftrightarrow> (\<exists>e \<in> set (node_exprs k). allocates e)"

definition channel_node :: "node_kind \<Rightarrow> bool" where
  "channel_node k \<longleftrightarrow> (\<exists>c v. k = ChannelSend c v) \<or> (\<exists>c. k = ChannelClose c)
     \<or> (\<exists>e \<in> set (node_exprs k). uses_channel e)"

definition writes_elsewhere :: "string set \<Rightarrow> node_kind \<Rightarrow> bool" where
  "writes_elsewhere outs k \<longleftrightarrow> (\<exists>x v n off. k = Store x v n off \<and> x \<notin> outs)"

definition output_names :: "analysis_context \<Rightarrow> string set" where
  "output_names ctx = set (hm_keys (ac_outputs ctx))"

fun top_leaves :: "node list \<Rightarrow> node_kind list" where
  "top_leaves [] = []"
| "top_leaves (Node sp k # rest) = (case k of Scope _ \<Rightarrow> [] | _ \<Rightarrow> [k]) @ top_leaves rest"

lemma flags_borrow: "flags False False False ctx (borrow_args pat t l args ctx)"
proof -
  have "flags False False False ctx0 (borrow_args pat t l args ctx)" if "flags False False False ctx0 ctx" for ctx0
    using that unfolding borrow_args_def
    by (induction args arbitrary: ctx)
      (auto simp: flags_def add_spawn_borrow_def Let_def split: expr.splits)
  then show ?thesis using flags_refl by blast
qed

lemma flags_define [simp]: "flags False False False ctx (define_var x t n og st sh el ctx)"
  by (simp add: flags_def define_var_def)

lemma flags_assign: "flags False False False ctx (assign_var x e l ctx)"
  using flags_trans [OF flags_define flags_borrow] flags_borrow
  by (auto simp: assign_var_def Let_def split: prod.splits expr.splits)

lemma flags_then_expr:
  "flags a c w ctx (snd st) \<Longrightarrow> flags (a \<or> allocates e) (c \<or> uses_channel e) w ctx (snd (validate_expr e st))"
  using flags_trans [OF _ flags_expr [of e st]] by fastforce

lemma flags_node_notes:
  "flags False False (x \<notin> output_names ctx) ctx (note_store x ctx)"
  "flags False False False ctx (mark_output_written x ctx)"
  by (auto simp: flags_def note_store_def mark_output_written_def output_names_def hm_contains_key_iff)

lemma snd_node_checks [simp]:
  "snd (check_exists x l c st) = snd st" "snd (check_label x l c st) = snd st"
  "snd (check_store_target x l st) = snd st" "snd (check_output_size x n off l st) = snd st"
  "snd (check_set_type x v l st) = snd st" "snd (check_send_type x v l st) = snd st"
  "snd (check_callee_at f args l st) = snd st" "snd (validate_free l x st) = snd st"
  by (simp_all add: check_exists_def check_label_def check_store_target_def check_output_size_def
      check_set_type_def check_send_type_def check_callee_at_def validate_free_def)

lemma flags_then_context:
  assumes "flags a c w ctx (snd st)" and "\<And>ctx. flags False False False ctx (f ctx)"
  shows "flags a c w ctx (snd (on_context f st))"
  using flags_trans [OF assms(1) assms(2)] by (simp add: on_context_def)

lemma flags_mark: "flags a c w ctx (snd st) \<Longrightarrow> flags a c w ctx (snd (on_context (mark_output_written x) st))"
  by (rule flags_then_context) (simp_all add: flags_node_notes)

lemma flags_store:
  "flags (alloc_node (Store x v n off)) (channel_node (Store x v n off))
     (writes_elsewhere (output_names (snd st)) (Store x v n off)) (snd st) (snd (validate_store l x v n off st))"
proof -
  have 1: "flags False False (x \<notin> output_names (snd st)) (snd st) (snd (on_context (note_store x) st))"
    by (simp add: on_context_def flags_node_notes)
  have 2: "flags (allocates v) (uses_channel v) (x \<notin> output_names (snd st)) (snd st)
      (snd (validate_expr v (check_store_target x l (on_context (note_store x) st))))"
    using flags_then_expr [of False False _ "snd st" "check_store_target x l (on_context (note_store x) st)" v] 1 by simp
  show ?thesis
  proof (cases off)
    case None
    show ?thesis
      unfolding validate_store_def Let_def None option.case
      by (rule flags_cong, rule flags_mark, simp, rule 2)
        (auto simp: alloc_node_def channel_node_def writes_elsewhere_def)
  next
    case (Some e)
    show ?thesis
      unfolding validate_store_def Let_def Some option.case
      by (rule flags_cong, rule flags_mark, simp, rule flags_then_expr [OF 2])
        (auto simp: alloc_node_def channel_node_def writes_elsewhere_def)
  qed
qed

lemma flags_args:
  "flags (\<exists>a \<in> set args. allocates a) (\<exists>a \<in> set args. uses_channel a) False (snd st) (snd (fold validate_expr args st))"
  by (rule flags_fold) (rule flags_expr)

lemma flags_leaf:
  assumes "node_ok (snd st) k"
  shows "flags (alloc_node k) (channel_node k) (writes_elsewhere (output_names (snd st)) k) (snd st)
     (snd (validate_leaf l k st))"
proof (cases k)
  case (Assignment x e)
  then show ?thesis
    using flags_then_context [OF flags_expr [of e st], of "assign_var x e l"] flags_assign
    by (simp add: validate_leaf_def validate_assignment_def alloc_node_def channel_node_def writes_elsewhere_def)
next
  case (Store x v n off)
  then show ?thesis using flags_store [of x v n off st l] by (simp add: validate_leaf_def)
next
  case (Set x v)
  have "flags (allocates v) (uses_channel v) False (snd st) (snd (validate_expr v (check_exists x l ''SET target'' st)))"
    using flags_expr [of v "check_exists x l ''SET target'' st"] by simp
  then show ?thesis
    using Set by (simp add: flags_mark validate_leaf_def validate_set_def alloc_node_def channel_node_def writes_elsewhere_def)
next
  case (CallNode t f args os)
  have "flags False False False ctx (define_call_result t f ctx)" for ctx
    by (simp add: define_call_result_def flags_refl split: option.split)
  with flags_then_context [of _ _ _ _ "check_callee_at f args l (fold validate_expr args st)"] flags_args show ?thesis
    using CallNode by (simp add: validate_leaf_def validate_call_node_def alloc_node_def channel_node_def writes_elsewhere_def)
next
  case (ChannelSend x v)
  then have "var_exists (note_channel_op (snd st)) x"
    using assms by (simp add: node_ok_def note_channel_op_def var_exists_def)
  moreover have "flags (allocates v) True False (snd st) (snd (validate_expr v (on_context note_channel_op st)))"
    using flags_then_expr [of False True False "snd st" "on_context note_channel_op st" v] flags_ops(2)
    by (simp add: on_context_def)
  ultimately show ?thesis
    using ChannelSend
    by (simp add: validate_leaf_def validate_channel_send_def Let_def on_context_def alloc_node_def channel_node_def writes_elsewhere_def)
qed (use flags_expr flags_refl flags_ops(2) in \<open>simp_all add: validate_leaf_def validate_branch_def on_context_def
      alloc_node_def channel_node_def writes_elsewhere_def\<close>)

lemma output_names_pass [simp]:
  "output_names (snd (validate_leaf l k st)) = output_names (snd st)"
  "output_names (snd (validate_nodes nodes st)) = output_names (snd st)"
  "output_names (snd (at_line l st)) = output_names (snd st)" "output_names (snd (enter_scope st)) = output_names (snd st)"
  "output_names (snd (leave_scope st)) = output_names (snd st)"
  using same_env_leaf [of st l k] same_env_nodes [of st nodes]
  by (simp_all add: same_env_def output_names_def at_line_def enter_scope_def leave_scope_def on_context_def)

lemma flags_nodes:
  "visits_ok nodes st \<Longrightarrow> flags (\<exists>k \<in> set (top_leaves nodes). alloc_node k) (\<exists>k \<in> set (leaves nodes). channel_node k)
     (\<exists>k \<in> set (leaves nodes). writes_elsewhere (output_names (snd st)) k) (snd st) (snd (validate_nodes nodes st))"
proof (induction nodes st rule: nodes_induct)
  case (Nil st)
  then show ?case by (simp add: flags_refl)
next
  case (Scope sp inner rest st)
  let ?in = "enter_scope (at_line (sp_line sp) st)"
  have "flags False (\<exists>k \<in> set (leaves inner). channel_node k)
      (\<exists>k \<in> set (leaves inner). writes_elsewhere (output_names (snd st)) k) (snd st)
      (snd (leave_scope (validate_nodes inner ?in)))"
    using Scope(1,3) by (simp add: flags_def leave_scope_def enter_scope_def at_line_def on_context_def output_names_def)
  from flags_cong [OF flags_trans [OF this Scope(2)]] Scope(3) show ?case by (simp add: bex_Un)
next
  case (Leaf sp k rest st)
  have ok: "node_ok (snd (at_line (sp_line sp) st)) k" "visits_ok rest (validate_leaf (sp_line sp) k (at_line (sp_line sp) st))"
    using Leaf(3) by (simp_all only: visits_ok_leaf [OF Leaf(1)])
  have "flags False False False (snd st) (snd (at_line (sp_line sp) st))"
    by (simp add: flags_def at_line_def on_context_def)
  note flags_trans [OF flags_trans [OF this flags_leaf [OF ok(1), of "sp_line sp"]] Leaf(2) [OF ok(2)]]
  moreover have "top_leaves (Node sp k # rest) = k # top_leaves rest"
    using Leaf(1) by (cases k) simp_all
  ultimately show ?case
    by (simp add: leaves_leaf [OF Leaf(1)] validate_nodes_leaf [OF Leaf(1)] del: leaves.simps validate_nodes.simps top_leaves.simps)
qed

section \<open>Properties\<close>


text \<open>
  Label collection adds no error exactly when the labels of a body, those inside scopes
  included, are pairwise different and not defined before, and it leaves exactly these labels
  defined.
\<close>

theorem collect_labels_exact:
  "(an_errors (fst (collect_labels_from_nodes nodes (an, ctx))) = an_errors an \<longleftrightarrow>
     distinct (labels_of nodes) \<and> set (labels_of nodes) \<inter> label_keys ctx = {})
   \<and> label_keys (snd (collect_labels_from_nodes nodes (an, ctx))) = label_keys ctx \<union> set (labels_of nodes)"
  using collect_labels_nodes [of nodes "(an, ctx)"] reports_iff by auto

end
