(* ===== verification/Sigil_Wiring.thy ===== *)
theory Sigil_Wiring
  imports Sigil_Node_Check
begin

text \<open>
  The leaf/composite rules, after \<^verbatim>\<open>compiler/src/semantic/mod.rs\<close>: a composition only wires
  behaviors, a leaf does not call, and every output a call in a composition produces is
  consumed. The backward propagation of liveness through assignments is proved to compute the
  least set of consumed places.
\<close>

section \<open>Composites wire\<close>

fun first_some :: "'a option list \<Rightarrow> 'a option" where
  "first_some [] = None"
| "first_some (Some x # xs) = Some x"
| "first_some (None # xs) = first_some xs"

fun forbidden_compute_op :: "expr \<Rightarrow> string option" where
  "forbidden_compute_op (Alloc _ _ _) = Some ''ALLOC''"
| "forbidden_compute_op (IArith _ _ _ _) = Some ''integer arithmetic''"
| "forbidden_compute_op (Ineg _ _) = Some ''integer arithmetic''"
| "forbidden_compute_op (ICmp _ _ _ _) = Some ''integer comparison''"
| "forbidden_compute_op (FArith _ _ _ _) = Some ''float arithmetic''"
| "forbidden_compute_op (Fneg _ _) = Some ''float arithmetic''"
| "forbidden_compute_op (FCmp _ _ _ _) = Some ''float comparison''"
| "forbidden_compute_op (Ftoi _ _ _) = Some ''conversion''"
| "forbidden_compute_op (Itof _ _ _) = Some ''conversion''"
| "forbidden_compute_op (Bitwise _ _ _ _) = Some ''bitwise op''"
| "forbidden_compute_op (BNot _ _) = Some ''bitwise op''"
| "forbidden_compute_op (AtomicLoad _ _) = Some ''atomic op''"
| "forbidden_compute_op (AtomicStore _ _ _) = Some ''atomic op''"
| "forbidden_compute_op (Cas _ _ _ _) = Some ''atomic op''"
| "forbidden_compute_op (AtomicAdd _ _ _) = Some ''atomic op''"
| "forbidden_compute_op (AtomicSub _ _ _) = Some ''atomic op''"
| "forbidden_compute_op (Load _ _ _) = Some ''LOAD''"
| "forbidden_compute_op (Field base _) = forbidden_compute_op base"
| "forbidden_compute_op (Call _ args) = first_some (map forbidden_compute_op args)"
| "forbidden_compute_op (Spawn _ args) = first_some (map forbidden_compute_op args)"
| "forbidden_compute_op (IntLit _) = None"
| "forbidden_compute_op (FloatLit _) = None"
| "forbidden_compute_op (StringLit _) = None"
| "forbidden_compute_op (Var _) = None"
| "forbidden_compute_op (Channel _ _) = None"
| "forbidden_compute_op (ChannelReceive _) = None"
| "forbidden_compute_op (Wait _) = None"

definition composite_violation :: "string \<Rightarrow> nat \<Rightarrow> analyzer \<Rightarrow> analyzer" where
  "composite_violation op line =
     push_error (CompositeComputes op) line (Some (''composite behaviors wire; they don'' @ [CHR 0x27] @ ''t compute''))"

definition composite_expr :: "nat \<Rightarrow> expr \<Rightarrow> analyzer \<Rightarrow> analyzer" where
  "composite_expr line e an = (case forbidden_compute_op e of
     Some op \<Rightarrow> composite_violation op line an
   | None \<Rightarrow> an)"

fun check_composite_purity :: "node list \<Rightarrow> analyzer \<Rightarrow> analyzer" where
  "check_composite_purity [] an = an"
| "check_composite_purity (Node sp k # rest) an =
     check_composite_purity rest (case k of
        Store _ _ _ _ \<Rightarrow> composite_violation ''STORE'' (sp_line sp) an
      | Free _ \<Rightarrow> composite_violation ''FREE'' (sp_line sp) an
      | Scope inner \<Rightarrow> check_composite_purity inner (composite_violation ''SCOPE'' (sp_line sp) an)
      | Assignment _ e \<Rightarrow> composite_expr (sp_line sp) e an
      | Set _ v \<Rightarrow> composite_expr (sp_line sp) v an
      | Branch c _ _ \<Rightarrow> composite_expr (sp_line sp) c an
      | CallNode _ _ args _ \<Rightarrow> fold (composite_expr (sp_line sp)) args an
      | ChannelSend _ v \<Rightarrow> composite_expr (sp_line sp) v an
      | _ \<Rightarrow> an)"

definition check_entry_is_composite :: "node list \<Rightarrow> semantic_error list" where
  "check_entry_is_composite nodes = an_errors (check_composite_purity nodes analyzer_new)"

section \<open>Leaves do not call\<close>

fun check_leaf_no_call :: "node list \<Rightarrow> analyzer \<Rightarrow> analyzer" where
  "check_leaf_no_call [] an = an"
| "check_leaf_no_call (Node sp k # rest) an =
     check_leaf_no_call rest (case k of
        CallNode _ f _ _ \<Rightarrow> push_error (LeafCalls f) (sp_line sp) None an
      | Assignment _ e \<Rightarrow> (case e of Call f _ \<Rightarrow> push_error (LeafCalls f) (sp_line sp) None an | _ \<Rightarrow> an)
      | Scope inner \<Rightarrow> check_leaf_no_call inner an
      | _ \<Rightarrow> an)"

section \<open>Outputs are consumed\<close>

type_synonym place = "string \<times> string option"

fun collect_places_vec :: "expr \<Rightarrow> place list" where
  "collect_places_vec (Var x) = [(x, None)]"
| "collect_places_vec (Field base field) = (case base of
     Var x \<Rightarrow> [(x, Some field)]
   | _ \<Rightarrow> collect_places_vec base)"
| "collect_places_vec (Call _ args) = concat (map collect_places_vec args)"
| "collect_places_vec (Spawn _ args) = concat (map collect_places_vec args)"
| "collect_places_vec _ = []"

definition add_sink_places :: "expr \<Rightarrow> place hset \<Rightarrow> place hset" where
  "add_sink_places e live = fold hs_insert (collect_places_vec e) live"

record obligation =
  ob_place :: place
  ob_display :: string
  ob_behavior :: string
  ob_line :: nat

record wiring =
  wi_live :: "place hset"
  wi_edges :: "(string \<times> place list) list"
  wi_obligations :: "obligation list"

definition wiring_new :: wiring where
  "wiring_new = \<lparr>wi_live = [], wi_edges = [], wi_obligations = []\<rparr>"

definition sink_exprs :: "expr list \<Rightarrow> wiring \<Rightarrow> wiring" where
  "sink_exprs es w = w\<lparr>wi_live := fold add_sink_places es (wi_live w)\<rparr>"

definition oblige :: "place \<Rightarrow> string \<Rightarrow> string \<Rightarrow> nat \<Rightarrow> wiring \<Rightarrow> wiring" where
  "oblige p display behavior line w = w\<lparr>wi_obligations := wi_obligations w
     @ [\<lparr>ob_place = p, ob_display = display, ob_behavior = behavior, ob_line = line\<rparr>]\<rparr>"

definition callee_outputs :: "analysis_context \<Rightarrow> string \<Rightarrow> parameter list" where
  "callee_outputs ctx f = (case hm_get (ac_dependency_contracts ctx) f of
     Some c \<Rightarrow> c_outputs c | None \<Rightarrow> [])"

definition drop_outputs :: "string \<Rightarrow> nat \<Rightarrow> parameter list \<Rightarrow> analyzer \<Rightarrow> analyzer" where
  "drop_outputs f line = fold (\<lambda>out an. push_error (UnconsumedOutput f (p_name out)) line
     (Some ''bare CALL drops this output; bind it and consume it, or DISCARD it'') an)"

definition wire_call ::
  "analysis_context \<Rightarrow> nat \<Rightarrow> string \<Rightarrow> expr list \<Rightarrow> string list \<Rightarrow> analyzer \<times> wiring \<Rightarrow> analyzer \<times> wiring" where
  "wire_call ctx line f args outputs = (\<lambda>(an, w).
     (let w1 = sink_exprs args w in
      if outputs = [] then (drop_outputs f line (callee_outputs ctx f) an, w1)
      else (an, fold (\<lambda>out w. if hm_contains_key (ac_outputs ctx) out then w else oblige (out, None) out f line w)
             outputs w1)))"

definition wire_assignment ::
  "analysis_context \<Rightarrow> nat \<Rightarrow> string \<Rightarrow> expr \<Rightarrow> wiring \<Rightarrow> wiring" where
  "wire_assignment ctx line target e w = (case e of
     Call f args \<Rightarrow> fold (\<lambda>out. oblige (target, Some (p_name out)) (target @ ''.'' @ p_name out) f line)
        (callee_outputs ctx f) (sink_exprs args w)
   | Spawn _ args \<Rightarrow> sink_exprs args w
   | _ \<Rightarrow> w\<lparr>wi_edges := wi_edges w @ [(target, collect_places_vec e)]\<rparr>)"

definition wire_node ::
  "analysis_context \<Rightarrow> node \<Rightarrow> analyzer \<times> wiring \<Rightarrow> analyzer \<times> wiring" where
  "wire_node ctx n st = (case node_kind_of n of
     CallNode _ f args outputs \<Rightarrow> wire_call ctx (node_line n) f args outputs st
   | Assignment target e \<Rightarrow> (fst st, wire_assignment ctx (node_line n) target e (snd st))
   | Branch c _ _ \<Rightarrow> (fst st, sink_exprs [c] (snd st))
   | Set _ v \<Rightarrow> (fst st, sink_exprs [v] (snd st))
   | Discard e \<Rightarrow> (fst st, sink_exprs [e] (snd st))
   | Store _ v _ offset \<Rightarrow> (fst st, sink_exprs (v # (case offset of Some off \<Rightarrow> [off] | None \<Rightarrow> [])) (snd st))
   | ChannelSend _ v \<Rightarrow> (fst st, sink_exprs [v] (snd st))
   | SpawnNode _ _ args \<Rightarrow> (fst st, sink_exprs args (snd st))
   | _ \<Rightarrow> st)"

text \<open>The fixpoint: sweeps over the assignments until a sweep adds no place.\<close>

definition insert_place :: "place \<Rightarrow> place hset \<times> bool \<Rightarrow> place hset \<times> bool" where
  "insert_place p = (\<lambda>(live, changed). if p \<in> set live then (live, changed) else (hs_insert p live, True))"

definition target_live :: "string \<Rightarrow> place hset \<Rightarrow> bool" where
  "target_live target live \<longleftrightarrow> (target, None) \<in> set live \<or> (\<exists>(v, f) \<in> set live. v = target \<and> f \<noteq> None)"

definition live_edge :: "string \<times> place list \<Rightarrow> place hset \<times> bool \<Rightarrow> place hset \<times> bool" where
  "live_edge e st = (if target_live (fst e) (fst st) then fold insert_place (snd e) st else st)"

definition live_sweep :: "(string \<times> place list) list \<Rightarrow> place hset \<Rightarrow> place hset \<times> bool" where
  "live_sweep edges live = fold live_edge edges (live, False)"

lemma insert_place_grows:
  "set (fst st) \<subseteq> set (fst (insert_place p st))" "set (fst (insert_place p st)) = insert p (set (fst st))"
  "snd (insert_place p st) \<longleftrightarrow> snd st \<or> p \<notin> set (fst st)"
  by (cases st; auto simp: insert_place_def)+

lemma insert_places:
  "set (fst (fold insert_place ps st)) = set (fst st) \<union> set ps
   \<and> (snd (fold insert_place ps st) \<longleftrightarrow> snd st \<or> \<not> set ps \<subseteq> set (fst st))"
  by (induction ps arbitrary: st) (auto simp: insert_place_grows)

lemma live_edge_step:
  "set (fst (live_edge e st)) = set (fst st) \<union> (if target_live (fst e) (fst st) then set (snd e) else {})
   \<and> (snd (live_edge e st) \<longleftrightarrow> snd st \<or> set (fst (live_edge e st)) \<noteq> set (fst st))"
  using insert_places [of "snd e" st] by (auto simp: live_edge_def)

lemma live_edges_step:
  "set (fst st) \<subseteq> set (fst (fold live_edge es st))
   \<and> set (fst (fold live_edge es st)) \<subseteq> set (fst st) \<union> (\<Union>e \<in> set es. set (snd e))
   \<and> (snd (fold live_edge es st) \<longleftrightarrow> snd st \<or> set (fst (fold live_edge es st)) \<noteq> set (fst st))"
proof (induction es arbitrary: st)
  case Nil
  then show ?case by simp
next
  case (Cons e es)
  then show ?case using Cons [of "live_edge e st"] live_edge_step [of e st] by (auto split: if_splits)
qed

function propagate :: "(string \<times> place list) list \<Rightarrow> place hset \<Rightarrow> place hset" where
  "propagate edges live =
     (let r = live_sweep edges live in if snd r then propagate edges (fst r) else fst r)"
  by pat_completeness auto
termination
proof (relation "inv_image finite_psubset (\<lambda>(es, live). (\<Union>e \<in> set es. set (snd e)) - set live)", goal_cases)
  case 1
  show ?case by auto
next
  case (2 edges live r)
  then show ?case
    using live_edges_step [of "(live, False)" edges] by (auto simp: live_sweep_def finite_psubset_def)
qed

declare propagate.simps [simp del]

definition consumed_in :: "place hset \<Rightarrow> place \<Rightarrow> bool" where
  "consumed_in live p \<longleftrightarrow> p \<in> set live \<or> snd p \<noteq> None \<and> (fst p, None) \<in> set live"

definition check_obligation :: "place hset \<Rightarrow> obligation \<Rightarrow> analyzer \<Rightarrow> analyzer" where
  "check_obligation live ob an = (if consumed_in live (ob_place ob) then an
     else push_error (UnconsumedOutput (ob_behavior ob) (ob_display ob)) (ob_line ob) None an)"

definition check_outputs_consumed :: "node list \<Rightarrow> analysis_context \<Rightarrow> analyzer \<Rightarrow> analyzer" where
  "check_outputs_consumed nodes ctx an =
     (let (an1, w) = fold (wire_node ctx) nodes (an, wiring_new);
          live = propagate (wi_edges w) (wi_live w)
      in fold (check_obligation live) (wi_obligations w) an1)"

section \<open>What the rules mean\<close>

text \<open>An expression routes when nothing in it computes or touches memory.\<close>

definition routing :: "expr \<Rightarrow> bool" where
  "routing e \<longleftrightarrow> (case e of
     IntLit _ \<Rightarrow> True | FloatLit _ \<Rightarrow> True | StringLit _ \<Rightarrow> True | Var _ \<Rightarrow> True | Field _ _ \<Rightarrow> True
   | Call _ _ \<Rightarrow> True | Spawn _ _ \<Rightarrow> True | Wait _ \<Rightarrow> True | Channel _ _ \<Rightarrow> True | ChannelReceive _ \<Rightarrow> True
   | _ \<Rightarrow> False)"

definition routes :: "expr \<Rightarrow> bool" where
  "routes e \<longleftrightarrow> (\<forall>s \<in> subexprs e. routing s)"

definition wires_only :: "node_kind \<Rightarrow> bool" where
  "wires_only k \<longleftrightarrow> (case k of
     Store _ _ _ _ \<Rightarrow> False | Free _ \<Rightarrow> False | Scope _ \<Rightarrow> False
   | Discard _ \<Rightarrow> True
   | _ \<Rightarrow> (\<forall>e \<in> set (node_exprs k). routes e))"

lemma first_some_None: "first_some xs = None \<longleftrightarrow> (\<forall>x \<in> set xs. x = None)"
  by (induction xs rule: first_some.induct) auto

lemma forbidden_None: "forbidden_compute_op e = None \<longleftrightarrow> routes e"
proof (induction e rule: forbidden_compute_op.induct)
  case (19 f args)
  then show ?case by (auto simp: routes_def routing_def first_some_None)
next
  case (20 f args)
  then show ?case by (auto simp: routes_def routing_def first_some_None)
qed (simp_all add: routes_def routing_def)

lemma reports_composite_expr: "reports (routes e) an (composite_expr l e an)"
  by (auto simp: composite_expr_def composite_violation_def reports_def forbidden_None [symmetric] split: option.splits)

lemma reports_composite_exprs: "reports (\<forall>e \<in> set es. routes e) an (fold (composite_expr l) es an)"
  by (rule reports_fold) (rule reports_composite_expr)

lemma reports_violation: "reports False an (composite_violation p l an)"
  by (simp add: composite_violation_def reports_push)

lemma reports_composite:
  "reports (\<forall>n \<in> set nodes. wires_only (node_kind_of n)) an (check_composite_purity nodes an)"
proof (induction nodes an rule: check_composite_purity.induct)
  case (1 an)
  then show ?case by (simp add: reports_refl)
next
  case (2 sp k rest an)
  let ?an = "case k of
        Store _ _ _ _ \<Rightarrow> composite_violation ''STORE'' (sp_line sp) an
      | Free _ \<Rightarrow> composite_violation ''FREE'' (sp_line sp) an
      | Scope inner \<Rightarrow> check_composite_purity inner (composite_violation ''SCOPE'' (sp_line sp) an)
      | Assignment _ e \<Rightarrow> composite_expr (sp_line sp) e an
      | Set _ v \<Rightarrow> composite_expr (sp_line sp) v an
      | Branch c _ _ \<Rightarrow> composite_expr (sp_line sp) c an
      | CallNode _ _ args _ \<Rightarrow> fold (composite_expr (sp_line sp)) args an
      | ChannelSend _ v \<Rightarrow> composite_expr (sp_line sp) v an
      | _ \<Rightarrow> an"
  have "reports (wires_only k) an ?an"
  proof (cases k)
    case (Scope inner)
    then show ?thesis
      using reports_trans [OF reports_violation 2(1) [OF Scope]] by (simp add: wires_only_def)
  next
    case (CallNode t f args os)
    then show ?thesis using reports_composite_exprs by (simp add: wires_only_def)
  qed (use reports_composite_expr reports_violation reports_refl in \<open>simp_all add: wires_only_def\<close>)
  from reports_trans [OF this 2(2)] show ?case by simp
qed

definition calls :: "node_kind \<Rightarrow> bool" where
  "calls k \<longleftrightarrow> (\<exists>t f args outs. k = CallNode t f args outs) \<or> (\<exists>x f args. k = Assignment x (Call f args))"

lemma reports_leaf_calls: "reports (\<forall>k \<in> set (leaves nodes). \<not> calls k) an (check_leaf_no_call nodes an)"
proof (induction nodes an rule: check_leaf_no_call.induct)
  case (1 an)
  then show ?case by (simp add: reports_refl)
next
  case (2 sp k rest an)
  let ?an = "case k of
        CallNode _ f _ _ \<Rightarrow> push_error (LeafCalls f) (sp_line sp) None an
      | Assignment _ e \<Rightarrow> (case e of Call f _ \<Rightarrow> push_error (LeafCalls f) (sp_line sp) None an | _ \<Rightarrow> an)
      | Scope inner \<Rightarrow> check_leaf_no_call inner an
      | _ \<Rightarrow> an"
  have "reports (\<forall>k \<in> set (case k of Scope inner \<Rightarrow> leaves inner | _ \<Rightarrow> [k]). \<not> calls k) an ?an"
  proof (cases k)
    case (Scope inner)
    then show ?thesis using 2(1) [OF Scope] by simp
  next
    case (Assignment x e)
    then show ?thesis by (cases e) (simp_all add: calls_def reports_refl reports_push)
  qed (simp_all add: calls_def reports_refl reports_push)
  from reports_trans [OF this 2(2)] show ?case by (simp add: ball_Un)
qed

subsection \<open>Consumption\<close>

text \<open>
  The places consumed in a composition, as the least set closed under the rules of
  Section 7.8: a place used in a sink is consumed, and a place a plain assignment reads is
  consumed if the variable assigned, or one of its fields, is.
\<close>

inductive consumed :: "(string \<times> place list) set \<Rightarrow> place set \<Rightarrow> place \<Rightarrow> bool"
  for edges sinks where
  sink: "p \<in> sinks \<Longrightarrow> consumed edges sinks p"
| chain: "(target, ps) \<in> edges \<Longrightarrow> consumed edges sinks (target, f) \<Longrightarrow> p \<in> set ps \<Longrightarrow> consumed edges sinks p"

lemma target_live_iff: "target_live t live \<longleftrightarrow> (\<exists>f. (t, f) \<in> set live)"
proof
  assume "\<exists>f. (t, f) \<in> set live"
  then obtain f where "(t, f) \<in> set live" ..
  then show "target_live t live" by (cases f) (auto simp: target_live_def)
qed (auto simp: target_live_def)

lemma live_edges_sound:
  "set es \<subseteq> edges \<Longrightarrow> set (fst st) \<subseteq> Collect (consumed edges sinks)
     \<Longrightarrow> set (fst (fold live_edge es st)) \<subseteq> Collect (consumed edges sinks)"
proof (induction es arbitrary: st)
  case Nil
  then show ?case by simp
next
  case (Cons e es)
  have "set (fst (live_edge e st)) \<subseteq> Collect (consumed edges sinks)"
  proof (cases "target_live (fst e) (fst st)")
    case True
    then obtain f where "consumed edges sinks (fst e, f)"
      using Cons.prems(2) by (auto simp: target_live_iff)
    moreover have "(fst e, snd e) \<in> edges" using Cons.prems(1) by simp
    ultimately have "set (snd e) \<subseteq> Collect (consumed edges sinks)" using consumed.chain by blast
    then show ?thesis using Cons.prems(2) True live_edge_step [of e st] by auto
  next
    case False
    then show ?thesis using Cons.prems(2) live_edge_step [of e st] by auto
  qed
  then show ?case using Cons by simp
qed

lemma sweep_closed:
  assumes "\<not> snd (live_sweep edges live)" and "(t, ps) \<in> set edges" and "(t, f) \<in> set live"
  shows "set ps \<subseteq> set live"
proof -
  have "set ps \<subseteq> set (fst st)"
    if "snd (fold live_edge es st) = False" and "(t, ps) \<in> set es" and "(t, f) \<in> set (fst st)" for es st
    using that
  proof (induction es arbitrary: st)
    case Nil
    then show ?case by simp
  next
    case (Cons e es)
    have nochange: "\<not> snd (live_edge e st)"
      using Cons.prems(1) live_edges_step [of "live_edge e st" es] by simp
    then have same: "set (fst (live_edge e st)) = set (fst st)"
      using live_edge_step [of e st] by simp
    show ?case
    proof (cases "e = (t, ps)")
      case True
      then have "target_live (fst e) (fst st)" using Cons.prems(3) by (auto simp: target_live_iff)
      then show ?thesis using True same live_edge_step [of e st] by auto
    next
      case False
      then show ?thesis using Cons.IH [of "live_edge e st"] Cons.prems same by simp
    qed
  qed
  from this [of edges "(live, False)"] assms show ?thesis by (simp add: live_sweep_def)
qed

lemma propagate_consumed: "set (propagate edges live) = {p. consumed (set edges) (set live) p}"
proof (rule set_eqI)
  have upper: "set (propagate edges l) \<subseteq> Collect (consumed (set edges) sinks)"
    if "set l \<subseteq> Collect (consumed (set edges) sinks)" for l sinks
    using that
  proof (induction edges l rule: propagate.induct)
    case (1 edges l)
    then show ?case
      using live_edges_sound [of edges "set edges" "(l, False)" sinks]
      by (subst propagate.simps) (simp add: Let_def live_sweep_def)
  qed
  have lower: "set l \<subseteq> set (propagate edges l) \<and> (\<forall>t ps f. (t, ps) \<in> set edges \<longrightarrow> (t, f) \<in> set (propagate edges l) \<longrightarrow>
      set ps \<subseteq> set (propagate edges l))" for l
  proof (induction edges l rule: propagate.induct)
    case (1 edges l)
    let ?r = "live_sweep edges l"
    have mono: "set l \<subseteq> set (fst ?r)" using live_edges_step [of "(l, False)" edges] by (simp add: live_sweep_def)
    show ?case
    proof (cases "snd ?r")
      case True
      then have "propagate edges l = propagate edges (fst ?r)" by (subst propagate.simps) (simp add: Let_def)
      then show ?thesis using 1 [OF refl True] mono by auto
    next
      case False
      then have p: "propagate edges l = fst ?r" by (subst propagate.simps) (simp add: Let_def)
      have "set (fst ?r) = set l" using False live_edges_step [of "(l, False)" edges] by (simp add: live_sweep_def)
      then show ?thesis unfolding p using sweep_closed [OF False] by auto
    qed
  qed
  fix p
  show "p \<in> set (propagate edges live) \<longleftrightarrow> p \<in> {p. consumed (set edges) (set live) p}"
  proof
    assume "p \<in> set (propagate edges live)"
    then show "p \<in> {p. consumed (set edges) (set live) p}"
      using upper [of live "set live"] consumed.sink by (auto intro: consumed.sink)
  next
    assume "p \<in> {p. consumed (set edges) (set live) p}"
    then have "consumed (set edges) (set live) p" by simp
    then show "p \<in> set (propagate edges live)"
    proof induction
      case (sink p)
      then show ?case using lower [of live] by auto
    next
      case (chain t ps f p)
      then show ?case using lower [of live] by blast
    qed
  qed
qed

subsection \<open>Statement by statement\<close>

text \<open>What one statement of a composition contributes: sinks, assignment edges, outputs to be
  consumed, and outputs a bare call drops.\<close>

definition node_sinks :: "node \<Rightarrow> expr list" where
  "node_sinks n = (case node_kind_of n of
     CallNode _ _ args _ \<Rightarrow> args
   | Assignment _ e \<Rightarrow> (case e of Call _ args \<Rightarrow> args | Spawn _ args \<Rightarrow> args | _ \<Rightarrow> [])
   | SpawnNode _ _ args \<Rightarrow> args
   | k \<Rightarrow> node_exprs k)"

definition node_edges :: "node \<Rightarrow> (string \<times> place list) list" where
  "node_edges n = (case node_kind_of n of
     Assignment target e \<Rightarrow> (case e of Call _ _ \<Rightarrow> [] | Spawn _ _ \<Rightarrow> []
       | _ \<Rightarrow> [(target, collect_places_vec e)])
   | _ \<Rightarrow> [])"

definition node_obligations :: "analysis_context \<Rightarrow> node \<Rightarrow> place list" where
  "node_obligations ctx n = (case node_kind_of n of
     CallNode _ _ _ outputs \<Rightarrow> map (\<lambda>out. (out, None)) (filter (\<lambda>out. \<not> hm_contains_key (ac_outputs ctx) out) outputs)
   | Assignment target e \<Rightarrow> (case e of
         Call f _ \<Rightarrow> map (\<lambda>out. (target, Some (p_name out))) (callee_outputs ctx f) | _ \<Rightarrow> [])
   | _ \<Rightarrow> [])"

definition drops_output :: "analysis_context \<Rightarrow> node \<Rightarrow> bool" where
  "drops_output ctx n \<longleftrightarrow> (\<exists>t f args. node_kind_of n = CallNode t f args [] \<and> callee_outputs ctx f \<noteq> [])"

definition body_sinks :: "node list \<Rightarrow> place set" where
  "body_sinks nodes = (\<Union>n \<in> set nodes. \<Union>e \<in> set (node_sinks n). set (collect_places_vec e))"

definition body_edges :: "node list \<Rightarrow> (string \<times> place list) set" where
  "body_edges nodes = (\<Union>n \<in> set nodes. set (node_edges n))"

lemma set_add_sinks: "set (add_sink_places e live) = set live \<union> set (collect_places_vec e)"
  using hs.elems_fold_insert [of "collect_places_vec e" live] by (auto simp: add_sink_places_def)

lemma set_sink_exprs:
  "set (wi_live (sink_exprs es w)) = set (wi_live w) \<union> (\<Union>e \<in> set es. set (collect_places_vec e))"
  "wi_edges (sink_exprs es w) = wi_edges w" "wi_obligations (sink_exprs es w) = wi_obligations w"
proof -
  have "set (fold add_sink_places es live) = set live \<union> (\<Union>e \<in> set es. set (collect_places_vec e))" for live
    by (induction es arbitrary: live) (auto simp: set_add_sinks)
  then show "set (wi_live (sink_exprs es w)) = set (wi_live w) \<union> (\<Union>e \<in> set es. set (collect_places_vec e))"
    by (simp add: sink_exprs_def)
qed (simp_all add: sink_exprs_def)

lemma oblige_fields [simp]:
  "wi_live (oblige p d f l w) = wi_live w" "wi_edges (oblige p d f l w) = wi_edges w"
  "map ob_place (wi_obligations (oblige p d f l w)) = map ob_place (wi_obligations w) @ [p]"
  by (simp_all add: oblige_def)

lemma oblige_calls:
  "let w' = fold (\<lambda>out w. if hm_contains_key (ac_outputs ctx) out then w else oblige (out, None) out f l w) outs w in
   wi_live w' = wi_live w \<and> wi_edges w' = wi_edges w \<and> map ob_place (wi_obligations w') = map ob_place (wi_obligations w)
     @ map (\<lambda>out. (out, None)) (filter (\<lambda>out. \<not> hm_contains_key (ac_outputs ctx) out) outs)"
  by (induction outs arbitrary: w) (simp_all add: Let_def)

lemma oblige_fields_of:
  "let w' = fold (\<lambda>out. oblige (t, Some (p_name out)) (d out) f l) outs w in
   wi_live w' = wi_live w \<and> wi_edges w' = wi_edges w \<and> map ob_place (wi_obligations w') = map ob_place (wi_obligations w)
     @ map (\<lambda>out. (t, Some (p_name out))) outs"
  by (induction outs arbitrary: w) (simp_all add: Let_def)

lemma reports_drop: "reports (outs = []) an (drop_outputs f l outs an)"
proof -
  have "reports (\<forall>x \<in> set outs. False) an (drop_outputs f l outs an)"
    unfolding drop_outputs_def by (rule reports_fold) (rule reports_push)
  then show ?thesis by (rule reports_cong) (auto simp: neq_Nil_conv)
qed

definition wires :: "analysis_context \<Rightarrow> node list \<Rightarrow> analyzer \<times> wiring \<Rightarrow> analyzer \<times> wiring \<Rightarrow> bool" where
  "wires ctx nodes st st' \<longleftrightarrow>
     reports (\<forall>n \<in> set nodes. \<not> drops_output ctx n) (fst st) (fst st')
   \<and> set (wi_live (snd st')) = set (wi_live (snd st)) \<union> body_sinks nodes
   \<and> set (wi_edges (snd st')) = set (wi_edges (snd st)) \<union> body_edges nodes
   \<and> map ob_place (wi_obligations (snd st')) = map ob_place (wi_obligations (snd st)) @ concat (map (node_obligations ctx) nodes)"

lemma wires_assignment:
  assumes k: "node_kind_of n = Assignment x e"
  shows "wires ctx [n] st (fst st, wire_assignment ctx l x e (snd st))"
proof (cases e)
  case (Call f args)
  show ?thesis
    using oblige_fields_of [of x "\<lambda>out. x @ ''.'' @ p_name out" f l "callee_outputs ctx f" "sink_exprs args (snd st)"]
    by (simp add: wires_def wire_assignment_def reports_refl drops_output_def node_sinks_def node_edges_def
        node_obligations_def body_sinks_def body_edges_def set_sink_exprs k Call Let_def)
qed (simp_all add: wires_def wire_assignment_def reports_refl drops_output_def node_sinks_def node_edges_def
      node_obligations_def body_sinks_def body_edges_def set_sink_exprs k)

lemma wires_call:
  assumes k: "node_kind_of n = CallNode t f args outs"
  shows "wires ctx [n] st (wire_call ctx l f args outs st)"
proof (cases "outs = []")
  case True
  have "reports (\<not> drops_output ctx n) (fst st) (drop_outputs f l (callee_outputs ctx f) (fst st))"
    by (rule reports_cong [OF reports_drop]) (simp add: drops_output_def k True)
  then show ?thesis
    by (cases st) (simp add: wires_def wire_call_def Let_def True set_sink_exprs body_sinks_def
        body_edges_def node_sinks_def node_edges_def node_obligations_def k)
next
  case False
  then show ?thesis
    using oblige_calls [of ctx f l outs "sink_exprs args (snd st)"]
    by (cases st) (simp add: wires_def wire_call_def Let_def reports_refl drops_output_def set_sink_exprs body_sinks_def
        body_edges_def node_sinks_def node_edges_def node_obligations_def k)
qed

lemma wires_node: "wires ctx [n] st (wire_node ctx n st)"
proof (cases "node_kind_of n")
  case (Assignment x e)
  then show ?thesis using wires_assignment [OF Assignment] by (simp add: wire_node_def)
next
  case (CallNode t f args outs)
  then show ?thesis using wires_call [OF CallNode] by (simp add: wire_node_def)
qed (auto simp: wires_def wire_node_def reports_refl drops_output_def set_sink_exprs body_sinks_def
    body_edges_def node_sinks_def node_edges_def node_obligations_def split: option.splits)

lemma wires_nodes: "wires ctx nodes st (fold (wire_node ctx) nodes st)"
proof (induction nodes arbitrary: st)
  case Nil
  then show ?case by (simp add: wires_def reports_refl body_sinks_def body_edges_def)
next
  case (Cons n nodes)
  have 1: "wires ctx [n] st (wire_node ctx n st)" by (rule wires_node)
  have 2: "wires ctx nodes (wire_node ctx n st) (fold (wire_node ctx) (n # nodes) st)"
    using Cons [of "wire_node ctx n st"] by simp
  have "reports (\<forall>m \<in> set (n # nodes). \<not> drops_output ctx m) (fst st) (fst (fold (wire_node ctx) (n # nodes) st))"
    using reports_trans 1 2 unfolding wires_def by fastforce
  then show ?case
    using 1 2 by (auto simp: wires_def body_sinks_def body_edges_def)
qed

lemma reports_obligations:
  "reports (\<forall>p \<in> set (map ob_place obs). consumed_in live p) an (fold (check_obligation live) obs an)"
proof -
  have "reports (\<forall>ob \<in> set obs. consumed_in live (ob_place ob)) an (fold (check_obligation live) obs an)"
    by (rule reports_fold) (auto simp: check_obligation_def reports_def)
  then show ?thesis by simp
qed

definition wiring_ok :: "analysis_context \<Rightarrow> node list \<Rightarrow> bool" where
  "wiring_ok ctx nodes \<longleftrightarrow> {n \<in> set nodes. drops_output ctx n} = {}
   \<and> {p. \<exists>n \<in> set nodes. p \<in> set (node_obligations ctx n)}
       \<subseteq> {(x, f). consumed (body_edges nodes) (body_sinks nodes) (x, f)
                 \<or> f \<noteq> None \<and> consumed (body_edges nodes) (body_sinks nodes) (x, None)}"

lemma reports_consumed: "reports (wiring_ok ctx nodes) an (check_outputs_consumed nodes ctx an)"
proof -
  obtain an1 w where f: "fold (wire_node ctx) nodes (an, wiring_new) = (an1, w)" by fastforce
  have w: "reports (\<forall>n \<in> set nodes. \<not> drops_output ctx n) an an1"
    and live: "set (wi_live w) = body_sinks nodes" and edges: "set (wi_edges w) = body_edges nodes"
    and obs: "map ob_place (wi_obligations w) = concat (map (node_obligations ctx) nodes)"
    using wires_nodes [of ctx nodes "(an, wiring_new)"] unfolding wires_def f
    by (simp_all add: wiring_new_def)
  let ?live = "propagate (wi_edges w) (wi_live w)"
  have "consumed_in ?live p \<longleftrightarrow> consumed (body_edges nodes) (body_sinks nodes) p
      \<or> snd p \<noteq> None \<and> consumed (body_edges nodes) (body_sinks nodes) (fst p, None)" for p
    by (simp add: consumed_in_def propagate_consumed live edges)
  moreover have "reports ((\<forall>n \<in> set nodes. \<not> drops_output ctx n) \<and>
      (\<forall>p \<in> set (map ob_place (wi_obligations w)). consumed_in ?live p)) an (check_outputs_consumed nodes ctx an)"
    using reports_trans [OF w reports_obligations] by (simp add: check_outputs_consumed_def f Let_def)
  ultimately have "reports ((\<forall>n \<in> set nodes. \<not> drops_output ctx n) \<and>
      (\<forall>n \<in> set nodes. \<forall>p \<in> set (node_obligations ctx n). consumed (body_edges nodes) (body_sinks nodes) p
      \<or> snd p \<noteq> None \<and> consumed (body_edges nodes) (body_sinks nodes) (fst p, None))) an (check_outputs_consumed nodes ctx an)"
    unfolding obs by simp
  then show ?thesis by (rule reports_cong) (fastforce simp: wiring_ok_def)
qed

section \<open>Properties\<close>

text \<open>
  C29: a composition is accepted by the consumption check exactly when no bare call drops an
  output of its callee and every output a call binds is consumed: the place itself, or the
  whole result it is a field of, is in the least set that contains the places used in sinks
  and is closed backwards under plain assignments.
\<close>

theorem outputs_consumed_exact:
  "an_errors (check_outputs_consumed nodes ctx an) = an_errors an \<longleftrightarrow>
     {n \<in> set nodes. drops_output ctx n} = {}
   \<and> {p. \<exists>n \<in> set nodes. p \<in> set (node_obligations ctx n)}
       \<subseteq> {(x, f). consumed (body_edges nodes) (body_sinks nodes) (x, f)
                 \<or> f \<noteq> None \<and> consumed (body_edges nodes) (body_sinks nodes) (x, None)}"
  using reports_iff [OF reports_consumed [of ctx nodes an]] by (simp only: wiring_ok_def)

text \<open>
  The composite check adds no error exactly when no statement stores, frees or opens a
  scope, and every expression in an assignment, \<^verbatim>\<open>SET\<close>, \<^verbatim>\<open>BRANCH\<close>, \<^verbatim>\<open>CALL\<close> or
  \<^verbatim>\<open>CHANNEL_SEND\<close> routes, that is, none of its subexpressions computes or touches memory.
\<close>

theorem composite_purity_exact:
  "an_errors (check_composite_purity nodes an) = an_errors an \<longleftrightarrow> list_all (\<lambda>n. wires_only (node_kind_of n)) nodes"
  using reports_iff [OF reports_composite [of nodes an]] by (simp add: list_all_iff)

text \<open>
  The leaf check adds no error exactly when no statement of the body, in whatever scope,
  is a call or assigns the result of one.
\<close>

theorem leaf_no_call_exact:
  "an_errors (check_leaf_no_call nodes an) = an_errors an \<longleftrightarrow> {k \<in> set (leaves nodes). calls k} = {}"
  using reports_iff [OF reports_leaf_calls [of nodes an]] by auto

end
