(* ===== verification/Sigil_Cfg.thy ===== *)
theory Sigil_Cfg
  imports Sigil_Ast
begin

text \<open>
  Control flow graphs, after \<^verbatim>\<open>compiler/src/cfg.rs\<close>: flattening of \<^verbatim>\<open>SCOPE\<close>
  blocks, the two-pass builder, the enumeration of loop-free paths and the structural
  termination check. The builder is a state (\<open>cfg_builder\<close>) threaded through the passes as
  the Rust methods thread \<^verbatim>\<open>&mut self\<close>; an index out of range, which panics in Rust,
  is \<open>None\<close>.
\<close>

section \<open>Blocks and graphs\<close>

datatype terminator =
    Fallthrough
  | TermJump string
  | TermBranch string string
  | Return

record basic_block =
  bb_id :: nat
  bb_statements :: "nat list"
  bb_label :: "string option"
  bb_successors :: "nat list"
  bb_predecessors :: "nat list"
  bb_terminator :: terminator

record cfg =
  cfg_blocks :: "basic_block list"
  cfg_entry :: nat
  cfg_exits :: "nat list"
  cfg_label_to_block :: "(string, nat) hmap"

section \<open>Flattening scopes\<close>

fun is_alloc :: "expr \<Rightarrow> bool" where
  "is_alloc (Alloc _ _ _) = True"
| "is_alloc _ = False"

definition alloc_target :: "node \<Rightarrow> string option" where
  "alloc_target n = (case node_kind_of n of
     Assignment target e \<Rightarrow> if is_alloc e then Some target else None
   | _ \<Rightarrow> None)"

definition free_target :: "node \<Rightarrow> string option" where
  "free_target n = (case node_kind_of n of Free name \<Rightarrow> Some name | _ \<Rightarrow> None)"

definition scoped_allocs :: "node list \<Rightarrow> string list" where
  "scoped_allocs inner =
     filter (\<lambda>a. a \<notin> set (List.map_filter free_target inner)) (List.map_filter alloc_target inner)"

fun flatten_scopes :: "node list \<Rightarrow> node list" where
  "flatten_scopes [] = []"
| "flatten_scopes (Node sp k # rest) =
     (case k of
        Scope inner \<Rightarrow>
          flatten_scopes inner @ map (\<lambda>t. Node sp (Free t)) (rev (scoped_allocs inner))
      | _ \<Rightarrow> [Node sp k]) @ flatten_scopes rest"

section \<open>Building the graph\<close>

record cfg_builder =
  cb_blocks :: "basic_block list"
  cb_labels :: "(string, nat) hmap"
  cb_current :: basic_block
  cb_next_id :: nat

definition empty_block :: basic_block where
  "empty_block = \<lparr>bb_id = 0, bb_statements = [], bb_label = None, bb_successors = [],
     bb_predecessors = [], bb_terminator = Fallthrough\<rparr>"

definition cfg_builder_new :: cfg_builder where
  "cfg_builder_new = \<lparr>cb_blocks = [], cb_labels = [], cb_current = empty_block, cb_next_id = 0\<rparr>"

definition push_stmt :: "nat \<Rightarrow> cfg_builder \<Rightarrow> cfg_builder" where
  "push_stmt idx b = b\<lparr>cb_current := (cb_current b)
     \<lparr>bb_statements := bb_statements (cb_current b) @ [idx]\<rparr>\<rparr>"

definition finish_block :: "terminator \<Rightarrow> cfg_builder \<Rightarrow> cfg_builder" where
  "finish_block t b =
     (let cur = (cb_current b)\<lparr>bb_id := cb_next_id b, bb_terminator := t\<rparr>;
          labels = (case bb_label cur of
              Some l \<Rightarrow> hm_insert l (cb_next_id b) (cb_labels b)
            | None \<Rightarrow> cb_labels b)
      in \<lparr>cb_blocks = cb_blocks b @ [cur], cb_labels = labels, cb_current = empty_block,
          cb_next_id = cb_next_id b + 1\<rparr>)"

definition start_label :: "string \<Rightarrow> cfg_builder \<Rightarrow> cfg_builder" where
  "start_label name b =
     (let b1 = (if bb_statements (cb_current b) \<noteq> [] then finish_block Fallthrough b else b)
      in b1\<lparr>cb_current := (cb_current b1)\<lparr>bb_label := Some name\<rparr>,
            cb_labels := hm_insert name (cb_next_id b1) (cb_labels b1)\<rparr>)"

definition first_pass_node :: "nat \<Rightarrow> node \<Rightarrow> cfg_builder \<Rightarrow> cfg_builder" where
  "first_pass_node idx n b = (case node_kind_of n of
     Label name \<Rightarrow> push_stmt idx (start_label name b)
   | Jump target \<Rightarrow> finish_block (TermJump target) (push_stmt idx b)
   | Branch _ tlab flab \<Rightarrow> finish_block (TermBranch tlab flab) (push_stmt idx b)
   | _ \<Rightarrow> push_stmt idx b)"

fun first_pass_from :: "nat \<Rightarrow> node list \<Rightarrow> cfg_builder \<Rightarrow> cfg_builder" where
  "first_pass_from idx [] b = b"
| "first_pass_from idx (n # ns) b = first_pass_from (Suc idx) ns (first_pass_node idx n b)"

definition first_pass :: "node list \<Rightarrow> cfg_builder \<Rightarrow> cfg_builder" where
  "first_pass nodes b =
     (let b1 = first_pass_from 0 nodes b
      in if bb_statements (cb_current b1) \<noteq> [] \<or> cb_blocks b1 = []
         then finish_block Return b1 else b1)"

definition push_succ :: "nat \<Rightarrow> nat \<Rightarrow> basic_block list \<Rightarrow> basic_block list" where
  "push_succ i s bs = bs[i := (bs ! i)\<lparr>bb_successors := bb_successors (bs ! i) @ [s]\<rparr>]"

definition push_pred :: "nat \<Rightarrow> nat \<Rightarrow> basic_block list \<Rightarrow> basic_block list" where
  "push_pred i p bs =
     (if i < length bs
      then bs[i := (bs ! i)\<lparr>bb_predecessors := bb_predecessors (bs ! i) @ [p]\<rparr>] else bs)"

definition connect_label ::
  "(string, nat) hmap \<Rightarrow> nat \<Rightarrow> nat \<Rightarrow> string \<Rightarrow> basic_block list \<Rightarrow> basic_block list" where
  "connect_label labels i block_id target bs = (case hm_get labels target of
     Some target_id \<Rightarrow> push_pred target_id block_id (push_succ i target_id bs)
   | None \<Rightarrow> bs)"

definition second_pass_block ::
  "(string, nat) hmap \<Rightarrow> nat \<Rightarrow> basic_block list \<Rightarrow> basic_block list" where
  "second_pass_block labels i bs =
     (let block_id = bb_id (bs ! i) in
      case bb_terminator (bs ! i) of
        Fallthrough \<Rightarrow>
          (if i + 1 < length bs
           then push_pred (i + 1) block_id (push_succ i (bb_id (bs ! (i + 1))) bs) else bs)
      | TermJump target \<Rightarrow> connect_label labels i block_id target bs
      | TermBranch tlab flab \<Rightarrow>
          connect_label labels i block_id flab (connect_label labels i block_id tlab bs)
      | Return \<Rightarrow> bs)"

definition second_pass :: "(string, nat) hmap \<Rightarrow> basic_block list \<Rightarrow> basic_block list" where
  "second_pass labels bs = fold (second_pass_block labels) [0..<length bs] bs"

definition is_exit_block :: "basic_block \<Rightarrow> bool" where
  "is_exit_block b \<longleftrightarrow> bb_successors b = [] \<or> bb_terminator b = Return"

definition cfg_build :: "node list \<Rightarrow> cfg" where
  "cfg_build nodes =
     (let b = first_pass nodes cfg_builder_new;
          blocks = second_pass (cb_labels b) (cb_blocks b)
      in \<lparr>cfg_blocks = blocks, cfg_entry = 0,
          cfg_exits = map bb_id (filter is_exit_block blocks),
          cfg_label_to_block = cb_labels b\<rparr>)"

section \<open>Enumerating paths\<close>

definition fanout :: "basic_block list \<Rightarrow> nat" where
  "fanout bs = sum_list (map (\<lambda>b. length (bb_successors b)) bs)"

lemma length_succs_fanout: "i < length bs \<Longrightarrow> length (bb_successors (bs ! i)) \<le> fanout bs"
  unfolding fanout_def by (rule member_le_sum_list) auto

definition path_weight :: "basic_block list \<Rightarrow> nat \<times> nat list \<times> nat list \<Rightarrow> nat" where
  "path_weight bs = (\<lambda>(c, p, vis). Suc (fanout bs) ^ card ({..<length bs} - set vis))"

lemma path_weight_pos: "0 < path_weight bs x"
  by (cases x) (simp add: path_weight_def)

lemma path_weight_children:
  assumes "cur < length bs" and "cur \<notin> set vis"
  shows "sum_list (map (path_weight bs)
           (rev (map (\<lambda>s. (s, path @ [s], hs_insert cur vis)) (bb_successors (bs ! cur)))))
         < path_weight bs (cur, path, vis)"
proof -
  let ?F = "fanout bs" and ?k = "card ({..<length bs} - set (hs_insert cur vis))"
  have "{..<length bs} - set vis = insert cur ({..<length bs} - set (hs_insert cur vis))"
    using assms by auto
  then have "card ({..<length bs} - set vis)
      = card (insert cur ({..<length bs} - set (hs_insert cur vis)))"
    by (rule arg_cong)
  also have "\<dots> = Suc ?k"
    by (subst card_insert_disjoint) auto
  finally have k: "card ({..<length bs} - set vis) = Suc ?k" .
  have eq: "sum_list (map (path_weight bs) (rev (map (\<lambda>s. (s, path @ [s], hs_insert cur vis)) xs)))
        = length xs * Suc ?F ^ ?k" for xs :: "nat list"
    by (induction xs) (auto simp: path_weight_def)
  have "length (bb_successors (bs ! cur)) * Suc ?F ^ ?k < Suc ?F * Suc ?F ^ ?k"
    using length_succs_fanout [OF assms(1)] by (intro mult_strict_right_mono) (auto simp: le_imp_less_Suc)
  then show ?thesis
    unfolding eq by (simp add: path_weight_def k)
qed

function all_paths_loop ::
  "basic_block list \<Rightarrow> (nat \<times> nat list \<times> nat list) list \<Rightarrow> nat list list \<Rightarrow> nat list list option" where
  "all_paths_loop bs [] paths = Some paths"
| "all_paths_loop bs ((cur, path, visited) # stack) paths =
     (if cur \<in> set visited then all_paths_loop bs stack paths
      else if length bs \<le> cur then None
      else if is_exit_block (bs ! cur) then all_paths_loop bs stack (paths @ [path])
      else all_paths_loop bs
             (rev (map (\<lambda>s. (s, path @ [s], hs_insert cur visited)) (bb_successors (bs ! cur))) @ stack)
             paths)"
  by pat_completeness auto
termination
proof (relation "measure (\<lambda>(bs, stack, paths). sum_list (map (path_weight bs) stack))", goal_cases)
  case 1
  show ?case by simp
next
  case (2 bs cur path visited stack paths)
  then show ?case using path_weight_pos by simp
next
  case (3 bs cur path visited stack paths)
  then show ?case using path_weight_pos by simp
next
  case (4 bs cur path visited stack paths)
  then show ?case using path_weight_children [of cur bs visited path] by simp
qed

definition all_paths :: "cfg \<Rightarrow> nat list list option" where
  "all_paths g = all_paths_loop (cfg_blocks g) [(cfg_entry g, [cfg_entry g], [])] []"

section \<open>Structural termination\<close>

text \<open>Forward reachability. A block id out of range has no successors (\<^verbatim>\<open>blocks.get(b)\<close>).\<close>

definition block_succs :: "basic_block list \<Rightarrow> nat \<Rightarrow> nat list" where
  "block_succs bs i = (if i < length bs then bb_successors (bs ! i) else [])"

definition all_ids :: "basic_block list \<Rightarrow> nat list \<Rightarrow> nat set" where
  "all_ids bs stack = set stack \<union> (\<Union>b \<in> set bs. set (bb_successors b))"

lemma finite_all_ids [simp]: "finite (all_ids bs stack)"
  by (simp add: all_ids_def)

lemma block_succs_ids: "set (block_succs bs i) \<subseteq> (\<Union>b \<in> set bs. set (bb_successors b))"
  by (auto simp: block_succs_def intro: nth_mem)

function reach_loop :: "basic_block list \<Rightarrow> nat list \<Rightarrow> nat list \<Rightarrow> nat list" where
  "reach_loop bs [] reachable = reachable"
| "reach_loop bs (b # stack) reachable =
     (if b \<in> set reachable then reach_loop bs stack reachable
      else reach_loop bs (rev (block_succs bs b) @ stack) (hs_insert b reachable))"
  by pat_completeness auto
termination
proof (relation "inv_image (finite_psubset <*lex*> less_than)
          (\<lambda>(bs, stack, reachable). (all_ids bs stack - set reachable, length stack))", goal_cases)
  case 1
  show ?case by auto
next
  case (2 bs b stack reachable)
  have "all_ids bs stack - set reachable = all_ids bs (b # stack) - set reachable"
    using 2 by (auto simp: all_ids_def)
  then show ?case by (simp add: finite_psubset_def)
next
  case (3 bs b stack reachable)
  have "all_ids bs (rev (block_succs bs b) @ stack) - set (hs_insert b reachable)
      \<subset> all_ids bs (b # stack) - set reachable"
    using 3 block_succs_ids [of bs b] by (auto simp: all_ids_def)
  then show ?case by (simp add: finite_psubset_def)
qed

definition reachable_blocks :: "cfg \<Rightarrow> nat list" where
  "reachable_blocks g = reach_loop (cfg_blocks g) [cfg_entry g] []"

text \<open>One sweep of the backward fixpoint over the blocks, then sweeps until nothing changes.\<close>

definition can_exit_block :: "basic_block \<Rightarrow> nat list \<times> bool \<Rightarrow> nat list \<times> bool" where
  "can_exit_block b = (\<lambda>(can_exit, changed).
     if bb_id b \<in> set can_exit then (can_exit, changed)
     else if \<exists>s \<in> set (bb_successors b). s \<in> set can_exit then (hs_insert (bb_id b) can_exit, True)
     else (can_exit, changed))"

definition can_exit_sweep :: "basic_block list \<Rightarrow> nat list \<Rightarrow> nat list \<times> bool" where
  "can_exit_sweep bs can_exit = fold can_exit_block bs (can_exit, False)"

lemma can_exit_block_mono: "set (fst st) \<subseteq> set (fst (can_exit_block b st))"
  by (cases st) (auto simp: can_exit_block_def)

lemma can_exit_block_progress:
  "snd (can_exit_block b st) \<Longrightarrow> \<not> snd st \<Longrightarrow>
     bb_id b \<notin> set (fst st) \<and> bb_id b \<in> set (fst (can_exit_block b st))"
  by (cases st) (auto simp: can_exit_block_def split: if_splits)

lemma can_exit_fold_mono: "set (fst st) \<subseteq> set (fst (fold can_exit_block bs st))"
  by (induction bs arbitrary: st) (use can_exit_block_mono in fastforce)+

lemma can_exit_fold_progress:
  "snd (fold can_exit_block bs st) \<Longrightarrow> \<not> snd st \<Longrightarrow>
     \<exists>b \<in> set bs. bb_id b \<notin> set (fst st) \<and> bb_id b \<in> set (fst (fold can_exit_block bs st))"
proof (induction bs arbitrary: st)
  case Nil
  then show ?case by simp
next
  case (Cons b bs)
  show ?case
  proof (cases "snd (can_exit_block b st)")
    case True
    then show ?thesis
      using can_exit_block_progress [OF True Cons.prems(2)]
        can_exit_fold_mono [of "can_exit_block b st" bs] by auto
  next
    case False
    then show ?thesis
      using Cons.IH [of "can_exit_block b st"] Cons.prems can_exit_block_mono [of st b] by auto
  qed
qed

function can_exit_loop :: "basic_block list \<Rightarrow> nat list \<Rightarrow> nat list" where
  "can_exit_loop bs can_exit =
     (let r = can_exit_sweep bs can_exit
      in if snd r then can_exit_loop bs (fst r) else fst r)"
  by pat_completeness auto
termination
proof (relation "inv_image finite_psubset (\<lambda>(bs, ce). set (map bb_id bs) - set ce)", goal_cases)
  case 1
  show ?case by auto
next
  case (2 bs can_exit r)
  then have "\<exists>b \<in> set bs. bb_id b \<notin> set can_exit \<and> bb_id b \<in> set (fst r)"
    using can_exit_fold_progress [of bs "(can_exit, False)"] by (simp add: can_exit_sweep_def)
  moreover have "set can_exit \<subseteq> set (fst r)"
    using 2 can_exit_fold_mono [of "(can_exit, False)" bs] by (simp add: can_exit_sweep_def)
  ultimately show ?case
    by (fastforce simp: finite_psubset_def)
qed

declare can_exit_loop.simps [simp del]

definition all_paths_terminate :: "cfg \<Rightarrow> bool" where
  "all_paths_terminate g =
     (let can_exit = can_exit_loop (cfg_blocks g) (fold hs_insert (cfg_exits g) [])
      in list_all (\<lambda>b. b \<in> set can_exit) (reachable_blocks g))"

definition statements_on_path :: "cfg \<Rightarrow> nat list \<Rightarrow> node list \<Rightarrow> node list option" where
  "statements_on_path g path nodes =
     (if list_all (\<lambda>bid. bid < length (cfg_blocks g)) path
      then Some (concat (map (\<lambda>bid. map (\<lambda>i. nodes ! i)
             (filter (\<lambda>i. i < length nodes) (bb_statements (cfg_blocks g ! bid)))) path))
      else None)"

end
