(* ===== verification/Sigil_Cfg_Paths.thy ===== *)
theory Sigil_Cfg_Paths
  imports Sigil_Cfg
begin

text \<open>
  What the two graph searches of \<^verbatim>\<open>cfg.rs\<close> compute: \<open>all_paths\<close> enumerates exactly
  the loop-free paths from the entry to an exit, and \<open>all_paths_terminate\<close> decides that
  every reachable block can reach an exit. Both are stated for an arbitrary block list
  whose edges stay in range; \<open>Sigil_Cfg_Build\<close> shows that the builder gives such lists.
\<close>

section \<open>Edges and paths\<close>

definition edge :: "basic_block list \<Rightarrow> nat \<Rightarrow> nat \<Rightarrow> bool" where
  "edge bs a b \<longleftrightarrow> a < length bs \<and> b \<in> set (bb_successors (bs ! a))"

definition exit_at :: "basic_block list \<Rightarrow> nat \<Rightarrow> bool" where
  "exit_at bs a \<longleftrightarrow> a < length bs \<and> is_exit_block (bs ! a)"

definition wf_blocks :: "basic_block list \<Rightarrow> bool" where
  "wf_blocks bs \<longleftrightarrow> (\<forall>b \<in> set bs. \<forall>s \<in> set (bb_successors b). s < length bs)"

text \<open>A loop-free run of the graph from \<open>a\<close> that stops at the first exit block.\<close>

definition run_to_exit :: "basic_block list \<Rightarrow> nat \<Rightarrow> nat list \<Rightarrow> bool" where
  "run_to_exit bs a p \<longleftrightarrow> p \<noteq> [] \<and> hd p = a \<and> distinct p \<and> successively (edge bs) p
     \<and> exit_at bs (last p) \<and> (\<forall>b \<in> set (butlast p). \<not> exit_at bs b)"

section \<open>The path enumeration\<close>

definition completions :: "basic_block list \<Rightarrow> nat set \<Rightarrow> nat \<Rightarrow> nat list set" where
  "completions bs vis c = {e. run_to_exit bs c (c # e) \<and> set (c # e) \<inter> vis = {}}"

lemma completions_visited: "c \<in> vis \<Longrightarrow> completions bs vis c = {}"
  by (auto simp: completions_def)

lemma completions_exit:
  assumes "c \<notin> vis" and "exit_at bs c"
  shows "completions bs vis c = {[]}"
proof -
  have "e = []" if "e \<in> completions bs vis c" for e
    using that assms by (cases e) (auto simp: completions_def run_to_exit_def)
  moreover have "[] \<in> completions bs vis c"
    using assms by (auto simp: completions_def run_to_exit_def)
  ultimately show ?thesis by auto
qed

lemma completions_step:
  assumes "c \<notin> vis" and "c < length bs" and "\<not> exit_at bs c"
  shows "completions bs vis c
       = (\<Union>s \<in> set (bb_successors (bs ! c)). (#) s ` completions bs (insert c vis) s)"
    (is "?L = ?R")
proof (rule set_eqI)
  fix e
  show "e \<in> ?L \<longleftrightarrow> e \<in> ?R"
    using assms by (cases e) (auto simp: completions_def run_to_exit_def edge_def)
qed

lemma exit_at_iff [simp]: "c < length bs \<Longrightarrow> exit_at bs c \<longleftrightarrow> is_exit_block (bs ! c)"
  by (simp add: exit_at_def)

definition stack_paths :: "basic_block list \<Rightarrow> (nat \<times> nat list \<times> nat list) list \<Rightarrow> nat list set" where
  "stack_paths bs stack = (\<Union>(c, p, vis) \<in> set stack. (\<lambda>e. p @ e) ` completions bs (set vis) c)"

lemma stack_paths_Nil [simp]: "stack_paths bs [] = {}"
  by (simp add: stack_paths_def)

lemma stack_paths_Cons:
  "stack_paths bs ((c, p, vis) # st) = (\<lambda>e. p @ e) ` completions bs (set vis) c \<union> stack_paths bs st"
  by (simp add: stack_paths_def)

lemma stack_paths_append: "stack_paths bs (xs @ ys) = stack_paths bs xs \<union> stack_paths bs ys"
  by (simp add: stack_paths_def)

lemma stack_paths_children:
  "stack_paths bs (rev (map (\<lambda>s. (s, p @ [s], vis)) ss))
   = (\<lambda>e. p @ e) ` (\<Union>s \<in> set ss. (#) s ` completions bs (set vis) s)"
  by (auto simp: stack_paths_def image_iff)

lemma all_paths_loop_set:
  "all_paths_loop bs stack paths = Some ps \<Longrightarrow> set ps = set paths \<union> stack_paths bs stack"
proof (induction bs stack paths rule: all_paths_loop.induct)
  case (1 bs paths)
  then show ?case by simp
next
  case (2 bs cur path visited stack paths)
  consider (visited) "cur \<in> set visited"
    | (exit) "cur \<notin> set visited" "cur < length bs" "is_exit_block (bs ! cur)"
    | (step) "cur \<notin> set visited" "cur < length bs" "\<not> is_exit_block (bs ! cur)"
    using "2.prems" by (auto split: if_splits)
  then show ?case
  proof cases
    case visited
    then show ?thesis using 2 by (simp add: stack_paths_Cons completions_visited)
  next
    case exit
    then show ?thesis using 2 by (auto simp: stack_paths_Cons completions_exit)
  next
    case step
    then show ?thesis
      using 2 by (auto simp: stack_paths_Cons stack_paths_append stack_paths_children completions_step)
  qed
qed

lemma all_paths_loop_total:
  "wf_blocks bs \<Longrightarrow> \<forall>x \<in> set stack. fst x < length bs \<Longrightarrow>
     \<exists>ps. all_paths_loop bs stack paths = Some ps"
proof (induction bs stack paths rule: all_paths_loop.induct)
  case (1 bs paths)
  then show ?case by simp
next
  case (2 bs cur path visited stack paths)
  then have "cur < length bs" by simp
  then have "\<forall>s \<in> set (bb_successors (bs ! cur)). s < length bs"
    using "2.prems"(1) by (auto simp: wf_blocks_def)
  then have "\<forall>x \<in> set (rev (map (\<lambda>s. (s, path @ [s], hs_insert cur visited))
      (bb_successors (bs ! cur))) @ stack). fst x < length bs"
    using "2.prems"(2) by auto
  with 2 \<open>cur < length bs\<close> show ?case by simp
qed

lemma all_paths_run_to_exit:
  assumes "all_paths g = Some ps"
  shows "set ps = {p. run_to_exit (cfg_blocks g) (cfg_entry g) p}"
proof -
  have "set ps = (#) (cfg_entry g) ` completions (cfg_blocks g) {} (cfg_entry g)"
    using all_paths_loop_set [OF assms [unfolded all_paths_def]] by (simp add: stack_paths_def)
  also have "\<dots> = {p. run_to_exit (cfg_blocks g) (cfg_entry g) p}"
  proof (rule set_eqI)
    fix p
    show "p \<in> (#) (cfg_entry g) ` completions (cfg_blocks g) {} (cfg_entry g)
        \<longleftrightarrow> p \<in> {p. run_to_exit (cfg_blocks g) (cfg_entry g) p}"
      by (cases p) (auto simp: completions_def run_to_exit_def)
  qed
  finally show ?thesis .
qed

lemma all_paths_total:
  assumes "wf_blocks (cfg_blocks g)" and "cfg_entry g < length (cfg_blocks g)"
  shows "\<exists>ps. all_paths g = Some ps"
  unfolding all_paths_def by (rule all_paths_loop_total) (use assms in auto)

section \<open>The termination check\<close>

lemma edge_eq: "edge bs a b \<longleftrightarrow> b \<in> set (block_succs bs a)"
  by (auto simp: edge_def block_succs_def)

lemma reach_loop_mono: "set r \<union> set stack \<subseteq> set (reach_loop bs stack r)"
  by (induction bs stack r rule: reach_loop.induct) auto

lemma reach_loop_closed:
  "\<forall>a \<in> set r. \<forall>b. edge bs a b \<longrightarrow> b \<in> set r \<union> set stack \<Longrightarrow>
     \<forall>a \<in> set (reach_loop bs stack r). \<forall>b. edge bs a b \<longrightarrow> b \<in> set (reach_loop bs stack r)"
proof (induction bs stack r rule: reach_loop.induct)
  case (1 bs reachable)
  then show ?case by simp
next
  case (2 bs b stack reachable)
  show ?case
  proof (cases "b \<in> set reachable")
    case True
    then show ?thesis using 2 by auto
  next
    case False
    then show ?thesis using 2 by (auto simp: edge_eq)
  qed
qed

lemma reach_loop_sound:
  "x \<in> set (reach_loop bs stack r) \<Longrightarrow> x \<in> set r \<or> (\<exists>a \<in> set stack. (edge bs)\<^sup>*\<^sup>* a x)"
proof (induction bs stack r rule: reach_loop.induct)
  case (1 bs reachable)
  then show ?case by simp
next
  case (2 bs b stack reachable)
  show ?case
  proof (cases "b \<in> set reachable")
    case True
    then show ?thesis using 2 by auto
  next
    case False
    then show ?thesis
      using 2 by (auto simp: edge_eq [symmetric] intro: converse_rtranclp_into_rtranclp)
  qed
qed

lemma reachable_blocks_iff:
  "b \<in> set (reachable_blocks g) \<longleftrightarrow> (edge (cfg_blocks g))\<^sup>*\<^sup>* (cfg_entry g) b"
proof
  assume "b \<in> set (reachable_blocks g)"
  then show "(edge (cfg_blocks g))\<^sup>*\<^sup>* (cfg_entry g) b"
    using reach_loop_sound [of b "cfg_blocks g" "[cfg_entry g]" "[]"]
    by (simp add: reachable_blocks_def)
next
  assume "(edge (cfg_blocks g))\<^sup>*\<^sup>* (cfg_entry g) b"
  then show "b \<in> set (reachable_blocks g)"
  proof (induction rule: rtranclp_induct)
    case base
    then show ?case
      using reach_loop_mono [of "[]" "[cfg_entry g]" "cfg_blocks g"] by (simp add: reachable_blocks_def)
  next
    case (step y z)
    then show ?case
      using reach_loop_closed [of "[]" "cfg_blocks g" "[cfg_entry g]"] by (auto simp: reachable_blocks_def)
  qed
qed

text \<open>A block is named by its position: the builder numbers the blocks in order.\<close>

definition ids_ok :: "basic_block list \<Rightarrow> bool" where
  "ids_ok bs \<longleftrightarrow> (\<forall>i < length bs. bb_id (bs ! i) = i)"

lemma ids_ok_mem: "ids_ok bs \<Longrightarrow> b \<in> set bs \<Longrightarrow> bb_id b < length bs \<and> bs ! bb_id b = b"
  by (auto simp: ids_ok_def in_set_conv_nth)

lemma can_exit_fold_sound:
  assumes "ids_ok bs" and "set xs \<subseteq> set bs"
    and "\<forall>a \<in> set (fst st). P a"
    and "\<And>a b. edge bs a b \<Longrightarrow> P b \<Longrightarrow> P a"
  shows "\<forall>a \<in> set (fst (fold can_exit_block xs st)). P a"
  using assms(2,3)
proof (induction xs arbitrary: st)
  case Nil
  then show ?case by simp
next
  case (Cons b xs)
  have "edge bs (bb_id b) s" if "s \<in> set (bb_successors b)" for s
    using that Cons.prems(1) ids_ok_mem [OF assms(1), of b] by (auto simp: edge_def)
  then have "\<forall>a \<in> set (fst (can_exit_block b st)). P a"
    using Cons.prems(2) assms(4) by (cases st) (auto simp: can_exit_block_def)
  then show ?case using Cons by auto
qed

lemma can_exit_fold_stable:
  "\<not> snd (fold can_exit_block xs st) \<Longrightarrow> fold can_exit_block xs st = st \<and>
     (\<forall>b \<in> set xs. bb_id b \<in> set (fst st) \<or> (\<forall>s \<in> set (bb_successors b). s \<notin> set (fst st)))"
proof (induction xs arbitrary: st)
  case Nil
  then show ?case by simp
next
  case (Cons b xs)
  have IH: "fold can_exit_block xs (can_exit_block b st) = can_exit_block b st"
    using Cons.IH [of "can_exit_block b st"] Cons.prems by auto
  then have no: "\<not> snd (can_exit_block b st)"
    using Cons.prems by simp
  then have "can_exit_block b st = st \<and>
      (bb_id b \<in> set (fst st) \<or> (\<forall>s \<in> set (bb_successors b). s \<notin> set (fst st)))"
    by (cases st) (auto simp: can_exit_block_def split: if_splits)
  then show ?case
    using Cons.IH [of st] Cons.prems by auto
qed

lemma can_exit_loop_props:
  assumes "ids_ok bs" and "\<forall>a \<in> set ce. \<exists>x. exit_at bs x \<and> (edge bs)\<^sup>*\<^sup>* a x"
  shows "set ce \<subseteq> set (can_exit_loop bs ce)
    \<and> (\<forall>a \<in> set (can_exit_loop bs ce). \<exists>x. exit_at bs x \<and> (edge bs)\<^sup>*\<^sup>* a x)
    \<and> (\<forall>a b. edge bs a b \<and> b \<in> set (can_exit_loop bs ce) \<longrightarrow> a \<in> set (can_exit_loop bs ce))"
  using assms
proof (induction bs ce rule: can_exit_loop.induct)
  case (1 bs ce)
  let ?r = "can_exit_sweep bs ce"
  have sound: "\<forall>a \<in> set (fst ?r). \<exists>x. exit_at bs x \<and> (edge bs)\<^sup>*\<^sup>* a x"
    unfolding can_exit_sweep_def
    by (rule can_exit_fold_sound [where bs = bs])
      (use "1.prems" in \<open>auto intro: converse_rtranclp_into_rtranclp\<close>)
  have mono: "set ce \<subseteq> set (fst ?r)"
    using can_exit_fold_mono [of "(ce, False)" bs] by (simp add: can_exit_sweep_def)
  show ?case
  proof (cases "snd ?r")
    case True
    then have "can_exit_loop bs ce = can_exit_loop bs (fst ?r)"
      by (subst can_exit_loop.simps) (simp add: Let_def)
    then show ?thesis using "1.IH" [OF refl True "1.prems"(1) sound] mono by auto
  next
    case False
    then have eq: "can_exit_loop bs ce = ce"
      and st: "\<forall>b \<in> set bs. bb_id b \<in> set ce \<or> (\<forall>s \<in> set (bb_successors b). s \<notin> set ce)"
      using can_exit_fold_stable [of bs "(ce, False)"]
      by (simp_all add: can_exit_loop.simps [of bs ce] can_exit_sweep_def)
    have "a \<in> set ce" if "edge bs a b" "b \<in> set ce" for a b
      using that st [THEN bspec, of "bs ! a"] "1.prems"(1) by (auto simp: edge_def ids_ok_def)
    then show ?thesis using eq "1.prems" by auto
  qed
qed

lemma all_paths_terminate_iff:
  assumes "ids_ok (cfg_blocks g)"
    and "set (cfg_exits g) = {a. exit_at (cfg_blocks g) a}"
  shows "all_paths_terminate g \<longleftrightarrow>
    (\<forall>b. (edge (cfg_blocks g))\<^sup>*\<^sup>* (cfg_entry g) b \<longrightarrow>
       (\<exists>x. exit_at (cfg_blocks g) x \<and> (edge (cfg_blocks g))\<^sup>*\<^sup>* b x))"
proof -
  let ?bs = "cfg_blocks g" and ?ce = "can_exit_loop (cfg_blocks g) (fold hs_insert (cfg_exits g) [])"
  have init: "set (fold hs_insert (cfg_exits g) []) = {a. exit_at ?bs a}"
    using hs.elems_fold_insert [of "cfg_exits g" "[]"] assms(2) by simp
  have "\<forall>a \<in> set (fold hs_insert (cfg_exits g) []). \<exists>x. exit_at ?bs x \<and> (edge ?bs)\<^sup>*\<^sup>* a x"
    unfolding init by blast
  from can_exit_loop_props [OF assms(1) this]
  have sub: "{a. exit_at ?bs a} \<subseteq> set ?ce"
    and snd: "\<And>a. a \<in> set ?ce \<Longrightarrow> \<exists>x. exit_at ?bs x \<and> (edge ?bs)\<^sup>*\<^sup>* a x"
    and closed: "\<And>a b. edge ?bs a b \<Longrightarrow> b \<in> set ?ce \<Longrightarrow> a \<in> set ?ce"
    unfolding init by blast+
  have "a \<in> set ?ce \<longleftrightarrow> (\<exists>x. exit_at ?bs x \<and> (edge ?bs)\<^sup>*\<^sup>* a x)" for a
  proof
    assume "a \<in> set ?ce"
    then show "\<exists>x. exit_at ?bs x \<and> (edge ?bs)\<^sup>*\<^sup>* a x" by (rule snd)
  next
    assume "\<exists>x. exit_at ?bs x \<and> (edge ?bs)\<^sup>*\<^sup>* a x"
    then obtain x where "exit_at ?bs x" and "(edge ?bs)\<^sup>*\<^sup>* a x" by blast
    from this(2) show "a \<in> set ?ce"
    proof (induction rule: converse_rtranclp_induct)
      case base
      then show ?case using sub \<open>exit_at ?bs x\<close> by blast
    next
      case (step y z)
      then show ?case by (blast intro: closed)
    qed
  qed
  then show ?thesis
    by (simp add: all_paths_terminate_def list_all_iff Ball_def reachable_blocks_iff)
qed

end
