(* ===== verification/Sigil_Cfg_Build.thy ===== *)
theory Sigil_Cfg_Build
  imports Sigil_Cfg_Paths
begin

text \<open>
  The two-pass builder of \<^verbatim>\<open>cfg.rs\<close> is correct: the blocks partition the statements
  in order, every edge stays in range, and the edges are exactly the transfers of control
  between statements. The first pass keeps the invariant \<open>pass_inv\<close>; the second pass only
  adds edges.
\<close>

section \<open>Control transfer between statements\<close>

definition is_transfer :: "node \<Rightarrow> bool" where
  "is_transfer n \<longleftrightarrow> (case node_kind_of n of Jump _ \<Rightarrow> True | Branch _ _ _ \<Rightarrow> True | _ \<Rightarrow> False)"

text \<open>The statement a label stands for: its last definition before position \<open>k\<close>.\<close>

definition label_upto :: "node list \<Rightarrow> nat \<Rightarrow> string \<Rightarrow> nat option" where
  "label_upto nodes k l = find (\<lambda>i. node_kind_of (nodes ! i) = Label l) (rev [0..<k])"

definition node_next :: "node list \<Rightarrow> nat \<Rightarrow> nat \<Rightarrow> bool" where
  "node_next nodes i j \<longleftrightarrow> i < length nodes \<and> (case node_kind_of (nodes ! i) of
     Jump l \<Rightarrow> label_upto nodes (length nodes) l = Some j
   | Branch _ x y \<Rightarrow> label_upto nodes (length nodes) x = Some j \<or> label_upto nodes (length nodes) y = Some j
   | _ \<Rightarrow> j = Suc i \<and> j < length nodes)"

lemma label_upto_0 [simp]: "label_upto nodes 0 l = None"
  by (simp add: label_upto_def)

lemma label_upto_Suc [simp]:
  "label_upto nodes (Suc k) l =
     (if node_kind_of (nodes ! k) = Label l then Some k else label_upto nodes k l)"
  by (simp add: label_upto_def)

section \<open>The first pass\<close>

definition term_ok :: "node list \<Rightarrow> nat \<Rightarrow> terminator \<Rightarrow> bool" where
  "term_ok nodes i t \<longleftrightarrow> (case node_kind_of (nodes ! i) of
     Jump l \<Rightarrow> t = TermJump l
   | Branch _ x y \<Rightarrow> t = TermBranch x y
   | _ \<Rightarrow> t = Fallthrough \<or> t = Return)"

definition raw_block_ok :: "node list \<Rightarrow> nat \<Rightarrow> basic_block \<Rightarrow> bool" where
  "raw_block_ok nodes i b \<longleftrightarrow> bb_id b = i \<and> bb_successors b = [] \<and> bb_predecessors b = []
     \<and> bb_statements b \<noteq> [] \<and> (\<forall>s \<in> set (butlast (bb_statements b)). \<not> is_transfer (nodes ! s))
     \<and> term_ok nodes (last (bb_statements b)) (bb_terminator b)"

definition stmts_of :: "cfg_builder \<Rightarrow> nat \<Rightarrow> nat list" where
  "stmts_of b t = (if t < length (cb_blocks b) then bb_statements (cb_blocks b ! t)
     else if t = length (cb_blocks b) then bb_statements (cb_current b) else [])"

definition labels_inv :: "node list \<Rightarrow> nat \<Rightarrow> cfg_builder \<Rightarrow> bool" where
  "labels_inv nodes k b \<longleftrightarrow> (\<forall>l. case label_upto nodes k l of
     None \<Rightarrow> hm_get (cb_labels b) l = None
   | Some i \<Rightarrow> \<exists>t. hm_get (cb_labels b) l = Some t \<and> stmts_of b t \<noteq> [] \<and> hd (stmts_of b t) = i)"

definition blocks_inv :: "node list \<Rightarrow> nat \<Rightarrow> cfg_builder \<Rightarrow> bool" where
  "blocks_inv nodes k b \<longleftrightarrow>
     cb_next_id b = length (cb_blocks b)
   \<and> concat (map bb_statements (cb_blocks b)) @ bb_statements (cb_current b) = [0..<k]
   \<and> (\<forall>i < length (cb_blocks b). raw_block_ok nodes i (cb_blocks b ! i)
        \<and> bb_terminator (cb_blocks b ! i) \<noteq> Return
        \<and> (bb_terminator (cb_blocks b ! i) = Fallthrough \<longrightarrow> stmts_of b (Suc i) \<noteq> []))
   \<and> bb_successors (cb_current b) = [] \<and> bb_predecessors (cb_current b) = []
   \<and> (\<forall>s \<in> set (bb_statements (cb_current b)). \<not> is_transfer (nodes ! s))"

definition current_label_inv :: "cfg_builder \<Rightarrow> bool" where
  "current_label_inv b \<longleftrightarrow> (\<forall>l. bb_label (cb_current b) = Some l \<longrightarrow>
     hm_get (cb_labels b) l = Some (length (cb_blocks b)))"

definition pass_inv :: "node list \<Rightarrow> nat \<Rightarrow> cfg_builder \<Rightarrow> bool" where
  "pass_inv nodes k b \<longleftrightarrow> blocks_inv nodes k b \<and> labels_inv nodes k b \<and> current_label_inv b"

lemmas pass_inv_defs = pass_inv_def blocks_inv_def labels_inv_def current_label_inv_def

lemma pass_inv_new: "pass_inv nodes 0 cfg_builder_new"
  by (simp add: pass_inv_defs cfg_builder_new_def empty_block_def)

subsection \<open>The builder's operations on the invariant\<close>

lemma push_stmt_simps [simp]:
  "cb_blocks (push_stmt i b) = cb_blocks b"
  "cb_labels (push_stmt i b) = cb_labels b"
  "cb_next_id (push_stmt i b) = cb_next_id b"
  "bb_statements (cb_current (push_stmt i b)) = bb_statements (cb_current b) @ [i]"
  "bb_label (cb_current (push_stmt i b)) = bb_label (cb_current b)"
  "bb_successors (cb_current (push_stmt i b)) = bb_successors (cb_current b)"
  "bb_predecessors (cb_current (push_stmt i b)) = bb_predecessors (cb_current b)"
  by (simp_all add: push_stmt_def)

lemma stmts_of_push [simp]:
  "stmts_of (push_stmt i b) t =
     (if t = length (cb_blocks b) then bb_statements (cb_current b) @ [i] else stmts_of b t)"
  by (auto simp: stmts_of_def)

lemma finish_block_simps [simp]:
  "cb_blocks (finish_block t b) =
     cb_blocks b @ [(cb_current b)\<lparr>bb_id := cb_next_id b, bb_terminator := t\<rparr>]"
  "cb_current (finish_block t b) = empty_block"
  "cb_next_id (finish_block t b) = Suc (cb_next_id b)"
  by (simp_all add: finish_block_def Let_def)

lemma finish_block_labels:
  "current_label_inv b \<Longrightarrow> cb_next_id b = length (cb_blocks b) \<Longrightarrow>
     hm_get (cb_labels (finish_block t b)) l = hm_get (cb_labels b) l"
  by (auto simp: finish_block_def Let_def current_label_inv_def split: option.splits)

lemma stmts_of_finish [simp]:
  "stmts_of (finish_block t b) i = (if i \<le> length (cb_blocks b) then stmts_of b i else [])"
  by (auto simp: stmts_of_def nth_append empty_block_def)

lemma labels_inv_keep:
  assumes inv: "labels_inv nodes k b" and nl: "\<And>l. node_kind_of (nodes ! k) \<noteq> Label l"
    and get: "\<And>l. hm_get (cb_labels b') l = hm_get (cb_labels b) l"
    and st: "\<And>t. stmts_of b t \<noteq> [] \<Longrightarrow> stmts_of b' t \<noteq> [] \<and> hd (stmts_of b' t) = hd (stmts_of b t)"
  shows "labels_inv nodes (Suc k) b'"
  unfolding labels_inv_def
proof
  fix l
  have "case label_upto nodes k l of None \<Rightarrow> hm_get (cb_labels b) l = None
      | Some i \<Rightarrow> \<exists>t. hm_get (cb_labels b) l = Some t \<and> stmts_of b t \<noteq> [] \<and> hd (stmts_of b t) = i"
    using inv by (simp add: labels_inv_def)
  then show "case label_upto nodes (Suc k) l of None \<Rightarrow> hm_get (cb_labels b') l = None
      | Some i \<Rightarrow> \<exists>t. hm_get (cb_labels b') l = Some t \<and> stmts_of b' t \<noteq> [] \<and> hd (stmts_of b' t) = i"
    using nl st by (cases "label_upto nodes k l") (auto simp: get)
qed

lemma pass_inv_push:
  assumes "pass_inv nodes k b" and "\<not> is_transfer (nodes ! k)" and "\<forall>l. node_kind_of (nodes ! k) \<noteq> Label l"
  shows "pass_inv nodes (Suc k) (push_stmt k b)"
proof -
  have "labels_inv nodes (Suc k) (push_stmt k b)"
    by (rule labels_inv_keep [of _ _ b]) (use assms(1,3) in \<open>auto simp: pass_inv_def stmts_of_def split: if_splits\<close>)
  moreover have "blocks_inv nodes (Suc k) (push_stmt k b)"
    using assms(1,2) unfolding pass_inv_def blocks_inv_def by auto
  moreover have "current_label_inv (push_stmt k b)"
    using assms(1) by (simp add: pass_inv_def current_label_inv_def)
  ultimately show ?thesis by (simp add: pass_inv_def)
qed

lemma pass_inv_transfer:
  assumes "pass_inv nodes k b" and "is_transfer (nodes ! k)"
    and "term_ok nodes k t" and "t \<noteq> Return" and "t \<noteq> Fallthrough"
  shows "pass_inv nodes (Suc k) (finish_block t (push_stmt k b))"
proof -
  have nl: "node_kind_of (nodes ! k) \<noteq> Label l" for l
    using assms(2) by (auto simp: is_transfer_def)
  have cl: "current_label_inv (push_stmt k b)"
    using assms(1) by (simp add: pass_inv_def current_label_inv_def)
  have lab: "hm_get (cb_labels (finish_block t (push_stmt k b))) l = hm_get (cb_labels b) l" for l
    using finish_block_labels [OF cl] assms(1) by (simp add: pass_inv_def blocks_inv_def)
  have "labels_inv nodes (Suc k) (finish_block t (push_stmt k b))"
    by (rule labels_inv_keep [of _ _ b])
      (use assms(1) nl in \<open>auto simp: pass_inv_def stmts_of_def nth_append lab split: if_splits\<close>)
  moreover have "blocks_inv nodes (Suc k) (finish_block t (push_stmt k b))"
    using assms unfolding pass_inv_def blocks_inv_def
    by (auto simp: nth_append raw_block_ok_def less_Suc_eq empty_block_def stmts_of_def)
  moreover have "current_label_inv (finish_block t (push_stmt k b))"
    by (simp add: current_label_inv_def empty_block_def)
  ultimately show ?thesis by (simp add: pass_inv_def)
qed

lemma pass_inv_label:
  assumes "pass_inv nodes k b" and "node_kind_of (nodes ! k) = Label name"
  shows "pass_inv nodes (Suc k) (push_stmt k (start_label name b))"
proof -
  define b1 where "b1 = (if bb_statements (cb_current b) \<noteq> [] then finish_block Fallthrough b else b)"
  define b2 where "b2 = push_stmt k (start_label name b)"
  have nid: "cb_next_id b = length (cb_blocks b)"
    using assms(1) by (simp add: pass_inv_def blocks_inv_def)
  have notr: "\<not> is_transfer (nodes ! k)"
    using assms(2) by (simp add: is_transfer_def)
  have b1_cur: "bb_statements (cb_current b1) = []" "cb_next_id b1 = length (cb_blocks b1)"
    "bb_successors (cb_current b1) = []" "bb_predecessors (cb_current b1) = []"
    using assms(1) nid by (auto simp: b1_def empty_block_def pass_inv_def blocks_inv_def)
  have b1_lab: "hm_get (cb_labels b1) l = hm_get (cb_labels b) l" for l
    using finish_block_labels [of b Fallthrough l] assms(1) nid by (simp add: b1_def pass_inv_def)
  have b2: "cb_blocks b2 = cb_blocks b1" "bb_statements (cb_current b2) = [k]"
    "cb_next_id b2 = length (cb_blocks b1)" "bb_label (cb_current b2) = Some name"
    "bb_successors (cb_current b2) = []" "bb_predecessors (cb_current b2) = []"
    "hm_get (cb_labels b2) l = (if l = name then Some (length (cb_blocks b1)) else hm_get (cb_labels b) l)" for l
    using b1_cur b1_lab by (simp_all add: b2_def start_label_def Let_def b1_def [symmetric])
  have b1_stmts: "stmts_of b1 t = stmts_of b t" if "stmts_of b t \<noteq> []" for t
    using that by (auto simp: b1_def stmts_of_def nth_append split: if_splits)
  have st_b2: "stmts_of b2 t = (if t = length (cb_blocks b1) then [k] else stmts_of b1 t)" for t
    using b2 by (auto simp: stmts_of_def)
  have ne: "stmts_of b t \<noteq> [] \<Longrightarrow> t \<noteq> length (cb_blocks b1)" for t
    using b1_cur by (auto simp: b1_def stmts_of_def split: if_splits)
  have keep: "stmts_of b2 t = stmts_of b t" if "stmts_of b t \<noteq> []" for t
    using that ne b1_stmts by (simp add: st_b2)
  have old: "raw_block_ok nodes i (cb_blocks b ! i) \<and> bb_terminator (cb_blocks b ! i) \<noteq> Return"
    "bb_terminator (cb_blocks b ! i) = Fallthrough \<Longrightarrow> stmts_of b (Suc i) \<noteq> []"
    if "i < length (cb_blocks b)" for i
    using that assms(1) by (auto simp: pass_inv_def blocks_inv_def)
  have "labels_inv nodes (Suc k) b2"
    unfolding labels_inv_def
  proof
    fix l
    show "case label_upto nodes (Suc k) l of None \<Rightarrow> hm_get (cb_labels b2) l = None
        | Some i \<Rightarrow> \<exists>t. hm_get (cb_labels b2) l = Some t \<and> stmts_of b2 t \<noteq> [] \<and> hd (stmts_of b2 t) = i"
    proof (cases "l = name")
      case True
      then show ?thesis using assms(2) b2 by (simp add: st_b2)
    next
      case False
      have "case label_upto nodes k l of None \<Rightarrow> hm_get (cb_labels b) l = None
          | Some i \<Rightarrow> \<exists>t. hm_get (cb_labels b) l = Some t \<and> stmts_of b t \<noteq> [] \<and> hd (stmts_of b t) = i"
        using assms(1) by (simp add: pass_inv_def labels_inv_def)
      then show ?thesis
        using False assms(2) by (cases "label_upto nodes k l") (auto simp: b2 keep)
    qed
  qed
  moreover have "blocks_inv nodes (Suc k) b2"
  proof -
    have "concat (map bb_statements (cb_blocks b1)) = [0..<k]"
      using assms(1) by (auto simp: b1_def pass_inv_def blocks_inv_def)
    moreover have "raw_block_ok nodes i (cb_blocks b1 ! i) \<and> bb_terminator (cb_blocks b1 ! i) \<noteq> Return
        \<and> (bb_terminator (cb_blocks b1 ! i) = Fallthrough \<longrightarrow> stmts_of b2 (Suc i) \<noteq> [])"
      if "i < length (cb_blocks b1)" for i
    proof (cases "i < length (cb_blocks b)")
      case True
      then have same: "cb_blocks b1 ! i = cb_blocks b ! i"
        by (simp add: b1_def nth_append)
      show ?thesis
        using old [OF True] b1_stmts ne by (auto simp: same st_b2)
    next
      case False
      then have cur: "bb_statements (cb_current b) \<noteq> []" and i: "i = length (cb_blocks b)"
        using that by (auto simp: b1_def split: if_splits)
      let ?ss = "bb_statements (cb_current b)"
      have notr_cur: "\<forall>s \<in> set ?ss. \<not> is_transfer (nodes ! s)"
        using assms(1) by (simp add: pass_inv_def blocks_inv_def)
      then have "\<not> is_transfer (nodes ! last ?ss)" using cur by simp
      then have "term_ok nodes (last ?ss) Fallthrough"
        by (auto simp: is_transfer_def term_ok_def split: node_kind.splits)
      then show ?thesis
        using cur i nid notr_cur assms(1) in_set_butlastD [of _ ?ss]
        by (auto simp: b1_def nth_append raw_block_ok_def st_b2 pass_inv_def blocks_inv_def)
    qed
    ultimately show ?thesis
      using b2 notr by (simp add: blocks_inv_def)
  qed
  moreover have "current_label_inv b2"
    using b2 by (simp add: current_label_inv_def)
  ultimately show ?thesis by (simp add: pass_inv_def b2_def)
qed

lemma pass_inv_step:
  assumes "pass_inv nodes k b"
  shows "pass_inv nodes (Suc k) (first_pass_node k (nodes ! k) b)"
proof (cases "node_kind_of (nodes ! k)")
  case (Label name)
  then show ?thesis using pass_inv_label [OF assms Label] by (simp add: first_pass_node_def)
next
  case (Jump t)
  then show ?thesis
    using pass_inv_transfer [OF assms, of "TermJump t"]
    by (simp add: first_pass_node_def is_transfer_def term_ok_def)
next
  case (Branch c x y)
  then show ?thesis
    using pass_inv_transfer [OF assms, of "TermBranch x y"]
    by (simp add: first_pass_node_def is_transfer_def term_ok_def)
qed (use pass_inv_push [OF assms] in \<open>simp_all add: first_pass_node_def is_transfer_def\<close>)

lemma pass_inv_from:
  "pass_inv nodes k b \<Longrightarrow> drop k nodes = ns \<Longrightarrow> k \<le> length nodes \<Longrightarrow>
     pass_inv nodes (length nodes) (first_pass_from k ns b)"
proof (induction ns arbitrary: k b)
  case Nil
  then show ?case by simp
next
  case (Cons n ns)
  have k: "k < length nodes"
    using Cons.prems(2) by (intro not_le_imp_less notI) simp
  from Cons_nth_drop_Suc [OF k] Cons.prems(2)
  have n: "nodes ! k = n" and ns: "drop (Suc k) nodes = ns"
    by simp_all
  from pass_inv_step [OF Cons.prems(1)] n
  have "pass_inv nodes (Suc k) (first_pass_node k n b)" by simp
  then show ?case using Cons.IH ns k by simp
qed

subsection \<open>After the first pass\<close>

definition first_pass_ok :: "node list \<Rightarrow> cfg_builder \<Rightarrow> bool" where
  "first_pass_ok nodes b \<longleftrightarrow>
     cb_blocks b \<noteq> [] \<and> concat (map bb_statements (cb_blocks b)) = [0..<length nodes]
   \<and> (\<forall>i < length (cb_blocks b). bb_id (cb_blocks b ! i) = i \<and> bb_successors (cb_blocks b ! i) = []
        \<and> bb_predecessors (cb_blocks b ! i) = [])
   \<and> (nodes \<noteq> [] \<longrightarrow> (\<forall>i < length (cb_blocks b). raw_block_ok nodes i (cb_blocks b ! i)))
   \<and> (nodes = [] \<longrightarrow> map bb_terminator (cb_blocks b) = [Return])
   \<and> (\<forall>i < length (cb_blocks b). bb_terminator (cb_blocks b ! i) = Fallthrough \<longrightarrow> Suc i < length (cb_blocks b))
   \<and> (\<forall>i < length (cb_blocks b). bb_terminator (cb_blocks b ! i) = Return \<longrightarrow> Suc i = length (cb_blocks b))
   \<and> (\<forall>l. case label_upto nodes (length nodes) l of
        None \<Rightarrow> hm_get (cb_labels b) l = None
      | Some i \<Rightarrow> \<exists>t < length (cb_blocks b). hm_get (cb_labels b) l = Some t
           \<and> bb_statements (cb_blocks b ! t) \<noteq> [] \<and> hd (bb_statements (cb_blocks b ! t)) = i)"

lemma first_pass_blocks_ok:
  assumes inv: "pass_inv nodes (length nodes) b" and ne: "nodes \<noteq> []"
    and b': "b' = (if bb_statements (cb_current b) \<noteq> [] then finish_block Return b else b)"
    and i: "i < length (cb_blocks b')"
  shows "raw_block_ok nodes i (cb_blocks b' ! i)
    \<and> (bb_terminator (cb_blocks b' ! i) = Fallthrough \<longrightarrow> Suc i < length (cb_blocks b'))
    \<and> (bb_terminator (cb_blocks b' ! i) = Return \<longrightarrow> Suc i = length (cb_blocks b'))"
proof (cases "i < length (cb_blocks b)")
  case True
  then have "raw_block_ok nodes i (cb_blocks b ! i)" "bb_terminator (cb_blocks b ! i) \<noteq> Return"
    "bb_terminator (cb_blocks b ! i) = Fallthrough \<Longrightarrow> stmts_of b (Suc i) \<noteq> []"
    using inv by (auto simp: pass_inv_def blocks_inv_def)
  then show ?thesis
    using True by (auto simp: b' nth_append stmts_of_def split: if_splits)
next
  case False
  then have cur: "bb_statements (cb_current b) \<noteq> []" and i: "i = length (cb_blocks b)"
    using i by (auto simp: b' split: if_splits)
  let ?ss = "bb_statements (cb_current b)"
  have notr: "\<forall>s \<in> set ?ss. \<not> is_transfer (nodes ! s)"
    using inv by (simp add: pass_inv_def blocks_inv_def)
  then have "\<not> is_transfer (nodes ! last ?ss)" using cur by simp
  then have "term_ok nodes (last ?ss) Return"
    by (auto simp: is_transfer_def term_ok_def split: node_kind.splits)
  then show ?thesis
    using cur i inv notr in_set_butlastD [of _ ?ss]
    by (auto simp: b' nth_append raw_block_ok_def pass_inv_def blocks_inv_def)
qed

lemma first_pass_labels_ok:
  assumes inv: "pass_inv nodes (length nodes) b"
    and b': "b' = (if bb_statements (cb_current b) \<noteq> [] then finish_block Return b else b)"
  shows "case label_upto nodes (length nodes) l of
      None \<Rightarrow> hm_get (cb_labels b') l = None
    | Some i \<Rightarrow> \<exists>t < length (cb_blocks b'). hm_get (cb_labels b') l = Some t
         \<and> bb_statements (cb_blocks b' ! t) \<noteq> [] \<and> hd (bb_statements (cb_blocks b' ! t)) = i"
proof -
  have get: "hm_get (cb_labels b') l = hm_get (cb_labels b) l"
    using inv finish_block_labels [of b] by (simp add: b' pass_inv_def blocks_inv_def)
  have st: "t < length (cb_blocks b') \<and> bb_statements (cb_blocks b' ! t) = stmts_of b t"
    if "stmts_of b t \<noteq> []" for t
    using that by (auto simp: b' stmts_of_def nth_append split: if_splits)
  have "case label_upto nodes (length nodes) l of None \<Rightarrow> hm_get (cb_labels b) l = None
      | Some i \<Rightarrow> \<exists>t. hm_get (cb_labels b) l = Some t \<and> stmts_of b t \<noteq> [] \<and> hd (stmts_of b t) = i"
    using inv by (simp add: pass_inv_def labels_inv_def)
  then show ?thesis
    using st by (cases "label_upto nodes (length nodes) l") (auto simp: get)
qed

lemma first_pass_ok: "first_pass_ok nodes (first_pass nodes cfg_builder_new)"
proof (cases "nodes = []")
  case True
  then show ?thesis
    by (simp add: first_pass_def Let_def first_pass_ok_def cfg_builder_new_def empty_block_def
        finish_block_def)
next
  case False
  define b where "b = first_pass_from 0 nodes cfg_builder_new"
  define b' where "b' = first_pass nodes cfg_builder_new"
  have inv: "pass_inv nodes (length nodes) b"
    unfolding b_def by (rule pass_inv_from [OF pass_inv_new]) simp_all
  have conc: "concat (map bb_statements (cb_blocks b)) @ bb_statements (cb_current b) = [0..<length nodes]"
    using inv by (simp add: pass_inv_def blocks_inv_def)
  have ne: "[0..<length nodes] \<noteq> []" using False by simp
  then have "bb_statements (cb_current b) \<noteq> [] \<or> cb_blocks b \<noteq> []"
    unfolding conc [symmetric] by auto
  then have b': "b' = (if bb_statements (cb_current b) \<noteq> [] then finish_block Return b else b)"
    by (auto simp: b'_def first_pass_def Let_def b_def [symmetric])
  have "cb_blocks b' \<noteq> []" and "concat (map bb_statements (cb_blocks b')) = [0..<length nodes]"
    using conc ne by (auto simp: b' simp del: upt_eq_Nil_conv)
  then show ?thesis
    using first_pass_blocks_ok [OF inv False b'] first_pass_labels_ok [OF inv b'] False
    unfolding b'_def [symmetric] first_pass_ok_def by (auto simp: raw_block_ok_def)
qed

section \<open>The second pass\<close>

definition term_targets :: "(string, nat) hmap \<Rightarrow> nat \<Rightarrow> nat \<Rightarrow> terminator \<Rightarrow> nat list" where
  "term_targets labels n i t =
     (let target = (\<lambda>l. case hm_get labels l of Some b \<Rightarrow> [b] | None \<Rightarrow> []) in
      case t of
        Fallthrough \<Rightarrow> (if Suc i < n then [Suc i] else [])
      | TermJump l \<Rightarrow> target l
      | TermBranch x y \<Rightarrow> target x @ target y
      | Return \<Rightarrow> [])"

text \<open>What the second pass keeps of a block list, and the edges it has added up to block \<open>k\<close>.\<close>

definition same_body :: "basic_block \<Rightarrow> basic_block \<Rightarrow> bool" where
  "same_body a b \<longleftrightarrow> bb_id a = bb_id b \<and> bb_statements a = bb_statements b
     \<and> bb_label a = bb_label b \<and> bb_terminator a = bb_terminator b"

definition edges_upto ::
  "(string, nat) hmap \<Rightarrow> basic_block list \<Rightarrow> nat \<Rightarrow> basic_block list \<Rightarrow> bool" where
  "edges_upto labels bs0 k bs \<longleftrightarrow> length bs = length bs0
     \<and> (\<forall>i < length bs. same_body (bs ! i) (bs0 ! i)
          \<and> bb_successors (bs ! i) = (if i < k
               then term_targets labels (length bs0) i (bb_terminator (bs0 ! i)) else [])
          \<and> set (bb_predecessors (bs ! i)) = {p. p < k \<and>
               i \<in> set (term_targets labels (length bs0) p (bb_terminator (bs0 ! p)))})"

definition linked :: "nat \<Rightarrow> nat list \<Rightarrow> basic_block list \<Rightarrow> basic_block list \<Rightarrow> bool" where
  "linked i ts bs bs' \<longleftrightarrow> length bs' = length bs
     \<and> (\<forall>j < length bs. same_body (bs' ! j) (bs ! j)
          \<and> bb_successors (bs' ! j) = bb_successors (bs ! j) @ (if j = i then ts else [])
          \<and> set (bb_predecessors (bs' ! j)) = set (bb_predecessors (bs ! j)) \<union> (if j \<in> set ts then {i} else {}))"

lemma linked_refl: "linked i [] bs bs"
  by (simp add: linked_def same_body_def)

lemma linked_trans: "linked i ts bs bs' \<Longrightarrow> linked i us bs' bs'' \<Longrightarrow> linked i (ts @ us) bs bs''"
  unfolding linked_def same_body_def by auto

lemma linked_one:
  assumes "i < length bs"
  shows "linked i [t] bs (push_pred t i (push_succ i t bs))"
  using assms unfolding linked_def same_body_def push_pred_def push_succ_def
  by (auto simp: nth_list_update)

lemma linked_label:
  assumes "i < length bs"
  shows "linked i (case hm_get labels l of Some b \<Rightarrow> [b] | None \<Rightarrow> []) bs (connect_label labels i i l bs)"
  using linked_one [OF assms] linked_refl by (auto simp: connect_label_def split: option.splits)

lemma linked_block:
  assumes "i < length bs" and "\<And>j. j < length bs \<Longrightarrow> bb_id (bs ! j) = j"
  shows "linked i (term_targets labels (length bs) i (bb_terminator (bs ! i))) bs
           (second_pass_block labels i bs)"
proof (cases "bb_terminator (bs ! i)")
  case Fallthrough
  then show ?thesis
    using assms linked_one [OF assms(1)] linked_refl
    by (simp add: second_pass_block_def term_targets_def)
next
  case (TermJump l)
  then show ?thesis
    using assms linked_label [OF assms(1)]
    by (simp add: second_pass_block_def term_targets_def)
next
  case (TermBranch x y)
  have "length (connect_label labels i i x bs) = length bs"
    using linked_label [OF assms(1), of labels x] by (simp add: linked_def)
  with TermBranch show ?thesis
    using assms linked_trans [OF linked_label [OF assms(1)] linked_label]
    by (simp add: second_pass_block_def term_targets_def)
next
  case Return
  then show ?thesis
    using linked_refl by (simp add: second_pass_block_def term_targets_def)
qed

lemma edges_upto_step:
  assumes ids: "\<And>j. j < length bs0 \<Longrightarrow> bb_id (bs0 ! j) = j"
    and "edges_upto labels bs0 k bs" and "k < length bs0"
  shows "edges_upto labels bs0 (Suc k) (second_pass_block labels k bs)"
proof -
  have len: "length bs = length bs0" and sb: "\<And>j. j < length bs \<Longrightarrow> same_body (bs ! j) (bs0 ! j)"
    using assms(2) by (auto simp: edges_upto_def)
  have id: "\<And>j. j < length bs \<Longrightarrow> bb_id (bs ! j) = j"
    using sb ids by (simp add: same_body_def len)
  have tk: "bb_terminator (bs ! k) = bb_terminator (bs0 ! k)"
    using sb [of k] assms(3) by (simp add: same_body_def len)
  have "linked k (term_targets labels (length bs0) k (bb_terminator (bs0 ! k))) bs
      (second_pass_block labels k bs)"
    using linked_block [of k bs labels] assms(3) id by (simp add: len tk)
  then show ?thesis
    using assms(2) unfolding edges_upto_def linked_def same_body_def
    by (auto simp: less_Suc_eq)
qed

lemma second_pass_edges:
  assumes "\<And>j. j < length bs \<Longrightarrow> bb_id (bs ! j) = j \<and> bb_successors (bs ! j) = [] \<and> bb_predecessors (bs ! j) = []"
  shows "edges_upto labels bs (length bs) (second_pass labels bs)"
proof -
  have "edges_upto labels bs k (fold (second_pass_block labels) [0..<k] bs)" if "k \<le> length bs" for k
    using that
  proof (induction k)
    case 0
    then show ?case using assms by (simp add: edges_upto_def same_body_def)
  next
    case (Suc k)
    then show ?case using edges_upto_step [of bs labels k] assms by simp
  qed
  then show ?thesis by (simp add: second_pass_def)
qed

section \<open>The built graph\<close>

definition build_labels :: "node list \<Rightarrow> (string, nat) hmap" where
  "build_labels nodes = cb_labels (first_pass nodes cfg_builder_new)"

abbreviation raw_blocks :: "node list \<Rightarrow> basic_block list" where
  "raw_blocks nodes \<equiv> cb_blocks (first_pass nodes cfg_builder_new)"

lemma build_edges:
  "edges_upto (build_labels nodes) (raw_blocks nodes) (length (raw_blocks nodes)) (cfg_blocks (cfg_build nodes))"
proof -
  have "bb_id (raw_blocks nodes ! j) = j \<and> bb_successors (raw_blocks nodes ! j) = []
      \<and> bb_predecessors (raw_blocks nodes ! j) = []" if "j < length (raw_blocks nodes)" for j
    using that first_pass_ok [of nodes] by (simp add: first_pass_ok_def)
  then show ?thesis
    using second_pass_edges [of "raw_blocks nodes" "build_labels nodes"]
    by (simp add: cfg_build_def Let_def build_labels_def)
qed

lemma build_length: "length (cfg_blocks (cfg_build nodes)) = length (raw_blocks nodes)"
  using build_edges [of nodes] by (simp add: edges_upto_def)

lemma build_block:
  assumes "i < length (cfg_blocks (cfg_build nodes))"
  shows "bb_id (cfg_blocks (cfg_build nodes) ! i) = i"
    and "bb_statements (cfg_blocks (cfg_build nodes) ! i) = bb_statements (raw_blocks nodes ! i)"
    and "bb_terminator (cfg_blocks (cfg_build nodes) ! i) = bb_terminator (raw_blocks nodes ! i)"
    and "bb_successors (cfg_blocks (cfg_build nodes) ! i) =
       term_targets (build_labels nodes) (length (cfg_blocks (cfg_build nodes))) i
         (bb_terminator (raw_blocks nodes ! i))"
  using assms build_edges [of nodes] first_pass_ok [of nodes] build_length [of nodes]
  by (auto simp: edges_upto_def same_body_def first_pass_ok_def)

lemma build_nonempty: "cfg_blocks (cfg_build nodes) \<noteq> []"
  using first_pass_ok [of nodes] build_length [of nodes]
  by (metis first_pass_ok_def length_0_conv)

lemma build_ids_ok: "ids_ok (cfg_blocks (cfg_build nodes))"
  by (simp add: ids_ok_def build_block)

lemma build_statements: "map bb_statements (cfg_blocks (cfg_build nodes)) = map bb_statements (raw_blocks nodes)"
  by (rule nth_equalityI) (simp_all add: build_length build_block)

lemma build_label_target:
  "case label_upto nodes (length nodes) l of
     None \<Rightarrow> hm_get (build_labels nodes) l = None
   | Some i \<Rightarrow> \<exists>t < length (cfg_blocks (cfg_build nodes)). hm_get (build_labels nodes) l = Some t
        \<and> bb_statements (cfg_blocks (cfg_build nodes) ! t) \<noteq> []
        \<and> hd (bb_statements (cfg_blocks (cfg_build nodes) ! t)) = i"
proof -
  have "case label_upto nodes (length nodes) l of
      None \<Rightarrow> hm_get (build_labels nodes) l = None
    | Some i \<Rightarrow> \<exists>t < length (raw_blocks nodes). hm_get (build_labels nodes) l = Some t
        \<and> bb_statements (raw_blocks nodes ! t) \<noteq> [] \<and> hd (bb_statements (raw_blocks nodes ! t)) = i"
    using first_pass_ok [of nodes] unfolding first_pass_ok_def build_labels_def by blast
  then show ?thesis
    by (cases "label_upto nodes (length nodes) l") (auto simp: build_length build_block(2))
qed

lemma build_label_range:
  assumes "hm_get (build_labels nodes) l = Some t"
  shows "t < length (cfg_blocks (cfg_build nodes))"
  using assms build_label_target [of nodes l] by (auto split: option.splits)

lemma build_wf_blocks: "wf_blocks (cfg_blocks (cfg_build nodes))"
proof -
  have "s < length (cfg_blocks (cfg_build nodes))"
    if "i < length (cfg_blocks (cfg_build nodes))" and "s \<in> set (bb_successors (cfg_blocks (cfg_build nodes) ! i))"
    for i s
    using that build_label_range
    by (auto simp: build_block term_targets_def Let_def split: terminator.splits option.splits if_splits)
  then show ?thesis
    unfolding wf_blocks_def by (metis in_set_conv_nth)
qed

lemma build_exits: "set (cfg_exits (cfg_build nodes)) = {a. exit_at (cfg_blocks (cfg_build nodes)) a}"
proof -
  let ?bs = "cfg_blocks (cfg_build nodes)"
  have "set (cfg_exits (cfg_build nodes)) = bb_id ` {b \<in> set ?bs. is_exit_block b}"
    by (simp add: cfg_build_def Let_def)
  also have "\<dots> = {a. exit_at ?bs a}"
  proof (rule set_eqI)
    fix a
    show "a \<in> bb_id ` {b \<in> set ?bs. is_exit_block b} \<longleftrightarrow> a \<in> {a. exit_at ?bs a}"
      using ids_ok_mem [OF build_ids_ok, of _ nodes] build_block(1) [of a nodes]
      by (auto simp: exit_at_def image_iff) (metis nth_mem)
  qed
  finally show ?thesis .
qed

lemma build_entry [simp]: "cfg_entry (cfg_build nodes) = 0"
  by (simp add: cfg_build_def Let_def)

section \<open>Blocks are slices\<close>

lemma append_eq_upt:
  assumes "xs @ ys = [m..<n]"
  shows "xs = [m..<m + length xs] \<and> ys = [m + length xs..<n]"
proof -
  have "length xs \<le> n - m" using arg_cong [OF assms, of length] by simp
  moreover have "xs = take (length xs) [m..<n]" and "ys = drop (length xs) [m..<n]"
    using assms [symmetric] by simp_all
  ultimately show ?thesis
    by (cases "m \<le> n") (simp_all add: take_upt drop_upt)
qed

lemma concat_upt_slice:
  "concat ss = [m..<n] \<Longrightarrow> a < length ss \<Longrightarrow> \<exists>lo hi. ss ! a = [lo..<hi] \<and> m \<le> lo \<and> (lo < hi \<longrightarrow> hi \<le> n)"
proof (induction ss arbitrary: m a)
  case Nil
  then show ?case by simp
next
  case (Cons s ss)
  then have s: "s = [m..<m + length s]" and ss: "concat ss = [m + length s..<n]"
    using append_eq_upt by force+
  have "length s \<le> n - m" using arg_cong [OF Cons.prems(1), of length] by simp
  then have "m + length s \<le> n \<or> s = []" by (cases "length s = 0") (simp, arith)
  then have "s = [m..<m + length s] \<and> m \<le> m \<and> (m < m + length s \<longrightarrow> m + length s \<le> n)"
    using s by auto
  moreover have "\<exists>lo hi. ss ! a' = [lo..<hi] \<and> m \<le> lo \<and> (lo < hi \<longrightarrow> hi \<le> n)" if "a' < length ss" for a'
    using Cons.IH [OF ss that] by (meson le_add1 le_trans)
  ultimately show ?case
    using Cons.prems(2) less_Suc_eq_0_disj [of a "length ss"] by (metis length_Cons nth_Cons_0 nth_Cons_Suc)
qed

lemma concat_upt_next:
  "concat ss = [m..<n] \<Longrightarrow> Suc a < length ss \<Longrightarrow> ss ! a \<noteq> [] \<Longrightarrow> ss ! Suc a \<noteq> [] \<Longrightarrow>
     hd (ss ! Suc a) = Suc (last (ss ! a))"
proof (induction ss arbitrary: m a)
  case Nil
  then show ?case by simp
next
  case (Cons s ss)
  then have s: "s = [m..<m + length s]" and ss: "concat ss = [m + length s..<n]"
    using append_eq_upt by force+
  show ?case
  proof (cases a)
    case 0
    then obtain t ts where t: "ss = t # ts" and "t \<noteq> []" using Cons.prems by (cases ss) auto
    then have "hd t = m + length s"
      using ss append_eq_upt [of t "concat ts"] by (metis concat.simps(2) hd_append2 hd_upt length_greater_0_conv less_add_same_cancel1)
    moreover have "last s = m + length s - 1" and "0 < length s"
      using s Cons.prems(3) 0 by (metis last_upt less_add_same_cancel1 length_greater_0_conv nth_Cons_0, simp)
    ultimately show ?thesis using 0 t by simp
  next
    case (Suc a')
    then show ?thesis using Cons.IH [OF ss] Cons.prems by simp
  qed
qed

lemma concat_mem_ex: "x \<in> set (concat ss) \<Longrightarrow> \<exists>a < length ss. \<exists>k < length (ss ! a). ss ! a ! k = x"
  by (metis UN_E in_set_conv_nth set_concat)

section \<open>Edges are the transfers of control\<close>

lemma node_next_seq:
  "\<not> is_transfer (nodes ! i) \<Longrightarrow> node_next nodes i j \<longleftrightarrow> i < length nodes \<and> j = Suc i \<and> j < length nodes"
  by (auto simp: is_transfer_def node_next_def split: node_kind.splits)

lemma zip_tl_upt: "set (zip [lo..<hi] [Suc lo..<hi]) = {(x, Suc x) | x. lo \<le> x \<and> Suc x < hi}"
proof -
  have "zip [lo..<hi] [Suc lo..<hi] = map (\<lambda>x. (x, Suc x)) [lo..<hi - 1]"
    by (rule nth_equalityI) auto
  then show ?thesis by (auto simp: less_diff_conv)
qed

lemma butlast_upt: "butlast [lo..<hi] = [lo..<hi - 1]"
  by (cases hi) simp_all

lemma last_concat: "xs \<noteq> [] \<Longrightarrow> last xs \<noteq> [] \<Longrightarrow> last (concat xs) = last (last xs)"
  by (induction xs rule: rev_induct) auto

abbreviation built_stmts :: "node list \<Rightarrow> nat \<Rightarrow> nat list" where
  "built_stmts nodes a \<equiv> bb_statements (cfg_blocks (cfg_build nodes) ! a)"

abbreviation built_edge :: "node list \<Rightarrow> nat \<Rightarrow> nat \<Rightarrow> bool" where
  "built_edge nodes \<equiv> edge (cfg_blocks (cfg_build nodes))"

lemma built_concat: "concat (map bb_statements (cfg_blocks (cfg_build nodes))) = [0..<length nodes]"
  unfolding build_statements using first_pass_ok [of nodes] by (simp add: first_pass_ok_def)

lemma built_raw_ok:
  assumes "nodes \<noteq> []" and "a < length (cfg_blocks (cfg_build nodes))"
  shows "built_stmts nodes a \<noteq> []"
    and "s \<in> set (butlast (built_stmts nodes a)) \<Longrightarrow> \<not> is_transfer (nodes ! s)"
    and "term_ok nodes (last (built_stmts nodes a)) (bb_terminator (raw_blocks nodes ! a))"
    and "bb_terminator (raw_blocks nodes ! a) = Fallthrough \<Longrightarrow> Suc a < length (cfg_blocks (cfg_build nodes))"
    and "bb_terminator (raw_blocks nodes ! a) = Return \<Longrightarrow> Suc a = length (cfg_blocks (cfg_build nodes))"
  using assms first_pass_ok [of nodes]
  by (auto simp: first_pass_ok_def raw_block_ok_def build_length build_block(2))

lemma built_next_block:
  assumes "nodes \<noteq> []" and "Suc a < length (cfg_blocks (cfg_build nodes))"
  shows "hd (built_stmts nodes (Suc a)) = Suc (last (built_stmts nodes a))"
  using concat_upt_next [OF built_concat, of a nodes] built_raw_ok(1) [OF assms(1)] assms(2) by simp

lemma built_mem: "a < length (cfg_blocks (cfg_build nodes)) \<Longrightarrow> x \<in> set (built_stmts nodes a) \<Longrightarrow> x < length nodes"
  using arg_cong [OF built_concat [of nodes], of set] by (auto simp: set_eq_iff)

lemma built_edge_next:
  assumes ne: "nodes \<noteq> []" and e: "built_edge nodes a b"
  shows "node_next nodes (last (built_stmts nodes a)) (hd (built_stmts nodes b))"
proof -
  let ?bs = "cfg_blocks (cfg_build nodes)" and ?l = "last (built_stmts nodes a)"
  have a: "a < length ?bs" and b: "b \<in> set (bb_successors (?bs ! a))"
    using e by (auto simp: edge_def)
  have l: "?l < length nodes" using built_mem [OF a] built_raw_ok(1) [OF ne a] by simp
  have t: "term_ok nodes ?l (bb_terminator (raw_blocks nodes ! a))"
    by (rule built_raw_ok(3) [OF ne a])
  have target: "label_upto nodes (length nodes) l = Some (hd (built_stmts nodes b))"
    if "hm_get (build_labels nodes) l = Some b" for l
    using that build_label_target [of nodes l] by (auto split: option.splits)
  have fall: "b = Suc a \<and> b < length ?bs" if "bb_terminator (raw_blocks nodes ! a) = Fallthrough"
    using that b by (auto simp: build_block(4) [OF a] term_targets_def split: if_splits)
  have "hd (built_stmts nodes b) = Suc ?l \<and> hd (built_stmts nodes b) < length nodes"
    if "bb_terminator (raw_blocks nodes ! a) = Fallthrough"
    using fall [OF that] built_next_block [OF ne, of a] built_mem [of b nodes "hd (built_stmts nodes b)"]
      built_raw_ok(1) [OF ne, of b] by (metis list.set_sel(1))
  then show ?thesis
    using t l b target
    by (auto simp: node_next_def term_ok_def build_block(4) [OF a] term_targets_def
        split: node_kind.splits option.splits)
qed

lemma built_next_last:
  assumes ne: "nodes \<noteq> []" and a: "a < length (cfg_blocks (cfg_build nodes))"
    and nx: "node_next nodes (last (built_stmts nodes a)) j"
  shows "\<exists>b. built_edge nodes a b \<and> j = hd (built_stmts nodes b)"
proof -
  let ?bs = "cfg_blocks (cfg_build nodes)" and ?l = "last (built_stmts nodes a)"
  let ?t = "bb_terminator (raw_blocks nodes ! a)"
  have t: "term_ok nodes ?l ?t"
    by (rule built_raw_ok(3) [OF ne a])
  have target: "\<exists>b. hm_get (build_labels nodes) l = Some b \<and> j = hd (built_stmts nodes b)"
    if "label_upto nodes (length nodes) l = Some j" for l
    using that build_label_target [of nodes l] by auto
  have last: "Suc ?l = length nodes" if "Suc a = length ?bs"
  proof -
    have "?bs ! a = last ?bs" using that by (metis diff_Suc_1 last_conv_nth build_nonempty)
    then have "last (concat (map bb_statements ?bs)) = ?l"
      using built_raw_ok(1) [OF ne a] build_nonempty [of nodes] by (simp add: last_concat last_map)
    then have "length nodes - 1 = ?l" using ne by (simp add: built_concat)
    then show ?thesis using ne by (cases nodes) auto
  qed
  consider (jump) l where "?t = TermJump l" "label_upto nodes (length nodes) l = Some j"
    | (branch) x y where "?t = TermBranch x y"
        "label_upto nodes (length nodes) x = Some j \<or> label_upto nodes (length nodes) y = Some j"
    | (seq) "?t = Fallthrough \<or> ?t = Return" "j = Suc ?l" "j < length nodes"
    using t nx by (auto simp: node_next_def term_ok_def split: node_kind.splits)
  then show ?thesis
  proof cases
    case jump
    then show ?thesis using target [of l] a by (auto simp: edge_def build_block(4) term_targets_def)
  next
    case branch
    then show ?thesis using target [of x] target [of y] a
      by (fastforce simp: edge_def build_block(4) term_targets_def split: option.splits)
  next
    case seq
    then have "?t = Fallthrough" using last built_raw_ok(5) [OF ne a] by auto
    then have "Suc a < length ?bs" and "built_edge nodes a (Suc a)"
      using built_raw_ok(4) [OF ne a] a by (auto simp: edge_def build_block(4) term_targets_def)
    then show ?thesis using seq(2) built_next_block [OF ne, of a] by auto
  qed
qed

lemma built_slice:
  assumes "a < length (cfg_blocks (cfg_build nodes))"
  obtains lo hi where "built_stmts nodes a = [lo..<hi]" and "hi \<le> length nodes \<or> hi \<le> lo"
  using concat_upt_slice [OF built_concat, of a nodes] assms by (metis length_map not_less nth_map)

lemma built_inner_next:
  assumes ne: "nodes \<noteq> []" and a: "a < length (cfg_blocks (cfg_build nodes))"
    and p: "(i, j) \<in> set (zip (built_stmts nodes a) (tl (built_stmts nodes a)))"
  shows "node_next nodes i j"
proof -
  obtain lo hi where sl: "built_stmts nodes a = [lo..<hi]" "hi \<le> length nodes \<or> hi \<le> lo"
    using built_slice [OF a] .
  with p have ij: "j = Suc i" "lo \<le> i" "Suc i < hi" by (auto simp: zip_tl_upt)
  then have "i \<in> set (butlast (built_stmts nodes a))"
    by (auto simp: sl(1) butlast_upt)
  from built_raw_ok(2) [OF ne a this] show ?thesis
    using ij sl(2) by (simp add: node_next_seq)
qed

lemma built_next_inner:
  assumes ne: "nodes \<noteq> []" and nx: "node_next nodes i j"
    and nl: "\<And>a. a < length (cfg_blocks (cfg_build nodes)) \<Longrightarrow> i \<noteq> last (built_stmts nodes a)"
  shows "\<exists>b \<in> set (cfg_blocks (cfg_build nodes)). (i, j) \<in> set (zip (bb_statements b) (tl (bb_statements b)))"
proof -
  have "i < length nodes" using nx by (simp add: node_next_def)
  then obtain a where a: "a < length (cfg_blocks (cfg_build nodes))" and i: "i \<in> set (built_stmts nodes a)"
    using concat_mem_ex [of i "map bb_statements (cfg_blocks (cfg_build nodes))"]
    unfolding built_concat by (metis atLeastLessThan_iff length_map nth_map nth_mem set_upt zero_le)
  obtain lo hi where sl: "built_stmts nodes a = [lo..<hi]" "hi \<le> length nodes \<or> hi \<le> lo"
    using built_slice [OF a] .
  have "i \<noteq> hi - 1" using nl [OF a] i by (auto simp: sl(1))
  then have r: "lo \<le> i" "Suc i < hi" using i by (auto simp: sl(1))
  then have "i \<in> set (butlast (built_stmts nodes a))" by (auto simp: sl(1) butlast_upt)
  from built_raw_ok(2) [OF ne a this] nx have "j = Suc i" by (simp add: node_next_seq)
  then have "(i, j) \<in> set (zip (built_stmts nodes a) (tl (built_stmts nodes a)))"
    using r by (auto simp: sl(1) zip_tl_upt)
  then show ?thesis using a nth_mem by blast
qed

section \<open>Properties\<close>

text \<open>
  The blocks the builder makes partition the statement list in order (every statement
  index occurs exactly once, blocks are contiguous), blocks are numbered by position, every
  successor is a block of the graph, and the predecessor lists mirror the successor lists.
\<close>

theorem cfg_build_partition:
  "let bs = cfg_blocks (cfg_build nodes) in
     concat (map bb_statements bs) = [0..<length nodes] \<and> bs \<noteq> []
   \<and> map bb_id bs = [0..<length bs]
   \<and> (\<Union>b \<in> set bs. set (bb_successors b)) \<subseteq> {..<length bs}
   \<and> {(i, j). i < length bs \<and> j \<in> set (bb_successors (bs ! i))}
     = {(i, j). j < length bs \<and> i \<in> set (bb_predecessors (bs ! j))}"
proof -
  let ?bs = "cfg_blocks (cfg_build nodes)"
  have stmts: "concat (map bb_statements ?bs) = [0..<length nodes]"
    unfolding build_statements using first_pass_ok [of nodes] by (simp add: first_pass_ok_def)
  have ids: "map bb_id ?bs = [0..<length ?bs]"
    by (rule nth_equalityI) (simp_all add: build_block)
  have range: "(\<Union>b \<in> set ?bs. set (bb_successors b)) \<subseteq> {..<length ?bs}"
    using build_wf_blocks [of nodes] by (auto simp: wf_blocks_def)
  have mirror: "i < length ?bs \<and> j \<in> set (bb_successors (?bs ! i))
      \<longleftrightarrow> j < length ?bs \<and> i \<in> set (bb_predecessors (?bs ! j))" for i j
  proof (cases "j < length ?bs")
    case True
    then show ?thesis
      using build_edges [of nodes] by (auto simp: edges_upto_def)
  next
    case False
    then show ?thesis using range by (meson UN_I lessThan_iff nth_mem subsetD)
  qed
  show ?thesis
    unfolding Let_def using stmts ids range mirror build_nonempty [of nodes] by auto
qed

text \<open>
  C27: on every body, \<open>all_paths\<close> returns (it neither panics nor loops), and what it returns
  is exactly the set of loop-free runs of the graph from the entry block to the first exit
  block on the run.
\<close>

theorem all_paths_exact:
  "\<exists>ps. all_paths (cfg_build nodes) = Some ps
      \<and> set ps = {p. run_to_exit (cfg_blocks (cfg_build nodes)) 0 p}"
proof -
  have "\<exists>ps. all_paths (cfg_build nodes) = Some ps"
    using all_paths_total [of "cfg_build nodes"] build_wf_blocks build_nonempty by simp
  then show ?thesis using all_paths_run_to_exit [of "cfg_build nodes"] by auto
qed

text \<open>
  \<open>all_paths_terminate\<close> accepts a body exactly when every block that the graph can
  reach from the entry can itself reach an exit block.
\<close>

theorem all_paths_terminate_exact:
  "all_paths_terminate (cfg_build nodes) \<longleftrightarrow>
     {b. (edge (cfg_blocks (cfg_build nodes)))\<^sup>*\<^sup>* 0 b}
       \<subseteq> {b. \<exists>x. exit_at (cfg_blocks (cfg_build nodes)) x
             \<and> (edge (cfg_blocks (cfg_build nodes)))\<^sup>*\<^sup>* b x}"
  using all_paths_terminate_iff [OF build_ids_ok build_exits, of nodes] by auto

text \<open>
  C16: the graph represents the control flow of the statements exactly. Control can pass from
  statement \<open>i\<close> to statement \<open>j\<close> (the next statement, or the last definition of the label a
  \<^verbatim>\<open>JUMP\<close> or \<^verbatim>\<open>BRANCH\<close> names) exactly when \<open>i\<close> and \<open>j\<close> are neighbours in a block or an edge
  leads from the block that ends with \<open>i\<close> to the block that starts with \<open>j\<close>.
\<close>

theorem cfg_edges_exact:
  "{(i, j). node_next nodes i j} =
     (\<Union>b \<in> set (cfg_blocks (cfg_build nodes)). set (zip (bb_statements b) (tl (bb_statements b))))
   \<union> {(last (built_stmts nodes a), hd (built_stmts nodes b)) | a b. built_edge nodes a b}"
  (is "?L = ?I \<union> ?E")
proof (cases "nodes = []")
  case True
  then show ?thesis
    by (simp add: node_next_def cfg_build_def first_pass_def cfg_builder_new_def empty_block_def
        finish_block_def second_pass_def second_pass_block_def edge_def)
next
  case ne: False
  have step: "(i, j) \<in> ?I \<union> ?E" if nx: "node_next nodes i j" for i j
  proof (cases "\<exists>a < length (cfg_blocks (cfg_build nodes)). i = last (built_stmts nodes a)")
    case True
    then show ?thesis using nx built_next_last [OF ne] by blast
  next
    case False
    then show ?thesis using nx built_next_inner [OF ne nx] by blast
  qed
  moreover have "?I \<subseteq> ?L"
    using built_inner_next [OF ne] by (auto simp: in_set_conv_nth [of _ "cfg_blocks (cfg_build nodes)"])
  moreover have "?E \<subseteq> ?L"
    using built_edge_next [OF ne] by auto
  moreover have "?L \<subseteq> ?I \<union> ?E"
    by (rule subrelI, rule step) simp
  ultimately show ?thesis by (intro subset_antisym Un_least)
qed

end
