(* ===== verification/Sigil_Ownership.thy ===== *)
theory Sigil_Ownership
  imports Sigil_Cfg_Build Sigil_Context
begin

text \<open>
  Ownership validation on the control flow graph, after \<^verbatim>\<open>validate_ownership_cfg\<close> in
  \<^verbatim>\<open>compiler/src/semantic/mod.rs\<close>: double free, use after free, loads of uninitialized
  handles, leaks and unwritten outputs, checked along every enumerated path. Each error is
  characterised by a condition on the statements of a path that does not mention the state
  the analyzer keeps.
\<close>

section \<open>Reporting once\<close>

type_synonym reporter = "analyzer \<times> (string \<times> nat) hset"

definition report_once :: "string \<Rightarrow> error_kind \<Rightarrow> nat \<Rightarrow> string \<Rightarrow> reporter \<Rightarrow> reporter" where
  "report_once key kind line context r =
     (if (key, line) \<in> set (snd r) then r
      else (push_error kind line (Some context) (fst r), hs_insert (key, line) (snd r)))"

section \<open>Expressions\<close>

fun check_uninitialized_load :: "expr \<Rightarrow> string hset \<Rightarrow> nat \<Rightarrow> reporter \<Rightarrow> reporter" where
  "check_uninitialized_load (Load source _ _) stored line r =
     check_uninitialized_load source stored line (case source of
        Var name \<Rightarrow> (if name \<notin> set stored
           then report_once (''UninitializedLoad:'' @ name) (UninitializedLoad name) line
                  ''LOAD without prior STORE on this path'' r
           else r)
      | _ \<Rightarrow> r)"
| "check_uninitialized_load _ stored line r = r"

fun check_expr_uses_freed_dedup :: "expr \<Rightarrow> (string, nat) hmap \<Rightarrow> nat \<Rightarrow> reporter \<Rightarrow> reporter" where
  "check_expr_uses_freed_dedup (Var name) freed line r = (case hm_get freed name of
     Some freed_line \<Rightarrow> report_once (''UseAfterFree:'' @ name) (UseAfterFree name freed_line) line
        ''use of handle freed on this path'' r
   | None \<Rightarrow> r)"
| "check_expr_uses_freed_dedup (Load source _ _) freed line r = check_expr_uses_freed_dedup source freed line r"
| "check_expr_uses_freed_dedup (Field base _) freed line r = check_expr_uses_freed_dedup base freed line r"
| "check_expr_uses_freed_dedup _ freed line r = r"

section \<open>One statement on a path\<close>

record path_state =
  ps_report :: reporter
  ps_allocations :: "(string, nat) hmap"
  ps_freed :: "(string, nat) hmap"
  ps_stored :: "string hset"
  ps_alloc :: "string hset"
  ps_written :: "string hset"

definition own_assignment :: "nat \<Rightarrow> string \<Rightarrow> expr \<Rightarrow> path_state \<Rightarrow> path_state" where
  "own_assignment line target e ps =
     (let r1 = check_expr_uses_freed_dedup e (ps_freed ps) line (ps_report ps);
          r2 = check_uninitialized_load e (ps_stored ps) line r1;
          ps1 = ps\<lparr>ps_report := r2, ps_freed := hm_remove target (ps_freed ps)\<rparr>
      in if is_alloc e
         then ps1\<lparr>ps_alloc := hs_insert target (ps_alloc ps),
                  ps_allocations := hm_insert target line (ps_allocations ps)\<rparr>
         else ps1)"

definition own_free :: "nat \<Rightarrow> string \<Rightarrow> path_state \<Rightarrow> path_state" where
  "own_free line name ps = (case hm_get (ps_freed ps) name of
     Some first_line \<Rightarrow> ps\<lparr>ps_report := report_once (''DoubleFree:'' @ name) (DoubleFree name first_line) line
        ''double FREE on same execution path'' (ps_report ps)\<rparr>
   | None \<Rightarrow> ps\<lparr>ps_freed := hm_insert name line (ps_freed ps)\<rparr>)"

definition write_output :: "analysis_context \<Rightarrow> string \<Rightarrow> path_state \<Rightarrow> path_state" where
  "write_output ctx name ps = (if hm_contains_key (ac_outputs ctx) name
     then ps\<lparr>ps_written := hs_insert name (ps_written ps)\<rparr> else ps)"

definition own_store :: "analysis_context \<Rightarrow> nat \<Rightarrow> string \<Rightarrow> path_state \<Rightarrow> path_state" where
  "own_store ctx line target ps =
     (let r = (case hm_get (ps_freed ps) target of
          Some freed_line \<Rightarrow> report_once (''UseAfterFree:'' @ target) (UseAfterFree target freed_line) line
             ''STORE to handle freed on this path'' (ps_report ps)
        | None \<Rightarrow> ps_report ps)
      in write_output ctx target (ps\<lparr>ps_report := r, ps_stored := hs_insert target (ps_stored ps)\<rparr>))"

definition write_args :: "analysis_context \<Rightarrow> expr list \<Rightarrow> path_state \<Rightarrow> path_state" where
  "write_args ctx args = fold (\<lambda>arg ps. case arg of Var name \<Rightarrow> write_output ctx name ps | _ \<Rightarrow> ps) args"

definition own_node :: "analysis_context \<Rightarrow> node \<Rightarrow> path_state \<Rightarrow> path_state" where
  "own_node ctx n ps = (case node_kind_of n of
     Assignment target e \<Rightarrow>
       (let ps1 = own_assignment (node_line n) target e ps
        in case e of Call _ args \<Rightarrow> write_args ctx args ps1 | _ \<Rightarrow> ps1)
   | Free name \<Rightarrow> own_free (node_line n) name ps
   | Store target _ _ _ \<Rightarrow> own_store ctx (node_line n) target ps
   | Set target _ \<Rightarrow> write_output ctx target ps
   | CallNode _ _ args outputs \<Rightarrow> fold (write_output ctx) outputs (write_args ctx args ps)
   | _ \<Rightarrow> ps)"

section \<open>One path, then all paths\<close>

record own_state =
  os_report :: reporter
  os_allocations :: "(string, nat) hmap"
  os_not_freed :: "string hset"
  os_unwritten :: "string hset"

definition path_nodes :: "cfg \<Rightarrow> node list \<Rightarrow> nat list \<Rightarrow> node list" where
  "path_nodes g flat path =
     concat (map (\<lambda>bid. map (\<lambda>i. flat ! i) (filter (\<lambda>i. i < length flat) (bb_statements (cfg_blocks g ! bid))))
       (filter (\<lambda>bid. bid < length (cfg_blocks g)) path))"

definition path_start :: "analysis_context \<Rightarrow> own_state \<Rightarrow> path_state" where
  "path_start ctx os = \<lparr>ps_report = os_report os, ps_allocations = os_allocations os, ps_freed = [],
     ps_stored = fold hs_insert (hm_keys (ac_inputs ctx)) [], ps_alloc = [], ps_written = []\<rparr>"

definition own_path :: "analysis_context \<Rightarrow> node list \<Rightarrow> own_state \<Rightarrow> own_state" where
  "own_path ctx ns os =
     (let ps = fold (own_node ctx) ns (path_start ctx os);
          not_freed = fold (\<lambda>a s. if hm_contains_key (ps_freed ps) a then s else hs_insert a s)
                        (ps_alloc ps) (os_not_freed os);
          unwritten = (if has_guarantee ctx WritesOutput
             then fold (\<lambda>out s. if out \<in> set (ps_written ps) then s else hs_insert out s)
                    (hm_keys (ac_outputs ctx)) (os_unwritten os)
             else os_unwritten os)
      in \<lparr>os_report = ps_report ps, os_allocations = ps_allocations ps,
          os_not_freed = not_freed, os_unwritten = unwritten\<rparr>)"

definition report_leak :: "own_state \<Rightarrow> string \<Rightarrow> reporter \<Rightarrow> reporter" where
  "report_leak os var r = (case hm_get (os_allocations os) var of
     Some line \<Rightarrow> report_once (''MemoryLeak:'' @ var) (MemoryLeak var) line
        ''allocation not freed on all execution paths'' r
   | None \<Rightarrow> r)"

text \<open>The \<^verbatim>\<open>Debug\<close> form of a list of identifiers, which need no escapes.\<close>

definition debug_strings :: "string list \<Rightarrow> string" where
  "debug_strings xs = ''['' @ concat (case map (\<lambda>x. quote_char # x @ [quote_char]) xs of
     [] \<Rightarrow> [] | y # ys \<Rightarrow> y # map (\<lambda>z. '', '' @ z) ys) @ '']''"

definition report_unwritten :: "analysis_context \<Rightarrow> own_state \<Rightarrow> reporter \<Rightarrow> reporter" where
  "report_unwritten ctx os r =
     (if has_guarantee ctx WritesOutput \<and> os_unwritten os \<noteq> []
      then report_once (''OutputNotWritten:'' @ debug_strings (os_unwritten os)) (OutputNotWritten (os_unwritten os)) 0
             ''output not written on all execution paths'' r
      else r)"

definition validate_ownership_cfg :: "node list \<Rightarrow> analysis_context \<Rightarrow> analyzer \<Rightarrow> analyzer option" where
  "validate_ownership_cfg nodes ctx an =
     (let flat = flatten_scopes nodes; g = cfg_build flat in
      case all_paths g of
        None \<Rightarrow> None
      | Some paths \<Rightarrow>
          (let os = fold (\<lambda>p. own_path ctx (path_nodes g flat p)) paths
                      \<lparr>os_report = (an, []), os_allocations = [], os_not_freed = [], os_unwritten = []\<rparr>;
               r = fold (report_leak os) (os_not_freed os) (os_report os)
           in Some (fst (report_unwritten ctx os r))))"

section \<open>What happens on a path\<close>

text \<open>
  \<open>freed_by ns x\<close>: \<open>x\<close> has been freed in \<open>ns\<close> and not assigned since. The
  statements are taken in execution order.
\<close>

definition assigns :: "string \<Rightarrow> node \<Rightarrow> bool" where
  "assigns x n \<longleftrightarrow> (\<exists>e. node_kind_of n = Assignment x e)"

definition frees :: "string \<Rightarrow> node \<Rightarrow> bool" where
  "frees x n \<longleftrightarrow> node_kind_of n = Free x"

definition stores :: "string \<Rightarrow> node \<Rightarrow> bool" where
  "stores x n \<longleftrightarrow> (\<exists>v sz off. node_kind_of n = Store x v sz off)"

definition allocs :: "string \<Rightarrow> node \<Rightarrow> bool" where
  "allocs x n \<longleftrightarrow> (\<exists>sz t sh. node_kind_of n = Assignment x (Alloc sz t sh))"

definition freed_by :: "node list \<Rightarrow> string \<Rightarrow> bool" where
  "freed_by ns x \<longleftrightarrow> (\<exists>us n vs. ns = us @ n # vs \<and> frees x n \<and> (\<forall>m \<in> set vs. \<not> assigns x m))"

text \<open>The variable an expression reads through loads and fields, and the one it loads from.\<close>

fun root_var :: "expr \<Rightarrow> string option" where
  "root_var (Var x) = Some x"
| "root_var (Load source _ _) = root_var source"
| "root_var (Field base _) = root_var base"
| "root_var _ = None"

fun loaded_var :: "expr \<Rightarrow> string option" where
  "loaded_var (Load source _ _) = (case source of Var x \<Rightarrow> Some x | _ \<Rightarrow> loaded_var source)"
| "loaded_var _ = None"

definition uses :: "string \<Rightarrow> node \<Rightarrow> bool" where
  "uses x n \<longleftrightarrow> stores x n \<or> (\<exists>y e. node_kind_of n = Assignment y e \<and> root_var e = Some x)"

definition loads :: "string \<Rightarrow> node \<Rightarrow> bool" where
  "loads x n \<longleftrightarrow> (\<exists>y e. node_kind_of n = Assignment y e \<and> loaded_var e = Some x)"

definition arg_vars :: "expr list \<Rightarrow> string set" where
  "arg_vars args = {x. Var x \<in> set args}"

definition writes :: "string \<Rightarrow> node \<Rightarrow> bool" where
  "writes x n \<longleftrightarrow> stores x n \<or> (\<exists>v. node_kind_of n = Set x v)
     \<or> (\<exists>y f args. node_kind_of n = Assignment y (Call f args) \<and> x \<in> arg_vars args)
     \<or> (\<exists>t f args outs. node_kind_of n = CallNode t f args outs \<and> (x \<in> arg_vars args \<or> x \<in> set outs))"

definition double_free :: "node list \<Rightarrow> string \<Rightarrow> bool" where
  "double_free ns x \<longleftrightarrow> (\<exists>us n vs. ns = us @ n # vs \<and> frees x n \<and> freed_by us x)"

definition use_after_free :: "node list \<Rightarrow> string \<Rightarrow> bool" where
  "use_after_free ns x \<longleftrightarrow> (\<exists>us n vs. ns = us @ n # vs \<and> uses x n \<and> freed_by us x)"

definition uninitialized_load :: "string set \<Rightarrow> node list \<Rightarrow> string \<Rightarrow> bool" where
  "uninitialized_load inputs ns x \<longleftrightarrow> x \<notin> inputs
     \<and> (\<exists>us n vs. ns = us @ n # vs \<and> loads x n \<and> (\<forall>m \<in> set us. \<not> stores x m))"

definition leaks :: "node list \<Rightarrow> string \<Rightarrow> bool" where
  "leaks ns x \<longleftrightarrow> (\<exists>n \<in> set ns. allocs x n) \<and> \<not> freed_by ns x"

section \<open>Along one path\<close>

lemma snoc_split:
  "(\<exists>us m vs. ns @ [n] = us @ m # vs \<and> P us m) \<longleftrightarrow> (\<exists>us m vs. ns = us @ m # vs \<and> P us m) \<or> P ns n"
proof
  assume "\<exists>us m vs. ns @ [n] = us @ m # vs \<and> P us m"
  then obtain us m vs where e: "ns @ [n] = us @ m # vs" and p: "P us m" by blast
  show "(\<exists>us m vs. ns = us @ m # vs \<and> P us m) \<or> P ns n"
  proof (cases vs rule: rev_cases)
    case Nil
    then show ?thesis using e p by simp
  next
    case (snoc vs' v)
    then show ?thesis using e p by auto
  qed
next
  assume "(\<exists>us m vs. ns = us @ m # vs \<and> P us m) \<or> P ns n"
  then show "\<exists>us m vs. ns @ [n] = us @ m # vs \<and> P us m"
  proof
    assume "\<exists>us m vs. ns = us @ m # vs \<and> P us m"
    then obtain us m vs where "ns = us @ m # vs" "P us m" by blast
    then show ?thesis by (intro exI [of _ us] exI [of _ m] exI [of _ "vs @ [n]"]) simp
  next
    assume "P ns n"
    then show ?thesis by (intro exI [of _ ns] exI [of _ n] exI [of _ "[]"]) simp
  qed
qed

lemma freed_by_snoc: "freed_by (ns @ [n]) x \<longleftrightarrow> frees x n \<or> freed_by ns x \<and> \<not> assigns x n"
proof
  assume "freed_by (ns @ [n]) x"
  then obtain us m vs where e: "ns @ [n] = us @ m # vs" and p: "frees x m" "\<forall>m \<in> set vs. \<not> assigns x m"
    unfolding freed_by_def by blast
  show "frees x n \<or> freed_by ns x \<and> \<not> assigns x n"
    by (cases vs rule: rev_cases) (use e p in \<open>auto simp: freed_by_def\<close>)
next
  assume "frees x n \<or> freed_by ns x \<and> \<not> assigns x n"
  then show "freed_by (ns @ [n]) x"
  proof
    assume "frees x n"
    then show ?thesis unfolding freed_by_def by (intro exI [of _ ns] exI [of _ n] exI [of _ "[]"]) simp
  next
    assume f: "freed_by ns x \<and> \<not> assigns x n"
    then obtain us m vs where "ns = us @ m # vs" "frees x m" "\<forall>m \<in> set vs. \<not> assigns x m"
      unfolding freed_by_def by blast
    then show ?thesis
      unfolding freed_by_def using f by (intro exI [of _ us] exI [of _ m] exI [of _ "vs @ [n]"]) auto
  qed
qed

lemma path_events_snoc:
  "double_free (ns @ [n]) x \<longleftrightarrow> double_free ns x \<or> frees x n \<and> freed_by ns x"
  "use_after_free (ns @ [n]) x \<longleftrightarrow> use_after_free ns x \<or> uses x n \<and> freed_by ns x"
  "uninitialized_load inputs (ns @ [n]) x \<longleftrightarrow> uninitialized_load inputs ns x
     \<or> x \<notin> inputs \<and> loads x n \<and> (\<forall>m \<in> set ns. \<not> stores x m)"
  unfolding double_free_def use_after_free_def uninitialized_load_def
  unfolding snoc_split [where P = "\<lambda>us m. frees x m \<and> freed_by us x"]
      snoc_split [where P = "\<lambda>us m. uses x m \<and> freed_by us x"]
      snoc_split [where P = "\<lambda>us m. loads x m \<and> (\<forall>m \<in> set us. \<not> stores x m)"]
  by (rule refl, rule refl, blast)

lemma no_events_Nil [simp]:
  "\<not> freed_by [] x" "\<not> double_free [] x" "\<not> use_after_free [] x" "\<not> uninitialized_load inputs [] x"
  by (simp_all add: freed_by_def double_free_def use_after_free_def uninitialized_load_def)

text \<open>The keys of the errors reported so far.\<close>

definition keys :: "reporter \<Rightarrow> string set" where
  "keys r = fst ` set (snd r)"

lemma keys_report_once [simp]: "keys (report_once k e l c r) = insert k (keys r)"
  by (force simp: keys_def report_once_def)

lemma keys_uses_freed:
  "keys (check_expr_uses_freed_dedup e freed l r) =
     keys r \<union> {''UseAfterFree:'' @ x | x. root_var e = Some x \<and> x \<in> set (hm_keys freed)}"
  by (induction e freed l r rule: check_expr_uses_freed_dedup.induct) (auto simp: set_hm_keys split: option.splits)

lemma keys_uninitialized:
  "keys (check_uninitialized_load e stored l r) =
     keys r \<union> {''UninitializedLoad:'' @ x | x. loaded_var e = Some x \<and> x \<notin> set stored}"
proof (induction e stored l r rule: check_uninitialized_load.induct)
  case (1 source n off stored l r)
  show ?case
  proof (cases "\<exists>x. source = Var x")
    case True
    then show ?thesis by (auto split: if_splits)
  next
    case False
    then have "(case source of Var name \<Rightarrow> (if name \<notin> set stored
           then report_once (''UninitializedLoad:'' @ name) (UninitializedLoad name) l
                  ''LOAD without prior STORE on this path'' r else r) | _ \<Rightarrow> r) = r"
      and "loaded_var (Load source n off) = loaded_var source"
      by (cases source; simp)+
    then show ?thesis using 1 by simp
  qed
qed auto

definition path_keys :: "string set \<Rightarrow> node list \<Rightarrow> string set" where
  "path_keys inputs ns = {''DoubleFree:'' @ x | x. double_free ns x} \<union> {''UseAfterFree:'' @ x | x. use_after_free ns x}
     \<union> {''UninitializedLoad:'' @ x | x. uninitialized_load inputs ns x}"

definition step_keys :: "string set \<Rightarrow> node list \<Rightarrow> node \<Rightarrow> string set" where
  "step_keys inputs ns n = {''DoubleFree:'' @ x | x. frees x n \<and> freed_by ns x}
     \<union> {''UseAfterFree:'' @ x | x. uses x n \<and> freed_by ns x}
     \<union> {''UninitializedLoad:'' @ x | x. x \<notin> inputs \<and> loads x n \<and> (\<forall>m \<in> set ns. \<not> stores x m)}"

lemma path_keys_snoc: "path_keys inputs (ns @ [n]) = path_keys inputs ns \<union> step_keys inputs ns n"
  unfolding path_keys_def step_keys_def path_events_snoc by blast

definition input_names :: "analysis_context \<Rightarrow> string set" where
  "input_names ctx = set (hm_keys (ac_inputs ctx))"

definition out_names :: "analysis_context \<Rightarrow> string set" where
  "out_names ctx = set (hm_keys (ac_outputs ctx))"

definition path_inv :: "analysis_context \<Rightarrow> own_state \<Rightarrow> node list \<Rightarrow> path_state \<Rightarrow> bool" where
  "path_inv ctx os ns ps \<longleftrightarrow>
     keys (ps_report ps) = keys (os_report os) \<union> path_keys (input_names ctx) ns
   \<and> set (hm_keys (ps_allocations ps)) = set (hm_keys (os_allocations os)) \<union> {x. \<exists>n \<in> set ns. allocs x n}
   \<and> set (hm_keys (ps_freed ps)) = {x. freed_by ns x}
   \<and> set (ps_stored ps) = input_names ctx \<union> {x. \<exists>n \<in> set ns. stores x n}
   \<and> set (ps_alloc ps) = {x. \<exists>n \<in> set ns. allocs x n}
   \<and> set (ps_written ps) = out_names ctx \<inter> {x. \<exists>n \<in> set ns. writes x n}"

lemma write_output_fields [simp]:
  "ps_report (write_output ctx x ps) = ps_report ps" "ps_allocations (write_output ctx x ps) = ps_allocations ps"
  "ps_freed (write_output ctx x ps) = ps_freed ps" "ps_stored (write_output ctx x ps) = ps_stored ps"
  "ps_alloc (write_output ctx x ps) = ps_alloc ps"
  "set (ps_written (write_output ctx x ps)) = set (ps_written ps) \<union> (out_names ctx \<inter> {x})"
  by (auto simp: write_output_def out_names_def hm_contains_key_iff)

lemma write_outputs_fields [simp]:
  "ps_report (fold (write_output ctx) xs ps) = ps_report ps"
  "ps_allocations (fold (write_output ctx) xs ps) = ps_allocations ps"
  "ps_freed (fold (write_output ctx) xs ps) = ps_freed ps" "ps_stored (fold (write_output ctx) xs ps) = ps_stored ps"
  "ps_alloc (fold (write_output ctx) xs ps) = ps_alloc ps"
  "set (ps_written (fold (write_output ctx) xs ps)) = set (ps_written ps) \<union> (out_names ctx \<inter> set xs)"
  by (induction xs arbitrary: ps) auto

lemma write_args_fields [simp]:
  "ps_report (write_args ctx args ps) = ps_report ps" "ps_allocations (write_args ctx args ps) = ps_allocations ps"
  "ps_freed (write_args ctx args ps) = ps_freed ps" "ps_stored (write_args ctx args ps) = ps_stored ps"
  "ps_alloc (write_args ctx args ps) = ps_alloc ps"
  "set (ps_written (write_args ctx args ps)) = set (ps_written ps) \<union> (out_names ctx \<inter> arg_vars args)"
  unfolding write_args_def by (induction args arbitrary: ps) (auto simp: arg_vars_def split: expr.splits)

lemma node_effects:
  "allocs x n \<longleftrightarrow> (\<exists>e. node_kind_of n = Assignment x e \<and> is_alloc e)"
  by (auto simp: allocs_def elim!: is_alloc.elims)

lemma path_inv_start: "path_inv ctx os [] (path_start ctx os)"
  using hs.elems_fold_insert [of "hm_keys (ac_inputs ctx)" "[]"]
  by (simp add: path_inv_def path_start_def path_keys_def input_names_def hm_keys_def)

lemma path_inv_freed:
  assumes "path_inv ctx os ns ps"
  shows "freed_by ns y \<longleftrightarrow> hm_get (ps_freed ps) y \<noteq> None"
proof -
  have "y \<in> set (hm_keys (ps_freed ps)) \<longleftrightarrow> freed_by ns y"
    using assms by (simp add: path_inv_def)
  then show ?thesis by (simp add: set_hm_keys)
qed

lemma path_inv_assignment:
  assumes inv: "path_inv ctx os ns ps" and k: "node_kind_of n = Assignment y e"
  shows "path_inv ctx os (ns @ [n]) (own_node ctx n ps)"
proof -
  let ?p = "own_assignment (node_line n) y e ps"
  have f: "frees x n = False" "stores x n = False" "assigns x n \<longleftrightarrow> x = y" "uses x n \<longleftrightarrow> root_var e = Some x"
    "loads x n \<longleftrightarrow> loaded_var e = Some x" "allocs x n \<longleftrightarrow> x = y \<and> is_alloc e"
    "writes x n \<longleftrightarrow> (\<exists>f args. e = Call f args \<and> x \<in> arg_vars args)" for x
    using k by (auto simp: frees_def stores_def assigns_def uses_def loads_def node_effects writes_def)
  have keys: "keys (ps_report ?p) = keys (ps_report ps) \<union> step_keys (input_names ctx) ns n"
    using inv by (auto simp: own_assignment_def Let_def keys_uses_freed keys_uninitialized step_keys_def f path_inv_def)
  have rest: "set (hm_keys (ps_freed ?p)) = set (hm_keys (ps_freed ps)) - {y}"
    "ps_stored ?p = ps_stored ps" "ps_written ?p = ps_written ps"
    "set (ps_alloc ?p) = set (ps_alloc ps) \<union> {x. x = y \<and> is_alloc e}"
    "set (hm_keys (ps_allocations ?p)) = set (hm_keys (ps_allocations ps)) \<union> {x. x = y \<and> is_alloc e}"
    by (auto simp: own_assignment_def Let_def hm.keys_remove hm.keys_insert)
  have node: "own_node ctx n ps = (case e of Call _ args \<Rightarrow> write_args ctx args ?p | _ \<Rightarrow> ?p)"
    by (simp add: own_node_def k Let_def)
  have same: "ps_report (own_node ctx n ps) = ps_report ?p" "ps_allocations (own_node ctx n ps) = ps_allocations ?p"
    "ps_freed (own_node ctx n ps) = ps_freed ?p" "ps_stored (own_node ctx n ps) = ps_stored ?p"
    "ps_alloc (own_node ctx n ps) = ps_alloc ?p"
    "set (ps_written (own_node ctx n ps)) = set (ps_written ?p) \<union> (out_names ctx \<inter> {x. writes x n})"
    unfolding node f by (cases e; simp; fail | cases e; auto)+
  show ?thesis
    using inv unfolding path_inv_def same keys rest path_keys_snoc freed_by_snoc f
    by (auto simp: f)
qed

lemma path_inv_step:
  assumes inv: "path_inv ctx os ns ps"
  shows "path_inv ctx os (ns @ [n]) (own_node ctx n ps)"
proof (cases "node_kind_of n")
  case (Assignment y e)
  then show ?thesis by (rule path_inv_assignment [OF inv])
next
  case (Free y)
  have f: "frees x n \<longleftrightarrow> x = y" "stores x n = False" "assigns x n = False" "uses x n = False" "loads x n = False"
    "allocs x n = False" "writes x n = False" for x
    using Free by (auto simp: frees_def stores_def assigns_def uses_def loads_def allocs_def writes_def)
  show ?thesis
  proof (cases "hm_get (ps_freed ps) y")
    case None
    then have "\<not> freed_by ns y" by (simp add: path_inv_freed [OF inv])
    then have "step_keys (input_names ctx) ns n = {}" by (auto simp: step_keys_def f)
    then show ?thesis
      using inv None unfolding path_inv_def path_keys_snoc freed_by_snoc
      by (auto simp: own_node_def Free own_free_def f hm.keys_insert)
  next
    case (Some l)
    then have "freed_by ns y" by (simp add: path_inv_freed [OF inv])
    then have "step_keys (input_names ctx) ns n = {''DoubleFree:'' @ y}" by (auto simp: step_keys_def f)
    then show ?thesis
      using inv Some \<open>freed_by ns y\<close> unfolding path_inv_def path_keys_snoc freed_by_snoc
      by (auto simp: own_node_def Free own_free_def f)
  qed
next
  case (Store y v sz off)
  have f: "frees x n = False" "stores x n \<longleftrightarrow> x = y" "assigns x n = False" "uses x n \<longleftrightarrow> x = y" "loads x n = False"
    "allocs x n = False" "writes x n \<longleftrightarrow> x = y" for x
    using Store by (auto simp: frees_def stores_def assigns_def uses_def loads_def allocs_def writes_def)
  have "keys (ps_report (own_node ctx n ps)) = keys (ps_report ps) \<union> step_keys (input_names ctx) ns n"
    by (auto simp: own_node_def Store own_store_def Let_def step_keys_def f path_inv_freed [OF inv] split: option.splits)
  then show ?thesis
    using inv unfolding path_inv_def path_keys_snoc freed_by_snoc
    by (auto simp: own_node_def Store own_store_def Let_def f)
next
  case (CallNode t g args outs)
  have f: "frees x n = False" "stores x n = False" "assigns x n = False" "uses x n = False" "loads x n = False"
    "allocs x n = False" "writes x n \<longleftrightarrow> x \<in> arg_vars args \<or> x \<in> set outs" for x
    using CallNode by (auto simp: frees_def stores_def assigns_def uses_def loads_def allocs_def writes_def)
  show ?thesis
    using inv unfolding path_inv_def path_keys_snoc freed_by_snoc
    by (auto simp: own_node_def CallNode f step_keys_def)
next
  case (Set y v)
  have f: "frees x n = False" "stores x n = False" "assigns x n = False" "uses x n = False" "loads x n = False"
    "allocs x n = False" "writes x n \<longleftrightarrow> x = y" for x
    using Set by (auto simp: frees_def stores_def assigns_def uses_def loads_def allocs_def writes_def)
  show ?thesis
    using inv unfolding path_inv_def path_keys_snoc freed_by_snoc
    by (auto simp: own_node_def Set f step_keys_def)
qed (use inv in \<open>auto simp: path_inv_def path_keys_snoc freed_by_snoc own_node_def step_keys_def frees_def stores_def
      assigns_def uses_def loads_def allocs_def writes_def\<close>)

lemma path_inv_path: "path_inv ctx os ns (fold (own_node ctx) ns (path_start ctx os))"
proof (induction ns rule: rev_induct)
  case Nil
  then show ?case by (simp add: path_inv_start)
next
  case (snoc n ns)
  then show ?case using path_inv_step by simp
qed

section \<open>Errors and keys\<close>

text \<open>Every error the pass reports has a key, and the keys are those recorded.\<close>

definition key_of :: "error_kind \<Rightarrow> string" where
  "key_of k = (case k of
     DoubleFree x _ \<Rightarrow> ''DoubleFree:'' @ x
   | UseAfterFree x _ \<Rightarrow> ''UseAfterFree:'' @ x
   | UninitializedLoad x \<Rightarrow> ''UninitializedLoad:'' @ x
   | MemoryLeak x \<Rightarrow> ''MemoryLeak:'' @ x
   | OutputNotWritten outs \<Rightarrow> ''OutputNotWritten:'' @ debug_strings outs
   | _ \<Rightarrow> [])"

definition tracks :: "analyzer \<Rightarrow> reporter \<Rightarrow> bool" where
  "tracks an r \<longleftrightarrow> (\<exists>new. an_errors (fst r) = an_errors an @ new \<and> key_of ` se_kind ` set new = keys r)"

lemma tracks_once: "tracks an r \<Longrightarrow> tracks an (report_once (key_of k) k l c r)"
  by (force simp: tracks_def report_once_def keys_def)

lemma tracks_kinds:
  "tracks an r \<Longrightarrow> tracks an (report_once (''DoubleFree:'' @ x) (DoubleFree x fl) l c r)"
  "tracks an r \<Longrightarrow> tracks an (report_once (''UseAfterFree:'' @ x) (UseAfterFree x fl) l c r)"
  "tracks an r \<Longrightarrow> tracks an (report_once (''UninitializedLoad:'' @ x) (UninitializedLoad x) l c r)"
  "tracks an r \<Longrightarrow> tracks an (report_once (''MemoryLeak:'' @ x) (MemoryLeak x) l c r)"
  "tracks an r \<Longrightarrow> tracks an (report_once (''OutputNotWritten:'' @ debug_strings outs) (OutputNotWritten outs) l c r)"
  using tracks_once [of an r "DoubleFree x fl"] tracks_once [of an r "UseAfterFree x fl"]
    tracks_once [of an r "UninitializedLoad x"] tracks_once [of an r "MemoryLeak x"] tracks_once [of an r "OutputNotWritten outs"]
  by (simp_all add: key_of_def)

lemmas tracks_rules = tracks_kinds [simplified]

lemma tracks_uses_freed: "tracks an r \<Longrightarrow> tracks an (check_expr_uses_freed_dedup e freed l r)"
  by (induction e freed l r rule: check_expr_uses_freed_dedup.induct) (simp_all add: tracks_rules split: option.split)

lemma tracks_uninitialized: "tracks an r \<Longrightarrow> tracks an (check_uninitialized_load e stored l r)"
proof (induction e stored l r rule: check_uninitialized_load.induct)
  case (1 source n off stored l r)
  then show ?case by (cases source) (simp_all add: tracks_rules)
qed simp_all

lemma tracks_node: "tracks an (ps_report ps) \<Longrightarrow> tracks an (ps_report (own_node ctx n ps))"
  by (cases "node_kind_of n")
    (simp_all add: own_node_def own_assignment_def own_free_def own_store_def Let_def tracks_rules
      tracks_uses_freed tracks_uninitialized split: option.split expr.split)

lemma tracks_path: "tracks an (ps_report ps) \<Longrightarrow> tracks an (ps_report (fold (own_node ctx) ns ps))"
  by (induction ns arbitrary: ps) (simp_all add: tracks_node)

section \<open>All paths\<close>

definition os_inv :: "analysis_context \<Rightarrow> analyzer \<Rightarrow> node list set \<Rightarrow> own_state \<Rightarrow> bool" where
  "os_inv ctx an runs os \<longleftrightarrow> tracks an (os_report os)
     \<and> keys (os_report os) = (\<Union>ns \<in> runs. path_keys (input_names ctx) ns)
     \<and> set (os_not_freed os) = {x. \<exists>ns \<in> runs. leaks ns x}
     \<and> set (os_not_freed os) \<subseteq> set (hm_keys (os_allocations os))
     \<and> set (os_unwritten os) = (if has_guarantee ctx WritesOutput
          then {x \<in> out_names ctx. \<exists>ns \<in> runs. \<forall>n \<in> set ns. \<not> writes x n} else {})"

lemma set_fold_unless: "set (fold (\<lambda>a s. if P a then s else hs_insert a s) xs s) = set s \<union> {x \<in> set xs. \<not> P x}"
  by (induction xs arbitrary: s) auto

lemma os_inv_path:
  assumes "os_inv ctx an runs os"
  shows "os_inv ctx an (insert ns runs) (own_path ctx ns os)"
proof -
  let ?ps = "fold (own_node ctx) ns (path_start ctx os)"
  have inv: "path_inv ctx os ns ?ps" by (rule path_inv_path)
  have tr: "tracks an (ps_report ?ps)"
    by (rule tracks_path) (use assms in \<open>simp add: os_inv_def path_start_def\<close>)
  have nf: "set (os_not_freed (own_path ctx ns os)) = set (os_not_freed os) \<union> {x. leaks ns x}"
    using inv by (auto simp: own_path_def Let_def set_fold_unless leaks_def path_inv_def hm_contains_key_iff)
  have un: "set (os_unwritten (own_path ctx ns os)) = set (os_unwritten os)
      \<union> (if has_guarantee ctx WritesOutput then {x \<in> out_names ctx. \<forall>n \<in> set ns. \<not> writes x n} else {})"
    using inv by (auto simp: own_path_def Let_def set_fold_unless path_inv_def out_names_def)
  have al: "set (hm_keys (os_allocations (own_path ctx ns os))) = set (hm_keys (os_allocations os)) \<union> {x. \<exists>n \<in> set ns. allocs x n}"
    and rp: "os_report (own_path ctx ns os) = ps_report ?ps"
    using inv by (simp_all add: own_path_def Let_def path_inv_def)
  have kr: "keys (ps_report ?ps) = path_keys (input_names ctx) ns \<union> keys (os_report os)"
    using inv by (simp add: path_inv_def Un_commute)
  have a: "keys (os_report os) = (\<Union>ns \<in> runs. path_keys (input_names ctx) ns)"
    "set (os_not_freed os) = {x. \<exists>ns \<in> runs. leaks ns x}"
    "set (os_not_freed os) \<subseteq> set (hm_keys (os_allocations os))"
    "set (os_unwritten os) = (if has_guarantee ctx WritesOutput
          then {x \<in> out_names ctx. \<exists>ns \<in> runs. \<forall>n \<in> set ns. \<not> writes x n} else {})"
    using assms unfolding os_inv_def by blast+
  show ?thesis
    unfolding os_inv_def rp nf un al
  proof (intro conjI)
    show "set (os_not_freed os) \<union> {x. leaks ns x} \<subseteq> set (hm_keys (os_allocations os)) \<union> {x. \<exists>n \<in> set ns. allocs x n}"
      using a(3) unfolding leaks_def by blast
  qed (use tr kr a(1,2,4) in auto)
qed

lemma os_inv_paths:
  "os_inv ctx an runs os \<Longrightarrow> os_inv ctx an (f ` set paths \<union> runs) (fold (\<lambda>p. own_path ctx (f p)) paths os)"
proof (induction paths arbitrary: runs os)
  case Nil
  then show ?case by simp
next
  case (Cons p paths)
  from Cons.IH [OF os_inv_path [OF Cons.prems, of "f p"]] show ?case by simp
qed

lemma leak_reports:
  assumes "set xs \<subseteq> set (hm_keys (os_allocations os))" and "tracks an r"
  shows "tracks an (fold (report_leak os) xs r) \<and> keys (fold (report_leak os) xs r) = keys r \<union> (\<lambda>x. ''MemoryLeak:'' @ x) ` set xs"
  using assms
proof (induction xs arbitrary: r)
  case Nil
  then show ?case by simp
next
  case (Cons x xs)
  then obtain l where l: "hm_get (os_allocations os) x = Some l" by (auto simp: set_hm_keys)
  then have "report_leak os x r = report_once (''MemoryLeak:'' @ x) (MemoryLeak x) l
      ''allocation not freed on all execution paths'' r" by (simp add: report_leak_def)
  then show ?case using Cons.IH [of "report_leak os x r"] Cons.prems tracks_kinds(4) by auto
qed

text \<open>The runs of a body: the statements along each loop-free path from the entry to an exit.\<close>

definition runs :: "node list \<Rightarrow> node list set" where
  "runs nodes = (let flat = flatten_scopes nodes; g = cfg_build flat in
     path_nodes g flat ` {p. run_to_exit (cfg_blocks g) 0 p})"

definition unwritten_runs :: "analysis_context \<Rightarrow> node list \<Rightarrow> string set" where
  "unwritten_runs ctx nodes = {x \<in> out_names ctx. \<exists>ns \<in> runs nodes. \<forall>n \<in> set ns. \<not> writes x n}"

lemma ownership_keys:
  "\<exists>an' new outs. validate_ownership_cfg nodes ctx an = Some an' \<and> an_errors an' = an_errors an @ new
     \<and> set outs = (if has_guarantee ctx WritesOutput then unwritten_runs ctx nodes else {})
     \<and> key_of ` se_kind ` set new = (\<Union>ns \<in> runs nodes. path_keys (input_names ctx) ns)
         \<union> (\<lambda>x. ''MemoryLeak:'' @ x) ` {x. \<exists>ns \<in> runs nodes. leaks ns x}
         \<union> (if has_guarantee ctx WritesOutput \<and> outs \<noteq> [] then {''OutputNotWritten:'' @ debug_strings outs} else {})"
proof -
  let ?flat = "flatten_scopes nodes"
  let ?g = "cfg_build ?flat"
  obtain paths where paths: "all_paths ?g = Some paths" and set: "set paths = {p. run_to_exit (cfg_blocks ?g) 0 p}"
    using all_paths_total [of ?g] build_wf_blocks build_nonempty all_paths_run_to_exit [of ?g] by auto
  define os where "os = fold (\<lambda>p. own_path ctx (path_nodes ?g ?flat p)) paths
      \<lparr>os_report = (an, []), os_allocations = [], os_not_freed = [], os_unwritten = []\<rparr>"
  define r where "r = fold (report_leak os) (os_not_freed os) (os_report os)"
  have "os_inv ctx an {} \<lparr>os_report = (an, []), os_allocations = [], os_not_freed = [], os_unwritten = []\<rparr>"
    by (simp add: os_inv_def tracks_def keys_def)
  from os_inv_paths [OF this, of "path_nodes ?g ?flat" paths] have inv: "os_inv ctx an (runs nodes) os"
    by (simp add: os_def set runs_def Let_def)
  then have nf: "set (os_not_freed os) \<subseteq> set (hm_keys (os_allocations os))" and tr: "tracks an (os_report os)"
    unfolding os_inv_def by blast+
  note r = leak_reports [OF nf tr, folded r_def]
  let ?r = "report_unwritten ctx os r"
  have "tracks an ?r" and kr: "keys ?r = keys r \<union> (if has_guarantee ctx WritesOutput \<and> os_unwritten os \<noteq> []
      then {''OutputNotWritten:'' @ debug_strings (os_unwritten os)} else {})"
    using r tracks_kinds(5) unfolding report_unwritten_def by auto
  then obtain new where "an_errors (fst ?r) = an_errors an @ new" "key_of ` se_kind ` set new = keys ?r"
    by (auto simp: tracks_def)
  moreover have "validate_ownership_cfg nodes ctx an = Some (fst ?r)"
    by (simp add: validate_ownership_cfg_def Let_def paths os_def r_def)
  moreover have "set (os_unwritten os) = (if has_guarantee ctx WritesOutput then unwritten_runs ctx nodes else {})"
    and "keys (os_report os) = (\<Union>ns \<in> runs nodes. path_keys (input_names ctx) ns)"
    and "set (os_not_freed os) = {x. \<exists>ns \<in> runs nodes. leaks ns x}"
    using inv by (simp_all add: os_inv_def unwritten_runs_def)
  ultimately show ?thesis
    using r unfolding kr by (intro exI [of _ "fst ?r"] exI [of _ new] exI [of _ "os_unwritten os"]) simp
qed

lemma key_of_kind:
  "key_of k = ''DoubleFree:'' @ x \<longleftrightarrow> (\<exists>l. k = DoubleFree x l)"
  "key_of k = ''UseAfterFree:'' @ x \<longleftrightarrow> (\<exists>l. k = UseAfterFree x l)"
  "key_of k = ''UninitializedLoad:'' @ x \<longleftrightarrow> k = UninitializedLoad x"
  "key_of k = ''MemoryLeak:'' @ x \<longleftrightarrow> k = MemoryLeak x"
  by (cases k; auto simp: key_of_def)+

lemma key_prefix:
  "''DoubleFree:'' @ x \<in> path_keys inputs ns \<longleftrightarrow> double_free ns x"
  "''UseAfterFree:'' @ x \<in> path_keys inputs ns \<longleftrightarrow> use_after_free ns x"
  "''UninitializedLoad:'' @ x \<in> path_keys inputs ns \<longleftrightarrow> uninitialized_load inputs ns x"
  "''MemoryLeak:'' @ x \<notin> path_keys inputs ns" "''OutputNotWritten:'' @ x \<notin> path_keys inputs ns"
  by (auto simp: path_keys_def)

lemmas key_rules = key_of_kind [simplified] key_prefix [simplified]

definition new_kinds :: "analyzer \<Rightarrow> analyzer \<Rightarrow> error_kind set" where
  "new_kinds an an' = se_kind ` set (drop (length (an_errors an)) (an_errors an'))"

lemma ownership_new_kinds:
  "\<exists>an' outs. validate_ownership_cfg nodes ctx an = Some an'
     \<and> set outs = (if has_guarantee ctx WritesOutput then unwritten_runs ctx nodes else {})
     \<and> key_of ` new_kinds an an' = (\<Union>ns \<in> runs nodes. path_keys (input_names ctx) ns)
         \<union> (\<lambda>x. ''MemoryLeak:'' @ x) ` {x. \<exists>ns \<in> runs nodes. leaks ns x}
         \<union> (if has_guarantee ctx WritesOutput \<and> outs \<noteq> [] then {''OutputNotWritten:'' @ debug_strings outs} else {})"
proof -
  obtain an' new outs where "validate_ownership_cfg nodes ctx an = Some an'" "an_errors an' = an_errors an @ new"
    and "set outs = (if has_guarantee ctx WritesOutput then unwritten_runs ctx nodes else {})"
    and "key_of ` se_kind ` set new = (\<Union>ns \<in> runs nodes. path_keys (input_names ctx) ns)
         \<union> (\<lambda>x. ''MemoryLeak:'' @ x) ` {x. \<exists>ns \<in> runs nodes. leaks ns x}
         \<union> (if has_guarantee ctx WritesOutput \<and> outs \<noteq> [] then {''OutputNotWritten:'' @ debug_strings outs} else {})"
    using ownership_keys [of nodes ctx an] by (elim exE conjE)
  moreover have "new_kinds an an' = se_kind ` set new" using calculation(2) by (simp add: new_kinds_def)
  ultimately show ?thesis by (intro exI [of _ an'] exI [of _ outs]) (simp only: simp_thms)
qed

lemma ownership_key:
  assumes "validate_ownership_cfg nodes ctx an = Some an'" and "\<And>ys. x \<noteq> ''OutputNotWritten:'' @ ys"
  shows "(\<exists>k \<in> new_kinds an an'. key_of k = x) \<longleftrightarrow> (\<exists>ns \<in> runs nodes. x \<in> path_keys (input_names ctx) ns)
     \<or> (\<exists>y. x = ''MemoryLeak:'' @ y \<and> (\<exists>ns \<in> runs nodes. leaks ns y))"
proof -
  obtain outs where k: "key_of ` new_kinds an an' = (\<Union>ns \<in> runs nodes. path_keys (input_names ctx) ns)
         \<union> (\<lambda>x. ''MemoryLeak:'' @ x) ` {x. \<exists>ns \<in> runs nodes. leaks ns x}
         \<union> (if has_guarantee ctx WritesOutput \<and> outs \<noteq> [] then {''OutputNotWritten:'' @ debug_strings outs} else {})"
    using ownership_new_kinds [of nodes ctx an] assms(1) by auto
  have "(\<exists>k \<in> new_kinds an an'. key_of k = x) \<longleftrightarrow> x \<in> key_of ` new_kinds an an'"
    by (simp only: image_iff) metis
  also have "\<dots> \<longleftrightarrow> (\<exists>ns \<in> runs nodes. x \<in> path_keys (input_names ctx) ns)
     \<or> (\<exists>y. x = ''MemoryLeak:'' @ y \<and> (\<exists>ns \<in> runs nodes. leaks ns y))"
    unfolding k using assms(2) by (simp only: Un_iff UN_iff image_iff mem_Collect_eq) (simp split: if_split, blast)
  finally show ?thesis .
qed

section \<open>Properties\<close>

text \<open>
  C8: ownership validation returns on every body, and reports a double free of a handle
  exactly when on some loop-free run of the body, scopes flattened, the handle is freed twice
  with no assignment to it in between.
\<close>

theorem double_free_exact:
  "\<exists>an'. validate_ownership_cfg nodes ctx an = Some an'
     \<and> {x. \<exists>l. DoubleFree x l \<in> new_kinds an an'} = {x. \<exists>ns \<in> runs nodes. double_free ns x}"
proof -
  obtain an' where v: "validate_ownership_cfg nodes ctx an = Some an'"
    using ownership_new_kinds by blast
  have "(\<exists>l. DoubleFree x l \<in> new_kinds an an') \<longleftrightarrow> (\<exists>ns \<in> runs nodes. double_free ns x)" for x
    using ownership_key [OF v, of "''DoubleFree:'' @ x"] by (auto simp: key_rules)
  then show ?thesis using v by auto
qed


text \<open>
  It reports a load from an uninitialized handle exactly when on some loop-free run an
  assignment loads from a variable that is not an input and that no earlier statement of the
  run stored to.
\<close>

theorem uninitialized_load_exact:
  "\<exists>an'. validate_ownership_cfg nodes ctx an = Some an'
     \<and> {x. UninitializedLoad x \<in> new_kinds an an'}
       = {x. \<exists>ns \<in> runs nodes. uninitialized_load (input_names ctx) ns x}"
proof -
  obtain an' where v: "validate_ownership_cfg nodes ctx an = Some an'"
    using ownership_new_kinds by blast
  have "UninitializedLoad x \<in> new_kinds an an' \<longleftrightarrow> (\<exists>ns \<in> runs nodes. uninitialized_load (input_names ctx) ns x)" for x
    using ownership_key [OF v, of "''UninitializedLoad:'' @ x"] by (auto simp: key_rules)
  then show ?thesis using v by auto
qed

text \<open>
  It reports a leak of a handle exactly when some loop-free run allocates the handle and
  ends without the handle being freed since its last assignment.
\<close>

theorem memory_leak_exact:
  "\<exists>an'. validate_ownership_cfg nodes ctx an = Some an'
     \<and> {x. MemoryLeak x \<in> new_kinds an an'} = {x. \<exists>ns \<in> runs nodes. leaks ns x}"
proof -
  obtain an' where v: "validate_ownership_cfg nodes ctx an = Some an'"
    using ownership_new_kinds by blast
  have "MemoryLeak x \<in> new_kinds an an' \<longleftrightarrow> (\<exists>ns \<in> runs nodes. leaks ns x)" for x
    using ownership_key [OF v, of "''MemoryLeak:'' @ x"] by (auto simp: key_rules)
  then show ?thesis using v by auto
qed

text \<open>
  Under \<^verbatim>\<open>writes_output\<close> it reports unwritten outputs exactly when some output is written
  on no statement of some loop-free run, where a store, a \<^verbatim>\<open>SET\<close>, a call that takes the
  output as an argument and a call redirected into it count as writes; without the guarantee
  it never does.
\<close>

theorem outputs_written_exact:
  "\<exists>an'. validate_ownership_cfg nodes ctx an = Some an'
     \<and> ({outs. OutputNotWritten outs \<in> new_kinds an an'} = {}
         \<longleftrightarrow> has_guarantee ctx WritesOutput = False \<or> unwritten_runs ctx nodes = {})"
proof -
  obtain an' outs where v: "validate_ownership_cfg nodes ctx an = Some an'"
    and o: "set outs = (if has_guarantee ctx WritesOutput then unwritten_runs ctx nodes else {})"
    and k: "key_of ` new_kinds an an' = (\<Union>ns \<in> runs nodes. path_keys (input_names ctx) ns)
         \<union> (\<lambda>x. ''MemoryLeak:'' @ x) ` {x. \<exists>ns \<in> runs nodes. leaks ns x}
         \<union> (if has_guarantee ctx WritesOutput \<and> outs \<noteq> [] then {''OutputNotWritten:'' @ debug_strings outs} else {})"
    using ownership_new_kinds [of nodes ctx an] by (elim exE conjE)
  have "(\<exists>outs. OutputNotWritten outs \<in> new_kinds an an') \<longleftrightarrow>
      (\<exists>ys. ''OutputNotWritten:'' @ ys \<in> key_of ` new_kinds an an')"
  proof
    assume "\<exists>ys. ''OutputNotWritten:'' @ ys \<in> key_of ` new_kinds an an'"
    then obtain ys where "''OutputNotWritten:'' @ ys \<in> key_of ` new_kinds an an'" ..
    then obtain k where "''OutputNotWritten:'' @ ys = key_of k" "k \<in> new_kinds an an'" by (rule imageE)
    then show "\<exists>outs. OutputNotWritten outs \<in> new_kinds an an'" by (cases k) (auto simp: key_of_def)
  next
    assume "\<exists>outs. OutputNotWritten outs \<in> new_kinds an an'"
    then obtain outs where "OutputNotWritten outs \<in> new_kinds an an'" ..
    moreover have "key_of (OutputNotWritten outs) = ''OutputNotWritten:'' @ debug_strings outs" by (simp add: key_of_def)
    ultimately have "''OutputNotWritten:'' @ debug_strings outs \<in> key_of ` new_kinds an an'" by (intro image_eqI) simp_all
    then show "\<exists>ys. ''OutputNotWritten:'' @ ys \<in> key_of ` new_kinds an an'" ..
  qed
  also have "\<dots> \<longleftrightarrow> has_guarantee ctx WritesOutput \<and> outs \<noteq> []"
    unfolding k by (auto simp: key_prefix [simplified])
  also have "\<dots> \<longleftrightarrow> has_guarantee ctx WritesOutput \<and> unwritten_runs ctx nodes \<noteq> {}"
    using o by (auto split: if_splits)
  finally show ?thesis using v by auto
qed

end
