(* ===== verification/Sigil_Analyze.thy ===== *)
theory Sigil_Analyze
  imports Sigil_Wiring Sigil_Ownership
begin

text \<open>
  The semantic analyzer as a whole, after \<^verbatim>\<open>SemanticAnalyzer::analyze\<close> and
  \<^verbatim>\<open>check_termination\<close> in \<^verbatim>\<open>compiler/src/semantic/mod.rs\<close>: the phases in the order of
  the source, and what acceptance of a behavior guarantees. A panic in a phase would be
  \<open>None\<close>; it is proved that there is none.
\<close>

section \<open>The phases\<close>

definition check_termination :: "node list \<Rightarrow> analyzer \<Rightarrow> analyzer" where
  "check_termination nodes an =
     (if all_paths_terminate (cfg_build (flatten_scopes nodes)) then an
      else push_error PathDoesNotTerminate 0 (Some ''control flow cannot reach END (exit-less loop)'') an)"

definition check_bodies :: "node list \<Rightarrow> astate option \<Rightarrow> astate option" where
  "check_bodies nodes st = (case st of
     None \<Rightarrow> None
   | Some s \<Rightarrow> (let s1 = validate_nodes nodes s in
        case validate_ownership_cfg nodes (snd s1) (fst s1) of
          None \<Rightarrow> None
        | Some an \<Rightarrow> Some (an, snd s1)))"

definition check_roles :: "behavior \<Rightarrow> analyzer \<Rightarrow> analyzer" where
  "check_roles b an = (case b_composition b of
     Some wiring \<Rightarrow> check_composite_purity wiring an
   | None \<Rightarrow> (case impl_body b of Some impl \<Rightarrow> check_leaf_no_call impl an | None \<Rightarrow> an))"

definition analyze_phases ::
  "(byte list \<Rightarrow> byte list) \<Rightarrow> (byte list \<Rightarrow> string) \<Rightarrow> behavior \<Rightarrow> (string, contract) hmap
     \<Rightarrow> string hset \<Rightarrow> analyzer option" where
  "analyze_phases sha256 hex_encode b dependencies patterns =
     (let ctx0 = context_new b dependencies patterns;
          an1 = validate_contract sha256 hex_encode b analyzer_new;
          st2 = collect_labels b (an1, ctx0);
          st3 = when_body check_bodies (b_composition b) (when_body check_bodies (impl_body b) (Some st2))
      in case st3 of
           None \<Rightarrow> None
         | Some (an3, ctx) \<Rightarrow>
             (let an4 = when_body check_termination (b_composition b)
                          (when_body check_termination (impl_body b) an3);
                  an5 = check_roles b an4;
                  an6 = when_body (\<lambda>nodes. check_outputs_consumed nodes ctx) (b_composition b) an5
              in Some (validate_guarantees b ctx an6)))"

definition analyze ::
  "(byte list \<Rightarrow> byte list) \<Rightarrow> (byte list \<Rightarrow> string) \<Rightarrow> behavior \<Rightarrow> (string, contract) hmap
     \<Rightarrow> string hset \<Rightarrow> (semantic_error list + unit) option" where
  "analyze sha256 hex_encode b dependencies patterns =
     map_option (\<lambda>an. if an_errors an = [] then Inr () else Inl (an_errors an))
       (analyze_phases sha256 hex_encode b dependencies patterns)"

section \<open>What acceptance means\<close>

text \<open>The bodies the analyzer checks.\<close>

definition bodies :: "behavior \<Rightarrow> node list set" where
  "bodies b = set_option (impl_body b) \<union> set_option (b_composition b)"

definition param_size_ok :: "parameter \<Rightarrow> bool" where
  "param_size_ok p \<longleftrightarrow> (case p_typ p of TInt \<Rightarrow> valid_int_size (p_size p)
     | TFloat \<Rightarrow> valid_float_size (p_size p) | _ \<Rightarrow> True)"

definition contract_ok :: "(byte list \<Rightarrow> byte list) \<Rightarrow> (byte list \<Rightarrow> string) \<Rightarrow> behavior \<Rightarrow> bool" where
  "contract_ok sha256 hex_encode b \<longleftrightarrow>
     (\<forall>p \<in> set (c_inputs (b_contract b)) \<union> set (c_outputs (b_contract b)). param_size_ok p)
   \<and> (b_hash b = [] \<or> b_hash b = compute_contract_hash sha256 hex_encode (b_contract b))"

definition targets :: "node_kind \<Rightarrow> string set" where
  "targets k = (case k of Jump l \<Rightarrow> {l} | Branch _ x y \<Rightarrow> {x, y} | _ \<Rightarrow> {})"

definition memory_safe :: "string set \<Rightarrow> node list \<Rightarrow> bool" where
  "memory_safe inputs nodes \<longleftrightarrow> (\<forall>ns \<in> runs nodes. \<forall>x. \<not> double_free ns x \<and> \<not> use_after_free ns x
     \<and> \<not> uninitialized_load inputs ns x \<and> \<not> leaks ns x)"

definition owns_ok :: "analysis_context \<Rightarrow> node list \<Rightarrow> bool" where
  "owns_ok ctx nodes \<longleftrightarrow> memory_safe (input_names ctx) nodes
     \<and> (has_guarantee ctx WritesOutput \<longrightarrow> unwritten_runs ctx nodes = {})"

lemma reports_contract: "reports (contract_ok sha256 hex_encode b) an (validate_contract sha256 hex_encode b an)"
proof -
  have p: "reports (param_size_ok p) an (validate_param_size p an)" for p an
    by (auto simp: validate_param_size_def param_size_ok_def reports_def split: stype.splits)
  let ?an1 = "fold validate_param_size (c_inputs (b_contract b)) an"
  let ?an2 = "fold validate_param_size (c_outputs (b_contract b)) ?an1"
  have 1: "reports ((\<forall>p \<in> set (c_inputs (b_contract b)). param_size_ok p)
      \<and> (\<forall>p \<in> set (c_outputs (b_contract b)). param_size_ok p)) an ?an2"
    by (rule reports_trans; rule reports_fold) (rule p)+
  have 2: "reports (b_hash b = [] \<or> b_hash b = compute_contract_hash sha256 hex_encode (b_contract b)) ?an2
      (validate_contract sha256 hex_encode b an)"
    by (auto simp: validate_contract_def Let_def reports_def)
  show ?thesis
    by (rule reports_cong [OF reports_trans [OF 1 2]]) (auto simp: contract_ok_def)
qed

lemma reports_ownership: "\<exists>an'. validate_ownership_cfg nodes ctx an = Some an' \<and> reports (owns_ok ctx nodes) an an'"
proof -
  obtain an' new outs where v: "validate_ownership_cfg nodes ctx an = Some an'" "an_errors an' = an_errors an @ new"
    and o: "set outs = (if has_guarantee ctx WritesOutput then unwritten_runs ctx nodes else {})"
    and k: "key_of ` se_kind ` set new = (\<Union>ns \<in> runs nodes. path_keys (input_names ctx) ns)
         \<union> (\<lambda>x. ''MemoryLeak:'' @ x) ` {x. \<exists>ns \<in> runs nodes. leaks ns x}
         \<union> (if has_guarantee ctx WritesOutput \<and> outs \<noteq> [] then {''OutputNotWritten:'' @ debug_strings outs} else {})"
    using ownership_keys [of nodes ctx an] by (elim exE conjE)
  have "new = [] \<longleftrightarrow> key_of ` se_kind ` set new = {}" by simp
  also have "\<dots> \<longleftrightarrow> (\<forall>ns \<in> runs nodes. path_keys (input_names ctx) ns = {}) \<and> {x. \<exists>ns \<in> runs nodes. leaks ns x} = {}
      \<and> \<not> (has_guarantee ctx WritesOutput \<and> outs \<noteq> [])"
    unfolding k by auto
  also have "outs \<noteq> [] \<longleftrightarrow> has_guarantee ctx WritesOutput \<and> unwritten_runs ctx nodes \<noteq> {}"
    using o by (cases "outs = []") (auto split: if_splits)
  also have "(\<forall>ns \<in> runs nodes. path_keys (input_names ctx) ns = {}) \<and> {x. \<exists>ns \<in> runs nodes. leaks ns x} = {}
      \<and> \<not> (has_guarantee ctx WritesOutput \<and> has_guarantee ctx WritesOutput \<and> unwritten_runs ctx nodes \<noteq> {})
    \<longleftrightarrow> owns_ok ctx nodes"
    unfolding owns_ok_def memory_safe_def path_keys_def by blast
  finally show ?thesis using v by (auto simp: reports_def)
qed

definition guarantees_ok :: "behavior \<Rightarrow> analysis_context \<Rightarrow> bool" where
  "guarantees_ok b ctx \<longleftrightarrow>
     (has_guarantee ctx Pure \<longrightarrow> \<not> ac_has_channel_ops ctx \<and> \<not> ac_has_non_output_writes ctx
        \<and> rq_memory (c_requires (b_contract b)) = [])
   \<and> (has_guarantee ctx NoAlloc \<longrightarrow> \<not> ac_has_unscoped_alloc ctx)"

lemma reports_guarantees: "reports (guarantees_ok b ctx) an (validate_guarantees b ctx an)"
  by (auto simp: validate_guarantees_def guarantees_ok_def Let_def reports_def)

text \<open>One body: the linear pass, then the ownership pass.\<close>

lemma check_bodies_ok:
  "\<exists>st'. check_bodies nodes (Some st) = Some st' \<and> snd st' = snd (validate_nodes nodes st)
     \<and> reports (visits_ok nodes st \<and> owns_ok (snd st') nodes) (fst st) (fst st')"
proof -
  let ?s = "validate_nodes nodes st"
  obtain an where a: "validate_ownership_cfg nodes (snd ?s) (fst ?s) = Some an"
    "reports (owns_ok (snd ?s) nodes) (fst ?s) an"
    using reports_ownership by blast
  then show ?thesis
    using reports_trans [OF reports_nodes [of nodes st] a(2)] by (simp add: check_bodies_def Let_def)
qed

definition body_ok :: "node list option \<Rightarrow> astate \<Rightarrow> analysis_context \<Rightarrow> bool" where
  "body_ok body st ctx \<longleftrightarrow> (\<forall>nodes \<in> set_option body. visits_ok nodes st \<and> owns_ok ctx nodes)"

lemma when_bodies_ok:
  "\<exists>st'. when_body check_bodies body (Some st) = Some st' \<and> snd st' = snd (when_body validate_nodes body st)
     \<and> reports (body_ok body st (snd st')) (fst st) (fst st')"
  using check_bodies_ok [of _ st] by (cases body) (auto simp: when_body_def body_ok_def reports_refl)

lemma reports_when:
  assumes "\<And>nodes an. reports (P nodes) an (f nodes an)"
  shows "reports (\<forall>nodes \<in> set_option body. P nodes) an (when_body f body an)"
  using assms by (cases body) (simp_all add: when_body_def reports_refl)

definition terminates :: "node list \<Rightarrow> bool" where
  "terminates nodes \<longleftrightarrow> all_paths_terminate (cfg_build (flatten_scopes nodes))"

lemma reports_termination: "reports (terminates nodes) an (check_termination nodes an)"
  by (simp add: check_termination_def terminates_def reports_def)

definition roles_ok :: "behavior \<Rightarrow> bool" where
  "roles_ok b \<longleftrightarrow> (case b_composition b of
     Some nodes \<Rightarrow> (\<forall>n \<in> set nodes. wires_only (node_kind_of n))
   | None \<Rightarrow> (\<forall>nodes \<in> set_option (impl_body b). \<forall>k \<in> set (leaves nodes). \<not> calls k))"

lemma reports_roles: "reports (roles_ok b) an (check_roles b an)"
  by (auto simp: roles_ok_def check_roles_def reports_composite reports_leaf_calls reports_refl split: option.split)

lemma reports_when_body_labels:
  "reports (\<forall>nodes \<in> set_option body. distinct (labels_of nodes) \<and> set (labels_of nodes) \<inter> label_keys (snd st) = {})
     (fst st) (fst (when_body collect_labels_from_nodes body st))
   \<and> label_keys (snd (when_body collect_labels_from_nodes body st))
       = label_keys (snd st) \<union> (\<Union>nodes \<in> set_option body. set (labels_of nodes))"
  using collect_labels_nodes [of _ st] by (cases body) (auto simp: when_body_def reports_refl)

definition body_labels :: "node list option \<Rightarrow> string list" where
  "body_labels body = (case body of Some nodes \<Rightarrow> labels_of nodes | None \<Rightarrow> [])"

definition all_labels :: "behavior \<Rightarrow> string list" where
  "all_labels b = body_labels (impl_body b) @ body_labels (b_composition b)"

lemma collect_labels_ok:
  "reports (distinct (all_labels b) \<and> set (all_labels b) \<inter> label_keys (snd st) = {}) (fst st) (fst (collect_labels b st))
   \<and> label_keys (snd (collect_labels b st)) = label_keys (snd st) \<union> set (all_labels b)"
proof -
  have body: "reports (distinct (body_labels body) \<and> set (body_labels body) \<inter> label_keys (snd st) = {}) (fst st)
      (fst (when_body collect_labels_from_nodes body st))
    \<and> label_keys (snd (when_body collect_labels_from_nodes body st)) = label_keys (snd st) \<union> set (body_labels body)" for body st
    using collect_labels_nodes [of _ st] by (cases body) (auto simp: when_body_def body_labels_def reports_refl)
  let ?st1 = "when_body collect_labels_from_nodes (impl_body b) st"
  note 1 = body [of "impl_body b" st] and 2 = body [of "b_composition b" ?st1]
  have "reports ((distinct (body_labels (impl_body b)) \<and> set (body_labels (impl_body b)) \<inter> label_keys (snd st) = {})
      \<and> distinct (body_labels (b_composition b)) \<and> set (body_labels (b_composition b)) \<inter> label_keys (snd ?st1) = {})
      (fst st) (fst (collect_labels b st))"
    unfolding collect_labels_def by (rule reports_trans) (use 1 2 in blast)+
  moreover have "label_keys (snd (collect_labels b st)) = label_keys (snd st) \<union> set (all_labels b)"
    unfolding collect_labels_def using 1 2 by (auto simp: all_labels_def)
  ultimately show ?thesis
    using 1 by (auto simp: all_labels_def elim!: reports_cong)
qed

section \<open>The whole analysis\<close>

text \<open>The states after label collection and after each body.\<close>

definition start_state :: "(byte list \<Rightarrow> byte list) \<Rightarrow> (byte list \<Rightarrow> string) \<Rightarrow> behavior \<Rightarrow> (string, contract) hmap \<Rightarrow> string hset \<Rightarrow> astate" where
  "start_state sha256 hex_encode b deps pats =
     collect_labels b (validate_contract sha256 hex_encode b analyzer_new, context_new b deps pats)"

lemma analyze_phases_reports:
  "\<exists>an st1 ctx. analyze_phases sha256 hex_encode b deps pats = Some an
     \<and> snd st1 = snd (when_body validate_nodes (impl_body b) (start_state sha256 hex_encode b deps pats))
     \<and> ctx = snd (when_body validate_nodes (b_composition b) st1)
     \<and> (an_errors an = [] \<longleftrightarrow> contract_ok sha256 hex_encode b
          \<and> distinct (all_labels b) \<and> set (all_labels b) \<inter> label_keys (context_new b deps pats) = {}
          \<and> body_ok (impl_body b) (start_state sha256 hex_encode b deps pats) (snd st1)
          \<and> body_ok (b_composition b) st1 ctx
          \<and> (\<forall>nodes \<in> bodies b. terminates nodes) \<and> roles_ok b
          \<and> (\<forall>nodes \<in> set_option (b_composition b). wiring_ok ctx nodes) \<and> guarantees_ok b ctx)"
proof -
  let ?an1 = "validate_contract sha256 hex_encode b analyzer_new"
  let ?st2 = "start_state sha256 hex_encode b deps pats"
  obtain st1 where st1: "when_body check_bodies (impl_body b) (Some ?st2) = Some st1"
    "snd st1 = snd (when_body validate_nodes (impl_body b) ?st2)"
    and r1: "reports (body_ok (impl_body b) ?st2 (snd st1)) (fst ?st2) (fst st1)"
    using when_bodies_ok by blast
  obtain st3 where st3: "when_body check_bodies (b_composition b) (Some st1) = Some st3"
    "snd st3 = snd (when_body validate_nodes (b_composition b) st1)"
    and r3: "reports (body_ok (b_composition b) st1 (snd st3)) (fst st1) (fst st3)"
    using when_bodies_ok by blast
  let ?an4 = "when_body check_termination (b_composition b) (when_body check_termination (impl_body b) (fst st3))"
  let ?an6 = "when_body (\<lambda>nodes. check_outputs_consumed nodes (snd st3)) (b_composition b) (check_roles b ?an4)"
  let ?an = "validate_guarantees b (snd st3) ?an6"
  have 0: "reports (contract_ok sha256 hex_encode b) analyzer_new ?an1" by (rule reports_contract)
  have 2: "reports (distinct (all_labels b) \<and> set (all_labels b) \<inter> label_keys (context_new b deps pats) = {}) ?an1 (fst ?st2)"
    using collect_labels_ok [of b "(?an1, context_new b deps pats)"] by (simp add: start_state_def)
  have 4: "reports ((\<forall>nodes \<in> set_option (impl_body b). terminates nodes) \<and> (\<forall>nodes \<in> set_option (b_composition b). terminates nodes))
      (fst st3) ?an4"
    by (rule reports_trans; rule reports_when) (rule reports_termination)+
  have 6: "reports (\<forall>nodes \<in> set_option (b_composition b). wiring_ok (snd st3) nodes) (check_roles b ?an4) ?an6"
    by (rule reports_when) (rule reports_consumed)
  note all = reports_trans [OF 0 reports_trans [OF 2 reports_trans [OF r1 reports_trans [OF r3 reports_trans [OF 4
      reports_trans [OF reports_roles reports_trans [OF 6 reports_guarantees]]]]]]]
  have "analyze_phases sha256 hex_encode b deps pats = Some ?an"
    using st1(1) st3(1) by (simp add: analyze_phases_def Let_def start_state_def split: prod.splits)
  moreover have "an_errors analyzer_new = []" by (simp add: analyzer_new_def)
  ultimately show ?thesis
    using reports_errors [OF all] st1(2) st3(2) by (intro exI [of _ ?an] exI [of _ st1] exI [of _ "snd st3"]) (auto simp: bodies_def)
qed

subsection \<open>The context the phases share\<close>

lemma collect_labels_context: "\<exists>ls. snd (collect_labels_from_nodes nodes st) = (snd st)\<lparr>ac_labels := ls\<rparr>"
proof (induction nodes st rule: collect_labels_from_nodes.induct)
  case (1 st)
  show ?case by (rule exI [of _ "ac_labels (snd st)"]) simp
next
  case (2 sp k rest st)
  have same: "\<exists>ls. snd st = (snd st)\<lparr>ac_labels := ls\<rparr>" by (rule exI [of _ "ac_labels (snd st)"]) simp
  let ?st1 = "case k of Label name \<Rightarrow> collect_label name (sp_line sp) st
      | Scope inner \<Rightarrow> collect_labels_from_nodes inner st | _ \<Rightarrow> st"
  have "\<exists>ls. snd ?st1 = (snd st)\<lparr>ac_labels := ls\<rparr>"
  proof (cases k)
    case (Label l)
    then show ?thesis using same by (auto simp: collect_label_def define_label_def split: option.splits)
  next
    case (Scope inner)
    then show ?thesis using 2(1) by simp
  qed (use same in simp_all)
  then show ?case using 2(2) by fastforce
qed

lemma start_context: "\<exists>ls. snd (start_state sha256 hex_encode b deps pats) = (context_new b deps pats)\<lparr>ac_labels := ls\<rparr>"
proof -
  have "\<exists>ls. snd (when_body collect_labels_from_nodes body st) = (snd st)\<lparr>ac_labels := ls\<rparr>" for body st
  proof (cases body)
    case None
    then show ?thesis by (intro exI [of _ "ac_labels (snd st)"]) (simp add: when_body_def)
  next
    case (Some nodes)
    then show ?thesis using collect_labels_context [of nodes st] by (simp add: when_body_def)
  qed
  note body = this
  let ?st = "(validate_contract sha256 hex_encode b analyzer_new, context_new b deps pats)"
  obtain l1 where 1: "snd (when_body collect_labels_from_nodes (impl_body b) ?st) = (context_new b deps pats)\<lparr>ac_labels := l1\<rparr>"
    using body [of "impl_body b" ?st] by auto
  then show ?thesis
    using body [of "b_composition b" "when_body collect_labels_from_nodes (impl_body b) ?st"]
    by (auto simp: start_state_def collect_labels_def)
qed

definition param_names :: "parameter list \<Rightarrow> string set" where
  "param_names ps = p_name ` set ps"

lemma register_fields:
  "ac_inputs (fold register_output ps ctx) = ac_inputs ctx"
  "set (hm_keys (ac_outputs (fold register_output ps ctx))) = param_names ps \<union> set (hm_keys (ac_outputs ctx))"
  "set (hm_keys (ac_inputs (fold register_input ps ctx))) = param_names ps \<union> set (hm_keys (ac_inputs ctx))"
  "ac_outputs (fold register_input ps ctx) = ac_outputs ctx"
  by (induction ps arbitrary: ctx)
    (auto simp: register_output_def register_input_def param_names_def hm.keys_insert)

lemma register_rest:
  assumes "\<And>p ctx. f (register_output p ctx) = f ctx" and "\<And>p ctx. f (register_input p ctx) = f ctx"
  shows "f (context_new b deps pats) = f (context_new (b\<lparr>b_contract := (b_contract b)\<lparr>c_inputs := [], c_outputs := []\<rparr>\<rparr>) deps pats)"
proof -
  have "f (fold register_output ps ctx) = f ctx" "f (fold register_input ps ctx) = f ctx" for ps ctx
    by (induction ps arbitrary: ctx) (simp_all add: assms)
  then show ?thesis by (simp add: context_new_def Let_def)
qed

lemma context_new_fields:
  "input_names (context_new b deps pats) = param_names (c_inputs (b_contract b))"
  "out_names (context_new b deps pats) = param_names (c_outputs (b_contract b))"
  "ac_guarantees (context_new b deps pats) = c_guarantees (b_contract b)"
  "ac_scope_depth (context_new b deps pats) = 0" "\<not> ac_has_unscoped_alloc (context_new b deps pats)"
  "\<not> ac_has_channel_ops (context_new b deps pats)" "\<not> ac_has_non_output_writes (context_new b deps pats)"
  "label_keys (context_new b deps pats) = {}"
  using register_rest [of ac_guarantees b deps pats] register_rest [of ac_scope_depth b deps pats]
    register_rest [of ac_has_unscoped_alloc b deps pats] register_rest [of ac_has_channel_ops b deps pats]
    register_rest [of ac_has_non_output_writes b deps pats] register_rest [of ac_labels b deps pats]
  by (simp_all add: register_output_def register_input_def context_new_def Let_def label_keys_def
      input_names_def out_names_def register_fields hm_keys_def [of "[]"])

definition env_of :: "behavior \<Rightarrow> analysis_context \<Rightarrow> bool" where
  "env_of b ctx \<longleftrightarrow> input_names ctx = param_names (c_inputs (b_contract b))
     \<and> out_names ctx = param_names (c_outputs (b_contract b)) \<and> ac_guarantees ctx = c_guarantees (b_contract b)
     \<and> label_keys ctx = set (all_labels b) \<and> ac_scope_depth ctx = 0"

lemma env_of_start: "env_of b (snd (start_state sha256 hex_encode b deps pats))"
proof -
  obtain ls where "snd (start_state sha256 hex_encode b deps pats) = (context_new b deps pats)\<lparr>ac_labels := ls\<rparr>"
    using start_context by blast
  moreover have "label_keys (snd (start_state sha256 hex_encode b deps pats)) = set (all_labels b)"
    using collect_labels_ok [of b "(validate_contract sha256 hex_encode b analyzer_new, context_new b deps pats)"]
    by (simp add: start_state_def context_new_fields)
  ultimately show ?thesis
    using context_new_fields [of b deps pats] by (simp add: env_of_def input_names_def out_names_def)
qed

lemma env_of_nodes: "env_of b (snd st) \<Longrightarrow> env_of b (snd (validate_nodes nodes st))"
  using same_env_nodes [of st nodes] by (simp add: env_of_def same_env_def input_names_def out_names_def label_keys_def)

lemma env_of_when: "env_of b (snd st) \<Longrightarrow> env_of b (snd (when_body validate_nodes body st))"
  by (cases body) (simp_all add: when_body_def env_of_nodes)

definition flags_clear :: "analysis_context \<Rightarrow> bool" where
  "flags_clear ctx \<longleftrightarrow> \<not> ac_has_unscoped_alloc ctx \<and> \<not> ac_has_channel_ops ctx \<and> \<not> ac_has_non_output_writes ctx"

text \<open>The flags of the final context, read back as facts about the statements of the bodies.\<close>

lemma when_flags:
  assumes "body_ok body st ctx'" and "env_of b (snd st)"
  shows "flags (\<exists>nodes \<in> set_option body. \<exists>k \<in> set (top_leaves nodes). alloc_node k)
      (\<exists>nodes \<in> set_option body. \<exists>k \<in> set (leaves nodes). channel_node k)
      (\<exists>nodes \<in> set_option body. \<exists>k \<in> set (leaves nodes). writes_elsewhere (param_names (c_outputs (b_contract b))) k)
      (snd st) (snd (when_body validate_nodes body st))"
  using assms flags_nodes [of _ st]
  by (cases body) (simp_all add: when_body_def flags_refl body_ok_def env_of_def output_names_def out_names_def)

lemma accepted:
  assumes "analyze sha256 hex_encode b deps pats = Some (Inr ())"
  obtains st0 st1 ctx where
    "body_ok (impl_body b) st0 (snd st1)" "body_ok (b_composition b) st1 ctx"
    "env_of b (snd st0)" "env_of b (snd st1)" "env_of b ctx"
    "contract_ok sha256 hex_encode b" "distinct (all_labels b)" "\<forall>nodes \<in> bodies b. terminates nodes" "roles_ok b"
    "\<forall>nodes \<in> set_option (b_composition b). wiring_ok ctx nodes" "guarantees_ok b ctx"
    "flags (\<exists>nodes \<in> bodies b. \<exists>k \<in> set (top_leaves nodes). alloc_node k)
      (\<exists>nodes \<in> bodies b. \<exists>k \<in> set (leaves nodes). channel_node k)
      (\<exists>nodes \<in> bodies b. \<exists>k \<in> set (leaves nodes). writes_elsewhere (param_names (c_outputs (b_contract b))) k)
      (snd st0) ctx"
proof -
  let ?st0 = "start_state sha256 hex_encode b deps pats"
  obtain an st1 ctx where an: "analyze_phases sha256 hex_encode b deps pats = Some an"
    and s1: "snd st1 = snd (when_body validate_nodes (impl_body b) ?st0)"
    and c: "ctx = snd (when_body validate_nodes (b_composition b) st1)"
    and iff: "an_errors an = [] \<longleftrightarrow> contract_ok sha256 hex_encode b
          \<and> distinct (all_labels b) \<and> set (all_labels b) \<inter> label_keys (context_new b deps pats) = {}
          \<and> body_ok (impl_body b) ?st0 (snd st1) \<and> body_ok (b_composition b) st1 ctx
          \<and> (\<forall>nodes \<in> bodies b. terminates nodes) \<and> roles_ok b
          \<and> (\<forall>nodes \<in> set_option (b_composition b). wiring_ok ctx nodes) \<and> guarantees_ok b ctx"
    using analyze_phases_reports [of sha256 hex_encode b deps pats] by (elim exE conjE)
  have ok: "an_errors an = []"
    using assms an by (auto simp: analyze_def split: if_splits)
  have e0: "env_of b (snd ?st0)" by (rule env_of_start)
  have e1: "env_of b (snd st1)" unfolding s1 by (rule env_of_when [OF e0])
  have e2: "env_of b ctx" unfolding c by (rule env_of_when [OF e1])
  from ok iff have b: "body_ok (impl_body b) ?st0 (snd st1)" "body_ok (b_composition b) st1 ctx" by blast+
  have "flags (\<exists>nodes \<in> bodies b. \<exists>k \<in> set (top_leaves nodes). alloc_node k)
      (\<exists>nodes \<in> bodies b. \<exists>k \<in> set (leaves nodes). channel_node k)
      (\<exists>nodes \<in> bodies b. \<exists>k \<in> set (leaves nodes). writes_elsewhere (param_names (c_outputs (b_contract b))) k)
      (snd ?st0) ctx"
    using flags_cong [OF flags_trans [OF when_flags [OF b(1) e0, folded s1] when_flags [OF b(2) e1, folded c]]]
    by (simp add: bodies_def bex_Un)
  then show ?thesis using that [OF b e0 e1 e2] ok iff by blast
qed

lemma accepted_parts:
  assumes "analyze sha256 hex_encode b deps pats = Some (Inr ())"
  shows "contract_ok sha256 hex_encode b" "distinct (all_labels b)" "\<forall>nodes \<in> bodies b. terminates nodes" "roles_ok b"
  by (rule accepted [OF assms], assumption)+

lemma accepted_flags:
  assumes "analyze sha256 hex_encode b deps pats = Some (Inr ())"
  obtains ctx0 ctx where "guarantees_ok b ctx" "env_of b ctx0" "env_of b ctx"
    "flags (\<exists>nodes \<in> bodies b. \<exists>k \<in> set (top_leaves nodes). alloc_node k)
      (\<exists>nodes \<in> bodies b. \<exists>k \<in> set (leaves nodes). channel_node k)
      (\<exists>nodes \<in> bodies b. \<exists>k \<in> set (leaves nodes). writes_elsewhere (param_names (c_outputs (b_contract b))) k)
      ctx0 ctx"
  by (rule accepted [OF assms], rule that, assumption+)

lemma accepted_bodies:
  assumes acc: "analyze sha256 hex_encode b deps pats = Some (Inr ())" and n: "nodes \<in> bodies b"
  shows "\<exists>st ctx. visits_ok nodes st \<and> env_of b (snd st) \<and> owns_ok ctx nodes \<and> env_of b ctx"
proof (rule accepted [OF acc])
  fix st0 st1 ctx
  assume ok: "body_ok (impl_body b) st0 (snd st1)" "body_ok (b_composition b) st1 ctx"
    and env: "env_of b (snd st0)" "env_of b (snd st1)" "env_of b ctx"
  from n consider "nodes \<in> set_option (impl_body b)" | "nodes \<in> set_option (b_composition b)"
    unfolding bodies_def by blast
  then show ?thesis
  proof cases
    case 1
    then show ?thesis using ok(1) env(1,2) by (intro exI [of _ st0] exI [of _ "snd st1"]) (simp add: body_ok_def)
  next
    case 2
    then show ?thesis using ok(2) env(2,3) by (intro exI [of _ st1] exI [of _ ctx]) (simp add: body_ok_def)
  qed
qed

section \<open>A behavior to try things on\<close>

definition demo_line :: span where
  "demo_line = span_new 1 1 1"

definition demo_body :: "node list" where
  "demo_body = [Node demo_line (Assignment ''v'' (Load (Var ''x'') 8 None)),
     Node demo_line (Scope [Node demo_line (Assignment ''t'' (Alloc (IntLit 8) TBytes False)),
        Node demo_line (Store ''sum'' (IArith Iadd (Var ''v'') (IntLit 1) 8) 8 None)]),
     Node demo_line (Branch (Var ''v'') ''done'' ''done''),
     Node demo_line (Label ''done'')]"

definition demo :: behavior where
  "demo = (behavior_new ''demo'')\<lparr>b_contract :=
     \<lparr>c_inputs = [\<lparr>p_name = ''x'', p_typ = TInt, p_size = 8\<rparr>],
      c_outputs = [\<lparr>p_name = ''sum'', p_typ = TInt, p_size = 8\<rparr>],
      c_requires = requirements_default, c_guarantees = [Pure, NoAlloc, WritesOutput]\<rparr>,
     b_implementations := [\<lparr>pi_platform = None, pi_nodes = demo_body\<rparr>]\<rparr>"

lemma demo_accepted: "analyze (\<lambda>_. []) (\<lambda>_. []) demo [] [] = Some (Inr ())"
  by code_simp

section \<open>Properties\<close>

text \<open>
  The analyzer always returns a verdict: no phase panics or loops, whatever the behavior,
  the dependencies and the patterns are.
\<close>

theorem analyze_total: "\<exists>r. analyze sha256 hex_encode b dependencies patterns = Some r"
  using analyze_phases_reports [of sha256 hex_encode b dependencies patterns] by (auto simp: analyze_def)



lemma accepted_targets:
  assumes "analyze sha256 hex_encode b dependencies patterns = Some (Inr ())"
  shows "(\<Union>nodes \<in> bodies b. \<Union>k \<in> set (leaves nodes). targets k) \<subseteq> set (all_labels b)"
proof (clarify)
  fix l nodes k assume n: "nodes \<in> bodies b" and k: "k \<in> set (leaves nodes)" and l: "l \<in> targets k"
  obtain st ctx where v: "visits_ok nodes st" and e: "env_of b (snd st)"
    using accepted_bodies [OF assms n] by blast
  from k obtain c where c: "(c, k) \<in> set (visits nodes st)"
    unfolding snd_visits [of nodes st, symmetric] by auto
  then have "node_ok c k" using v by (auto simp: visits_ok_def)
  then have "l \<in> label_keys c"
    using l by (auto simp: targets_def node_ok_def label_exists_keys split: node_kind.splits)
  then show "l \<in> set (all_labels b)"
    using visits_labels [OF c] e by (simp add: env_of_def)
qed







end
