(* ===== verification/Sigil_Graph.thy ===== *)
theory Sigil_Graph
  imports Sigil_Hash
begin

text \<open>
  The behavior graph, after \<^verbatim>\<open>compiler/src/graph/mod.rs\<close>, with the gap detector of
  \<^verbatim>\<open>graph/gaps.rs\<close> and the constructions of \<^verbatim>\<open>graph/builder.rs\<close> that do not read
  files. A \<^verbatim>\<open>ProjectGraph\<close> is a record; a method that mutates it returns the new graph
  with its result. Node and edge ids are 64-bit words, so the two counters wrap.

  The operations that store a node take \<open>sha256\<close> and \<open>hex_encode\<close>, the third-party
  functions of \<open>compute_contract_hash\<close>.
\<close>

section \<open>Data\<close>

type_synonym node_id = "64 word"
type_synonym edge_id = "64 word"

datatype direction = DirIn | DirOut | DirError

record port =
  po_name :: string
  po_direction :: direction
  po_interpretation :: stype
  po_size :: usize
  po_discarded :: bool

definition port_input :: "string \<Rightarrow> stype \<Rightarrow> usize \<Rightarrow> port" where
  "port_input name typ sz =
     \<lparr>po_name = name, po_direction = DirIn, po_interpretation = typ, po_size = sz, po_discarded = False\<rparr>"

definition port_output :: "string \<Rightarrow> stype \<Rightarrow> usize \<Rightarrow> port" where
  "port_output name typ sz =
     \<lparr>po_name = name, po_direction = DirOut, po_interpretation = typ, po_size = sz, po_discarded = False\<rparr>"

definition port_error :: "string \<Rightarrow> stype \<Rightarrow> usize \<Rightarrow> port" where
  "port_error name typ sz =
     \<lparr>po_name = name, po_direction = DirError, po_interpretation = typ, po_size = sz, po_discarded = False\<rparr>"

record edge =
  ed_id :: edge_id
  ed_from_node :: node_id
  ed_from_port :: string
  ed_to_node :: node_id
  ed_to_port :: string

record gap =
  gp_node_id :: node_id
  gp_node_name :: string
  gp_port_name :: string
  gp_direction :: direction
  gp_port_type :: stype
  gp_port_size :: usize
  gp_question :: string

record dependency_ref =
  dr_name :: string
  dr_hash :: string

datatype example_value = ExInt i64 | ExFloat string | ExBytes "byte list" | ExStr string

record example_pair =
  xp_inputs :: "example_value list"
  xp_outputs :: "example_value list"

datatype behavior_kind = KLeaf | KComposite | KNative

datatype implementation = ImplLeaf "node list" | ImplComposite "node list"

record behavior_node =
  bn_id :: node_id
  bn_name :: string
  bn_hash :: string
  bn_kind :: behavior_kind
  bn_ports :: "port list"
  bn_guarantees :: "guarantee list"
  bn_requires :: "dependency_ref list"
  bn_implementation :: "implementation option"
  bn_examples :: "example_pair list"
  bn_description :: "string option"
  bn_source_path :: "string option"

record contract_ref =
  cr_name :: string
  cr_hash :: string
  cr_ports :: "port list"
  cr_guarantees :: "guarantee list"
  cr_library_path :: string

record project_graph =
  pg_nodes :: "(node_id, behavior_node) hmap"
  pg_library_nodes :: "(string, contract_ref) hmap"
  pg_edges :: "edge list"
  pg_next_node_id :: "64 word"
  pg_next_edge_id :: "64 word"

datatype behavior_lookup = Local behavior_node | Library contract_ref

datatype edge_error =
    NodeNotFound node_id
  | PortNotFound string string
  | WrongDirection string string string
  | TypeMismatch string string
  | SizeMismatch usize usize
  | AlreadyConnected string string

section \<open>Nodes and library references\<close>

definition behavior_node_new :: "node_id \<Rightarrow> string \<Rightarrow> behavior_kind \<Rightarrow> behavior_node" where
  "behavior_node_new i name kind =
     \<lparr>bn_id = i, bn_name = name, bn_hash = [], bn_kind = kind, bn_ports = [], bn_guarantees = [],
      bn_requires = [], bn_implementation = None, bn_examples = [], bn_description = None,
      bn_source_path = None\<rparr>"

definition bn_inputs :: "behavior_node \<Rightarrow> port list" where
  "bn_inputs n = filter (\<lambda>p. po_direction p = DirIn) (bn_ports n)"

definition bn_outputs :: "behavior_node \<Rightarrow> port list" where
  "bn_outputs n = filter (\<lambda>p. po_direction p = DirOut) (bn_ports n)"

definition bn_errors :: "behavior_node \<Rightarrow> port list" where
  "bn_errors n = filter (\<lambda>p. po_direction p = DirError) (bn_ports n)"

definition bn_port :: "behavior_node \<Rightarrow> string \<Rightarrow> port option" where
  "bn_port n name = find (\<lambda>p. po_name p = name) (bn_ports n)"

definition port_to_parameter :: "port \<Rightarrow> parameter" where
  "port_to_parameter p = \<lparr>p_name = po_name p, p_typ = po_interpretation p, p_size = po_size p\<rparr>"

definition to_ast_contract :: "behavior_node \<Rightarrow> contract" where
  "to_ast_contract n =
     \<lparr>c_inputs = map port_to_parameter (bn_inputs n),
      c_outputs = map port_to_parameter (bn_outputs n @ bn_errors n),
      c_requires =
        \<lparr>rq_behaviors = map (\<lambda>r. \<lparr>br_name = dr_name r, br_hash = dr_hash r\<rparr>) (bn_requires n),
         rq_memory = []\<rparr>,
      c_guarantees = bn_guarantees n\<rparr>"

definition to_ast_behavior :: "behavior_node \<Rightarrow> behavior" where
  "to_ast_behavior n =
     (let b = (behavior_new (bn_name n))
            \<lparr>b_contract := to_ast_contract n, b_hash := bn_hash n, b_description := bn_description n,
             b_is_native := (bn_kind n = KNative)\<rparr>
      in case bn_implementation n of
           Some (ImplLeaf nodes) \<Rightarrow>
             b\<lparr>b_implementations := b_implementations b @ [\<lparr>pi_platform = None, pi_nodes = nodes\<rparr>]\<rparr>
         | Some (ImplComposite nodes) \<Rightarrow> b\<lparr>b_composition := Some nodes\<rparr>
         | None \<Rightarrow> b)"

definition compute_hash ::
  "(byte list \<Rightarrow> byte list) \<Rightarrow> (byte list \<Rightarrow> string) \<Rightarrow> behavior_node \<Rightarrow> string" where
  "compute_hash sha256 hex_encode n = compute_contract_hash sha256 hex_encode (to_ast_contract n)"

definition update_hash ::
  "(byte list \<Rightarrow> byte list) \<Rightarrow> (byte list \<Rightarrow> string) \<Rightarrow> behavior_node \<Rightarrow> behavior_node \<times> bool" where
  "update_hash sha256 hex_encode n =
     (let new_hash = compute_hash sha256 hex_encode n
      in if new_hash \<noteq> bn_hash n then (n\<lparr>bn_hash := new_hash\<rparr>, True) else (n, False))"

definition cr_port :: "contract_ref \<Rightarrow> string \<Rightarrow> port option" where
  "cr_port c name = find (\<lambda>p. po_name p = name) (cr_ports c)"

definition cr_inputs :: "contract_ref \<Rightarrow> port list" where
  "cr_inputs c = filter (\<lambda>p. po_direction p = DirIn) (cr_ports c)"

definition cr_outputs :: "contract_ref \<Rightarrow> port list" where
  "cr_outputs c = filter (\<lambda>p. po_direction p = DirOut) (cr_ports c)"

fun lookup_hash :: "behavior_lookup \<Rightarrow> string" where
  "lookup_hash (Local n) = bn_hash n"
| "lookup_hash (Library c) = cr_hash c"

fun lookup_port :: "behavior_lookup \<Rightarrow> string \<Rightarrow> port option" where
  "lookup_port (Local n) name = bn_port n name"
| "lookup_port (Library c) name = cr_port c name"

section \<open>Operations on the graph\<close>

definition project_graph_new :: project_graph where
  "project_graph_new =
     \<lparr>pg_nodes = [], pg_library_nodes = [], pg_edges = [], pg_next_node_id = 1, pg_next_edge_id = 1\<rparr>"

definition next_node_id :: "project_graph \<Rightarrow> project_graph \<times> node_id" where
  "next_node_id g = (g\<lparr>pg_next_node_id := pg_next_node_id g + 1\<rparr>, pg_next_node_id g)"

definition next_edge_id :: "project_graph \<Rightarrow> project_graph \<times> edge_id" where
  "next_edge_id g = (g\<lparr>pg_next_edge_id := pg_next_edge_id g + 1\<rparr>, pg_next_edge_id g)"

definition add_node ::
  "(byte list \<Rightarrow> byte list) \<Rightarrow> (byte list \<Rightarrow> string) \<Rightarrow> project_graph \<Rightarrow> behavior_node
     \<Rightarrow> project_graph \<times> node_id" where
  "add_node sha256 hex_encode g n =
     (let i = bn_id n; n' = fst (update_hash sha256 hex_encode n)
      in (g\<lparr>pg_nodes := hm_insert i n' (pg_nodes g)\<rparr>, i))"

definition remove_node :: "project_graph \<Rightarrow> node_id \<Rightarrow> project_graph \<times> behavior_node option" where
  "remove_node g i =
     (g\<lparr>pg_edges := filter (\<lambda>e. ed_from_node e \<noteq> i \<and> ed_to_node e \<noteq> i) (pg_edges g),
        pg_nodes := hm_remove i (pg_nodes g)\<rparr>,
      hm_get (pg_nodes g) i)"

definition find_node :: "project_graph \<Rightarrow> string \<Rightarrow> behavior_node option" where
  "find_node g name = find (\<lambda>n. bn_name n = name) (hm_values (pg_nodes g))"

definition find_node_id :: "project_graph \<Rightarrow> string \<Rightarrow> node_id option" where
  "find_node_id g name = map_option bn_id (find (\<lambda>n. bn_name n = name) (hm_values (pg_nodes g)))"

definition add_library_node :: "project_graph \<Rightarrow> contract_ref \<Rightarrow> project_graph" where
  "add_library_node g c = g\<lparr>pg_library_nodes := hm_insert (cr_name c) c (pg_library_nodes g)\<rparr>"

definition lookup :: "project_graph \<Rightarrow> string \<Rightarrow> behavior_lookup option" where
  "lookup g name =
     (case find_node g name of
        Some n \<Rightarrow> Some (Local n)
      | None \<Rightarrow> (case hm_get (pg_library_nodes g) name of Some c \<Rightarrow> Some (Library c) | None \<Rightarrow> None))"

definition resolve_port :: "project_graph \<Rightarrow> node_id \<Rightarrow> string \<Rightarrow> edge_error + port" where
  "resolve_port g i name =
     (case hm_get (pg_nodes g) i of
        Some n \<Rightarrow> (case bn_port n name of Some p \<Rightarrow> Inr p | None \<Rightarrow> Inl (PortNotFound (bn_name n) name))
      | None \<Rightarrow> Inl (NodeNotFound i))"

definition graph_node_name :: "project_graph \<Rightarrow> node_id \<Rightarrow> string" where
  "graph_node_name g i =
     (case hm_get (pg_nodes g) i of
        Some n \<Rightarrow> bn_name n
      | None \<Rightarrow> ''<node '' @ usize_to_dec i @ ''>'')"

fun type_debug :: "stype \<Rightarrow> string" where
  "type_debug TBytes = ''Bytes''"
| "type_debug TInt = ''Int''"
| "type_debug TFloat = ''Float''"
| "type_debug TString = ''String''"

definition port_has_consumer :: "project_graph \<Rightarrow> node_id \<Rightarrow> string \<Rightarrow> bool" where
  "port_has_consumer g i name =
     list_ex (\<lambda>e. ed_from_node e = i \<and> ed_from_port e = name) (pg_edges g)"

definition port_has_source :: "project_graph \<Rightarrow> node_id \<Rightarrow> string \<Rightarrow> bool" where
  "port_has_source g i name =
     list_ex (\<lambda>e. ed_to_node e = i \<and> ed_to_port e = name) (pg_edges g)"

definition add_edge ::
  "project_graph \<Rightarrow> node_id \<Rightarrow> string \<Rightarrow> node_id \<Rightarrow> string \<Rightarrow> project_graph \<times> (edge_error + edge_id)" where
  "add_edge g from_node from_port to_node to_port =
     (case resolve_port g from_node from_port of
        Inl e \<Rightarrow> (g, Inl e)
      | Inr from_p \<Rightarrow>
          if po_direction from_p = DirIn
          then (g, Inl (WrongDirection (graph_node_name g from_node) from_port ''Out or Error''))
          else (case resolve_port g to_node to_port of
              Inl e \<Rightarrow> (g, Inl e)
            | Inr to_p \<Rightarrow>
                if po_direction to_p \<noteq> DirIn
                then (g, Inl (WrongDirection (graph_node_name g to_node) to_port ''In''))
                else if po_interpretation from_p \<noteq> po_interpretation to_p
                then (g, Inl (TypeMismatch (type_debug (po_interpretation from_p)) (type_debug (po_interpretation to_p))))
                else if po_size from_p \<noteq> po_size to_p
                then (g, Inl (SizeMismatch (po_size from_p) (po_size to_p)))
                else if list_ex (\<lambda>e. ed_to_node e = to_node \<and> ed_to_port e = to_port) (pg_edges g)
                then (g, Inl (AlreadyConnected (graph_node_name g to_node) to_port))
                else (let (g', i) = next_edge_id g
                      in (g'\<lparr>pg_edges := pg_edges g' @
                               [\<lparr>ed_id = i, ed_from_node = from_node, ed_from_port = from_port,
                                 ed_to_node = to_node, ed_to_port = to_port\<rparr>]\<rparr>, Inr i))))"

definition remove_edge :: "project_graph \<Rightarrow> edge_id \<Rightarrow> project_graph \<times> bool" where
  "remove_edge g i =
     (let es = filter (\<lambda>e. ed_id e \<noteq> i) (pg_edges g)
      in (g\<lparr>pg_edges := es\<rparr>, length es < length (pg_edges g)))"

fun edge_error_display :: "edge_error \<Rightarrow> string" where
  "edge_error_display (NodeNotFound i) = ''Node '' @ usize_to_dec i @ '' not found''"
| "edge_error_display (PortNotFound node_name port) =
     ''Port '' @ single_quoted port @ '' not found on '' @ single_quoted node_name"
| "edge_error_display (WrongDirection node_name port expected) =
     ''Port '' @ single_quoted port @ '' on '' @ single_quoted node_name @ '' must be '' @ expected @ '' direction''"
| "edge_error_display (TypeMismatch f t) = ''Type mismatch: '' @ f @ '' -> '' @ t"
| "edge_error_display (SizeMismatch f t) =
     ''Size mismatch: '' @ usize_to_dec f @ '' bytes -> '' @ usize_to_dec t @ '' bytes''"
| "edge_error_display (AlreadyConnected node_name port) =
     ''Input port '' @ single_quoted port @ '' on '' @ single_quoted node_name @ '' already has a source''"

section \<open>Gaps\<close>

definition em_dash :: string where
  "em_dash = [CHR 0xE2, CHR 0x80, CHR 0x94]"

definition port_text :: "behavior_node \<Rightarrow> string \<Rightarrow> port \<Rightarrow> string \<Rightarrow> string" where
  "port_text n verb p ask =
     ''Behavior '' @ single_quoted (bn_name n) @ verb @ single_quoted (po_name p)
     @ '' ('' @ type_debug (po_interpretation p) @ '', '' @ usize_to_dec (po_size p) @ '' bytes) ''
     @ em_dash @ ask"

definition port_gap :: "behavior_node \<Rightarrow> port \<Rightarrow> direction \<Rightarrow> string \<Rightarrow> gap" where
  "port_gap n p d question =
     \<lparr>gp_node_id = bn_id n, gp_node_name = bn_name n, gp_port_name = po_name p, gp_direction = d,
      gp_port_type = po_interpretation p, gp_port_size = po_size p, gp_question = question\<rparr>"

definition find_port_gap :: "project_graph \<Rightarrow> behavior_node \<Rightarrow> port \<Rightarrow> gap list" where
  "find_port_gap g n p =
     (case po_direction p of
        DirIn \<Rightarrow>
          if \<not> port_has_source g (bn_id n) (po_name p)
          then [port_gap n p DirIn (port_text n '' needs input '' p '' where does this data come from?'')]
          else []
      | DirOut \<Rightarrow>
          if \<not> po_discarded p \<and> \<not> port_has_consumer g (bn_id n) (po_name p)
          then [port_gap n p DirOut (port_text n '' produces output '' p '' what should happen with this data?'')]
          else []
      | DirError \<Rightarrow>
          if \<not> po_discarded p \<and> \<not> port_has_consumer g (bn_id n) (po_name p)
          then [port_gap n p DirError (port_text n '' can produce error '' p '' how should this error be handled?'')]
          else [])"

definition find_port_gaps :: "project_graph \<Rightarrow> behavior_node \<Rightarrow> gap list" where
  "find_port_gaps g n = concat (map (find_port_gap g n) (bn_ports n))"

definition dependency_gap :: "behavior_node \<Rightarrow> dependency_ref \<Rightarrow> string \<Rightarrow> gap" where
  "dependency_gap n d question =
     \<lparr>gp_node_id = bn_id n, gp_node_name = bn_name n, gp_port_name = dr_name d, gp_direction = DirIn,
      gp_port_type = TBytes, gp_port_size = 0, gp_question = question\<rparr>"

definition find_dependency_gap :: "project_graph \<Rightarrow> behavior_node \<Rightarrow> dependency_ref \<Rightarrow> gap list" where
  "find_dependency_gap g n d =
     (case lookup g (dr_name d) of
        Some found \<Rightarrow>
          if dr_hash d \<noteq> [] \<and> lookup_hash found \<noteq> dr_hash d
          then [dependency_gap n d
                  (''Behavior '' @ single_quoted (bn_name n) @ '' expects ''
                   @ single_quoted (dr_name d @ ''@'' @ dr_hash d) @ '' but '' @ single_quoted (dr_name d)
                   @ '' is now @'' @ lookup_hash found @ '' '' @ em_dash
                   @ '' the dependency'' @ [CHR 0x27] @ ''s contract changed. Accept the update?'')]
          else []
      | None \<Rightarrow>
          [dependency_gap n d
             (''Behavior '' @ single_quoted (bn_name n) @ '' requires '' @ single_quoted (dr_name d)
              @ '' but it'' @ [CHR 0x27] @ ''s not defined '' @ em_dash @ '' what should ''
              @ single_quoted (dr_name d) @ '' do?'')])"

definition find_dependency_gaps :: "project_graph \<Rightarrow> behavior_node \<Rightarrow> gap list" where
  "find_dependency_gaps g n = concat (map (find_dependency_gap g n) (bn_requires n))"

definition find_gaps :: "project_graph \<Rightarrow> gap list" where
  "find_gaps g = concat (map (\<lambda>n. find_port_gaps g n @ find_dependency_gaps g n) (hm_values (pg_nodes g)))"

definition is_complete :: "project_graph \<Rightarrow> bool" where
  "is_complete g = (find_gaps g = [])"

text \<open>
  The two counts of \<^verbatim>\<open>completeness_pct\<close> before they are converted to floating point.
  The subtraction is on \<^verbatim>\<open>usize\<close>, so it is checked: \<open>Underflow\<close> is the panic of a build
  with overflow checks (the wrap to a huge count of one without).
\<close>

datatype completeness = NoPorts | Ratio nat nat | Underflow

definition completeness_pct :: "project_graph \<Rightarrow> completeness" where
  "completeness_pct g =
     (let gaps = find_gaps g;
          total_ports = sum_list (map (\<lambda>n. length (bn_ports n)) (hm_values (pg_nodes g)))
      in if total_ports = 0 then NoPorts
         else if total_ports < length gaps then Underflow
         else Ratio (total_ports - length gaps) total_ports)"

section \<open>Building nodes from behaviors\<close>

definition input_port_of :: "parameter \<Rightarrow> port" where
  "input_port_of p = port_input (p_name p) (p_typ p) (p_size p)"

definition output_port_of :: "parameter \<Rightarrow> port" where
  "output_port_of p = port_output (p_name p) (p_typ p) (p_size p)"

definition behavior_to_node ::
  "project_graph \<Rightarrow> behavior \<Rightarrow> string option \<Rightarrow> project_graph \<times> behavior_node" where
  "behavior_to_node g b source_path =
     (let (g', i) = next_node_id g;
          kind = (if b_is_native b then KNative
                  else if b_composition b \<noteq> None then KComposite else KLeaf);
          n = behavior_node_new i (b_name b) kind
      in (g', n\<lparr>bn_description := b_description b, bn_source_path := source_path,
               bn_ports := map input_port_of (c_inputs (b_contract b))
                           @ map output_port_of (c_outputs (b_contract b)),
               bn_guarantees := c_guarantees (b_contract b),
               bn_requires := map (\<lambda>r. \<lparr>dr_name = br_name r, dr_hash = br_hash r\<rparr>)
                                (rq_behaviors (c_requires (b_contract b))),
               bn_implementation :=
                 (case b_composition b of
                    Some nodes \<Rightarrow> Some (ImplComposite nodes)
                  | None \<Rightarrow> (case b_implementations b of
                       i # _ \<Rightarrow> Some (ImplLeaf (pi_nodes i)) | [] \<Rightarrow> None))\<rparr>))"

definition contract_to_ref :: "string \<Rightarrow> contract \<Rightarrow> string \<Rightarrow> string \<Rightarrow> contract_ref" where
  "contract_to_ref name c h library_path =
     \<lparr>cr_name = name, cr_hash = h,
      cr_ports = map input_port_of (c_inputs c) @ map output_port_of (c_outputs c),
      cr_guarantees = c_guarantees c, cr_library_path = library_path\<rparr>"

definition call_edges :: "project_graph \<Rightarrow> node_id \<Rightarrow> node \<Rightarrow> (node_id \<times> string \<times> node_id \<times> string) list" where
  "call_edges g i ast_node =
     (case node_kind_of ast_node of
        CallNode _ callee_name _ _ \<Rightarrow>
          (case find_node_id g callee_name of
             Some callee_id \<Rightarrow>
               (let callee_inputs = (case hm_get (pg_nodes g) callee_id of
                      Some n \<Rightarrow> map po_name (bn_inputs n) | None \<Rightarrow> [])
                in concat (map (\<lambda>port_name.
                     (case hm_get (pg_nodes g) i of
                        Some n \<Rightarrow> if bn_port n port_name \<noteq> None then [(i, port_name, callee_id, port_name)] else []
                      | None \<Rightarrow> [])) callee_inputs))
           | None \<Rightarrow> [])
      | _ \<Rightarrow> [])"

definition edges_to_add :: "project_graph \<Rightarrow> (node_id \<times> string \<times> node_id \<times> string) list" where
  "edges_to_add g =
     concat (map (\<lambda>i. case hm_get (pg_nodes g) i of
         None \<Rightarrow> []
       | Some n \<Rightarrow>
           if bn_kind n \<noteq> KComposite then []
           else (case bn_implementation n of
               Some (ImplComposite nodes) \<Rightarrow> concat (map (call_edges g i) nodes)
             | _ \<Rightarrow> []))
       (hm_keys (pg_nodes g)))"

definition derive_edges_from_composites :: "project_graph \<Rightarrow> project_graph" where
  "derive_edges_from_composites g =
     fold (\<lambda>(f, fp, t, tp) g. fst (add_edge g f fp t tp)) (edges_to_add g) g"

end
