(* ===== verification/Sigil_Graph_Inv.thy ===== *)
theory Sigil_Graph_Inv
  imports Sigil_Graph
begin

text \<open>
  What the graph of \<^verbatim>\<open>compiler/src/graph/mod.rs\<close> maintains: edges only ever join an
  output or error port to an input port of the same type and size, an input port has at most
  one source, ids are unique, and the hash stored with a node is the hash of its contract.
  The calls a client can make are the step relation \<open>graph_step\<close>; the invariant holds of
  every graph that a sequence of such calls reaches. The gap detector is then exact about
  these graphs.
\<close>

named_theorems graph_simps \<open>effect of the graph operations\<close>

section \<open>The invariant\<close>

definition wirable :: "project_graph \<Rightarrow> node_id \<Rightarrow> string \<Rightarrow> node_id \<Rightarrow> string \<Rightarrow> bool" where
  "wirable g f fp t tp \<longleftrightarrow>
     (case (resolve_port g f fp, resolve_port g t tp) of
        (Inr p, Inr q) \<Rightarrow> po_direction p \<noteq> DirIn \<and> po_direction q = DirIn
          \<and> po_interpretation p = po_interpretation q \<and> po_size p = po_size q
      | _ \<Rightarrow> False)"

definition edge_target :: "edge \<Rightarrow> node_id \<times> string" where
  "edge_target e = (ed_to_node e, ed_to_port e)"

definition edges_ok :: "project_graph \<Rightarrow> bool" where
  "edges_ok g \<longleftrightarrow>
     list_all (\<lambda>e. wirable g (ed_from_node e) (ed_from_port e) (ed_to_node e) (ed_to_port e)) (pg_edges g)
     \<and> distinct (map edge_target (pg_edges g))
     \<and> distinct (map ed_id (pg_edges g))
     \<and> list_all (\<lambda>e. ed_id e < pg_next_edge_id g) (pg_edges g)"

definition nodes_ok ::
  "(byte list \<Rightarrow> byte list) \<Rightarrow> (byte list \<Rightarrow> string) \<Rightarrow> project_graph \<Rightarrow> bool" where
  "nodes_ok sha256 hex_encode g \<longleftrightarrow> hm_wf (pg_nodes g) \<and>
     list_all (\<lambda>(i, n). bn_id n = i \<and> i < pg_next_node_id g
       \<and> bn_hash n = compute_hash sha256 hex_encode n) (pg_nodes g)"

definition library_ok :: "project_graph \<Rightarrow> bool" where
  "library_ok g \<longleftrightarrow> hm_wf (pg_library_nodes g) \<and> list_all (\<lambda>(name, c). cr_name c = name) (pg_library_nodes g)"

definition graph_ok ::
  "(byte list \<Rightarrow> byte list) \<Rightarrow> (byte list \<Rightarrow> string) \<Rightarrow> project_graph \<Rightarrow> bool" where
  "graph_ok sha256 hex_encode g \<longleftrightarrow> nodes_ok sha256 hex_encode g \<and> library_ok g \<and> edges_ok g"

lemma hm_all_iff: "hm_wf m \<Longrightarrow> list_all (\<lambda>(k, v). P k v) m \<longleftrightarrow> (\<forall>k v. hm_get m k = Some v \<longrightarrow> P k v)"
  by (auto simp: list_all_iff hm_wf_def hm_get_def)

lemma nodes_ok_iff:
  "nodes_ok sha hx g \<longleftrightarrow> hm_wf (pg_nodes g) \<and> (\<forall>i n. hm_get (pg_nodes g) i = Some n \<longrightarrow>
     bn_id n = i \<and> i < pg_next_node_id g \<and> bn_hash n = compute_hash sha hx n)"
  unfolding nodes_ok_def by (rule conj_cong [OF refl]) (rule hm_all_iff)

lemma library_ok_iff:
  "library_ok g \<longleftrightarrow> hm_wf (pg_library_nodes g) \<and> (\<forall>name c. hm_get (pg_library_nodes g) name = Some c \<longrightarrow> cr_name c = name)"
  unfolding library_ok_def by (rule conj_cong [OF refl]) (rule hm_all_iff)

lemma compute_hash_update [graph_simps]: "compute_hash sha hx (n\<lparr>bn_hash := h\<rparr>) = compute_hash sha hx n"
  by (simp add: compute_hash_def to_ast_contract_def bn_inputs_def bn_outputs_def bn_errors_def)

lemma update_hash_node [graph_simps]: "fst (update_hash sha hx n) = n\<lparr>bn_hash := compute_hash sha hx n\<rparr>"
  by (simp add: update_hash_def Let_def)

lemma unat_counter_Suc: "(n :: 64 word) \<noteq> usize_max \<Longrightarrow> unat (n + 1) = Suc (unat n)"
  using unatSuc [of n] by (simp add: usize_max_def add.commute eq_neg_iff_add_eq_0)

lemma counter_less_Suc: "(n :: 64 word) \<noteq> usize_max \<Longrightarrow> n < n + 1"
  by (simp add: word_less_nat_alt unat_counter_Suc)

section \<open>Wirability depends on the nodes only\<close>

lemma wirable_mono:
  assumes "\<And>i n. hm_get (pg_nodes g) i = Some n \<Longrightarrow> i \<in> {f, t} \<Longrightarrow> hm_get (pg_nodes g') i = Some n"
    and "wirable g f fp t tp"
  shows "wirable g' f fp t tp"
  using assms unfolding wirable_def resolve_port_def
  by (auto split: option.splits sum.splits)

lemma wirable_cong: "pg_nodes g = pg_nodes g' \<Longrightarrow> wirable g f fp t tp = wirable g' f fp t tp"
  by (simp add: wirable_def resolve_port_def)

lemma edges_ok_mono:
  assumes "edges_ok g" "pg_edges g' = pg_edges g" "pg_next_edge_id g' = pg_next_edge_id g"
    and "\<And>i n. hm_get (pg_nodes g) i = Some n \<Longrightarrow> hm_get (pg_nodes g') i = Some n"
  shows "edges_ok g'"
  using assms(1) wirable_mono [OF assms(4)] unfolding edges_ok_def assms(2,3) list_all_iff by blast

lemma edges_ok_filter:
  assumes "edges_ok g" "pg_edges g' = filter P (pg_edges g)" "pg_next_edge_id g' = pg_next_edge_id g"
    and "\<And>e i n. P e \<Longrightarrow> i \<in> {ed_from_node e, ed_to_node e} \<Longrightarrow>
           hm_get (pg_nodes g) i = Some n \<Longrightarrow> hm_get (pg_nodes g') i = Some n"
  shows "edges_ok g'"
proof -
  have "wirable g' (ed_from_node e) (ed_from_port e) (ed_to_node e) (ed_to_port e)"
    if "e \<in> set (pg_edges g)" "P e" for e
    by (rule wirable_mono [OF assms(4) [OF that(2)]])
      (use assms(1) that(1) in \<open>auto simp: edges_ok_def list_all_iff\<close>)
  then show ?thesis
    using assms(1) unfolding edges_ok_def assms(2,3) list_all_iff by (auto simp: distinct_map_filter)
qed

section \<open>Effects of the operations\<close>

lemma add_edge_cases:
  obtains (err) e where "add_edge g f fp t tp = (g, Inl e)" "\<not> wirable g f fp t tp \<or> port_has_source g t tp"
  | (ok) "wirable g f fp t tp" "\<not> port_has_source g t tp"
      "add_edge g f fp t tp =
        (g\<lparr>pg_edges := pg_edges g @ [\<lparr>ed_id = pg_next_edge_id g, ed_from_node = f, ed_from_port = fp,
              ed_to_node = t, ed_to_port = tp\<rparr>], pg_next_edge_id := pg_next_edge_id g + 1\<rparr>,
         Inr (pg_next_edge_id g))"
proof (cases "wirable g f fp t tp \<and> \<not> port_has_source g t tp")
  case True
  then show ?thesis
    by (intro ok) (auto simp: add_edge_def wirable_def port_has_source_def next_edge_id_def split: sum.splits)
next
  case False
  then have "\<exists>e. add_edge g f fp t tp = (g, Inl e)"
    by (auto simp: add_edge_def wirable_def port_has_source_def split: sum.splits)
  then show ?thesis using False err by blast
qed

lemma port_has_source_iff: "port_has_source g t tp \<longleftrightarrow> (t, tp) \<in> edge_target ` set (pg_edges g)"
  by (auto simp: port_has_source_def list_ex_iff edge_target_def)

lemma add_edge_frame [graph_simps]:
  "pg_nodes (fst (add_edge g f fp t tp)) = pg_nodes g"
  "pg_library_nodes (fst (add_edge g f fp t tp)) = pg_library_nodes g"
  "pg_next_node_id (fst (add_edge g f fp t tp)) = pg_next_node_id g"
  by (cases rule: add_edge_cases [of g f fp t tp]; simp)+

lemma add_edge_ok:
  assumes "edges_ok g" "pg_next_edge_id g \<noteq> usize_max"
  shows "edges_ok (fst (add_edge g f fp t tp))"
proof (cases rule: add_edge_cases [of g f fp t tp])
  case (err e)
  then show ?thesis using assms(1) by simp
next
  case ok
  let ?g = "fst (add_edge g f fp t tp)"
  have w: "wirable ?g a b c d = wirable g a b c d" for a b c d
    by (rule wirable_cong) (simp add: graph_simps)
  have lt: "i < pg_next_edge_id g + 1" if "i < pg_next_edge_id g" for i
    using that counter_less_Suc [OF assms(2)] by simp
  show ?thesis
    using assms(1) ok lt counter_less_Suc [OF assms(2)] unfolding edges_ok_def list_all_iff w
    by (auto simp: port_has_source_iff edge_target_def)
qed

lemma graph_ok_frame:
  assumes "graph_ok sha hx g" "pg_nodes g' = pg_nodes g" "pg_library_nodes g' = pg_library_nodes g"
    "pg_next_node_id g' = pg_next_node_id g" "edges_ok g'"
  shows "graph_ok sha hx g'"
  using assms by (simp add: graph_ok_def nodes_ok_def library_ok_def)

lemma graph_ok_add_edge:
  "graph_ok sha hx g \<Longrightarrow> pg_next_edge_id g \<noteq> usize_max \<Longrightarrow> graph_ok sha hx (fst (add_edge g f fp t tp))"
  by (rule graph_ok_frame) (simp_all add: graph_simps add_edge_ok graph_ok_def)

lemma counter_room:
  "unat (n :: 64 word) + Suc k < 2 ^ 64 \<Longrightarrow> n \<noteq> usize_max \<and> unat (n + 1) + k < 2 ^ 64"
proof -
  assume a: "unat n + Suc k < 2 ^ 64"
  then have "n \<noteq> usize_max" by auto
  then show ?thesis using a by (simp add: unat_counter_Suc)
qed

lemma graph_ok_add_edges:
  "graph_ok sha hx g \<Longrightarrow> unat (pg_next_edge_id g) + length es < 2 ^ 64 \<Longrightarrow>
    graph_ok sha hx (fold (\<lambda>(f, fp, t, tp) g. fst (add_edge g f fp t tp)) es g)"
proof (induction es arbitrary: g)
  case (Cons e es)
  obtain f fp t tp where e: "e = (f, fp, t, tp)" by (cases e)
  let ?g = "fst (add_edge g f fp t tp)"
  have n: "pg_next_edge_id g \<noteq> usize_max" "unat (pg_next_edge_id g + 1) + length es < 2 ^ 64"
    using counter_room [of "pg_next_edge_id g" "length es"] Cons.prems(2) by simp_all
  have "unat (pg_next_edge_id ?g) + length es < 2 ^ 64"
    using n(2) Cons.prems(2) by (cases rule: add_edge_cases [of g f fp t tp]) simp_all
  from Cons.IH [OF graph_ok_add_edge [OF Cons.prems(1) n(1)] this] show ?case by (simp add: e)
qed simp

lemma graph_ok_add_behavior:
  assumes ok: "graph_ok sha hx g" and btn: "behavior_to_node g b sp = (g1, n)"
    and room: "pg_next_node_id g \<noteq> usize_max"
  shows "graph_ok sha hx (fst (add_node sha hx g1 n))"
proof -
  let ?g = "fst (add_node sha hx g1 n)" and ?i = "pg_next_node_id g"
  let ?n = "n\<lparr>bn_hash := compute_hash sha hx n\<rparr>"
  have g: "?g = g\<lparr>pg_next_node_id := ?i + 1, pg_nodes := hm_insert ?i ?n (pg_nodes g)\<rparr>" and i: "bn_id n = ?i"
    using btn by (auto simp: add_node_def behavior_to_node_def next_node_id_def Let_def graph_simps behavior_node_new_def)
  have nodes: "nodes_ok sha hx g" and e: "edges_ok g" and l: "library_ok g" using ok by (simp_all add: graph_ok_def)
  have fresh: "hm_get (pg_nodes g) ?i = None" 
    using nodes by (cases "hm_get (pg_nodes g) ?i") (auto simp: nodes_ok_iff)
  have "nodes_ok sha hx ?g"
    using nodes less_trans [OF _ counter_less_Suc [OF room]] counter_less_Suc [OF room] unfolding nodes_ok_iff g
    by (simp add: i graph_simps)
  moreover have "edges_ok ?g"
    by (rule edges_ok_mono [OF e]) (auto simp: g fresh)
  moreover have "library_ok ?g" using l by (simp add: g library_ok_def)
  ultimately show ?thesis by (simp add: graph_ok_def)
qed

lemma graph_ok_remove_node:
  assumes "graph_ok sha hx g"
  shows "graph_ok sha hx (fst (remove_node g i))"
proof -
  have "nodes_ok sha hx (fst (remove_node g i))"
    using assms by (auto simp: graph_ok_def nodes_ok_iff remove_node_def split: if_splits)
  moreover have "edges_ok (fst (remove_node g i))"
    by (rule edges_ok_filter [of g _ "\<lambda>e. ed_from_node e \<noteq> i \<and> ed_to_node e \<noteq> i"])
      (use assms in \<open>auto simp: graph_ok_def remove_node_def\<close>)
  moreover have "library_ok (fst (remove_node g i))"
    using assms by (simp add: graph_ok_def library_ok_def remove_node_def)
  ultimately show ?thesis by (simp add: graph_ok_def)
qed

lemma graph_ok_remove_edge:
  assumes "graph_ok sha hx g"
  shows "graph_ok sha hx (fst (remove_edge g i))"
proof (rule graph_ok_frame [OF assms])
  show "edges_ok (fst (remove_edge g i))"
    by (rule edges_ok_filter [of g _ "\<lambda>e. ed_id e \<noteq> i"])
      (use assms in \<open>auto simp: graph_ok_def remove_edge_def Let_def\<close>)
qed (simp_all add: remove_edge_def Let_def)

lemma graph_ok_add_library:
  assumes "graph_ok sha hx g"
  shows "graph_ok sha hx (add_library_node g c)"
proof -
  have "edges_ok (add_library_node g c)"
    by (rule edges_ok_mono [of g]) (use assms in \<open>auto simp: graph_ok_def add_library_node_def\<close>)
  then show ?thesis
    using assms by (auto simp: graph_ok_def nodes_ok_def library_ok_iff add_library_node_def split: if_splits)
qed

lemma graph_ok_new: "graph_ok sha hx project_graph_new"
  by (simp add: graph_ok_def nodes_ok_def library_ok_def edges_ok_def project_graph_new_def)

section \<open>Reachable graphs\<close>

inductive graph_step ::
  "(byte list \<Rightarrow> byte list) \<Rightarrow> (byte list \<Rightarrow> string) \<Rightarrow> project_graph \<Rightarrow> project_graph \<Rightarrow> bool"
  for sha256 hex_encode where
  step_behavior: "behavior_to_node g b source_path = (g1, n) \<Longrightarrow> pg_next_node_id g \<noteq> usize_max
    \<Longrightarrow> graph_step sha256 hex_encode g (fst (add_node sha256 hex_encode g1 n))"
| step_library: "graph_step sha256 hex_encode g (add_library_node g c)"
| step_add_edge: "pg_next_edge_id g \<noteq> usize_max
    \<Longrightarrow> graph_step sha256 hex_encode g (fst (add_edge g f fp t tp))"
| step_remove_edge: "graph_step sha256 hex_encode g (fst (remove_edge g i))"
| step_remove_node: "graph_step sha256 hex_encode g (fst (remove_node g i))"
| step_derive: "unat (pg_next_edge_id g) + length (edges_to_add g) < 2 ^ 64
    \<Longrightarrow> graph_step sha256 hex_encode g (derive_edges_from_composites g)"

inductive graph_reach ::
  "(byte list \<Rightarrow> byte list) \<Rightarrow> (byte list \<Rightarrow> string) \<Rightarrow> project_graph \<Rightarrow> bool"
  for sha256 hex_encode where
  reach_new: "graph_reach sha256 hex_encode project_graph_new"
| reach_step: "graph_reach sha256 hex_encode g \<Longrightarrow> graph_step sha256 hex_encode g g'
    \<Longrightarrow> graph_reach sha256 hex_encode g'"

inductive_cases graph_stepE: "graph_step sha hx g g'"

lemma graph_step_ok: "graph_step sha hx g g' \<Longrightarrow> graph_ok sha hx g \<Longrightarrow> graph_ok sha hx g'"
  by (cases rule: graph_step.cases)
    (auto intro: graph_ok_add_behavior graph_ok_add_library graph_ok_add_edge graph_ok_remove_edge
       graph_ok_remove_node graph_ok_add_edges simp: derive_edges_from_composites_def)

lemma graph_reach_ok: "graph_reach sha hx g \<Longrightarrow> graph_ok sha hx g"
  by (induction rule: graph_reach.induct) (auto intro: graph_ok_new graph_step_ok)

section \<open>Properties\<close>

text \<open>
  \<^verbatim>\<open>ProjectGraph::add_edge\<close> succeeds exactly when the source port exists and is not an
  input, the target port exists and is an input without a source, and both have the same type
  and size. It then appends one edge under the next id; otherwise it changes nothing.
\<close>

theorem add_edge_exact:
  "case add_edge g f fp t tp of
     (g', Inl e) \<Rightarrow> g' = g \<and> \<not> (wirable g f fp t tp \<and> \<not> port_has_source g t tp)
   | (g', Inr i) \<Rightarrow> wirable g f fp t tp \<and> \<not> port_has_source g t tp \<and> i = pg_next_edge_id g
       \<and> g' = g\<lparr>pg_edges := pg_edges g @ [\<lparr>ed_id = i, ed_from_node = f, ed_from_port = fp, ed_to_node = t,
               ed_to_port = tp\<rparr>], pg_next_edge_id := i + 1\<rparr>"
  by (cases rule: add_edge_cases [of g f fp t tp]) auto


definition demo_hash :: "byte list \<Rightarrow> byte list" where
  "demo_hash bs = take 4 (rev bs)"

definition demo_hex :: "byte list \<Rightarrow> string" where
  "demo_hex bs = map (\<lambda>b. char_of (unat b)) bs"

definition producer :: behavior where
  "producer = (behavior_new ''producer'')\<lparr>b_contract := empty_contract
     \<lparr>c_outputs := [\<lparr>p_name = ''data'', p_typ = TInt, p_size = 8\<rparr>], c_guarantees := [Pure]\<rparr>\<rparr>"

definition consumer :: behavior where
  "consumer = (behavior_new ''consumer'')\<lparr>b_contract := empty_contract
     \<lparr>c_inputs := [\<lparr>p_name = ''value'', p_typ = TInt, p_size = 8\<rparr>],
      c_requires := \<lparr>rq_behaviors = [\<lparr>br_name = ''producer'', br_hash = []\<rparr>], rq_memory = []\<rparr>\<rparr>\<rparr>"

definition store_behavior :: "behavior \<Rightarrow> project_graph \<Rightarrow> project_graph" where
  "store_behavior b g = (let (g1, n) = behavior_to_node g b None in fst (add_node demo_hash demo_hex g1 n))"

definition demo_nodes :: project_graph where
  "demo_nodes = store_behavior consumer (store_behavior producer project_graph_new)"

definition demo_graph :: project_graph where
  "demo_graph = fst (add_edge demo_nodes 1 ''data'' 2 ''value'')"

lemma reach_store:
  "graph_reach demo_hash demo_hex g \<Longrightarrow> pg_next_node_id g \<noteq> usize_max \<Longrightarrow>
    graph_reach demo_hash demo_hex (store_behavior b g)"
  by (cases "behavior_to_node g b None")
    (auto simp: store_behavior_def intro: reach_step step_behavior)

lemma demo_nodes_reach: "graph_reach demo_hash demo_hex demo_nodes"
proof -
  have 1: "graph_reach demo_hash demo_hex (store_behavior producer project_graph_new)"
    by (rule reach_store [OF reach_new]) (simp add: project_graph_new_def usize_max_def)
  show ?thesis unfolding demo_nodes_def
    by (rule reach_store [OF 1])
      (simp add: store_behavior_def behavior_to_node_def next_node_id_def add_node_def Let_def
        project_graph_new_def usize_max_def)
qed

lemma demo_graph_reach: "graph_reach demo_hash demo_hex demo_graph"
  unfolding demo_graph_def
  by (rule reach_step [OF demo_nodes_reach step_add_edge]) code_simp


section \<open>Completeness\<close>

definition port_wired :: "project_graph \<Rightarrow> node_id \<Rightarrow> port \<Rightarrow> bool" where
  "port_wired g i p \<longleftrightarrow>
     (if po_direction p = DirIn
      then length (filter (\<lambda>e. edge_target e = (i, po_name p)) (pg_edges g)) = 1
      else po_discarded p \<or> (\<exists>e \<in> set (pg_edges g). ed_from_node e = i \<and> ed_from_port e = po_name p))"

definition dependency_current ::
  "(byte list \<Rightarrow> byte list) \<Rightarrow> (byte list \<Rightarrow> string) \<Rightarrow> project_graph \<Rightarrow> dependency_ref \<Rightarrow> bool" where
  "dependency_current sha256 hex_encode g d \<longleftrightarrow>
     (case lookup g (dr_name d) of
        None \<Rightarrow> False
      | Some (Local n) \<Rightarrow> dr_hash d \<in> {[], compute_hash sha256 hex_encode n}
      | Some (Library c) \<Rightarrow> dr_hash d \<in> {[], cr_hash c})"

lemma single_source:
  assumes "edges_ok g"
  shows "length (filter (\<lambda>e. edge_target e = x) (pg_edges g)) = 1 \<longleftrightarrow> x \<in> edge_target ` set (pg_edges g)"
proof -
  have "distinct (map edge_target es) \<Longrightarrow>
      length (filter (\<lambda>e. edge_target e = x) es) = (if x \<in> edge_target ` set es then 1 else 0)" for es
    by (induction es) (auto simp: filter_empty_conv)
  then show ?thesis using assms by (simp add: edges_ok_def)
qed

lemma find_port_gap_Nil:
  assumes "edges_ok g"
  shows "find_port_gap g n p = [] \<longleftrightarrow> port_wired g (bn_id n) p"
  using single_source [OF assms, of "(bn_id n, po_name p)"]
  by (cases "po_direction p")
    (auto simp: find_port_gap_def port_wired_def port_has_source_iff port_has_consumer_def list_ex_iff)

lemma nodes_ok_find:
  assumes "nodes_ok sha hx g" "find_node g name = Some n"
  shows "hm_get (pg_nodes g) (bn_id n) = Some n \<and> bn_name n = name \<and> bn_hash n = compute_hash sha hx n"
proof -
  have "n \<in> set (hm_values (pg_nodes g))" "bn_name n = name"
    using find_SomeD [OF assms(2) [unfolded find_node_def]] by simp_all
  moreover have "hm_wf (pg_nodes g)" using assms(1) by (simp add: nodes_ok_def)
  ultimately show ?thesis using assms(1) unfolding nodes_ok_iff by (auto simp: hm_values_get)
qed

lemma find_dependency_gap_Nil:
  assumes "nodes_ok sha hx g"
  shows "find_dependency_gap g n d = [] \<longleftrightarrow> dependency_current sha hx g d"
  using nodes_ok_find [OF assms, of "dr_name d"]
  by (auto simp: find_dependency_gap_def dependency_current_def lookup_def split: option.splits)

lemma is_complete_iff:
  "is_complete g \<longleftrightarrow> (\<forall>n \<in> set (hm_values (pg_nodes g)).
     (\<forall>p \<in> set (bn_ports n). find_port_gap g n p = []) \<and> (\<forall>d \<in> set (bn_requires n). find_dependency_gap g n d = []))"
  by (simp add: is_complete_def find_gaps_def find_port_gaps_def find_dependency_gaps_def)

text \<open>
  A well-formed graph is reported complete exactly when every input port of every local node
  is the target of exactly one edge, every output and error port is discarded or has an outgoing
  edge, and every dependency resolves to a behavior whose contract hash, recomputed, is the pinned
  one (or the reference is not pinned).
\<close>

theorem is_complete_exact:
  assumes "graph_ok sha256 hex_encode g"
  shows "is_complete g \<longleftrightarrow> (\<forall>i n. hm_get (pg_nodes g) i = Some n \<longrightarrow>
     (\<forall>p \<in> set (bn_ports n). port_wired g i p)
     \<and> (\<forall>d \<in> set (bn_requires n). dependency_current sha256 hex_encode g d))"
proof -
  have ok: "nodes_ok sha256 hex_encode g" "edges_ok g" using assms by (simp_all add: graph_ok_def)
  have wf: "hm_wf (pg_nodes g)" and i: "hm_get (pg_nodes g) i = Some n \<Longrightarrow> bn_id n = i" for i n
    using ok(1) by (simp_all add: nodes_ok_iff)
  show ?thesis
    unfolding is_complete_iff find_port_gap_Nil [OF ok(2)] find_dependency_gap_Nil [OF ok(1)]
    using i hm_values_get [OF wf] by blast
qed

theorem is_complete_exact_witness:
  "is_complete demo_graph \<and> port_wired demo_graph 2 (port_input ''value'' TInt 8)"
proof
  show c: "is_complete demo_graph" by code_simp
  obtain n where n: "hm_get (pg_nodes demo_graph) 2 = Some n" "port_input ''value'' TInt 8 \<in> set (bn_ports n)"
  proof -
    have "(case hm_get (pg_nodes demo_graph) 2 of Some n \<Rightarrow> port_input ''value'' TInt 8 \<in> set (bn_ports n) | None \<Rightarrow> False)"
      by code_simp
    then show ?thesis using that by (auto split: option.splits)
  qed
  show "port_wired demo_graph 2 (port_input ''value'' TInt 8)"
    using is_complete_exact [OF graph_reach_ok [OF demo_graph_reach]] c n by blast
qed

lemma behavior_node_contract:
  assumes "behavior_to_node g b source_path = (g', n)"
  shows "to_ast_contract n = (b_contract b)\<lparr>c_requires := (c_requires (b_contract b))\<lparr>rq_memory := []\<rparr>\<rparr>"
proof -
  note def = assms [unfolded behavior_to_node_def next_node_id_def Let_def behavior_node_new_def, simplified, THEN conjunct2, symmetric]
  have eta: "map (\<lambda>x. \<lparr>p_name = p_name x, p_typ = p_typ x, p_size = p_size x\<rparr>) ps = ps" for ps :: "parameter list"
    by (rule map_idI) simp
  have ins: "map port_to_parameter (bn_inputs n) = c_inputs (b_contract b)"
    and outs: "map port_to_parameter (bn_outputs n @ bn_errors n) = c_outputs (b_contract b)"
    by (simp_all add: def bn_inputs_def bn_outputs_def bn_errors_def filter_map comp_def input_port_of_def
        output_port_of_def port_input_def port_output_def port_to_parameter_def eta)
  have "map (\<lambda>x. \<lparr>br_name = br_name x, br_hash = br_hash x\<rparr>) rs = rs" for rs :: "behavior_ref list"
    by (rule map_idI) simp
  then show ?thesis
    unfolding to_ast_contract_def ins outs
    by (intro contract.equality requirements.equality) (simp_all add: def comp_def)
qed

lemma behavior_node_hash:
  assumes "behavior_to_node g b source_path = (g', n)"
  shows "compute_hash sha hx n = compute_contract_hash sha hx (b_contract b)"
  by (simp add: compute_hash_def behavior_node_contract [OF assms] compute_contract_hash_def contract_preimage_def)

text \<open>
  Converting a behavior into a node and back gives its contract without the
  \<^verbatim>\<open>MEMORY\<close> list, and the node has the hash of the original contract; name, description,
  nativeness and the composition survive, and of several platform implementations the first.
\<close>

theorem node_roundtrip:
  "let (g', n) = behavior_to_node g b source_path
   in to_ast_contract n = (b_contract b)\<lparr>c_requires := (c_requires (b_contract b))\<lparr>rq_memory := []\<rparr>\<rparr>
      \<and> compute_hash sha256 hex_encode n = compute_contract_hash sha256 hex_encode (b_contract b)
      \<and> b_name (to_ast_behavior n) = b_name b \<and> b_description (to_ast_behavior n) = b_description b
      \<and> b_is_native (to_ast_behavior n) = b_is_native b
      \<and> b_composition (to_ast_behavior n) = b_composition b
      \<and> map pi_nodes (b_implementations (to_ast_behavior n))
        = (if b_composition b = None then take 1 (map pi_nodes (b_implementations b)) else [])"
proof -
  obtain g' n where n: "behavior_to_node g b source_path = (g', n)" by fastforce
  note def = n [unfolded behavior_to_node_def next_node_id_def Let_def behavior_node_new_def, simplified, THEN conjunct2, symmetric]
  have "b_name (to_ast_behavior n) = b_name b \<and> b_description (to_ast_behavior n) = b_description b
      \<and> b_is_native (to_ast_behavior n) = b_is_native b \<and> b_composition (to_ast_behavior n) = b_composition b
      \<and> map pi_nodes (b_implementations (to_ast_behavior n))
        = (if b_composition b = None then take 1 (map pi_nodes (b_implementations b)) else [])"
    unfolding to_ast_behavior_def
    by (cases "b_composition b"; cases "b_implementations b") (simp_all add: def behavior_new_def)
  with behavior_node_contract [OF n] behavior_node_hash [OF n] n show ?thesis by simp
qed

text \<open>
  \<^verbatim>\<open>completeness_pct\<close> subtracts the number of gaps, which includes missing
  dependencies, from the number of ports: a reachable graph with one unconnected port and one
  undefined dependency makes the subtraction underflow.
\<close>

theorem completeness_underflow:
  "\<exists>g. graph_reach demo_hash demo_hex g \<and> completeness_pct g = Underflow"
proof (intro exI conjI)
  show "graph_reach demo_hash demo_hex (store_behavior consumer project_graph_new)"
    by (rule reach_store [OF reach_new]) (simp add: project_graph_new_def usize_max_def)
  show "completeness_pct (store_behavior consumer project_graph_new) = Underflow"
    by code_simp
qed

end
