(* ===== verification/Sigil_Kahn.thy ===== *)
theory Sigil_Kahn
  imports Sigil_Prelude
begin

text \<open>
  Kahn's algorithm, which \<^verbatim>\<open>compiler/src/graph/validate.rs\<close> runs twice: over names to
  reject circular dependencies and over node ids to find a compilation order. Both loops have
  the same shape (an adjacency map, an in-degree map and a queue), so the loop is defined
  once. The decrement of a \<^verbatim>\<open>usize\<close> degree is checked: \<open>None\<close> is the overflow
  that a decrement below zero would be, and it is proved not to happen. The locale
  \<open>kahn_input\<close> states what the two callers have to set up: degrees that count the edges,
  and a queue that holds the keys of degree zero.
\<close>

section \<open>The loop\<close>

fun kahn_relax :: "'k list \<Rightarrow> ('k, nat) hmap \<Rightarrow> 'k list \<Rightarrow> (('k, nat) hmap \<times> 'k list) option" where
  "kahn_relax [] in_degree queue = Some (in_degree, queue)"
| "kahn_relax (dep # deps) in_degree queue =
     (case hm_get in_degree dep of
        None \<Rightarrow> kahn_relax deps in_degree queue
      | Some degree \<Rightarrow>
          if degree = 0 then None
          else kahn_relax deps (hm_insert dep (degree - 1) in_degree)
                 (if degree - 1 = 0 then queue @ [dep] else queue))"

definition kahn_visit ::
  "('k, 'k list) hmap \<Rightarrow> 'k \<Rightarrow> ('k, nat) hmap \<Rightarrow> 'k list \<Rightarrow> (('k, nat) hmap \<times> 'k list) option" where
  "kahn_visit adj x in_degree queue =
     (case hm_get adj x of
        None \<Rightarrow> Some (in_degree, queue)
      | Some deps \<Rightarrow> kahn_relax deps in_degree queue)"

definition degree_sum :: "('k, nat) hmap \<Rightarrow> nat" where
  "degree_sum m = sum_list (map snd m)"

lemma degree_sum_insert:
  "hm_get m k = Some d \<Longrightarrow> degree_sum (hm_insert k e m) + d = degree_sum m + e"
  by (induction k e m rule: hm_insert.induct) (auto simp: degree_sum_def hm_get_def split: if_splits)

lemma kahn_relax_measure:
  "kahn_relax deps m q = Some (m', q') \<Longrightarrow> degree_sum m' + length q' \<le> degree_sum m + length q"
proof (induction deps m q rule: kahn_relax.induct)
  case (2 dep deps m q)
  show ?case
  proof (cases "hm_get m dep")
    case None
    then show ?thesis using 2 by simp
  next
    case (Some d)
    have "degree_sum (hm_insert dep (d - 1) m) + d = degree_sum m + (d - 1)"
      by (rule degree_sum_insert [OF Some])
    then show ?thesis using 2(2) [OF Some] 2(3) Some by (auto split: if_splits)
  qed
qed simp

lemma kahn_visit_measure:
  "kahn_visit adj x m q = Some (m', q') \<Longrightarrow> degree_sum m' + length q' \<le> degree_sum m + length q"
  by (auto simp: kahn_visit_def kahn_relax_measure split: option.splits)

function kahn_loop ::
  "('k, 'k list) hmap \<Rightarrow> 'k list \<Rightarrow> ('k, nat) hmap \<Rightarrow> 'k list \<Rightarrow> ('k list \<times> ('k, nat) hmap) option" where
  "kahn_loop adj [] in_degree order = Some (order, in_degree)"
| "kahn_loop adj (x # queue) in_degree order =
     (case kahn_visit adj x in_degree queue of
        None \<Rightarrow> None
      | Some (in_degree', queue') \<Rightarrow> kahn_loop adj queue' in_degree' (order @ [x]))"
  by pat_completeness auto

termination
  by (relation "measure (\<lambda>(adj, queue, m, order). degree_sum m + length queue)")
    (auto dest!: kahn_visit_measure)

definition kahn_start :: "('k, nat) hmap \<Rightarrow> 'k list" where
  "kahn_start in_degree = map fst (filter (\<lambda>p. snd p = 0) in_degree)"

definition kahn :: "('k, 'k list) hmap \<Rightarrow> ('k, nat) hmap \<Rightarrow> ('k list \<times> ('k, nat) hmap) option" where
  "kahn adj in_degree = kahn_loop adj (kahn_start in_degree) in_degree []"

definition in_cycle_keys :: "('k, nat) hmap \<Rightarrow> 'k list" where
  "in_cycle_keys in_degree = map fst (filter (\<lambda>p. 0 < snd p) in_degree)"

section \<open>Degrees\<close>

definition deg_is :: "('k, nat) hmap \<Rightarrow> 'k set \<Rightarrow> ('k \<Rightarrow> nat) \<Rightarrow> bool" where
  "deg_is m K f \<longleftrightarrow> hm_wf m \<and> (\<forall>k. hm_get m k = (if k \<in> K then Some (f k) else None))"

lemma deg_isD: "deg_is m K f \<Longrightarrow> hm_get m k = (if k \<in> K then Some (f k) else None)"
  by (simp add: deg_is_def)

lemma deg_is_insert: "deg_is m K f \<Longrightarrow> k \<in> K \<Longrightarrow> deg_is (hm_insert k d m) K (f(k := d))"
  by (auto simp: deg_is_def)

lemma deg_is_keys: "deg_is m K f \<Longrightarrow> set (map fst m) = K"
  using set_hm_keys [of m] by (auto simp: deg_is_def hm_keys_def)

lemma deg_is_length: "deg_is m K f \<Longrightarrow> length m = card K"
  using deg_is_keys [of m K f] distinct_card [of "map fst m"] by (simp add: deg_is_def hm_wf_def)

lemma deg_is_finite: "deg_is m K f \<Longrightarrow> finite K"
  using deg_is_keys by blast

lemma deg_is_select:
  assumes "deg_is m K f"
  shows "set (map fst (filter (\<lambda>p. P (snd p)) m)) = {k \<in> K. P (f k)}"
proof -
  have "(k, d) \<in> set m \<longleftrightarrow> k \<in> K \<and> d = f k" for k d
  proof -
    have "(k, d) \<in> set m \<longleftrightarrow> hm_get m k = Some d"
      unfolding hm_get_def using map_of_eq_Some_iff [of m k d] assms by (simp add: deg_is_def hm_wf_def)
    then show ?thesis using deg_isD [OF assms] by auto
  qed
  then show ?thesis by (force simp: image_iff)
qed

lemma distinct_select: "hm_wf m \<Longrightarrow> distinct (map fst (filter P m))"
  by (simp add: hm_wf_def distinct_map_filter)

lemma kahn_relax_correct:
  assumes "deg_is m K (\<lambda>k. f k + count_list deps k)" "set deps \<subseteq> K"
  shows "\<exists>m' new. kahn_relax deps m q = Some (m', q @ new) \<and> deg_is m' K f
    \<and> distinct new \<and> set new = {k \<in> set deps. f k = 0}"
  using assms
proof (induction deps arbitrary: m q)
  case Nil
  then show ?case by simp
next
  case (Cons d deps)
  let ?m = "hm_insert d (f d + count_list deps d) m"
  let ?new = "if f d + count_list deps d = 0 then [d] else []"
  have get: "hm_get m d = Some (Suc (f d + count_list deps d))"
    using deg_isD [OF Cons.prems(1), of d] Cons.prems(2) by simp
  have "deg_is ?m K (\<lambda>k. f k + count_list deps k)"
    using deg_is_insert [OF Cons.prems(1), of d "f d + count_list deps d"] Cons.prems(2)
    by (simp add: fun_upd_def if_distrib cong: if_cong) (smt (verit) deg_is_def)
  from Cons.IH [OF this, of "q @ ?new"] Cons.prems(2)
  obtain m' new where m': "kahn_relax deps ?m (q @ ?new) = Some (m', (q @ ?new) @ new)"
    "deg_is m' K f" "distinct new" "set new = {k \<in> set deps. f k = 0}" by auto
  have "kahn_relax (d # deps) m q = Some (m', q @ (?new @ new))"
    using m'(1) by (auto simp: get)
  moreover have "distinct (?new @ new)" "set (?new @ new) = {k \<in> set (d # deps). f k = 0}"
    using m'(3,4) by (auto simp: count_list_0_iff)
  ultimately show ?case using m'(2) by blast
qed

section \<open>What the algorithm computes\<close>

locale kahn_input =
  fixes adj :: "('k, 'k list) hmap"
    and in_degree :: "('k, nat) hmap"
    and K :: "'k set"
    and succs :: "'k \<Rightarrow> 'k list"
  assumes succs_closed: "x \<in> K \<Longrightarrow> set (succs x) \<subseteq> K"
    and adj_get: "x \<in> K \<Longrightarrow> hm_get adj x = Some (succs x) \<or> hm_get adj x = None \<and> succs x = []"
    and degrees: "deg_is in_degree K (\<lambda>k. \<Sum>x\<in>K. count_list (succs x) k)"
begin

definition edge_rel :: "('k \<times> 'k) set" where
  "edge_rel = {(x, y). x \<in> K \<and> y \<in> set (succs x)}"

definition deg_without :: "'k list \<Rightarrow> 'k \<Rightarrow> nat" where
  "deg_without order k = (\<Sum>x\<in>K - set order. count_list (succs x) k)"

definition ordered :: "'k list \<Rightarrow> bool" where
  "ordered order \<longleftrightarrow> (\<forall>xs y ys. order = xs @ y # ys \<longrightarrow> (\<forall>x. (x, y) \<in> edge_rel \<longrightarrow> x \<in> set xs))"

definition loop_inv :: "'k list \<Rightarrow> ('k, nat) hmap \<Rightarrow> 'k list \<Rightarrow> bool" where
  "loop_inv queue m order \<longleftrightarrow> deg_is m K (deg_without order) \<and> distinct (order @ queue)
     \<and> set (order @ queue) = {k \<in> K. deg_without order k = 0} \<and> ordered order"

lemma finite_K: "finite K"
  by (rule deg_is_finite [OF degrees])

lemma deg_without_zero: "deg_without order k = 0 \<longleftrightarrow> (\<forall>x. (x, k) \<in> edge_rel \<longrightarrow> x \<in> set order)"
  using finite_K by (auto simp: deg_without_def edge_rel_def count_list_0_iff)

lemma deg_without_snoc:
  assumes "x \<in> K" "x \<notin> set order"
  shows "deg_without order k = deg_without (order @ [x]) k + count_list (succs x) k"
proof -
  let ?R = "K - set (order @ [x])"
  have K: "K - set order = insert x ?R" using assms by auto
  have "finite ?R" "x \<notin> ?R" using finite_K by auto
  then have "(\<Sum>y\<in>insert x ?R. count_list (succs y) k) = count_list (succs x) k + (\<Sum>y\<in>?R. count_list (succs y) k)"
    by (rule sum.insert)
  then show ?thesis unfolding deg_without_def K by linarith
qed

lemma ordered_snoc: "ordered order \<Longrightarrow> deg_without order x = 0 \<Longrightarrow> ordered (order @ [x])"
proof -
  assume o: "ordered order" and z: "deg_without order x = 0"
  have "w \<in> set xs" if "order @ [x] = xs @ y # ys" "(w, y) \<in> edge_rel" for xs y ys w
  proof (cases ys rule: rev_cases)
    case Nil
    then show ?thesis using that z by (auto simp: deg_without_zero)
  next
    case (snoc zs a)
    then show ?thesis using that o by (auto simp: ordered_def)
  qed
  then show ?thesis unfolding ordered_def by blast
qed

lemma loop_inv_start: "loop_inv (kahn_start in_degree) in_degree []"
proof -
  have "deg_is in_degree K (deg_without [])" using degrees by (simp add: deg_without_def [abs_def])
  then show ?thesis
    using deg_is_select [of in_degree K "deg_without []" "\<lambda>d. d = 0"]
    by (simp add: loop_inv_def kahn_start_def ordered_def distinct_select deg_is_def)
qed

lemma visit_correct:
  assumes "loop_inv (x # queue) m order"
  shows "\<exists>m' queue'. kahn_visit adj x m queue = Some (m', queue') \<and> loop_inv queue' m' (order @ [x])"
proof -
  let ?f = "deg_without (order @ [x])"
  have x: "x \<in> K" "x \<notin> set order" "deg_without order x = 0" using assms by (auto simp: loop_inv_def)
  have "deg_is m K (\<lambda>k. ?f k + count_list (succs x) k)"
    using assms deg_without_snoc [OF x(1,2)] by (simp add: loop_inv_def deg_is_def)
  from kahn_relax_correct [OF this succs_closed [OF x(1)], of queue]
  obtain m' new where r: "kahn_relax (succs x) m queue = Some (m', queue @ new)" "deg_is m' K ?f"
    "distinct new" "set new = {k \<in> set (succs x). ?f k = 0}" by blast
  have "kahn_visit adj x m queue = Some (m', queue @ new)"
    using adj_get [OF x(1)] r(1) by (auto simp: kahn_visit_def)
  moreover have "loop_inv (queue @ new) m' (order @ [x])"
  proof -
    have old: "k \<in> set (order @ x # queue) \<longleftrightarrow> k \<in> K \<and> ?f k = 0 \<and> k \<notin> set (succs x)" for k
      using assms deg_without_snoc [OF x(1,2), of k] by (auto simp: loop_inv_def count_list_0_iff)
    have "distinct (order @ x # queue)" using assms by (simp add: loop_inv_def)
    moreover have "set new \<inter> set (order @ x # queue) = {}" using r(4) old by blast
    moreover have "set new \<union> set (order @ x # queue) = {k \<in> K. ?f k = 0}"
      using r(4) old succs_closed [OF x(1)] by blast
    moreover have "ordered (order @ [x])" using assms x(3) by (simp add: loop_inv_def ordered_snoc)
    ultimately show ?thesis using r(2,3) unfolding loop_inv_def by auto
  qed
  ultimately show ?thesis by blast
qed

lemma loop_correct:
  "a = adj \<Longrightarrow> loop_inv queue m order \<Longrightarrow>
    \<exists>order' m'. kahn_loop a queue m order = Some (order', m') \<and> loop_inv [] m' order'"
proof (induction a queue m order rule: kahn_loop.induct)
  case (2 a x queue m order)
  from visit_correct [OF 2(3)] obtain m' q' where
    "kahn_visit adj x m queue = Some (m', q')" "loop_inv q' m' (order @ [x])" by blast
  then show ?case using 2(1) 2(2) by simp
qed simp

lemma kahn_result:
  "\<exists>order m. kahn adj in_degree = Some (order, m) \<and> loop_inv [] m order"
  using loop_correct [OF refl loop_inv_start] by (simp add: kahn_def)

lemma ordered_acyclic:
  assumes "ordered order" "distinct order" "(x, x) \<in> edge_rel\<^sup>+" "x \<in> set order"
  shows False
proof -
  define pos where "pos y = length (takeWhile (\<lambda>z. z \<noteq> y) order)" for y
  have step: "y \<in> set order \<Longrightarrow> (x, y) \<in> edge_rel \<Longrightarrow> x \<in> set order \<and> pos x < pos y" for x y
  proof -
    assume y: "y \<in> set order" and e: "(x, y) \<in> edge_rel"
    obtain xs ys where o: "order = xs @ y # ys" "y \<notin> set xs" using split_list_first [OF y] by blast
    then have x: "x \<in> set xs" using assms(1) e by (auto simp: ordered_def)
    have "pos y = length xs" using o by (simp add: pos_def takeWhile_append)
    moreover have "pos x < length xs" using x unfolding pos_def o(1)
      by (induction xs) auto
    ultimately show ?thesis using x o by simp
  qed
  have "(a, b) \<in> edge_rel\<^sup>+ \<Longrightarrow> b \<in> set order \<Longrightarrow> a \<in> set order \<and> pos a < pos b" for a b
    by (induction rule: converse_trancl_induct) (auto dest: step)
  then show False using assms(3,4) by blast
qed

lemma finite_edge_rel: "finite edge_rel"
  by (rule finite_subset [of _ "K \<times> K"]) (use finite_K succs_closed in \<open>auto simp: edge_rel_def\<close>)

lemma no_source_cycle:
  assumes "R \<noteq> {}" "\<And>y. y \<in> R \<Longrightarrow> \<exists>x\<in>R. (x, y) \<in> edge_rel"
  shows "\<exists>x\<in>R. (x, x) \<in> edge_rel\<^sup>+"
proof -
  let ?E = "edge_rel \<inter> R \<times> R"
  have "\<not> wf ?E"
  proof
    assume "wf ?E"
    then obtain z where "z \<in> R" "\<forall>y. (y, z) \<in> ?E \<longrightarrow> y \<notin> R" using assms(1) by (metis wf_eq_minimal ex_in_conv)
    then show False using assms(2) by blast
  qed
  then obtain x where x: "(x, x) \<in> ?E\<^sup>+"
    using finite_edge_rel finite_acyclic_wf [of ?E] by (auto simp: acyclic_def)
  then have "x \<in> R" by (auto dest: tranclD)
  with x show ?thesis using trancl_mono [OF x, of edge_rel] by blast
qed

lemma leftover:
  assumes "loop_inv [] m order"
  shows "K - set order = {y. \<exists>x. (x, x) \<in> edge_rel\<^sup>+ \<and> (x, y) \<in> edge_rel\<^sup>*}" (is "?R = ?C")
proof
  have s: "set order = {k \<in> K. deg_without order k = 0}" and o: "ordered order" "distinct order"
    using assms by (simp_all add: loop_inv_def)
  have pred: "\<exists>x\<in>?R. (x, y) \<in> edge_rel" if "y \<in> ?R" for y
  proof -
    have "deg_without order y \<noteq> 0" using that unfolding s by simp
    then obtain x where x: "(x, y) \<in> edge_rel" "x \<notin> set order" unfolding deg_without_zero by blast
    then have "x \<in> K" by (simp add: edge_rel_def)
    with x show ?thesis by blast
  qed
  show "?R \<subseteq> ?C"
  proof
    fix y assume y: "y \<in> ?R"
    have "\<exists>x\<in>{x \<in> ?R. (x, y) \<in> edge_rel\<^sup>*}. (x, x) \<in> edge_rel\<^sup>+"
    proof (rule no_source_cycle)
      show "{x \<in> ?R. (x, y) \<in> edge_rel\<^sup>*} \<noteq> {}" using y by blast
      show "\<exists>x\<in>{x \<in> ?R. (x, y) \<in> edge_rel\<^sup>*}. (x, z) \<in> edge_rel" if z: "z \<in> {x \<in> ?R. (x, y) \<in> edge_rel\<^sup>*}" for z
      proof -
        obtain w where "w \<in> ?R" "(w, z) \<in> edge_rel" using pred [of z] z by blast
        then show ?thesis using z by (blast intro: converse_rtrancl_into_rtrancl)
      qed
    qed
    then show "y \<in> ?C" by blast
  qed
  have up: "(x, y) \<in> edge_rel \<Longrightarrow> y \<in> set order \<Longrightarrow> x \<in> set order" for x y
    unfolding s using deg_without_zero [of order y] s by blast
  show "?C \<subseteq> ?R"
  proof
    fix y assume "y \<in> ?C"
    then obtain x where x: "(x, x) \<in> edge_rel\<^sup>+" "(x, y) \<in> edge_rel\<^sup>*" by blast
    have "x \<in> K" using tranclD [OF x(1)] by (auto simp: edge_rel_def)
    moreover have "(a, b) \<in> edge_rel\<^sup>* \<Longrightarrow> a \<in> K \<Longrightarrow> b \<in> K" for a b
      by (induction rule: rtrancl_induct) (use succs_closed in \<open>auto simp: edge_rel_def\<close>)
    moreover have "y \<in> set order \<Longrightarrow> x \<in> set order"
      using x(2) by (induction rule: converse_rtrancl_induct) (auto dest: up)
    ultimately show "y \<in> ?R" using x ordered_acyclic [OF o x(1)] by blast
  qed
qed

lemma kahn_correct:
  "\<exists>order m. kahn adj in_degree = Some (order, m) \<and> distinct order \<and> set order \<subseteq> K \<and> ordered order
    \<and> (length order < length m \<longleftrightarrow> \<not> acyclic edge_rel) \<and> (acyclic edge_rel \<longrightarrow> set order = K)
    \<and> set (in_cycle_keys m) = {y. \<exists>x. (x, x) \<in> edge_rel\<^sup>+ \<and> (x, y) \<in> edge_rel\<^sup>*}"
proof -
  obtain order m where k: "kahn adj in_degree = Some (order, m)" and inv: "loop_inv [] m order"
    using kahn_result by blast
  have d: "deg_is m K (deg_without order)" "distinct order" "ordered order"
    and s: "set order = {k \<in> K. deg_without order k = 0}" using inv by (simp_all add: loop_inv_def)
  then have sub: "set order \<subseteq> K" by blast
  have cyc: "acyclic edge_rel \<longleftrightarrow> set order = K"
    using leftover [OF inv] sub unfolding acyclic_def by blast
  have "length order < length m \<longleftrightarrow> card (set order) < card K"
    using distinct_card [OF d(2)] deg_is_length [OF d(1)] by simp
  also have "\<dots> \<longleftrightarrow> set order \<noteq> K"
    using sub finite_K psubset_card_mono [of K "set order"] by (cases "set order = K") (simp, blast)
  finally have "length order < length m \<longleftrightarrow> \<not> acyclic edge_rel" using cyc by blast
  moreover have "set (in_cycle_keys m) = K - set order"
    using deg_is_select [OF d(1), of "\<lambda>d. 0 < d"] s by (auto simp: in_cycle_keys_def)
  ultimately show ?thesis using k d sub cyc leftover [OF inv] by blast
qed

end

section \<open>Setting the maps up\<close>

definition hm_or_insert :: "'k \<Rightarrow> 'v \<Rightarrow> ('k, 'v) hmap \<Rightarrow> ('k, 'v) hmap" where
  "hm_or_insert k v m = (if hm_contains_key m k then m else hm_insert k v m)"

definition hm_push :: "'k \<Rightarrow> 'v \<Rightarrow> ('k, 'v list) hmap \<Rightarrow> ('k, 'v list) hmap" where
  "hm_push k v m = hm_insert k ((case hm_get m k of Some vs \<Rightarrow> vs | None \<Rightarrow> []) @ [v]) m"

definition hm_incr :: "'k \<Rightarrow> ('k, nat) hmap \<Rightarrow> ('k, nat) hmap" where
  "hm_incr k m = hm_insert k ((case hm_get m k of Some d \<Rightarrow> d | None \<Rightarrow> 0) + 1) m"

text \<open>
  \<open>built K ps (adj, in_degree)\<close>: the maps that the edges \<open>ps\<close>, in the order the code adds
  them, give over the keys \<open>K\<close>.
\<close>

definition succs_of :: "('k \<times> 'k) list \<Rightarrow> 'k \<Rightarrow> 'k list" where
  "succs_of ps x = map snd (filter (\<lambda>p. fst p = x) ps)"

definition built :: "'k set \<Rightarrow> ('k \<times> 'k) list \<Rightarrow> ('k, 'k list) hmap \<times> ('k, nat) hmap \<Rightarrow> bool" where
  "built K ps s \<longleftrightarrow> set ps \<subseteq> K \<times> K
     \<and> (\<forall>x. hm_get (fst s) x = Some (succs_of ps x) \<or> hm_get (fst s) x = None \<and> succs_of ps x = [])
     \<and> deg_is (snd s) K (\<lambda>k. count_list (map snd ps) k)"

lemma built_Nil: "built {} [] ([], [])"
  by (simp add: built_def deg_is_def succs_of_def)

lemma succs_of_snoc: "succs_of (ps @ [(x, y)]) z = succs_of ps z @ (if x = z then [y] else [])"
  by (simp add: succs_of_def)

lemma deg_is_or_insert:
  assumes "deg_is m K f" "x \<in> K \<or> f x = 0"
  shows "deg_is (hm_or_insert x 0 m) (insert x K) f"
  using assms by (auto simp: deg_is_def hm_or_insert_def hm_contains_key_def)

lemma deg_is_incr:
  assumes "deg_is m K f" "x \<in> K \<or> f x = 0"
  shows "deg_is (hm_incr x m) (insert x K) (f(x := Suc (f x)))"
  using assms by (auto simp: deg_is_def hm_incr_def)

lemma count_outside: "set ps \<subseteq> K \<times> K \<Longrightarrow> x \<in> K \<or> count_list (map snd ps) x = 0"
  by (auto simp: count_list_0_iff)

lemma built_touch_adj:
  assumes "built K ps (adj, m)"
  shows "built K ps (hm_or_insert x [] adj, m)"
proof -
  have get: "hm_get adj z = Some (succs_of ps z) \<or> hm_get adj z = None \<and> succs_of ps z = []" for z
    using assms by (simp add: built_def)
  have "hm_get (hm_or_insert x [] adj) z = Some (succs_of ps z)
      \<or> hm_get (hm_or_insert x [] adj) z = None \<and> succs_of ps z = []" for z
    using get [of z] by (auto simp: hm_or_insert_def hm_contains_key_def)
  then show ?thesis using assms unfolding built_def by auto
qed

lemma built_touch_deg: "built K ps (adj, m) \<Longrightarrow> built (insert x K) ps (adj, hm_or_insert x 0 m)"
  using deg_is_or_insert [of m K "\<lambda>k. count_list (map snd ps) k" x] count_outside [of ps K x]
  unfolding built_def by auto

lemma built_edge:
  assumes "built K ps (adj, m)" "x \<in> K"
  shows "built (insert y K) (ps @ [(x, y)]) (hm_push x y adj, hm_incr y m)"
proof -
  have b: "set ps \<subseteq> K \<times> K" "deg_is m K (\<lambda>k. count_list (map snd ps) k)"
    "\<And>z. hm_get adj z = Some (succs_of ps z) \<or> hm_get adj z = None \<and> succs_of ps z = []"
    using assms(1) by (simp_all add: built_def)
  have "(\<lambda>k. count_list (map snd ps) k)(y := Suc (count_list (map snd ps) y)) = (\<lambda>k. count_list (map snd (ps @ [(x, y)])) k)"
    by (rule ext) simp
  then have "deg_is (hm_incr y m) (insert y K) (\<lambda>k. count_list (map snd (ps @ [(x, y)])) k)"
    using deg_is_incr [OF b(2) count_outside [OF b(1)]] by metis
  moreover have "hm_get (hm_push x y adj) z = Some (succs_of (ps @ [(x, y)]) z)
      \<or> hm_get (hm_push x y adj) z = None \<and> succs_of (ps @ [(x, y)]) z = []" for z
    using b(3) [of z] by (auto simp: hm_push_def succs_of_snoc)
  moreover have "set (ps @ [(x, y)]) \<subseteq> insert y K \<times> insert y K" using b(1) assms(2) by auto
  ultimately show ?thesis unfolding built_def fst_conv snd_conv by blast
qed

lemma sum_count_succs:
  assumes "finite K" "fst ` set ps \<subseteq> K"
  shows "(\<Sum>x\<in>K. count_list (succs_of ps x) k) = count_list (map snd ps) k"
  using assms(2)
proof (induction ps rule: rev_induct)
  case (snoc p ps)
  obtain x y where p: "p = (x, y)" by (cases p)
  then have x: "x \<in> K" using snoc.prems by simp
  have "(\<Sum>z\<in>K. count_list (succs_of (ps @ [p]) z) k) =
      (\<Sum>z\<in>K. count_list (succs_of ps z) k + (if x = z then count_list [y] k else 0))"
    by (rule sum.cong) (simp_all add: p succs_of_snoc)
  also have "\<dots> = count_list (map snd (ps @ [p])) k"
    using snoc x assms(1) by (simp add: sum.distrib sum.delta p)
  finally show ?case .
qed (simp add: succs_of_def)

lemma built_kahn_input:
  assumes "built K ps (adj, m)"
  shows "kahn_input adj m K (succs_of ps)"
proof
  have b: "set ps \<subseteq> K \<times> K" "deg_is m K (\<lambda>k. count_list (map snd ps) k)" using assms by (simp_all add: built_def)
  show "set (succs_of ps x) \<subseteq> K" if "x \<in> K" for x using b(1) by (auto simp: succs_of_def)
  show "hm_get adj x = Some (succs_of ps x) \<or> hm_get adj x = None \<and> succs_of ps x = []" if "x \<in> K" for x
    using assms by (simp add: built_def)
  have "(\<lambda>k. \<Sum>x\<in>K. count_list (succs_of ps x) k) = (\<lambda>k. count_list (map snd ps) k)"
    by (rule ext, rule sum_count_succs) (use b deg_is_finite in auto)
  then show "deg_is m K (\<lambda>k. \<Sum>x\<in>K. count_list (succs_of ps x) k)" using b(2) by simp
qed

lemma succs_of_rel: "set ps \<subseteq> K \<times> K \<Longrightarrow> {(x, y). x \<in> K \<and> y \<in> set (succs_of ps x)} = set ps"
  by (force simp: succs_of_def)

end
