(* ===== verification/Sigil_Graph_Validate.thy ===== *)
theory Sigil_Graph_Validate
  imports Sigil_Graph_Inv Sigil_Kahn
begin

text \<open>
  Whole-graph validation, after \<^verbatim>\<open>compiler/src/graph/validate.rs\<close>, and the phase of
  \<^verbatim>\<open>compiler/src/main.rs\<close> (5.5) that builds the graph of a program and rejects it when the
  validation reports anything. Each check is shown to be exact: dependencies resolve, pins
  match, the dependency relation is acyclic, and what a \<^verbatim>\<open>pure\<close> behavior reaches is pure.
  A result \<open>None\<close> stands for an arithmetic overflow in the decrement of a degree; no graph
  gives it.
\<close>

section \<open>Errors\<close>

datatype graph_error_kind =
    UnconsumedOutput string
  | UnsourcedInput string
  | UnhandledError string
  | UndefinedDependency string
  | StaleDependency string string string
  | CircularDependency "string list"
  | EdgeTypeMismatch string string string
  | EdgeSizeMismatch string string string
  | TransitivePurityViolation string

record graph_error =
  ge_kind :: graph_error_kind
  ge_behavior :: string
  ge_message :: string

definition graph_error_display :: "graph_error \<Rightarrow> string" where
  "graph_error_display e = ''['' @ ge_behavior e @ ''] '' @ ge_message e"

section \<open>Dependencies and pins\<close>

definition check_dependencies_resolve :: "project_graph \<Rightarrow> graph_error list" where
  "check_dependencies_resolve g =
     concat (map (\<lambda>n. concat (map (\<lambda>d.
         if lookup g (dr_name d) = None
         then [\<lparr>ge_kind = UndefinedDependency (dr_name d), ge_behavior = bn_name n,
                ge_message = ''Required behavior '' @ single_quoted (dr_name d)
                  @ '' not found in local behaviors or libraries''\<rparr>]
         else [])
       (bn_requires n))) (hm_values (pg_nodes g)))"

definition check_hash_consistency :: "project_graph \<Rightarrow> graph_error list" where
  "check_hash_consistency g =
     concat (map (\<lambda>n. concat (map (\<lambda>d.
         if dr_hash d = [] then []
         else (case lookup g (dr_name d) of
             None \<Rightarrow> []
           | Some found \<Rightarrow>
               (let actual_hash = lookup_hash found
                in if actual_hash \<noteq> [] \<and> dr_hash d \<noteq> actual_hash
                   then [\<lparr>ge_kind = StaleDependency (dr_name d) (dr_hash d) actual_hash,
                          ge_behavior = bn_name n,
                          ge_message = ''Dependency '' @ single_quoted (dr_name d)
                            @ '' hash mismatch: expects @'' @ dr_hash d @ '' but found @'' @ actual_hash
                            @ ''. The dependency'' @ [CHR 0x27] @ ''s contract has changed.''\<rparr>]
                   else [])))
       (bn_requires n))) (hm_values (pg_nodes g)))"

section \<open>Circular dependencies\<close>

type_synonym 'k kahn_maps = "('k, 'k list) hmap \<times> ('k, nat) hmap"

fun add_circular_dep ::
  "project_graph \<Rightarrow> behavior_node \<Rightarrow> dependency_ref \<Rightarrow> string kahn_maps \<Rightarrow> string kahn_maps" where
  "add_circular_dep g n d (adj, in_degree) =
     (if find_node g (dr_name d) \<noteq> None
      then (hm_push (bn_name n) (dr_name d) (hm_or_insert (dr_name d) [] adj),
            hm_incr (dr_name d) in_degree)
      else (adj, in_degree))"

fun add_circular_node :: "project_graph \<Rightarrow> behavior_node \<Rightarrow> string kahn_maps \<Rightarrow> string kahn_maps" where
  "add_circular_node g n (adj, in_degree) =
     fold (add_circular_dep g n) (bn_requires n)
       (hm_or_insert (bn_name n) [] adj, hm_or_insert (bn_name n) 0 in_degree)"

definition circular_maps :: "project_graph \<Rightarrow> string kahn_maps" where
  "circular_maps g = fold (add_circular_node g) (hm_values (pg_nodes g)) ([], [])"

definition arrow_sep :: string where
  "arrow_sep = '' '' @ [CHR 0xE2, CHR 0x86, CHR 0x92] @ '' ''"

definition circular_error :: "string list \<Rightarrow> graph_error" where
  "circular_error in_cycle =
     \<lparr>ge_kind = CircularDependency in_cycle,
      ge_behavior = (case in_cycle of x # _ \<Rightarrow> x | [] \<Rightarrow> []),
      ge_message = ''Circular dependency detected involving: '' @ join_with arrow_sep in_cycle\<rparr>"

definition check_circular_dependencies :: "project_graph \<Rightarrow> graph_error list option" where
  "check_circular_dependencies g =
     (case circular_maps g of (adj, in_degree) \<Rightarrow>
        (case kahn adj in_degree of
           None \<Rightarrow> None
         | Some (order, in_degree') \<Rightarrow>
             Some (if length order < length in_degree'
                   then [circular_error (in_cycle_keys in_degree')] else [])))"

section \<open>Transitive purity\<close>

definition dep_guarantees :: "project_graph \<Rightarrow> string \<Rightarrow> guarantee list option" where
  "dep_guarantees g name =
     (case find_node g name of
        Some n \<Rightarrow> Some (bn_guarantees n)
      | None \<Rightarrow> map_option cr_guarantees (hm_get (pg_library_nodes g) name))"

definition sub_deps :: "project_graph \<Rightarrow> string \<Rightarrow> string list" where
  "sub_deps g name = (case find_node g name of Some n \<Rightarrow> map dr_name (bn_requires n) | None \<Rightarrow> [])"

definition all_dep_names :: "project_graph \<Rightarrow> string list" where
  "all_dep_names g = concat (map (\<lambda>n. map dr_name (bn_requires n)) (hm_values (pg_nodes g)))"

lemma sub_deps_names: "set (sub_deps g x) \<subseteq> set (all_dep_names g)"
proof (cases "find_node g x")
  case (Some n)
  then have "n \<in> set (hm_values (pg_nodes g))"
    using find_SomeD [OF Some [unfolded find_node_def]] by simp
  then show ?thesis using Some by (auto simp: sub_deps_def all_dep_names_def)
qed (simp add: sub_deps_def)

definition unvisited :: "project_graph \<Rightarrow> string hset \<Rightarrow> string list \<Rightarrow> string set" where
  "unvisited g visited to_check = (set (all_dep_names g) \<union> set to_check) - set visited"

lemma unvisited_less:
  assumes "x \<notin> set visited" "set new \<subseteq> set (all_dep_names g)"
  shows "card (unvisited g (hs_insert x visited) (new @ to_check)) < card (unvisited g visited (x # to_check))"
  by (rule psubset_card_mono) (use assms in \<open>auto simp: unvisited_def\<close>)

lemma unvisited_drop:
  "x \<in> set visited \<Longrightarrow> unvisited g visited to_check = unvisited g visited (x # to_check)"
  by (auto simp: unvisited_def)

text \<open>
  The loop over the stack \<^verbatim>\<open>to_check\<close>, whose top is the head of the list here. It ends:
  a name is either dropped or newly visited, and only finitely many names can be pushed.
\<close>

function purity_search :: "project_graph \<Rightarrow> string hset \<Rightarrow> string list \<Rightarrow> string option" where
  "purity_search g visited [] = None"
| "purity_search g visited (x # to_check) =
     (if x \<in> set visited then purity_search g visited to_check
      else (case dep_guarantees g x of
          None \<Rightarrow> purity_search g (hs_insert x visited) to_check
        | Some guarantees \<Rightarrow>
            if Pure \<notin> set guarantees then Some x
            else purity_search g (hs_insert x visited) (rev (sub_deps g x) @ to_check)))"
  by pat_completeness auto

termination
proof (relation "measures [\<lambda>(g, v, t). card (unvisited g v t), \<lambda>(g, v, t). length t]", goal_cases)
  case (2 g v x t)
  then show ?case using unvisited_drop [of x v g t] by simp
next
  case (3 g v x t)
  then show ?case using unvisited_less [of x v "[]" g t] by simp
next
  case (4 g v x t gs)
  then show ?case using unvisited_less [of x v "rev (sub_deps g x)" g t] sub_deps_names [of g x] by simp
qed simp

definition purity_error :: "behavior_node \<Rightarrow> string \<Rightarrow> graph_error" where
  "purity_error n dep_name =
     \<lparr>ge_kind = TransitivePurityViolation dep_name, ge_behavior = bn_name n,
      ge_message = ''Behavior '' @ single_quoted (bn_name n) @ '' declares ''
        @ single_quoted ''pure'' @ '' but depends on '' @ single_quoted dep_name
        @ '' which is not pure. Pure behaviors cannot transitively depend on impure behaviors.''\<rparr>"

definition check_transitive_purity :: "project_graph \<Rightarrow> graph_error list" where
  "check_transitive_purity g =
     concat (map (\<lambda>n.
         if Pure \<notin> set (bn_guarantees n) then []
         else (case purity_search g [] (rev (map dr_name (bn_requires n))) of
             None \<Rightarrow> []
           | Some dep_name \<Rightarrow> [purity_error n dep_name]))
       (hm_values (pg_nodes g)))"

definition validate_graph :: "project_graph \<Rightarrow> graph_error list option" where
  "validate_graph g =
     (case check_circular_dependencies g of
        None \<Rightarrow> None
      | Some circular \<Rightarrow>
          Some (check_dependencies_resolve g @ check_hash_consistency g @ circular
                @ check_transitive_purity g))"

section \<open>Compilation order\<close>

fun add_topo_dep ::
  "project_graph \<Rightarrow> behavior_node \<Rightarrow> dependency_ref \<Rightarrow> node_id kahn_maps \<Rightarrow> node_id kahn_maps" where
  "add_topo_dep g n d (dependents, in_degree) =
     (case find_node_id g (dr_name d) of
        Some dep_id \<Rightarrow> (hm_push dep_id (bn_id n) dependents, hm_incr (bn_id n) in_degree)
      | None \<Rightarrow> (dependents, in_degree))"

definition topo_maps :: "project_graph \<Rightarrow> node_id kahn_maps" where
  "topo_maps g =
     fold (\<lambda>n s. fold (add_topo_dep g n) (bn_requires n) s) (hm_values (pg_nodes g))
       ([], fold (\<lambda>i m. hm_insert i 0 m) (hm_keys (pg_nodes g)) [])"

definition topological_sort :: "project_graph \<Rightarrow> (string list + node_id list) option" where
  "topological_sort g =
     (case topo_maps g of (dependents, in_degree) \<Rightarrow>
        (case kahn dependents in_degree of
           None \<Rightarrow> None
         | Some (order, in_degree') \<Rightarrow>
             Some (if length order < length in_degree'
                   then Inl (List.map_filter (\<lambda>i. map_option bn_name (hm_get (pg_nodes g) i)) (in_cycle_keys in_degree'))
                   else Inr order)))"

section \<open>The validation phase of the compiler\<close>

fun add_dependency ::
  "(byte list \<Rightarrow> byte list) \<Rightarrow> (byte list \<Rightarrow> string) \<Rightarrow> string \<times> behavior \<Rightarrow> project_graph \<Rightarrow> project_graph" where
  "add_dependency sha256 hex_encode (path, b) g =
     (case behavior_to_node g b (Some path) of (g', n) \<Rightarrow> fst (add_node sha256 hex_encode g' n))"

definition build_project_graph ::
  "(byte list \<Rightarrow> byte list) \<Rightarrow> (byte list \<Rightarrow> string) \<Rightarrow> (string \<times> behavior) list \<Rightarrow> (string, contract) hmap
     \<Rightarrow> project_graph" where
  "build_project_graph sha256 hex_encode dependencies library_contracts =
     fold (\<lambda>(lname, c) g. add_library_node g
              (contract_to_ref lname c (compute_contract_hash sha256 hex_encode c) []))
       library_contracts
       (fold (add_dependency sha256 hex_encode) dependencies project_graph_new)"

fun fatal_kind :: "graph_error_kind \<Rightarrow> bool" where
  "fatal_kind (StaleDependency _ _ _) = True"
| "fatal_kind (UndefinedDependency _) = True"
| "fatal_kind (TransitivePurityViolation _) = True"
| "fatal_kind (CircularDependency _) = True"
| "fatal_kind _ = False"

definition whole_graph_validation ::
  "(byte list \<Rightarrow> byte list) \<Rightarrow> (byte list \<Rightarrow> string) \<Rightarrow> (string \<times> behavior) list \<Rightarrow> (string, contract) hmap
     \<Rightarrow> (string + unit) option" where
  "whole_graph_validation sha256 hex_encode dependencies library_contracts =
     (case validate_graph (build_project_graph sha256 hex_encode dependencies library_contracts) of
        None \<Rightarrow> None
      | Some errors \<Rightarrow>
          (let fatal = map graph_error_display (filter (\<lambda>e. fatal_kind (ge_kind e)) errors)
           in Some (if fatal \<noteq> []
                    then Inl (''whole-graph validation failed:'' @ newline_char # ''  ''
                              @ join_with (newline_char # ''  '') fatal)
                    else Inr ())))"

section \<open>The dependency relation\<close>

definition local_names :: "project_graph \<Rightarrow> string set" where
  "local_names g = bn_name ` set (hm_values (pg_nodes g))"

definition local_deps :: "project_graph \<Rightarrow> behavior_node \<Rightarrow> dependency_ref list" where
  "local_deps g n = filter (\<lambda>d. dr_name d \<in> local_names g) (bn_requires n)"

definition dep_pairs :: "project_graph \<Rightarrow> (string \<times> string) list" where
  "dep_pairs g = concat (map (\<lambda>n. map (\<lambda>d. (bn_name n, dr_name d)) (local_deps g n)) (hm_values (pg_nodes g)))"

definition dep_rel :: "project_graph \<Rightarrow> (string \<times> string) set" where
  "dep_rel g = {(x, y). y \<in> local_names g \<and>
     (\<exists>n \<in> set (hm_values (pg_nodes g)). bn_name n = x \<and> y \<in> dr_name ` set (bn_requires n))}"

lemma find_node_None: "find_node g x = None \<longleftrightarrow> x \<notin> local_names g"
  by (auto simp: find_node_def find_None local_names_def)

lemma set_dep_pairs: "set (dep_pairs g) = dep_rel g"
  by (auto simp: dep_pairs_def dep_rel_def local_deps_def)

lemma circular_node_built:
  assumes "built K ps (adj, m)"
  shows "\<exists>adj' m'. add_circular_node g n (adj, m) = (adj', m') \<and>
    built (insert (bn_name n) K \<union> dr_name ` set (local_deps g n))
      (ps @ map (\<lambda>d. (bn_name n, dr_name d)) (local_deps g n)) (adj', m')"
proof -
  have *: "\<exists>adj' m'. fold (add_circular_dep g n) ds (a, d) = (adj', m') \<and>
      built (L \<union> dr_name ` set (filter (\<lambda>d. dr_name d \<in> local_names g) ds))
        (qs @ map (\<lambda>d. (bn_name n, dr_name d)) (filter (\<lambda>d. dr_name d \<in> local_names g) ds)) (adj', m')"
    if "built L qs (a, d)" "bn_name n \<in> L" for ds L qs a d
    using that
  proof (induction ds arbitrary: L qs a d)
    case (Cons e ds)
    show ?case
    proof (cases "dr_name e \<in> local_names g")
      case False
      then show ?thesis using Cons by (simp add: find_node_None)
    next
      case True
      from Cons.IH [OF built_edge [OF built_touch_adj [OF Cons.prems(1)] Cons.prems(2), of "dr_name e" "dr_name e"]]
      show ?thesis using True Cons.prems(2) by (simp add: find_node_None)
    qed
  qed simp
  show ?thesis
    using * [OF built_touch_deg [OF built_touch_adj [OF assms, of "bn_name n"], of "bn_name n"], of "bn_requires n"]
    by (simp add: local_deps_def)
qed

lemma circular_maps_built:
  "\<exists>adj m. circular_maps g = (adj, m) \<and> built (local_names g) (dep_pairs g) (adj, m)"
proof -
  have "\<exists>adj' m'. fold (add_circular_node g) ns (adj, m) = (adj', m') \<and>
      built (K \<union> bn_name ` set ns \<union> (\<Union>n\<in>set ns. dr_name ` set (local_deps g n)))
        (ps @ concat (map (\<lambda>n. map (\<lambda>d. (bn_name n, dr_name d)) (local_deps g n)) ns)) (adj', m')"
    if "built K ps (adj, m)" for ns K ps adj m
    using that
  proof (induction ns arbitrary: K ps adj m)
    case (Cons n ns)
    from circular_node_built [OF Cons.prems, of g n] obtain a d where ad:
      "add_circular_node g n (adj, m) = (a, d)"
      "built (insert (bn_name n) K \<union> dr_name ` set (local_deps g n)) (ps @ map (\<lambda>d. (bn_name n, dr_name d)) (local_deps g n)) (a, d)"
      by blast
    moreover have "K \<union> bn_name ` set (n # ns) \<union> (\<Union>n\<in>set (n # ns). dr_name ` set (local_deps g n))
        = insert (bn_name n) K \<union> dr_name ` set (local_deps g n) \<union> bn_name ` set ns
          \<union> (\<Union>n\<in>set ns. dr_name ` set (local_deps g n))" by auto
    ultimately show ?case using Cons.IH [OF ad(2)] by simp
  qed simp
  from this [OF built_Nil, of "hm_values (pg_nodes g)"]
  have "\<exists>adj m. circular_maps g = (adj, m) \<and>
      built (local_names g \<union> (\<Union>n\<in>set (hm_values (pg_nodes g)). dr_name ` set (local_deps g n))) (dep_pairs g) (adj, m)"
    by (simp add: circular_maps_def local_names_def dep_pairs_def)
  moreover have "(\<Union>n\<in>set (hm_values (pg_nodes g)). dr_name ` set (local_deps g n)) \<subseteq> local_names g"
    by (auto simp: local_deps_def)
  ultimately show ?thesis by (simp add: Un_absorb2)
qed

interpretation circ: kahn_input "fst (circular_maps g)" "snd (circular_maps g)" "local_names g" "succs_of (dep_pairs g)" for g
  using circular_maps_built [of g] built_kahn_input by fastforce

lemma circ_edge_rel: "circ.edge_rel g = dep_rel g"
  using circular_maps_built [of g] succs_of_rel [of "dep_pairs g" "local_names g"]
  unfolding circ.edge_rel_def by (auto simp: built_def set_dep_pairs)

definition cyclic_names :: "project_graph \<Rightarrow> string set" where
  "cyclic_names g = {y. \<exists>x. (x, x) \<in> (dep_rel g)\<^sup>+ \<and> (x, y) \<in> (dep_rel g)\<^sup>*}"

lemma circular_cases:
  obtains (ok) "check_circular_dependencies g = Some []" "acyclic (dep_rel g)"
  | (cycle) names where "check_circular_dependencies g = Some [circular_error names]"
      "\<not> acyclic (dep_rel g)" "set names = cyclic_names g"
proof -
  obtain order m where k: "kahn (fst (circular_maps g)) (snd (circular_maps g)) = Some (order, m)"
    and l: "length order < length m \<longleftrightarrow> \<not> acyclic (dep_rel g)" and c: "set (in_cycle_keys m) = cyclic_names g"
    using circ.kahn_correct [of g] unfolding circ_edge_rel cyclic_names_def by blast
  have r: "check_circular_dependencies g =
      Some (if length order < length m then [circular_error (in_cycle_keys m)] else [])"
    using k by (cases "circular_maps g") (simp add: check_circular_dependencies_def)
  show ?thesis
  proof (cases "acyclic (dep_rel g)")
    case True
    then show ?thesis using r l ok by simp
  next
    case False
    then show ?thesis using r l c cycle by simp
  qed
qed

section \<open>What the purity search finds\<close>

definition use_rel :: "project_graph \<Rightarrow> (string \<times> string) set" where
  "use_rel g = {(x, y). y \<in> set (sub_deps g x)}"

definition impure_dep :: "project_graph \<Rightarrow> string \<Rightarrow> bool" where
  "impure_dep g x \<longleftrightarrow> (case dep_guarantees g x of None \<Rightarrow> False | Some gs \<Rightarrow> Pure \<notin> set gs)"

lemma unknown_no_sub_deps: "dep_guarantees g x = None \<Longrightarrow> sub_deps g x = []"
  by (auto simp: dep_guarantees_def sub_deps_def split: option.splits)

lemma purity_search_sound:
  "purity_search g visited to_check = Some y \<Longrightarrow>
    impure_dep g y \<and> (\<exists>s \<in> set to_check. (s, y) \<in> (use_rel g)\<^sup>*)"
proof (induction g visited to_check rule: purity_search.induct)
  case (2 g visited x to_check)
  show ?case
  proof (cases "x \<in> set visited")
    case True
    then show ?thesis using 2 by auto
  next
    case new: False
    show ?thesis
    proof (cases "dep_guarantees g x")
      case None
      then show ?thesis using 2(2) [OF new None] 2(4) new by auto
    next
      case (Some gs)
      show ?thesis
      proof (cases "Pure \<in> set gs")
        case True
        then have "impure_dep g y \<and> (\<exists>s \<in> set (sub_deps g x) \<union> set to_check. (s, y) \<in> (use_rel g)\<^sup>*)"
          using 2(3) [OF new Some] 2(4) new Some by simp
        moreover have "(x, s) \<in> use_rel g" if "s \<in> set (sub_deps g x)" for s using that by (simp add: use_rel_def)
        ultimately show ?thesis by (auto intro: converse_rtrancl_into_rtrancl)
      next
        case False
        then have "y = x" using 2(4) new Some by simp
        then show ?thesis using Some False by (simp add: impure_dep_def)
      qed
    qed
  qed
qed simp

text \<open>
  When the search finds nothing, the names it ends with are closed under the dependencies and
  none of them is impure.
\<close>

lemma purity_search_complete:
  "purity_search g visited to_check = None \<Longrightarrow> (\<forall>x \<in> set visited. \<not> impure_dep g x) \<Longrightarrow>
    use_rel g `` set visited \<subseteq> set visited \<union> set to_check \<Longrightarrow>
    \<exists>V. set visited \<union> set to_check \<subseteq> V \<and> use_rel g `` V \<subseteq> V \<and> (\<forall>x \<in> V. \<not> impure_dep g x)"
proof (induction g visited to_check rule: purity_search.induct)
  case (1 g visited)
  then show ?case by (intro exI [of _ "set visited"]) simp
next
  case (2 g visited x to_check)
  show ?case
  proof (cases "x \<in> set visited")
    case True
    then show ?thesis using 2(1) [OF True] 2(4-6) by (simp add: insert_absorb)
  next
    case new: False
    have next_img: "use_rel g `` insert x (set visited) = set (sub_deps g x) \<union> use_rel g `` set visited"
      by (auto simp: use_rel_def)
    show ?thesis
    proof (cases "dep_guarantees g x")
      case None
      have "\<exists>V. set (hs_insert x visited) \<union> set to_check \<subseteq> V \<and> use_rel g `` V \<subseteq> V \<and> (\<forall>x \<in> V. \<not> impure_dep g x)"
      proof (rule 2(2) [OF new None])
        show "purity_search g (hs_insert x visited) to_check = None" using 2(4) new None by simp
        show "\<forall>x\<in>set (hs_insert x visited). \<not> impure_dep g x" using 2(5) None by (simp add: impure_dep_def)
        show "use_rel g `` set (hs_insert x visited) \<subseteq> set (hs_insert x visited) \<union> set to_check"
          using 2(6) next_img unknown_no_sub_deps [OF None] by auto
      qed
      then show ?thesis by simp
    next
      case (Some gs)
      then have p: "Pure \<in> set gs" using 2(4) new by (simp split: if_splits)
      have "\<exists>V. set (hs_insert x visited) \<union> set (rev (sub_deps g x) @ to_check) \<subseteq> V
          \<and> use_rel g `` V \<subseteq> V \<and> (\<forall>x \<in> V. \<not> impure_dep g x)"
      proof (rule 2(3) [OF new Some])
        show "\<not> Pure \<notin> set gs" using p by simp
        show "purity_search g (hs_insert x visited) (rev (sub_deps g x) @ to_check) = None" using 2(4) new Some p by simp
        show "\<forall>x\<in>set (hs_insert x visited). \<not> impure_dep g x" using 2(5) Some p by (simp add: impure_dep_def)
        show "use_rel g `` set (hs_insert x visited) \<subseteq> set (hs_insert x visited) \<union> set (rev (sub_deps g x) @ to_check)"
          using 2(6) next_img by auto
      qed
      then obtain V where "set (hs_insert x visited) \<union> set (rev (sub_deps g x) @ to_check) \<subseteq> V"
        "use_rel g `` V \<subseteq> V" "\<forall>x \<in> V. \<not> impure_dep g x" by blast
      then show ?thesis by (intro exI [of _ V]) simp
    qed
  qed
qed

lemma purity_search_exact:
  "purity_search g [] to_check = None \<longleftrightarrow> (\<forall>s \<in> set to_check. \<forall>y. (s, y) \<in> (use_rel g)\<^sup>* \<longrightarrow> \<not> impure_dep g y)"
proof
  assume "purity_search g [] to_check = None"
  then obtain V where V: "set to_check \<subseteq> V" "use_rel g `` V \<subseteq> V" "\<forall>x \<in> V. \<not> impure_dep g x"
    using purity_search_complete [of g "[]" to_check] by auto
  have "(s, y) \<in> (use_rel g)\<^sup>* \<Longrightarrow> s \<in> V \<Longrightarrow> y \<in> V" for s y
    by (induction rule: rtrancl_induct) (use V(2) in blast)+
  then show "\<forall>s \<in> set to_check. \<forall>y. (s, y) \<in> (use_rel g)\<^sup>* \<longrightarrow> \<not> impure_dep g y" using V(1,3) by blast
next
  assume "\<forall>s \<in> set to_check. \<forall>y. (s, y) \<in> (use_rel g)\<^sup>* \<longrightarrow> \<not> impure_dep g y"
  then show "purity_search g [] to_check = None"
    using purity_search_sound [of g "[]" to_check] by (cases "purity_search g [] to_check") blast+
qed

definition purity_violation :: "project_graph \<Rightarrow> behavior_node \<Rightarrow> string \<Rightarrow> bool" where
  "purity_violation g n y \<longleftrightarrow> n \<in> set (hm_values (pg_nodes g)) \<and> Pure \<in> set (bn_guarantees n)
     \<and> (\<exists>d \<in> set (bn_requires n). (dr_name d, y) \<in> (use_rel g)\<^sup>*) \<and> impure_dep g y"

definition purity_respected :: "project_graph \<Rightarrow> bool" where
  "purity_respected g \<longleftrightarrow> (\<forall>n \<in> set (hm_values (pg_nodes g)). Pure \<in> set (bn_guarantees n) \<longrightarrow>
     (\<forall>d \<in> set (bn_requires n). \<forall>y. (dr_name d, y) \<in> (use_rel g)\<^sup>* \<longrightarrow> \<not> impure_dep g y))"

lemma optional_error_Nil: "(case x of None \<Rightarrow> [] | Some d \<Rightarrow> [F d]) = [] \<longleftrightarrow> x = None"
  by (cases x) simp_all

lemma check_transitive_purity_Nil: "check_transitive_purity g = [] \<longleftrightarrow> purity_respected g"
  unfolding check_transitive_purity_def purity_respected_def concat_map_eq_Nil
  by (simp add: optional_error_Nil purity_search_exact)

definition deps_resolve :: "project_graph \<Rightarrow> bool" where
  "deps_resolve g \<longleftrightarrow> (\<forall>n \<in> set (hm_values (pg_nodes g)). \<forall>d \<in> set (bn_requires n).
     dr_name d \<in> local_names g \<or> dr_name d \<in> set (hm_keys (pg_library_nodes g)))"

definition pins_match :: "project_graph \<Rightarrow> bool" where
  "pins_match g \<longleftrightarrow> (\<forall>n \<in> set (hm_values (pg_nodes g)). \<forall>d \<in> set (bn_requires n). \<forall>found.
     lookup g (dr_name d) = Some found \<longrightarrow> dr_hash d = [] \<or> lookup_hash found = [] \<or> dr_hash d = lookup_hash found)"

lemma lookup_None: "lookup g x = None \<longleftrightarrow> x \<notin> local_names g \<and> x \<notin> set (hm_keys (pg_library_nodes g))"
  using find_node_None [of g x] by (auto simp: lookup_def set_hm_keys split: option.splits)

lemma check_dependencies_resolve_Nil: "check_dependencies_resolve g = [] \<longleftrightarrow> deps_resolve g"
  unfolding check_dependencies_resolve_def deps_resolve_def concat_map_eq_Nil using lookup_None [of g] by auto

lemma check_hash_consistency_Nil: "check_hash_consistency g = [] \<longleftrightarrow> pins_match g"
  unfolding check_hash_consistency_def pins_match_def concat_map_eq_Nil
  by (auto simp: Let_def split: option.splits)

lemma validate_graph_total: "\<exists>es. validate_graph g = Some es \<and>
    (es = [] \<longleftrightarrow> deps_resolve g \<and> pins_match g \<and> acyclic (dep_rel g) \<and> purity_respected g)"
  by (cases rule: circular_cases [of g])
    (auto simp: validate_graph_def check_dependencies_resolve_Nil check_hash_consistency_Nil check_transitive_purity_Nil)

section \<open>The order of compilation\<close>

definition id_pairs :: "project_graph \<Rightarrow> (node_id \<times> node_id) list" where
  "id_pairs g = concat (map (\<lambda>n. map (\<lambda>j. (j, bn_id n)) (List.map_filter (\<lambda>d. find_node_id g (dr_name d)) (bn_requires n)))
     (hm_values (pg_nodes g)))"

definition id_rel :: "project_graph \<Rightarrow> (node_id \<times> node_id) set" where
  "id_rel g = {(j, i). \<exists>n d. hm_get (pg_nodes g) i = Some n \<and> d \<in> set (bn_requires n) \<and> find_node_id g (dr_name d) = Some j}"

lemma set_map_filter: "y \<in> set (List.map_filter f xs) \<longleftrightarrow> (\<exists>x \<in> set xs. f x = Some y)"
  by (induction xs) (auto simp: map_filter_simps split: option.splits)

lemma nodes_ok_values:
  "nodes_ok sha hx g \<Longrightarrow> n \<in> set (hm_values (pg_nodes g)) \<longleftrightarrow> hm_get (pg_nodes g) (bn_id n) = Some n"
  unfolding nodes_ok_iff using hm_values_get [of "pg_nodes g" n] by auto

lemma set_id_pairs: "nodes_ok sha hx g \<Longrightarrow> set (id_pairs g) = id_rel g"
  using hm_values_get [of "pg_nodes g"]
  unfolding nodes_ok_iff id_pairs_def id_rel_def by (fastforce simp: set_map_filter)

lemma find_node_id_key:
  assumes "nodes_ok sha hx g" "find_node_id g x = Some j"
  shows "j \<in> set (hm_keys (pg_nodes g))"
proof -
  obtain n where n: "find_node g x = Some n" "j = bn_id n"
    using assms(2) by (auto simp: find_node_id_def find_node_def)
  from nodes_ok_find [OF assms(1) n(1)] n(2) show ?thesis by (simp add: set_hm_keys)
qed

lemma topo_node_built:
  assumes "built K ps (dn, m)" "bn_id n \<in> K" "\<And>x j. find_node_id g x = Some j \<Longrightarrow> j \<in> K"
  shows "\<exists>dn' m'. fold (add_topo_dep g n) ds (dn, m) = (dn', m') \<and>
    built K (ps @ map (\<lambda>j. (j, bn_id n)) (List.map_filter (\<lambda>d. find_node_id g (dr_name d)) ds)) (dn', m')"
  using assms(1)
proof (induction ds arbitrary: ps dn m)
  case (Cons d ds)
  show ?case
  proof (cases "find_node_id g (dr_name d)")
    case None
    then show ?thesis using Cons by (simp add: map_filter_simps)
  next
    case (Some j)
    have "built K (ps @ [(j, bn_id n)]) (hm_push j (bn_id n) dn, hm_incr (bn_id n) m)"
      using built_edge [OF Cons.prems assms(3) [OF Some], of "bn_id n"] assms(2) by (simp add: insert_absorb)
    from Cons.IH [OF this] show ?thesis using Some by (simp add: map_filter_simps)
  qed
qed (simp add: map_filter_simps)

lemma topo_start: "deg_is (fold (\<lambda>i m. hm_insert i 0 m) xs []) (set xs) (\<lambda>k. 0)"
proof -
  have "deg_is m K (\<lambda>k. 0) \<Longrightarrow> deg_is (fold (\<lambda>i m. hm_insert i 0 m) xs m) (set xs \<union> K) (\<lambda>k. 0)" for m K
  proof (induction xs arbitrary: m K)
    case (Cons x xs)
    have "deg_is (hm_insert x 0 m) (insert x K) (\<lambda>k. 0)" using Cons.prems by (auto simp: deg_is_def)
    from Cons.IH [OF this] show ?case by simp
  qed simp
  from this [of "[]" "{}"] show ?thesis by (simp add: deg_is_def)
qed

lemma topo_maps_built:
  assumes "nodes_ok sha hx g"
  shows "\<exists>dn m. topo_maps g = (dn, m) \<and> built (set (hm_keys (pg_nodes g))) (id_pairs g) (dn, m)"
proof -
  let ?K = "set (hm_keys (pg_nodes g))"
  have "\<exists>dn' m'. fold (\<lambda>n s. fold (add_topo_dep g n) (bn_requires n) s) ns (dn, m) = (dn', m') \<and>
      built ?K (ps @ concat (map (\<lambda>n. map (\<lambda>j. (j, bn_id n))
        (List.map_filter (\<lambda>d. find_node_id g (dr_name d)) (bn_requires n))) ns)) (dn', m')"
    if "built ?K ps (dn, m)" "bn_id ` set ns \<subseteq> ?K" for ns ps dn m
    using that
  proof (induction ns arbitrary: ps dn m)
    case (Cons n ns)
    have "bn_id n \<in> ?K" using Cons.prems(2) by simp
    from topo_node_built [OF Cons.prems(1) this, of g "bn_requires n"] find_node_id_key [OF assms]
    obtain dn' m' where "fold (add_topo_dep g n) (bn_requires n) (dn, m) = (dn', m')"
      "built ?K (ps @ map (\<lambda>j. (j, bn_id n)) (List.map_filter (\<lambda>d. find_node_id g (dr_name d)) (bn_requires n))) (dn', m')"
      by blast
    with Cons.IH [OF this(2)] Cons.prems(2) show ?case by simp
  qed simp
  moreover have "built ?K [] ([], fold (\<lambda>i m. hm_insert i 0 m) (hm_keys (pg_nodes g)) [])"
    using topo_start [of "hm_keys (pg_nodes g)"] by (simp add: built_def succs_of_def)
  moreover have "bn_id ` set (hm_values (pg_nodes g)) \<subseteq> ?K"
    using nodes_ok_values [OF assms] by (auto simp: set_hm_keys)
  ultimately show ?thesis unfolding topo_maps_def id_pairs_def by fastforce
qed

lemma topo_kahn:
  assumes "nodes_ok sha hx g"
  shows "\<exists>order m. kahn (fst (topo_maps g)) (snd (topo_maps g)) = Some (order, m) \<and> distinct order
    \<and> (length order < length m \<longleftrightarrow> \<not> acyclic (id_rel g))
    \<and> (acyclic (id_rel g) \<longrightarrow> set order = set (hm_keys (pg_nodes g)))
    \<and> (\<forall>xs i ys. order = xs @ i # ys \<longrightarrow> (\<forall>j. (j, i) \<in> id_rel g \<longrightarrow> j \<in> set xs))"
proof -
  let ?K = "set (hm_keys (pg_nodes g))" and ?s = "succs_of (id_pairs g)"
  from topo_maps_built [OF assms] obtain dn m where
    m: "topo_maps g = (dn, m)" and b: "built ?K (id_pairs g) (dn, m)" by blast
  note k = built_kahn_input [OF b]
  have e: "kahn_input.edge_rel ?K ?s = id_rel g"
    unfolding kahn_input.edge_rel_def [OF k]
    using succs_of_rel [of "id_pairs g" ?K] b set_id_pairs [OF assms] by (simp add: built_def)
  show ?thesis
    using kahn_input.kahn_correct [OF k] unfolding kahn_input.ordered_def [OF k] e m by auto
qed

section \<open>The graph of a program\<close>

definition requires_rel :: "behavior list \<Rightarrow> (string \<times> string) set" where
  "requires_rel bs = {(x, y). y \<in> b_name ` set bs \<and>
     (\<exists>b \<in> set bs. b_name b = x \<and> y \<in> br_name ` set (rq_behaviors (c_requires (b_contract b))))}"

definition node_of ::
  "(byte list \<Rightarrow> byte list) \<Rightarrow> (byte list \<Rightarrow> string) \<Rightarrow> behavior_node \<Rightarrow> behavior \<Rightarrow> bool" where
  "node_of sha256 hex_encode n b \<longleftrightarrow> bn_name n = b_name b \<and> bn_guarantees n = c_guarantees (b_contract b)
     \<and> map (\<lambda>d. (dr_name d, dr_hash d)) (bn_requires n)
       = map (\<lambda>r. (br_name r, br_hash r)) (rq_behaviors (c_requires (b_contract b)))
     \<and> bn_hash n = compute_contract_hash sha256 hex_encode (b_contract b)"

lemma hm_insert_fresh: "hm_get m k = None \<Longrightarrow> hm_insert k v m = m @ [(k, v)]"
  by (induction k v m rule: hm_insert.induct) (auto simp: hm_get_def split: if_splits)

lemma behavior_to_node_of:
  assumes "behavior_to_node g b p = (g', n)"
  shows "node_of sha hx (n\<lparr>bn_hash := compute_hash sha hx n\<rparr>) b \<and> bn_id n = pg_next_node_id g
    \<and> g' = g\<lparr>pg_next_node_id := pg_next_node_id g + 1\<rparr>"
proof -
  note def = assms [unfolded behavior_to_node_def next_node_id_def Let_def behavior_node_new_def, simplified,
      THEN conjunct2, symmetric]
  have "g' = g\<lparr>pg_next_node_id := pg_next_node_id g + 1\<rparr>"
    using assms by (simp add: behavior_to_node_def next_node_id_def Let_def)
  moreover have "compute_hash sha hx n = compute_contract_hash sha hx (b_contract b)"
    by (rule behavior_node_hash [OF assms])
  ultimately show ?thesis by (simp add: def node_of_def comp_def)
qed

lemma add_dependency_step:
  assumes ok: "graph_ok sha hx g" and room: "pg_next_node_id g \<noteq> usize_max"
  shows "\<exists>n. node_of sha hx n b \<and> hm_values (pg_nodes (add_dependency sha hx (path, b) g)) = hm_values (pg_nodes g) @ [n]
    \<and> graph_ok sha hx (add_dependency sha hx (path, b) g)
    \<and> pg_next_node_id (add_dependency sha hx (path, b) g) = pg_next_node_id g + 1
    \<and> pg_library_nodes (add_dependency sha hx (path, b) g) = pg_library_nodes g"
proof -
  obtain g1 n where n: "behavior_to_node g b (Some path) = (g1, n)" by fastforce
  let ?n = "n\<lparr>bn_hash := compute_hash sha hx n\<rparr>"
  note b = behavior_to_node_of [OF n, of sha hx]
  have g: "add_dependency sha hx (path, b) g =
      g\<lparr>pg_next_node_id := pg_next_node_id g + 1, pg_nodes := hm_insert (pg_next_node_id g) ?n (pg_nodes g)\<rparr>"
    using b by (simp add: n add_node_def Let_def graph_simps)
  have "hm_get (pg_nodes g) (pg_next_node_id g) = None"
    using ok by (cases "hm_get (pg_nodes g) (pg_next_node_id g)") (auto simp: graph_ok_def nodes_ok_iff)
  then have "hm_values (pg_nodes (add_dependency sha hx (path, b) g)) = hm_values (pg_nodes g) @ [?n]"
    unfolding g by (simp add: hm_values_def hm_insert_fresh)
  moreover have "graph_ok sha hx (add_dependency sha hx (path, b) g)"
    using graph_ok_add_behavior [OF ok n room] by (simp add: n)
  ultimately show ?thesis using b unfolding g by auto
qed

lemma build_nodes:
  "graph_ok sha hx g \<Longrightarrow> unat (pg_next_node_id g) + length bs < 2 ^ 64 \<Longrightarrow>
    graph_ok sha hx (fold (add_dependency sha hx) bs g)
    \<and> pg_library_nodes (fold (add_dependency sha hx) bs g) = pg_library_nodes g
    \<and> (\<exists>ns. hm_values (pg_nodes (fold (add_dependency sha hx) bs g)) = hm_values (pg_nodes g) @ ns
        \<and> list_all2 (node_of sha hx) ns (map snd bs))"
proof (induction bs arbitrary: g)
  case (Cons pb bs)
  obtain path b where pb: "pb = (path, b)" by (cases pb)
  have room: "pg_next_node_id g \<noteq> usize_max" "unat (pg_next_node_id g + 1) + length bs < 2 ^ 64"
    using counter_room [of "pg_next_node_id g" "length bs"] Cons.prems(2) by simp_all
  let ?g = "add_dependency sha hx (path, b) g"
  from add_dependency_step [OF Cons.prems(1) room(1), of b path] obtain n where
    n: "node_of sha hx n b" "hm_values (pg_nodes ?g) = hm_values (pg_nodes g) @ [n]" "graph_ok sha hx ?g"
      "pg_next_node_id ?g = pg_next_node_id g + 1" "pg_library_nodes ?g = pg_library_nodes g" by blast
  from Cons.IH [OF n(3)] room(2) n(4) obtain ns where
    "graph_ok sha hx (fold (add_dependency sha hx) bs ?g)"
    "pg_library_nodes (fold (add_dependency sha hx) bs ?g) = pg_library_nodes ?g"
    "hm_values (pg_nodes (fold (add_dependency sha hx) bs ?g)) = hm_values (pg_nodes ?g) @ ns"
    "list_all2 (node_of sha hx) ns (map snd bs)" by auto
  with n show ?case
    by (auto simp: pb simp del: add_dependency.simps intro!: exI [of _ "n # ns"])
qed simp

lemma add_libraries_frame:
  "pg_nodes (fold (\<lambda>(lname, c) g. add_library_node g (contract_to_ref lname c (h c) [])) libs g) = pg_nodes g"
  by (induction libs arbitrary: g) (auto simp: add_library_node_def)

lemma project_graph_nodes:
  assumes "length bs < 2 ^ 64 - 1"
  obtains "list_all2 (node_of sha hx) (hm_values (pg_nodes (build_project_graph sha hx bs libs))) (map snd bs)"
proof -
  have "unat (pg_next_node_id project_graph_new) + length bs < 2 ^ 64"
    using assms by (simp add: project_graph_new_def)
  from build_nodes [OF graph_ok_new this] show ?thesis
    using that by (auto simp: build_project_graph_def add_libraries_frame project_graph_new_def hm_values_def)
qed

definition represents ::
  "(byte list \<Rightarrow> byte list) \<Rightarrow> (byte list \<Rightarrow> string) \<Rightarrow> project_graph \<Rightarrow> behavior list \<Rightarrow> bool" where
  "represents sha256 hex_encode g bs \<longleftrightarrow>
     list_all2 (node_of sha256 hex_encode) (hm_values (pg_nodes g)) bs \<and> distinct (map b_name bs)"

lemma represents_node:
  assumes "represents sha hx g bs" "b \<in> set bs"
  obtains n where "n \<in> set (hm_values (pg_nodes g))" "node_of sha hx n b" "find_node g (b_name b) = Some n"
proof -
  have l: "list_all2 (node_of sha hx) (hm_values (pg_nodes g)) bs" and d: "distinct (map b_name bs)"
    using assms(1) by (simp_all add: represents_def)
  from assms(2) obtain i where i: "i < length bs" "bs ! i = b" by (auto simp: in_set_conv_nth)
  let ?n = "hm_values (pg_nodes g) ! i"
  have len: "length (hm_values (pg_nodes g)) = length bs" using l by (rule list_all2_lengthD)
  have n: "node_of sha hx ?n b" using l i by (auto simp: list_all2_conv_all_nth)
  have mem: "?n \<in> set (hm_values (pg_nodes g))" using i len by simp
  have "bn_name ?n = b_name b" using n by (simp add: node_of_def)
  then have "b_name b \<in> local_names g" unfolding local_names_def using imageI [OF mem, of bn_name] by simp
  then have "find_node g (b_name b) \<noteq> None" by (simp add: find_node_None)
  then obtain m where m: "find_node g (b_name b) = Some m" by blast
  then have "m \<in> set (hm_values (pg_nodes g))" "bn_name m = b_name b"
    using find_SomeD [OF m [unfolded find_node_def]] by simp_all
  then obtain j where j: "j < length bs" "hm_values (pg_nodes g) ! j = m" using len by (auto simp: in_set_conv_nth)
  then have "b_name (bs ! j) = b_name (bs ! i)"
    using l \<open>bn_name m = b_name b\<close> i by (auto simp: list_all2_conv_all_nth node_of_def)
  then have "i = j" using d i j by (simp add: distinct_conv_nth) metis
  then show ?thesis using that mem n m j by blast
qed

lemma represents_names: "represents sha hx g bs \<Longrightarrow> local_names g = b_name ` set bs"
proof -
  assume "represents sha hx g bs"
  then have "list_all2 (\<lambda>n b. bn_name n = b_name b) (hm_values (pg_nodes g)) bs"
    unfolding represents_def by (auto elim: list_all2_mono simp: node_of_def)
  then have "map bn_name (hm_values (pg_nodes g)) = map b_name bs"
    by (induction rule: list_all2_induct) simp_all
  then show ?thesis unfolding local_names_def by (metis set_map)
qed

lemma node_of_requires:
  assumes "node_of sha hx n b" "r \<in> set (rq_behaviors (c_requires (b_contract b)))"
  shows "\<exists>d \<in> set (bn_requires n). dr_name d = br_name r \<and> dr_hash d = br_hash r"
proof -
  have "(br_name r, br_hash r) \<in> (\<lambda>d. (dr_name d, dr_hash d)) ` set (bn_requires n)"
  proof -
    have "(br_name r, br_hash r) \<in> set (map (\<lambda>r. (br_name r, br_hash r)) (rq_behaviors (c_requires (b_contract b))))"
      using assms(2) by simp
    then have "(br_name r, br_hash r) \<in> set (map (\<lambda>d. (dr_name d, dr_hash d)) (bn_requires n))"
      using assms(1) by (simp only: node_of_def)
    then show ?thesis by simp
  qed
  then show ?thesis by auto
qed

lemma requires_rel_dep: "represents sha hx g bs \<Longrightarrow> requires_rel bs \<subseteq> dep_rel g \<inter> use_rel g"
proof
  fix p assume r: "represents sha hx g bs" and "p \<in> requires_rel bs"
  then obtain x y where xy: "p = (x, y)" "(x, y) \<in> requires_rel bs" by (cases p) simp
  then obtain b where b1: "b \<in> set bs" "b_name b = x" "y \<in> br_name ` set (rq_behaviors (c_requires (b_contract b)))"
    "y \<in> b_name ` set bs" by (auto simp: requires_rel_def)
  from b1(3) obtain q where q: "q \<in> set (rq_behaviors (c_requires (b_contract b)))" "y = br_name q" by (rule imageE)
  note b = b1(1) q(1) xy(1) [folded b1(2), unfolded q(2)] b1(4) [unfolded q(2)]
  obtain n where n: "n \<in> set (hm_values (pg_nodes g))" "node_of sha hx n b" "find_node g (b_name b) = Some n"
    using represents_node [OF r b(1)] .
  from node_of_requires [OF n(2) b(2)] obtain d where d: "d \<in> set (bn_requires n)" "dr_name d = br_name q" by blast
  have "(b_name b, br_name q) \<in> dep_rel g"
    unfolding dep_rel_def represents_names [OF r] using b n d by (force simp: node_of_def)
  moreover have "(b_name b, br_name q) \<in> use_rel g"
    using n(3) d by (force simp: use_rel_def sub_deps_def)
  ultimately show "p \<in> dep_rel g \<inter> use_rel g" by (simp add: b(3))
qed

definition pins_current ::
  "(byte list \<Rightarrow> byte list) \<Rightarrow> (byte list \<Rightarrow> string) \<Rightarrow> behavior list \<Rightarrow> bool" where
  "pins_current sha256 hex_encode bs \<longleftrightarrow> (\<forall>b \<in> set bs. \<forall>r \<in> set (rq_behaviors (c_requires (b_contract b))).
     \<forall>c \<in> set bs. b_name c = br_name r \<longrightarrow> br_hash r = []
       \<or> compute_contract_hash sha256 hex_encode (b_contract c) \<in> {[], br_hash r})"

definition purity_transitive :: "behavior list \<Rightarrow> bool" where
  "purity_transitive bs \<longleftrightarrow> (\<forall>b \<in> set bs. \<forall>c \<in> set bs. Pure \<in> set (c_guarantees (b_contract b))
     \<longrightarrow> (b_name b, b_name c) \<in> (requires_rel bs)\<^sup>+ \<longrightarrow> Pure \<in> set (c_guarantees (b_contract c)))"

lemma pins_match_current:
  assumes r: "represents sha hx g bs" and p: "pins_match g"
  shows "pins_current sha hx bs"
proof -
  have "br_hash q = [] \<or> compute_contract_hash sha hx (b_contract c) \<in> {[], br_hash q}"
    if b: "b \<in> set bs" "q \<in> set (rq_behaviors (c_requires (b_contract b)))" and c: "c \<in> set bs" "b_name c = br_name q" for b q c
  proof -
    obtain n where n: "n \<in> set (hm_values (pg_nodes g))" "node_of sha hx n b"
      using represents_node [OF r b(1)] by blast
    obtain m where m: "node_of sha hx m c" "find_node g (b_name c) = Some m"
      using represents_node [OF r c(1)] by blast
    from node_of_requires [OF n(2) b(2)] obtain d where
      d: "d \<in> set (bn_requires n)" "dr_name d = br_name q" "dr_hash d = br_hash q" by blast
    have "lookup g (dr_name d) = Some (Local m)" using m(2) c(2) d(2) by (simp add: lookup_def)
    then have "dr_hash d = [] \<or> bn_hash m = [] \<or> dr_hash d = bn_hash m"
      using p n(1) d(1) unfolding pins_match_def by fastforce
    then show ?thesis using m(1) d(3) by (auto simp: node_of_def)
  qed
  then show ?thesis unfolding pins_current_def by blast
qed

lemma purity_respected_transitive:
  assumes r: "represents sha hx g bs" and p: "purity_respected g"
  shows "purity_transitive bs"
proof -
  have "Pure \<in> set (c_guarantees (b_contract c))"
    if b: "b \<in> set bs" "Pure \<in> set (c_guarantees (b_contract b))" and c: "c \<in> set bs"
      and path: "(b_name b, b_name c) \<in> (requires_rel bs)\<^sup>+" for b c
  proof -
    obtain n where n: "n \<in> set (hm_values (pg_nodes g))" "node_of sha hx n b" "find_node g (b_name b) = Some n"
      using represents_node [OF r b(1)] .
    obtain m where m: "node_of sha hx m c" "find_node g (b_name c) = Some m"
      using represents_node [OF r c] by blast
    from tranclD [OF path] obtain z where z: "(b_name b, z) \<in> requires_rel bs" "(z, b_name c) \<in> (requires_rel bs)\<^sup>*" by blast
    have sub: "requires_rel bs \<subseteq> use_rel g" using requires_rel_dep [OF r] by blast
    have "z \<in> set (sub_deps g (b_name b))" using z(1) sub by (auto simp: use_rel_def)
    then obtain d where d: "d \<in> set (bn_requires n)" "dr_name d = z" using n(3) by (auto simp: sub_deps_def)
    have "(dr_name d, b_name c) \<in> (use_rel g)\<^sup>*" using z(2) d(2) rtrancl_mono [OF sub] by blast
    moreover have "Pure \<in> set (bn_guarantees n)" using n(2) b(2) by (simp add: node_of_def)
    ultimately have "\<not> impure_dep g (b_name c)" using p n(1) d(1) unfolding purity_respected_def by blast
    then show ?thesis using m by (simp add: impure_dep_def dep_guarantees_def node_of_def)
  qed
  then show ?thesis unfolding purity_transitive_def by blast
qed

lemma validate_kinds_fatal: "validate_graph g = Some es \<Longrightarrow> list_all (\<lambda>e. fatal_kind (ge_kind e)) es"
  by (cases rule: circular_cases [of g])
    (auto simp: validate_graph_def list_all_iff check_dependencies_resolve_def check_hash_consistency_def Let_def
      check_transitive_purity_def circular_error_def purity_error_def split: if_splits option.splits)

lemma whole_graph_accepts:
  "whole_graph_validation sha hx bs libs = Some (Inr ()) \<longleftrightarrow>
    validate_graph (build_project_graph sha hx bs libs) = Some []"
proof -
  obtain es where es: "validate_graph (build_project_graph sha hx bs libs) = Some es" using validate_graph_total by blast
  have "filter (\<lambda>e. fatal_kind (ge_kind e)) es = es"
    using validate_kinds_fatal [OF es] by (auto simp: list_all_iff intro: filter_True)
  then show ?thesis using es by (simp add: whole_graph_validation_def Let_def)
qed

lemma set_check_transitive_purity:
  "e \<in> set (check_transitive_purity g) \<longleftrightarrow> (\<exists>n \<in> set (hm_values (pg_nodes g)). Pure \<in> set (bn_guarantees n)
    \<and> (\<exists>y. purity_search g [] (rev (map dr_name (bn_requires n))) = Some y \<and> e = purity_error n y))"
proof -
  have "e \<in> set (if Pure \<notin> set (bn_guarantees n) then [] else
        (case purity_search g [] (rev (map dr_name (bn_requires n))) of None \<Rightarrow> [] | Some y \<Rightarrow> [purity_error n y]))
      \<longleftrightarrow> Pure \<in> set (bn_guarantees n)
        \<and> (\<exists>y. purity_search g [] (rev (map dr_name (bn_requires n))) = Some y \<and> e = purity_error n y)" for n
    by (cases "purity_search g [] (rev (map dr_name (bn_requires n)))") auto
  then show ?thesis unfolding check_transitive_purity_def set_concat_map by blast
qed

lemma purity_errors:
  assumes "e \<in> set (check_transitive_purity g)"
  shows "\<exists>n y. purity_violation g n y \<and> e = purity_error n y"
proof -
  from assms obtain n y where n: "n \<in> set (hm_values (pg_nodes g))" "Pure \<in> set (bn_guarantees n)"
    "purity_search g [] (rev (map dr_name (bn_requires n))) = Some y" "e = purity_error n y"
    unfolding set_check_transitive_purity by blast
  have "purity_violation g n y"
    using n(1,2) purity_search_sound [OF n(3)] by (auto simp: purity_violation_def)
  then show ?thesis using n(4) by blast
qed

lemma purity_violation_reported:
  assumes "purity_violation g n y"
  shows "\<exists>z. purity_error n z \<in> set (check_transitive_purity g)"
proof -
  have "purity_search g [] (rev (map dr_name (bn_requires n))) \<noteq> None"
    unfolding purity_search_exact using assms by (auto simp: purity_violation_def)
  then show ?thesis unfolding set_check_transitive_purity using assms by (auto simp: purity_violation_def)
qed

section \<open>Properties\<close>


definition pinned_consumer :: behavior where
  "pinned_consumer = consumer\<lparr>b_contract := (b_contract consumer)\<lparr>c_requires :=
     \<lparr>rq_behaviors = [\<lparr>br_name = ''producer'',
        br_hash = compute_contract_hash demo_hash demo_hex (b_contract producer)\<rparr>], rq_memory = []\<rparr>,
     c_guarantees := [Pure]\<rparr>\<rparr>"

definition demo_program :: "(string \<times> behavior) list" where
  "demo_program = [(''consumer.beh'', pinned_consumer), (''producer.beh'', producer)]"


text \<open>
  C40: \<^verbatim>\<open>validate_graph\<close> never overflows a degree counter, and reports nothing exactly when
  every required name is a local node or a library contract, no pin differs from the (nonempty)
  hash of what it names, the dependency relation between local names is acyclic, and no node
  declared \<^verbatim>\<open>pure\<close> reaches an impure one.
\<close>

theorem validate_graph_exact:
  "\<exists>errors. validate_graph g = Some errors \<and>
     (errors = [] \<longleftrightarrow> deps_resolve g \<and> pins_match g \<and> acyclic (dep_rel g) \<and> purity_respected g)"
  by (rule validate_graph_total)

text \<open>
  The circularity check reports at most one error; it does so exactly when the dependency
  relation between local behaviors has a cycle, and the names it lists are those on a cycle
  together with everything such a name depends on.
\<close>

theorem check_circular_exact:
  "check_circular_dependencies g = Some [] \<and> acyclic (dep_rel g)
   \<or> (\<exists>names. check_circular_dependencies g = Some [circular_error names] \<and> \<not> acyclic (dep_rel g)
        \<and> set names = {y. \<exists>x. (x, x) \<in> (dep_rel g)\<^sup>+ \<and> (x, y) \<in> (dep_rel g)\<^sup>*})"
  by (cases rule: circular_cases [of g]) (auto simp: cyclic_names_def)

text \<open>
  Every error of the purity check names a local behavior that declares \<^verbatim>\<open>pure\<close> and a
  dependency that it reaches and that is known and not pure; and the behaviors reported are all
  those for which there is such a dependency.
\<close>

theorem check_transitive_purity_exact:
  "list_all (\<lambda>e. \<exists>n y. purity_violation g n y \<and> e = purity_error n y) (check_transitive_purity g)
   \<and> ge_behavior ` set (check_transitive_purity g) = {bn_name n | n. \<exists>y. purity_violation g n y}"
proof (intro conjI subset_antisym subsetI)
  show "list_all (\<lambda>e. \<exists>n y. purity_violation g n y \<and> e = purity_error n y) (check_transitive_purity g)"
    unfolding list_all_iff using purity_errors by blast
  show "x \<in> {bn_name n | n. \<exists>y. purity_violation g n y}" if x: "x \<in> ge_behavior ` set (check_transitive_purity g)" for x
  proof -
    obtain e where "e \<in> set (check_transitive_purity g)" "x = ge_behavior e" using x by blast
    moreover then obtain n y where "purity_violation g n y" "e = purity_error n y" using purity_errors by blast
    ultimately have "x = bn_name n" "\<exists>y. purity_violation g n y" by (auto simp: purity_error_def)
    then show ?thesis by blast
  qed
  show "x \<in> ge_behavior ` set (check_transitive_purity g)" if x: "x \<in> {bn_name n | n. \<exists>y. purity_violation g n y}" for x
  proof -
    obtain n y where n: "x = bn_name n" "purity_violation g n y" using x by blast
    then obtain z where "purity_error n z \<in> set (check_transitive_purity g)" using purity_violation_reported by blast
    then show ?thesis using n(1) by (force simp: purity_error_def image_iff)
  qed
qed

text \<open>
  C26: on a well-formed graph \<^verbatim>\<open>topological_sort\<close> returns an order exactly when the
  dependencies between local nodes are acyclic; the order lists every node once, and every node
  after all the local nodes it depends on.
\<close>

theorem topological_sort_correct:
  assumes "nodes_ok sha256 hex_encode g"
  shows "case topological_sort g of
      None \<Rightarrow> False
    | Some (Inl names) \<Rightarrow> \<not> acyclic (id_rel g)
    | Some (Inr order) \<Rightarrow> acyclic (id_rel g) \<and> distinct order \<and> set order = set (hm_keys (pg_nodes g))
        \<and> (\<forall>xs i ys. order = xs @ i # ys \<longrightarrow> (\<forall>j. (j, i) \<in> id_rel g \<longrightarrow> j \<in> set xs))"
proof -
  from topo_kahn [OF assms] obtain order m where
    k: "kahn (fst (topo_maps g)) (snd (topo_maps g)) = Some (order, m)" "distinct order"
      "length order < length m \<longleftrightarrow> \<not> acyclic (id_rel g)"
      "acyclic (id_rel g) \<longrightarrow> set order = set (hm_keys (pg_nodes g))"
      "\<forall>xs i ys. order = xs @ i # ys \<longrightarrow> (\<forall>j. (j, i) \<in> id_rel g \<longrightarrow> j \<in> set xs)" by blast
  obtain dn d where m: "topo_maps g = (dn, d)" by fastforce
  show ?thesis using k unfolding m by (cases "acyclic (id_rel g)") (simp_all add: topological_sort_def m)
qed

theorem topological_sort_correct_witness:
  "topological_sort demo_graph = Some (Inr [1, 2]) \<and> acyclic (id_rel demo_graph)"
proof -
  have r: "topological_sort demo_graph = Some (Inr [1, 2])" by code_simp
  have "nodes_ok demo_hash demo_hex demo_graph" using graph_reach_ok [OF demo_graph_reach] by (simp add: graph_ok_def)
  from topological_sort_correct [OF this] r show ?thesis by simp
qed

end
