(* ===== verification/Sigil_Lexer.thy ===== *)
theory Sigil_Lexer
  imports Sigil_Ast
begin

text \<open>
  The lexer, after \<^verbatim>\<open>compiler/src/lexer.rs\<close>. Source text is the list of its Unicode
  scalar values, as \<^verbatim>\<open>CharIndices\<close> yields them; the text stored in a token is UTF-8, one
  byte per HOL character, as a Rust \<^verbatim>\<open>String\<close> is. Lines and columns are natural numbers:
  they are bounded by the length of the source, so they cannot overflow \<^verbatim>\<open>usize\<close>.

  The token kinds keep the grouping that the comments of the enumeration give them:
  \<^verbatim>\<open>TokenKind::Behavior\<close> is \<open>TkStructure KwBehavior\<close>, \<^verbatim>\<open>TokenKind::Iadd\<close> is
  \<open>TkIArith Iadd\<close>, \<^verbatim>\<open>TokenKind::Pure\<close> is \<open>TkGuarantee Pure\<close> and
  \<^verbatim>\<open>TokenKind::Int\<close> is \<open>TkType TInt\<close>. A float literal keeps its text.
\<close>

section \<open>Tokens\<close>

type_synonym uchar = int

datatype structure_kw =
    KwBehavior | KwDescription | KwContract | KwHash | KwImplementation | KwComposition | KwNative
  | KwEnd | KwPattern | KwEndPattern | KwOnCreate | KwOnDestroy | KwLibrary | KwEndLibrary
  | KwExecutable | KwEndExecutable | KwEntry | KwUses | KwMemory | KwScope | KwEndScope

datatype contract_kw = KwInput | KwOutput | KwRequires | KwGuarantees
datatype control_kw = KwLabel | KwBranch | KwJump
datatype compose_kw = KwCall | KwSet | KwDiscard

datatype concurrency_kw =
    KwSpawn | KwWait | KwWaitAll | KwWaitAny | KwChannel | KwChannelSend | KwChannelReceive
  | KwChannelClose | KwShared

datatype memory_kw = KwAlloc | KwLoad | KwStore | KwFree
datatype atomic_kw = KwAtomicLoad | KwAtomicStore | KwCas | KwAtomicAdd | KwAtomicSub
datatype convert_kw = KwFtoi | KwItof
datatype punct = PEquals | PArrow | PDot | PAt | PComma | PColon | PLeftBracket | PRightBracket

datatype token_kind =
    TkStructure structure_kw
  | TkContractKw contract_kw
  | TkGuarantee guarantee
  | TkType stype
  | TkControl control_kw
  | TkCompose compose_kw
  | TkConcurrency concurrency_kw
  | TkMemoryOp memory_kw
  | TkAtomic atomic_kw
  | TkIArith iarith | TkIneg
  | TkICmp icmp
  | TkFArith farith | TkFneg
  | TkFCmp fcmp
  | TkConvert convert_kw
  | TkBitwise bitop | TkNot
  | TkInteger i64
  | TkFloatLit string
  | TkStringLit string
  | TkIdentifier string
  | TkPunct punct
  | TkRawText string
  | TkNewline
  | TkIndent nat
  | TkEof

record token =
  tk_kind :: token_kind
  tk_span :: span

definition token_new :: "token_kind \<Rightarrow> span \<Rightarrow> token" where
  "token_new k sp = \<lparr>tk_kind = k, tk_span = sp\<rparr>"

record lex_error =
  le_span :: span
  le_message :: string

definition span_display :: "span \<Rightarrow> string" where
  "span_display sp = nat_to_dec (sp_line sp) @ '':'' @ nat_to_dec (sp_col sp)"

definition lex_error_display :: "lex_error \<Rightarrow> string" where
  "lex_error_display e = ''Lex error at '' @ span_display (le_span e) @ '': '' @ le_message e"

section \<open>Characters\<close>

definition ascii :: "char \<Rightarrow> uchar" where
  "ascii c = of_char c"

definition source_text :: "string \<Rightarrow> uchar list" where
  "source_text s = map ascii s"

definition u_digit :: "uchar \<Rightarrow> bool" where
  "u_digit c \<longleftrightarrow> 48 \<le> c \<and> c \<le> 57"

definition u_alphabetic :: "uchar \<Rightarrow> bool" where
  "u_alphabetic c \<longleftrightarrow> 65 \<le> c \<and> c \<le> 90 \<or> 97 \<le> c \<and> c \<le> 122"

definition u_hexdigit :: "uchar \<Rightarrow> bool" where
  "u_hexdigit c \<longleftrightarrow> u_digit c \<or> 65 \<le> c \<and> c \<le> 70 \<or> 97 \<le> c \<and> c \<le> 102"

definition u_ident :: "uchar \<Rightarrow> bool" where
  "u_ident c \<longleftrightarrow> u_alphabetic c \<or> u_digit c \<or> c = 95 \<or> c = 45"

definition utf8 :: "uchar \<Rightarrow> string" where
  "utf8 c =
     (if c < 0x80 then [char_of c]
      else if c < 0x800 then [char_of (0xC0 + c div 64), char_of (0x80 + c mod 64)]
      else if c < 0x10000
        then [char_of (0xE0 + c div 4096), char_of (0x80 + c div 64 mod 64), char_of (0x80 + c mod 64)]
      else [char_of (0xF0 + c div 262144), char_of (0x80 + c div 4096 mod 64),
            char_of (0x80 + c div 64 mod 64), char_of (0x80 + c mod 64)])"

definition utf8_text :: "uchar list \<Rightarrow> string" where
  "utf8_text cs = concat (map utf8 cs)"

section \<open>The lexer state\<close>

record lexer =
  lx_chars :: "uchar list"
  lx_line :: nat
  lx_col :: nat
  lx_at_line_start :: bool
  lx_in_description :: bool

definition lexer_new :: "uchar list \<Rightarrow> lexer" where
  "lexer_new source =
     \<lparr>lx_chars = (case source of c # cs \<Rightarrow> if c = 0xFEFF then cs else source | [] \<Rightarrow> source),
      lx_line = 1, lx_col = 1, lx_at_line_start = True, lx_in_description = False\<rparr>"

definition lx_peek :: "lexer \<Rightarrow> uchar option" where
  "lx_peek lx = (case lx_chars lx of [] \<Rightarrow> None | c # _ \<Rightarrow> Some c)"

definition lx_advance :: "lexer \<Rightarrow> uchar option \<times> lexer" where
  "lx_advance lx =
     (case lx_chars lx of
        [] \<Rightarrow> (None, lx)
      | c # cs \<Rightarrow>
          (Some c,
           if c = 10 then lx\<lparr>lx_chars := cs, lx_line := lx_line lx + 1, lx_col := 1, lx_at_line_start := True\<rparr>
           else lx\<lparr>lx_chars := cs, lx_col := lx_col lx + 1\<rparr>))"

lemma lx_advance_less: "lx_peek lx = Some c \<Longrightarrow> length (lx_chars (snd (lx_advance lx))) < length (lx_chars lx)"
  by (auto simp: lx_peek_def lx_advance_def split: list.splits)

text \<open>The loops \<^verbatim>\<open>while let Some(c) = self.peek()\<close> that consume what a test accepts.\<close>

function read_while :: "(uchar \<Rightarrow> bool) \<Rightarrow> lexer \<Rightarrow> uchar list \<times> lexer" where
  "read_while P lx =
     (case lx_peek lx of
        None \<Rightarrow> ([], lx)
      | Some c \<Rightarrow> if P c then (case read_while P (snd (lx_advance lx)) of (cs, lx') \<Rightarrow> (c # cs, lx')) else ([], lx))"
  by pat_completeness auto

termination
  by (relation "measure (\<lambda>(P, lx). length (lx_chars lx))") (auto simp: lx_advance_less)

declare read_while.simps [simp del]

definition skip_whitespace :: "lexer \<Rightarrow> lexer" where
  "skip_whitespace lx = snd (read_while (\<lambda>c. c = 32 \<or> c = 9 \<or> c = 13) lx)"

definition read_identifier :: "uchar \<Rightarrow> lexer \<Rightarrow> string \<times> lexer" where
  "read_identifier first lx =
     (case read_while u_ident lx of (cs, lx') \<Rightarrow> (map char_of (first # cs), lx'))"

section \<open>Numbers\<close>

function read_decimal :: "bool \<Rightarrow> lexer \<Rightarrow> uchar list \<times> bool \<times> lexer" where
  "read_decimal is_float lx =
     (case lx_peek lx of
        None \<Rightarrow> ([], is_float, lx)
      | Some c \<Rightarrow>
          if u_digit c then
            (case read_decimal is_float (snd (lx_advance lx)) of (cs, fl, lx') \<Rightarrow> (c # cs, fl, lx'))
          else if c = 46 \<and> \<not> is_float then
            (case read_decimal True (snd (lx_advance lx)) of (cs, fl, lx') \<Rightarrow> (c # cs, fl, lx'))
          else ([], is_float, lx))"
  by pat_completeness auto

termination
  by (relation "measure (\<lambda>(f, lx). length (lx_chars lx))") (auto simp: lx_advance_less)

declare read_decimal.simps [simp del]

text \<open>Rust's \<^verbatim>\<open>from_str_radix\<close> and \<^verbatim>\<open>parse\<close> on the digits the lexer collects.\<close>

definition parse_hex_u64 :: "string \<Rightarrow> i64 option" where
  "parse_hex_u64 digits = (let n = digits_val 16 digits in if int n < 2 ^ 64 then Some (of_nat n) else None)"

definition parse_hex_i64 :: "string \<Rightarrow> i64 option" where
  "parse_hex_i64 digits = (let n = digits_val 16 digits in if int n < 2 ^ 63 then Some (of_nat n) else None)"

fun parse_i64 :: "string \<Rightarrow> i64 option" where
  "parse_i64 (c # cs) =
     (if c = CHR ''-'' then (let n = digits_val 10 cs in if int n \<le> 2 ^ 63 then Some (- of_nat n) else None)
      else (let n = digits_val 10 (c # cs) in if int n < 2 ^ 63 then Some (of_nat n) else None))"
| "parse_i64 [] = None"

definition lex_fail :: "span \<Rightarrow> string \<Rightarrow> lex_error + 'a" where
  "lex_fail sp msg = Inl \<lparr>le_span = sp, le_message = msg\<rparr>"

definition read_number :: "uchar \<Rightarrow> nat \<Rightarrow> lexer \<Rightarrow> (lex_error + token) \<times> lexer" where
  "read_number first start_col lx =
     (let start_line = lx_line lx in
      if first = 48 \<and> lx_peek lx = Some 120 then
        (case read_while u_hexdigit (snd (lx_advance lx)) of (cs, lx') \<Rightarrow>
           (let digits = map char_of cs; num = ''0x'' @ digits;
                sp = span_new start_line start_col (length num)
            in if length num = 2 then (lex_fail sp ''Expected hex digits after 0x'', lx')
               else (case parse_hex_u64 digits of
                   Some n \<Rightarrow> (Inr (token_new (TkInteger n) sp), lx')
                 | None \<Rightarrow> (case parse_hex_i64 digits of
                       Some n \<Rightarrow> (Inr (token_new (TkInteger n) sp), lx')
                     | None \<Rightarrow> (lex_fail sp (''Invalid hex literal: '' @ num), lx')))))
      else
        (case read_decimal False lx of (cs, is_float, lx') \<Rightarrow>
           (let num = map char_of (first # cs); sp = span_new start_line start_col (length num)
            in if is_float then (Inr (token_new (TkFloatLit num) sp), lx')
               else (case parse_i64 num of
                   Some n \<Rightarrow> (Inr (token_new (TkInteger n) sp), lx')
                 | None \<Rightarrow> (lex_fail sp (''Invalid integer literal: '' @ num), lx')))))"

section \<open>String literals\<close>

definition unescape :: "uchar \<Rightarrow> uchar option" where
  "unescape c =
     (if c = 110 then Some 10 else if c = 114 then Some 13 else if c = 116 then Some 9
      else if c = 92 then Some 92 else if c = 34 then Some 34 else None)"

function read_string_loop :: "nat \<Rightarrow> nat \<Rightarrow> uchar list \<Rightarrow> lexer \<Rightarrow> (lex_error + uchar list) \<times> lexer" where
  "read_string_loop start_line start_col s lx =
     (case lx_advance lx of
        (None, lx1) \<Rightarrow> (lex_fail (span_new start_line start_col 1) ''Unterminated string literal'', lx1)
      | (Some c, lx1) \<Rightarrow>
          if c = 34 then (Inr s, lx1)
          else if c = 92 then
            (case lx_advance lx1 of
               (None, lx2) \<Rightarrow> (lex_fail (span_new start_line start_col 1) ''Unterminated string literal'', lx2)
             | (Some e, lx2) \<Rightarrow>
                 (case unescape e of
                    Some u \<Rightarrow> read_string_loop start_line start_col (s @ [u]) lx2
                  | None \<Rightarrow> (lex_fail (span_new (lx_line lx2) (lx_col lx2 - 1) 2)
                              (''Invalid escape sequence: '' @ [backslash_char] @ utf8 e), lx2)))
          else if c = 10 then
            (lex_fail (span_new start_line start_col 1) ''Unterminated string literal (newline in string)'', lx1)
          else read_string_loop start_line start_col (s @ [c]) lx1)"
  by pat_completeness auto

termination
  by (relation "measure (\<lambda>(l, c, s, lx). length (lx_chars lx))")
    (auto simp: lx_advance_def split: list.splits if_splits)

declare read_string_loop.simps [simp del]

definition read_string :: "nat \<Rightarrow> lexer \<Rightarrow> (lex_error + token) \<times> lexer" where
  "read_string start_col lx =
     (let start_line = lx_line lx in
      case read_string_loop start_line start_col [] lx of
        (Inl e, lx') \<Rightarrow> (Inl e, lx')
      | (Inr s, lx') \<Rightarrow>
          (Inr (token_new (TkStringLit (utf8_text s)) (span_new start_line start_col (length (utf8_text s) + 2))), lx'))"

section \<open>Keywords\<close>

definition keyword_table :: "(string \<times> token_kind) list" where
  "keyword_table =
    [(''BEHAVIOR'', TkStructure KwBehavior), (''DESCRIPTION'', TkStructure KwDescription),
     (''CONTRACT'', TkStructure KwContract), (''HASH'', TkStructure KwHash),
     (''IMPLEMENTATION'', TkStructure KwImplementation),
     (''COMPOSITION'', TkStructure KwComposition), (''NATIVE'', TkStructure KwNative),
     (''END'', TkStructure KwEnd), (''PATTERN'', TkStructure KwPattern),
     (''END_PATTERN'', TkStructure KwEndPattern), (''ON_CREATE'', TkStructure KwOnCreate),
     (''ON_DESTROY'', TkStructure KwOnDestroy), (''LIBRARY'', TkStructure KwLibrary),
     (''END_LIBRARY'', TkStructure KwEndLibrary), (''EXECUTABLE'', TkStructure KwExecutable),
     (''END_EXECUTABLE'', TkStructure KwEndExecutable), (''ENTRY'', TkStructure KwEntry),
     (''USES'', TkStructure KwUses), (''MEMORY'', TkStructure KwMemory),
     (''SCOPE'', TkStructure KwScope), (''END_SCOPE'', TkStructure KwEndScope),
     (''INPUT'', TkContractKw KwInput), (''OUTPUT'', TkContractKw KwOutput),
     (''REQUIRES'', TkContractKw KwRequires), (''GUARANTEES'', TkContractKw KwGuarantees),
     (''pure'', TkGuarantee Pure), (''no_alloc'', TkGuarantee NoAlloc),
     (''writes_output'', TkGuarantee WritesOutput), (''int'', TkType TInt),
     (''float'', TkType TFloat), (''bytes'', TkType TBytes), (''string'', TkType TString),
     (''LABEL'', TkControl KwLabel), (''BRANCH'', TkControl KwBranch),
     (''JUMP'', TkControl KwJump), (''CALL'', TkCompose KwCall), (''SET'', TkCompose KwSet),
     (''DISCARD'', TkCompose KwDiscard), (''SPAWN'', TkConcurrency KwSpawn),
     (''WAIT'', TkConcurrency KwWait), (''WAIT_ALL'', TkConcurrency KwWaitAll),
     (''WAIT_ANY'', TkConcurrency KwWaitAny), (''CHANNEL'', TkConcurrency KwChannel),
     (''CHANNEL_SEND'', TkConcurrency KwChannelSend),
     (''CHANNEL_RECEIVE'', TkConcurrency KwChannelReceive),
     (''CHANNEL_CLOSE'', TkConcurrency KwChannelClose), (''SHARED'', TkConcurrency KwShared),
     (''ALLOC'', TkMemoryOp KwAlloc), (''LOAD'', TkMemoryOp KwLoad),
     (''STORE'', TkMemoryOp KwStore), (''FREE'', TkMemoryOp KwFree),
     (''ATOMIC_LOAD'', TkAtomic KwAtomicLoad), (''ATOMIC_STORE'', TkAtomic KwAtomicStore),
     (''CAS'', TkAtomic KwCas), (''ATOMIC_ADD'', TkAtomic KwAtomicAdd),
     (''ATOMIC_SUB'', TkAtomic KwAtomicSub), (''IADD'', TkIArith Iadd),
     (''ISUB'', TkIArith Isub), (''IMUL'', TkIArith Imul), (''IDIV'', TkIArith Idiv),
     (''IMOD'', TkIArith Imod), (''INEG'', TkIneg), (''IEQ'', TkICmp Ieq),
     (''INE'', TkICmp Ine), (''ILT'', TkICmp Ilt), (''IGT'', TkICmp Igt), (''ILE'', TkICmp Ile),
     (''IGE'', TkICmp Ige), (''FADD'', TkFArith Fadd), (''FSUB'', TkFArith Fsub),
     (''FMUL'', TkFArith Fmul), (''FDIV'', TkFArith Fdiv), (''FNEG'', TkFneg),
     (''FEQ'', TkFCmp Feq), (''FNE'', TkFCmp Fne), (''FLT'', TkFCmp Flt), (''FGT'', TkFCmp Fgt),
     (''FLE'', TkFCmp Fle), (''FGE'', TkFCmp Fge), (''FTOI'', TkConvert KwFtoi),
     (''ITOF'', TkConvert KwItof), (''AND'', TkBitwise And), (''OR'', TkBitwise Or),
     (''XOR'', TkBitwise Xor), (''NOT'', TkNot), (''SHL'', TkBitwise Shl),
     (''SHR'', TkBitwise Shr), (''SAR'', TkBitwise Sar)]"

definition keyword_or_ident :: "string \<Rightarrow> span \<Rightarrow> token" where
  "keyword_or_ident ident sp =
     token_new (case map_of keyword_table ident of Some k \<Rightarrow> k | None \<Rightarrow> TkIdentifier ident) sp"

section \<open>The next token\<close>

definition indent_width :: "uchar list \<Rightarrow> nat" where
  "indent_width cs = sum_list (map (\<lambda>c. if c = 32 then 1 else 2) cs)"

definition line_indent :: "lexer \<Rightarrow> token option \<times> lexer" where
  "line_indent lx =
     (if lx_at_line_start lx then
        (let start_col = lx_col lx in
         case read_while (\<lambda>c. c = 32 \<or> c = 9) lx of (cs, lx1) \<Rightarrow>
           (let indent = indent_width cs;
                lx2 = lx1\<lparr>lx_at_line_start := False\<rparr>
            in if 0 < indent then
                 (case lx_peek lx2 of
                    Some c \<Rightarrow>
                      if c \<noteq> 10 \<and> c \<noteq> 35
                      then (Some (token_new (TkIndent indent) (span_new (lx_line lx2) start_col indent)), lx2)
                      else (None, lx2)
                  | None \<Rightarrow> (None, lx2))
               else (None, lx2)))
      else (None, lx))"

definition punct_of :: "uchar \<Rightarrow> punct option" where
  "punct_of c =
     (if c = 61 then Some PEquals else if c = 58 then Some PColon else if c = 64 then Some PAt
      else if c = 91 then Some PLeftBracket else if c = 93 then Some PRightBracket
      else if c = 44 then Some PComma else if c = 46 then Some PDot else None)"

definition section_keyword :: "token_kind \<Rightarrow> bool" where
  "section_keyword k \<longleftrightarrow> k \<in> set (map TkStructure [KwContract, KwHash, KwImplementation, KwComposition,
     KwNative, KwEnd, KwEntry, KwUses, KwEndExecutable])"

definition lex_word :: "bool \<Rightarrow> nat \<Rightarrow> nat \<Rightarrow> uchar \<Rightarrow> lexer \<Rightarrow> (lex_error + token) \<times> lexer" where
  "lex_word was_line_start start_line start_col c lx =
     (case read_identifier c lx of (ident, lx1) \<Rightarrow>
        (let tok = keyword_or_ident ident (span_new start_line start_col (length ident));
             lx2 = (if tk_kind tok = TkStructure KwDescription then lx1\<lparr>lx_in_description := True\<rparr>
                    else if section_keyword (tk_kind tok) \<and> was_line_start then lx1\<lparr>lx_in_description := False\<rparr>
                    else lx1)
         in (Inr tok, lx2)))"

definition lex_char :: "bool \<Rightarrow> nat \<Rightarrow> nat \<Rightarrow> uchar \<Rightarrow> lexer \<Rightarrow> (lex_error + token) \<times> lexer" where
  "lex_char was_line_start start_line start_col c lx =
     (let one = span_new start_line start_col 1 in
      if c = 10 then (Inr (token_new TkNewline one), lx)
      else if c = 34 then
        (if lx_in_description lx then (Inr (token_new (TkRawText [quote_char]) one), lx)
         else read_string start_col lx)
      else (case punct_of c of
          Some p \<Rightarrow> (Inr (token_new (TkPunct p) one), lx)
        | None \<Rightarrow>
            if c = 45 then
              (case lx_peek lx of
                 Some d \<Rightarrow>
                   if d = 62 then (Inr (token_new (TkPunct PArrow) (span_new start_line start_col 2)), snd (lx_advance lx))
                   else if u_digit d then read_number 45 start_col lx
                   else (Inr (token_new (TkRawText ''-'') one), lx)
               | None \<Rightarrow> (Inr (token_new (TkRawText ''-'') one), lx))
            else if u_digit c then read_number c start_col lx
            else if u_alphabetic c \<or> c = 95 then lex_word was_line_start start_line start_col c lx
            else (Inr (token_new (TkRawText (utf8 c)) one), lx)))"

section \<open>What the lexer consumes\<close>

text \<open>
  \<open>consumes lx cs lx'\<close>: between the two states the lexer has read \<open>cs\<close>, and its line and column
  are those of the text read.
\<close>

definition pos_step :: "nat \<times> nat \<Rightarrow> uchar \<Rightarrow> nat \<times> nat" where
  "pos_step p c = (if c = 10 then (fst p + 1, 1) else (fst p, snd p + 1))"

definition lx_pos :: "lexer \<Rightarrow> nat \<times> nat" where
  "lx_pos lx = (lx_line lx, lx_col lx)"

definition consumes :: "lexer \<Rightarrow> uchar list \<Rightarrow> lexer \<Rightarrow> bool" where
  "consumes lx cs lx' \<longleftrightarrow> lx_chars lx = cs @ lx_chars lx' \<and> lx_pos lx' = foldl pos_step (lx_pos lx) cs"

lemma consumes_Nil [simp, intro]: "consumes lx [] lx"
  by (simp add: consumes_def)

lemma consumes_trans: "consumes lx cs lx1 \<Longrightarrow> consumes lx1 ds lx2 \<Longrightarrow> consumes lx (cs @ ds) lx2"
  by (simp add: consumes_def)

lemma consumes_flags [simp]:
  "consumes lx cs (lx'\<lparr>lx_at_line_start := b\<rparr>) = consumes lx cs lx'"
  "consumes lx cs (lx'\<lparr>lx_in_description := b\<rparr>) = consumes lx cs lx'"
  "consumes (lx\<lparr>lx_at_line_start := b\<rparr>) cs lx' = consumes lx cs lx'"
  by (simp_all add: consumes_def lx_pos_def)

lemma consumes_length: "consumes lx cs lx' \<Longrightarrow> length (lx_chars lx) = length cs + length (lx_chars lx')"
  by (simp add: consumes_def)

lemma advance_consumes:
  "lx_advance lx = (Some c, lx') \<Longrightarrow> consumes lx [c] lx'"
  by (auto simp: lx_advance_def consumes_def lx_pos_def pos_step_def split: list.splits if_splits)

lemma advance_None: "lx_advance lx = (None, lx') \<Longrightarrow> lx' = lx \<and> lx_chars lx = []"
  by (auto simp: lx_advance_def split: list.splits)

lemma peek_advance: "lx_peek lx = Some c \<Longrightarrow> lx_advance lx = (Some c, snd (lx_advance lx))"
  by (auto simp: lx_peek_def lx_advance_def split: list.splits)

lemma peek_consumes: "lx_peek lx = Some c \<Longrightarrow> consumes lx [c] (snd (lx_advance lx))"
  by (rule advance_consumes) (rule peek_advance)

lemma read_while_consumes: "read_while P lx = (cs, lx') \<Longrightarrow> consumes lx cs lx' \<and> list_all P cs"
proof (induction P lx arbitrary: cs lx' rule: read_while.induct)
  case (1 P lx)
  show ?case
  proof (cases "lx_peek lx")
    case None
    then show ?thesis using 1(2) by (simp add: read_while.simps)
  next
    case (Some c)
    show ?thesis
    proof (cases "P c")
      case True
      obtain ds lx1 where r: "read_while P (snd (lx_advance lx)) = (ds, lx1)" by fastforce
      then have "cs = c # ds" "lx' = lx1" using 1(2) Some True by (simp_all add: read_while.simps [of P lx])
      then show ?thesis
        using 1(1) [OF Some True r] True consumes_trans [OF peek_consumes [OF Some]] by simp
    next
      case False
      then show ?thesis using 1(2) Some by (simp add: read_while.simps)
    qed
  qed
qed

lemma read_decimal_consumes:
  "read_decimal fl lx = (cs, fl', lx') \<Longrightarrow> consumes lx cs lx' \<and> list_all (\<lambda>c. u_digit c \<or> c = 46) cs"
proof (induction fl lx arbitrary: cs fl' lx' rule: read_decimal.induct)
  case (1 fl lx)
  show ?case
  proof (cases "lx_peek lx")
    case None
    then show ?thesis using 1(3) by (simp add: read_decimal.simps)
  next
    case (Some c)
    note res = 1(3) [unfolded read_decimal.simps [of fl lx]]
    have step: ?thesis if "read_decimal b (snd (lx_advance lx)) = (ds, fl', lx')" "cs = c # ds" "u_digit c \<or> c = 46"
      "consumes (snd (lx_advance lx)) ds lx' \<and> list_all (\<lambda>c. u_digit c \<or> c = 46) ds" for b ds
      using that consumes_trans [OF peek_consumes [OF Some], of ds lx'] by auto
    show ?thesis
    proof (cases "u_digit c")
      case True
      then show ?thesis
        using 1(1) [OF Some True] res Some step by (auto split: prod.splits)
    next
      case nd: False
      then show ?thesis
        using 1(2) [OF Some nd] res Some step by (cases "c = 46 \<and> \<not> fl") (auto split: prod.splits)
    qed
  qed
qed

fun unquote :: "uchar list \<Rightarrow> uchar list option" where
  "unquote [] = Some []"
| "unquote (c # cs) =
     (if c = 92 then
        (case cs of
           [] \<Rightarrow> None
         | e # ds \<Rightarrow> (case unescape e of
             None \<Rightarrow> None
           | Some u \<Rightarrow> map_option (\<lambda>us. u # us) (unquote ds)))
      else if c = 34 \<or> c = 10 then None
      else map_option (\<lambda>us. c # us) (unquote cs))"

lemma read_string_loop_consumes:
  "read_string_loop l k s lx = (Inr r, lx') \<Longrightarrow>
    \<exists>body u. consumes lx (body @ [34]) lx' \<and> unquote body = Some u \<and> r = s @ u"
proof (induction l k s lx arbitrary: r lx' rule: read_string_loop.induct)
  case (1 l k s lx)
  note unf = read_string_loop.simps [of l k s lx]
  obtain a lx1 where a: "lx_advance lx = (a, lx1)" by fastforce
  show ?case
  proof (cases a)
    case None
    then show ?thesis using 1(3) a by (simp add: unf lex_fail_def)
  next
    case (Some c)
    note c = advance_consumes [OF a [unfolded Some]]
    consider (quote) "c = 34" | (esc) "c = 92" | (plain) "c \<noteq> 34" "c \<noteq> 92" by blast
    then show ?thesis
    proof cases
      case quote
      then have "r = s" "lx' = lx1" using 1(3) a Some by (simp_all add: unf)
      then show ?thesis using c quote by (intro exI [of _ "[]"]) simp
    next
      case esc
      obtain b lx2 where b: "lx_advance lx1 = (b, lx2)" by fastforce
      obtain e u where e: "b = Some e" "unescape e = Some u"
        and r: "read_string_loop l k (s @ [u]) lx2 = (Inr r, lx')"
        using 1(3) a Some esc b by (auto simp: unf lex_fail_def split: option.splits)
      from 1(1) [OF a [symmetric] Some _ esc b [symmetric] e(1,2) r] esc obtain body v where
        v: "consumes lx2 (body @ [34]) lx'" "unquote body = Some v" "r = (s @ [u]) @ v" by auto
      have "consumes lx ([c] @ [e] @ (body @ [34])) lx'"
        using consumes_trans [OF c consumes_trans [OF advance_consumes [OF b [unfolded e(1)]] v(1)]] .
      then show ?thesis using v(2,3) esc e(2) by (intro exI [of _ "92 # e # body"] exI [of _ "u # v"]) simp
    next
      case plain
      have n: "c \<noteq> 10" and r: "read_string_loop l k (s @ [c]) lx1 = (Inr r, lx')"
        using 1(3) a Some plain by (auto simp: unf lex_fail_def split: if_splits)
      from 1(2) [OF a [symmetric] Some plain n r] obtain body v where
        v: "consumes lx1 (body @ [34]) lx'" "unquote body = Some v" "r = (s @ [c]) @ v" by blast
      then show ?thesis using consumes_trans [OF c v(1)] plain n
        by (intro exI [of _ "c # body"] exI [of _ "c # v"]) simp
    qed
  qed
qed

section \<open>What a token spells\<close>

fun spells :: "token_kind \<Rightarrow> uchar list \<Rightarrow> bool" where
  "spells (TkInteger n) cs \<longleftrightarrow> (\<exists>s. cs = source_text s \<and>
     (parse_i64 s = Some n \<or> (\<exists>digits. s = ''0x'' @ digits \<and> parse_hex_u64 digits = Some n)))"
| "spells (TkFloatLit s) cs \<longleftrightarrow> cs = source_text s"
| "spells (TkStringLit s) cs \<longleftrightarrow> (\<exists>body u. cs = 34 # body @ [34] \<and> unquote body = Some u \<and> s = utf8_text u)"
| "spells (TkIdentifier s) cs \<longleftrightarrow> cs = source_text s \<and> s \<notin> fst ` set keyword_table"
| "spells (TkPunct p) cs \<longleftrightarrow> (if p = PArrow then cs = source_text ''->'' else \<exists>c. cs = [c] \<and> punct_of c = Some p)"
| "spells (TkRawText s) cs \<longleftrightarrow> s = utf8_text cs"
| "spells TkNewline cs \<longleftrightarrow> cs = [10]"
| "spells (TkIndent n) cs \<longleftrightarrow> n = indent_width cs \<and> list_all (\<lambda>c. c = 32 \<or> c = 9) cs"
| "spells TkEof cs \<longleftrightarrow> cs = []"
| "spells k cs \<longleftrightarrow> (\<exists>s. cs = source_text s \<and> (s, k) \<in> set keyword_table)"

definition literal_kind :: "token_kind \<Rightarrow> bool" where
  "literal_kind k \<longleftrightarrow> (case k of TkInteger _ \<Rightarrow> True | TkFloatLit _ \<Rightarrow> True | TkStringLit _ \<Rightarrow> True
     | TkIdentifier _ \<Rightarrow> True | TkPunct _ \<Rightarrow> True | TkRawText _ \<Rightarrow> True | TkNewline \<Rightarrow> True | TkIndent _ \<Rightarrow> True
     | TkEof \<Rightarrow> True | _ \<Rightarrow> False)"

lemma spells_keyword: "\<not> literal_kind k \<Longrightarrow> spells k cs \<longleftrightarrow> (\<exists>s. cs = source_text s \<and> (s, k) \<in> set keyword_table)"
  by (cases k) (simp_all add: literal_kind_def)

lemma keyword_kinds: "list_all (\<lambda>p. \<not> literal_kind (snd p)) keyword_table"
  by code_simp

lemma source_text_char_of: "list_all (\<lambda>c. 0 \<le> c \<and> c < 128) cs \<Longrightarrow> source_text (map char_of cs) = cs"
  by (induction cs) (auto simp: source_text_def ascii_def of_char_of)

lemma small_chars:
  "u_digit c \<Longrightarrow> 0 \<le> c \<and> c < 128" "u_alphabetic c \<Longrightarrow> 0 \<le> c \<and> c < 128"
  "u_ident c \<Longrightarrow> 0 \<le> c \<and> c < 128" "u_hexdigit c \<Longrightarrow> 0 \<le> c \<and> c < 128"
  by (auto simp: u_digit_def u_alphabetic_def u_ident_def u_hexdigit_def)

lemma list_all_small:
  "list_all u_ident cs \<Longrightarrow> list_all (\<lambda>c. 0 \<le> c \<and> c < 128) cs"
  "list_all u_hexdigit cs \<Longrightarrow> list_all (\<lambda>c. 0 \<le> c \<and> c < 128) cs"
  "list_all (\<lambda>c. u_digit c \<or> c = 46) cs \<Longrightarrow> list_all (\<lambda>c. 0 \<le> c \<and> c < 128) cs"
  by (auto simp: list_all_iff small_chars)

definition token_pos :: "token \<Rightarrow> nat \<times> nat" where
  "token_pos t = (sp_line (tk_span t), sp_col (tk_span t))"

lemma token_new_simps [simp]:
  "tk_kind (token_new k sp) = k" "token_pos (token_new k (span_new l c n)) = (l, c)"
  by (simp_all add: token_new_def token_pos_def span_new_def)

lemma lex_fail_not_Inr [simp]: "lex_fail sp m \<noteq> Inr t"
  by (simp add: lex_fail_def)

lemma parse_hex_i64_u64: "parse_hex_i64 d = Some n \<Longrightarrow> parse_hex_u64 d = Some n"
  by (auto simp: parse_hex_i64_def parse_hex_u64_def Let_def split: if_splits)

lemma read_number_spells:
  assumes "read_number first col lx = (Inr t, lx')" "0 \<le> first \<and> first < 128"
  shows "\<exists>cs. consumes lx cs lx' \<and> spells (tk_kind t) (first # cs) \<and> token_pos t = (lx_line lx, col)
    \<and> (\<exists>s n. tk_kind t = TkFloatLit s \<or> tk_kind t = TkInteger n)"
proof (cases "first = 48 \<and> lx_peek lx = Some 120")
  case True
  obtain cs lx1 where r: "read_while u_hexdigit (snd (lx_advance lx)) = (cs, lx1)" by fastforce
  from read_while_consumes [OF r] have c: "consumes lx (120 # cs) lx1" "list_all u_hexdigit cs"
    using consumes_trans [OF peek_consumes, of lx 120 cs lx1] True by auto
  have src: "first # 120 # cs = source_text (''0x'' @ map char_of cs)"
    using True source_text_char_of [OF list_all_small(2) [OF c(2)]] by (simp add: source_text_def ascii_def)
  obtain n where n: "parse_hex_u64 (map char_of cs) = Some n" "tk_kind t = TkInteger n" "token_pos t = (lx_line lx, col)" "lx' = lx1"
    using assms(1) True r
    by (auto simp: read_number_def Let_def split: if_splits option.splits dest: parse_hex_i64_u64)
  have "spells (tk_kind t) (first # 120 # cs)" unfolding n(2) spells.simps using n(1) src by blast
  then show ?thesis using c(1) n by blast
next
  case False
  obtain cs fl lx1 where r: "read_decimal False lx = (cs, fl, lx1)" by (metis prod_cases3)
  note c = read_decimal_consumes [OF r]
  let ?num = "map char_of (first # cs)"
  have src: "first # cs = source_text ?num"
    using source_text_char_of [of "first # cs"] list_all_small(3) c assms(2) by simp
  have res: "(if fl then (Inr (token_new (TkFloatLit ?num) (span_new (lx_line lx) col (length ?num))), lx1)
      else (case parse_i64 ?num of
          Some n \<Rightarrow> (Inr (token_new (TkInteger n) (span_new (lx_line lx) col (length ?num))), lx1)
        | None \<Rightarrow> (lex_fail (span_new (lx_line lx) col (length ?num)) (''Invalid integer literal: '' @ ?num), lx1))) = (Inr t, lx')"
    using assms(1) False r by (simp add: read_number_def Let_def del: list.map parse_i64.simps)
  have "lx' = lx1" "token_pos t = (lx_line lx, col)" "tk_kind t = TkFloatLit ?num \<or> (\<exists>n. tk_kind t = TkInteger n \<and> parse_i64 ?num = Some n)"
    using res by (auto split: if_splits option.splits simp del: list.map parse_i64.simps)
  then show ?thesis using c src by (intro exI [of _ cs]) (auto simp del: list.map parse_i64.simps)
qed

lemma keyword_or_ident_spells:
  "spells (tk_kind (keyword_or_ident s sp)) (source_text s) \<and> tk_kind (keyword_or_ident s sp) \<noteq> TkEof"
proof (cases "map_of keyword_table s")
  case None
  then have "s \<notin> fst ` set keyword_table" by (simp add: map_of_eq_None_iff)
  then show ?thesis using None by (simp add: keyword_or_ident_def)
next
  case (Some k)
  then have m: "(s, k) \<in> set keyword_table" by (rule map_of_SomeD)
  then have "\<not> literal_kind k" using keyword_kinds by (auto simp: list_all_iff)
  then show ?thesis using Some m spells_keyword [of k "source_text s"]
    by (auto simp: keyword_or_ident_def literal_kind_def)
qed

lemma utf8_quote: "utf8 34 = [quote_char]" "utf8 45 = ''-''"
  by code_simp+

lemma lex_char_spells:
  assumes "lex_char ws l k c lx = (Inr t, lx')" "c \<noteq> 10 \<longrightarrow> lx_line lx = l"
  shows "\<exists>cs. consumes lx cs lx' \<and> spells (tk_kind t) (c # cs) \<and> tk_kind t \<noteq> TkEof \<and> token_pos t = (l, k)"
proof -
  consider (nl) "c = 10" | (str) "c = 34" "\<not> lx_in_description lx" | (raw) "c = 34" "lx_in_description lx"
    | (punct) p where "c \<noteq> 10" "c \<noteq> 34" "punct_of c = Some p"
    | (minus) "c = 45" | (digit) "u_digit c" "punct_of c = None"
    | (word) "u_alphabetic c \<or> c = 95" "punct_of c = None" "\<not> u_digit c"
    | (other) "c \<noteq> 10" "c \<noteq> 34" "punct_of c = None" "c \<noteq> 45" "\<not> u_digit c" "\<not> (u_alphabetic c \<or> c = 95)"
    by (cases "punct_of c") auto
  then show ?thesis
  proof cases
    case nl
    then show ?thesis using assms(1) by (auto simp: lex_char_def Let_def intro: exI [of _ "[]"])
  next
    case str
    obtain res lx1 where r: "read_string_loop (lx_line lx) k [] lx = (res, lx1)" by fastforce
    obtain u where u: "res = Inr u" "lx' = lx1" "tk_kind t = TkStringLit (utf8_text u)" "token_pos t = (lx_line lx, k)"
      using assms(1) str r by (auto simp: lex_char_def Let_def read_string_def split: sum.splits)
    from read_string_loop_consumes [OF r [unfolded u(1)]] show ?thesis using u str assms(2) by auto
  next
    case raw
    then show ?thesis using assms(1)
      by (auto simp: lex_char_def Let_def utf8_text_def utf8_quote intro!: exI [of _ "[]"])
  next
    case punct
    then show ?thesis using assms(1)
      by (auto simp: lex_char_def Let_def punct_of_def split: if_splits intro!: exI [of _ "[]"])
  next
    case minus
    have p: "punct_of c = None" using minus by (simp add: punct_of_def)
    have raw: ?thesis if "tk_kind t = TkRawText ''-''" "lx' = lx" "token_pos t = (l, k)"
      using that minus by (intro exI [of _ "[]"]) (simp add: utf8_text_def utf8_quote)
    show ?thesis
    proof (cases "lx_peek lx")
      case None
      then show ?thesis using assms(1) minus p raw by (auto simp: lex_char_def Let_def)
    next
      case (Some d)
      show ?thesis
      proof (cases "d = 62")
        case True
        then have "t = token_new (TkPunct PArrow) (span_new l k 2)" "lx' = snd (lx_advance lx)"
          using assms(1) minus p Some by (auto simp: lex_char_def Let_def)
        then show ?thesis using peek_consumes [OF Some] True minus
          by (intro exI [of _ "[62]"]) (simp add: source_text_def ascii_def)
      next
        case False
        show ?thesis
        proof (cases "u_digit d")
          case True
          then have "read_number c k lx = (Inr t, lx')" using assms(1) minus p Some False by (simp add: lex_char_def Let_def)
          from read_number_spells [OF this] show ?thesis using minus assms(2) by auto
        next
          case nd: False
          then show ?thesis using assms(1) minus p Some False raw by (auto simp: lex_char_def Let_def)
        qed
      qed
    qed
  next
    case digit
    have "c \<noteq> 10" "c \<noteq> 34" "c \<noteq> 45" using digit(1) by (auto simp: u_digit_def)
    then have "read_number c k lx = (Inr t, lx')" using assms(1) digit by (simp add: lex_char_def Let_def)
    from read_number_spells [OF this small_chars(1) [OF digit(1)]] show ?thesis using assms(2) \<open>c \<noteq> 10\<close> by auto
  next
    case word
    have n: "c \<noteq> 10" "c \<noteq> 34" "c \<noteq> 45" "0 \<le> c \<and> c < 128" using word(1) by (auto simp: u_alphabetic_def)
    obtain cs lx1 where r: "read_while u_ident lx = (cs, lx1)" by fastforce
    note rc = read_while_consumes [OF r]
    let ?s = "map char_of (c # cs)"
    have tok: "t = keyword_or_ident ?s (span_new l k (length ?s))" and "consumes lx cs lx'"
      using assms(1) word n r rc by (auto simp: lex_char_def Let_def lex_word_def read_identifier_def)
    moreover have "source_text ?s = c # cs"
      using source_text_char_of [of "c # cs"] list_all_small(1) rc n(4) by simp
    moreover have "token_pos t = (l, k)" unfolding tok keyword_or_ident_def by simp
    ultimately show ?thesis using keyword_or_ident_spells [of ?s "span_new l k (length ?s)"] by auto
  next
    case other
    then show ?thesis using assms(1)
      by (auto simp: lex_char_def Let_def utf8_text_def intro!: exI [of _ "[]"])
  qed
qed

inductive trivia :: "uchar list \<Rightarrow> bool" where
  trivia_Nil: "trivia []"
| trivia_blank: "c = 32 \<or> c = 9 \<or> c = 13 \<Longrightarrow> trivia cs \<Longrightarrow> trivia (c # cs)"
| trivia_comment: "10 \<notin> set body \<Longrightarrow> trivia cs \<Longrightarrow> trivia (35 # body @ cs)"

lemma trivia_blanks: "list_all (\<lambda>c. c = 32 \<or> c = 9 \<or> c = 13) ws \<Longrightarrow> trivia cs \<Longrightarrow> trivia (ws @ cs)"
  by (induction ws) (auto intro: trivia_blank)

lemma line_indent_consumes:
  assumes "line_indent lx = (r, lx')"
  shows "\<exists>cs. consumes lx cs lx' \<and> (case r of
      None \<Rightarrow> list_all (\<lambda>c. c = 32 \<or> c = 9 \<or> c = 13) cs
    | Some t \<Rightarrow> cs \<noteq> [] \<and> spells (tk_kind t) cs \<and> tk_kind t \<noteq> TkEof \<and> token_pos t = lx_pos lx)"
proof (cases "lx_at_line_start lx")
  case False
  then show ?thesis using assms by (auto simp: line_indent_def intro: exI [of _ "[]"])
next
  case True
  obtain cs lx1 where w: "read_while (\<lambda>c. c = 32 \<or> c = 9) lx = (cs, lx1)" by fastforce
  note c = read_while_consumes [OF w]
  have blank: "list_all (\<lambda>c. c = 32 \<or> c = 9 \<or> c = 13) cs" using c by (auto simp: list_all_iff)
  have line: "lx_line lx1 = lx_line lx"
  proof -
    have "list_all (\<lambda>c. c = 32 \<or> c = 9) cs \<Longrightarrow> fst (foldl pos_step p cs) = fst p" for p
      by (induction cs arbitrary: p) (auto simp: pos_step_def)
    then show ?thesis using c by (metis consumes_def fst_conv lx_pos_def)
  qed
  show ?thesis
  proof (cases r)
    case None
    then have "lx' = lx1\<lparr>lx_at_line_start := False\<rparr>"
      using assms True w by (auto simp: line_indent_def Let_def split: if_splits option.splits)
    then show ?thesis using c blank None by auto
  next
    case (Some t)
    let ?n = "indent_width cs"
    have t: "lx' = lx1\<lparr>lx_at_line_start := False\<rparr>" "0 < ?n" "t = token_new (TkIndent ?n) (span_new (lx_line lx1) (lx_col lx) ?n)"
      using assms True w Some by (auto simp: line_indent_def Let_def split: if_splits option.splits)
    then have "cs \<noteq> []" by (auto simp: indent_width_def)
    then show ?thesis using c t Some line by (intro exI [of _ cs]) (simp add: lx_pos_def)
  qed
qed

lemma skip_whitespace_consumes:
  "\<exists>cs. consumes lx cs (skip_whitespace lx) \<and> list_all (\<lambda>c. c = 32 \<or> c = 9 \<or> c = 13) cs"
  using read_while_consumes [of "\<lambda>c. c = 32 \<or> c = 9 \<or> c = 13" lx]
  by (cases "read_while (\<lambda>c. c = 32 \<or> c = 9 \<or> c = 13) lx") (auto simp: skip_whitespace_def)

lemma before_char_consumes:
  assumes "line_indent lx = (None, lx1)" "lx_advance (skip_whitespace lx1) = (Some c, lx3)"
  shows "\<exists>ws. consumes lx ws (skip_whitespace lx1) \<and> consumes (skip_whitespace lx1) [c] lx3
    \<and> list_all (\<lambda>c. c = 32 \<or> c = 9 \<or> c = 13) ws"
proof -
  obtain a where a: "consumes lx a lx1" "list_all (\<lambda>c. c = 32 \<or> c = 9 \<or> c = 13) a"
    using line_indent_consumes [OF assms(1)] by auto
  obtain b where b: "consumes lx1 b (skip_whitespace lx1)" "list_all (\<lambda>c. c = 32 \<or> c = 9 \<or> c = 13) b"
    using skip_whitespace_consumes by blast
  show ?thesis using consumes_trans [OF a(1) b(1)] a(2) b(2) advance_consumes [OF assms(2)] by auto
qed

lemma comment_less:
  assumes "line_indent lx = (None, lx1)" "lx_advance (skip_whitespace lx1) = (Some c, lx3)"
  shows "length (lx_chars (snd (read_while P lx3))) < length (lx_chars lx)"
proof -
  from before_char_consumes [OF assms] obtain w where
    w: "consumes lx w (skip_whitespace lx1)" "consumes (skip_whitespace lx1) [c] lx3" by blast
  obtain cs lx4 where r: "read_while P lx3 = (cs, lx4)" by fastforce
  from consumes_length [OF w(1)] consumes_length [OF w(2)] consumes_length [OF conjunct1 [OF read_while_consumes [OF r]]]
  show ?thesis by (simp add: r)
qed

function next_token :: "lexer \<Rightarrow> (lex_error + token) \<times> lexer" where
  "next_token lx =
     (let was_line_start = lx_at_line_start lx in
      case line_indent lx of
        (Some t, lx1) \<Rightarrow> (Inr t, lx1)
      | (None, lx1) \<Rightarrow>
          (let lx2 = skip_whitespace lx1; start_line = lx_line lx2; start_col = lx_col lx2 in
           case lx_advance lx2 of
             (None, lx3) \<Rightarrow> (Inr (token_new TkEof (span_new start_line start_col 0)), lx3)
           | (Some c, lx3) \<Rightarrow>
               if c = 35 then next_token (snd (read_while (\<lambda>c. c \<noteq> 10) lx3))
               else lex_char was_line_start start_line start_col c lx3))"
  by pat_completeness auto

termination
  by (relation "measure (\<lambda>lx. length (lx_chars lx))") (auto intro: comment_less [OF sym sym])

declare next_token.simps [simp del]

lemma next_token_spells:
  "next_token lx = (Inr t, lx') \<Longrightarrow> \<exists>skip tok. trivia skip \<and> consumes lx (skip @ tok) lx' \<and> spells (tk_kind t) tok
    \<and> token_pos t = foldl pos_step (lx_pos lx) skip \<and> (tk_kind t = TkEof \<longleftrightarrow> tok = [])
    \<and> (tk_kind t = TkEof \<longrightarrow> lx_chars lx' = [])"
proof (induction lx rule: next_token.induct)
  case (1 lx)
  note unf = next_token.simps [of lx]
  obtain r lx1 where i: "line_indent lx = (r, lx1)" by fastforce
  show ?case
  proof (cases r)
    case (Some u)
    then have "t = u" "lx' = lx1" using 1(2) i by (simp_all add: unf)
    moreover from line_indent_consumes [OF i] Some obtain cs where
      "consumes lx cs lx1" "cs \<noteq> []" "spells (tk_kind u) cs" "tk_kind u \<noteq> TkEof" "token_pos u = lx_pos lx" by auto
    ultimately show ?thesis by (intro exI [of _ "[]"] exI [of _ cs]) (simp add: trivia_Nil)
  next
    case None
    let ?lx2 = "skip_whitespace lx1"
    obtain a lx3 where a: "lx_advance ?lx2 = (a, lx3)" by fastforce
    show ?thesis
    proof (cases a)
      case no: None
      have t: "t = token_new TkEof (span_new (lx_line ?lx2) (lx_col ?lx2) 0)" "lx' = ?lx2" "lx_chars lx' = []"
        using 1(2) i a None no advance_None [of ?lx2 lx3] by (auto simp: unf Let_def)
      obtain w1 where w1: "consumes lx w1 lx1" "list_all (\<lambda>c. c = 32 \<or> c = 9 \<or> c = 13) w1"
        using line_indent_consumes [OF i] None by auto
      obtain w2 where w2: "consumes lx1 w2 ?lx2" "list_all (\<lambda>c. c = 32 \<or> c = 9 \<or> c = 13) w2"
        using skip_whitespace_consumes by blast
      have w: "consumes lx (w1 @ w2) ?lx2" by (rule consumes_trans [OF w1(1) w2(1)])
      have "trivia (w1 @ w2)" using trivia_blanks [OF w1(2) trivia_blanks [OF w2(2) trivia_Nil]] by simp
      then show ?thesis using t w by (intro exI [of _ "w1 @ w2"] exI [of _ "[]"]) (auto simp: consumes_def lx_pos_def)
    next
      case (Some c)
      from before_char_consumes [of lx lx1 c lx3] i None a Some obtain ws where
        ws: "consumes lx ws ?lx2" "consumes ?lx2 [c] lx3" "list_all (\<lambda>c. c = 32 \<or> c = 9 \<or> c = 13) ws" by auto
      show ?thesis
      proof (cases "c = 35")
        case True
        obtain body lx4 where b: "read_while (\<lambda>c. c \<noteq> 10) lx3 = (body, lx4)" by fastforce
        have nt: "next_token lx4 = (Inr t, lx')" using 1(2) i a None Some True b by (simp add: unf Let_def)
        have ih: "\<exists>skip tok. trivia skip \<and> consumes lx4 (skip @ tok) lx' \<and> spells (tk_kind t) tok
            \<and> token_pos t = foldl pos_step (lx_pos lx4) skip \<and> (tk_kind t = TkEof \<longleftrightarrow> tok = [])
            \<and> (tk_kind t = TkEof \<longrightarrow> lx_chars lx' = [])"
          using 1(1) [OF refl i [symmetric] None refl refl refl a [symmetric] Some True] nt b by simp
        then obtain skip tok where st: "trivia skip" "consumes lx4 (skip @ tok) lx'" "spells (tk_kind t) tok"
          "token_pos t = foldl pos_step (lx_pos lx4) skip" "tk_kind t = TkEof \<longleftrightarrow> tok = []"
          "tk_kind t = TkEof \<longrightarrow> lx_chars lx' = []" by blast
        note bc = read_while_consumes [OF b]
        have c4: "consumes lx (ws @ [c] @ body) lx4" by (rule consumes_trans [OF ws(1) consumes_trans [OF ws(2) conjunct1 [OF bc]]])
        have "10 \<notin> set body" using bc by (auto simp: list_all_iff)
        then have "trivia (ws @ (35 # body @ skip))" by (intro trivia_blanks [OF ws(3)] trivia_comment st(1))
        moreover have "consumes lx ((ws @ (35 # body @ skip)) @ tok) lx'" using consumes_trans [OF c4 st(2)] True by simp
        moreover have "token_pos t = foldl pos_step (lx_pos lx) (ws @ (35 # body @ skip))"
          using c4 st(4) True by (simp add: consumes_def)
        ultimately show ?thesis using st(3,5,6) by blast
      next
        case False
        have lc: "lex_char (lx_at_line_start lx) (lx_line ?lx2) (lx_col ?lx2) c lx3 = (Inr t, lx')"
          using 1(2) i a None Some False by (simp add: unf Let_def)
        have "c \<noteq> 10 \<longrightarrow> lx_line lx3 = lx_line ?lx2" using ws(2) by (auto simp: consumes_def lx_pos_def pos_step_def)
        from lex_char_spells [OF lc this] obtain cs where
          cs: "consumes lx3 cs lx'" "spells (tk_kind t) (c # cs)" "tk_kind t \<noteq> TkEof" "token_pos t = lx_pos ?lx2"
          by (auto simp: lx_pos_def)
        have "consumes lx (ws @ (c # cs)) lx'" using consumes_trans [OF ws(1) consumes_trans [OF ws(2) cs(1)]] by simp
        moreover have "token_pos t = foldl pos_step (lx_pos lx) ws" using cs(4) ws(1) by (simp add: consumes_def)
        ultimately show ?thesis
          using cs(2,3) trivia_blanks [OF ws(3) trivia_Nil] by (intro exI [of _ ws] exI [of _ "c # cs"]) simp
      qed
    qed
  qed
qed

lemma next_token_less:
  assumes "next_token lx = (Inr t, lx')" "tk_kind t \<noteq> TkEof"
  shows "length (lx_chars lx') < length (lx_chars lx)"
proof -
  from next_token_spells [OF assms(1)] assms(2) obtain skip tok where "consumes lx (skip @ tok) lx'" "tok \<noteq> []" by blast
  from consumes_length [OF this(1)] this(2) show ?thesis by simp
qed

section \<open>The token stream\<close>

function lex_loop :: "lexer \<Rightarrow> lex_error + token list" where
  "lex_loop lx =
     (case next_token lx of
        (Inl e, _) \<Rightarrow> Inl e
      | (Inr t, lx') \<Rightarrow>
          if tk_kind t = TkEof then Inr [t]
          else (case lex_loop lx' of Inl e \<Rightarrow> Inl e | Inr ts \<Rightarrow> Inr (t # ts)))"
  by pat_completeness auto

termination
  by (relation "measure (\<lambda>lx. length (lx_chars lx))") (auto intro: next_token_less [OF sym])

declare lex_loop.simps [simp del]

definition lex :: "uchar list \<Rightarrow> lex_error + token list" where
  "lex source = lex_loop (lexer_new source)"

end
