(* ===== verification/Sigil_Lexer_Props.thy ===== *)
theory Sigil_Lexer_Props
  imports Sigil_Lexer
begin

text \<open>
  What the lexer of \<open>Sigil_Lexer\<close> guarantees: the tokens it returns tile the source up to
  blanks and comments, each with its own position and spelling; and it reads back what is written for
  integers, strings, keywords and identifiers.
\<close>

section \<open>Tokens tile the source\<close>

inductive lexes :: "nat \<times> nat \<Rightarrow> uchar list \<Rightarrow> token list \<Rightarrow> bool" where
  lexes_end: "trivia skip \<Longrightarrow> tk_kind t = TkEof \<Longrightarrow> token_pos t = foldl pos_step p skip \<Longrightarrow> lexes p skip [t]"
| lexes_token: "trivia skip \<Longrightarrow> tok \<noteq> [] \<Longrightarrow> spells (tk_kind t) tok \<Longrightarrow> tk_kind t \<noteq> TkEof \<Longrightarrow>
    token_pos t = foldl pos_step p skip \<Longrightarrow> lexes (foldl pos_step p (skip @ tok)) rest ts \<Longrightarrow>
    lexes p (skip @ tok @ rest) (t # ts)"

definition strip_bom :: "uchar list \<Rightarrow> uchar list" where
  "strip_bom cs = (case cs of c # ds \<Rightarrow> if c = 0xFEFF then ds else cs | [] \<Rightarrow> cs)"

lemma lex_loop_lexes: "lex_loop lx = Inr ts \<Longrightarrow> lexes (lx_pos lx) (lx_chars lx) ts"
proof (induction lx arbitrary: ts rule: lex_loop.induct)
  case (1 lx)
  obtain r lx' where n: "next_token lx = (r, lx')" by fastforce
  obtain t where t: "r = Inr t" using 1(2) n by (cases r) (simp_all add: lex_loop.simps [of lx])
  from next_token_spells [OF n [unfolded t]] obtain skip tok where
    st: "trivia skip" "consumes lx (skip @ tok) lx'" "spells (tk_kind t) tok"
      "token_pos t = foldl pos_step (lx_pos lx) skip" "tk_kind t = TkEof \<longleftrightarrow> tok = []"
      "tk_kind t = TkEof \<longrightarrow> lx_chars lx' = []" by blast
  show ?case
  proof (cases "tk_kind t = TkEof")
    case True
    then have "ts = [t]" "lx_chars lx = skip" using 1(2) n t st by (simp_all add: lex_loop.simps [of lx] consumes_def)
    then show ?thesis using lexes_end [OF st(1) True st(4)] by simp
  next
    case False
    then obtain us where us: "lex_loop lx' = Inr us" "ts = t # us"
      using 1(2) n t by (auto simp: lex_loop.simps [of lx] split: sum.splits)
    have "lexes (lx_pos lx') (lx_chars lx') us" by (rule 1(1) [OF n [symmetric] t False us(1)])
    moreover have "lx_pos lx' = foldl pos_step (lx_pos lx) (skip @ tok)" "lx_chars lx = skip @ tok @ lx_chars lx'"
      using st(2) by (simp_all add: consumes_def)
    ultimately show ?thesis using lexes_token [OF st(1) _ st(3) False st(4)] False st(5) us(2) by metis
  qed
qed

lemma lexer_new_start: "lx_pos (lexer_new src) = (1, 1)" "lx_chars (lexer_new src) = strip_bom src"
  by (simp_all add: lexer_new_def lx_pos_def strip_bom_def)

text \<open>
  C18: when the lexer succeeds, its tokens tile the source (without a byte-order mark): between two
  tokens there are only blanks and comments, every token carries the line and column of its
  first character and spells the characters it stands for, and the list ends with the one
  end-of-file token.
\<close>

theorem lex_tiles_source:
  assumes "lex src = Inr tokens"
  shows "lexes (1, 1) (strip_bom src) tokens"
  using lex_loop_lexes [of "lexer_new src" tokens] assms by (simp add: lex_def lexer_new_start)

definition demo_source :: "uchar list" where
  "demo_source = source_text (''x = 0x2A # answer'' @ [newline_char] @ ''  JUMP end'')"

theorem lex_tiles_source_witness:
  "case lex demo_source of
     Inr tokens \<Rightarrow> lexes (1, 1) (strip_bom demo_source) tokens \<and>
       map tk_kind tokens = [TkIdentifier ''x'', TkPunct PEquals, TkInteger 42, TkNewline, TkIndent 2,
         TkControl KwJump, TkIdentifier ''end'', TkEof]
   | Inl e \<Rightarrow> False"
proof -
  have k: "(case lex demo_source of Inr ts \<Rightarrow> map tk_kind ts = [TkIdentifier ''x'', TkPunct PEquals,
      TkInteger 42, TkNewline, TkIndent 2, TkControl KwJump, TkIdentifier ''end'', TkEof] | Inl e \<Rightarrow> False)"
    by code_simp
  then obtain ts where ts: "lex demo_source = Inr ts" by (cases "lex demo_source") simp_all
  show ?thesis using k lex_tiles_source [OF ts] by (simp add: ts)
qed

section \<open>Reading back what is written\<close>

definition lex_kinds :: "uchar list \<Rightarrow> token_kind list option" where
  "lex_kinds src = (case lex src of Inr ts \<Rightarrow> Some (map tk_kind ts) | Inl e \<Rightarrow> None)"

lemma advance_Cons:
  "lx_chars lx = c # cs \<Longrightarrow> c \<noteq> 10 \<Longrightarrow> lx_advance lx = (Some c, lx\<lparr>lx_chars := cs, lx_col := lx_col lx + 1\<rparr>)"
  by (simp add: lx_advance_def)

lemma read_while_run:
  "list_all P cs \<Longrightarrow> 10 \<notin> set cs \<Longrightarrow> rest = [] \<or> \<not> P (hd rest) \<Longrightarrow> lx_chars lx = cs @ rest \<Longrightarrow>
    read_while P lx = (cs, lx\<lparr>lx_chars := rest, lx_col := lx_col lx + length cs\<rparr>)"
proof (induction cs arbitrary: lx)
  case Nil
  then show ?case by (cases rest) (simp_all add: read_while.simps [of P lx] lx_peek_def)
next
  case (Cons c cs)
  have p: "lx_peek lx = Some c" using Cons.prems by (simp add: lx_peek_def)
  show ?case
    using Cons.prems Cons.IH [of "lx\<lparr>lx_chars := cs @ rest, lx_col := lx_col lx + 1\<rparr>"] advance_Cons [of lx c "cs @ rest"]
    by (simp add: read_while.simps [of P lx] p)
qed

lemma read_decimal_run:
  "list_all u_digit cs \<Longrightarrow> lx_chars lx = cs \<Longrightarrow>
    read_decimal fl lx = (cs, fl, lx\<lparr>lx_chars := [], lx_col := lx_col lx + length cs\<rparr>)"
proof (induction cs arbitrary: lx)
  case Nil
  then show ?case by (simp add: read_decimal.simps [of fl lx] lx_peek_def)
next
  case (Cons c cs)
  have p: "lx_peek lx = Some c" using Cons.prems by (simp add: lx_peek_def)
  have "c \<noteq> 10" using Cons.prems by (auto simp: u_digit_def)
  then show ?case
    using Cons.prems Cons.IH [of "lx\<lparr>lx_chars := cs, lx_col := lx_col lx + 1\<rparr>"] advance_Cons [of lx c cs]
    by (simp add: read_decimal.simps [of fl lx] p)
qed

definition escape_char :: "uchar \<Rightarrow> uchar list" where
  "escape_char c = (if c = 10 then [92, 110] else if c = 13 then [92, 114] else if c = 9 then [92, 116]
     else if c = 92 then [92, 92] else if c = 34 then [92, 34] else [c])"

definition escape :: "uchar list \<Rightarrow> uchar list" where
  "escape u = concat (map escape_char u)"

lemma read_string_run:
  "lx_chars lx = escape u @ [34] \<Longrightarrow> \<exists>lx'. read_string_loop l k s lx = (Inr (s @ u), lx') \<and> lx_chars lx' = []
    \<and> lx_at_line_start lx' = lx_at_line_start lx"
proof (induction u arbitrary: lx s)
  case Nil
  then show ?case
    using advance_Cons [of lx 34 "[]"] by (simp add: read_string_loop.simps [of l k s lx] escape_def)
next
  case (Cons c u)
  let ?rest = "escape u @ [34]"
  show ?case
  proof (cases "escape_char c = [c]")
    case True
    then have n: "c \<noteq> 10" "c \<noteq> 92" "c \<noteq> 34" by (auto simp: escape_char_def split: if_splits)
    have "lx_chars lx = c # ?rest" using Cons.prems True by (simp add: escape_def)
    from advance_Cons [OF this n(1)] show ?thesis
      using Cons.IH [of "lx\<lparr>lx_chars := ?rest, lx_col := lx_col lx + 1\<rparr>" "s @ [c]"] n
      by (simp add: read_string_loop.simps [of l k s lx])
  next
    case False
    then obtain e where e: "escape_char c = [92, e]" "unescape e = Some c" "e \<noteq> 10"
      by (auto simp: escape_char_def unescape_def split: if_splits)
    have "lx_chars lx = 92 # e # ?rest" using Cons.prems e(1) by (simp add: escape_def)
    note a = advance_Cons [OF this] advance_Cons [of "lx\<lparr>lx_chars := e # ?rest, lx_col := lx_col lx + 1\<rparr>" e ?rest]
    show ?thesis
      using Cons.IH [of "lx\<lparr>lx_chars := ?rest, lx_col := lx_col lx + 1 + 1\<rparr>" "s @ [c]"] a e(2,3)
      by (simp add: read_string_loop.simps [of l k s lx])
  qed
qed

lemma next_token_end:
  assumes "lx_chars lx = []"
  shows "\<exists>t lx'. next_token lx = (Inr t, lx') \<and> tk_kind t = TkEof"
proof -
  have w: "read_while P lx' = ([], lx')" if "lx_chars lx' = []" for P lx'
    using that by (simp add: read_while.simps [of P lx'] lx_peek_def)
  show ?thesis using assms
    by (cases "lx_at_line_start lx")
      (simp_all add: next_token.simps [of lx] line_indent_def w skip_whitespace_def lx_advance_def indent_width_def Let_def)
qed

lemma lex_loop_end: "lx_chars lx = [] \<Longrightarrow> \<exists>t. lex_loop lx = Inr [t] \<and> tk_kind t = TkEof"
  using next_token_end [of lx] by (auto simp: lex_loop.simps [of lx])

definition after_first :: "uchar list \<Rightarrow> lexer" where
  "after_first cs = \<lparr>lx_chars = cs, lx_line = 1, lx_col = 2, lx_at_line_start = False, lx_in_description = False\<rparr>"

lemma next_token_first:
  assumes "c \<notin> {9, 10, 13, 32, 35, 0xFEFF}"
  shows "next_token (lexer_new (c # cs)) = lex_char True 1 1 c (after_first cs)"
proof -
  let ?lx = "lexer_new (c # cs)"
  have lx: "?lx = \<lparr>lx_chars = c # cs, lx_line = 1, lx_col = 1, lx_at_line_start = True, lx_in_description = False\<rparr>"
    using assms by (simp add: lexer_new_def)
  have w: "read_while P lx' = ([], lx')" if "lx_chars lx' = c # cs" "\<not> P c" for P lx'
    using that by (simp add: read_while.simps [of P lx'] lx_peek_def)
  have 1: "line_indent ?lx = (None, ?lx\<lparr>lx_at_line_start := False\<rparr>)"
    using assms by (simp add: line_indent_def w lx indent_width_def Let_def)
  have 2: "skip_whitespace (?lx\<lparr>lx_at_line_start := False\<rparr>) = ?lx\<lparr>lx_at_line_start := False\<rparr>"
    using assms by (simp add: skip_whitespace_def w lx)
  have 3: "lx_advance (?lx\<lparr>lx_at_line_start := False\<rparr>) = (Some c, after_first cs)"
    using assms by (simp add: lx_advance_def lx after_first_def)
  show ?thesis using assms by (simp add: next_token.simps [of ?lx] 1 2 3 Let_def) (simp add: lx)
qed

lemma lex_single:
  assumes "c \<notin> {9, 10, 13, 32, 35, 0xFEFF}" "lex_char True 1 1 c (after_first cs) = (Inr t, lx')"
    "lx_chars lx' = []" "tk_kind t \<noteq> TkEof"
  shows "lex_kinds (c # cs) = Some [tk_kind t, TkEof]"
proof -
  obtain e where e: "lex_loop lx' = Inr [e]" "tk_kind e = TkEof" using lex_loop_end [OF assms(3)] by blast
  have "lex_loop (lexer_new (c # cs)) = Inr [t, e]"
    using assms(2,4) e by (simp add: lex_loop.simps [of "lexer_new (c # cs)"] next_token_first [OF assms(1)])
  then show ?thesis using e by (simp add: lex_kinds_def lex_def)
qed

lemma char_of_ascii: "map char_of (source_text s) = s"
  by (induction s) (simp_all add: source_text_def ascii_def)

lemma u_digit_ascii: "is_ascii_digit c \<Longrightarrow> u_digit (ascii c)"
proof -
  assume "is_ascii_digit c"
  then have "48 \<le> (of_char c :: nat)" "of_char c \<le> (57 :: nat)" by (simp_all add: char_class_defs)
  then have "48 \<le> int (of_char c)" "int (of_char c) \<le> 57" by linarith+
  then show ?thesis 
    unfolding u_digit_def ascii_def of_nat_of_char [of c, symmetric, where ?'a = int] by simp
qed

lemma digits_source: "list_all u_digit (source_text (nat_to_dec n))"
  using nat_to_dec_digits [of n] by (simp add: list_all_iff source_text_def u_digit_ascii)

lemma digits_cons: obtains d ds where "nat_to_dec n = d # ds" "is_ascii_digit d"
  using nat_to_dec_digits [of n] by (cases "nat_to_dec n") simp_all

lemma read_number_digits:
  assumes "first \<noteq> 48 \<or> cs = [] \<or> hd cs \<noteq> 120" "list_all u_digit cs" "parse_i64 (map char_of (first # cs)) = Some n"
  shows "\<exists>t lx'. read_number first 1 (after_first cs) = (Inr t, lx') \<and> lx_chars lx' = [] \<and> tk_kind t = TkInteger n"
proof -
  have "\<not> (first = 48 \<and> lx_peek (after_first cs) = Some 120)"
    using assms(1) by (auto simp: lx_peek_def after_first_def split: list.splits)
  moreover have "read_decimal False (after_first cs) =
      (cs, False, (after_first cs)\<lparr>lx_chars := [], lx_col := lx_col (after_first cs) + length cs\<rparr>)"
    by (rule read_decimal_run [OF assms(2)]) (simp add: after_first_def)
  ultimately show ?thesis
    using assms(3) unfolding read_number_def Let_def by (simp only: if_not_P prod.case if_False option.case) simp
qed

lemma lex_nonneg:
  assumes "int n < 2 ^ 63"
  shows "lex_kinds (source_text (nat_to_dec n)) = Some [TkInteger (of_nat n), TkEof]"
proof -
  obtain d ds where d: "nat_to_dec n = d # ds" "is_ascii_digit d" using digits_cons .
  let ?c = "ascii d" and ?cs = "source_text ds"
  have src: "source_text (nat_to_dec n) = ?c # ?cs" by (simp add: d(1) source_text_def)
  have dig: "u_digit ?c" "list_all u_digit ?cs" using digits_source [of n] by (simp_all add: src)
  then have c: "?c \<notin> {9, 10, 13, 32, 35, 0xFEFF}" "?c \<noteq> 34" "punct_of ?c = None" "?c \<noteq> 45"
    by (auto simp: u_digit_def punct_of_def)
  have h: "?c \<noteq> 48 \<or> ?cs = [] \<or> hd ?cs \<noteq> 120" using dig(2) by (cases ds) (auto simp: u_digit_def source_text_def)
  have "d \<noteq> CHR ''-''" using d(2) by (auto simp: char_class_defs)
  moreover have "map char_of (?c # ?cs) = nat_to_dec n"
    using char_of_ascii [of "nat_to_dec n"] unfolding src by simp
  ultimately have "parse_i64 (map char_of (?c # ?cs)) = Some (of_nat n)"
    using assms digits_val_nat_to_dec [of n] unfolding d(1) by (simp add: Let_def)
  from read_number_digits [OF h dig(2) this] obtain t lx' where
    t: "read_number ?c 1 (after_first ?cs) = (Inr t, lx')" "lx_chars lx' = []" "tk_kind t = TkInteger (of_nat n)" by blast
  have "lex_char True 1 1 ?c (after_first ?cs) = (Inr t, lx')"
    using c dig(1) t(1) by (simp add: lex_char_def Let_def)
  from lex_single [OF c(1) this t(2)] t(3) show ?thesis by (simp add: src)
qed

lemma lex_negative:
  assumes "int n \<le> 2 ^ 63"
  shows "lex_kinds (source_text (CHR ''-'' # nat_to_dec n)) = Some [TkInteger (- of_nat n), TkEof]"
proof -
  let ?cs = "source_text (nat_to_dec n)"
  have src: "source_text (CHR ''-'' # nat_to_dec n) = 45 # ?cs" by (simp add: source_text_def ascii_def)
  obtain d ds where d: "nat_to_dec n = d # ds" using digits_cons .
  have dig: "list_all u_digit ?cs" by (rule digits_source)
  then have p: "\<exists>e. lx_peek (after_first ?cs) = Some e \<and> u_digit e"
    by (simp add: lx_peek_def after_first_def d source_text_def)
  have "parse_i64 (map char_of (45 # ?cs)) = Some (- of_nat n)"
    using assms char_of_ascii [of "CHR ''-'' # nat_to_dec n"] unfolding src by (simp add: Let_def)
  from read_number_digits [OF _ dig this] obtain t lx' where
    t: "read_number 45 1 (after_first ?cs) = (Inr t, lx')" "lx_chars lx' = []" "tk_kind t = TkInteger (- of_nat n)" by auto
  have "lex_char True 1 1 45 (after_first ?cs) = (Inr t, lx')"
    using p t(1) by (auto simp: lex_char_def Let_def punct_of_def u_digit_def)
  from lex_single [OF _ this t(2)] t(3) show ?thesis by (simp add: src)
qed

lemma lex_string_literal:
  "lex_kinds (34 # escape u @ [34]) = Some [TkStringLit (utf8_text u), TkEof]"
proof -
  obtain lx' where r: "read_string_loop 1 1 [] (after_first (escape u @ [34])) = (Inr u, lx')" "lx_chars lx' = []"
    using read_string_run [of "after_first (escape u @ [34])" u 1 1 "[]"] by (auto simp: after_first_def)
  have "lx_line (after_first cs) = 1" "\<not> lx_in_description (after_first cs)" for cs by (simp_all add: after_first_def)
  then have "lex_char True 1 1 34 (after_first (escape u @ [34]))
      = (Inr (token_new (TkStringLit (utf8_text u)) (span_new 1 1 (length (utf8_text u) + 2))), lx')"
    using r(1) by (simp add: lex_char_def Let_def read_string_def)
  from lex_single [OF _ this r(2)] show ?thesis by simp
qed

text \<open>
  Literals are read back: the decimal text of any 64-bit signed integer lexes to that integer,
  the least one included, and any text, quoted with its special characters escaped, lexes to a string
  literal with that text.
\<close>

theorem lex_literals_roundtrip:
  "lex_kinds (source_text (int_to_dec (sint n))) = Some [TkInteger n, TkEof]
   \<and> lex_kinds (34 # escape u @ [34]) = Some [TkStringLit (utf8_text u), TkEof]"
proof (rule conjI [OF _ lex_string_literal])
  have lo: "- (2 ^ 63) \<le> sint n" and hi: "sint n < 2 ^ 63"
    using sint_greater_eq [of n] sint_less [of n] by simp_all
  show "lex_kinds (source_text (int_to_dec (sint n))) = Some [TkInteger n, TkEof]"
  proof (cases "sint n < 0")
    case True
    then have "int (nat (- sint n)) \<le> 2 ^ 63" using lo by simp
    from lex_negative [OF this] True show ?thesis by (simp add: int_to_dec_def)
  next
    case False
    then have "int (nat (sint n)) < 2 ^ 63" using hi by simp
    from lex_nonneg [OF this] False show ?thesis by (simp add: int_to_dec_def)
  qed
qed

section \<open>Words\<close>

definition word_shape :: "string \<Rightarrow> bool" where
  "word_shape s \<longleftrightarrow> (case s of [] \<Rightarrow> False
     | c # cs \<Rightarrow> (u_alphabetic (ascii c) \<or> c = CHR ''_'') \<and> list_all (\<lambda>d. u_ident (ascii d)) cs)"

text \<open>
  A word, that is a letter or underscore followed by letters, digits, underscores and hyphens,
  lexes to one token: the keyword it spells if the keyword table has it, and otherwise the
  identifier of that name.
\<close>

theorem lex_word_roundtrip:
  assumes "word_shape s"
  shows "lex_kinds (source_text s) =
    Some [case map_of keyword_table s of Some k \<Rightarrow> k | None \<Rightarrow> TkIdentifier s, TkEof]"
proof -
  obtain c cs where s: "s = c # cs" and c: "u_alphabetic (ascii c) \<or> c = CHR ''_''"
    and cs: "list_all u_ident (source_text cs)"
    using assms by (auto simp: word_shape_def source_text_def list_all_iff split: list.splits)
  have c': "u_alphabetic (ascii c) \<or> ascii c = 95" using c by (auto simp: ascii_def)
  then have n: "ascii c \<notin> {9, 10, 13, 32, 35, 0xFEFF}" "ascii c \<noteq> 34" "punct_of (ascii c) = None"
      "ascii c \<noteq> 45" "\<not> u_digit (ascii c)"
    by (auto simp: u_alphabetic_def punct_of_def u_digit_def)
  have "10 \<notin> set (source_text cs)" using cs by (auto simp: list_all_iff u_ident_def u_alphabetic_def u_digit_def)
  from read_while_run [OF cs this, of "[]" "after_first (source_text cs)"]
  have r: "read_while u_ident (after_first (source_text cs))
      = (source_text cs, (after_first (source_text cs))\<lparr>lx_chars := [], lx_col := 2 + length cs\<rparr>)"
    by (simp add: after_first_def source_text_def)
  have w: "map char_of (ascii c # source_text cs) = s" using char_of_ascii [of s] by (simp add: s source_text_def)
  obtain lx' where "lex_char True 1 1 (ascii c) (after_first (source_text cs))
      = (Inr (keyword_or_ident s (span_new 1 1 (length s))), lx')" "lx_chars lx' = []"
    using n c' r by (auto simp: lex_char_def Let_def lex_word_def read_identifier_def w simp del: list.map)
  from lex_single [OF n(1) this] keyword_or_ident_spells [of s]
  have "lex_kinds (ascii c # source_text cs) = Some [tk_kind (keyword_or_ident s (span_new 1 1 (length s))), TkEof]" by blast
  moreover have "ascii c # source_text cs = source_text s" by (simp add: s source_text_def)
  ultimately show ?thesis by (simp only: keyword_or_ident_def token_new_simps)
qed

theorem lex_word_roundtrip_witness:
  "lex_kinds (source_text ''END_SCOPE'') = Some [TkStructure KwEndScope, TkEof]
   \<and> lex_kinds (source_text ''add-int_2'') = Some [TkIdentifier ''add-int_2'', TkEof]"
proof -
  have w: "word_shape ''END_SCOPE''" "word_shape ''add-int_2''" by code_simp+
  have k: "map_of keyword_table ''END_SCOPE'' = Some (TkStructure KwEndScope)" "map_of keyword_table ''add-int_2'' = None"
    by code_simp+
  show ?thesis using lex_word_roundtrip [OF w(1)] lex_word_roundtrip [OF w(2)] by (simp add: k)
qed

end
