(* ===== verification/Sigil_Parser.thy ===== *)
theory Sigil_Parser
  imports Sigil_Lexer
begin

text \<open>
  The parser, after \<^verbatim>\<open>compiler/src/parser.rs\<close>. The state of a \<^verbatim>\<open>Parser\<close> is the list of
  tokens from its position on; past the end of that list it sees an end-of-file token, as
  \<^verbatim>\<open>peek\<close> does. A parse function maps that list to a value and the rest, or to an error: the
  span at which it arises and, in place of the formatted message, what the message is made of.

  Statements, expressions and the loops over them recurse on the tokens that are left. They
  carry fuel, and \<open>OutOfFuel\<close> is a third outcome. The public functions give one unit more than
  there are tokens, which is shown to be enough, since every statement and every expression takes
  at least one token.
\<close>

section \<open>Outcomes\<close>

datatype parse_failure =
    ExpectedKind token_kind token_kind
  | ExpectedIdentifier token_kind
  | ExpectedHexString token_kind
  | ExpectedType token_kind
  | ExpectedInteger token_kind
  | EofInBehavior
  | UnexpectedInBehavior token_kind
  | WaitAnyTargets
  | ExpectedWait
  | UnexpectedAfterIdentifier string token_kind
  | UnexpectedStatement token_kind
  | UnexpectedExpression token_kind
  | UnexpectedInPattern token_kind
  | UnexpectedInLibrary token_kind
  | UnexpectedInExecutable token_kind
  | ExpectedPatternExtension string

record parse_error =
  pe_span :: span
  pe_failure :: parse_failure

datatype 'a parsed = Parsed 'a "token list" | Failed parse_error | OutOfFuel

type_synonym 'a parser = "token list \<Rightarrow> 'a parsed"

definition peek_token :: "token list \<Rightarrow> token" where
  "peek_token ts = (case ts of t # _ \<Rightarrow> t | [] \<Rightarrow> token_new TkEof (span_new 0 0 0))"

definition peek_kind :: "token list \<Rightarrow> token_kind" where
  "peek_kind ts = tk_kind (peek_token ts)"

definition current_span :: "token list \<Rightarrow> span" where
  "current_span ts = tk_span (peek_token ts)"

definition advance :: "token list \<Rightarrow> token list" where
  "advance ts = (if peek_kind ts = TkEof then ts else tl ts)"

fun skip_newlines :: "token list \<Rightarrow> token list" where
  "skip_newlines [] = []"
| "skip_newlines (t # ts) =
     (case tk_kind t of TkNewline \<Rightarrow> skip_newlines ts | TkIndent _ \<Rightarrow> skip_newlines ts | _ \<Rightarrow> t # ts)"

definition return_p :: "'a \<Rightarrow> 'a parser" where
  "return_p x ts = Parsed x ts"

definition fail_p :: "parse_failure \<Rightarrow> 'a parser" where
  "fail_p f ts = Failed \<lparr>pe_span = current_span ts, pe_failure = f\<rparr>"

definition bind_p :: "'a parser \<Rightarrow> ('a \<Rightarrow> 'b parser) \<Rightarrow> 'b parser" where
  "bind_p p f ts = (case p ts of Parsed x ts' \<Rightarrow> f x ts' | Failed e \<Rightarrow> Failed e | OutOfFuel \<Rightarrow> OutOfFuel)"

definition then_p :: "(token list \<Rightarrow> token list) \<Rightarrow> 'a parser \<Rightarrow> 'a parser" where
  "then_p g p ts = p (g ts)"

section \<open>Expect helpers\<close>

text \<open>\<^verbatim>\<open>expect\<close> compares discriminants; its callers only pass kinds without data.\<close>

definition expect :: "token_kind \<Rightarrow> span parser" where
  "expect k ts = (if peek_kind ts = k then Parsed (current_span ts) (advance ts)
     else fail_p (ExpectedKind k (peek_kind ts)) ts)"

definition expect_identifier :: "string parser" where
  "expect_identifier ts =
     (case peek_kind ts of
        TkIdentifier s \<Rightarrow> Parsed s (advance ts)
      | _ \<Rightarrow> fail_p (ExpectedIdentifier (peek_kind ts)) ts)"

definition all_hex :: "string \<Rightarrow> bool" where
  "all_hex s \<longleftrightarrow> list_all is_ascii_hexdigit s"

definition pad8 :: "string \<Rightarrow> string" where
  "pad8 s = replicate (8 - length s) (CHR ''0'') @ s"

definition finish_hex :: "string \<Rightarrow> string" where
  "finish_hex s = map to_ascii_lower (if s \<noteq> [] \<and> length s < 8 \<and> all_hex s then pad8 s else s)"

definition expect_hex_string :: "string parser" where
  "expect_hex_string ts =
     (case peek_kind ts of
        TkIdentifier s \<Rightarrow> Parsed (finish_hex s) (advance ts)
      | TkInteger n \<Rightarrow>
          (let ts1 = advance ts; digits = int_to_dec (sint n) in
           case peek_kind ts1 of
             TkIdentifier s \<Rightarrow>
               if all_hex s then Parsed (finish_hex (digits @ s)) (advance ts1)
               else Parsed (finish_hex digits) ts1
           | _ \<Rightarrow> Parsed (finish_hex digits) ts1)
      | _ \<Rightarrow> fail_p (ExpectedHexString (peek_kind ts)) ts)"

definition parse_type :: "stype parser" where
  "parse_type ts =
     (case peek_kind ts of
        TkType t \<Rightarrow> Parsed t (advance ts)
      | _ \<Rightarrow> fail_p (ExpectedType (peek_kind ts)) ts)"

definition parse_integer :: "i64 parser" where
  "parse_integer ts =
     (case peek_kind ts of
        TkInteger n \<Rightarrow> Parsed n (advance ts)
      | _ \<Rightarrow> fail_p (ExpectedInteger (peek_kind ts)) ts)"

section \<open>Loops\<close>

text \<open>\<^verbatim>\<open>while !stop { xs.push(p()?) }\<close>, with what runs before each test as \<open>pre\<close>.\<close>

fun many_until :: "nat \<Rightarrow> (token_kind \<Rightarrow> bool) \<Rightarrow> (token list \<Rightarrow> token list) \<Rightarrow> 'a parser \<Rightarrow> 'a list parser" where
  "many_until 0 stop pre p ts = OutOfFuel"
| "many_until (Suc n) stop pre p ts =
     (let ts = pre ts in
      if stop (peek_kind ts) then Parsed [] ts
      else bind_p p (\<lambda>x. bind_p (many_until n stop pre p) (\<lambda>xs. return_p (x # xs))) ts)"

definition is_identifier :: "token_kind \<Rightarrow> bool" where
  "is_identifier k \<longleftrightarrow> (case k of TkIdentifier _ \<Rightarrow> True | _ \<Rightarrow> False)"

fun identifiers :: "token list \<Rightarrow> string list \<times> token list" where
  "identifiers [] = ([], [])"
| "identifiers (t # ts) =
     (case tk_kind t of
        TkIdentifier s \<Rightarrow> (case identifiers ts of (ss, ts') \<Rightarrow> (s # ss, ts'))
      | _ \<Rightarrow> ([], t # ts))"

definition many_identifiers :: "string list parser" where
  "many_identifiers ts = (case identifiers ts of (ss, ts') \<Rightarrow> Parsed ss ts')"

definition identifiers1 :: "string list parser" where
  "identifiers1 = bind_p expect_identifier (\<lambda>s. bind_p many_identifiers (\<lambda>ss. return_p (s # ss)))"

fun comma_identifiers :: "nat \<Rightarrow> string list parser" where
  "comma_identifiers 0 ts = OutOfFuel"
| "comma_identifiers (Suc n) ts =
     (if peek_kind ts = TkPunct PComma
      then bind_p expect_identifier (\<lambda>s. bind_p (comma_identifiers n) (\<lambda>ss. return_p (s # ss))) (advance ts)
      else Parsed [] ts)"

section \<open>Expressions\<close>

definition call_stop :: "token_kind \<Rightarrow> bool" where
  "call_stop k \<longleftrightarrow> k = TkNewline \<or> k = TkEof \<or> k = TkPunct PArrow"

definition spawn_stop :: "token_kind \<Rightarrow> bool" where
  "spawn_stop k \<longleftrightarrow> k = TkNewline \<or> k = TkEof"

definition offset_follows :: "token_kind \<Rightarrow> bool" where
  "offset_follows k \<longleftrightarrow> (case k of TkInteger _ \<Rightarrow> True | TkIdentifier _ \<Rightarrow> True | _ \<Rightarrow> False)"

definition parse_offset :: "expr parser \<Rightarrow> expr option parser" where
  "parse_offset p ts =
     (if offset_follows (peek_kind ts) then bind_p p (\<lambda>e. return_p (Some e)) ts else Parsed None ts)"

definition parse_binary_op :: "expr parser \<Rightarrow> (expr \<Rightarrow> expr \<Rightarrow> usize \<Rightarrow> expr) \<Rightarrow> expr parser" where
  "parse_binary_op p c =
     then_p advance (bind_p p (\<lambda>a. bind_p p (\<lambda>b. bind_p parse_integer (\<lambda>n. return_p (c a b n)))))"

definition parse_unary_op :: "expr parser \<Rightarrow> (expr \<Rightarrow> usize \<Rightarrow> expr) \<Rightarrow> expr parser" where
  "parse_unary_op p c = then_p advance (bind_p p (\<lambda>a. bind_p parse_integer (\<lambda>n. return_p (c a n))))"

definition parse_field :: "string \<Rightarrow> expr parser" where
  "parse_field name ts =
     (if peek_kind ts = TkPunct PDot
      then bind_p expect_identifier (\<lambda>field. return_p (Field (Var name) field)) (advance ts)
      else Parsed (Var name) ts)"

definition parse_memory_expr :: "expr parser \<Rightarrow> memory_kw \<Rightarrow> expr parser" where
  "parse_memory_expr p k ts =
     (case k of
        KwLoad \<Rightarrow>
          then_p advance (bind_p p (\<lambda>source. bind_p parse_integer (\<lambda>n. bind_p (parse_offset p)
            (\<lambda>offset. return_p (Load source n offset))))) ts
      | KwAlloc \<Rightarrow>
          then_p advance (bind_p p (\<lambda>n. bind_p parse_type (\<lambda>typ ts.
            if peek_kind ts = TkConcurrency KwShared then Parsed (Alloc n typ True) (advance ts)
            else Parsed (Alloc n typ False) ts))) ts
      | _ \<Rightarrow> fail_p (UnexpectedExpression (TkMemoryOp k)) ts)"

definition parse_atomic_expr :: "expr parser \<Rightarrow> atomic_kw \<Rightarrow> expr parser" where
  "parse_atomic_expr p k =
     (case k of
        KwAtomicLoad \<Rightarrow> parse_unary_op p AtomicLoad
      | KwAtomicStore \<Rightarrow> parse_binary_op p AtomicStore
      | KwCas \<Rightarrow>
          then_p advance (bind_p p (\<lambda>addr. bind_p p (\<lambda>expected. bind_p p (\<lambda>new.
            bind_p parse_integer (\<lambda>n. return_p (Cas addr expected new n))))))
      | KwAtomicAdd \<Rightarrow> parse_binary_op p AtomicAdd
      | KwAtomicSub \<Rightarrow> parse_binary_op p AtomicSub)"

definition parse_convert_expr :: "expr parser \<Rightarrow> convert_kw \<Rightarrow> expr parser" where
  "parse_convert_expr p k =
     then_p advance (bind_p p (\<lambda>v. bind_p parse_integer (\<lambda>m. bind_p parse_integer (\<lambda>n.
       return_p (case k of KwFtoi \<Rightarrow> Ftoi v m n | KwItof \<Rightarrow> Itof v m n)))))"

definition parse_concurrency_expr :: "nat \<Rightarrow> expr parser \<Rightarrow> concurrency_kw \<Rightarrow> expr parser" where
  "parse_concurrency_expr n p k ts =
     (case k of
        KwChannelReceive \<Rightarrow> then_p advance (bind_p expect_identifier (\<lambda>c. return_p (ChannelReceive c))) ts
      | KwChannel \<Rightarrow>
          then_p advance (bind_p parse_type (\<lambda>typ. bind_p p (\<lambda>capacity. return_p (Channel typ capacity)))) ts
      | KwSpawn \<Rightarrow>
          then_p advance (bind_p expect_identifier (\<lambda>pat. bind_p (many_until n spawn_stop (\<lambda>ts. ts) p)
            (\<lambda>args. return_p (Spawn pat args)))) ts
      | KwWait \<Rightarrow> then_p advance (bind_p expect_identifier (\<lambda>h. return_p (Wait h))) ts
      | _ \<Rightarrow> fail_p (UnexpectedExpression (TkConcurrency k)) ts)"

definition parse_call_expr :: "nat \<Rightarrow> expr parser \<Rightarrow> compose_kw \<Rightarrow> expr parser" where
  "parse_call_expr n p k ts =
     (case k of
        KwCall \<Rightarrow>
          then_p advance (bind_p expect_identifier (\<lambda>b. bind_p (many_until n call_stop (\<lambda>ts. ts) p)
            (\<lambda>args. return_p (Call b args)))) ts
      | _ \<Rightarrow> fail_p (UnexpectedExpression (TkCompose k)) ts)"

primrec parse_expr :: "nat \<Rightarrow> expr parser" where
  "parse_expr 0 = (\<lambda>ts. OutOfFuel)"
| "parse_expr (Suc n) = (\<lambda>ts.
     (case peek_kind ts of
        TkInteger i \<Rightarrow> Parsed (IntLit i) (advance ts)
      | TkFloatLit f \<Rightarrow> Parsed (FloatLit f) (advance ts)
      | TkStringLit s \<Rightarrow> Parsed (StringLit s) (advance ts)
      | TkMemoryOp k \<Rightarrow> parse_memory_expr (parse_expr n) k ts
      | TkIArith k \<Rightarrow> parse_binary_op (parse_expr n) (IArith k) ts
      | TkIneg \<Rightarrow> parse_unary_op (parse_expr n) Ineg ts
      | TkICmp k \<Rightarrow> parse_binary_op (parse_expr n) (ICmp k) ts
      | TkBitwise k \<Rightarrow> parse_binary_op (parse_expr n) (Bitwise k) ts
      | TkNot \<Rightarrow> parse_unary_op (parse_expr n) BNot ts
      | TkFArith k \<Rightarrow> parse_binary_op (parse_expr n) (FArith k) ts
      | TkFneg \<Rightarrow> parse_unary_op (parse_expr n) Fneg ts
      | TkFCmp k \<Rightarrow> parse_binary_op (parse_expr n) (FCmp k) ts
      | TkAtomic k \<Rightarrow> parse_atomic_expr (parse_expr n) k ts
      | TkConvert k \<Rightarrow> parse_convert_expr (parse_expr n) k ts
      | TkCompose k \<Rightarrow> parse_call_expr n (parse_expr n) k ts
      | TkConcurrency k \<Rightarrow> parse_concurrency_expr n (parse_expr n) k ts
      | TkIdentifier name \<Rightarrow> parse_field name (advance ts)
      | k \<Rightarrow> fail_p (UnexpectedExpression k) ts))"

section \<open>Statements\<close>

definition mk_node :: "span \<Rightarrow> node_kind \<Rightarrow> node parser" where
  "mk_node sp k = return_p (Node sp k)"

definition skip_indent :: "token list \<Rightarrow> token list" where
  "skip_indent ts = (case peek_kind ts of TkIndent _ \<Rightarrow> advance ts | _ \<Rightarrow> ts)"

definition scope_stop :: "token_kind \<Rightarrow> bool" where
  "scope_stop k \<longleftrightarrow> k = TkStructure KwEndScope \<or> k = TkStructure KwEnd \<or> k = TkEof"

definition parse_scope :: "nat \<Rightarrow> node parser \<Rightarrow> span \<Rightarrow> node parser" where
  "parse_scope n p sp =
     then_p (\<lambda>ts. skip_newlines (advance ts))
       (bind_p (many_until n scope_stop skip_newlines p) (\<lambda>nodes ts.
          Parsed (Node sp (Scope nodes)) (if peek_kind ts = TkStructure KwEndScope then advance ts else ts)))"

definition parse_control :: "expr parser \<Rightarrow> span \<Rightarrow> control_kw \<Rightarrow> node parser" where
  "parse_control p sp k = then_p advance
     (case k of
        KwLabel \<Rightarrow> bind_p expect_identifier (\<lambda>name. mk_node sp (Label name))
      | KwBranch \<Rightarrow>
          bind_p p (\<lambda>condition. bind_p expect_identifier (\<lambda>true_label. bind_p expect_identifier (\<lambda>false_label.
            mk_node sp (Branch condition true_label false_label))))
      | KwJump \<Rightarrow> bind_p expect_identifier (\<lambda>target. mk_node sp (Jump target)))"

definition parse_outputs :: "nat \<Rightarrow> string list parser" where
  "parse_outputs n ts =
     (if peek_kind ts = TkPunct PArrow
      then bind_p expect_identifier (\<lambda>s. bind_p (comma_identifiers n) (\<lambda>ss. return_p (s # ss))) (advance ts)
      else Parsed [] ts)"

definition parse_compose :: "nat \<Rightarrow> expr parser \<Rightarrow> span \<Rightarrow> compose_kw \<Rightarrow> node parser" where
  "parse_compose n p sp k = then_p advance
     (case k of
        KwSet \<Rightarrow> bind_p expect_identifier (\<lambda>target. bind_p p (\<lambda>v. mk_node sp (Set target v)))
      | KwDiscard \<Rightarrow> bind_p expect_identifier (\<lambda>name. bind_p (parse_field name) (\<lambda>v. mk_node sp (Discard v)))
      | KwCall \<Rightarrow>
          bind_p expect_identifier (\<lambda>b. bind_p (many_until n call_stop (\<lambda>ts. ts) p) (\<lambda>args.
            bind_p (parse_outputs n) (\<lambda>outputs. mk_node sp (CallNode None b args outputs)))))"

definition parse_memory_stmt :: "expr parser \<Rightarrow> span \<Rightarrow> memory_kw \<Rightarrow> node parser" where
  "parse_memory_stmt p sp k ts =
     (case k of
        KwStore \<Rightarrow>
          then_p advance (bind_p expect_identifier (\<lambda>target. bind_p p (\<lambda>v. bind_p parse_integer (\<lambda>n.
            bind_p (parse_offset p) (\<lambda>offset. mk_node sp (Store target v n offset)))))) ts
      | KwFree \<Rightarrow> then_p advance (bind_p expect_identifier (\<lambda>name. mk_node sp (Free name))) ts
      | _ \<Rightarrow> fail_p (UnexpectedStatement (TkMemoryOp k)) ts)"

definition parse_concurrency_stmt :: "expr parser \<Rightarrow> span \<Rightarrow> concurrency_kw \<Rightarrow> node parser" where
  "parse_concurrency_stmt p sp k ts =
     (case k of
        KwChannelSend \<Rightarrow>
          then_p advance (bind_p expect_identifier (\<lambda>c. bind_p p (\<lambda>v. mk_node sp (ChannelSend c v)))) ts
      | KwChannelClose \<Rightarrow> then_p advance (bind_p expect_identifier (\<lambda>c. mk_node sp (ChannelClose c))) ts
      | KwWaitAll \<Rightarrow> then_p advance (bind_p identifiers1 (\<lambda>hs. mk_node sp (WaitAll [] hs))) ts
      | _ \<Rightarrow> fail_p (UnexpectedStatement (TkConcurrency k)) ts)"

definition parse_wait_targets :: "span \<Rightarrow> string list \<Rightarrow> node parser" where
  "parse_wait_targets sp targets ts =
     (case peek_kind ts of
        TkConcurrency KwWaitAny \<Rightarrow>
          (case targets of
             [result, which] \<Rightarrow>
               then_p advance (bind_p many_identifiers (\<lambda>hs. mk_node sp (WaitAny result which hs))) ts
           | _ \<Rightarrow> then_p advance (fail_p WaitAnyTargets) ts)
      | TkConcurrency KwWaitAll \<Rightarrow>
          then_p advance (bind_p identifiers1 (\<lambda>hs. mk_node sp (WaitAll targets hs))) ts
      | _ \<Rightarrow> fail_p ExpectedWait ts)"

definition parse_assignment :: "nat \<Rightarrow> expr parser \<Rightarrow> span \<Rightarrow> string \<Rightarrow> node parser" where
  "parse_assignment n p sp name ts =
     (case peek_kind ts of
        TkPunct PEquals \<Rightarrow>
          (let ts1 = advance ts in
           if peek_kind ts1 = TkConcurrency KwWaitAll
           then then_p advance (bind_p identifiers1 (\<lambda>hs. mk_node sp (WaitAll [name] hs))) ts1
           else bind_p p (\<lambda>e. mk_node sp (Assignment name e)) ts1)
      | TkPunct PComma \<Rightarrow>
          bind_p (comma_identifiers n) (\<lambda>targets. bind_p (expect (TkPunct PEquals)) (\<lambda>_.
            parse_wait_targets sp (name # targets))) ts
      | k \<Rightarrow> fail_p (UnexpectedAfterIdentifier name k) ts)"

primrec parse_node :: "nat \<Rightarrow> node parser" where
  "parse_node 0 = (\<lambda>ts. OutOfFuel)"
| "parse_node (Suc n) = (\<lambda>ts0.
     (let ts = skip_indent ts0; sp = current_span ts; p = parse_expr (Suc n) in
      case peek_kind ts of
        TkControl k \<Rightarrow> parse_control p sp k ts
      | TkStructure KwScope \<Rightarrow> parse_scope n (parse_node n) sp ts
      | TkCompose k \<Rightarrow> parse_compose (Suc n) p sp k ts
      | TkMemoryOp k \<Rightarrow> parse_memory_stmt p sp k ts
      | TkConcurrency k \<Rightarrow> parse_concurrency_stmt p sp k ts
      | TkIdentifier name \<Rightarrow> parse_assignment (Suc n) p sp name (advance ts)
      | k \<Rightarrow> fail_p (UnexpectedStatement k) ts))"

definition body_stop :: "token_kind \<Rightarrow> bool" where
  "body_stop k \<longleftrightarrow> k = TkStructure KwEnd \<or> k = TkEof"

definition parse_implementation :: "nat \<Rightarrow> node list parser" where
  "parse_implementation n = many_until n body_stop skip_newlines (parse_node n)"

section \<open>Contracts\<close>

definition parse_parameter :: "parameter parser" where
  "parse_parameter =
     bind_p expect_identifier (\<lambda>name. bind_p parse_type (\<lambda>typ ts.
       if typ = TString \<and> \<not> (case peek_kind ts of TkInteger _ \<Rightarrow> True | _ \<Rightarrow> False)
       then Parsed \<lparr>p_name = name, p_typ = typ, p_size = 0\<rparr> ts
       else bind_p parse_integer (\<lambda>n. return_p \<lparr>p_name = name, p_typ = typ, p_size = n\<rparr>) ts))"

fun parse_behavior_refs :: "nat \<Rightarrow> behavior_ref list parser" where
  "parse_behavior_refs 0 ts = OutOfFuel"
| "parse_behavior_refs (Suc n) ts =
     (if is_identifier (peek_kind ts)
      then bind_p expect_identifier (\<lambda>name ts.
             if peek_kind ts = TkPunct PAt
             then bind_p expect_hex_string (\<lambda>h. bind_p (parse_behavior_refs n)
                    (\<lambda>rs. return_p (\<lparr>br_name = name, br_hash = h\<rparr> # rs))) (advance ts)
             else bind_p (parse_behavior_refs n) (\<lambda>rs. return_p (\<lparr>br_name = name, br_hash = []\<rparr> # rs)) ts) ts
      else Parsed [] ts)"

fun parse_requires_loop :: "nat \<Rightarrow> requirements \<Rightarrow> requirements parser" where
  "parse_requires_loop 0 reqs ts = OutOfFuel"
| "parse_requires_loop (Suc n) reqs ts =
     (let ts = skip_newlines ts in
      if is_identifier (peek_kind ts)
      then bind_p (parse_behavior_refs (Suc n)) (\<lambda>rs. parse_requires_loop n (reqs\<lparr>rq_behaviors := rs\<rparr>)) ts
      else Parsed reqs ts)"

definition parse_requires :: "nat \<Rightarrow> requirements parser" where
  "parse_requires n = then_p skip_newlines (parse_requires_loop n requirements_default)"

fun parse_guarantees :: "token list \<Rightarrow> guarantee list \<times> token list" where
  "parse_guarantees [] = ([], [])"
| "parse_guarantees (t # ts) =
     (case tk_kind t of
        TkGuarantee g \<Rightarrow> (case parse_guarantees ts of (gs, ts') \<Rightarrow> (g # gs, ts'))
      | _ \<Rightarrow> ([], t # ts))"

fun parse_contract_loop :: "nat \<Rightarrow> contract \<Rightarrow> contract parser" where
  "parse_contract_loop 0 c ts = OutOfFuel"
| "parse_contract_loop (Suc n) c ts =
     (let ts = skip_newlines ts in
      case peek_kind ts of
        TkContractKw KwInput \<Rightarrow>
          bind_p parse_parameter (\<lambda>p. parse_contract_loop n (c\<lparr>c_inputs := c_inputs c @ [p]\<rparr>)) (advance ts)
      | TkContractKw KwOutput \<Rightarrow>
          bind_p parse_parameter (\<lambda>p. parse_contract_loop n (c\<lparr>c_outputs := c_outputs c @ [p]\<rparr>)) (advance ts)
      | TkContractKw KwRequires \<Rightarrow>
          bind_p (parse_requires (Suc n)) (\<lambda>r. parse_contract_loop n (c\<lparr>c_requires := r\<rparr>))
            (skip_newlines (advance ts))
      | TkContractKw KwGuarantees \<Rightarrow>
          (case parse_guarantees (advance ts) of (gs, ts') \<Rightarrow> parse_contract_loop n (c\<lparr>c_guarantees := gs\<rparr>) ts')
      | TkStructure KwMemory \<Rightarrow>
          (case identifiers (advance ts) of (ss, ts') \<Rightarrow>
             parse_contract_loop n
               (c\<lparr>c_requires := (c_requires c)\<lparr>rq_memory := rq_memory (c_requires c) @ ss\<rparr>\<rparr>) ts')
      | _ \<Rightarrow> Parsed c ts)"

definition parse_contract :: "nat \<Rightarrow> contract parser" where
  "parse_contract n = parse_contract_loop n empty_contract"

section \<open>Descriptions\<close>

definition description_stop :: "token_kind \<Rightarrow> bool" where
  "description_stop k \<longleftrightarrow> k \<in> set (TkEof # map TkStructure [KwContract, KwHash, KwImplementation,
     KwComposition, KwNative, KwEnd, KwEntry, KwUses, KwEndExecutable])"

fun description_scan :: "bool \<Rightarrow> span \<Rightarrow> token list \<Rightarrow> span \<times> token list" where
  "description_scan at_line_start end_span [] = (end_span, [])"
| "description_scan at_line_start end_span (t # ts) =
     (if at_line_start \<and> description_stop (tk_kind t) then (end_span, t # ts)
      else (case tk_kind t of
          TkEof \<Rightarrow> (end_span, t # ts)
        | TkNewline \<Rightarrow> description_scan True (tk_span t) ts
        | TkIndent _ \<Rightarrow> description_scan at_line_start end_span ts
        | _ \<Rightarrow> description_scan False (tk_span t) ts))"

definition strip_cr :: "uchar list \<Rightarrow> uchar list" where
  "strip_cr l = (if l \<noteq> [] \<and> last l = 13 then butlast l else l)"

text \<open>
  \<^verbatim>\<open>str::lines\<close>: a line ends at a line feed, and a carriage return just before that is
  dropped. A last line without a line feed keeps its carriage return.
\<close>

fun source_lines :: "uchar list \<Rightarrow> uchar list \<Rightarrow> uchar list list" where
  "source_lines cur [] = (if cur = [] then [] else [cur])"
| "source_lines cur (c # cs) = (if c = 10 then strip_cr cur # source_lines [] cs else source_lines (cur @ [c]) cs)"

definition is_whitespace :: "uchar \<Rightarrow> bool" where
  "is_whitespace c \<longleftrightarrow> 9 \<le> c \<and> c \<le> 13 \<or> c = 32 \<or> c = 0x85 \<or> c = 0xA0 \<or> c = 0x1680
     \<or> 0x2000 \<le> c \<and> c \<le> 0x200A \<or> c = 0x2028 \<or> c = 0x2029 \<or> c = 0x202F \<or> c = 0x205F \<or> c = 0x3000"

definition trim_text :: "uchar list \<Rightarrow> uchar list" where
  "trim_text cs = rev (dropWhile is_whitespace (rev (dropWhile is_whitespace cs)))"

definition drop_margin :: "uchar list \<Rightarrow> uchar list" where
  "drop_margin l = (if take 2 l = [32, 32] then drop 2 l else l)"

definition description_text :: "uchar list \<Rightarrow> nat \<Rightarrow> nat \<Rightarrow> string" where
  "description_text source start_line end_line =
     (let lines = source_lines [] source in
      utf8_text (trim_text (fold (\<lambda>line_num desc.
        if 0 < line_num \<and> line_num \<le> length lines
        then (if desc \<noteq> [] then desc @ [10] else desc) @ drop_margin (lines ! (line_num - 1))
        else desc) [start_line..<Suc end_line] [])))"

definition parse_description :: "uchar list \<Rightarrow> string parser" where
  "parse_description source ts0 =
     (let ts = skip_newlines ts0; start_span = current_span ts in
      case description_scan True start_span ts of (end_span, ts') \<Rightarrow>
        Parsed (description_text source (sp_line start_span) (sp_line end_span)) ts')"

section \<open>Behaviors, patterns, libraries and executables\<close>

definition parse_platform :: "string option parser" where
  "parse_platform ts =
     (if peek_kind ts = TkPunct PLeftBracket
      then bind_p expect_identifier (\<lambda>name. bind_p (expect (TkPunct PRightBracket)) (\<lambda>_.
             return_p (Some name))) (advance ts)
      else Parsed None ts)"

definition parse_platform_impl :: "nat \<Rightarrow> platform_impl parser" where
  "parse_platform_impl n =
     bind_p parse_platform (\<lambda>platform. then_p skip_newlines (bind_p (parse_implementation n) (\<lambda>nodes ts.
       Parsed \<lparr>pi_platform = platform, pi_nodes = nodes\<rparr>
         (if platform \<noteq> None \<and> peek_kind ts = TkStructure KwEnd then advance ts else ts))))"

fun parse_behavior_loop :: "nat \<Rightarrow> uchar list \<Rightarrow> behavior \<Rightarrow> behavior parser" where
  "parse_behavior_loop 0 source b ts = OutOfFuel"
| "parse_behavior_loop (Suc n) source b ts =
     (let ts = skip_newlines ts in
      case peek_kind ts of
        TkStructure KwDescription \<Rightarrow>
          bind_p (parse_description source) (\<lambda>d. parse_behavior_loop n source (b\<lparr>b_description := Some d\<rparr>)) (advance ts)
      | TkStructure KwContract \<Rightarrow>
          bind_p (parse_contract (Suc n)) (\<lambda>c. parse_behavior_loop n source (b\<lparr>b_contract := c\<rparr>))
            (skip_newlines (advance ts))
      | TkStructure KwHash \<Rightarrow>
          bind_p expect_hex_string (\<lambda>h. parse_behavior_loop n source (b\<lparr>b_hash := h\<rparr>)) (advance ts)
      | TkStructure KwImplementation \<Rightarrow>
          bind_p (parse_platform_impl (Suc n)) (\<lambda>i.
            parse_behavior_loop n source (b\<lparr>b_implementations := b_implementations b @ [i]\<rparr>)) (advance ts)
      | TkStructure KwComposition \<Rightarrow>
          bind_p (parse_implementation (Suc n)) (\<lambda>nodes.
            parse_behavior_loop n source (b\<lparr>b_composition := Some nodes\<rparr>)) (skip_newlines (advance ts))
      | TkStructure KwNative \<Rightarrow> Parsed (b\<lparr>b_is_native := True\<rparr>) (advance ts)
      | TkStructure KwEnd \<Rightarrow> Parsed b (advance ts)
      | TkEof \<Rightarrow> fail_p EofInBehavior ts
      | k \<Rightarrow> fail_p (UnexpectedInBehavior k) ts)"

definition parse_behavior :: "nat \<Rightarrow> uchar list \<Rightarrow> behavior parser" where
  "parse_behavior n source =
     then_p skip_newlines (bind_p (expect (TkStructure KwBehavior)) (\<lambda>_. bind_p expect_identifier (\<lambda>name.
       then_p skip_newlines (parse_behavior_loop n source (behavior_new name)))))"

definition parse_memory_decl :: "memory_decl parser" where
  "parse_memory_decl =
     bind_p expect_identifier (\<lambda>name. bind_p parse_type (\<lambda>typ. bind_p parse_integer (\<lambda>n ts.
       Parsed \<lparr>md_name = name, md_typ = typ, md_size = n\<rparr> (skip_newlines ts))))"

definition parse_node_line :: "nat \<Rightarrow> node parser" where
  "parse_node_line n = bind_p (parse_node n) (\<lambda>nd ts. Parsed nd (skip_newlines ts))"

definition create_stop :: "token_kind \<Rightarrow> bool" where
  "create_stop k \<longleftrightarrow> k \<in> set (TkEof # map TkStructure [KwOnDestroy, KwBehavior, KwEndPattern])"

definition destroy_stop :: "token_kind \<Rightarrow> bool" where
  "destroy_stop k \<longleftrightarrow> k = TkStructure KwEndPattern \<or> k = TkEof"

fun parse_pattern_loop :: "nat \<Rightarrow> uchar list \<Rightarrow> pattern \<Rightarrow> pattern parser" where
  "parse_pattern_loop 0 source pt ts = OutOfFuel"
| "parse_pattern_loop (Suc n) source pt ts =
     (let ts = skip_newlines ts in
      case peek_kind ts of
        TkStructure KwMemory \<Rightarrow>
          bind_p (many_until (Suc n) (\<lambda>k. \<not> is_identifier k) (\<lambda>ts. ts) parse_memory_decl) (\<lambda>ms.
            parse_pattern_loop n source (pt\<lparr>pt_memory := pt_memory pt @ ms\<rparr>)) (skip_newlines (advance ts))
      | TkStructure KwOnCreate \<Rightarrow>
          bind_p (many_until (Suc n) create_stop (\<lambda>ts. ts) (parse_node_line (Suc n))) (\<lambda>nds.
            parse_pattern_loop n source (pt\<lparr>pt_on_create := pt_on_create pt @ nds\<rparr>)) (skip_newlines (advance ts))
      | TkStructure KwBehavior \<Rightarrow>
          bind_p (parse_behavior (Suc n) source) (\<lambda>b.
            parse_pattern_loop n source (pt\<lparr>pt_behaviors := pt_behaviors pt @ [b]\<rparr>)) ts
      | TkStructure KwOnDestroy \<Rightarrow>
          bind_p (many_until (Suc n) destroy_stop (\<lambda>ts. ts) (parse_node_line (Suc n))) (\<lambda>nds.
            parse_pattern_loop n source (pt\<lparr>pt_on_destroy := pt_on_destroy pt @ nds\<rparr>)) (skip_newlines (advance ts))
      | TkStructure KwEndPattern \<Rightarrow> Parsed pt (advance ts)
      | TkEof \<Rightarrow> Parsed pt ts
      | k \<Rightarrow> fail_p (UnexpectedInPattern k) ts)"

definition parse_pattern :: "nat \<Rightarrow> uchar list \<Rightarrow> pattern parser" where
  "parse_pattern n source =
     bind_p (expect (TkStructure KwPattern)) (\<lambda>_. bind_p expect_identifier (\<lambda>name.
       then_p skip_newlines (parse_pattern_loop n source
         \<lparr>pt_name = name, pt_memory = [], pt_on_create = [], pt_behaviors = [], pt_on_destroy = []\<rparr>)))"

fun parse_library_loop :: "nat \<Rightarrow> uchar list \<Rightarrow> library \<Rightarrow> library parser" where
  "parse_library_loop 0 source l ts = OutOfFuel"
| "parse_library_loop (Suc n) source l ts =
     (let ts = skip_newlines ts in
      case peek_kind ts of
        TkStructure KwBehavior \<Rightarrow>
          bind_p (parse_behavior (Suc n) source) (\<lambda>b.
            parse_library_loop n source (l\<lparr>lib_behaviors := lib_behaviors l @ [b]\<rparr>)) ts
      | TkStructure KwEndLibrary \<Rightarrow> Parsed l (advance ts)
      | TkEof \<Rightarrow> Parsed l ts
      | k \<Rightarrow> fail_p (UnexpectedInLibrary k) ts)"

definition parse_library :: "nat \<Rightarrow> uchar list \<Rightarrow> library parser" where
  "parse_library n source =
     bind_p (expect (TkStructure KwLibrary)) (\<lambda>_. bind_p expect_identifier (\<lambda>name.
       then_p skip_newlines (parse_library_loop n source \<lparr>lib_name = name, lib_behaviors = []\<rparr>)))"

definition parse_uses :: "string parser" where
  "parse_uses =
     bind_p expect_identifier (\<lambda>use_path. bind_p (expect (TkPunct PDot)) (\<lambda>_. bind_p expect_identifier (\<lambda>ext.
       if ext \<noteq> ''pattern'' then fail_p (ExpectedPatternExtension ext) else return_p use_path)))"

definition entry_stop :: "token_kind \<Rightarrow> bool" where
  "entry_stop k \<longleftrightarrow> k = TkStructure KwEndExecutable \<or> k = TkEof"

fun parse_executable_loop :: "nat \<Rightarrow> uchar list \<Rightarrow> executable \<Rightarrow> executable parser" where
  "parse_executable_loop 0 source x ts = OutOfFuel"
| "parse_executable_loop (Suc n) source x ts =
     (let ts = skip_newlines ts in
      case peek_kind ts of
        TkStructure KwDescription \<Rightarrow>
          bind_p (parse_description source) (\<lambda>d. parse_executable_loop n source (x\<lparr>ex_description := Some d\<rparr>)) (advance ts)
      | TkStructure KwUses \<Rightarrow>
          bind_p parse_uses (\<lambda>u. parse_executable_loop n source (x\<lparr>ex_uses := ex_uses x @ [u]\<rparr>)) (advance ts)
      | TkStructure KwEntry \<Rightarrow>
          bind_p (many_until (Suc n) entry_stop (\<lambda>ts. ts) (parse_node_line (Suc n))) (\<lambda>nds.
            parse_executable_loop n source (x\<lparr>ex_entry := ex_entry x @ nds\<rparr>)) (skip_newlines (advance ts))
      | TkStructure KwEndExecutable \<Rightarrow> Parsed x (advance ts)
      | TkEof \<Rightarrow> Parsed x ts
      | k \<Rightarrow> fail_p (UnexpectedInExecutable k) ts)"

definition parse_executable :: "nat \<Rightarrow> uchar list \<Rightarrow> executable parser" where
  "parse_executable n source =
     bind_p (expect (TkStructure KwExecutable)) (\<lambda>_. bind_p expect_identifier (\<lambda>name.
       then_p skip_newlines (parse_executable_loop n source
         \<lparr>ex_name = name, ex_description = None, ex_uses = [], ex_entry = []\<rparr>)))"

section \<open>The public functions\<close>

definition parse_fuel :: "token list \<Rightarrow> nat" where
  "parse_fuel tokens = Suc (length tokens)"

definition parse :: "token list \<Rightarrow> uchar list \<Rightarrow> behavior parsed" where
  "parse tokens source = parse_behavior (parse_fuel tokens) source tokens"

definition parse_pattern_file :: "token list \<Rightarrow> uchar list \<Rightarrow> pattern parsed" where
  "parse_pattern_file tokens source = parse_pattern (parse_fuel tokens) source tokens"

definition parse_library_file :: "token list \<Rightarrow> uchar list \<Rightarrow> library parsed" where
  "parse_library_file tokens source = parse_library (parse_fuel tokens) source tokens"

definition parse_executable_file :: "token list \<Rightarrow> uchar list \<Rightarrow> executable parsed" where
  "parse_executable_file tokens source = parse_executable (parse_fuel tokens) source tokens"

end
