(* ===== verification/Sigil_Hash_Text.thy ===== *)
theory Sigil_Hash_Text
  imports Sigil_Lexer_Props Sigil_Parser
begin

text \<open>
  Contract hashes in source text. A hash is written as eight hexadecimal digits, and the lexer has
  no token for that: it reads an identifier, an integer, or an integer and an identifier, and
  \<^verbatim>\<open>expect_hex_string\<close> puts them together again. Here the two are composed.
\<close>

definition lower_hex :: "char \<Rightarrow> bool" where
  "lower_hex c \<longleftrightarrow> is_ascii_digit c \<or> in_range 97 102 c"

section \<open>Leading zeros\<close>

lemma digit_val_less: "is_ascii_digit c \<Longrightarrow> digit_val c < 10"
  by (auto simp: char_class_defs digit_val_def Let_def)

lemma digit_char_val: "is_ascii_digit c \<Longrightarrow> digit_char (digit_val c) = c"
  by (auto simp: char_class_defs digit_val_def digit_char_def Let_def)

lemma digit_char_0: "digit_char 0 = CHR ''0''"
  by code_simp

lemma nat_to_dec_snoc: "0 < n \<Longrightarrow> d < 10 \<Longrightarrow> nat_to_dec (n * 10 + d) = nat_to_dec n @ [digit_char d]"
  by (subst nat_to_dec.simps) simp

lemma nat_to_dec_digit: "d < 10 \<Longrightarrow> nat_to_dec d = [digit_char d]"
  by (subst nat_to_dec.simps) simp

lemma digits_val_less: "list_all is_ascii_digit ds \<Longrightarrow> digits_val 10 ds < 10 ^ length ds"
proof (induction ds rule: rev_induct)
  case (snoc c ds)
  then have "digits_val 10 ds < 10 ^ length ds" "digit_val c < 10" by (simp_all add: digit_val_less)
  then have "digits_val 10 ds * 10 + digit_val c < Suc (digits_val 10 ds) * 10" by simp
  also have "\<dots> \<le> 10 ^ length ds * 10" using \<open>digits_val 10 ds < _\<close> by (intro mult_le_mono1) simp
  finally show ?case by simp
qed simp

text \<open>Reading digits as a number and printing it only drops leading zeros.\<close>

lemma dec_drops_zeros:
  "list_all is_ascii_digit ds \<Longrightarrow> ds \<noteq> [] \<Longrightarrow> \<exists>k. ds = replicate k (CHR ''0'') @ nat_to_dec (digits_val 10 ds)"
proof (induction ds rule: rev_induct)
  case (snoc c ds)
  have c: "digit_val c < 10" "digit_char (digit_val c) = c" using snoc.prems by (simp_all add: digit_val_less digit_char_val)
  show ?case
  proof (cases "digits_val 10 ds = 0")
    case True
    have "\<exists>k. ds = replicate k (CHR ''0'')"
    proof (cases "ds = []")
      case False
      then obtain k where "ds = replicate k (CHR ''0'') @ nat_to_dec 0" using snoc True by auto
      then have "ds = replicate (Suc k) (CHR ''0'')"
        by (simp add: nat_to_dec_digit digit_char_0 replicate_append_same)
      then show ?thesis by blast
    qed simp
    then show ?thesis using True c by (auto simp: nat_to_dec_digit)
  next
    case False
    then obtain k where "ds = replicate k (CHR ''0'') @ nat_to_dec (digits_val 10 ds)" using snoc by fastforce
    moreover have "nat_to_dec (digits_val 10 (ds @ [c])) = nat_to_dec (digits_val 10 ds) @ [c]"
      using False c by (simp add: nat_to_dec_snoc)
    ultimately show ?thesis by (intro exI [of _ k]) (metis append.assoc)
  qed
qed simp

lemma finish_hex_digits:
  assumes "list_all is_ascii_digit ds" "ds \<noteq> []" "list_all lower_hex r" "length (ds @ r) = 8"
  shows "finish_hex (nat_to_dec (digits_val 10 ds) @ r) = ds @ r"
proof -
  obtain k where k: "ds = replicate k (CHR ''0'') @ nat_to_dec (digits_val 10 ds)"
    using dec_drops_zeros [OF assms(1,2)] by blast
  let ?s = "nat_to_dec (digits_val 10 ds) @ r"
  have s: "ds @ r = replicate k (CHR ''0'') @ ?s" using k by (metis append.assoc)
  have "length (ds @ r) = k + length ?s" unfolding s by simp
  then have l: "length ?s = 8 - k" "k \<le> 8" using assms(4) by linarith+
  have h: "list_all lower_hex ?s"
    using nat_to_dec_digits assms(3) by (auto simp: list_all_iff lower_hex_def)
  have hex: "all_hex ?s" using h by (auto simp: all_hex_def list_all_iff lower_hex_def is_ascii_hexdigit_def)
  have low: "map to_ascii_lower xs = xs" if "list_all lower_hex xs" for xs
    using that by (auto intro!: map_idI simp: list_all_iff lower_hex_def to_ascii_lower_def char_class_defs)
  have "list_all lower_hex (ds @ r)" using assms(1,3) by (auto simp: list_all_iff lower_hex_def)
  moreover have "pad8 ?s = ds @ r" using s l by (simp add: pad8_def)
  moreover have "k = 0 \<Longrightarrow> ?s = ds @ r" using s by simp
  ultimately show ?thesis using l hex low by (cases "k = 0") (auto simp: finish_hex_def)
qed

section \<open>Lexing a hash\<close>

lemma ascii_ranges:
  "is_ascii_digit c \<longleftrightarrow> u_digit (ascii c)"
  "in_range 97 102 c \<longleftrightarrow> 97 \<le> ascii c \<and> ascii c \<le> 102"
proof -
  have "ascii c = int (of_char c)" by (simp add: ascii_def of_nat_of_char)
  then show "is_ascii_digit c \<longleftrightarrow> u_digit (ascii c)" "in_range 97 102 c \<longleftrightarrow> 97 \<le> ascii c \<and> ascii c \<le> 102"
    by (auto simp: char_class_defs u_digit_def)
qed

lemma lower_hex_ident: "lower_hex c \<Longrightarrow> u_ident (ascii c) \<and> ascii c \<noteq> 10"
  by (auto simp: lower_hex_def ascii_ranges u_ident_def u_alphabetic_def u_digit_def)

lemma keywords_not_hex: "list_all (\<lambda>(k, _). \<not> list_all lower_hex k) keyword_table"
  by code_simp

lemma hex_word_ident:
  assumes "list_all lower_hex w"
  shows "keyword_or_ident w sp = token_new (TkIdentifier w) sp"
proof -
  have "map_of keyword_table w = None"
    using keywords_not_hex assms by (auto simp: map_of_eq_None_iff list_all_iff)
  then show ?thesis by (simp add: keyword_or_ident_def)
qed

lemma lex_char_hex_word:
  assumes c: "in_range 97 102 c" and cs: "list_all lower_hex cs" and lx: "lx_chars lx = source_text cs"
  shows "\<exists>sp lx'. lex_char b l k (ascii c) lx = (Inr (token_new (TkIdentifier (c # cs)) sp), lx') \<and> lx_chars lx' = []"
proof -
  have r: "97 \<le> ascii c" "ascii c \<le> 102" using c by (simp_all add: ascii_ranges)
  then have n: "ascii c \<noteq> 10" "ascii c \<noteq> 34" "punct_of (ascii c) = None" "ascii c \<noteq> 45" "\<not> u_digit (ascii c)"
    "u_alphabetic (ascii c)" by (auto simp: punct_of_def u_digit_def u_alphabetic_def)
  have i: "list_all u_ident (source_text cs)" "10 \<notin> set (source_text cs)"
    using cs lower_hex_ident by (fastforce simp: list_all_iff source_text_def)+
  have w: "map char_of (ascii c # source_text cs) = c # cs" using char_of_ascii [of "c # cs"] by (simp add: source_text_def)
  have h: "list_all lower_hex (c # cs)" using c cs by (simp add: lower_hex_def)
  have "read_while u_ident lx = (source_text cs, lx\<lparr>lx_chars := [], lx_col := lx_col lx + length (source_text cs)\<rparr>)"
    using read_while_run [OF i, of "[]" lx] lx by simp
  then have "lex_word b l k (ascii c) lx = (Inr (token_new (TkIdentifier (c # cs)) (span_new l k (length (c # cs)))),
      lx\<lparr>lx_chars := [], lx_col := lx_col lx + length (source_text cs)\<rparr>)"
    by (simp add: lex_word_def read_identifier_def w hex_word_ident [OF h] token_new_def section_keyword_def
        del: list.map)
  then show ?thesis using n by (auto simp: lex_char_def Let_def)
qed

lemma read_decimal_stop:
  "list_all u_digit cs \<Longrightarrow> rest = [] \<or> \<not> u_digit (hd rest) \<and> hd rest \<noteq> 46 \<Longrightarrow> lx_chars lx = cs @ rest \<Longrightarrow>
    read_decimal False lx = (cs, False, lx\<lparr>lx_chars := rest, lx_col := lx_col lx + length cs\<rparr>)"
proof (induction cs arbitrary: lx)
  case Nil
  then show ?case by (cases rest) (simp_all add: read_decimal.simps [of False lx] lx_peek_def)
next
  case (Cons c cs)
  have p: "lx_peek lx = Some c" using Cons.prems by (simp add: lx_peek_def)
  have "c \<noteq> 10" using Cons.prems by (auto simp: u_digit_def)
  then show ?case
    using Cons.prems Cons.IH [of "lx\<lparr>lx_chars := cs @ rest, lx_col := lx_col lx + 1\<rparr>"] advance_Cons [of lx c "cs @ rest"]
    by (simp add: read_decimal.simps [of False lx] p)
qed

lemma lex_char_digits:
  assumes d: "is_ascii_digit d" "list_all is_ascii_digit ds" "length ds < 18"
    and r: "r = [] \<or> in_range 97 102 (hd r)" and lx: "lx_chars lx = source_text (ds @ r)"
  shows "\<exists>sp lx'. lex_char b l k (ascii d) lx = (Inr (token_new (TkInteger (of_nat (digits_val 10 (d # ds)))) sp), lx')
    \<and> lx_chars lx' = source_text r \<and> lx_at_line_start lx' = lx_at_line_start lx"
proof -
  have u: "u_digit (ascii d)" "list_all u_digit (source_text ds)"
    using d by (auto simp: ascii_ranges list_all_iff source_text_def)
  have n: "ascii d \<noteq> 10" "ascii d \<noteq> 34" "punct_of (ascii d) = None" "ascii d \<noteq> 45"
    using u(1) by (auto simp: punct_of_def u_digit_def)
  have rest: "source_text r = [] \<or> \<not> u_digit (hd (source_text r)) \<and> hd (source_text r) \<noteq> 46"
    using r by (cases r) (auto simp: source_text_def ascii_ranges u_digit_def)
  have x: "lx_peek lx \<noteq> Some 120"
    using u(2) r by (cases ds; cases r) (auto simp: lx lx_peek_def source_text_def u_digit_def ascii_ranges)
  have rd: "read_decimal False lx = (source_text ds, False, lx\<lparr>lx_chars := source_text r, lx_col := lx_col lx + length (source_text ds)\<rparr>)"
    by (rule read_decimal_stop [OF u(2) rest]) (simp add: lx source_text_def)
  have v: "digits_val 10 (d # ds) < 10 ^ 18"
  proof -
    have "digits_val 10 (d # ds) < 10 ^ length (d # ds)" using d by (intro digits_val_less) simp
    also have "\<dots> \<le> 10 ^ 18" using d(3) by (intro power_increasing) simp_all
    finally show ?thesis .
  qed
  then have "int (digits_val 10 (d # ds)) < 2 ^ 63" by simp
  moreover have "d \<noteq> CHR ''-''" using d(1) by (auto simp: char_class_defs)
  moreover have "map char_of (ascii d # source_text ds) = d # ds" using char_of_ascii [of "d # ds"] by (simp add: source_text_def)
  ultimately have "parse_i64 (map char_of (ascii d # source_text ds)) = Some (of_nat (digits_val 10 (d # ds)))"
    by (simp add: Let_def)
  then show ?thesis using n u(1) x rd by (auto simp: lex_char_def Let_def read_number_def)
qed

lemma next_token_mid:
  assumes "\<not> lx_at_line_start lx" "lx_chars lx = c # cs" "c \<notin> {9, 10, 13, 32, 35}"
  shows "next_token lx = lex_char False (lx_line lx) (lx_col lx) c (lx\<lparr>lx_chars := cs, lx_col := lx_col lx + 1\<rparr>)"
proof -
  have w: "skip_whitespace lx = lx"
    using assms by (simp add: skip_whitespace_def read_while.simps [of _ lx] lx_peek_def)
  show ?thesis using assms by (simp add: next_token.simps [of lx] line_indent_def w advance_Cons Let_def)
qed

text \<open>How the lexer cuts up a hash.\<close>

definition hash_tokens :: "string \<Rightarrow> token_kind list" where
  "hash_tokens h =
     (let ds = takeWhile is_ascii_digit h; r = dropWhile is_ascii_digit h in
      (if ds = [] then [] else [TkInteger (of_nat (digits_val 10 ds))]) @ (if r = [] then [] else [TkIdentifier r]))"

lemma lex_loop_word:
  assumes "\<not> lx_at_line_start lx" "lx_chars lx = source_text r" "list_all lower_hex r" "r = [] \<or> in_range 97 102 (hd r)"
  shows "\<exists>ts. lex_loop lx = Inr ts \<and> map tk_kind ts = (if r = [] then [] else [TkIdentifier r]) @ [TkEof]"
proof (cases r)
  case Nil
  then show ?thesis using lex_loop_end [of lx] assms(2) by (auto simp: source_text_def)
next
  case (Cons c cs)
  have c: "in_range 97 102 c" "list_all lower_hex cs" using assms(3,4) Cons by simp_all
  have "97 \<le> ascii c" "ascii c \<le> 102" using c by (simp_all add: ascii_ranges)
  then have b: "ascii c \<notin> {9, 10, 13, 32, 35}" by auto
  have lx: "lx_chars lx = ascii c # source_text cs" using assms(2) Cons by (simp add: source_text_def)
  obtain sp lx' where t: "lex_char False (lx_line lx) (lx_col lx) (ascii c) (lx\<lparr>lx_chars := source_text cs, lx_col := lx_col lx + 1\<rparr>)
      = (Inr (token_new (TkIdentifier (c # cs)) sp), lx')" "lx_chars lx' = []"
    using lex_char_hex_word [OF c, of "lx\<lparr>lx_chars := source_text cs, lx_col := lx_col lx + 1\<rparr>" False "lx_line lx" "lx_col lx"]
    by auto
  obtain e where "lex_loop lx' = Inr [e]" "tk_kind e = TkEof" using lex_loop_end [OF t(2)] by blast
  then show ?thesis using next_token_mid [OF assms(1) lx b] t(1) Cons
    by (simp add: lex_loop.simps [of lx] token_new_def)
qed

lemma lex_hash:
  assumes h: "list_all lower_hex h" "length h = 8"
  shows "\<exists>ts. lex (source_text h) = Inr ts \<and> map tk_kind ts = hash_tokens h @ [TkEof]"
proof -
  obtain c cs where hc: "h = c # cs" using h(2) by (cases h) simp_all
  have src: "source_text h = ascii c # source_text cs" by (simp add: hc source_text_def)
  have first: "ascii c \<notin> {9, 10, 13, 32, 35, 0xFEFF}"
    using h(1) hc by (auto simp: lower_hex_def ascii_ranges u_digit_def)
  note nt = next_token_first [OF first, of "source_text cs"]
  note run = lex_loop.simps [of "lexer_new (ascii c # source_text cs)"]
  show ?thesis
  proof (cases "is_ascii_digit c")
    case False
    then have c: "in_range 97 102 c" "list_all lower_hex cs" using h(1) hc by (simp_all add: lower_hex_def)
    obtain sp lx' where t: "lex_char True 1 1 (ascii c) (after_first (source_text cs))
        = (Inr (token_new (TkIdentifier (c # cs)) sp), lx')" "lx_chars lx' = []"
      using lex_char_hex_word [OF c, of "after_first (source_text cs)" True 1 1] by (auto simp: after_first_def)
    obtain e where "lex_loop lx' = Inr [e]" "tk_kind e = TkEof" using lex_loop_end [OF t(2)] by blast
    then have "lex_loop (lexer_new (ascii c # source_text cs)) = Inr [token_new (TkIdentifier h) sp, e]"
      using nt t(1) by (simp add: run hc token_new_def)
    moreover have "hash_tokens h = [TkIdentifier h]" using False by (simp add: hash_tokens_def hc)
    ultimately show ?thesis using \<open>tk_kind e = TkEof\<close> unfolding lex_def src by (simp add: token_new_def)
  next
    case True
    let ?ds = "takeWhile is_ascii_digit cs" and ?r = "dropWhile is_ascii_digit cs"
    have ds: "list_all is_ascii_digit ?ds" "length ?ds < 18"
      using h(2) hc length_takeWhile_le [of is_ascii_digit cs] by (auto simp: list_all_iff dest: set_takeWhileD)
    have rs: "list_all lower_hex ?r" using h(1) hc by (auto simp: list_all_iff dest: set_dropWhileD)
    have r: "?r = [] \<or> in_range 97 102 (hd ?r)"
      using hd_dropWhile [of is_ascii_digit cs] rs by (cases ?r) (auto simp: lower_hex_def)
    have chars: "lx_chars (after_first (source_text cs)) = source_text (?ds @ ?r)" by (simp add: after_first_def)
    have "\<not> lx_at_line_start (after_first (source_text cs))" by (simp add: after_first_def)
    with lex_char_digits [OF True ds r chars, of True 1 1] obtain sp lx' where
      t: "lex_char True 1 1 (ascii c) (after_first (source_text cs))
        = (Inr (token_new (TkInteger (of_nat (digits_val 10 (c # ?ds)))) sp), lx')" "lx_chars lx' = source_text ?r"
        "\<not> lx_at_line_start lx'"
      by blast
    from lex_loop_word [OF t(3,2) rs r] obtain ts where
      ts: "lex_loop lx' = Inr ts" "map tk_kind ts = (if ?r = [] then [] else [TkIdentifier ?r]) @ [TkEof]" by blast
    let ?t = "token_new (TkInteger (of_nat (digits_val 10 (c # ?ds)))) sp"
    have "lex_loop (lexer_new (ascii c # source_text cs)) = Inr (?t # ts)"
      using nt t(1) ts(1) by (simp add: run token_new_def)
    moreover have "hash_tokens h @ [TkEof] = tk_kind ?t # map tk_kind ts"
      using True ts(2) by (simp add: hash_tokens_def hc token_new_def)
    ultimately show ?thesis unfolding lex_def src by simp
  qed
qed

section \<open>Reading it back\<close>

lemma int_to_dec_small: "n < 2 ^ 63 \<Longrightarrow> int_to_dec (sint (of_nat n :: i64)) = nat_to_dec n"
proof -
  assume n: "n < 2 ^ 63"
  then have "int n < 2 ^ 63" by (metis of_nat_less_iff of_nat_numeral of_nat_power)
  then have "sint (of_nat n :: i64) = int n" by (simp add: signed_of_nat signed_take_bit_int_eq_self)
  then show ?thesis by (simp add: int_to_dec_def)
qed

lemma expect_hex_kinds:
  assumes "list_all lower_hex h" "length h = 8" "map tk_kind ts = hash_tokens h @ k # ks" "\<not> is_identifier k"
  shows "\<exists>rest. expect_hex_string ts = Parsed h rest \<and> map tk_kind rest = k # ks"
proof -
  let ?ds = "takeWhile is_ascii_digit h" and ?r = "dropWhile is_ascii_digit h"
  have ds: "list_all is_ascii_digit ?ds" by (auto simp: list_all_iff dest: set_takeWhileD)
  have rs: "list_all lower_hex ?r" using assms(1) by (auto simp: list_all_iff dest: set_dropWhileD)
  have low: "map to_ascii_lower xs = xs" if "list_all lower_hex xs" for xs
    using that by (auto intro!: map_idI simp: list_all_iff lower_hex_def to_ascii_lower_def char_class_defs)
  have hexr: "all_hex ?r" using rs by (auto simp: all_hex_def list_all_iff lower_hex_def is_ascii_hexdigit_def)
  show ?thesis
  proof (cases "?ds = []")
    case True
    then have "?r = h" by (metis append_Nil takeWhile_dropWhile_id)
    then obtain t ts' where "ts = t # ts'" "tk_kind t = TkIdentifier h" "map tk_kind ts' = k # ks"
      using assms(2,3) True by (cases ts) (auto simp: hash_tokens_def Let_def split: if_splits)
    moreover have "finish_hex h = h" using assms(2) low [OF assms(1)] by (simp add: finish_hex_def)
    ultimately show ?thesis by (simp add: expect_hex_string_def peek_kind_def peek_token_def advance_def)
  next
    case False
    let ?n = "digits_val 10 ?ds"
    have len: "length (?ds @ ?r) = 8" using assms(2) by simp
    have "?n < 10 ^ length ?ds" by (rule digits_val_less [OF ds])
    also have "\<dots> \<le> 10 ^ 8" using assms(2) length_takeWhile_le [of is_ascii_digit h] by (intro power_increasing) simp_all
    finally have dec: "int_to_dec (sint (of_nat ?n :: i64)) = nat_to_dec ?n" by (intro int_to_dec_small) simp
    have fin: "finish_hex (nat_to_dec ?n @ ?r) = h" using finish_hex_digits [OF ds False rs len] by simp
    obtain t ts' where t: "ts = t # ts'" "tk_kind t = TkInteger (of_nat ?n)"
      "map tk_kind ts' = (if ?r = [] then [] else [TkIdentifier ?r]) @ k # ks"
      using assms(3) False by (cases ts) (auto simp: hash_tokens_def Let_def)
    obtain u us where u: "ts' = u # us" using t(3) by (cases ts') (auto split: if_splits)
    show ?thesis
    proof (cases "?r = []")
      case True
      then have "tk_kind u = k" "map tk_kind us = ks" using t(3) u by simp_all
      with assms(4) dec fin True t u show ?thesis
        by (auto simp: expect_hex_string_def peek_kind_def peek_token_def advance_def is_identifier_def Let_def
            split: token_kind.splits)
    next
      case False
      then have "tk_kind u = TkIdentifier ?r" "map tk_kind us = k # ks"
        using t(3) u by (simp_all only: if_False list.map append.simps list.inject)
      with dec fin t u hexr show ?thesis
        by (simp add: expect_hex_string_def peek_kind_def peek_token_def advance_def Let_def)
    qed
  qed
qed

text \<open>
  C37. A contract hash survives being written and read: whatever eight lower-case hexadecimal digits
  are in the source, the lexer cuts them into tokens and the parser puts the same digits together
  again, leading zeros, all-digit hashes and hashes that start with a letter included.
\<close>

theorem hash_text_roundtrip:
  assumes "list_all lower_hex h" "length h = 8"
  shows "\<exists>ts rest. lex (source_text h) = Inr ts \<and> expect_hex_string ts = Parsed h rest \<and> map tk_kind rest = [TkEof]"
proof -
  from lex_hash [OF assms] obtain ts where ts: "lex (source_text h) = Inr ts" "map tk_kind ts = hash_tokens h @ [TkEof]" by blast
  have "\<not> is_identifier TkEof" by (simp add: is_identifier_def)
  from expect_hex_kinds [OF assms ts(2) this] obtain rest where
    "expect_hex_string ts = Parsed h rest \<and> map tk_kind rest = [TkEof]" by (rule exE)
  then show ?thesis using ts(1) by (intro exI [of _ ts] exI [of _ rest] conjI) simp_all
qed

theorem hash_text_roundtrip_witness:
  "(\<exists>ts rest. lex (source_text ''004ec810'') = Inr ts \<and> expect_hex_string ts = Parsed ''004ec810'' rest \<and> map tk_kind rest = [TkEof])
   \<and> hash_tokens ''004ec810'' = [TkInteger 4, TkIdentifier ''ec810'']"
proof
  show "\<exists>ts rest. lex (source_text ''004ec810'') = Inr ts \<and> expect_hex_string ts = Parsed ''004ec810'' rest \<and> map tk_kind rest = [TkEof]"
    by (rule hash_text_roundtrip) code_simp+
  show "hash_tokens ''004ec810'' = [TkInteger 4, TkIdentifier ''ec810'']" by code_simp
qed

text \<open>
  The joining looks past the hash: after a hash of decimal digits only, a following name that
  happens to consist of hexadecimal digits is taken as part of it. A second dependency
  called \<open>add\<close> is lost that way, and what is recorded for the first is no hash at all.
\<close>

lemma decimal_hash_takes_next_name:
  "expect_hex_string (map (\<lambda>k. token_new k sp) [TkInteger 12345678, TkIdentifier ''add'', TkPunct PAt, TkIdentifier ''f00''])
   = Parsed ''12345678add'' (map (\<lambda>k. token_new k sp) [TkPunct PAt, TkIdentifier ''f00''])"
proof -
  have "int_to_dec (sint (of_nat 12345678 :: i64)) = nat_to_dec 12345678" by (rule int_to_dec_small) simp
  moreover have "nat_to_dec 12345678 = map digit_char [1, 2, 3, 4, 5, 6, 7, 8]" by (simp add: nat_to_dec.simps)
  moreover have "map digit_char [1, 2, 3, 4, 5, 6, 7, 8] = ''12345678''" by code_simp
  ultimately have d: "int_to_dec 12345678 = ''12345678''" by simp
  have f: "all_hex ''add''" "finish_hex ''12345678add'' = ''12345678add''" by code_simp+
  show ?thesis using f by (simp add: expect_hex_string_def peek_kind_def peek_token_def advance_def token_new_def Let_def d)
qed

end
