(* ===== verification/Sigil_Parser_Total.thy ===== *)
theory Sigil_Parser_Total
  imports Sigil_Parser
begin

text \<open>
  The parser returns: a parse function never takes tokens back, statements and expressions take at
  least one, and so the fuel that the public functions supply is enough. The two facts that
  make a parser usable in a loop are the locale \<open>loop_body\<close>.
\<close>

named_theorems weak_intros \<open>parsers that do not give tokens back\<close>
named_theorems fuel_intros \<open>parsers for which the fuel is enough\<close>

section \<open>Taking tokens\<close>

definition weak :: "'a parser \<Rightarrow> bool" where
  "weak p \<longleftrightarrow> (\<forall>ts x ts'. p ts = Parsed x ts' \<longrightarrow> length ts' \<le> length ts)"

definition shrinks :: "'a parser \<Rightarrow> bool" where
  "shrinks p \<longleftrightarrow> (\<forall>ts x ts'. p ts = Parsed x ts' \<longrightarrow> length ts' < length ts)"

definition fuelled :: "nat \<Rightarrow> 'a parser \<Rightarrow> bool" where
  "fuelled k p \<longleftrightarrow> (\<forall>ts. length ts \<le> k \<longrightarrow> p ts \<noteq> OutOfFuel)"

lemma weakI: "(\<And>ts x ts'. p ts = Parsed x ts' \<Longrightarrow> length ts' \<le> length ts) \<Longrightarrow> weak p"
  by (simp add: weak_def)

lemma shrinksI: "(\<And>ts x ts'. p ts = Parsed x ts' \<Longrightarrow> length ts' < length ts) \<Longrightarrow> shrinks p"
  by (simp add: shrinks_def)

lemma fuelledI: "(\<And>ts. length ts \<le> k \<Longrightarrow> p ts \<noteq> OutOfFuel) \<Longrightarrow> fuelled k p"
  by (simp add: fuelled_def)

lemma weakD: "weak p \<Longrightarrow> p ts = Parsed x ts' \<Longrightarrow> length ts' \<le> length ts"
  by (auto simp: weak_def)

lemma shrinksD: "shrinks p \<Longrightarrow> p ts = Parsed x ts' \<Longrightarrow> length ts' < length ts"
  by (auto simp: shrinks_def)

lemma fuelledD: "fuelled k p \<Longrightarrow> length ts \<le> k \<Longrightarrow> p ts \<noteq> OutOfFuel"
  by (auto simp: fuelled_def)

lemma shrinks_weak: "shrinks p \<Longrightarrow> weak p"
  by (rule weakI) (auto dest: shrinksD)

lemma fuelled_mono: "fuelled k p \<Longrightarrow> l \<le> k \<Longrightarrow> fuelled l p"
  by (auto simp: fuelled_def)

lemma advance_le: "length (advance ts) \<le> length ts"
  by (simp add: advance_def)

lemma advance_less: "peek_kind ts \<noteq> TkEof \<Longrightarrow> length ts = Suc (length (advance ts))"
  by (cases ts) (simp_all add: advance_def peek_kind_def peek_token_def)

lemma skip_newlines_le: "length (skip_newlines ts) \<le> length ts"
  by (induction ts) (auto split: token_kind.splits)

lemma skip_indent_le: "length (skip_indent ts) \<le> length ts"
  by (auto simp: skip_indent_def advance_le split: token_kind.splits)

section \<open>Combinators\<close>

lemma fail_p_simps [simp]: "fail_p f ts \<noteq> Parsed x ts'" "fail_p f ts \<noteq> OutOfFuel"
  by (simp_all add: fail_p_def)

lemma bind_p_Parsed: "bind_p p f ts = Parsed y ts'' \<longleftrightarrow> (\<exists>x ts'. p ts = Parsed x ts' \<and> f x ts' = Parsed y ts'')"
  by (simp add: bind_p_def split: parsed.splits)

lemma bind_p_OutOfFuel:
  "bind_p p f ts = OutOfFuel \<longleftrightarrow> p ts = OutOfFuel \<or> (\<exists>x ts'. p ts = Parsed x ts' \<and> f x ts' = OutOfFuel)"
  by (simp add: bind_p_def split: parsed.splits)

lemma weak_return [weak_intros, intro]: "weak (return_p x)"
  by (auto simp: weak_def return_p_def)

lemma weak_fail [weak_intros, intro]: "weak (fail_p f)"
  by (simp add: weak_def)

lemma weak_bind [weak_intros]: "weak p \<Longrightarrow> (\<And>x. weak (f x)) \<Longrightarrow> weak (bind_p p f)"
  unfolding weak_def bind_p_Parsed by (meson order_trans)

lemma shrinks_bind: "shrinks p \<Longrightarrow> (\<And>x. weak (f x)) \<Longrightarrow> shrinks (bind_p p f)"
  unfolding weak_def shrinks_def bind_p_Parsed by (meson le_less_trans)

lemma weak_then [weak_intros]: "(\<And>ts. length (g ts) \<le> length ts) \<Longrightarrow> weak p \<Longrightarrow> weak (then_p g p)"
  unfolding weak_def then_p_def by (meson order_trans)

lemma fuelled_return [fuel_intros]: "fuelled k (return_p x)"
  by (simp add: fuelled_def return_p_def)

lemma fuelled_fail [fuel_intros]: "fuelled k (fail_p f)"
  by (simp add: fuelled_def)

lemma fuelled_bind [fuel_intros]: "fuelled k p \<Longrightarrow> weak p \<Longrightarrow> (\<And>x. fuelled k (f x)) \<Longrightarrow> fuelled k (bind_p p f)"
  unfolding fuelled_def weak_def bind_p_OutOfFuel by (meson order_trans)

lemma fuelled_then [fuel_intros]: "(\<And>ts. length (g ts) \<le> length ts) \<Longrightarrow> fuelled k p \<Longrightarrow> fuelled k (then_p g p)"
  by (rule fuelledI) (metis then_p_def fuelledD order_trans)

lemma shrinks_advance: "weak p \<Longrightarrow> then_p advance p ts = Parsed x ts' \<Longrightarrow> peek_kind ts \<noteq> TkEof \<Longrightarrow> length ts' < length ts"
  using advance_less [of ts] by (auto simp: then_p_def dest: weakD)

lemma weak_advance: "weak p \<Longrightarrow> then_p advance p ts = Parsed x ts' \<Longrightarrow> length ts' \<le> length ts"
  using advance_le [of ts] by (auto simp: then_p_def dest: weakD)

lemma fuelled_advance: "fuelled k p \<Longrightarrow> peek_kind ts \<noteq> TkEof \<Longrightarrow> length ts \<le> Suc k \<Longrightarrow> then_p advance p ts \<noteq> OutOfFuel"
  using advance_less [of ts] by (auto simp: then_p_def dest: fuelledD)

lemma weak_if_advance: "weak p \<Longrightarrow> weak (\<lambda>ts. if c ts then p (advance ts) else Parsed x ts)"
  unfolding weak_def using advance_le by (metis order_refl order_trans parsed.inject(1))

section \<open>Simple parsers\<close>

lemma shrinks_expect: "k \<noteq> TkEof \<Longrightarrow> shrinks (expect k)"
  using advance_less by (auto simp: shrinks_def expect_def split: if_splits)

lemma shrinks_simple:
  "shrinks expect_identifier" "shrinks parse_type" "shrinks parse_integer"
  using advance_less
  by (auto simp: shrinks_def expect_identifier_def parse_type_def parse_integer_def split: token_kind.splits)

lemma shrinks_hex: "shrinks expect_hex_string"
proof (rule shrinksI)
  fix ts x ts' assume a: "expect_hex_string ts = Parsed x ts'"
  then have "peek_kind ts \<noteq> TkEof" by (auto simp: expect_hex_string_def)
  from advance_less [OF this] have 1: "length (advance ts) < length ts" by simp
  then have "length (advance (advance ts)) < length ts" using advance_le [of "advance ts"] by simp
  with 1 a show "length ts' < length ts"
    by (auto simp: expect_hex_string_def Let_def split: token_kind.splits if_splits)
qed

lemma fuelled_simple [fuel_intros]:
  "fuelled k (expect t)" "fuelled k expect_identifier" "fuelled k parse_type" "fuelled k parse_integer"
  "fuelled k expect_hex_string"
  by (auto simp: fuelled_def expect_def expect_identifier_def parse_type_def parse_integer_def
      expect_hex_string_def Let_def split: token_kind.splits)

lemmas weak_simple [weak_intros] = shrinks_simple [THEN shrinks_weak] shrinks_hex [THEN shrinks_weak]

lemma weak_expect [weak_intros]: "weak (expect k)"
  using advance_le by (auto simp: weak_def expect_def split: if_splits)

lemma identifiers_le: "identifiers ts = (ss, ts') \<Longrightarrow> length ts' \<le> length ts"
  by (induction ts arbitrary: ss) (auto split: token_kind.splits prod.splits)

lemma guarantees_le: "parse_guarantees ts = (gs, ts') \<Longrightarrow> length ts' \<le> length ts"
  by (induction ts arbitrary: gs) (auto split: token_kind.splits prod.splits)

lemma many_identifiers_ok [weak_intros, fuel_intros]: "weak many_identifiers" "fuelled k many_identifiers"
  by (auto simp: weak_def fuelled_def many_identifiers_def dest: identifiers_le split: prod.splits)

lemma identifiers1_ok [weak_intros, fuel_intros]: "weak identifiers1" "fuelled k identifiers1"
  unfolding identifiers1_def by (intro weak_intros fuel_intros)+

section \<open>Loops\<close>

locale loop_body =
  fixes p :: "'a parser" and k :: nat
  assumes takes: "shrinks p"
    and enough: "fuelled k p"
begin

lemma many_until_fuelled:
  assumes "\<And>ts. length (pre ts) \<le> length ts"
  shows "length ts \<le> k \<Longrightarrow> length ts < n \<Longrightarrow> many_until n stop pre p ts \<noteq> OutOfFuel"
proof (induction n arbitrary: ts)
  case (Suc n)
  let ?ts = "pre ts"
  have l: "length ?ts \<le> k" "length ?ts \<le> n" using Suc.prems assms [of ts] by linarith+
  show ?case
  proof (cases "stop (peek_kind ?ts)")
    case True
    then show ?thesis by (simp add: Let_def)
  next
    case False
    have "many_until n stop pre p ts' \<noteq> OutOfFuel" if "p ?ts = Parsed x ts'" for x ts'
      using shrinksD [OF takes that] l Suc.IH [of ts'] by simp
    then show ?thesis
      using False fuelledD [OF enough l(1)] by (auto simp: Let_def bind_p_OutOfFuel return_p_def)
  qed
qed simp

lemma many_until_ok: "(\<And>ts. length (pre ts) \<le> length ts) \<Longrightarrow> k < n \<Longrightarrow> fuelled k (many_until n stop pre p)"
  by (rule fuelledI) (simp add: many_until_fuelled)

end

lemma weak_many_until [weak_intros]:
  assumes "\<And>ts. length (pre ts) \<le> length ts" "weak p"
  shows "weak (many_until n stop pre p)"
proof (induction n)
  case (Suc n)
  have w: "weak (bind_p p (\<lambda>x. bind_p (many_until n stop pre p) (\<lambda>xs. return_p (x # xs))))"
    by (intro weak_intros assms Suc)
  have "length ts' \<le> length ts" if "many_until (Suc n) stop pre p ts = Parsed xs ts'" for ts xs ts'
    using that weakD [OF w, of "pre ts"] assms(1) [of ts]
    by (auto simp: Let_def split: if_splits intro: order_trans)
  then show ?case by (rule weakI)
qed (simp add: weak_def)

lemma comma_identifiers_ok: "weak (comma_identifiers n)" "k < n \<Longrightarrow> fuelled k (comma_identifiers n)"
proof -
  have w: "weak (comma_identifiers n)" for n
  proof (induction n)
    case (Suc n)
    have "weak (bind_p expect_identifier (\<lambda>s. bind_p (comma_identifiers n) (\<lambda>ss. return_p (s # ss))))"
      by (intro weak_intros Suc)
    from weakD [OF this] have "length ts' \<le> length ts" if "comma_identifiers (Suc n) ts = Parsed xs ts'" for ts xs ts'
      using that advance_le [of ts] by (force split: if_splits intro: order_trans)
    then show ?case by (rule weakI)
  qed (simp add: weak_def)
  show "weak (comma_identifiers n)" by (rule w)
  show "k < n \<Longrightarrow> fuelled k (comma_identifiers n)"
  proof (induction n arbitrary: k)
    case (Suc n)
    have f: "comma_identifiers (Suc n) ts \<noteq> OutOfFuel" if "length ts \<le> k" for ts
    proof (cases "peek_kind ts = TkPunct PComma")
      case True
      then have "length ts = Suc (length (advance ts))" by (intro advance_less) simp
      then have "length (advance ts) < n" "0 < n" using that Suc.prems by linarith+
      then have f: "fuelled (n - 1) (comma_identifiers n)" and l: "length (advance ts) \<le> n - 1" using Suc.IH by simp_all
      have "fuelled (n - 1) (bind_p expect_identifier (\<lambda>s. bind_p (comma_identifiers n) (\<lambda>ss. return_p (s # ss))))"
        by (intro fuel_intros weak_intros w f)
      from fuelledD [OF this l] show ?thesis using True by simp
    qed simp
    then show ?case by (simp add: fuelled_def)
  qed simp
qed

section \<open>Expressions\<close>

lemma weak_offset [weak_intros]: "weak p \<Longrightarrow> weak (parse_offset p)"
  by (auto simp: weak_def parse_offset_def bind_p_Parsed return_p_def)

lemma fuelled_offset [fuel_intros]: "fuelled k p \<Longrightarrow> fuelled k (parse_offset p)"
  by (auto simp: fuelled_def parse_offset_def bind_p_OutOfFuel return_p_def)

lemma parse_field_ok [weak_intros, fuel_intros]: "weak (parse_field name)" "fuelled k (parse_field name)"
proof -
  have w: "weak (bind_p expect_identifier (\<lambda>field. return_p (Field (Var name) field)))"
    and f: "fuelled l (bind_p expect_identifier (\<lambda>field. return_p (Field (Var name) field)))" for l
    by (intro weak_intros fuel_intros)+
  show "weak (parse_field name)"
    unfolding parse_field_def [abs_def] by (rule weak_if_advance [OF w])
  show "fuelled k (parse_field name)"
    using fuelledD [OF f order_refl] by (simp add: fuelled_def parse_field_def)
qed

lemma shared_flag_ok:
  "weak (\<lambda>ts. if peek_kind ts = TkConcurrency KwShared then Parsed a (advance ts) else Parsed b ts)"
  "fuelled k (\<lambda>ts. if peek_kind ts = TkConcurrency KwShared then Parsed a (advance ts) else Parsed b ts)"
  using advance_le by (auto simp: weak_def fuelled_def)

lemmas expr_parser_defs = parse_binary_op_def parse_unary_op_def parse_memory_expr_def parse_atomic_expr_def
  parse_convert_expr_def parse_concurrency_expr_def parse_call_expr_def

lemma expr_step_shrinks:
  assumes w: "weak p" and k: "peek_kind ts \<noteq> TkEof"
  shows "parse_binary_op p c ts = Parsed e ts' \<Longrightarrow> length ts' < length ts"
    "parse_unary_op p d ts = Parsed e ts' \<Longrightarrow> length ts' < length ts"
    "parse_memory_expr p mk ts = Parsed e ts' \<Longrightarrow> length ts' < length ts"
    "parse_convert_expr p ck ts = Parsed e ts' \<Longrightarrow> length ts' < length ts"
    "parse_concurrency_expr n p nk ts = Parsed e ts' \<Longrightarrow> length ts' < length ts"
    "parse_call_expr n p pk ts = Parsed e ts' \<Longrightarrow> length ts' < length ts"
  unfolding expr_parser_defs
  by (auto split: memory_kw.splits concurrency_kw.splits compose_kw.splits
      elim!: shrinks_advance [rotated, OF _ k] intro!: weak_intros w shared_flag_ok)

lemma atomic_step_shrinks:
  "weak p \<Longrightarrow> peek_kind ts \<noteq> TkEof \<Longrightarrow> parse_atomic_expr p ak ts = Parsed e ts' \<Longrightarrow> length ts' < length ts"
  by (cases ak)
    (auto simp: parse_atomic_expr_def dest: expr_step_shrinks elim!: shrinks_advance [rotated] intro!: weak_intros)

lemma expr_step_fuelled:
  assumes w: "shrinks p" and f: "fuelled k p" and t: "peek_kind ts \<noteq> TkEof" and l: "length ts \<le> Suc k"
  shows "parse_binary_op p c ts \<noteq> OutOfFuel" "parse_unary_op p d ts \<noteq> OutOfFuel"
    "parse_memory_expr p mk ts \<noteq> OutOfFuel" "parse_atomic_expr p ak ts \<noteq> OutOfFuel"
    "parse_convert_expr p ck ts \<noteq> OutOfFuel"
    "k < n \<Longrightarrow> parse_concurrency_expr n p nk ts \<noteq> OutOfFuel"
    "k < n \<Longrightarrow> parse_call_expr n p pk ts \<noteq> OutOfFuel"
  unfolding expr_parser_defs
  by (auto split: memory_kw.splits atomic_kw.splits concurrency_kw.splits compose_kw.splits
      elim!: notE [OF fuelled_advance [OF _ t l], rotated]
      intro!: fuel_intros weak_intros f shrinks_weak [OF w] shared_flag_ok loop_body.many_until_ok loop_body.intro w)

lemma parse_expr_shrinks: "shrinks (parse_expr n)"
proof (induction n)
  case (Suc n)
  have less: "length (advance ts) < length ts" if "peek_kind ts \<noteq> TkEof" for ts using advance_less [OF that] by simp
  have "length ts' < length ts" if "parse_expr (Suc n) ts = Parsed e ts'" for ts e ts'
  proof (cases "peek_kind ts = TkEof")
    case False
    note st = expr_step_shrinks [OF shrinks_weak [OF Suc] False] atomic_step_shrinks [OF shrinks_weak [OF Suc] False]
    show ?thesis using that less [OF False]
      by (cases "peek_kind ts") (auto dest: st weakD [OF parse_field_ok(1)])
  qed (use that in simp)
  then show ?case by (rule shrinksI)
qed (simp add: shrinks_def)

lemma parse_expr_fuelled: "k < n \<Longrightarrow> fuelled k (parse_expr n)"
proof (induction n arbitrary: k)
  case (Suc n)
  have "parse_expr (Suc n) ts \<noteq> OutOfFuel" if "length ts \<le> k" for ts
  proof (cases "peek_kind ts = TkEof")
    case False
    then have n: "0 < n" using advance_less [OF False] that Suc.prems by linarith
    then have f: "fuelled (n - 1) (parse_expr n)" by (intro Suc.IH) simp
    have l: "length ts \<le> Suc (n - 1)" using n that Suc.prems by simp
    note st = expr_step_fuelled [OF parse_expr_shrinks f False l]
    have fld: "parse_field x us \<noteq> OutOfFuel" for x us by (rule fuelledD [OF parse_field_ok(2) order_refl])
    show ?thesis using n fld by (cases "peek_kind ts") (simp_all add: st)
  qed simp
  then show ?case by (rule fuelledI)
qed simp

interpretation expr_body: loop_body "parse_expr (Suc k)" k for k
  by unfold_locales (rule parse_expr_shrinks, rule parse_expr_fuelled, simp)

lemmas weak_expr [weak_intros] = parse_expr_shrinks [THEN shrinks_weak]

section \<open>Statements\<close>

lemma weak_node [weak_intros]: "weak (mk_node sp k)"
  by (auto simp: mk_node_def)

lemma fuelled_node [fuel_intros]: "fuelled l (mk_node sp k)"
  unfolding mk_node_def by (rule fuel_intros)

lemma fuelled_expr: "fuelled k (parse_expr (Suc k))"
  by (rule parse_expr_fuelled) simp

declare parse_expr.simps [simp del]

lemma fuelled_comma: "fuelled k (comma_identifiers (Suc k))"
  by (rule comma_identifiers_ok) simp

lemma parse_outputs_ok: "weak (parse_outputs n)" "fuelled k (parse_outputs (Suc k))"
proof -
  have w: "weak (bind_p expect_identifier (\<lambda>s. bind_p (comma_identifiers n) (\<lambda>ss. return_p (s # ss))))" for n
    by (intro weak_intros comma_identifiers_ok)
  show "weak (parse_outputs n)" unfolding parse_outputs_def [abs_def] by (rule weak_if_advance [OF w])
  have "fuelled k (bind_p expect_identifier (\<lambda>s. bind_p (comma_identifiers (Suc k)) (\<lambda>ss. return_p (s # ss))))"
    by (intro fuel_intros weak_intros fuelled_comma comma_identifiers_ok)
  from fuelledD [OF this] show "fuelled k (parse_outputs (Suc k))"
    unfolding parse_outputs_def [abs_def] using advance_le by (intro fuelledI) (auto dest: order_trans)
qed

lemma weak_end_scope: "weak (\<lambda>ts. Parsed x (if c ts then advance ts else ts))"
  using advance_le by (auto simp: weak_def)

lemma fuelled_pure: "fuelled k (\<lambda>ts. Parsed x (h ts))"
  by (simp add: fuelled_def)

lemma skip_after_advance_le: "length (skip_newlines (advance ts)) \<le> length ts"
  using skip_newlines_le [of "advance ts"] advance_le [of ts] by linarith

lemma weak_wait_targets [weak_intros]: "weak (parse_wait_targets sp targets)"
proof (rule weakI)
  have w: "weak (then_p advance (bind_p many_identifiers (\<lambda>hs. mk_node sp (WaitAny a b hs))))"
    "weak (then_p advance (bind_p identifiers1 (\<lambda>hs. mk_node sp (WaitAll targets hs))))"
    "weak (then_p advance (fail_p WaitAnyTargets) :: node parser)" for a b
    by (intro weak_intros advance_le)+
  show "length ts' \<le> length ts" if "parse_wait_targets sp targets ts = Parsed x ts'" for ts x ts'
    using that weakD [OF w(1)] weakD [OF w(2)] weakD [OF w(3)]
    by (auto simp: parse_wait_targets_def split: token_kind.splits concurrency_kw.splits list.splits)
qed

lemma fuelled_wait_targets [fuel_intros]: "fuelled k (parse_wait_targets sp targets)"
proof (rule fuelledI)
  have f: "fuelled l (then_p advance (bind_p many_identifiers (\<lambda>hs. mk_node sp (WaitAny a b hs))))"
    "fuelled l (then_p advance (bind_p identifiers1 (\<lambda>hs. mk_node sp (WaitAll targets hs))))"
    "fuelled l (then_p advance (fail_p WaitAnyTargets) :: node parser)" for a b l
    by (intro fuel_intros weak_intros advance_le)+
  show "parse_wait_targets sp targets ts \<noteq> OutOfFuel" for ts
    using fuelledD [OF f(1) order_refl] fuelledD [OF f(2) order_refl] fuelledD [OF f(3) order_refl]
    by (auto simp: parse_wait_targets_def split: token_kind.splits concurrency_kw.splits list.splits)
qed

lemma assignment_ok:
  assumes w: "weak p"
  shows "parse_assignment n p sp name ts = Parsed x ts' \<Longrightarrow> length ts' \<le> length ts"
    and "fuelled k p \<Longrightarrow> k < n \<Longrightarrow> length ts \<le> k \<Longrightarrow> parse_assignment n p sp name ts \<noteq> OutOfFuel"
proof -
  let ?wait = "then_p advance (bind_p identifiers1 (\<lambda>hs. mk_node sp (WaitAll [name] hs)))"
  let ?asg = "bind_p p (\<lambda>e. mk_node sp (Assignment name e))"
  let ?list = "bind_p (comma_identifiers n) (\<lambda>targets. bind_p (expect (TkPunct PEquals)) (\<lambda>_. parse_wait_targets sp (name # targets)))"
  have ws: "weak ?wait" "weak ?asg" "weak ?list" by (intro weak_intros w advance_le comma_identifiers_ok)+
  show "parse_assignment n p sp name ts = Parsed x ts' \<Longrightarrow> length ts' \<le> length ts"
    using weakD [OF ws(1), of "advance ts"] weakD [OF ws(2), of "advance ts"] weakD [OF ws(3), of ts] advance_le [of ts]
    by (fastforce simp: parse_assignment_def Let_def split: token_kind.splits punct.splits if_splits)
  assume f: "fuelled k p" and k: "k < n" "length ts \<le> k"
  have fs: "fuelled k ?wait" "fuelled k ?asg" "fuelled k ?list"
    by (intro fuel_intros weak_intros w f advance_le comma_identifiers_ok k)+
  have "length (advance ts) \<le> k" using advance_le [of ts] k(2) by simp
  then show "parse_assignment n p sp name ts \<noteq> OutOfFuel"
    using fuelledD [OF fs(1)] fuelledD [OF fs(2)] fuelledD [OF fs(3)] k(2)
    by (auto simp: parse_assignment_def Let_def split: token_kind.splits punct.splits)
qed

lemmas stmt_parser_defs = parse_control_def parse_compose_def parse_memory_stmt_def parse_concurrency_stmt_def parse_scope_def

lemma stmt_shrinks:
  assumes w: "weak p" "weak q" and t: "peek_kind ts \<noteq> TkEof"
  shows "parse_control p sp ck ts = Parsed e ts' \<Longrightarrow> length ts' < length ts"
    "parse_compose n p sp pk ts = Parsed e ts' \<Longrightarrow> length ts' < length ts"
    "parse_memory_stmt p sp mk ts = Parsed e ts' \<Longrightarrow> length ts' < length ts"
    "parse_concurrency_stmt p sp nk ts = Parsed e ts' \<Longrightarrow> length ts' < length ts"
  unfolding stmt_parser_defs
  by (auto split: control_kw.splits compose_kw.splits memory_kw.splits concurrency_kw.splits
      elim!: shrinks_advance [rotated, OF _ t] intro!: weak_intros w parse_outputs_ok)

lemma stmt_fuelled:
  assumes w: "shrinks p" and f: "fuelled k p" and t: "peek_kind ts \<noteq> TkEof" and l: "length ts \<le> Suc k"
  shows "parse_control p sp ck ts \<noteq> OutOfFuel"
    "parse_compose (Suc k) p sp pk ts \<noteq> OutOfFuel"
    "parse_memory_stmt p sp mk ts \<noteq> OutOfFuel"
    "parse_concurrency_stmt p sp nk ts \<noteq> OutOfFuel"
  unfolding stmt_parser_defs
  by (auto split: control_kw.splits compose_kw.splits memory_kw.splits concurrency_kw.splits
      elim!: notE [OF fuelled_advance [OF _ t l], rotated]
      intro!: fuel_intros weak_intros f shrinks_weak [OF w] loop_body.many_until_ok loop_body.intro w parse_outputs_ok)

lemma scope_shrinks:
  assumes "weak p" "peek_kind ts \<noteq> TkEof" "parse_scope n p sp ts = Parsed x ts'"
  shows "length ts' < length ts"
proof -
  have "weak (bind_p (many_until n scope_stop skip_newlines p) (\<lambda>nodes ts.
      Parsed (Node sp (Scope nodes)) (if peek_kind ts = TkStructure KwEndScope then advance ts else ts)))"
    by (intro weak_intros weak_end_scope skip_newlines_le assms(1))
  from weakD [OF this, of "skip_newlines (advance ts)" x ts'] show ?thesis
    using assms(3) advance_less [OF assms(2)] skip_newlines_le [of "advance ts"]
    by (simp add: parse_scope_def then_p_def)
qed

lemma scope_fuelled:
  assumes "shrinks p" "fuelled k p" "peek_kind ts \<noteq> TkEof" "length ts \<le> Suc k"
  shows "parse_scope (Suc k) p sp ts \<noteq> OutOfFuel"
proof -
  have "fuelled k (bind_p (many_until (Suc k) scope_stop skip_newlines p) (\<lambda>nodes ts.
      Parsed (Node sp (Scope nodes)) (if peek_kind ts = TkStructure KwEndScope then advance ts else ts)))"
    by (intro fuel_intros weak_intros skip_newlines_le loop_body.many_until_ok loop_body.intro
        shrinks_weak [OF assms(1)] assms fuelled_pure lessI)
  from fuelledD [OF this, of "skip_newlines (advance ts)"] show ?thesis
    using assms(4) advance_less [OF assms(3)] skip_newlines_le [of "advance ts"]
    by (simp add: parse_scope_def then_p_def)
qed

lemma parse_node_shrinks: "shrinks (parse_node n)"
proof (induction n)
  case (Suc n)
  have "length ts' < length ts0" if "parse_node (Suc n) ts0 = Parsed x ts'" for ts0 x ts'
  proof -
    let ?ts = "skip_indent ts0"
    have "length ts' < length ?ts"
    proof (cases "peek_kind ?ts = TkEof")
      case False
      note st = stmt_shrinks [OF weak_expr weak_expr False] scope_shrinks [OF shrinks_weak [OF Suc] False]
      have "length (advance ?ts) < length ?ts" using advance_less [OF False] by simp
      then show ?thesis using that
        by (cases "peek_kind ?ts") (auto simp: Let_def split: structure_kw.splits dest: st assignment_ok(1) [OF weak_expr])
    qed (use that in simp)
    then show ?thesis using skip_indent_le [of ts0] by simp
  qed
  then show ?case by (rule shrinksI)
qed (simp add: shrinks_def)

lemma parse_node_fuelled: "k < n \<Longrightarrow> fuelled k (parse_node n)"
proof (induction n arbitrary: k)
  case (Suc n)
  have "parse_node (Suc n) ts0 \<noteq> OutOfFuel" if "length ts0 \<le> k" for ts0
  proof -
    let ?ts = "skip_indent ts0"
    have l: "length ?ts \<le> n" using skip_indent_le [of ts0] that Suc.prems by linarith
    show ?thesis
    proof (cases "peek_kind ?ts = TkEof")
      case False
      then obtain m where n: "n = Suc m" using advance_less [OF False] l by (cases n) simp_all
      have a: "length (advance ?ts) \<le> n" using advance_less [OF False] l by simp
      have st: "parse_scope n (parse_node n) sp ?ts \<noteq> OutOfFuel" for sp
        using scope_fuelled [OF parse_node_shrinks [of n] Suc.IH [of m] False] l by (simp add: n del: parse_node.simps)
      have e: "shrinks (parse_expr (Suc n))" "fuelled n (parse_expr (Suc n))"
        by (rule parse_expr_shrinks, rule parse_expr_fuelled) simp
      note st = st stmt_fuelled [OF e False le_SucI [OF l]] assignment_ok(2) [OF weak_expr e(2) lessI a]
      show ?thesis by (cases "peek_kind ?ts") (simp_all add: Let_def st split: structure_kw.split)
    qed (simp add: Let_def)
  qed
  then show ?case by (rule fuelledI)
qed simp

declare parse_node.simps [simp del]

interpretation node_body: loop_body "parse_node (Suc k)" k for k
  by unfold_locales (rule parse_node_shrinks, rule parse_node_fuelled, simp)

lemma implementation_ok [weak_intros, fuel_intros]:
  "weak (parse_implementation n)" "fuelled k (parse_implementation (Suc k))"
  unfolding parse_implementation_def
  by (intro weak_intros skip_newlines_le shrinks_weak [OF parse_node_shrinks])
    (rule node_body.many_until_ok [OF skip_newlines_le lessI])

section \<open>Contracts\<close>

lemma parameter_ok [weak_intros, fuel_intros]: "weak parse_parameter" "fuelled k parse_parameter"
proof -
  let ?f = "\<lambda>name ty. bind_p parse_integer (\<lambda>n. return_p \<lparr>p_name = name, p_typ = ty, p_size = n\<rparr>)"
  have w: "weak (?f name ty)" and f: "fuelled k (?f name ty)" for name ty by (intro weak_intros fuel_intros)+
  have w': "weak (\<lambda>ts. if c ts then Parsed x ts else ?f name ty ts)" for c x name ty
    using weakD [OF w] by (intro weakI) (auto split: if_splits)
  have f': "fuelled k (\<lambda>ts. if c ts then Parsed x ts else ?f name ty ts)" for c x name ty
    using fuelledD [OF f] by (intro fuelledI) auto
  show "weak parse_parameter" "fuelled k parse_parameter"
    unfolding parse_parameter_def by (intro weak_intros fuel_intros w' f')+
qed

text \<open>The arms of the loops: a keyword is taken and a parser runs on what follows it.\<close>

lemma arm_le: "weak p \<Longrightarrow> p (advance ts) = Parsed x ts' \<Longrightarrow> length ts' \<le> length ts"
  "weak p \<Longrightarrow> p (skip_newlines (advance ts)) = Parsed x ts' \<Longrightarrow> length ts' \<le> length ts"
  using advance_le [of ts] skip_after_advance_le [of ts] by (auto dest: weakD)

lemma arm_fuelled:
  assumes "fuelled (n - 1) p" "peek_kind ts \<noteq> TkEof" "length ts \<le> n"
  shows "p (advance ts) \<noteq> OutOfFuel" "p (skip_newlines (advance ts)) \<noteq> OutOfFuel"
  using assms(3) advance_less [OF assms(2)] skip_newlines_le [of "advance ts"]
  by (intro fuelledD [OF assms(1)]; linarith)+

lemma bind_shrinks_fuelled:
  assumes "shrinks p" "fuelled n p" "\<And>x. fuelled (n - 1) (f x)" "length ts \<le> n"
  shows "bind_p p f ts \<noteq> OutOfFuel"
proof -
  have "f x ts' \<noteq> OutOfFuel" if "p ts = Parsed x ts'" for x ts'
    using shrinksD [OF assms(1) that] assms(4) by (intro fuelledD [OF assms(3)]) linarith
  then show ?thesis using fuelledD [OF assms(2,4)] by (auto simp: bind_p_OutOfFuel)
qed

lemma pos_of_token: "peek_kind ts \<noteq> TkEof \<Longrightarrow> length ts \<le> n \<Longrightarrow> n - 1 < n"
  using advance_less [of ts] by simp

lemma refs_tail_ok:
  assumes "weak p"
  shows "weak (\<lambda>ts. if peek_kind ts = TkPunct PAt
      then bind_p expect_hex_string (\<lambda>h. bind_p p (\<lambda>rs. return_p (c h # rs))) (advance ts)
      else bind_p p (\<lambda>rs. return_p (d # rs)) ts)"
    and "fuelled k p \<Longrightarrow> fuelled k (\<lambda>ts. if peek_kind ts = TkPunct PAt
      then bind_p expect_hex_string (\<lambda>h. bind_p p (\<lambda>rs. return_p (c h # rs))) (advance ts)
      else bind_p p (\<lambda>rs. return_p (d # rs)) ts)"
proof -
  let ?a = "bind_p expect_hex_string (\<lambda>h. bind_p p (\<lambda>rs. return_p (c h # rs)))"
  let ?b = "bind_p p (\<lambda>rs. return_p (d # rs))"
  have w: "weak ?a" "weak ?b" by (intro weak_intros assms)+
  show "weak (\<lambda>ts. if peek_kind ts = TkPunct PAt then ?a (advance ts) else ?b ts)"
    by (rule weakI) (auto split: if_splits dest: arm_le(1) [OF w(1)] weakD [OF w(2)])
  assume "fuelled k p"
  then have f: "fuelled k ?a" "fuelled k ?b" by (intro fuel_intros weak_intros assms; assumption)+
  show "fuelled k (\<lambda>ts. if peek_kind ts = TkPunct PAt then ?a (advance ts) else ?b ts)"
  proof (rule fuelledI)
    fix ts :: "token list" assume "length ts \<le> k"
    then show "(if peek_kind ts = TkPunct PAt then ?a (advance ts) else ?b ts) \<noteq> OutOfFuel"
      using fuelledD [OF f(1), of "advance ts"] fuelledD [OF f(2), of ts] advance_le [of ts] by simp
  qed
qed

lemma refs_weak [weak_intros]: "weak (parse_behavior_refs n)"
proof (induction n)
  case (Suc n)
  have w: "weak (bind_p expect_identifier (\<lambda>name ts. if peek_kind ts = TkPunct PAt
      then bind_p expect_hex_string (\<lambda>h. bind_p (parse_behavior_refs n) (\<lambda>rs. return_p (c name h # rs))) (advance ts)
      else bind_p (parse_behavior_refs n) (\<lambda>rs. return_p (d name # rs)) ts))" for c d
    by (intro weak_intros refs_tail_ok Suc)
  show ?case by (rule weakI) (auto split: if_splits dest: weakD [OF w])
qed (simp add: weak_def)

lemma refs_shrink:
  assumes "is_identifier (peek_kind ts)" "parse_behavior_refs n ts = Parsed rs ts'"
  shows "length ts' < length ts"
proof (cases n)
  case (Suc m)
  have w: "shrinks (bind_p expect_identifier (\<lambda>name ts. if peek_kind ts = TkPunct PAt
      then bind_p expect_hex_string (\<lambda>h. bind_p (parse_behavior_refs m) (\<lambda>rs. return_p (c name h # rs))) (advance ts)
      else bind_p (parse_behavior_refs m) (\<lambda>rs. return_p (d name # rs)) ts))" for c d
    by (intro shrinks_bind shrinks_simple refs_tail_ok weak_intros)
  show ?thesis using assms shrinksD [OF w] by (simp add: Suc)
qed (use assms in simp)

lemma refs_fuelled: "k < n \<Longrightarrow> fuelled k (parse_behavior_refs n)"
proof (induction n arbitrary: k)
  case (Suc n)
  have "parse_behavior_refs (Suc n) ts \<noteq> OutOfFuel" if l: "length ts \<le> n" for ts
  proof (cases "is_identifier (peek_kind ts)")
    case True
    then have "peek_kind ts \<noteq> TkEof" by (auto simp: is_identifier_def)
    then have "n - 1 < n" using l by (rule pos_of_token)
    then have f: "fuelled (n - 1) (parse_behavior_refs n)" by (rule Suc.IH)
    show ?thesis using True by (simp, intro bind_shrinks_fuelled [OF _ _ _ l] shrinks_simple fuel_intros
        refs_tail_ok weak_intros f)
  qed simp
  then show ?case using Suc.prems by (intro fuelledI) simp
qed simp

lemma requires_loop_weak: "weak (parse_requires_loop n reqs)"
proof (induction n arbitrary: reqs)
  case (Suc n)
  have w: "weak (bind_p (parse_behavior_refs (Suc n)) (\<lambda>rs. parse_requires_loop n (c rs)))" for c
    by (intro weak_intros Suc)
  have "length ts' \<le> length ts" if "parse_requires_loop (Suc n) reqs ts = Parsed x ts'" for ts x ts'
    using that weakD [OF w] skip_newlines_le [of ts]
    by (fastforce simp: Let_def simp del: parse_behavior_refs.simps split: if_splits)
  then show ?case by (rule weakI)
qed (simp add: weak_def)

lemma requires_loop_fuelled: "k < n \<Longrightarrow> fuelled k (parse_requires_loop n reqs)"
proof (induction n arbitrary: k reqs)
  case (Suc n)
  have "parse_requires_loop (Suc n) reqs ts0 \<noteq> OutOfFuel" if "length ts0 \<le> n" for ts0
  proof -
    let ?ts = "skip_newlines ts0"
    have l: "length ?ts \<le> n" using skip_newlines_le [of ts0] that by simp
    have r: "parse_behavior_refs (Suc n) ?ts \<noteq> OutOfFuel" by (rule fuelledD [OF refs_fuelled l]) simp
    have "parse_requires_loop n c ts' \<noteq> OutOfFuel"
      if "is_identifier (peek_kind ?ts)" "parse_behavior_refs (Suc n) ?ts = Parsed rs ts'" for c rs ts'
      using refs_shrink [OF that] l by (intro fuelledD [OF Suc.IH, of "length ts'"]) simp_all
    with r show ?thesis by (auto simp: Let_def bind_p_OutOfFuel simp del: parse_behavior_refs.simps)
  qed
  then show ?case using Suc.prems by (intro fuelledI) simp
qed simp

lemma requires_ok [weak_intros, fuel_intros]: "weak (parse_requires n)" "k < n \<Longrightarrow> fuelled k (parse_requires n)"
  unfolding parse_requires_def
  by (intro weak_intros skip_newlines_le requires_loop_weak, intro fuel_intros skip_newlines_le requires_loop_fuelled)

declare parse_requires_loop.simps [simp del] parse_behavior_refs.simps [simp del]

lemma weak_skip: "weak p \<Longrightarrow> p (skip_newlines ts) = Parsed x ts' \<Longrightarrow> length ts' \<le> length ts"
  using skip_newlines_le [of ts] by (auto dest: weakD)

lemma fuelled_skip: "(\<And>ts. length ts \<le> n \<Longrightarrow> q ts \<noteq> OutOfFuel) \<Longrightarrow> length ts \<le> n \<Longrightarrow> q (skip_newlines ts) \<noteq> OutOfFuel"
  using skip_newlines_le [of ts] by simp

text \<open>What a loop does at a line: \<open>parse_contract_loop\<close> on a list without leading newlines.\<close>

lemma contract_loop_weak: "weak (parse_contract_loop n c)"
proof (induction n arbitrary: c)
  case (Suc n)
  have w: "weak (bind_p parse_parameter (\<lambda>p. parse_contract_loop n (f p)))"
    "weak (bind_p (parse_requires (Suc n)) (\<lambda>r. parse_contract_loop n (g r)))" for f g
    by (intro weak_intros Suc)+
  have "length ts' \<le> length (skip_newlines ts)" if "parse_contract_loop (Suc n) c ts = Parsed x ts'" for ts x ts'
  proof -
    have "length us \<le> length (skip_newlines ts)" if "identifiers (advance (skip_newlines ts)) = (ss, us)" for ss us
      using identifiers_le [OF that] advance_le [of "skip_newlines ts"] by simp
    moreover have "length us \<le> length (skip_newlines ts)" if "parse_guarantees (advance (skip_newlines ts)) = (gs, us)" for gs us
      using guarantees_le [OF that] advance_le [of "skip_newlines ts"] by simp
    ultimately show ?thesis using that
      by (cases "peek_kind (skip_newlines ts)")
        (auto simp: Let_def split: structure_kw.splits contract_kw.splits prod.splits
          dest: arm_le [OF w(1)] arm_le [OF w(2)] weakD [OF Suc] intro: order_trans)
  qed
  then show ?case using skip_newlines_le by (intro weakI) (meson order_trans)
qed (simp add: weak_def)

lemma contract_loop_fuelled: "k < n \<Longrightarrow> fuelled k (parse_contract_loop n c)"
proof (induction n arbitrary: k c)
  case (Suc n)
  have "parse_contract_loop (Suc n) c ts0 \<noteq> OutOfFuel" if "length ts0 \<le> n" for ts0
  proof -
    let ?ts = "skip_newlines ts0"
    have l: "length ?ts \<le> n" using skip_newlines_le [of ts0] that by simp
    show ?thesis
    proof (cases "peek_kind ?ts = TkEof")
      case False
      have n: "n - 1 < n" using pos_of_token [OF False l] .
      note ih = Suc.IH [OF n]
      have "fuelled (n - 1) (bind_p parse_parameter (\<lambda>p. parse_contract_loop n (f p)))"
        "fuelled (n - 1) (bind_p (parse_requires (Suc n)) (\<lambda>r. parse_contract_loop n (g r)))" for f g
        using n by (intro fuel_intros weak_intros ih; simp)+
      note arms = arm_fuelled [OF this(1) False l] arm_fuelled [OF this(2) False l]
      have "parse_contract_loop n d us \<noteq> OutOfFuel" if "identifiers (advance ?ts) = (ss, us)" for d ss us
        using identifiers_le [OF that] advance_less [OF False] l by (intro fuelledD [OF ih]) simp
      moreover have "parse_contract_loop n d us \<noteq> OutOfFuel" if "parse_guarantees (advance ?ts) = (gs, us)" for d gs us
        using guarantees_le [OF that] advance_less [OF False] l by (intro fuelledD [OF ih]) simp
      ultimately show ?thesis
        by (cases "peek_kind ?ts") (auto simp: Let_def arms split: structure_kw.split contract_kw.split prod.split)
    qed (simp add: Let_def)
  qed
  then show ?case using Suc.prems by (intro fuelledI) simp
qed simp

lemma contract_ok [weak_intros, fuel_intros]: "weak (parse_contract n)" "k < n \<Longrightarrow> fuelled k (parse_contract n)"
  unfolding parse_contract_def by (rule contract_loop_weak, rule contract_loop_fuelled)

section \<open>Behaviors\<close>

lemma description_scan_le: "description_scan b sp ts = (sp', ts') \<Longrightarrow> length ts' \<le> length ts"
proof (induction ts arbitrary: b sp)
  case (Cons t ts)
  show ?case
  proof (cases "b \<and> description_stop (tk_kind t)")
    case False
    then show ?thesis using Cons.prems by (cases "tk_kind t") (auto intro: le_SucI elim!: Cons.IH [THEN le_SucI])
  qed (use Cons.prems in simp)
qed simp

lemma description_ok [weak_intros, fuel_intros]: "weak (parse_description src)" "fuelled k (parse_description src)"
proof -
  have "length ts' \<le> length ts" if "description_scan True sp (skip_newlines ts) = (sp', ts')" for sp sp' ts ts'
    using description_scan_le [OF that] skip_newlines_le [of ts] by simp
  then show "weak (parse_description src)" "fuelled k (parse_description src)"
    by (auto simp: weak_def fuelled_def parse_description_def Let_def split: prod.splits)
qed

lemma platform_ok [weak_intros, fuel_intros]: "weak parse_platform" "fuelled k parse_platform"
proof -
  let ?p = "bind_p expect_identifier (\<lambda>name. bind_p (expect (TkPunct PRightBracket)) (\<lambda>_. return_p (Some name)))"
  have w: "weak ?p" and f: "fuelled l ?p" for l by (intro weak_intros fuel_intros)+
  show "weak parse_platform" unfolding parse_platform_def [abs_def] by (rule weak_if_advance [OF w])
  show "fuelled k parse_platform" using fuelledD [OF f order_refl] by (simp add: fuelled_def parse_platform_def)
qed

lemma platform_impl_ok [weak_intros, fuel_intros]:
  "weak (parse_platform_impl n)" "k < n \<Longrightarrow> fuelled k (parse_platform_impl n)"
proof -
  show "weak (parse_platform_impl n)"
    unfolding parse_platform_impl_def by (intro weak_intros weak_end_scope skip_newlines_le)
  show "fuelled k (parse_platform_impl n)" if "k < n"
    using that unfolding parse_platform_impl_def
    by (cases n) (auto intro!: fuel_intros weak_intros skip_newlines_le fuelled_pure fuelled_mono [OF implementation_ok(2)])
qed

lemma behavior_loop_weak: "weak (parse_behavior_loop n src b)"
proof (induction n arbitrary: b)
  case (Suc n)
  have w: "weak (bind_p p (\<lambda>x. parse_behavior_loop n src (f x)))" if "weak p" for p :: "'a parser" and f
    by (intro weak_intros Suc that)
  note arms = w [OF description_ok(1), THEN arm_le(1)] w [OF contract_ok(1), THEN arm_le(2)]
    w [OF weak_simple(4), THEN arm_le(1)] w [OF platform_impl_ok(1), THEN arm_le(1)]
    w [OF implementation_ok(1), THEN arm_le(2)]
  have "length ts' \<le> length (skip_newlines ts)" if "parse_behavior_loop (Suc n) src b ts = Parsed x ts'" for ts x ts'
    using that advance_le [of "skip_newlines ts"]
    by (cases "peek_kind (skip_newlines ts)") (auto simp: Let_def split: structure_kw.splits dest: arms)
  then show ?case using skip_newlines_le by (intro weakI) (meson order_trans)
qed (simp add: weak_def)

lemma behavior_loop_fuelled: "k < n \<Longrightarrow> fuelled k (parse_behavior_loop n src b)"
proof (induction n arbitrary: k b)
  case (Suc n)
  have "parse_behavior_loop (Suc n) src b ts0 \<noteq> OutOfFuel" if "length ts0 \<le> n" for ts0
  proof -
    let ?ts = "skip_newlines ts0"
    have l: "length ?ts \<le> n" using skip_newlines_le [of ts0] that by simp
    show ?thesis
    proof (cases "peek_kind ?ts = TkEof")
      case False
      have n: "n - 1 < n" "n - 1 < Suc n" using pos_of_token [OF False l] by simp_all
      have f: "fuelled (n - 1) (bind_p p (\<lambda>x. parse_behavior_loop n src (f x)))" if "fuelled (n - 1) p" "weak p"
        for p :: "'a parser" and f
        by (intro fuel_intros that Suc.IH n)
      note arm = arm_fuelled [OF f False l]
      note arms = arm(1) [OF description_ok(2,1)] arm(2) [OF contract_ok(2) [OF n(2)] contract_ok(1)]
        arm(1) [OF fuelled_simple(5) weak_simple(4)] arm(1) [OF platform_impl_ok(2) [OF n(2)] platform_impl_ok(1)]
        arm(2) [OF fuelled_mono [OF implementation_ok(2) diff_le_self] implementation_ok(1)]
      show ?thesis
        by (cases "peek_kind ?ts") (simp_all add: Let_def arms split: structure_kw.split)
    qed (simp add: Let_def)
  qed
  then show ?case using Suc.prems by (intro fuelledI) simp
qed simp

declare parse_behavior_loop.simps [simp del]

lemma behavior_shrinks: "shrinks (parse_behavior n src)"
proof -
  have "shrinks (bind_p (expect (TkStructure KwBehavior)) (\<lambda>_. bind_p expect_identifier (\<lambda>name.
      then_p skip_newlines (parse_behavior_loop n src (behavior_new name)))))"
    by (intro shrinks_bind shrinks_expect weak_intros skip_newlines_le behavior_loop_weak) simp
  from shrinksD [OF this] show ?thesis
    using skip_newlines_le by (intro shrinksI) (fastforce simp: parse_behavior_def then_p_def intro: less_le_trans)
qed

lemma behavior_fuelled [fuel_intros]: "k < n \<Longrightarrow> fuelled k (parse_behavior n src)"
  unfolding parse_behavior_def by (intro fuel_intros weak_intros skip_newlines_le behavior_loop_fuelled)

section \<open>Patterns, libraries and executables\<close>

lemma memory_decl_shrinks: "shrinks parse_memory_decl"
  unfolding parse_memory_decl_def
  by (intro shrinks_bind shrinks_simple weak_intros) (simp add: weak_def skip_newlines_le)

lemma memory_decl_fuelled: "fuelled k parse_memory_decl"
  unfolding parse_memory_decl_def by (intro fuel_intros weak_intros fuelled_pure)

interpretation memory_decl_body: loop_body parse_memory_decl k for k
  by unfold_locales (rule memory_decl_shrinks, rule memory_decl_fuelled)

lemma node_line_shrinks: "shrinks (parse_node_line n)"
  unfolding parse_node_line_def
  by (intro shrinks_bind parse_node_shrinks) (simp add: weak_def skip_newlines_le)

lemma node_line_fuelled: "k < n \<Longrightarrow> fuelled k (parse_node_line n)"
  unfolding parse_node_line_def
  by (intro fuel_intros fuelled_pure parse_node_fuelled shrinks_weak [OF parse_node_shrinks])

interpretation node_line_body: loop_body "parse_node_line (Suc k)" k for k
  by unfold_locales (rule node_line_shrinks, rule node_line_fuelled, simp)

lemma node_lines_ok:
  "weak (many_until n stop (\<lambda>ts. ts) (parse_node_line m))"
  "fuelled k (many_until (Suc k) stop (\<lambda>ts. ts) (parse_node_line (Suc k)))"
  by (intro weak_intros order_refl shrinks_weak [OF node_line_shrinks])
    (rule node_line_body.many_until_ok [OF order_refl lessI])

lemma memory_decls_ok:
  "weak (many_until n stop (\<lambda>ts. ts) parse_memory_decl)"
  "k < n \<Longrightarrow> fuelled k (many_until n stop (\<lambda>ts. ts) parse_memory_decl)"
  by (intro weak_intros order_refl shrinks_weak [OF memory_decl_shrinks])
    (rule memory_decl_body.many_until_ok [OF order_refl])

lemma pattern_loop_fuelled: "k < n \<Longrightarrow> fuelled k (parse_pattern_loop n src pt)"
proof (induction n arbitrary: k pt)
  case (Suc n)
  have "parse_pattern_loop (Suc n) src pt ts0 \<noteq> OutOfFuel" if "length ts0 \<le> n" for ts0
  proof -
    let ?ts = "skip_newlines ts0"
    have l: "length ?ts \<le> n" using skip_newlines_le [of ts0] that by simp
    show ?thesis
    proof (cases "peek_kind ?ts = TkEof")
      case False
      have n: "n - 1 < n" "n - 1 < Suc n" using pos_of_token [OF False l] by simp_all
      have f: "fuelled (n - 1) (bind_p p (\<lambda>x. parse_pattern_loop n src (f x)))" if "fuelled (n - 1) p" "weak p"
        for p :: "'a parser" and f
        by (intro fuel_intros that Suc.IH n)
      have b: "bind_p (parse_behavior (Suc n) src) (\<lambda>b. parse_pattern_loop n src (g b)) ?ts \<noteq> OutOfFuel" for g
        by (intro bind_shrinks_fuelled [OF behavior_shrinks _ _ l] behavior_fuelled Suc.IH n lessI)
      note arm = arm_fuelled(2) [OF f False l]
      note arms = b arm [OF memory_decls_ok(2) [OF n(2)] memory_decls_ok(1)]
        arm [OF fuelled_mono [OF node_lines_ok(2) diff_le_self] node_lines_ok(1)]
      show ?thesis
        by (cases "peek_kind ?ts") (simp_all add: Let_def arms split: structure_kw.split del: many_until.simps)
    qed (simp add: Let_def)
  qed
  then show ?case using Suc.prems by (intro fuelledI) simp
qed simp

lemma library_loop_fuelled: "k < n \<Longrightarrow> fuelled k (parse_library_loop n src lib)"
proof (induction n arbitrary: k lib)
  case (Suc n)
  have "parse_library_loop (Suc n) src lib ts0 \<noteq> OutOfFuel" if "length ts0 \<le> n" for ts0
  proof -
    let ?ts = "skip_newlines ts0"
    have l: "length ?ts \<le> n" using skip_newlines_le [of ts0] that by simp
    show ?thesis
    proof (cases "peek_kind ?ts = TkEof")
      case False
      have n: "n - 1 < n" using pos_of_token [OF False l] .
      have b: "bind_p (parse_behavior (Suc n) src) (\<lambda>b. parse_library_loop n src (g b)) ?ts \<noteq> OutOfFuel" for g
        by (intro bind_shrinks_fuelled [OF behavior_shrinks _ _ l] behavior_fuelled Suc.IH n lessI)
      show ?thesis by (cases "peek_kind ?ts") (simp_all add: Let_def b split: structure_kw.split)
    qed (simp add: Let_def)
  qed
  then show ?case using Suc.prems by (intro fuelledI) simp
qed simp

lemma uses_ok [weak_intros, fuel_intros]: "weak parse_uses" "fuelled k parse_uses"
proof -
  have e: "weak (if ext \<noteq> ''pattern'' then fail_p (ExpectedPatternExtension ext) else return_p p)"
    "fuelled l (if ext \<noteq> ''pattern'' then fail_p (ExpectedPatternExtension ext) else return_p p)" for ext p l
    by (simp_all add: weak_intros fuel_intros)
  show "weak parse_uses" "fuelled k parse_uses" unfolding parse_uses_def by (intro weak_intros fuel_intros e)+
qed

lemma executable_loop_fuelled: "k < n \<Longrightarrow> fuelled k (parse_executable_loop n src x)"
proof (induction n arbitrary: k x)
  case (Suc n)
  have "parse_executable_loop (Suc n) src x ts0 \<noteq> OutOfFuel" if "length ts0 \<le> n" for ts0
  proof -
    let ?ts = "skip_newlines ts0"
    have l: "length ?ts \<le> n" using skip_newlines_le [of ts0] that by simp
    show ?thesis
    proof (cases "peek_kind ?ts = TkEof")
      case False
      have n: "n - 1 < n" using pos_of_token [OF False l] .
      have f: "fuelled (n - 1) (bind_p p (\<lambda>x. parse_executable_loop n src (f x)))" if "fuelled (n - 1) p" "weak p"
        for p :: "'a parser" and f
        by (intro fuel_intros that Suc.IH n)
      note arm = arm_fuelled [OF f False l]
      note arms = arm(1) [OF description_ok(2,1)] arm(1) [OF uses_ok(2,1)]
        arm(2) [OF fuelled_mono [OF node_lines_ok(2) diff_le_self] node_lines_ok(1)]
      show ?thesis
        by (cases "peek_kind ?ts") (simp_all add: Let_def arms split: structure_kw.split del: many_until.simps)
    qed (simp add: Let_def)
  qed
  then show ?case using Suc.prems by (intro fuelledI) simp
qed simp

text \<open>
  C19. Parsing ends on every input: for every token list, the four public entry points of the
  parser return a value or an error, and never exhaust the fuel of one unit more than there are
  tokens, so the loops and the recursion of \<^verbatim>\<open>parser.rs\<close> terminate, also on lists
  that have no end-of-file token or that stop in the middle of a construct.
\<close>

theorem parse_total:
  "parse tokens src \<noteq> OutOfFuel \<and> parse_pattern_file tokens src \<noteq> OutOfFuel
   \<and> parse_library_file tokens src \<noteq> OutOfFuel \<and> parse_executable_file tokens src \<noteq> OutOfFuel"
proof -
  let ?n = "Suc (length tokens)"
  have "fuelled (length tokens) (parse_behavior ?n src)" "fuelled (length tokens) (parse_pattern ?n src)"
    "fuelled (length tokens) (parse_library ?n src)" "fuelled (length tokens) (parse_executable ?n src)"
    unfolding parse_pattern_def parse_library_def parse_executable_def
    by (intro fuel_intros weak_intros skip_newlines_le pattern_loop_fuelled library_loop_fuelled
        executable_loop_fuelled lessI)+
  from this [THEN fuelledD, OF order_refl] show ?thesis
    by (simp add: parse_def parse_pattern_file_def parse_library_file_def parse_executable_file_def parse_fuel_def)
qed

end
