(* ===== verification/Sigil_Parser_Expr.thy ===== *)
theory Sigil_Parser_Expr
  imports Sigil_Parser_Total
begin

text \<open>
  The expression grammar and its parser. \<open>unparse\<close> writes an expression as the token kinds the
  grammar has for it, and \<open>expr_ok\<close> says which token may follow it: since the grammar has no
  brackets, a variable may not be followed by a dot, a load without offset by something that could
  be its offset, and a call only by the end of its line. The parser accepts exactly these.
\<close>

named_theorems exact_simps \<open>one parser step as a condition on the tokens read\<close>

section \<open>Reading tokens\<close>

definition reads :: "token list \<Rightarrow> token_kind list \<Rightarrow> token list \<Rightarrow> bool" where
  "reads ts ks ts' \<longleftrightarrow> map tk_kind ts = ks @ map tk_kind ts' \<and> drop (length ks) ts = ts'"

lemma reads_iff: "reads ts ks ts' \<longleftrightarrow> (\<exists>toks. ts = toks @ ts' \<and> map tk_kind toks = ks)"
proof
  assume r: "reads ts ks ts'"
  then have "ts = take (length ks) ts @ ts'" "map tk_kind (take (length ks) ts) = ks"
    by (auto simp: reads_def take_map [symmetric])
  then show "\<exists>toks. ts = toks @ ts' \<and> map tk_kind toks = ks" by blast
qed (auto simp: reads_def)

lemma reads_Nil [simp]: "reads ts [] ts' \<longleftrightarrow> ts = ts'"
  by (auto simp: reads_iff)

lemma peek_kind_Cons [simp]: "peek_kind (t # ts) = tk_kind t"
  by (simp add: peek_kind_def peek_token_def)

lemma peek_kind_Nil [simp]: "peek_kind [] = TkEof"
  by (simp add: peek_kind_def peek_token_def token_new_def)

lemma reads_Cons: "k \<noteq> TkEof \<Longrightarrow> reads ts (k # ks) ts' \<longleftrightarrow> peek_kind ts = k \<and> reads (advance ts) ks ts'"
  by (cases ts) (auto simp: reads_def advance_def)

lemma reads_append: "reads ts (ks @ ls) ts' \<longleftrightarrow> (\<exists>us. reads ts ks us \<and> reads us ls ts')"
proof
  assume "reads ts (ks @ ls) ts'"
  then obtain toks where t: "ts = toks @ ts'" "map tk_kind toks = ks @ ls" by (auto simp: reads_iff)
  have a: "reads ts ks (drop (length ks) toks @ ts')"
    unfolding reads_iff using t by (intro exI [of _ "take (length ks) toks"]) (auto simp: take_map [symmetric])
  have b: "reads (drop (length ks) toks @ ts') ls ts'" using t by (auto simp: reads_iff drop_map [symmetric])
  from a b show "\<exists>us. reads ts ks us \<and> reads us ls ts'" by blast
qed (auto simp: reads_iff)

lemma reads_le: "reads ts ks ts' \<Longrightarrow> length ts' \<le> length ts"
  by (auto simp: reads_iff)

lemma reads_peek: "reads ts ks ts' \<Longrightarrow> ks \<noteq> [] \<Longrightarrow> peek_kind ts = hd ks"
  by (cases ts) (auto simp: reads_iff Cons_eq_append_conv hd_append)

section \<open>The grammar\<close>

fun unparse :: "expr \<Rightarrow> token_kind list" where
  "unparse (IntLit n) = [TkInteger n]"
| "unparse (FloatLit f) = [TkFloatLit f]"
| "unparse (StringLit s) = [TkStringLit s]"
| "unparse (Var x) = [TkIdentifier x]"
| "unparse (Field b f) = unparse b @ [TkPunct PDot, TkIdentifier f]"
| "unparse (Load s n None) = TkMemoryOp KwLoad # unparse s @ [TkInteger n]"
| "unparse (Load s n (Some off)) = TkMemoryOp KwLoad # unparse s @ TkInteger n # unparse off"
| "unparse (Alloc s t sh) = TkMemoryOp KwAlloc # unparse s @ TkType t # (if sh then [TkConcurrency KwShared] else [])"
| "unparse (IArith k a b n) = TkIArith k # unparse a @ unparse b @ [TkInteger n]"
| "unparse (Ineg a n) = TkIneg # unparse a @ [TkInteger n]"
| "unparse (FArith k a b n) = TkFArith k # unparse a @ unparse b @ [TkInteger n]"
| "unparse (Fneg a n) = TkFneg # unparse a @ [TkInteger n]"
| "unparse (ICmp k a b n) = TkICmp k # unparse a @ unparse b @ [TkInteger n]"
| "unparse (FCmp k a b n) = TkFCmp k # unparse a @ unparse b @ [TkInteger n]"
| "unparse (Bitwise k a b n) = TkBitwise k # unparse a @ unparse b @ [TkInteger n]"
| "unparse (BNot a n) = TkNot # unparse a @ [TkInteger n]"
| "unparse (AtomicLoad a n) = TkAtomic KwAtomicLoad # unparse a @ [TkInteger n]"
| "unparse (AtomicStore a b n) = TkAtomic KwAtomicStore # unparse a @ unparse b @ [TkInteger n]"
| "unparse (Cas a b c n) = TkAtomic KwCas # unparse a @ unparse b @ unparse c @ [TkInteger n]"
| "unparse (AtomicAdd a b n) = TkAtomic KwAtomicAdd # unparse a @ unparse b @ [TkInteger n]"
| "unparse (AtomicSub a b n) = TkAtomic KwAtomicSub # unparse a @ unparse b @ [TkInteger n]"
| "unparse (Ftoi a m n) = TkConvert KwFtoi # unparse a @ [TkInteger m, TkInteger n]"
| "unparse (Itof a m n) = TkConvert KwItof # unparse a @ [TkInteger m, TkInteger n]"
| "unparse (Call f es) = TkCompose KwCall # TkIdentifier f # concat (map unparse es)"
| "unparse (Channel t c) = TkConcurrency KwChannel # TkType t # unparse c"
| "unparse (ChannelReceive c) = [TkConcurrency KwChannelReceive, TkIdentifier c]"
| "unparse (Spawn f es) = TkConcurrency KwSpawn # TkIdentifier f # concat (map unparse es)"
| "unparse (Wait h) = [TkConcurrency KwWait, TkIdentifier h]"

text \<open>The kind of the first token of an expression, and of a list of arguments before \<open>k\<close>.\<close>

definition starts :: "expr \<Rightarrow> token_kind" where
  "starts e = hd (unparse e)"

definition args_start :: "token_kind \<Rightarrow> expr list \<Rightarrow> token_kind" where
  "args_start k es = (case es of [] \<Rightarrow> k | e # _ \<Rightarrow> starts e)"

definition is_var :: "expr \<Rightarrow> bool" where
  "is_var e \<longleftrightarrow> (case e of Var _ \<Rightarrow> True | _ \<Rightarrow> False)"

fun expr_ok :: "token_kind \<Rightarrow> expr \<Rightarrow> bool" and args_ok :: "token_kind \<Rightarrow> expr list \<Rightarrow> bool" where
  "expr_ok k (IntLit n) \<longleftrightarrow> True"
| "expr_ok k (FloatLit f) \<longleftrightarrow> True"
| "expr_ok k (StringLit s) \<longleftrightarrow> True"
| "expr_ok k (Var x) \<longleftrightarrow> k \<noteq> TkPunct PDot"
| "expr_ok k (Field b f) \<longleftrightarrow> is_var b"
| "expr_ok k (Load s n None) \<longleftrightarrow> expr_ok (TkInteger n) s \<and> \<not> offset_follows k"
| "expr_ok k (Load s n (Some off)) \<longleftrightarrow> expr_ok (TkInteger n) s \<and> offset_follows (starts off) \<and> expr_ok k off"
| "expr_ok k (Alloc s t sh) \<longleftrightarrow> expr_ok (TkType t) s \<and> (sh \<or> k \<noteq> TkConcurrency KwShared)"
| "expr_ok k (IArith op a b n) \<longleftrightarrow> expr_ok (starts b) a \<and> expr_ok (TkInteger n) b"
| "expr_ok k (Ineg a n) \<longleftrightarrow> expr_ok (TkInteger n) a"
| "expr_ok k (FArith op a b n) \<longleftrightarrow> expr_ok (starts b) a \<and> expr_ok (TkInteger n) b"
| "expr_ok k (Fneg a n) \<longleftrightarrow> expr_ok (TkInteger n) a"
| "expr_ok k (ICmp op a b n) \<longleftrightarrow> expr_ok (starts b) a \<and> expr_ok (TkInteger n) b"
| "expr_ok k (FCmp op a b n) \<longleftrightarrow> expr_ok (starts b) a \<and> expr_ok (TkInteger n) b"
| "expr_ok k (Bitwise op a b n) \<longleftrightarrow> expr_ok (starts b) a \<and> expr_ok (TkInteger n) b"
| "expr_ok k (BNot a n) \<longleftrightarrow> expr_ok (TkInteger n) a"
| "expr_ok k (AtomicLoad a n) \<longleftrightarrow> expr_ok (TkInteger n) a"
| "expr_ok k (AtomicStore a b n) \<longleftrightarrow> expr_ok (starts b) a \<and> expr_ok (TkInteger n) b"
| "expr_ok k (Cas a b c n) \<longleftrightarrow> expr_ok (starts b) a \<and> expr_ok (starts c) b \<and> expr_ok (TkInteger n) c"
| "expr_ok k (AtomicAdd a b n) \<longleftrightarrow> expr_ok (starts b) a \<and> expr_ok (TkInteger n) b"
| "expr_ok k (AtomicSub a b n) \<longleftrightarrow> expr_ok (starts b) a \<and> expr_ok (TkInteger n) b"
| "expr_ok k (Ftoi a m n) \<longleftrightarrow> expr_ok (TkInteger m) a"
| "expr_ok k (Itof a m n) \<longleftrightarrow> expr_ok (TkInteger m) a"
| "expr_ok k (Call f es) \<longleftrightarrow> call_stop k \<and> args_ok k es"
| "expr_ok k (Channel t c) \<longleftrightarrow> expr_ok k c"
| "expr_ok k (ChannelReceive c) \<longleftrightarrow> True"
| "expr_ok k (Spawn f es) \<longleftrightarrow> spawn_stop k \<and> args_ok k es"
| "expr_ok k (Wait h) \<longleftrightarrow> True"
| "args_ok k [] \<longleftrightarrow> True"
| "args_ok k (e # es) \<longleftrightarrow> expr_ok (args_start k es) e \<and> args_ok k es"

lemma unparse_ne [simp]: "unparse e \<noteq> []"
  by (induction e rule: unparse.induct) auto

lemma Nil_unparse [simp]: "[] \<noteq> unparse e"
  using unparse_ne [of e] by metis

lemma reads_starts: "reads ts (unparse e) ts' \<Longrightarrow> peek_kind ts = starts e"
  by (simp add: starts_def reads_peek)

lemma starts_not_stop: "\<not> call_stop (starts e)" "\<not> spawn_stop (starts e)"
  unfolding call_stop_def spawn_stop_def starts_def
  by (induction e rule: unparse.induct) (auto simp: hd_append)

section \<open>One step of each parser\<close>

definition exact :: "nat \<Rightarrow> 'a parser \<Rightarrow> ('a \<Rightarrow> token_kind list) \<Rightarrow> (token_kind \<Rightarrow> 'a \<Rightarrow> bool) \<Rightarrow> bool" where
  "exact n p g ok \<longleftrightarrow>
     (\<forall>ts x ts'. length ts \<le> n \<longrightarrow> (p ts = Parsed x ts' \<longleftrightarrow> reads ts (g x) ts' \<and> ok (peek_kind ts') x))"

lemma exactD: "exact n p g ok \<Longrightarrow> length ts \<le> n \<Longrightarrow> p ts = Parsed x ts' \<longleftrightarrow> reads ts (g x) ts' \<and> ok (peek_kind ts') x"
  by (auto simp: exact_def)

lemma bind_exact:
  "exact n p g ok \<Longrightarrow> length ts \<le> n \<Longrightarrow>
   bind_p p f ts = Parsed y ts'' \<longleftrightarrow>
     (\<exists>x us. length us \<le> n \<and> reads ts (g x) us \<and> ok (peek_kind us) x \<and> f x us = Parsed y ts'')"
  by (auto simp: bind_p_Parsed exactD) (meson order_trans reads_le)

lemma bind_integer [exact_simps]:
  "bind_p parse_integer f ts = Parsed y ts'' \<longleftrightarrow> (\<exists>n. peek_kind ts = TkInteger n \<and> f n (advance ts) = Parsed y ts'')"
  by (auto simp: bind_p_Parsed parse_integer_def split: token_kind.splits)

lemma bind_identifier [exact_simps]:
  "bind_p expect_identifier f ts = Parsed y ts'' \<longleftrightarrow> (\<exists>n. peek_kind ts = TkIdentifier n \<and> f n (advance ts) = Parsed y ts'')"
  by (auto simp: bind_p_Parsed expect_identifier_def split: token_kind.splits)

lemma bind_type [exact_simps]:
  "bind_p parse_type f ts = Parsed y ts'' \<longleftrightarrow> (\<exists>n. peek_kind ts = TkType n \<and> f n (advance ts) = Parsed y ts'')"
  by (auto simp: bind_p_Parsed parse_type_def split: token_kind.splits)

lemmas step_simps = exact_simps then_p_def return_p_def reads_Cons reads_append

lemma advance_bound [simp]: "length ts \<le> n \<Longrightarrow> length (advance ts) \<le> n"
  using advance_le [of ts] by simp

lemma advance_bound_Suc: "length ts \<le> Suc n \<Longrightarrow> peek_kind ts \<noteq> TkEof \<Longrightarrow> length (advance ts) \<le> n"
  using advance_less [of ts] by simp

locale expr_parser =
  fixes p :: "expr parser" and n :: nat
  assumes exact_p: "exact n p unparse expr_ok"
begin

lemmas bind_p_exact = bind_exact [OF exact_p]

lemma operandI:
  assumes "reads ts (unparse x) us" "length ts \<le> n" "expr_ok (peek_kind us) x" "f x us = Parsed y ts''"
  shows "bind_p p f ts = Parsed y ts''"
  unfolding bind_p_exact [OF assms(2)] using assms(1,3,4) order_trans [OF reads_le [OF assms(1)] assms(2)]
  by (intro exI conjI)

lemma operandE:
  assumes "bind_p p f ts = Parsed y ts''" "length ts \<le> n"
  obtains x us where "length us \<le> n" "reads ts (unparse x) us" "expr_ok (peek_kind us) x" "f x us = Parsed y ts''"
  using assms(1) unfolding bind_p_exact [OF assms(2)] by (elim exE conjE)

lemma unary_exact:
  assumes k: "peek_kind ts = k" "k \<noteq> TkEof" and l: "length ts \<le> Suc n"
  shows "parse_unary_op p c ts = Parsed e ts' \<longleftrightarrow>
    (\<exists>a m. e = c a m \<and> reads ts (k # unparse a @ [TkInteger m]) ts' \<and> expr_ok (TkInteger m) a)" (is "?L = ?R")
proof
  have a: "length (advance ts) \<le> n" using advance_bound_Suc [OF l] k by simp
  show ?R if ?L
    using that k a by (auto simp: parse_unary_op_def step_simps elim!: operandE)
      ((rule exI conjI refl | assumption)+)
  show ?L if ?R
    using that k a by (auto simp: parse_unary_op_def step_simps intro!: operandI)
qed

lemma binary_exact:
  assumes k: "peek_kind ts = k" "k \<noteq> TkEof" and l: "length ts \<le> Suc n"
  shows "parse_binary_op p c ts = Parsed e ts' \<longleftrightarrow>
    (\<exists>a b m. e = c a b m \<and> reads ts (k # unparse a @ unparse b @ [TkInteger m]) ts'
       \<and> expr_ok (starts b) a \<and> expr_ok (TkInteger m) b)" (is "?L = ?R")
proof
  have a: "length (advance ts) \<le> n" using advance_bound_Suc [OF l] k by simp
  show ?R if ?L
    using that k a by (auto simp: parse_binary_op_def step_simps reads_starts elim!: operandE)
      ((rule exI conjI refl | assumption)+)
  show ?L if ?R
    using that k a by (auto simp: parse_binary_op_def step_simps reads_starts intro!: operandI dest: reads_le)
qed

lemma cas_exact:
  assumes k: "peek_kind ts = TkAtomic KwCas" and l: "length ts \<le> Suc n"
  shows "parse_atomic_expr p KwCas ts = Parsed e ts' \<longleftrightarrow>
    (\<exists>a b c m. e = Cas a b c m \<and> reads ts (unparse (Cas a b c m)) ts' \<and> expr_ok (peek_kind ts') (Cas a b c m))"
    (is "?L = ?R")
proof
  have a: "length (advance ts) \<le> n" using advance_bound_Suc [OF l] k by simp
  show ?R if ?L
    using that k a by (auto simp: parse_atomic_expr_def step_simps reads_starts elim!: operandE)
      ((rule exI conjI refl | assumption)+)
  show ?L if ?R
    using that k a by (auto simp: parse_atomic_expr_def step_simps reads_starts intro!: operandI dest: reads_le)
      (meson order_trans reads_le)
qed

lemma convert_exact:
  assumes k: "peek_kind ts = TkConvert k" and l: "length ts \<le> Suc n"
  shows "parse_convert_expr p k ts = Parsed e ts' \<longleftrightarrow>
    (\<exists>a i m. e = (case k of KwFtoi \<Rightarrow> Ftoi a i m | KwItof \<Rightarrow> Itof a i m)
      \<and> reads ts (TkConvert k # unparse a @ [TkInteger i, TkInteger m]) ts' \<and> expr_ok (TkInteger i) a)" (is "?L = ?R")
proof
  have a: "length (advance ts) \<le> n" using advance_bound_Suc [OF l] k by simp
  show ?R if ?L
    using that k a by (auto simp: parse_convert_expr_def step_simps elim!: operandE)
      ((rule exI conjI refl | assumption)+)
  show ?L if ?R
    using that k a by (auto simp: parse_convert_expr_def step_simps intro!: operandI)
qed

lemma load_exact:
  assumes k: "peek_kind ts = TkMemoryOp KwLoad" and l: "length ts \<le> Suc n"
  shows "parse_memory_expr p KwLoad ts = Parsed e ts' \<longleftrightarrow>
    (\<exists>a m off. e = Load a m off \<and> reads ts (unparse (Load a m off)) ts' \<and> expr_ok (peek_kind ts') (Load a m off))"
    (is "?L = ?R")
proof
  have a: "length (advance ts) \<le> n" using advance_bound_Suc [OF l] k by simp
  show ?R if ?L
  proof -
    from that a obtain x us m where 1: "length us \<le> n" "reads (advance ts) (unparse x) us" "expr_ok (TkInteger m) x"
      "peek_kind us = TkInteger m" and
      off: "bind_p (parse_offset p) (\<lambda>offset. return_p (Load x m offset)) (advance us) = Parsed e ts'"
      by (auto simp: parse_memory_expr_def step_simps elim!: operandE)
    show ?R
    proof (cases "offset_follows (peek_kind (advance us))")
      case True
      with off obtain o' where "bind_p p (\<lambda>z. return_p (Some z)) (advance us) = Parsed (Some o') ts'" "e = Load x m (Some o')"
        by (auto simp: bind_p_Parsed return_p_def parse_offset_def)
      with 1 k True show ?thesis
        by (intro exI [of _ x] exI [of _ m] exI [of _ "Some o'"])
          (auto simp: step_simps reads_starts intro!: exI [of _ us] elim!: operandE)
    next
      case False
      with off 1 k show ?thesis
        by (intro exI [of _ x] exI [of _ m] exI [of _ None])
          (auto simp: parse_offset_def bind_p_def step_simps intro!: exI [of _ us])
    qed
  qed
  show ?L if ?R
  proof -
    from that obtain x m off where e: "e = Load x m off" and r: "reads ts (unparse (Load x m off)) ts'"
      "expr_ok (peek_kind ts') (Load x m off)" by blast
    show ?L
    proof (cases off)
      case None
      with r k a show ?thesis
        by (auto simp: e parse_memory_expr_def parse_offset_def step_simps bind_p_def [of "parse_offset p"] intro!: operandI)
    next
      case (Some o')
      have "bind_p p (\<lambda>z. return_p (Some z)) us = Parsed (Some o') ts'"
        if "reads us (unparse o') ts'" "length us \<le> n" "expr_ok (peek_kind ts') o'" for us
        by (rule operandI [OF that]) (simp add: return_p_def)
      with Some r k a show ?thesis
        by (auto simp: e parse_memory_expr_def parse_offset_def step_simps reads_starts bind_p_def [of "parse_offset p"]
            intro!: operandI dest: reads_le)
    qed
  qed
qed

lemma alloc_exact:
  assumes k: "peek_kind ts = TkMemoryOp KwAlloc" and l: "length ts \<le> Suc n"
  shows "parse_memory_expr p KwAlloc ts = Parsed e ts' \<longleftrightarrow>
    (\<exists>a t sh. e = Alloc a t sh \<and> reads ts (unparse (Alloc a t sh)) ts' \<and> expr_ok (peek_kind ts') (Alloc a t sh))"
    (is "?L = ?R")
proof
  have a: "length (advance ts) \<le> n" using advance_bound_Suc [OF l] k by simp
  show ?R if ?L
  proof -
    from that a obtain x us t where "length us \<le> n" "reads (advance ts) (unparse x) us" "expr_ok (TkType t) x"
      "peek_kind us = TkType t" "e = Alloc x t (peek_kind (advance us) = TkConcurrency KwShared)"
      "ts' = (if peek_kind (advance us) = TkConcurrency KwShared then advance (advance us) else advance us)"
      by (auto simp: parse_memory_expr_def step_simps elim!: operandE split: if_splits)
    with k show ?R
      by (intro exI [of _ x] exI [of _ t] exI [of _ "peek_kind (advance us) = TkConcurrency KwShared"])
        (auto simp: step_simps)
  qed
  show ?L if ?R
  proof -
    from that obtain x t sh where e: "e = Alloc x t sh" and r: "reads ts (unparse (Alloc x t sh)) ts'"
      "expr_ok (peek_kind ts') (Alloc x t sh)" by blast
    from r k a show ?L
      by (cases sh) (auto simp: e parse_memory_expr_def step_simps intro!: operandI)
  qed
qed

lemma channel_exact:
  assumes k: "peek_kind ts = TkConcurrency KwChannel" and l: "length ts \<le> Suc n"
  shows "parse_concurrency_expr m p KwChannel ts = Parsed e ts' \<longleftrightarrow>
    (\<exists>t c. e = Channel t c \<and> reads ts (unparse (Channel t c)) ts' \<and> expr_ok (peek_kind ts') (Channel t c))"
    (is "?L = ?R")
proof
  have a: "length (advance ts) \<le> n" using advance_bound_Suc [OF l] k by simp
  show ?R if ?L
    using that k a by (auto simp: parse_concurrency_expr_def step_simps elim!: operandE)
  show ?L if ?R
    using that k a by (auto simp: parse_concurrency_expr_def step_simps intro!: operandI)
qed

lemma args_exact:
  assumes st: "\<And>e. \<not> stop (starts e)"
  shows "length ts \<le> n \<Longrightarrow> length ts < m \<Longrightarrow> many_until m stop (\<lambda>ts. ts) p ts = Parsed es ts' \<longleftrightarrow>
    reads ts (concat (map unparse es)) ts' \<and> args_ok (peek_kind ts') es \<and> stop (peek_kind ts')"
proof (induction m arbitrary: ts es)
  case (Suc m)
  have ih: "many_until m stop (\<lambda>ts. ts) p us = Parsed xs ts' \<longleftrightarrow>
    reads us (concat (map unparse xs)) ts' \<and> args_ok (peek_kind ts') xs \<and> stop (peek_kind ts')"
    if "reads ts (unparse x) us" for x xs us
  proof (rule Suc.IH)
    from that have "length us < length ts" using unparse_ne [of x] by (cases "unparse x") (auto simp: reads_iff)
    then show "length us \<le> n" "length us < m" using Suc.prems by simp_all
  qed
  have start: "peek_kind us = args_start (peek_kind ts') xs" if "reads us (concat (map unparse xs)) ts'" for us xs
    using that by (cases xs) (auto simp: args_start_def reads_append dest: reads_starts)
  show ?case
  proof (cases "stop (peek_kind ts)")
    case True
    then show ?thesis using st by (cases es) (auto simp: reads_append dest: reads_starts)
  next
    case False
    then have "many_until (Suc m) stop (\<lambda>ts. ts) p ts = Parsed es ts' \<longleftrightarrow>
      (\<exists>x us xs. p ts = Parsed x us \<and> many_until m stop (\<lambda>ts. ts) p us = Parsed xs ts' \<and> es = x # xs)"
      by (auto simp: Let_def bind_p_Parsed return_p_def)
    also have "\<dots> \<longleftrightarrow> (\<exists>x us xs. reads ts (unparse x) us \<and> expr_ok (peek_kind us) x
      \<and> reads us (concat (map unparse xs)) ts' \<and> args_ok (peek_kind ts') xs \<and> stop (peek_kind ts') \<and> es = x # xs)"
      using exactD [OF exact_p Suc.prems(1)] ih by (metis (no_types, lifting))
    also have "\<dots> \<longleftrightarrow> reads ts (concat (map unparse es)) ts' \<and> args_ok (peek_kind ts') es \<and> stop (peek_kind ts')"
      using False start by (cases es) (auto simp: reads_append)
    finally show ?thesis .
  qed
qed simp

lemma call_exact:
  assumes k: "peek_kind ts = TkCompose KwCall" and l: "length ts \<le> Suc n" "n < m"
  shows "parse_call_expr m p KwCall ts = Parsed e ts' \<longleftrightarrow>
    (\<exists>f es. e = Call f es \<and> reads ts (unparse (Call f es)) ts' \<and> expr_ok (peek_kind ts') (Call f es))"
proof -
  have a: "length (advance (advance ts)) \<le> n" using advance_bound_Suc [OF l(1)] k by simp
  note args = args_exact [of call_stop, OF starts_not_stop(1) a le_less_trans [OF a l(2)]]
  show ?thesis using k by (auto simp: parse_call_expr_def bind_p_Parsed [of "many_until _ _ _ _"] step_simps args)
qed

lemma spawn_exact:
  assumes k: "peek_kind ts = TkConcurrency KwSpawn" and l: "length ts \<le> Suc n" "n < m"
  shows "parse_concurrency_expr m p KwSpawn ts = Parsed e ts' \<longleftrightarrow>
    (\<exists>f es. e = Spawn f es \<and> reads ts (unparse (Spawn f es)) ts' \<and> expr_ok (peek_kind ts') (Spawn f es))"
proof -
  have a: "length (advance (advance ts)) \<le> n" using advance_bound_Suc [OF l(1)] k by simp
  note args = args_exact [of spawn_stop, OF starts_not_stop(2) a le_less_trans [OF a l(2)]]
  show ?thesis using k by (auto simp: parse_concurrency_expr_def bind_p_Parsed [of "many_until _ _ _ _"] step_simps args)
qed

end

section \<open>The parser is the grammar\<close>

lemma is_var_iff: "is_var e \<longleftrightarrow> (\<exists>x. e = Var x)"
  by (cases e) (simp_all add: is_var_def)

lemma field_exact:
  assumes "peek_kind ts = TkIdentifier x"
  shows "parse_field x (advance ts) = Parsed e ts' \<longleftrightarrow>
    e = Var x \<and> reads ts (unparse (Var x)) ts' \<and> peek_kind ts' \<noteq> TkPunct PDot
    \<or> (\<exists>f. e = Field (Var x) f \<and> reads ts (unparse (Field (Var x) f)) ts')"
  using assms by (auto simp: parse_field_def step_simps)

lemma field_reads:
  "reads ts (unparse (Field b f)) ts' \<and> expr_ok k (Field b f) \<longleftrightarrow>
   (\<exists>x. b = Var x \<and> peek_kind ts = TkIdentifier x \<and> reads ts (unparse (Field (Var x) f)) ts')"
  by (auto simp: is_var_iff step_simps)

lemma atomic_ops:
  "parse_atomic_expr p KwAtomicLoad = parse_unary_op p AtomicLoad"
  "parse_atomic_expr p KwAtomicStore = parse_binary_op p AtomicStore"
  "parse_atomic_expr p KwAtomicAdd = parse_binary_op p AtomicAdd"
  "parse_atomic_expr p KwAtomicSub = parse_binary_op p AtomicSub"
  by (simp_all add: parse_atomic_expr_def)

lemma parse_expr_step:
  assumes ex: "expr_parser (parse_expr n) m" and l: "length ts \<le> Suc m" "m < n"
  shows "parse_expr (Suc n) ts = Parsed e ts' \<longleftrightarrow> reads ts (unparse e) ts' \<and> expr_ok (peek_kind ts') e" (is "?L = ?R")
proof
  note step = expr_parser.cas_exact [OF ex _ l(1)] expr_parser.convert_exact [OF ex _ l(1)]
    expr_parser.load_exact [OF ex _ l(1)] expr_parser.alloc_exact [OF ex _ l(1)]
    expr_parser.channel_exact [OF ex _ l(1)] expr_parser.call_exact [OF ex _ l] expr_parser.spawn_exact [OF ex _ l]
    expr_parser.unary_exact [OF ex _ _ l(1)] expr_parser.binary_exact [OF ex _ _ l(1)] field_exact
  show ?R if ?L
  proof (cases "peek_kind ts")
    case (TkMemoryOp k)
    with that show ?thesis by (cases k) (auto simp: parse_expr.simps step parse_memory_expr_def [of _ KwStore] parse_memory_expr_def [of _ KwFree])
  next
    case (TkAtomic k)
    with that show ?thesis by (cases k) (auto simp: parse_expr.simps step atomic_ops)
  next
    case (TkConvert k)
    with that show ?thesis by (cases k) (auto simp: parse_expr.simps step)
  next
    case (TkCompose k)
    with that show ?thesis by (cases k) (auto simp: parse_expr.simps step parse_call_expr_def [of _ _ KwSet] parse_call_expr_def [of _ _ KwDiscard])
  next
    case (TkConcurrency k)
    show ?thesis
    proof (cases "k = KwSpawn \<or> k = KwChannel")
      case True
      with that TkConcurrency show ?thesis by (auto simp: parse_expr.simps step)
    next
      case False
      with that TkConcurrency show ?thesis
        by (auto simp: parse_expr.simps parse_concurrency_expr_def step_simps split: concurrency_kw.splits)
    qed
  qed (use that in \<open>auto simp: parse_expr.simps step reads_Cons is_var_def\<close>)
  show ?L if ?R
    using that
    by (cases e rule: unparse.cases)
      (auto simp: parse_expr.simps step atomic_ops reads_Cons is_var_iff
        parse_concurrency_expr_def [of _ _ KwWait] parse_concurrency_expr_def [of _ _ KwChannelReceive] step_simps(1-5))
qed

lemma parse_expr_exact_fuel: "length ts < n \<Longrightarrow>
  parse_expr n ts = Parsed e ts' \<longleftrightarrow> reads ts (unparse e) ts' \<and> expr_ok (peek_kind ts') e"
proof (induction n arbitrary: ts e ts')
  case (Suc n)
  show ?case
  proof (cases n)
    case 0
    then have "ts = []" using Suc.prems by simp
    moreover have "\<not> reads [] (unparse e) ts'" using unparse_ne [of e] by (auto simp: reads_iff)
    ultimately show ?thesis by (simp add: parse_expr.simps)
  next
    case (Suc m)
    have "expr_parser (parse_expr n) m"
      by unfold_locales (use Suc.IH Suc in \<open>auto simp: exact_def\<close>)
    then show ?thesis using Suc.prems Suc by (intro parse_expr_step [of n m]) simp_all
  qed
qed simp

interpretation parsed_expr: expr_parser "parse_expr (Suc n)" n for n
  by unfold_locales (simp add: exact_def parse_expr_exact_fuel)

text \<open>
  C17. The expression parser recognises the grammar, no more and no less: it returns \<open>e\<close> and the
  tokens \<open>ts'\<close> exactly when the tokens read are those that the grammar writes for \<open>e\<close> and
  the next token may follow \<open>e\<close>. So printing an expression and parsing it gives it back, no
  two expressions share a spelling in the same place, and every token is accounted for.
\<close>

theorem parse_expr_exact:
  "parse_expr (parse_fuel ts) ts = Parsed e ts' \<longleftrightarrow> reads ts (unparse e) ts' \<and> expr_ok (peek_kind ts') e"
  unfolding parse_fuel_def by (rule exactD [OF parsed_expr.exact_p order_refl])

text \<open>
  Without brackets an operand can take what was meant for its parent: the load has no offset of
  its own, so it takes the second operand of the addition as its offset, and the addition then
  takes its size as that operand and finds no size.
\<close>

lemma load_takes_operand:
  "parse_expr 9 (map (\<lambda>k. token_new k sp) [TkIArith Iadd, TkMemoryOp KwLoad, TkIdentifier ''p'', TkInteger 8,
     TkIdentifier ''q'', TkInteger 8, TkNewline]) = Failed \<lparr>pe_span = sp, pe_failure = ExpectedInteger TkNewline\<rparr>"
  by (simp add: eval_nat_numeral parse_expr.simps parse_binary_op_def parse_memory_expr_def parse_offset_def
      parse_field_def then_p_def bind_p_def return_p_def offset_follows_def parse_integer_def fail_p_def
      advance_def token_new_def current_span_def peek_token_def)

end
