(* ===== verification/Sigil_Files.thy ===== *)
theory Sigil_Files
  imports Sigil_Parser
begin

text \<open>
  Compiler errors (\<^verbatim>\<open>compiler/src/error.rs\<close>) and the part of the driver
  (\<^verbatim>\<open>compiler/src/main.rs\<close>) that works on files: searching the directories for a behavior
  or a pattern, and rewriting the \<^verbatim>\<open>HASH\<close> line of a file.

  The file system is a tree. A directory lists its entries in the order in which
  \<^verbatim>\<open>read_dir\<close> yields them, which the platform decides: results hold for every order. A
  file that cannot be read as text has no content. A path is the list of its components, relative
  to the directory the compiler runs in; the entry \<^verbatim>\<open>/\<close> of that directory stands for the
  root. The empty path, the parent of a bare file name, can be extended but names no directory itself.
\<close>

section \<open>Errors\<close>

datatype compiler_error_kind =
    ELex | EParse | ESemantic | ECodeGen | ELoad | EIo | ECli | ELink

record 'm compiler_error =
  ce_kind :: compiler_error_kind
  ce_span :: "span option"
  ce_message :: 'm

definition ce_lex :: "span \<Rightarrow> 'm \<Rightarrow> 'm compiler_error" where
  "ce_lex sp m = \<lparr>ce_kind = ELex, ce_span = Some sp, ce_message = m\<rparr>"

definition ce_parse :: "span \<Rightarrow> 'm \<Rightarrow> 'm compiler_error" where
  "ce_parse sp m = \<lparr>ce_kind = EParse, ce_span = Some sp, ce_message = m\<rparr>"

definition ce_semantic :: "span option \<Rightarrow> 'm \<Rightarrow> 'm compiler_error" where
  "ce_semantic sp m = \<lparr>ce_kind = ESemantic, ce_span = sp, ce_message = m\<rparr>"

definition ce_load :: "'m \<Rightarrow> 'm compiler_error" where
  "ce_load m = \<lparr>ce_kind = ELoad, ce_span = None, ce_message = m\<rparr>"

definition ce_io :: "'m \<Rightarrow> 'm compiler_error" where
  "ce_io m = \<lparr>ce_kind = EIo, ce_span = None, ce_message = m\<rparr>"

definition ce_codegen :: "'m \<Rightarrow> 'm compiler_error" where
  "ce_codegen m = \<lparr>ce_kind = ECodeGen, ce_span = None, ce_message = m\<rparr>"

definition ce_cli :: "'m \<Rightarrow> 'm compiler_error" where
  "ce_cli m = \<lparr>ce_kind = ECli, ce_span = None, ce_message = m\<rparr>"

definition ce_link :: "'m \<Rightarrow> 'm compiler_error" where
  "ce_link m = \<lparr>ce_kind = ELink, ce_span = None, ce_message = m\<rparr>"

fun error_kind_str :: "compiler_error_kind \<Rightarrow> string" where
  "error_kind_str ELex = ''Lex error''"
| "error_kind_str EParse = ''Parse error''"
| "error_kind_str ESemantic = ''Semantic error''"
| "error_kind_str ECodeGen = ''CodeGen error''"
| "error_kind_str ELoad = ''Load error''"
| "error_kind_str EIo = ''IO error''"
| "error_kind_str ECli = ''CLI error''"
| "error_kind_str ELink = ''Link error''"

definition compiler_error_display :: "string compiler_error \<Rightarrow> string" where
  "compiler_error_display e =
     (case ce_span e of
        Some sp \<Rightarrow> error_kind_str (ce_kind e) @ '' at '' @ nat_to_dec (sp_line sp) @ '':'' @ nat_to_dec (sp_col sp)
                   @ '': '' @ ce_message e
      | None \<Rightarrow> error_kind_str (ce_kind e) @ '': '' @ ce_message e)"

section \<open>The file tree\<close>

type_synonym path = "string list"

datatype fs = FsFile "uchar list option" | FsDir "(string \<times> fs) list"

fun fs_get :: "fs \<Rightarrow> path \<Rightarrow> fs option" where
  "fs_get t [] = Some t"
| "fs_get (FsFile _) (n # p) = None"
| "fs_get (FsDir es) (n # p) = (case map_of es n of None \<Rightarrow> None | Some t \<Rightarrow> fs_get t p)"

definition is_dir :: "fs \<Rightarrow> path \<Rightarrow> bool" where
  "is_dir root p \<longleftrightarrow> (case fs_get root p of Some (FsDir _) \<Rightarrow> True | _ \<Rightarrow> False)"

definition path_exists :: "fs \<Rightarrow> path \<Rightarrow> bool" where
  "path_exists root p \<longleftrightarrow> fs_get root p \<noteq> None"

definition read_to_string :: "fs \<Rightarrow> path \<Rightarrow> uchar list option" where
  "read_to_string root p = (case fs_get root p of Some (FsFile c) \<Rightarrow> c | _ \<Rightarrow> None)"

text \<open>Writing over a file that is there.\<close>

fun fs_write :: "path \<Rightarrow> uchar list \<Rightarrow> fs \<Rightarrow> fs" where
  "fs_write [] c t = (case t of FsFile _ \<Rightarrow> FsFile (Some c) | FsDir es \<Rightarrow> FsDir es)"
| "fs_write (n # p) c (FsFile x) = FsFile x"
| "fs_write (n # p) c (FsDir es) = FsDir (map (\<lambda>(m, t). if m = n then (m, fs_write p c t) else (m, t)) es)"

section \<open>Finding files\<close>

text \<open>\<^verbatim>\<open>find_file_recursive\<close>: a file of that name here, or in a subdirectory.\<close>

fun find_file_recursive :: "string \<Rightarrow> path \<Rightarrow> fs \<Rightarrow> path option"
  and find_in_entries :: "string \<Rightarrow> path \<Rightarrow> (string \<times> fs) list \<Rightarrow> path option" where
  "find_file_recursive filename dir (FsFile _) = None"
| "find_file_recursive filename dir (FsDir es) =
     (if map_of es filename \<noteq> None then Some (dir @ [filename]) else find_in_entries filename dir es)"
| "find_in_entries filename dir [] = None"
| "find_in_entries filename dir ((n, t) # es) =
     (case find_file_recursive filename (dir @ [n]) t of
        Some found \<Rightarrow> Some found
      | None \<Rightarrow> find_in_entries filename dir es)"

definition extension :: "string \<Rightarrow> string option" where
  "extension f =
     (let e = takeWhile (\<lambda>c. c \<noteq> CHR ''.'') (rev f); rest = drop (length e) (rev f)
      in if length rest \<le> 1 then None else Some (rev e))"

definition strip_prefix :: "uchar list \<Rightarrow> uchar list \<Rightarrow> uchar list option" where
  "strip_prefix p s = (if take (length p) s = p then Some (drop (length p) s) else None)"

text \<open>Whether some line of the text is \<^verbatim>\<open>BEHAVIOR <name>\<close>.\<close>

definition declares :: "uchar list \<Rightarrow> string \<Rightarrow> bool" where
  "declares src name \<longleftrightarrow> list_ex (\<lambda>l.
     (case strip_prefix (source_text ''BEHAVIOR '') (trim_text l) of
        Some r \<Rightarrow> trim_text r = source_text name
      | None \<Rightarrow> False)) (source_lines [] src)"

fun find_behavior_by_content :: "string \<Rightarrow> path \<Rightarrow> fs \<Rightarrow> path option"
  and content_in_entries :: "string \<Rightarrow> path \<Rightarrow> (string \<times> fs) list \<Rightarrow> path option" where
  "find_behavior_by_content name dir (FsFile _) = None"
| "find_behavior_by_content name dir (FsDir es) = content_in_entries name dir es"
| "content_in_entries name dir [] = None"
| "content_in_entries name dir ((n, t) # es) =
     (case t of
        FsDir _ \<Rightarrow>
          (case find_behavior_by_content name (dir @ [n]) t of
             Some found \<Rightarrow> Some found
           | None \<Rightarrow> content_in_entries name dir es)
      | FsFile c \<Rightarrow>
          (case c of
             Some src \<Rightarrow>
               if extension n = Some ''beh'' \<and> declares src name then Some (dir @ [n])
               else content_in_entries name dir es
           | None \<Rightarrow> content_in_entries name dir es))"

definition find_at :: "fs \<Rightarrow> string \<Rightarrow> path \<Rightarrow> path option" where
  "find_at root filename p = (case fs_get root p of Some t \<Rightarrow> find_file_recursive filename p t | None \<Rightarrow> None)"

definition content_at :: "fs \<Rightarrow> string \<Rightarrow> path \<Rightarrow> path option" where
  "content_at root name p =
     (if p = [] then None
      else (case fs_get root p of Some t \<Rightarrow> find_behavior_by_content name p t | None \<Rightarrow> None))"

fun first_some :: "('a \<Rightarrow> 'b option) \<Rightarrow> 'a list \<Rightarrow> 'b option" where
  "first_some f [] = None"
| "first_some f (x # xs) = (case f x of Some y \<Rightarrow> Some y | None \<Rightarrow> first_some f xs)"

definition find_behavior_file :: "fs \<Rightarrow> string \<Rightarrow> path \<Rightarrow> path option" where
  "find_behavior_file root name base =
     (let filename = name @ ''.beh'' in
      case find_at root filename (base @ [''units'']) of
        Some found \<Rightarrow> Some found
      | None \<Rightarrow>
          (case find_at root filename (base @ [''behaviors'']) of
             Some found \<Rightarrow> Some found
           | None \<Rightarrow> if path_exists root (base @ [filename]) then Some (base @ [filename]) else None))"

definition find_behavior :: "fs \<Rightarrow> string \<Rightarrow> path list \<Rightarrow> path option" where
  "find_behavior root name search_paths =
     (case first_some (find_behavior_file root name) search_paths of
        Some found \<Rightarrow> Some found
      | None \<Rightarrow> first_some (content_at root name) search_paths)"

definition find_pattern_at :: "fs \<Rightarrow> string \<Rightarrow> path \<Rightarrow> path option" where
  "find_pattern_at root name base =
     (let filename = name @ ''.pattern'' in
      case find_at root filename (base @ [''patterns'']) of
        Some found \<Rightarrow> Some found
      | None \<Rightarrow> if path_exists root (base @ [filename]) then Some (base @ [filename]) else None)"

definition find_pattern :: "fs \<Rightarrow> string \<Rightarrow> path list \<Rightarrow> path option" where
  "find_pattern root name search_paths = first_some (find_pattern_at root name) search_paths"

section \<open>The HASH line\<close>

definition hash_needle :: "uchar list" where
  "hash_needle = source_text ''HASH ''"

fun find_sub :: "uchar list \<Rightarrow> uchar list \<Rightarrow> nat option" where
  "find_sub needle [] = (if needle = [] then Some 0 else None)"
| "find_sub needle (c # cs) =
     (if take (length needle) (c # cs) = needle then Some 0 else map_option Suc (find_sub needle cs))"

lemma find_sub_Some: "find_sub needle s = Some i \<Longrightarrow> i + length needle \<le> length s"
  by (induction s arbitrary: i) (auto split: if_splits dest: arg_cong [of _ _ length])

definition line_end :: "uchar \<Rightarrow> bool" where
  "line_end c \<longleftrightarrow> c = 10 \<or> c = 13"

function rewrite_hash_loop :: "uchar list \<Rightarrow> uchar list \<Rightarrow> nat \<Rightarrow> uchar list" where
  "rewrite_hash_loop source computed search =
     (case find_sub hash_needle (drop search source) of
        None \<Rightarrow> source
      | Some rel \<Rightarrow>
          (let idx = search + rel; val_start = idx + length hash_needle in
           if idx = 0 \<or> source ! (idx - 1) = 10
           then take val_start source @ computed @ dropWhile (\<lambda>c. \<not> line_end c) (drop val_start source)
           else rewrite_hash_loop source computed val_start))"
  by pat_completeness auto

termination
  by (relation "measure (\<lambda>(s, c, n). length s - n)")
    (auto simp: hash_needle_def source_text_def dest!: find_sub_Some)

declare rewrite_hash_loop.simps [simp del]

definition rewrite_hash_line :: "uchar list \<Rightarrow> uchar list \<Rightarrow> uchar list" where
  "rewrite_hash_line source computed = rewrite_hash_loop source computed 0"

subsection \<open>What the rewriting does\<close>

text \<open>The reference: a single pass that replaces the value of the first line that starts with the keyword.\<close>

fun rewrite_first :: "uchar list \<Rightarrow> bool \<Rightarrow> uchar list \<Rightarrow> uchar list" where
  "rewrite_first computed line_start [] = []"
| "rewrite_first computed line_start (c # cs) =
     (if line_start \<and> take 5 (c # cs) = hash_needle
      then hash_needle @ computed @ dropWhile (\<lambda>c. \<not> line_end c) (drop 5 (c # cs))
      else c # rewrite_first computed (c = 10) cs)"

lemma needle_chars: "hash_needle = [72, 65, 83, 72, 32]"
  by code_simp

lemma length_needle [simp]: "length hash_needle = 5"
  by (simp add: needle_chars)

lemma rewrite_first_none: "find_sub hash_needle s = None \<Longrightarrow> rewrite_first h b s = s"
  by (induction s arbitrary: b) (auto split: if_splits)

lemma rewrite_first_skip:
  assumes "take 5 s = hash_needle"
  shows "rewrite_first h False s = hash_needle @ rewrite_first h False (drop 5 s)"
proof -
  have "rewrite_first h False (hash_needle @ t) = hash_needle @ rewrite_first h False t" for t
    by (simp add: needle_chars)
  moreover have "s = hash_needle @ drop 5 s" using append_take_drop_id [of 5 s] assms by simp
  ultimately show ?thesis by metis
qed

definition starts_line :: "uchar list \<Rightarrow> bool \<Rightarrow> nat \<Rightarrow> bool" where
  "starts_line s b i \<longleftrightarrow> (if i = 0 then b else s ! (i - 1) = 10)"

lemma rewrite_first_some:
  "find_sub hash_needle s = Some i \<Longrightarrow> rewrite_first h b s = take i s @
     (if starts_line s b i then hash_needle @ h @ dropWhile (\<lambda>c. \<not> line_end c) (drop (i + 5) s)
      else hash_needle @ rewrite_first h False (drop (i + 5) s))"
proof (induction s arbitrary: b i)
  case (Cons c s)
  show ?case
  proof (cases "take 5 (c # s) = hash_needle")
    case True
    then have "i = 0" using Cons.prems by simp
    then show ?thesis using True rewrite_first_skip [OF True] by (auto simp: starts_line_def simp del: take_Cons_numeral)
  next
    case False
    then obtain j where j: "find_sub hash_needle s = Some j" "i = Suc j" using Cons.prems by auto
    have "starts_line (c # s) b i = starts_line s (c = 10) j" using j(2) by (auto simp: starts_line_def nth_Cons')
    moreover have "drop (i + 5) (c # s) = drop (j + 5) s" unfolding j(2) by (simp only: add_Suc drop_Suc_Cons)
    moreover have "take i (c # s) = c # take j s" using j(2) by simp
    moreover have "rewrite_first h b (c # s) = c # rewrite_first h (c = 10) s" using False by simp
    ultimately show ?thesis using Cons.IH [OF j(1), of "c = 10"] by (simp only: append_Cons)
  qed
qed (simp add: needle_chars)

lemma find_sub_take: "find_sub needle s = Some i \<Longrightarrow> take (length needle) (drop i s) = needle"
  by (induction s arbitrary: i) (auto split: if_splits)

lemma rewrite_loop_first:
  "n \<le> length src \<Longrightarrow> rewrite_hash_loop src h n = take n src @ rewrite_first h (n = 0 \<or> src ! (n - 1) = 10) (drop n src)"
proof (induction src h n rule: rewrite_hash_loop.induct)
  case (1 src h n)
  note unf = rewrite_hash_loop.simps [of src h n]
  show ?case
  proof (cases "find_sub hash_needle (drop n src)")
    case None
    then show ?thesis by (simp add: unf rewrite_first_none)
  next
    case (Some rel)
    let ?i = "n + rel"
    have at: "take 5 (drop ?i src) = hash_needle" using find_sub_take [OF Some] by (simp add: add.commute)
    have len: "?i + 5 \<le> length src" using find_sub_Some [OF Some] "1.prems" by simp
    have tk: "take n src @ take rel (drop n src) = take ?i src" by (simp add: take_add)
    have tk5: "take ?i src @ hash_needle = take (?i + 5) src" using at by (simp add: take_add)
    have app: "take n src @ take rel (drop n src) @ hash_needle @ t = take (?i + 5) src @ t" for t
    proof -
      have "take n src @ take rel (drop n src) @ hash_needle @ t = ((take n src @ take rel (drop n src)) @ hash_needle) @ t"
        by simp
      then show ?thesis unfolding tk tk5 .
    qed
    have sl: "starts_line (drop n src) (n = 0 \<or> src ! (n - 1) = 10) rel \<longleftrightarrow> ?i = 0 \<or> src ! (?i - 1) = 10"
      using len by (auto simp: starts_line_def)
    have dd: "drop (rel + 5) (drop n src) = drop (?i + 5) src" by (simp add: ac_simps)
    have rf: "rewrite_first h (n = 0 \<or> src ! (n - 1) = 10) (drop n src) = take rel (drop n src) @
        (if ?i = 0 \<or> src ! (?i - 1) = 10 then hash_needle @ h @ dropWhile (\<lambda>c. \<not> line_end c) (drop (?i + 5) src)
         else hash_needle @ rewrite_first h False (drop (?i + 5) src))"
      unfolding rewrite_first_some [OF Some] sl dd ..
    show ?thesis
    proof (cases "?i = 0 \<or> src ! (?i - 1) = 10")
      case True
      then show ?thesis unfolding rf using Some app by (simp add: unf Let_def)
    next
      case False
      have "src ! (?i + 5 - 1) = (take 5 (drop ?i src)) ! 4" using len by (simp add: add.commute)
      then have "src ! (?i + 5 - 1) \<noteq> 10" unfolding at by (simp add: needle_chars)
      then have "rewrite_hash_loop src h (?i + 5) = take (?i + 5) src @ rewrite_first h False (drop (?i + 5) src)"
        using "1.IH" [OF Some refl refl] False len by simp
      moreover have "0 < n + rel" using False by simp
      ultimately show ?thesis unfolding rf using Some app False by (auto simp: unf Let_def)
    qed
  qed
qed

text \<open>
  Repairing a hash touches one line: the search of \<^verbatim>\<open>rewrite_hash_line\<close>, which jumps from
  one occurrence of the keyword to the next, has the effect of a single pass that copies the text
  and, at the first line that starts with the keyword, replaces the rest of that line, up to its line
  ending, by the new hash. Keywords inside a line, and text without such a line, stay as they are.
\<close>

theorem rewrite_hash_line_exact: "rewrite_hash_line src h = rewrite_first h True src"
  using rewrite_loop_first [of 0 src h] by (simp add: rewrite_hash_line_def)

end
