(* ===== verification/Sigil_Loader.thy ===== *)
theory Sigil_Loader
  imports Sigil_Files Sigil_Hash
begin

text \<open>
  Loading a program, after \<^verbatim>\<open>compiler/src/main.rs\<close>: parsing a behavior file, with the
  optional repair of its \<^verbatim>\<open>HASH\<close> line, and loading a behavior together with everything it
  requires.

  \<^verbatim>\<open>load_dependencies\<close> recurses along \<^verbatim>\<open>REQUIRES\<close> and has nothing that stops it: a
  behavior counts as loaded only when all it requires is loaded. The model has fuel for the depth
  of that recursion, and \<open>Diverges\<close> is the outcome when it is used up.
\<close>

section \<open>Outcomes and state\<close>

datatype load_message =
    LexMessage string
  | ParseMessage parse_failure
  | ReadFailed path
  | WriteFailed path
  | BehaviorNotFound string
  | PatternNotFound string
  | HashMismatch string string string
  | NotSigil path

type_synonym load_error = "load_message compiler_error"

datatype 'a outcome = Done 'a | Fails load_error | Diverges

type_synonym loaded_behavior = "string \<times> path \<times> behavior \<times> uchar list"

record load_env =
  env_search :: "path list"
  env_library :: "string hset"
  env_fix :: bool
  env_can_write :: "path \<Rightarrow> bool"
  env_hash :: "contract \<Rightarrow> string"

record load_state =
  ls_fs :: fs
  ls_loaded :: "string hset"
  ls_behaviors :: "loaded_behavior list"

section \<open>Parsing a behavior file\<close>

definition parse_source :: "uchar list \<Rightarrow> behavior outcome" where
  "parse_source source =
     (case lex source of
        Inl e \<Rightarrow> Fails (ce_lex (le_span e) (LexMessage (le_message e)))
      | Inr tokens \<Rightarrow>
          (case parse tokens source of
             Parsed b _ \<Rightarrow> Done b
           | Failed e \<Rightarrow> Fails (ce_parse (pe_span e) (ParseMessage (pe_failure e)))
           | OutOfFuel \<Rightarrow> Diverges))"

definition parse_behavior_file :: "load_env \<Rightarrow> path \<Rightarrow> fs \<Rightarrow> (behavior \<times> uchar list) outcome \<times> fs" where
  "parse_behavior_file env p root =
     (case read_to_string root p of
        None \<Rightarrow> (Fails (ce_io (ReadFailed p)), root)
      | Some source \<Rightarrow>
          (case parse_source source of
             Fails e \<Rightarrow> (Fails e, root)
           | Diverges \<Rightarrow> (Diverges, root)
           | Done b \<Rightarrow>
               (let computed = env_hash env (b_contract b) in
                if b_hash b \<noteq> [] \<and> b_hash b \<noteq> computed \<and> env_fix env
                then (let new_source = rewrite_hash_line source (source_text computed) in
                      if \<not> env_can_write env p then (Fails (ce_io (WriteFailed p)), root)
                      else (let root' = fs_write p new_source root in
                            case parse_source new_source of
                              Fails e \<Rightarrow> (Fails e, root')
                            | Diverges \<Rightarrow> (Diverges, root')
                            | Done b' \<Rightarrow> (Done (b', new_source), root')))
                else (Done (b, source), root))))"

section \<open>Loading\<close>

definition required :: "behavior \<Rightarrow> behavior_ref list" where
  "required b = rq_behaviors (c_requires (b_contract b))"

definition mark_loaded :: "string \<Rightarrow> load_state \<Rightarrow> load_state" where
  "mark_loaded name st = st\<lparr>ls_loaded := hs_insert name (ls_loaded st)\<rparr>"

definition push_behavior :: "loaded_behavior \<Rightarrow> load_state \<Rightarrow> load_state" where
  "push_behavior e st = st\<lparr>ls_behaviors := ls_behaviors st @ [e]\<rparr>"

definition hash_mismatch :: "behavior_ref \<Rightarrow> behavior \<Rightarrow> bool" where
  "hash_mismatch req dep \<longleftrightarrow> br_hash req \<noteq> [] \<and> b_hash dep \<noteq> [] \<and> br_hash req \<noteq> b_hash dep"

text \<open>The result of finding and parsing the behavior of a name.\<close>

definition fetch :: "load_env \<Rightarrow> string \<Rightarrow> fs \<Rightarrow> (path \<times> behavior \<times> uchar list) outcome \<times> fs" where
  "fetch env name root =
     (case find_behavior root name (env_search env) of
        None \<Rightarrow> (Fails (ce_load (BehaviorNotFound name)), root)
      | Some p \<Rightarrow>
          (case parse_behavior_file env p root of
             (Fails e, root') \<Rightarrow> (Fails e, root')
           | (Diverges, root') \<Rightarrow> (Diverges, root')
           | (Done (b, src), root') \<Rightarrow> (Done (p, b, src), root')))"

function load_dependencies :: "load_env \<Rightarrow> nat \<Rightarrow> behavior_ref list \<Rightarrow> load_state \<Rightarrow> unit outcome \<times> load_state" where
  "load_dependencies env n [] st = (Done (), st)"
| "load_dependencies env n (req # reqs) st =
     (let name = br_name req in
      if name \<in> set (ls_loaded st) then load_dependencies env n reqs st
      else if name \<in> set (env_library env) then load_dependencies env n reqs (mark_loaded name st)
      else (case fetch env name (ls_fs st) of
          (Fails e, root) \<Rightarrow> (Fails e, st\<lparr>ls_fs := root\<rparr>)
        | (Diverges, root) \<Rightarrow> (Diverges, st\<lparr>ls_fs := root\<rparr>)
        | (Done (p, dep, src), root) \<Rightarrow>
            (let st1 = st\<lparr>ls_fs := root\<rparr> in
             if hash_mismatch req dep
             then (Fails (ce_semantic None (HashMismatch name (br_hash req) (b_hash dep))), st1)
             else (case n of
                 0 \<Rightarrow> (Diverges, st1)
               | Suc m \<Rightarrow>
                   (case load_dependencies env m (required dep) st1 of
                      (Fails e, st2) \<Rightarrow> (Fails e, st2)
                    | (Diverges, st2) \<Rightarrow> (Diverges, st2)
                    | (Done _, st2) \<Rightarrow>
                        load_dependencies env n reqs (push_behavior (name, p, dep, src) (mark_loaded name st2)))))))"
  by pat_completeness auto

termination
  by (relation "inv_image (less_than <*lex*> less_than) (\<lambda>(env, n, reqs, st). (n, length reqs))") auto

declare load_dependencies.simps(2) [simp del]

definition load_behavior_by_name :: "load_env \<Rightarrow> nat \<Rightarrow> string \<Rightarrow> load_state \<Rightarrow> unit outcome \<times> load_state" where
  "load_behavior_by_name env n name st =
     (if name \<in> set (ls_loaded st) then (Done (), st)
      else if name \<in> set (env_library env) then (Done (), mark_loaded name st)
      else (case fetch env name (ls_fs st) of
          (Fails e, root) \<Rightarrow> (Fails e, st\<lparr>ls_fs := root\<rparr>)
        | (Diverges, root) \<Rightarrow> (Diverges, st\<lparr>ls_fs := root\<rparr>)
        | (Done (p, dep, src), root) \<Rightarrow>
            (case load_dependencies env n (required dep) (st\<lparr>ls_fs := root\<rparr>) of
               (Fails e, st2) \<Rightarrow> (Fails e, st2)
             | (Diverges, st2) \<Rightarrow> (Diverges, st2)
             | (Done _, st2) \<Rightarrow> (Done (), push_behavior (name, p, dep, src) (mark_loaded name st2)))))"

fun load_all :: "load_env \<Rightarrow> nat \<Rightarrow> string list \<Rightarrow> load_state \<Rightarrow> unit outcome \<times> load_state" where
  "load_all env n [] st = (Done (), st)"
| "load_all env n (name # names) st =
     (case load_behavior_by_name env n name st of
        (Done _, st') \<Rightarrow> load_all env n names st'
      | (Fails e, st') \<Rightarrow> (Fails e, st')
      | (Diverges, st') \<Rightarrow> (Diverges, st'))"

end
