(* ===== verification/Sigil_Loader_Props.thy ===== *)
theory Sigil_Loader_Props
  imports Sigil_Loader Sigil_Parser_Total
begin

text \<open>
  What a successful load has done. The files are not rewritten here, so what a name stands for is
  a function of the name, and \<open>needs\<close> is the relation along which the loader recurses.
\<close>

section \<open>The requirement relation\<close>

definition fetched :: "load_env \<Rightarrow> fs \<Rightarrow> string \<Rightarrow> (path \<times> behavior \<times> uchar list) option" where
  "fetched env root name = (case fst (fetch env name root) of Done r \<Rightarrow> Some r | _ \<Rightarrow> None)"

definition req_names :: "load_env \<Rightarrow> behavior \<Rightarrow> string set" where
  "req_names env b = br_name ` set (required b) - set (env_library env)"

definition needs :: "load_env \<Rightarrow> fs \<Rightarrow> string \<Rightarrow> string \<Rightarrow> bool" where
  "needs env root x y \<longleftrightarrow> (\<exists>p b src. fetched env root x = Some (p, b, src) \<and> y \<in> req_names env b)"

lemma parse_file_keeps_fs: "\<not> env_fix env \<Longrightarrow> snd (parse_behavior_file env p root) = root"
  by (auto simp: parse_behavior_file_def Let_def split: option.splits outcome.splits)

lemma fetch_keeps_fs: "\<not> env_fix env \<Longrightarrow> snd (fetch env name root) = root"
  using parse_file_keeps_fs [of env]
  by (auto simp: fetch_def split: option.splits outcome.splits prod.splits) (metis snd_conv)+

section \<open>The invariant of loading\<close>

abbreviation loaded_names :: "load_state \<Rightarrow> string list" where
  "loaded_names st \<equiv> map fst (ls_behaviors st)"

text \<open>Every entry comes after what it requires.\<close>

definition deps_first :: "load_env \<Rightarrow> loaded_behavior list \<Rightarrow> bool" where
  "deps_first env es \<longleftrightarrow>
     (\<forall>i < length es. \<forall>r \<in> set (required (fst (snd (snd (es ! i))))).
        br_name r \<in> set (env_library env) \<or> br_name r \<in> set (map fst (take i es)))"

definition load_ok :: "load_env \<Rightarrow> fs \<Rightarrow> load_state \<Rightarrow> bool" where
  "load_ok env root st \<longleftrightarrow>
     ls_fs st = root
     \<and> distinct (loaded_names st)
     \<and> set (loaded_names st) \<inter> set (env_library env) = {}
     \<and> set (loaded_names st) \<subseteq> set (ls_loaded st)
     \<and> set (ls_loaded st) \<subseteq> set (loaded_names st) \<union> set (env_library env)
     \<and> (\<forall>(name, e) \<in> set (ls_behaviors st). fetched env root name = Some e)
     \<and> deps_first env (ls_behaviors st)"

lemma load_okD:
  assumes "load_ok env root st"
  shows "ls_fs st = root" "distinct (loaded_names st)" "set (loaded_names st) \<inter> set (env_library env) = {}"
    "set (loaded_names st) \<subseteq> set (ls_loaded st)" "set (ls_loaded st) \<subseteq> set (loaded_names st) \<union> set (env_library env)"
    "deps_first env (ls_behaviors st)" "(name, e) \<in> set (ls_behaviors st) \<Longrightarrow> fetched env root name = Some e"
  using assms by (auto simp: load_ok_def)

lemma deps_first_snoc:
  "deps_first env (es @ [(name, p, b, src)]) \<longleftrightarrow>
     deps_first env es \<and> (\<forall>r \<in> set (required b). br_name r \<in> set (env_library env) \<or> br_name r \<in> set (map fst es))"
  by (auto simp: deps_first_def less_Suc_eq nth_append)

text \<open>Nothing that has been loaded starts an endless chain of requirements.\<close>

lemma loaded_accp:
  assumes "load_ok env root st" "x \<in> set (loaded_names st)"
  shows "Wellfounded.accp (\<lambda>y x. needs env root x y) x"
proof -
  note ok = load_okD [OF assms(1)]
  have "Wellfounded.accp (\<lambda>y x. needs env root x y) (fst (ls_behaviors st ! i))" if "i < length (ls_behaviors st)" for i
    using that
  proof (induction i rule: less_induct)
    case (less i)
    obtain name p b src where e: "ls_behaviors st ! i = (name, p, b, src)" by (cases "ls_behaviors st ! i")
    have f: "fetched env root name = Some (p, b, src)" using ok(7) nth_mem [OF less.prems] e by simp
    show ?case
    proof (rule accp.intros)
      fix y assume "needs env root (fst (ls_behaviors st ! i)) y"
      then have y: "y \<in> req_names env b" using f e by (auto simp: needs_def)
      then have "y \<in> set (map fst (take i (ls_behaviors st)))"
        using ok(6) [unfolded deps_first_def, rule_format, OF less.prems] e by (auto simp: req_names_def)
      then obtain j where "j < i" "y = fst (ls_behaviors st ! j)" using less.prems by (auto simp: in_set_conv_nth)
      then show "Wellfounded.accp (\<lambda>y x. needs env root x y) y" using less.IH less.prems by simp
    qed
  qed
  moreover obtain i where "i < length (ls_behaviors st)" "x = fst (ls_behaviors st ! i)"
    using assms(2) by (auto simp: in_set_conv_nth simp del: set_map)
  ultimately show ?thesis by simp
qed

lemma accp_no_loop: "Wellfounded.accp r x \<Longrightarrow> \<not> r\<^sup>+\<^sup>+ x x"
proof (induction rule: accp.induct)
  case (accI x)
  show ?case
  proof
    assume "r\<^sup>+\<^sup>+ x x"
    then obtain y where y: "r y x" "r\<^sup>*\<^sup>* x y" by (metis tranclp.cases tranclp_into_rtranclp rtranclp.rtrancl_refl)
    then have "r\<^sup>+\<^sup>+ y y" by (metis rtranclp_into_tranclp2)
    then show False using accI.IH y(1) by blast
  qed
qed

lemma accp_no_cycle:
  assumes "Wellfounded.accp (\<lambda>y x. r x y) x"
  shows "\<not> r\<^sup>+\<^sup>+ x x"
proof
  assume "r\<^sup>+\<^sup>+ x x"
  then have "r\<inverse>\<inverse>\<^sup>+\<^sup>+ x x" by (simp add: tranclp_converse)
  moreover have "r\<inverse>\<inverse> = (\<lambda>y x. r x y)" by (intro ext) simp
  ultimately have "(\<lambda>y x. r x y)\<^sup>+\<^sup>+ x x" by simp
  with accp_no_loop [OF assms] show False by (rule notE)
qed

section \<open>Loading keeps it\<close>

text \<open>What a successful run of the loader on a list of requirements guarantees.\<close>

definition load_result :: "load_env \<Rightarrow> fs \<Rightarrow> string set \<Rightarrow> load_state \<Rightarrow> load_state \<Rightarrow> bool" where
  "load_result env root wanted st st' \<longleftrightarrow>
     load_ok env root st' \<and> wanted \<subseteq> set (ls_loaded st') \<and> set (ls_loaded st) \<subseteq> set (ls_loaded st')
     \<and> (\<exists>new. ls_behaviors st' = ls_behaviors st @ new)
     \<and> set (loaded_names st') \<subseteq> set (loaded_names st) \<union> {y. \<exists>x \<in> wanted - set (env_library env). (needs env root)\<^sup>*\<^sup>* x y}"

lemma load_ok_mark_library:
  "load_ok env root st \<Longrightarrow> name \<in> set (env_library env) \<Longrightarrow> load_ok env root (mark_loaded name st)"
  by (auto simp: load_ok_def mark_loaded_def)

text \<open>The step that ends the loading of one behavior.\<close>

lemma load_ok_push:
  assumes ok: "load_ok env root st2" and f: "fetched env root name = Some (p, b, src)"
    and lib: "name \<notin> set (env_library env)" and reqs: "br_name ` set (required b) \<subseteq> set (ls_loaded st2)"
    and fresh: "name \<notin> set (ls_loaded st2)"
  shows "load_ok env root (push_behavior (name, p, b, src) (mark_loaded name st2))"
proof -
  note o = load_okD [OF ok]
  have "\<forall>r \<in> set (required b). br_name r \<in> set (env_library env) \<or> br_name r \<in> set (loaded_names st2)"
    using reqs o(5) by auto
  moreover have "name \<notin> set (loaded_names st2)" using fresh o(4) by auto
  ultimately show ?thesis using o f lib by (auto simp: load_ok_def push_behavior_def mark_loaded_def deps_first_snoc)
qed

text \<open>While the requirements of \<open>name\<close> are loaded, \<open>name\<close> itself is not.\<close>

lemma load_not_self:
  assumes res: "load_result env root (br_name ` set (required b)) st st2"
    and f: "fetched env root name = Some (p, b, src)" and lib: "name \<notin> set (env_library env)"
    and fresh: "name \<notin> set (ls_loaded st)" and ok: "load_ok env root st"
  shows "name \<notin> set (ls_loaded st2)"
proof
  assume "name \<in> set (ls_loaded st2)"
  then have n: "name \<in> set (loaded_names st2)" using res lib load_okD(5) [of env root st2] by (auto simp: load_result_def)
  have "name \<notin> set (loaded_names st)" using fresh load_okD(4) [OF ok] by blast
  moreover have "set (loaded_names st2) \<subseteq> set (loaded_names st) \<union>
      {y. \<exists>x \<in> br_name ` set (required b) - set (env_library env). (needs env root)\<^sup>*\<^sup>* x y}"
    using res unfolding load_result_def by blast
  ultimately obtain x where x: "x \<in> br_name ` set (required b) - set (env_library env)" "(needs env root)\<^sup>*\<^sup>* x name"
    using n by blast
  then have "needs env root name x" using f by (auto simp: needs_def req_names_def)
  then have "(needs env root)\<^sup>+\<^sup>+ name name" using x(2) by (rule rtranclp_into_tranclp2)
  moreover have "\<not> (needs env root)\<^sup>+\<^sup>+ name name"
    using res by (intro accp_no_cycle loaded_accp [OF _ n]) (simp add: load_result_def)
  ultimately show False by (rule notE [rotated])
qed

lemma load_result_refl: "load_ok env root st \<Longrightarrow> wanted \<subseteq> set (ls_loaded st) \<Longrightarrow> load_result env root wanted st st"
  by (auto simp: load_result_def)

lemma subset_chain: "A \<subseteq> B \<union> S \<Longrightarrow> B \<subseteq> C \<union> R \<Longrightarrow> T = R \<union> S \<Longrightarrow> A \<subseteq> C \<union> T"
  by blast

lemma load_result_trans:
  assumes "load_result env root a st st1" "load_result env root b st1 st2"
  shows "load_result env root (a \<union> b) st st2"
proof -
  have 1: "load_ok env root st2" "b \<subseteq> set (ls_loaded st2)" using assms(2) by (simp_all add: load_result_def)
  have 2: "a \<union> set (ls_loaded st) \<subseteq> set (ls_loaded st2)" using assms by (auto simp: load_result_def)
  have 3: "\<exists>new. ls_behaviors st2 = ls_behaviors st @ new" using assms by (auto simp: load_result_def)
  let ?R = "\<lambda>ws. {y. \<exists>x \<in> ws - set (env_library env). (needs env root)\<^sup>*\<^sup>* x y}"
  have "set (loaded_names st2) \<subseteq> set (loaded_names st1) \<union> ?R b" "set (loaded_names st1) \<subseteq> set (loaded_names st) \<union> ?R a"
    using assms unfolding load_result_def by simp_all
  moreover have "?R (a \<union> b) = ?R a \<union> ?R b" by auto
  ultimately have 4: "set (loaded_names st2) \<subseteq> set (loaded_names st) \<union> ?R (a \<union> b)" by (rule subset_chain)
  show ?thesis unfolding load_result_def using 1 2 3 4 by simp
qed

text \<open>One behavior, given that its requirements have been loaded.\<close>

lemma load_result_one:
  assumes ok: "load_ok env root st" and f: "fetched env root name = Some (p, b, src)"
    and lib: "name \<notin> set (env_library env)" and fresh: "name \<notin> set (ls_loaded st)"
    and res: "load_result env root (br_name ` set (required b)) st st2"
  shows "load_result env root {name} st (push_behavior (name, p, b, src) (mark_loaded name st2))"
proof -
  note new = load_not_self [OF res f lib fresh ok]
  have ok2: "load_ok env root st2" and reqs: "br_name ` set (required b) \<subseteq> set (ls_loaded st2)"
    using res by (simp_all add: load_result_def)
  have step: "(needs env root)\<^sup>*\<^sup>* name y"
    if "x \<in> br_name ` set (required b) - set (env_library env)" "(needs env root)\<^sup>*\<^sup>* x y" for x y
  proof -
    have "needs env root name x" using f that(1) by (auto simp: needs_def req_names_def)
    then show ?thesis using that(2) by (rule converse_rtranclp_into_rtranclp)
  qed
  have "set (loaded_names st2) \<subseteq> set (loaded_names st) \<union>
      {y. \<exists>x \<in> br_name ` set (required b) - set (env_library env). (needs env root)\<^sup>*\<^sup>* x y}"
    using res by (simp add: load_result_def)
  then have "set (loaded_names st2) \<subseteq> set (loaded_names st) \<union> {y. (needs env root)\<^sup>*\<^sup>* name y}"
    using step by blast
  moreover have "set (ls_loaded st) \<subseteq> set (ls_loaded st2)" "\<exists>new. ls_behaviors st2 = ls_behaviors st @ new"
    using res by (simp_all add: load_result_def)
  ultimately show ?thesis
    unfolding load_result_def using load_ok_push [OF ok2 f lib reqs new] lib
    by (auto simp: push_behavior_def mark_loaded_def)
qed

lemma fetch_Done:
  assumes "\<not> env_fix env" "fetch env name root = (Done (p, b, src), root')"
  shows "fetched env root name = Some (p, b, src)" "root' = root"
  using fetch_keeps_fs [OF assms(1), of name root] assms(2) by (simp_all add: fetched_def)

lemma load_dependencies_result:
  assumes nofix: "\<not> env_fix env"
  shows "load_dependencies env n reqs st = (Done (), st') \<Longrightarrow> load_ok env root st \<Longrightarrow>
    load_result env root (br_name ` set reqs) st st'"
proof (induction n arbitrary: reqs st st' rule: less_induct)
  case (less n)
  show ?case using less.prems
  proof (induction reqs arbitrary: st)
    case Nil
    then show ?case by (simp add: load_result_refl)
  next
    case (Cons req reqs)
    let ?name = "br_name req"
    note run = Cons.prems(1) and ok = Cons.prems(2)
    note unf = load_dependencies.simps(2) [of env n req reqs st]
    have fin: "load_result env root (br_name ` set (req # reqs)) st st'"
      if "load_result env root {?name} st st1" "load_dependencies env n reqs st1 = (Done (), st')" for st1
    proof -
      have "load_ok env root st1" using that(1) by (simp add: load_result_def)
      from load_result_trans [OF that(1) Cons.IH [OF that(2) this]] show ?thesis by simp
    qed
    show ?case
    proof (cases "?name \<in> set (ls_loaded st)")
      case True
      then show ?thesis using run by (intro fin [of st] load_result_refl [OF ok]) (simp_all add: unf)
    next
      case fresh: False
      show ?thesis
      proof (cases "?name \<in> set (env_library env)")
        case True
        show ?thesis
        proof (rule fin)
          show "load_result env root {?name} st (mark_loaded ?name st)"
            using load_ok_mark_library [OF ok True] True by (auto simp: load_result_def mark_loaded_def)
          show "load_dependencies env n reqs (mark_loaded ?name st) = (Done (), st')" using run fresh True by (simp add: unf)
        qed
      next
        case lib: False
        obtain r root' where fe: "fetch env ?name (ls_fs st) = (r, root')" by fastforce
        obtain p b src where r: "r = Done (p, b, src)"
          using run fresh lib fe by (cases r) (auto simp: unf split: prod.splits)
        have fs: "ls_fs st = root" by (rule load_okD [OF ok])
        have f: "fetched env root ?name = Some (p, b, src)" and rt: "root' = root"
          using fetch_Done [OF nofix] fe r fs by auto
        have st1: "st\<lparr>ls_fs := root'\<rparr> = st" using rt fs by simp
        have mm: "\<not> hash_mismatch req b" using run fresh lib fe r by (auto simp: unf Let_def)
        obtain m where n: "n = Suc m" using run fresh lib fe r mm by (cases n) (simp_all add: load_dependencies.simps(2) Let_def)
        obtain st2 where l: "load_dependencies env m (required b) st = (Done (), st2)"
          and rest: "load_dependencies env n reqs (push_behavior (?name, p, b, src) (mark_loaded ?name st2)) = (Done (), st')"
          using run fresh lib fe r mm st1
          by (auto simp: n load_dependencies.simps(2) Let_def split: prod.splits outcome.splits)
        from less.IH [OF _ l ok] n have "load_result env root (br_name ` set (required b)) st st2" by simp
        from load_result_one [OF ok f lib fresh this] rest show ?thesis by (rule fin)
      qed
    qed
  qed
qed

lemma load_cons:
  "load_dependencies env n (req # reqs) st =
     (case load_dependencies env n [req] st of
        (Done _, st1) \<Rightarrow> load_dependencies env n reqs st1
      | (Fails e, st1) \<Rightarrow> (Fails e, st1)
      | (Diverges, st1) \<Rightarrow> (Diverges, st1))"
  by (auto simp: load_dependencies.simps(2) Let_def split: prod.splits outcome.splits nat.splits)

text \<open>Loading by name is loading an unpinned requirement.\<close>

definition unpinned :: "string \<Rightarrow> behavior_ref" where
  "unpinned name = \<lparr>br_name = name, br_hash = []\<rparr>"

lemma load_by_name_unpinned: "load_behavior_by_name env n name st = load_dependencies env (Suc n) [unpinned name] st"
  by (auto simp: load_behavior_by_name_def load_dependencies.simps(2) unpinned_def hash_mismatch_def Let_def
      split: prod.splits outcome.splits)

lemma load_all_unpinned: "load_all env n ns st = load_dependencies env (Suc n) (map unpinned ns) st"
proof (induction ns arbitrary: st)
  case (Cons name ns)
  show ?case
    unfolding load_all.simps(2) list.map load_by_name_unpinned Cons
    by (rule load_cons [symmetric])
qed simp

lemma load_all_result:
  assumes "\<not> env_fix env" "load_all env n ns st = (Done (), st')" "load_ok env root st"
  shows "load_result env root (set ns) st st'"
  using load_dependencies_result [OF assms(1) assms(2) [unfolded load_all_unpinned] assms(3)]
  by (simp add: image_image unpinned_def)

definition load_start :: "fs \<Rightarrow> load_state" where
  "load_start root = \<lparr>ls_fs = root, ls_loaded = [], ls_behaviors = []\<rparr>"

lemma load_ok_start: "load_ok env root (load_start root)"
  by (simp add: load_ok_def load_start_def deps_first_def)

section \<open>Termination\<close>

lemma parse_source_returns: "parse_source src \<noteq> Diverges"
proof -
  have "parse_behavior (Suc (length tokens)) src tokens \<noteq> OutOfFuel" for tokens
    by (rule fuelledD [OF behavior_fuelled [OF lessI] order_refl])
  then show ?thesis by (auto simp: parse_source_def parse_def parse_fuel_def split: sum.splits parsed.splits)
qed

lemma fetch_returns: "fst (fetch env name root) \<noteq> Diverges"
  using parse_source_returns
  by (auto simp: fetch_def parse_behavior_file_def Let_def split: option.splits outcome.splits prod.splits)

lemma load_dependencies_fs:
  assumes nofix: "\<not> env_fix env"
  shows "ls_fs st = root \<Longrightarrow> ls_fs (snd (load_dependencies env n reqs st)) = root"
proof (induction n arbitrary: reqs st rule: less_induct)
  case (less n)
  show ?case using less.prems
  proof (induction reqs arbitrary: st)
    case (Cons req reqs)
    obtain r root' where fe: "fetch env (br_name req) (ls_fs st) = (r, root')" by fastforce
    have rt: "root' = root" using fetch_keeps_fs [OF nofix, of "br_name req" "ls_fs st"] fe Cons.prems by simp
    show ?case
    proof (cases "br_name req \<in> set (ls_loaded st) \<or> br_name req \<in> set (env_library env)")
      case True
      then show ?thesis
        using Cons.IH [of st] Cons.IH [of "mark_loaded (br_name req) st"] Cons.prems
        by (cases "br_name req \<in> set (ls_loaded st)") (simp_all add: load_dependencies.simps(2) mark_loaded_def Let_def)
    next
      case new: False
      show ?thesis
      proof (cases r)
        case (Done e)
        obtain p b src where e: "e = (p, b, src)" by (cases e)
        show ?thesis
        proof (cases "hash_mismatch req b \<or> n = 0")
          case True
          then show ?thesis using new fe rt Done e by (auto simp: load_dependencies.simps(2) Let_def)
        next
          case False
          then obtain m where m: "n = Suc m" by (cases n) auto
          obtain x st2 where l: "load_dependencies env m (required b) (st\<lparr>ls_fs := root\<rparr>) = (x, st2)" by fastforce
          have "ls_fs st2 = root" using less.IH [of m "st\<lparr>ls_fs := root\<rparr>" "required b"] m l by simp
          then show ?thesis using False new fe rt Done e m l Cons.IH
            by (cases x) (simp_all add: load_dependencies.simps(2) Let_def mark_loaded_def push_behavior_def)
        qed
      qed (use new fe rt in \<open>simp_all add: load_dependencies.simps(2) Let_def\<close>)
    qed
  qed simp
qed

text \<open>With at least \<open>n\<close> units of fuel the loading of \<open>x\<close> ends.\<close>

definition settles :: "load_env \<Rightarrow> fs \<Rightarrow> nat \<Rightarrow> string \<Rightarrow> bool" where
  "settles env root n x \<longleftrightarrow>
     (\<forall>m \<ge> n. \<forall>req st. br_name req = x \<longrightarrow> ls_fs st = root \<longrightarrow> fst (load_dependencies env m [req] st) \<noteq> Diverges)"

lemma settles_list:
  assumes nofix: "\<not> env_fix env" and m: "n \<le> m"
  shows "\<forall>r \<in> set reqs. settles env root n (br_name r) \<Longrightarrow> ls_fs st = root \<Longrightarrow> fst (load_dependencies env m reqs st) \<noteq> Diverges"
proof (induction reqs arbitrary: st)
  case (Cons req reqs)
  obtain r st1 where l: "load_dependencies env m [req] st = (r, st1)" by fastforce
  have "r \<noteq> Diverges" using Cons.prems l m by (fastforce simp: settles_def)
  moreover have "ls_fs st1 = root" using load_dependencies_fs [OF nofix Cons.prems(2), of m "[req]"] l by simp
  ultimately show ?case using Cons load_cons [of env m req reqs st] l by (cases r) auto
qed simp

lemma settles_mono: "settles env root n x \<Longrightarrow> n \<le> m \<Longrightarrow> settles env root m x"
  by (auto simp: settles_def)

lemma settles_all:
  assumes "finite X" "\<forall>x \<in> X. \<exists>n. settles env root n x"
  shows "\<exists>n. \<forall>x \<in> X. settles env root n x"
  using assms
proof (induction rule: finite_induct)
  case (insert x X)
  then obtain n k where "\<forall>y \<in> X. settles env root n y" "settles env root k x" by auto
  then have "\<forall>y \<in> insert x X. settles env root (max n k) y" using settles_mono by fastforce
  then show ?case by blast
qed simp

text \<open>Names the loader does not follow settle at once.\<close>

lemma settles_library: "x \<in> set (env_library env) \<Longrightarrow> settles env root 0 x"
  by (auto simp: settles_def load_dependencies.simps(2))

lemma accp_settles:
  assumes nofix: "\<not> env_fix env" and x: "Wellfounded.accp (\<lambda>y x. needs env root x y) x"
  shows "\<exists>n. settles env root n x"
  using x
proof (induction rule: accp.induct)
  case (accI x)
  show ?case
  proof (cases "fetched env root x")
    case None
    then obtain er root' where "fetch env x root = (Fails er, root')"
      using fetch_returns [of env x root] by (cases "fetch env x root") (auto simp: fetched_def split: outcome.splits)
    then have "settles env root 0 x" by (auto simp: settles_def load_dependencies.simps(2) Let_def)
    then show ?thesis ..
  next
    case (Some e)
    obtain p b src where e: "e = (p, b, src)" by (cases e)
    have "\<exists>n. settles env root n y" if "y \<in> br_name ` set (required b)" for y
    proof (cases "y \<in> set (env_library env)")
      case True
      then show ?thesis using settles_library by blast
    next
      case False
      then have "needs env root x y" using that Some e by (auto simp: needs_def req_names_def)
      then show ?thesis by (rule accI.IH)
    qed
    then obtain n where n: "\<forall>y \<in> br_name ` set (required b). settles env root n y"
      using settles_all [of "br_name ` set (required b)" env root] by auto
    have "settles env root (Suc n) x"
      unfolding settles_def
    proof (intro allI impI)
      fix m and req :: behavior_ref and st :: load_state assume m: "Suc n \<le> m" and r: "br_name req = x" and fs: "ls_fs st = root"
      obtain k where k: "m = Suc k" "n \<le> k" using m by (cases m) simp_all
      have fe: "fetch env x root = (Done (p, b, src), root)"
        using Some e fetch_keeps_fs [OF nofix, of x root]
        by (cases "fetch env x root") (auto simp: fetched_def split: outcome.splits)
      have "fst (load_dependencies env k (required b) st) \<noteq> Diverges"
        using settles_list [OF nofix k(2) _ fs] n by blast
      then show "fst (load_dependencies env m [req] st) \<noteq> Diverges"
        using fe fs r k by (auto simp: load_dependencies.simps(2) Let_def split: prod.splits outcome.splits)
    qed
    then show ?thesis ..
  qed
qed

section \<open>What is shown\<close>

lemma fetched_file:
  assumes "\<not> env_fix env" "fetched env root name = Some (p, b, src)"
  shows "find_behavior root name (env_search env) = Some p \<and> read_to_string root p = Some src \<and> parse_source src = Done b"
  using assms
  by (auto simp: fetched_def fetch_def parse_behavior_file_def Let_def split: option.splits outcome.splits prod.splits)

text \<open>
  C20. When the loader succeeds (with no rewriting of hashes), the behaviors it returns are pairwise
  different, each is what the file found for its name contains, everything asked for is there or in a
  linked library, and each comes after everything it requires. In particular no loaded behavior
  requires itself, directly or through others.
\<close>

theorem load_all_sound:
  assumes "\<not> env_fix env" "load_all env n ns (load_start root) = (Done (), st)"
  shows "distinct (map fst (ls_behaviors st))
    \<and> deps_first env (ls_behaviors st)
    \<and> set ns \<subseteq> set (map fst (ls_behaviors st)) \<union> set (env_library env)
    \<and> list_all (\<lambda>(name, p, b, src). find_behavior root name (env_search env) = Some p
          \<and> read_to_string root p = Some src \<and> parse_source src = Done b \<and> \<not> (needs env root)\<^sup>+\<^sup>+ name name) (ls_behaviors st)"
proof -
  have res: "load_result env root (set ns) (load_start root) st"
    by (rule load_all_result [OF assms load_ok_start])
  then have ok: "load_ok env root st" and w: "set ns \<subseteq> set (ls_loaded st)" by (simp_all add: load_result_def)
  note o = load_okD [OF ok]
  have f: "find_behavior root name (env_search env) = Some p \<and> read_to_string root p = Some src \<and> parse_source src = Done b"
    and c: "\<not> (needs env root)\<^sup>+\<^sup>+ name name" if e: "(name, p, b, src) \<in> set (ls_behaviors st)" for name p b src
  proof -
    show "find_behavior root name (env_search env) = Some p \<and> read_to_string root p = Some src \<and> parse_source src = Done b"
      by (rule fetched_file [OF assms(1) o(7) [OF e]])
    have "name \<in> set (loaded_names st)" using e by force
    then show "\<not> (needs env root)\<^sup>+\<^sup>+ name name" by (intro accp_no_cycle loaded_accp [OF ok])
  qed
  have "list_all (\<lambda>(name, p, b, src). find_behavior root name (env_search env) = Some p
      \<and> read_to_string root p = Some src \<and> parse_source src = Done b \<and> \<not> (needs env root)\<^sup>+\<^sup>+ name name) (ls_behaviors st)"
    using f c by (auto simp: list_all_iff)
  then show ?thesis using o(2,6) w o(5) by blast
qed

text \<open>
  C21. The loader returns, with a result or an error, whenever no name asked for starts an endless chain
  of requirements: there is a depth of recursion that suffices, and any greater one does too.
\<close>

theorem load_all_terminates:
  assumes "\<not> env_fix env" "list_all (Wellfounded.accp (\<lambda>y x. needs env root x y)) ns"
  shows "\<exists>n. \<forall>m. n \<le> m \<longrightarrow> fst (load_all env m ns (load_start root)) \<noteq> Diverges"
proof -
  have "\<forall>x \<in> set ns. \<exists>n. settles env root n x" using accp_settles [OF assms(1)] assms(2) by (simp add: list_all_iff)
  then obtain n where n: "\<forall>x \<in> set ns. settles env root n x" using settles_all [of "set ns" env root] by auto
  have "fst (load_dependencies env (Suc m) (map unpinned ns) (load_start root)) \<noteq> Diverges" if "n \<le> m" for m
    using that n by (intro settles_list [OF assms(1) le_SucI [OF that]]) (simp_all add: unpinned_def load_start_def)
  then show ?thesis by (auto simp: load_all_unpinned)
qed

section \<open>Cyclic requirements\<close>

definition demo_env :: load_env where
  "demo_env = \<lparr>env_search = [[]], env_library = [''print''], env_fix = False, env_can_write = (\<lambda>_. True), env_hash = (\<lambda>_. [])\<rparr>"

definition demo_file :: "string \<Rightarrow> string \<Rightarrow> string \<times> fs" where
  "demo_file name req = (name @ ''.beh'', FsFile (Some (source_text (''BEHAVIOR '' @ name @ [newline_char] @ ''CONTRACT'' @ [newline_char]
     @ (if req = [] then [] else ''REQUIRES '' @ req @ [newline_char]) @ ''END''))))"

definition demo_chain :: fs where
  "demo_chain = FsDir [demo_file ''a'' ''b'', demo_file ''b'' ''print'']"

definition demo_cycle :: fs where
  "demo_cycle = FsDir [demo_file ''a'' ''b'', demo_file ''b'' ''a'']"

definition demo_required :: "fs \<Rightarrow> string \<Rightarrow> (path \<times> string list) option" where
  "demo_required root name = map_option (\<lambda>(p, b, src). (p, map br_name (required b))) (fetched demo_env root name)"

definition demo_refs :: "string \<Rightarrow> behavior_ref list option" where
  "demo_refs x = map_option (\<lambda>(p, b, src). required b) (fetched demo_env demo_cycle x)"

lemma demo_fetch:
  "demo_required demo_chain ''a'' = Some ([''a.beh''], [''b''])" "demo_required demo_chain ''b'' = Some ([''b.beh''], [''print''])"
  "demo_required demo_cycle ''a'' = Some ([''a.beh''], [''b''])" "demo_required demo_cycle ''b'' = Some ([''b.beh''], [''a''])"
  by code_simp+

lemma demo_needs:
  assumes "demo_required root x = Some (p, ys)"
  shows "needs demo_env root x y \<longleftrightarrow> y \<in> set ys - {''print''}"
proof -
  obtain b src where "fetched demo_env root x = Some (p, b, src)" "ys = map br_name (required b)"
    using assms by (auto simp: demo_required_def)
  then show ?thesis by (auto simp: needs_def req_names_def demo_env_def)
qed

text \<open>
  The compiler checks for circular requirements only after everything is loaded, and never gets
  there: on two behaviors that require each other, no depth of recursion is enough.
\<close>

lemma demo_step:
  assumes "demo_refs x = Some [unpinned y]" "x \<noteq> ''print''"
    and "\<And>m. m < n \<Longrightarrow> fst (load_dependencies demo_env m [unpinned y] (load_start demo_cycle)) = Diverges"
  shows "fst (load_dependencies demo_env n [unpinned x] (load_start demo_cycle)) = Diverges"
proof -
  let ?st = "load_start demo_cycle"
  obtain p b src where f: "fetched demo_env demo_cycle x = Some (p, b, src)" and r: "required b = [unpinned y]"
    using assms(1) by (auto simp: demo_refs_def)
  have "snd (fetch demo_env x demo_cycle) = demo_cycle" by (rule fetch_keeps_fs) (simp add: demo_env_def)
  then have fe: "fetch demo_env x demo_cycle = (Done (p, b, src), demo_cycle)"
    using f by (cases "fetch demo_env x demo_cycle") (auto simp: fetched_def split: outcome.splits)
  have s: "ls_fs ?st = demo_cycle" "ls_loaded ?st = []" "?st\<lparr>ls_fs := demo_cycle\<rparr> = ?st" by (simp_all add: load_start_def)
  have x: "x \<notin> set (env_library demo_env)" "br_name (unpinned x) = x" "\<not> hash_mismatch (unpinned x) b"
    using assms(2) by (simp_all add: demo_env_def unpinned_def hash_mismatch_def)
  show ?thesis
  proof (cases n)
    case 0
    then show ?thesis using fe x by (simp add: load_dependencies.simps(2) s Let_def)
  next
    case (Suc m)
    obtain st2 where "load_dependencies demo_env m [unpinned y] ?st = (Diverges, st2)"
      using assms(3) [of m] Suc by (cases "load_dependencies demo_env m [unpinned y] ?st") simp
    then show ?thesis using fe x Suc by (simp add: load_dependencies.simps(2) [of _ "Suc m" "unpinned x"] s r Let_def)
  qed
qed

lemma cyclic_requires_never_returns: "fst (load_all demo_env n [''a''] (load_start demo_cycle)) = Diverges"
proof -
  have refs: "demo_refs ''a'' = Some [unpinned ''b'']" "demo_refs ''b'' = Some [unpinned ''a'']" by code_simp+
  have both: "fst (load_dependencies demo_env k [unpinned ''a''] (load_start demo_cycle)) = Diverges
      \<and> fst (load_dependencies demo_env k [unpinned ''b''] (load_start demo_cycle)) = Diverges" for k
  proof (induction k rule: less_induct)
    case (less k)
    show ?case
    proof
      show "fst (load_dependencies demo_env k [unpinned ''a''] (load_start demo_cycle)) = Diverges"
        by (rule demo_step [OF refs(1)]) (use less in simp_all)
      show "fst (load_dependencies demo_env k [unpinned ''b''] (load_start demo_cycle)) = Diverges"
        by (rule demo_step [OF refs(2)]) (use less in simp_all)
    qed
  qed
  then show ?thesis by (simp add: load_all_unpinned)
qed

section \<open>The two properties at work\<close>

theorem load_all_sound_witness:
  "\<exists>st. load_all demo_env 2 [''a''] (load_start demo_chain) = (Done (), st) \<and> map fst (ls_behaviors st) = [''b'', ''a'']
     \<and> deps_first demo_env (ls_behaviors st)"
proof -
  have "fst (load_all demo_env 2 [''a''] (load_start demo_chain)) = Done ()
      \<and> map fst (ls_behaviors (snd (load_all demo_env 2 [''a''] (load_start demo_chain)))) = [''b'', ''a'']" by code_simp
  then obtain st where st: "load_all demo_env 2 [''a''] (load_start demo_chain) = (Done (), st)" "map fst (ls_behaviors st) = [''b'', ''a'']"
    by (cases "load_all demo_env 2 [''a''] (load_start demo_chain)") auto
  have "\<not> env_fix demo_env" by (simp add: demo_env_def)
  from load_all_sound [OF this st(1)] st show ?thesis by (intro exI [of _ st]) simp
qed

theorem load_all_terminates_witness:
  "\<exists>n. \<forall>m. n \<le> m \<longrightarrow> fst (load_all demo_env m [''a''] (load_start demo_chain)) \<noteq> Diverges"
proof (rule load_all_terminates)
  show "\<not> env_fix demo_env" by (simp add: demo_env_def)
  have b: "Wellfounded.accp (\<lambda>y x. needs demo_env demo_chain x y) ''b''"
    by (rule accp.intros) (simp add: demo_needs [OF demo_fetch(2)])
  have "Wellfounded.accp (\<lambda>y x. needs demo_env demo_chain x y) ''a''"
    by (rule accp.intros) (simp add: demo_needs [OF demo_fetch(1)] b)
  then show "list_all (Wellfounded.accp (\<lambda>y x. needs demo_env demo_chain x y)) [''a'']" by simp
qed

end
