(* ===== verification/Sigil_Driver.thy ===== *)
theory Sigil_Driver
  imports Sigil_Loader_Props Sigil_Analyze Sigil_Graph_Validate
begin

text \<open>
  The front end of the compiler: the phases of \<^verbatim>\<open>run\<close> in \<^verbatim>\<open>compiler/src/main.rs\<close>
  between the command line and code generation. The executable is parsed and its entry checked,
  the behaviors it calls are loaded with all they require, then the patterns and the behaviors these
  call, and then every behavior is analyzed and the whole program validated.
\<close>

section \<open>References in a body\<close>

definition push_new :: "string \<Rightarrow> string list \<Rightarrow> string list" where
  "push_new x xs = (if x \<in> set xs then xs else xs @ [x])"

fun collect_spawn_patterns :: "node list \<Rightarrow> string list \<Rightarrow> string list" where
  "collect_spawn_patterns [] acc = acc"
| "collect_spawn_patterns (Node sp k # rest) acc =
     collect_spawn_patterns rest
       (case k of
          Assignment _ e \<Rightarrow> (case e of Spawn pattern _ \<Rightarrow> push_new pattern acc | _ \<Rightarrow> acc)
        | Scope nodes \<Rightarrow> collect_spawn_patterns nodes acc
        | _ \<Rightarrow> acc)"

fun collect_call_behaviors :: "node list \<Rightarrow> string list \<Rightarrow> string list" where
  "collect_call_behaviors [] acc = acc"
| "collect_call_behaviors (Node sp k # rest) acc =
     collect_call_behaviors rest
       (case k of
          CallNode _ b _ _ \<Rightarrow> push_new b acc
        | Assignment _ e \<Rightarrow> (case e of Call b _ \<Rightarrow> push_new b acc | _ \<Rightarrow> acc)
        | _ \<Rightarrow> acc)"

section \<open>Results\<close>

datatype program_error =
    LoadFailed load_error
  | EntryNotComposite "semantic_error list"
  | BehaviorRejected path "semantic_error list"
  | GraphRejected string

datatype 'a checked = Accepted 'a | Rejected program_error | NoAnswer

definition bind_c :: "'a checked \<Rightarrow> ('a \<Rightarrow> 'b checked) \<Rightarrow> 'b checked" where
  "bind_c r f = (case r of Accepted x \<Rightarrow> f x | Rejected e \<Rightarrow> Rejected e | NoAnswer \<Rightarrow> NoAnswer)"

definition of_outcome :: "'a outcome \<Rightarrow> 'a checked" where
  "of_outcome r = (case r of Done x \<Rightarrow> Accepted x | Fails e \<Rightarrow> Rejected (LoadFailed e) | Diverges \<Rightarrow> NoAnswer)"

type_synonym loaded_pattern = "string \<times> path \<times> pattern"

record program =
  pr_executable :: executable
  pr_behaviors :: "loaded_behavior list"
  pr_patterns :: "loaded_pattern list"

section \<open>Files of the other two kinds\<close>

definition parse_with :: "(token list \<Rightarrow> uchar list \<Rightarrow> 'a parsed) \<Rightarrow> fs \<Rightarrow> path \<Rightarrow> 'a outcome" where
  "parse_with p root file =
     (case read_to_string root file of
        None \<Rightarrow> Fails (ce_io (ReadFailed file))
      | Some source \<Rightarrow>
          (case lex source of
             Inl e \<Rightarrow> Fails (ce_lex (le_span e) (LexMessage (le_message e)))
           | Inr tokens \<Rightarrow>
               (case p tokens source of
                  Parsed x _ \<Rightarrow> Done x
                | Failed e \<Rightarrow> Fails (ce_parse (pe_span e) (ParseMessage (pe_failure e)))
                | OutOfFuel \<Rightarrow> Diverges)))"

definition load_pattern_file :: "fs \<Rightarrow> path \<Rightarrow> pattern outcome" where
  "load_pattern_file = parse_with parse_pattern_file"

definition load_executable_file :: "fs \<Rightarrow> path \<Rightarrow> executable outcome" where
  "load_executable_file = parse_with parse_executable_file"

section \<open>Where to search\<close>

definition parent_of :: "path \<Rightarrow> path option" where
  "parent_of p = (if p = [] \<or> p = [''/''] then None else Some (butlast p))"

definition search_paths :: "path \<Rightarrow> path list" where
  "search_paths input =
     (case parent_of input of
        None \<Rightarrow> [[''stdlib'']]
      | Some p \<Rightarrow>
          (case parent_of p of
             None \<Rightarrow> [p, [''stdlib'']]
           | Some gp \<Rightarrow> [gp, p, [''stdlib''], gp @ [''stdlib'']]
               @ (case parent_of gp of None \<Rightarrow> [] | Some ggp \<Rightarrow> [ggp @ [''stdlib'']])))"

definition with_search :: "path \<Rightarrow> load_env \<Rightarrow> load_env" where
  "with_search input env = env\<lparr>env_search := search_paths input\<rparr>"

lemma with_search_simps [simp]:
  "env_fix (with_search input env) = env_fix env"
  "env_library (with_search input env) = env_library env"
  "env_search (with_search input env) = search_paths input"
  by (simp_all add: with_search_def)

lemma deps_first_with_search [simp]: "deps_first (with_search input env) = deps_first env"
  by (simp add: fun_eq_iff deps_first_def req_names_def)

text \<open>The loop over pattern names, with the patterns loaded so far.\<close>

fun load_patterns :: "path list \<Rightarrow> fs \<Rightarrow> string list \<Rightarrow> loaded_pattern list \<Rightarrow> loaded_pattern list outcome" where
  "load_patterns search root [] acc = Done acc"
| "load_patterns search root (name # rest) acc =
     (if name \<in> set (map fst acc) then load_patterns search root rest acc
      else (case find_pattern root name search of
          None \<Rightarrow> Fails (ce_load (PatternNotFound name))
        | Some p \<Rightarrow>
            (case load_pattern_file root p of
               Done pt \<Rightarrow> load_patterns search root rest (acc @ [(name, p, pt)])
             | Fails e \<Rightarrow> Fails e
             | Diverges \<Rightarrow> Diverges)))"

section \<open>Checking\<close>

definition dependency_contracts :: "loaded_behavior list \<Rightarrow> (string, contract) hmap \<Rightarrow> (string, contract) hmap" where
  "dependency_contracts behaviors library_contracts =
     fold (\<lambda>(name, c) m. if hm_contains_key m name then m else hm_insert name c m) library_contracts
       (fold (\<lambda>(name, _, b, _) m. hm_insert name (b_contract b) m) behaviors [])"

fun validate_all ::
  "(byte list \<Rightarrow> byte list) \<Rightarrow> (byte list \<Rightarrow> string) \<Rightarrow> (string, contract) hmap \<Rightarrow> loaded_behavior list \<Rightarrow> unit checked" where
  "validate_all sha256 hex_encode contracts [] = Accepted ()"
| "validate_all sha256 hex_encode contracts ((name, p, b, src) # rest) =
     (case analyze sha256 hex_encode b contracts [] of
        None \<Rightarrow> NoAnswer
      | Some (Inl errors) \<Rightarrow> Rejected (BehaviorRejected p errors)
      | Some (Inr _) \<Rightarrow> validate_all sha256 hex_encode contracts rest)"

definition path_text :: "path \<Rightarrow> string" where
  "path_text p = join_with ''/'' p"

definition validate_program ::
  "(byte list \<Rightarrow> byte list) \<Rightarrow> (byte list \<Rightarrow> string) \<Rightarrow> loaded_behavior list \<Rightarrow> (string, contract) hmap \<Rightarrow> unit checked" where
  "validate_program sha256 hex_encode behaviors library_contracts =
     (case whole_graph_validation sha256 hex_encode (map (\<lambda>(_, p, b, _). (path_text p, b)) behaviors) library_contracts of
        None \<Rightarrow> NoAnswer
      | Some (Inl m) \<Rightarrow> Rejected (GraphRejected m)
      | Some (Inr _) \<Rightarrow> Accepted ())"

definition pattern_calls :: "loaded_pattern list \<Rightarrow> string list" where
  "pattern_calls patterns =
     fold (\<lambda>(_, _, pt) acc. collect_call_behaviors (pt_on_destroy pt) (collect_call_behaviors (pt_on_create pt) acc)) patterns []"

definition front_end ::
  "(byte list \<Rightarrow> byte list) \<Rightarrow> (byte list \<Rightarrow> string) \<Rightarrow> load_env \<Rightarrow> nat \<Rightarrow> (string, contract) hmap \<Rightarrow> path \<Rightarrow> fs
     \<Rightarrow> program checked" where
  "front_end sha256 hex_encode env n library_contracts input root =
     (if input = [] \<or> extension (last input) \<noteq> Some ''sigil'' then Rejected (LoadFailed (ce_cli (NotSigil input)))
      else
     bind_c (of_outcome (load_executable_file root input)) (\<lambda>x.
     let violations = check_entry_is_composite (ex_entry x) in
     if violations \<noteq> [] then Rejected (EntryNotComposite violations)
     else (case load_all (with_search input env) n (collect_call_behaviors (ex_entry x) []) (load_start root) of (r1, st1) \<Rightarrow>
       bind_c (of_outcome r1) (\<lambda>_.
       bind_c (of_outcome (load_patterns (search_paths input) (ls_fs st1) (ex_uses x) [])) (\<lambda>ps1.
       bind_c (of_outcome (load_patterns (search_paths input) (ls_fs st1) (collect_spawn_patterns (ex_entry x) []) ps1)) (\<lambda>ps2.
       case load_all (with_search input env) n (pattern_calls ps2) st1 of (r2, st2) \<Rightarrow>
       bind_c (of_outcome r2) (\<lambda>_.
       bind_c (validate_all sha256 hex_encode (dependency_contracts (ls_behaviors st2) library_contracts) (ls_behaviors st2)) (\<lambda>_.
       bind_c (validate_program sha256 hex_encode (ls_behaviors st2) library_contracts) (\<lambda>_.
       Accepted \<lparr>pr_executable = x, pr_behaviors = ls_behaviors st2, pr_patterns = ps2\<rparr>)))))))))"

section \<open>What acceptance gives\<close>

lemma bind_c_Accepted: "bind_c r f = Accepted y \<longleftrightarrow> (\<exists>x. r = Accepted x \<and> f x = Accepted y)"
  by (simp add: bind_c_def split: checked.splits)

lemma of_outcome_Accepted: "of_outcome r = Accepted x \<longleftrightarrow> r = Done x"
  by (simp add: of_outcome_def split: outcome.splits)

lemma validate_all_Accepted:
  "validate_all sha256 hex_encode contracts behaviors = Accepted () \<longleftrightarrow>
     list_all (\<lambda>(name, p, b, src). analyze sha256 hex_encode b contracts [] = Some (Inr ())) behaviors"
  by (induction sha256 hex_encode contracts behaviors rule: validate_all.induct)
    (auto split: option.splits sum.splits)

lemma validate_program_Accepted:
  "validate_program sha256 hex_encode behaviors libs = Accepted () \<longleftrightarrow>
     whole_graph_validation sha256 hex_encode (map (\<lambda>(_, p, b, _). (path_text p, b)) behaviors) libs = Some (Inr ())"
  by (auto simp: validate_program_def split: option.splits sum.splits)

lemma front_end_phases:
  assumes "front_end sha256 hex_encode env n libs input root = Accepted pr"
  obtains st1 st2 ps1 where
    "input \<noteq> []" "extension (last input) = Some ''sigil''"
    "load_patterns (search_paths input) (ls_fs st1) (ex_uses (pr_executable pr)) [] = Done ps1"
    "load_patterns (search_paths input) (ls_fs st1) (collect_spawn_patterns (ex_entry (pr_executable pr)) []) ps1 = Done (pr_patterns pr)"
    "load_executable_file root input = Done (pr_executable pr)"
    "check_entry_is_composite (ex_entry (pr_executable pr)) = []"
    "load_all (with_search input env) n (collect_call_behaviors (ex_entry (pr_executable pr)) []) (load_start root) = (Done (), st1)"
    "load_all (with_search input env) n (pattern_calls (pr_patterns pr)) st1 = (Done (), st2)"
    "pr_behaviors pr = ls_behaviors st2"
    "validate_all sha256 hex_encode (dependency_contracts (pr_behaviors pr) libs) (pr_behaviors pr) = Accepted ()"
    "validate_program sha256 hex_encode (pr_behaviors pr) libs = Accepted ()"
proof -
  from assms obtain x where ext: "input \<noteq> []" "extension (last input) = Some ''sigil''" and x: "load_executable_file root input = Done x" and entry: "check_entry_is_composite (ex_entry x) = []"
    and rest: "(case load_all (with_search input env) n (collect_call_behaviors (ex_entry x) []) (load_start root) of (r1, st1) \<Rightarrow>
       bind_c (of_outcome r1) (\<lambda>_.
       bind_c (of_outcome (load_patterns (search_paths input) (ls_fs st1) (ex_uses x) [])) (\<lambda>ps1.
       bind_c (of_outcome (load_patterns (search_paths input) (ls_fs st1) (collect_spawn_patterns (ex_entry x) []) ps1)) (\<lambda>ps2.
       case load_all (with_search input env) n (pattern_calls ps2) st1 of (r2, st2) \<Rightarrow>
       bind_c (of_outcome r2) (\<lambda>_.
       bind_c (validate_all sha256 hex_encode (dependency_contracts (ls_behaviors st2) libs) (ls_behaviors st2)) (\<lambda>_.
       bind_c (validate_program sha256 hex_encode (ls_behaviors st2) libs) (\<lambda>_.
       Accepted \<lparr>pr_executable = x, pr_behaviors = ls_behaviors st2, pr_patterns = ps2\<rparr>))))))) = Accepted pr"
    by (auto simp: front_end_def Let_def bind_c_Accepted of_outcome_Accepted split: if_splits)
  obtain r1 st1 where l1: "load_all (with_search input env) n (collect_call_behaviors (ex_entry x) []) (load_start root) = (r1, st1)" by fastforce
  from rest l1 obtain ps1 ps2 where r1: "r1 = Done ()"
    and ps: "load_patterns (search_paths input) (ls_fs st1) (ex_uses x) [] = Done ps1"
      "load_patterns (search_paths input) (ls_fs st1) (collect_spawn_patterns (ex_entry x) []) ps1 = Done ps2"
    and rest2: "(case load_all (with_search input env) n (pattern_calls ps2) st1 of (r2, st2) \<Rightarrow>
       bind_c (of_outcome r2) (\<lambda>_.
       bind_c (validate_all sha256 hex_encode (dependency_contracts (ls_behaviors st2) libs) (ls_behaviors st2)) (\<lambda>_.
       bind_c (validate_program sha256 hex_encode (ls_behaviors st2) libs) (\<lambda>_.
       Accepted \<lparr>pr_executable = x, pr_behaviors = ls_behaviors st2, pr_patterns = ps2\<rparr>)))) = Accepted pr"
    by (auto simp: bind_c_Accepted of_outcome_Accepted)
  obtain r2 st2 where l2: "load_all (with_search input env) n (pattern_calls ps2) st1 = (r2, st2)" by fastforce
  have p: "pr = \<lparr>pr_executable = x, pr_behaviors = ls_behaviors st2, pr_patterns = ps2\<rparr>" "r2 = Done ()"
    and v: "validate_all sha256 hex_encode (dependency_contracts (ls_behaviors st2) libs) (ls_behaviors st2) = Accepted ()"
      "validate_program sha256 hex_encode (ls_behaviors st2) libs = Accepted ()"
    using rest2 l2 by (auto simp: bind_c_Accepted of_outcome_Accepted)
  show ?thesis by (rule that [of st1 ps1 st2]) (simp_all add: ext ps p x entry l1 r1 l2 v del: load_all.simps)
qed

lemma front_end_Accepted:
  assumes "front_end sha256 hex_encode env n libs input root = Accepted pr"
  obtains st1 st2 where
    "load_executable_file root input = Done (pr_executable pr)"
    "check_entry_is_composite (ex_entry (pr_executable pr)) = []"
    "load_all (with_search input env) n (collect_call_behaviors (ex_entry (pr_executable pr)) []) (load_start root) = (Done (), st1)"
    "load_all (with_search input env) n (pattern_calls (pr_patterns pr)) st1 = (Done (), st2)"
    "pr_behaviors pr = ls_behaviors st2"
    "validate_all sha256 hex_encode (dependency_contracts (pr_behaviors pr) libs) (pr_behaviors pr) = Accepted ()"
    "validate_program sha256 hex_encode (pr_behaviors pr) libs = Accepted ()"
  using front_end_phases [OF assms] that by metis

lemma accepted_memory: "analyze sha256 hex_encode b deps pats = Some (Inr ()) \<Longrightarrow> nodes \<in> bodies b \<Longrightarrow>
  memory_safe (param_names (c_inputs (b_contract b))) nodes"
  using accepted_bodies [of sha256 hex_encode b deps pats nodes] by (fastforce simp: owns_ok_def env_of_def)


definition lines_of :: "string list \<Rightarrow> fs" where
  "lines_of ls = FsFile (Some (source_text (concat (map (\<lambda>l. l @ [newline_char]) ls))))"

definition hello_fs :: fs where
  "hello_fs = FsDir
     [(''main.sigil'', lines_of [''EXECUTABLE hello'', ''ENTRY'', ''  CALL count 3'', ''END_EXECUTABLE'']),
      (''count.beh'', lines_of [''BEHAVIOR count'', ''CONTRACT'', ''  INPUT n int 8'', ''IMPLEMENTATION'',
         ''  cell = ALLOC 8 int'', ''  STORE cell n 8'', ''  FREE cell'', ''END''])]"

lemma hello_accepted:
  "case front_end (\<lambda>_. []) (\<lambda>_. []) demo_env 1 [] [''main.sigil''] hello_fs of
     Accepted pr \<Rightarrow> map fst (pr_behaviors pr) = [''count'']
   | _ \<Rightarrow> False"
  by code_simp


text \<open>
  What an entry or a pattern calls is collected from call statements and assignments only. A call that
  is the value of a \<^verbatim>\<open>SET\<close>, which the entry check lets pass, and a call inside a scope of a
  pattern are not seen, and the behavior is not loaded.
\<close>

lemma set_call_not_collected:
  "check_entry_is_composite [Node sp (Set ''x'' (Call f []))] = []
   \<and> collect_call_behaviors [Node sp (Set ''x'' (Call f [])), Node sp (Scope [Node sp (CallNode None g [] [])])] [] = []"
  by (simp add: check_entry_is_composite_def composite_expr_def analyzer_new_def)

end
