(* ===== verification/Sigil_Cache.thy ===== *)
theory Sigil_Cache
  imports Sigil_Driver "HOL-Library.Char_ord" "HOL-Library.List_Lexorder"
begin

text \<open>
  The cache of object files, after \<^verbatim>\<open>compiler/src/cache.rs\<close>, and the phase of
  \<^verbatim>\<open>run\<close> in \<^verbatim>\<open>compiler/src/main.rs\<close> that compiles behaviors, patterns and the
  entry one by one, reusing the objects of earlier runs.

  Code generation is a parameter of the model: a \<open>backend\<close> has a function for each of the three
  kinds of units, applied to what the code hands to it, with an object or a message as its result.
  The manifest file is read and written as a whole. Its JSON form (crate \<^verbatim>\<open>serde_json\<close>)
  is not modelled: a file that is missing, unreadable or malformed is \<^verbatim>\<open>None\<close>.
\<close>

section \<open>The manifest\<close>

record cache_entry =
  en_source_path :: path
  en_source_hash :: string
  en_contract_hash :: string
  en_deps_hash :: string
  en_object_path :: path
  en_timestamp :: nat

record cache_manifest =
  cm_version :: nat
  cm_compiler_id :: string
  cm_behaviors :: "(string, cache_entry) hmap"

definition manifest_version :: nat where
  "manifest_version = 1"

definition manifest_new :: "string \<Rightarrow> cache_manifest" where
  "manifest_new compiler_id = \<lparr>cm_version = manifest_version, cm_compiler_id = compiler_id, cm_behaviors = []\<rparr>"

definition manifest_load :: "string \<Rightarrow> cache_manifest option \<Rightarrow> cache_manifest" where
  "manifest_load compiler_id stored =
     (case stored of
        None \<Rightarrow> manifest_new compiler_id
      | Some manifest \<Rightarrow>
          if cm_version manifest \<noteq> manifest_version then manifest_new compiler_id
          else if cm_compiler_id manifest \<noteq> compiler_id then manifest_new compiler_id
          else manifest)"

type_synonym 'o objects = "(path, 'o) hmap"

definition needs_recompile :: "cache_manifest \<Rightarrow> 'o objects \<Rightarrow> string \<Rightarrow> string \<Rightarrow> string \<Rightarrow> string \<Rightarrow> bool" where
  "needs_recompile m objs name source_hash contract_hash deps_hash =
     (case hm_get (cm_behaviors m) name of
        None \<Rightarrow> True
      | Some e \<Rightarrow>
          if en_source_hash e \<noteq> source_hash then True
          else if en_contract_hash e \<noteq> contract_hash then True
          else if en_deps_hash e \<noteq> deps_hash then True
          else \<not> hm_contains_key objs (en_object_path e))"

definition update_entry :: "string \<Rightarrow> cache_entry \<Rightarrow> cache_manifest \<Rightarrow> cache_manifest" where
  "update_entry name e m = m\<lparr>cm_behaviors := hm_insert name e (cm_behaviors m)\<rparr>"

definition get_object_path :: "cache_manifest \<Rightarrow> string \<Rightarrow> path option" where
  "get_object_path m name = map_option en_object_path (hm_get (cm_behaviors m) name)"

definition cache_remove :: "string \<Rightarrow> cache_manifest \<times> 'o objects \<Rightarrow> cache_manifest \<times> 'o objects" where
  "cache_remove name = (\<lambda>(m, objs).
     (case hm_get (cm_behaviors m) name of
        None \<Rightarrow> (m, objs)
      | Some e \<Rightarrow> (m\<lparr>cm_behaviors := hm_remove name (cm_behaviors m)\<rparr>, hm_remove (en_object_path e) objs)))"

definition cache_clear :: "path \<Rightarrow> cache_manifest \<times> 'o objects \<Rightarrow> cache_manifest \<times> 'o objects" where
  "cache_clear cache_dir = (\<lambda>(m, objs).
     (m\<lparr>cm_behaviors := []\<rparr>,
      filter (\<lambda>(p, _). take (length cache_dir + 1) p \<noteq> cache_dir @ [''objects'']) objs))"

section \<open>Keys\<close>

definition source_hash :: "(byte list \<Rightarrow> byte list) \<Rightarrow> (byte list \<Rightarrow> string) \<Rightarrow> uchar list \<Rightarrow> string" where
  "source_hash sha256 hex_encode src = hex_encode (sha256 (as_bytes (utf8_text src)))"

text \<open>\<^verbatim>\<open>compute_source_hash(path).unwrap_or_default()\<close>\<close>

definition compute_source_hash :: "(byte list \<Rightarrow> byte list) \<Rightarrow> (byte list \<Rightarrow> string) \<Rightarrow> fs \<Rightarrow> path \<Rightarrow> string" where
  "compute_source_hash sha256 hex_encode root p =
     (case read_to_string root p of None \<Rightarrow> [] | Some src \<Rightarrow> source_hash sha256 hex_encode src)"

definition compute_deps_hash :: "(byte list \<Rightarrow> byte list) \<Rightarrow> (byte list \<Rightarrow> string) \<Rightarrow> (string \<times> string) list \<Rightarrow> string" where
  "compute_deps_hash sha256 hex_encode dep_hashes =
     (if dep_hashes = [] then ''none''
      else hex_encode (take 8 (sha256 (concat (map
        (\<lambda>(name, h). as_bytes name @ as_bytes ''@'' @ as_bytes h @ [10]) (sort_key fst dep_hashes))))))"

definition object_path :: "path \<Rightarrow> string \<Rightarrow> string \<Rightarrow> path" where
  "object_path cache_dir name sh =
     cache_dir @ [''objects'', name @ ''_'' @ take (min 16 (length sh)) sh @ ''.o'']"

section \<open>Compiling the units of a program\<close>

record 'o backend =
  cg_behavior :: "behavior \<Rightarrow> string \<Rightarrow> (string \<times> contract) list \<Rightarrow> string + 'o"
  cg_pattern :: "pattern \<Rightarrow> string \<Rightarrow> (string \<times> contract) list \<Rightarrow> string + 'o"
  cg_entry :: "executable \<Rightarrow> (string \<times> contract) list \<Rightarrow> (string \<times> contract) list \<Rightarrow> (string \<times> pattern) list \<Rightarrow> string + 'o"

record 'o build_env =
  be_sha256 :: "byte list \<Rightarrow> byte list"
  be_hex :: "byte list \<Rightarrow> string"
  be_backend :: "'o backend"
  be_cache_dir :: path
  be_compiler_id :: string
  be_now :: nat

record 'o build_state =
  bs_manifest :: cache_manifest
  bs_objects :: "'o objects"
  bs_files :: "path list"

text \<open>
  The step the three loops share: look the unit up under its key, or compile it, write the object and
  enter it into the manifest.
\<close>

definition compile_unit ::
  "'o build_env \<Rightarrow> string \<Rightarrow> path \<Rightarrow> string \<Rightarrow> string \<Rightarrow> string \<Rightarrow> string + 'o \<Rightarrow> 'o build_state
     \<Rightarrow> (string + unit) \<times> 'o build_state" where
  "compile_unit be name p sh ch dh code st =
     (let obj_path = object_path (be_cache_dir be) name sh in
      if \<not> needs_recompile (bs_manifest st) (bs_objects st) name sh ch dh
      then (Inr (), st\<lparr>bs_files := bs_files st @ [obj_path]\<rparr>)
      else (case code of
          Inl message \<Rightarrow> (Inl message, st)
        | Inr obj \<Rightarrow> (Inr (), st\<lparr>
            bs_objects := hm_insert obj_path obj (bs_objects st),
            bs_manifest := update_entry name
              \<lparr>en_source_path = p, en_source_hash = sh, en_contract_hash = ch, en_deps_hash = dh,
               en_object_path = obj_path, en_timestamp = be_now be\<rparr> (bs_manifest st),
            bs_files := bs_files st @ [obj_path]\<rparr>)))"

definition all_contracts :: "(string, contract) hmap \<Rightarrow> (string, contract) hmap \<Rightarrow> (string, contract) hmap" where
  "all_contracts deps libs = fold (\<lambda>(name, c) m. hm_insert name c m) libs deps"

definition externs :: "(string, contract) hmap \<Rightarrow> behavior \<Rightarrow> (string \<times> contract) list" where
  "externs contracts b =
     List.map_filter (\<lambda>r. map_option (Pair (br_name r)) (hm_get contracts (br_name r))) (required b)"

definition contract_hash :: "'o build_env \<Rightarrow> contract \<Rightarrow> string" where
  "contract_hash be = compute_contract_hash (be_sha256 be) (be_hex be)"

definition deps_hash :: "'o build_env \<Rightarrow> (string \<times> contract) list \<Rightarrow> string" where
  "deps_hash be ext = compute_deps_hash (be_sha256 be) (be_hex be) (map (\<lambda>(n, c). (n, contract_hash be c)) ext)"

definition file_hash :: "'o build_env \<Rightarrow> fs \<Rightarrow> path \<Rightarrow> string" where
  "file_hash be = compute_source_hash (be_sha256 be) (be_hex be)"

fun compile_behaviors ::
  "'o build_env \<Rightarrow> fs \<Rightarrow> (string, contract) hmap \<Rightarrow> loaded_behavior list \<Rightarrow> 'o build_state \<Rightarrow> (string + unit) \<times> 'o build_state" where
  "compile_behaviors be root contracts [] st = (Inr (), st)"
| "compile_behaviors be root contracts ((name, p, b, src) # rest) st =
     (case compile_unit be name p (file_hash be root p) (b_hash b) (deps_hash be (externs contracts b))
             (cg_behavior (be_backend be) b name (externs contracts b)) st of
        (Inl m, st') \<Rightarrow> (Inl m, st')
      | (Inr _, st') \<Rightarrow> compile_behaviors be root contracts rest st')"

fun compile_patterns ::
  "'o build_env \<Rightarrow> fs \<Rightarrow> (string, contract) hmap \<Rightarrow> loaded_pattern list \<Rightarrow> 'o build_state \<Rightarrow> (string + unit) \<times> 'o build_state" where
  "compile_patterns be root contracts [] st = (Inr (), st)"
| "compile_patterns be root contracts ((name, p, pt) # rest) st =
     (case compile_unit be name p (file_hash be root p) [] ''none'' (cg_pattern (be_backend be) pt name contracts) st of
        (Inl m, st') \<Rightarrow> (Inl m, st')
      | (Inr _, st') \<Rightarrow> compile_patterns be root contracts rest st')"

definition compile_entry ::
  "'o build_env \<Rightarrow> fs \<Rightarrow> path \<Rightarrow> program \<Rightarrow> (string, contract) hmap \<Rightarrow> 'o build_state \<Rightarrow> (string + unit) \<times> 'o build_state" where
  "compile_entry be root input pr libs st =
     (let x = pr_executable pr in
      compile_unit be (ex_name x) input (file_hash be root input) []
        (compute_deps_hash (be_sha256 be) (be_hex be) (map (\<lambda>(n, _, b, _). (n, b_hash b)) (pr_behaviors pr)))
        (cg_entry (be_backend be) x (map (\<lambda>(n, _, b, _). (n, b_contract b)) (pr_behaviors pr)) libs
           (map (\<lambda>(n, _, pt). (n, pt)) (pr_patterns pr))) st)"

text \<open>What is on disk between runs.\<close>

record 'o disk =
  dk_manifest :: "cache_manifest option"
  dk_objects :: "'o objects"

text \<open>
  The phase as a whole. An error leaves before the manifest is saved; a manifest that cannot be saved
  is only a warning.
\<close>

definition build_objects ::
  "'o build_env \<Rightarrow> bool \<Rightarrow> fs \<Rightarrow> path \<Rightarrow> program \<Rightarrow> (string, contract) hmap \<Rightarrow> 'o disk \<Rightarrow> (string + path list) \<times> 'o disk" where
  "build_objects be can_save root input pr libs d =
     (let contracts = all_contracts (dependency_contracts (pr_behaviors pr) libs) libs;
          st0 = \<lparr>bs_manifest = manifest_load (be_compiler_id be) (dk_manifest d), bs_objects = dk_objects d, bs_files = []\<rparr>
      in case compile_behaviors be root contracts (pr_behaviors pr) st0 of
           (Inl m, st1) \<Rightarrow> (Inl m, d\<lparr>dk_objects := bs_objects st1\<rparr>)
         | (Inr _, st1) \<Rightarrow>
             (case compile_patterns be root contracts (pr_patterns pr) st1 of
                (Inl m, st2) \<Rightarrow> (Inl m, d\<lparr>dk_objects := bs_objects st2\<rparr>)
              | (Inr _, st2) \<Rightarrow>
                  (case compile_entry be root input pr libs st2 of
                     (Inl m, st3) \<Rightarrow> (Inl m, d\<lparr>dk_objects := bs_objects st3\<rparr>)
                   | (Inr _, st3) \<Rightarrow>
                       (Inr (bs_files st3),
                        \<lparr>dk_manifest = (if can_save then Some (bs_manifest st3) else dk_manifest d),
                         dk_objects = bs_objects st3\<rparr>))))"

end
