(* ===== verification/Sigil_Cache_Props.thy ===== *)
theory Sigil_Cache_Props
  imports Sigil_Cache
begin

text \<open>
  What the object cache of \<open>Sigil_Cache\<close> guarantees. The invariant relates the manifest to the
  objects: an entry's object is what compiling the behavior of its name gives, for every source and
  every list of declared contracts that have the entry's keys. It holds after every build that
  succeeds and saves its manifest, as long as no two inputs of one behavior have the same keys.
\<close>

section \<open>The reference: compiling everything\<close>

fun clean_objects :: "'o build_env \<Rightarrow> (string, contract) hmap \<Rightarrow> loaded_behavior list \<Rightarrow> string + 'o list" where
  "clean_objects be contracts [] = Inr []"
| "clean_objects be contracts ((name, p, b, src) # rest) =
     (case cg_behavior (be_backend be) b name (externs contracts b) of
        Inl m \<Rightarrow> Inl m
      | Inr obj \<Rightarrow> map_sum id ((#) obj) (clean_objects be contracts rest))"

section \<open>The invariant\<close>

type_synonym build_inputs = "(string \<times> uchar list \<times> (string \<times> contract) list) set"

definition has_keys :: "'o build_env \<Rightarrow> uchar list \<Rightarrow> (string \<times> contract) list \<Rightarrow> string \<Rightarrow> string \<Rightarrow> bool" where
  "has_keys be src ext sh dh \<longleftrightarrow> source_hash (be_sha256 be) (be_hex be) src = sh \<and> deps_hash be ext = dh"

definition collision_free :: "'o build_env \<Rightarrow> build_inputs \<Rightarrow> bool" where
  "collision_free be U \<longleftrightarrow> (\<forall>(name, src, ext) \<in> U. \<forall>(name', src', ext') \<in> U.
     name = name' \<and> has_keys be src ext (source_hash (be_sha256 be) (be_hex be) src') (deps_hash be ext')
       \<longrightarrow> src = src' \<and> ext = ext')"

definition compiles_to :: "'o build_env \<Rightarrow> build_inputs \<Rightarrow> string \<Rightarrow> string \<Rightarrow> string \<Rightarrow> string + 'o \<Rightarrow> bool" where
  "compiles_to be U name sh dh code \<longleftrightarrow> (\<forall>src ext b. (name, src, ext) \<in> U \<and> has_keys be src ext sh dh
     \<and> parse_source src = Done b \<longrightarrow> cg_behavior (be_backend be) b name ext = code)"

definition entry_ok :: "'o build_env \<Rightarrow> build_inputs \<Rightarrow> 'o objects \<Rightarrow> string \<Rightarrow> cache_entry \<Rightarrow> bool" where
  "entry_ok be U objs name e \<longleftrightarrow> 16 \<le> length (en_source_hash e)
     \<and> en_object_path e = object_path (be_cache_dir be) name (en_source_hash e)
     \<and> (case hm_get objs (en_object_path e) of
          None \<Rightarrow> True
        | Some obj \<Rightarrow> compiles_to be U name (en_source_hash e) (en_deps_hash e) (Inr obj))"

definition cache_ok :: "'o build_env \<Rightarrow> build_inputs \<Rightarrow> cache_manifest \<Rightarrow> 'o objects \<Rightarrow> bool" where
  "cache_ok be U m objs \<longleftrightarrow> cm_version m = manifest_version \<and> cm_compiler_id m = be_compiler_id be
     \<and> (\<forall>name e. hm_get (cm_behaviors m) name = Some e \<longrightarrow> entry_ok be U objs name e)"

lemma cache_okD: "cache_ok be U m objs \<Longrightarrow> hm_get (cm_behaviors m) name = Some e \<Longrightarrow> entry_ok be U objs name e"
  by (simp add: cache_ok_def)

lemma cache_ok_new: "cache_ok be U (manifest_new (be_compiler_id be)) objs"
  by (simp add: cache_ok_def manifest_new_def)

section \<open>One unit\<close>

lemma object_path_inj:
  assumes "object_path dir n s = object_path dir n' s'" "16 \<le> length s" "16 \<le> length s'"
  shows "n = n'"
  using assms by (simp add: object_path_def)

text \<open>What compiling a unit can do: reuse the entry, fail, or write.\<close>

definition written :: "'o build_env \<Rightarrow> string \<Rightarrow> path \<Rightarrow> string \<Rightarrow> string \<Rightarrow> string \<Rightarrow> 'o \<Rightarrow> 'o build_state \<Rightarrow> 'o build_state" where
  "written be name p sh ch dh obj st = st\<lparr>
     bs_objects := hm_insert (object_path (be_cache_dir be) name sh) obj (bs_objects st),
     bs_manifest := update_entry name
       \<lparr>en_source_path = p, en_source_hash = sh, en_contract_hash = ch, en_deps_hash = dh,
        en_object_path = object_path (be_cache_dir be) name sh, en_timestamp = be_now be\<rparr> (bs_manifest st),
     bs_files := bs_files st @ [object_path (be_cache_dir be) name sh]\<rparr>"

definition reused :: "'o build_env \<Rightarrow> string \<Rightarrow> string \<Rightarrow> 'o build_state \<Rightarrow> 'o build_state" where
  "reused be name sh st = st\<lparr>bs_files := bs_files st @ [object_path (be_cache_dir be) name sh]\<rparr>"

lemma state_simps [simp]:
  "bs_objects (reused be name sh st) = bs_objects st" "bs_manifest (reused be name sh st) = bs_manifest st"
  "bs_files (reused be name sh st) = bs_files st @ [object_path (be_cache_dir be) name sh]"
  "bs_files (written be name p sh ch dh obj st) = bs_files st @ [object_path (be_cache_dir be) name sh]"
  "bs_objects (written be name p sh ch dh obj st) = hm_insert (object_path (be_cache_dir be) name sh) obj (bs_objects st)"
  by (simp_all add: reused_def written_def)

lemma compile_unit_cases:
  obtains (hit) "\<not> needs_recompile (bs_manifest st) (bs_objects st) name sh ch dh"
      "compile_unit be name p sh ch dh code st = (Inr (), reused be name sh st)"
  | (failed) m where "needs_recompile (bs_manifest st) (bs_objects st) name sh ch dh" "code = Inl m"
      "compile_unit be name p sh ch dh code st = (Inl m, st)"
  | (compiled) obj where "needs_recompile (bs_manifest st) (bs_objects st) name sh ch dh" "code = Inr obj"
      "compile_unit be name p sh ch dh code st = (Inr (), written be name p sh ch dh obj st)"
  by (cases "needs_recompile (bs_manifest st) (bs_objects st) name sh ch dh"; cases code)
    (simp_all add: compile_unit_def Let_def written_def reused_def)

lemma not_needs_recompile:
  "\<not> needs_recompile m objs name sh ch dh \<longleftrightarrow> (\<exists>e obj. hm_get (cm_behaviors m) name = Some e
     \<and> en_source_hash e = sh \<and> en_contract_hash e = ch \<and> en_deps_hash e = dh \<and> hm_get objs (en_object_path e) = Some obj)"
  by (auto simp: needs_recompile_def hm_contains_key_def split: option.splits)

lemma cache_ok_written:
  assumes "cache_ok be U (bs_manifest st) (bs_objects st)" "16 \<le> length sh" "compiles_to be U name sh dh (Inr obj)"
  shows "cache_ok be U (bs_manifest (written be name p sh ch dh obj st)) (bs_objects (written be name p sh ch dh obj st))"
proof -
  have "entry_ok be U (bs_objects (written be name p sh ch dh obj st)) n e"
    if "hm_get (cm_behaviors (bs_manifest (written be name p sh ch dh obj st))) n = Some e" for n e
  proof (cases "n = name")
    case True
    then show ?thesis using that assms(2,3) by (auto simp: written_def update_entry_def entry_ok_def)
  next
    case False
    then have e: "entry_ok be U (bs_objects st) n e"
      using that cache_okD [OF assms(1), of n] by (auto simp: written_def update_entry_def)
    then have "en_object_path e \<noteq> object_path (be_cache_dir be) name sh"
      using False assms(2) object_path_inj [of "be_cache_dir be" n "en_source_hash e" name sh] by (auto simp: entry_ok_def)
    then show ?thesis using e by (auto simp: entry_ok_def)
  qed
  then show ?thesis using assms(1) by (simp add: cache_ok_def written_def update_entry_def)
qed

text \<open>The objects of other names are left alone.\<close>

lemma compile_unit_frame:
  assumes "compile_unit be name p sh ch dh code st = (r, st')" "16 \<le> length sh" "n \<noteq> name" "16 \<le> length s"
  shows "hm_get (bs_objects st') (object_path (be_cache_dir be) n s) = hm_get (bs_objects st) (object_path (be_cache_dir be) n s)"
  using assms(1)
proof (cases rule: compile_unit_cases [of st name sh ch dh be p code])
  case (compiled obj)
  then show ?thesis using assms object_path_inj [of "be_cache_dir be" n s name sh] by auto
qed (use assms in auto)

lemma compile_unit_ok:
  assumes "cache_ok be U (bs_manifest st) (bs_objects st)" "16 \<le> length sh" "compiles_to be U name sh dh code"
    and "compile_unit be name p sh ch dh code st = (r, st')"
  shows "cache_ok be U (bs_manifest st') (bs_objects st')"
  using assms(4)
proof (cases rule: compile_unit_cases [of st name sh ch dh be p code])
  case (compiled obj)
  then have "st' = written be name p sh ch dh obj st" using assms(4) by simp
  then show ?thesis using cache_ok_written [OF assms(1,2)] assms(3) compiled(2) by blast
qed (use assms in auto)

section \<open>The loop over behaviors\<close>

text \<open>The behaviors a build compiles are parsed from the files it hashes, and are among the known inputs.\<close>

definition known_behaviors :: "'o build_env \<Rightarrow> build_inputs \<Rightarrow> fs \<Rightarrow> (string, contract) hmap \<Rightarrow> loaded_behavior list \<Rightarrow> bool" where
  "known_behaviors be U root contracts bs \<longleftrightarrow> distinct (map fst bs)
     \<and> (\<forall>(name, p, b, src) \<in> set bs. read_to_string root p = Some src \<and> parse_source src = Done b
          \<and> (name, src, externs contracts b) \<in> U)"

definition long_hashes :: "'o build_env \<Rightarrow> bool" where
  "long_hashes be \<longleftrightarrow> (\<forall>bs. 16 \<le> length (be_hex be (be_sha256 be bs)))"

definition object_files :: "'o build_env \<Rightarrow> fs \<Rightarrow> loaded_behavior list \<Rightarrow> path list" where
  "object_files be root bs = map (\<lambda>(name, p, _, _). object_path (be_cache_dir be) name (file_hash be root p)) bs"

lemma long_file_hash:
  "long_hashes be \<Longrightarrow> read_to_string root p = Some src \<Longrightarrow> 16 \<le> length (file_hash be root p)"
  by (simp add: long_hashes_def file_hash_def compute_source_hash_def source_hash_def)

lemma collision_freeD:
  assumes "collision_free be U" "(name, src, ext) \<in> U" "(name, src', ext') \<in> U"
    and "has_keys be src ext (source_hash (be_sha256 be) (be_hex be) src') (deps_hash be ext')"
  shows "src = src' \<and> ext = ext'"
  using bspec [OF bspec [OF assms(1) [unfolded collision_free_def] assms(2), simplified] assms(3)] assms(4) by simp

lemma known_compiles_to:
  assumes "collision_free be U" "(name, src, ext) \<in> U" "parse_source src = Done b"
    "read_to_string root p = Some src"
  shows "compiles_to be U name (file_hash be root p) (deps_hash be ext) (cg_behavior (be_backend be) b name ext)"
proof -
  have "src' = src \<and> ext' = ext"
    if "(name, src', ext') \<in> U" "has_keys be src' ext' (file_hash be root p) (deps_hash be ext)" for src' ext'
  proof -
    have "file_hash be root p = source_hash (be_sha256 be) (be_hex be) src"
      using assms(4) by (simp add: file_hash_def compute_source_hash_def)
    then show ?thesis using collision_freeD [OF assms(1) that(1) assms(2)] that(2) by simp
  qed
  then show ?thesis using assms(3) unfolding compiles_to_def by (metis outcome.inject(1))
qed

text \<open>One step: the object at the unit's path is what the reference compiles.\<close>

lemma compile_unit_object:
  assumes "cache_ok be U (bs_manifest st) (bs_objects st)"
    and keys: "(name, src, ext) \<in> U" "parse_source src = Done b" "has_keys be src ext sh dh"
    and "compile_unit be name p sh ch dh (cg_behavior (be_backend be) b name ext) st = (r, st')"
  shows "case cg_behavior (be_backend be) b name ext of
      Inl m \<Rightarrow> r = Inl m
    | Inr obj \<Rightarrow> r = Inr () \<and> bs_files st' = bs_files st @ [object_path (be_cache_dir be) name sh]
        \<and> hm_get (bs_objects st') (object_path (be_cache_dir be) name sh) = Some obj"
proof (cases rule: compile_unit_cases [of st name sh ch dh be p "cg_behavior (be_backend be) b name ext"])
  case hit
  then obtain e obj where e: "hm_get (cm_behaviors (bs_manifest st)) name = Some e" "en_source_hash e = sh"
      "en_deps_hash e = dh" "hm_get (bs_objects st) (en_object_path e) = Some obj"
    by (auto simp: not_needs_recompile)
  have "entry_ok be U (bs_objects st) name e" by (rule cache_okD [OF assms(1) e(1)])
  then have "en_object_path e = object_path (be_cache_dir be) name sh" "compiles_to be U name sh dh (Inr obj)"
    using e by (auto simp: entry_ok_def)
  moreover from this(2) have "cg_behavior (be_backend be) b name ext = Inr obj" using keys by (auto simp: compiles_to_def)
  ultimately show ?thesis using hit(2) assms(5) e(4) by auto
qed (use assms(5) in auto)

lemma compile_behaviors_frame:
  assumes "long_hashes be" "known_behaviors be U root contracts bs" "compile_behaviors be root contracts bs st = (r, st')"
    and "n \<notin> set (map fst bs)" "16 \<le> length s"
  shows "hm_get (bs_objects st') (object_path (be_cache_dir be) n s) = hm_get (bs_objects st) (object_path (be_cache_dir be) n s)"
  using assms(2-4)
proof (induction bs arbitrary: st)
  case (Cons x bs)
  obtain name p b src where x: "x = (name, p, b, src)" by (cases x)
  obtain r1 st1 where c: "compile_unit be name p (file_hash be root p) (b_hash b) (deps_hash be (externs contracts b))
      (cg_behavior (be_backend be) b name (externs contracts b)) st = (r1, st1)" by fastforce
  have "16 \<le> length (file_hash be root p)" "n \<noteq> name" "known_behaviors be U root contracts bs"
    using Cons.prems x long_file_hash [OF assms(1)] by (auto simp: known_behaviors_def)
  with compile_unit_frame [OF c _ _ assms(5)] Cons.IH [of st1] Cons.prems(2,3) show ?case
    by (cases r1) (auto simp: x c)
qed simp

lemma compile_behaviors_ok:
  assumes "long_hashes be" "collision_free be U" "known_behaviors be U root contracts bs"
    and "cache_ok be U (bs_manifest st) (bs_objects st)" "compile_behaviors be root contracts bs st = (r, st')"
  shows "cache_ok be U (bs_manifest st') (bs_objects st') \<and>
    (case clean_objects be contracts bs of
       Inl m \<Rightarrow> r = Inl m
     | Inr objs \<Rightarrow> r = Inr () \<and> bs_files st' = bs_files st @ object_files be root bs
         \<and> map (hm_get (bs_objects st')) (object_files be root bs) = map Some objs)"
  using assms(3-5)
proof (induction bs arbitrary: st)
  case (Cons x bs)
  obtain name p b src where x: "x = (name, p, b, src)" by (cases x)
  let ?ext = "externs contracts b" and ?sh = "file_hash be root p"
  let ?code = "cg_behavior (be_backend be) b name ?ext" and ?o = "object_path (be_cache_dir be) name ?sh"
  have at: "read_to_string root p = Some src" "parse_source src = Done b" "(name, src, ?ext) \<in> U"
    and name: "name \<notin> set (map fst bs)" and rest: "known_behaviors be U root contracts bs"
    using Cons.prems(1) x by (auto simp: known_behaviors_def)
  note len = long_file_hash [OF assms(1) at(1)]
  obtain r1 st1 where c: "compile_unit be name p ?sh (b_hash b) (deps_hash be ?ext) ?code st = (r1, st1)" by fastforce
  have ok1: "cache_ok be U (bs_manifest st1) (bs_objects st1)"
    by (rule compile_unit_ok [OF Cons.prems(2) len known_compiles_to [OF assms(2) at(3,2,1)] c])
  have "has_keys be src ?ext ?sh (deps_hash be ?ext)"
    using at(1) by (simp add: has_keys_def file_hash_def compute_source_hash_def)
  note step = compile_unit_object [OF Cons.prems(2) at(3,2) this c]
  show ?case
  proof (cases ?code)
    case (Inl m)
    then show ?thesis using step c ok1 Cons.prems(3) by (auto simp: x)
  next
    case (Inr obj)
    then have r1: "r1 = Inr ()" and f1: "bs_files st1 = bs_files st @ [?o]" and o1: "hm_get (bs_objects st1) ?o = Some obj"
      using step by auto
    then have c2: "compile_behaviors be root contracts bs st1 = (r, st')" using Cons.prems(3) c by (simp add: x)
    have "hm_get (bs_objects st') ?o = Some obj"
      using compile_behaviors_frame [OF assms(1) rest c2 name len] o1 by simp
    then show ?thesis using Cons.IH [OF rest ok1 c2] Inr f1
      by (auto simp: x object_files_def split: sum.splits)
  qed
qed (simp add: object_files_def)

section \<open>Builds\<close>

text \<open>
  What else a build compiles: its patterns and its entry are read from files as well, and share no
  name with a behavior of any build.
\<close>

definition known_program ::
  "'o build_env \<Rightarrow> build_inputs \<Rightarrow> fs \<Rightarrow> path \<Rightarrow> program \<Rightarrow> (string, contract) hmap \<Rightarrow> bool" where
  "known_program be U root input pr libs \<longleftrightarrow>
     known_behaviors be U root (all_contracts (dependency_contracts (pr_behaviors pr) libs) libs) (pr_behaviors pr)
     \<and> (\<forall>(name, p, pt) \<in> set (pr_patterns pr). name \<notin> fst ` U \<and> read_to_string root p \<noteq> None)
     \<and> ex_name (pr_executable pr) \<notin> fst ` U \<and> read_to_string root input \<noteq> None"

definition usable :: "'o build_env \<Rightarrow> cache_manifest option \<Rightarrow> bool" where
  "usable be stored \<longleftrightarrow> (\<exists>m. stored = Some m \<and> cm_version m = manifest_version \<and> cm_compiler_id m = be_compiler_id be)"

text \<open>
  The states of the cache directory: one without a manifest that this compiler takes up, and what
  builds make of it that succeed and save their manifest.
\<close>

inductive cached_disk :: "'o build_env \<Rightarrow> build_inputs \<Rightarrow> 'o disk \<Rightarrow> bool" for be U where
  fresh: "\<not> usable be (dk_manifest d) \<Longrightarrow> cached_disk be U d"
| built: "cached_disk be U d \<Longrightarrow> known_program be U root input pr libs \<Longrightarrow>
    build_objects be True root input pr libs d = (Inr files, d') \<Longrightarrow> cached_disk be U d'"

definition disk_ok :: "'o build_env \<Rightarrow> build_inputs \<Rightarrow> 'o disk \<Rightarrow> bool" where
  "disk_ok be U d \<longleftrightarrow> cache_ok be U (manifest_load (be_compiler_id be) (dk_manifest d)) (dk_objects d)"

lemma manifest_load_id:
  "cm_version m = manifest_version \<Longrightarrow> cm_compiler_id m = be_compiler_id be \<Longrightarrow> manifest_load (be_compiler_id be) (Some m) = m"
  by (simp add: manifest_load_def)

lemma manifest_load_unusable: "\<not> usable be stored \<Longrightarrow> manifest_load (be_compiler_id be) stored = manifest_new (be_compiler_id be)"
  by (auto simp: usable_def manifest_load_def split: option.splits)

lemma compiles_to_foreign: "name \<notin> fst ` U \<Longrightarrow> compiles_to be U name sh dh code"
  by (force simp: compiles_to_def)

text \<open>A unit whose name no behavior has keeps the invariant and the objects of the behaviors.\<close>

definition extends :: "'o build_env \<Rightarrow> build_inputs \<Rightarrow> 'o build_state \<Rightarrow> 'o build_state \<Rightarrow> bool" where
  "extends be U st st' \<longleftrightarrow> cache_ok be U (bs_manifest st') (bs_objects st')
    \<and> (\<exists>fs. bs_files st' = bs_files st @ fs)
    \<and> (\<forall>n s. n \<in> fst ` U \<and> 16 \<le> length s \<longrightarrow>
         hm_get (bs_objects st') (object_path (be_cache_dir be) n s) = hm_get (bs_objects st) (object_path (be_cache_dir be) n s))"

lemma extends_trans: "extends be U st st1 \<Longrightarrow> extends be U st1 st2 \<Longrightarrow> extends be U st st2"
  by (auto simp: extends_def)

lemma compile_foreign_unit:
  assumes "long_hashes be" "name \<notin> fst ` U" "read_to_string root p \<noteq> None"
    and "cache_ok be U (bs_manifest st) (bs_objects st)"
    and c: "compile_unit be name p (file_hash be root p) ch dh code st = (r, st')"
  shows "extends be U st st'"
proof -
  from assms(3) obtain src where "read_to_string root p = Some src" by auto
  note len = long_file_hash [OF assms(1) this]
  have ok: "cache_ok be U (bs_manifest st') (bs_objects st')"
    by (rule compile_unit_ok [OF assms(4) len compiles_to_foreign [OF assms(2)] c])
  have "hm_get (bs_objects st') (object_path (be_cache_dir be) n s) = hm_get (bs_objects st) (object_path (be_cache_dir be) n s)"
    if "n \<in> fst ` U" "16 \<le> length s" for n s
    using that assms(2) by (intro compile_unit_frame [OF c len]) auto
  moreover have "\<exists>fs. bs_files st' = bs_files st @ fs"
    using c by (cases rule: compile_unit_cases [of st name "file_hash be root p" ch dh be p code]) auto
  ultimately show ?thesis using ok by (simp add: extends_def)
qed

lemma compile_patterns_ok:
  assumes "long_hashes be" "\<forall>(name, p, pt) \<in> set pts. name \<notin> fst ` U \<and> read_to_string root p \<noteq> None"
    and "cache_ok be U (bs_manifest st) (bs_objects st)" "compile_patterns be root contracts pts st = (r, st')"
  shows "extends be U st st'"
  using assms(2-4)
proof (induction pts arbitrary: st)
  case Nil
  then show ?case by (simp add: extends_def)
next
  case (Cons x pts)
  obtain name p pt where x: "x = (name, p, pt)" by (cases x)
  obtain r1 st1 where c: "compile_unit be name p (file_hash be root p) [] ''none'' (cg_pattern (be_backend be) pt name contracts) st = (r1, st1)"
    by fastforce
  have e: "extends be U st st1"
    using compile_foreign_unit [OF assms(1) _ _ Cons.prems(2) c] Cons.prems(1) x by auto
  show ?case
  proof (cases r1)
    case (Inl m)
    then show ?thesis using Cons.prems(3) c e by (simp add: x)
  next
    case (Inr u)
    then have "compile_patterns be root contracts pts st1 = (r, st')" using Cons.prems(3) c by (simp add: x)
    with Cons.IH [of st1] Cons.prems(1) e have "extends be U st1 st'" by (simp add: extends_def)
    with e show ?thesis by (rule extends_trans)
  qed
qed

lemma compile_entry_ok:
  assumes "long_hashes be" "known_program be U root input pr libs"
    and "cache_ok be U (bs_manifest st) (bs_objects st)" "compile_entry be root input pr libs st = (r, st')"
  shows "extends be U st st'"
  using compile_foreign_unit [OF assms(1) _ _ assms(3) assms(4) [unfolded compile_entry_def Let_def]] assms(2)
  by (simp add: known_program_def)

text \<open>The phase as a whole: its three loops under names.\<close>

lemma build_objects_cases:
  assumes "build_objects be can_save root input pr libs d = (r, d')"
  defines "contracts \<equiv> all_contracts (dependency_contracts (pr_behaviors pr) libs) libs"
    and "st0 \<equiv> \<lparr>bs_manifest = manifest_load (be_compiler_id be) (dk_manifest d), bs_objects = dk_objects d, bs_files = []\<rparr>"
  obtains (behaviors) m st1 where "compile_behaviors be root contracts (pr_behaviors pr) st0 = (Inl m, st1)" "r = Inl m"
  | (patterns) m st1 st2 where "compile_behaviors be root contracts (pr_behaviors pr) st0 = (Inr (), st1)"
      "compile_patterns be root contracts (pr_patterns pr) st1 = (Inl m, st2)" "r = Inl m"
  | (entry) m st1 st2 st3 where "compile_behaviors be root contracts (pr_behaviors pr) st0 = (Inr (), st1)"
      "compile_patterns be root contracts (pr_patterns pr) st1 = (Inr (), st2)"
      "compile_entry be root input pr libs st2 = (Inl m, st3)" "r = Inl m"
  | (complete) st1 st2 st3 where "compile_behaviors be root contracts (pr_behaviors pr) st0 = (Inr (), st1)"
      "compile_patterns be root contracts (pr_patterns pr) st1 = (Inr (), st2)"
      "compile_entry be root input pr libs st2 = (Inr (), st3)" "r = Inr (bs_files st3)"
      "d' = \<lparr>dk_manifest = (if can_save then Some (bs_manifest st3) else dk_manifest d), dk_objects = bs_objects st3\<rparr>"
  using assms(1) unfolding build_objects_def Let_def contracts_def [symmetric] st0_def [symmetric]
  by (auto split: prod.splits sum.splits)

lemma known_foreign:
  assumes "known_program be U root input pr libs"
  shows "\<forall>(name, p, pt) \<in> set (pr_patterns pr). name \<notin> fst ` U \<and> read_to_string root p \<noteq> None"
    and "known_behaviors be U root (all_contracts (dependency_contracts (pr_behaviors pr) libs) libs) (pr_behaviors pr)"
  using assms by (simp_all add: known_program_def)

lemma extendsD:
  assumes "extends be U st st'"
  shows "cache_ok be U (bs_manifest st') (bs_objects st')"
    and "\<exists>fs. bs_files st' = bs_files st @ fs"
    and "n \<in> fst ` U \<Longrightarrow> 16 \<le> length s \<Longrightarrow>
      hm_get (bs_objects st') (object_path (be_cache_dir be) n s) = hm_get (bs_objects st) (object_path (be_cache_dir be) n s)"
  using assms by (simp_all add: extends_def)

text \<open>A successful build, given a sound cache: what its loops leave.\<close>

lemma build_complete:
  assumes "long_hashes be" "collision_free be U" "disk_ok be U d" "known_program be U root input pr libs"
    and "build_objects be can_save root input pr libs d = (Inr files, d')"
  obtains m objs fs where "clean_objects be (all_contracts (dependency_contracts (pr_behaviors pr) libs) libs) (pr_behaviors pr) = Inr objs"
    and "files = object_files be root (pr_behaviors pr) @ fs"
    and "map (hm_get (dk_objects d')) (object_files be root (pr_behaviors pr)) = map Some objs"
    and "cache_ok be U m (dk_objects d')" "can_save \<Longrightarrow> dk_manifest d' = Some m"
  using assms(5)
proof (cases rule: build_objects_cases)
  case (complete st1 st2 st3)
  let ?bs = "pr_behaviors pr" and ?cs = "all_contracts (dependency_contracts (pr_behaviors pr) libs) libs"
  have st0: "cache_ok be U (bs_manifest \<lparr>bs_manifest = manifest_load (be_compiler_id be) (dk_manifest d), bs_objects = dk_objects d, bs_files = []\<rparr>)
      (bs_objects \<lparr>bs_manifest = manifest_load (be_compiler_id be) (dk_manifest d), bs_objects = dk_objects d, bs_files = []\<rparr>)"
    using assms(3) by (simp add: disk_ok_def)
  note b = compile_behaviors_ok [OF assms(1,2) known_foreign(2) [OF assms(4)] st0 complete(1)]
  obtain objs where o: "clean_objects be ?cs ?bs = Inr objs" "bs_files st1 = object_files be root ?bs"
      "map (hm_get (bs_objects st1)) (object_files be root ?bs) = map Some objs"
    using b by (auto split: sum.splits)
  have e: "extends be U st1 st3"
    using compile_patterns_ok [OF assms(1) known_foreign(1) [OF assms(4)] _ complete(2)] b
      compile_entry_ok [OF assms(1,4) _ complete(3)] by (blast dest: extendsD(1) intro: extends_trans)
  have "hm_get (bs_objects st3) f = hm_get (bs_objects st1) f" if "f \<in> set (object_files be root ?bs)" for f
  proof -
    from that obtain name p bh src where f: "f = object_path (be_cache_dir be) name (file_hash be root p)"
      and i: "(name, p, bh, src) \<in> set ?bs" by (auto simp: object_files_def)
    have "(name, src, externs ?cs bh) \<in> U" "read_to_string root p = Some src"
      using known_foreign(2) [OF assms(4)] i by (auto simp: known_behaviors_def)
    then show ?thesis unfolding f by (intro extendsD(3) [OF e] long_file_hash [OF assms(1)]) force
  qed
  then have "map (hm_get (bs_objects st3)) (object_files be root ?bs) = map Some objs" using o(3) by (metis map_cong)
  moreover obtain fs where "bs_files st3 = object_files be root ?bs @ fs" using extendsD(2) [OF e] o(2) by auto
  ultimately show ?thesis
    using that [of objs fs "bs_manifest st3"] o(1) complete(4,5) extendsD(1) [OF e] by auto
qed simp_all

lemma cached_disk_ok:
  assumes "cached_disk be U d" "long_hashes be" "collision_free be U"
  shows "disk_ok be U d"
  using assms(1)
proof (induction rule: cached_disk.induct)
  case (fresh d)
  then show ?case by (simp add: disk_ok_def manifest_load_unusable cache_ok_new)
next
  case (built d root input pr libs files d')
  from build_complete [OF assms(2,3) built.IH built.hyps(2,3)] obtain m
    where "cache_ok be U m (dk_objects d')" "dk_manifest d' = Some m" by blast
  then show ?case by (simp add: disk_ok_def cache_ok_def manifest_load_id)
qed

lemma compile_unit_Inl: "compile_unit be name p sh ch dh code st = (Inl m, st') \<Longrightarrow> code = Inl m"
  by (cases rule: compile_unit_cases [of st name sh ch dh be p code]) auto

lemma compile_patterns_Inl:
  "compile_patterns be root contracts pts st = (Inl m, st') \<Longrightarrow>
     \<exists>(name, p, pt) \<in> set pts. cg_pattern (be_backend be) pt name contracts = Inl m"
  by (induction be root contracts pts st rule: compile_patterns.induct)
    (auto split: prod.splits sum.splits dest: compile_unit_Inl)

definition entry_code :: "'o build_env \<Rightarrow> program \<Rightarrow> (string, contract) hmap \<Rightarrow> string + 'o" where
  "entry_code be pr libs = cg_entry (be_backend be) (pr_executable pr) (map (\<lambda>(n, _, b, _). (n, b_contract b)) (pr_behaviors pr))
     libs (map (\<lambda>(n, _, pt). (n, pt)) (pr_patterns pr))"

text \<open>
  C23. Incremental compilation is sound for behaviors. From any state of the cache directory that
  successful builds left, a build fails on the first behavior on which compiling everything fails, with
  its message, or it goes through all of them, and then, if it also compiles the patterns and the entry, the
  object files it links first are what compiling every behavior afresh gives. Hypotheses: hashes have at
  least 16 digits, no two inputs that a behavior ever had have the same keys, and no pattern or
  executable has a behavior's name.
\<close>

theorem incremental_build_exact:
  assumes "long_hashes be" "collision_free be U" "cached_disk be U d" "known_program be U root input pr libs"
  defines "contracts \<equiv> all_contracts (dependency_contracts (pr_behaviors pr) libs) libs"
  shows "case (clean_objects be contracts (pr_behaviors pr), build_objects be can_save root input pr libs d) of
      (Inl m, r, d') \<Rightarrow> r = Inl m
    | (Inr objs, Inr files, d') \<Rightarrow>
        map (hm_get (dk_objects d')) (take (length (pr_behaviors pr)) files) = map Some objs
    | (Inr objs, Inl m, d') \<Rightarrow> entry_code be pr libs = Inl m
        \<or> (\<exists>(name, p, pt) \<in> set (pr_patterns pr). cg_pattern (be_backend be) pt name contracts = Inl m)"
proof -
  note d = cached_disk_ok [OF assms(3,1,2)]
  obtain r d' where b: "build_objects be can_save root input pr libs d = (r, d')" by fastforce
  have st0: "cache_ok be U (bs_manifest \<lparr>bs_manifest = manifest_load (be_compiler_id be) (dk_manifest d), bs_objects = dk_objects d, bs_files = []\<rparr>)
      (bs_objects \<lparr>bs_manifest = manifest_load (be_compiler_id be) (dk_manifest d), bs_objects = dk_objects d, bs_files = []\<rparr>)"
    using d by (simp add: disk_ok_def)
  note loop = compile_behaviors_ok [OF assms(1,2) known_foreign(2) [OF assms(4)] st0, folded contracts_def]
  show ?thesis
    using b
  proof (cases rule: build_objects_cases)
    case (behaviors m st1)
    then show ?thesis using loop [OF behaviors(1) [folded contracts_def]] b by (auto split: sum.splits)
  next
    case (patterns m st1 st2)
    then show ?thesis using loop [OF patterns(1) [folded contracts_def]] compile_patterns_Inl [OF patterns(2) [folded contracts_def]] b
      by (auto split: sum.splits)
  next
    case (entry m st1 st2 st3)
    then show ?thesis using loop [OF entry(1) [folded contracts_def]] compile_unit_Inl [OF entry(3) [unfolded compile_entry_def Let_def]] b
      by (auto simp: entry_code_def split: sum.splits)
  next
    case (complete st1 st2 st3)
    with b have "build_objects be can_save root input pr libs d = (Inr (bs_files st3), d')" by simp
    from build_complete [OF assms(1,2) d assms(4) this] obtain objs fs where
      "clean_objects be contracts (pr_behaviors pr) = Inr objs" "bs_files st3 = object_files be root (pr_behaviors pr) @ fs"
      "map (hm_get (dk_objects d')) (object_files be root (pr_behaviors pr)) = map Some objs"
      unfolding contracts_def by blast
    then show ?thesis unfolding b complete(4) by (simp add: object_files_def)
  qed
qed

section \<open>Building again\<close>

definition up_to_date :: "'o build_state \<Rightarrow> string \<Rightarrow> string \<Rightarrow> string \<Rightarrow> string \<Rightarrow> bool" where
  "up_to_date st name sh ch dh \<longleftrightarrow> \<not> needs_recompile (bs_manifest st) (bs_objects st) name sh ch dh"

lemma hm_contains_insert: "hm_contains_key m k \<Longrightarrow> hm_contains_key (hm_insert j v m) k"
  by (simp add: hm_contains_key_def)

lemma compile_unit_up_to_date:
  assumes "compile_unit be name p sh ch dh code st = (Inr (), st')"
  shows "up_to_date st' name sh ch dh" "bs_files st' = bs_files st @ [object_path (be_cache_dir be) name sh]"
    and "n \<noteq> name \<Longrightarrow> up_to_date st n s c d \<Longrightarrow> up_to_date st' n s c d"
    and "cm_version (bs_manifest st') = cm_version (bs_manifest st)"
    and "cm_compiler_id (bs_manifest st') = cm_compiler_id (bs_manifest st)"
  using assms
  by (cases rule: compile_unit_cases [of st name sh ch dh be p code];
      auto simp: up_to_date_def written_def update_entry_def needs_recompile_def hm_contains_key_def reused_def split: option.splits if_splits)+

lemma compile_unit_again:
  "up_to_date st name sh ch dh \<Longrightarrow> compile_unit be name p sh ch dh code st = (Inr (), reused be name sh st)"
  by (simp add: up_to_date_def compile_unit_def reused_def Let_def)

lemma up_to_date_reused [simp]: "up_to_date (reused be n s st) = up_to_date st"
  by (simp add: up_to_date_def fun_eq_iff)

definition same_version :: "'o build_state \<Rightarrow> 'o build_state \<Rightarrow> bool" where
  "same_version st st' \<longleftrightarrow> cm_version (bs_manifest st') = cm_version (bs_manifest st)
     \<and> cm_compiler_id (bs_manifest st') = cm_compiler_id (bs_manifest st)"

lemma same_version_trans: "same_version st st1 \<Longrightarrow> same_version st1 st2 \<Longrightarrow> same_version st st2"
  by (simp add: same_version_def)

definition behavior_current :: "'o build_env \<Rightarrow> fs \<Rightarrow> (string, contract) hmap \<Rightarrow> 'o build_state \<Rightarrow> loaded_behavior \<Rightarrow> bool" where
  "behavior_current be root contracts st = (\<lambda>(name, p, b, src).
     up_to_date st name (file_hash be root p) (b_hash b) (deps_hash be (externs contracts b)))"

definition pattern_current :: "'o build_env \<Rightarrow> fs \<Rightarrow> 'o build_state \<Rightarrow> loaded_pattern \<Rightarrow> bool" where
  "pattern_current be root st = (\<lambda>(name, p, pt). up_to_date st name (file_hash be root p) [] ''none'')"

lemma compile_behaviors_current:
  assumes "compile_behaviors be root contracts bs st = (Inr (), st')" "distinct (map fst bs)"
  shows "list_all (behavior_current be root contracts st') bs \<and> bs_files st' = bs_files st @ object_files be root bs
    \<and> same_version st st' \<and> (\<forall>n s c d. n \<notin> set (map fst bs) \<and> up_to_date st n s c d \<longrightarrow> up_to_date st' n s c d)"
  using assms
proof (induction bs arbitrary: st)
  case (Cons x bs)
  obtain name p b src where x: "x = (name, p, b, src)" by (cases x)
  from Cons.prems(1) obtain st1 where c: "compile_unit be name p (file_hash be root p) (b_hash b) (deps_hash be (externs contracts b))
      (cg_behavior (be_backend be) b name (externs contracts b)) st = (Inr (), st1)"
    and r: "compile_behaviors be root contracts bs st1 = (Inr (), st')"
    by (auto simp: x split: prod.splits sum.splits)
  note u = compile_unit_up_to_date [OF c]
  have "name \<notin> set (map fst bs)" "distinct (map fst bs)" using Cons.prems(2) x by auto
  with Cons.IH [OF r] u show ?case
    by (auto simp: x behavior_current_def object_files_def same_version_def)
qed (simp add: object_files_def same_version_def)

lemma compile_patterns_current:
  assumes "compile_patterns be root contracts pts st = (Inr (), st')" "distinct (map fst pts)"
  shows "list_all (pattern_current be root st') pts
    \<and> bs_files st' = bs_files st @ map (\<lambda>(name, p, _). object_path (be_cache_dir be) name (file_hash be root p)) pts
    \<and> same_version st st' \<and> (\<forall>n s c d. n \<notin> set (map fst pts) \<and> up_to_date st n s c d \<longrightarrow> up_to_date st' n s c d)"
  using assms
proof (induction pts arbitrary: st)
  case (Cons x pts)
  obtain name p pt where x: "x = (name, p, pt)" by (cases x)
  from Cons.prems(1) obtain st1 where c: "compile_unit be name p (file_hash be root p) [] ''none''
      (cg_pattern (be_backend be) pt name contracts) st = (Inr (), st1)"
    and r: "compile_patterns be root contracts pts st1 = (Inr (), st')"
    by (auto simp: x split: prod.splits sum.splits)
  note u = compile_unit_up_to_date [OF c]
  have "name \<notin> set (map fst pts)" "distinct (map fst pts)" using Cons.prems(2) x by auto
  with Cons.IH [OF r] u show ?case by (auto simp: x pattern_current_def same_version_def)
qed (simp add: same_version_def)

text \<open>With every unit up to date the loops only collect the object files, whatever the backend.\<close>

lemma compile_behaviors_again:
  assumes "list_all (behavior_current be root contracts st) bs"
  shows "compile_behaviors (be\<lparr>be_backend := bk, be_now := now\<rparr>) root contracts bs st = (Inr (), st\<lparr>bs_files := bs_files st @ object_files be root bs\<rparr>)"
  using assms
  by (induction bs arbitrary: st)
    (auto simp: object_files_def behavior_current_def compile_unit_again file_hash_def deps_hash_def contract_hash_def fun_eq_iff
        reused_def up_to_date_def)

lemma compile_patterns_again:
  assumes "list_all (pattern_current be root st) pts"
  shows "compile_patterns (be\<lparr>be_backend := bk, be_now := now\<rparr>) root contracts pts st
    = (Inr (), st\<lparr>bs_files := bs_files st @ map (\<lambda>(name, p, _). object_path (be_cache_dir be) name (file_hash be root p)) pts\<rparr>)"
  using assms
  by (induction pts arbitrary: st)
    (auto simp: pattern_current_def compile_unit_again file_hash_def fun_eq_iff reused_def up_to_date_def)

lemma behavior_current_mono:
  assumes "list_all (behavior_current be root contracts st) bs"
    and "\<And>n s c h. n \<in> set (map fst bs) \<Longrightarrow> up_to_date st n s c h \<Longrightarrow> up_to_date st' n s c h"
  shows "list_all (behavior_current be root contracts st') bs"
  using assms by (induction bs) (auto simp: behavior_current_def)

lemma pattern_current_mono:
  assumes "list_all (pattern_current be root st) pts"
    and "\<And>n s c h. n \<in> set (map fst pts) \<Longrightarrow> up_to_date st n s c h \<Longrightarrow> up_to_date st' n s c h"
  shows "list_all (pattern_current be root st') pts"
  using assms by (induction pts) (auto simp: pattern_current_def)

text \<open>
  C28. A build that succeeded and saved its manifest is not repeated: building the same program again,
  its units having different names, compiles nothing, whatever the code generator would answer now; it
  links the same files and leaves the disk as it is.
\<close>

theorem rebuild_compiles_nothing:
  assumes "build_objects be True root input pr libs d = (Inr files, d')"
    and "distinct (map fst (pr_behaviors pr) @ map fst (pr_patterns pr) @ [ex_name (pr_executable pr)])"
  shows "build_objects (be\<lparr>be_backend := bk, be_now := now\<rparr>) can_save root input pr libs d' = (Inr files, d')"
  using assms(1)
proof (cases rule: build_objects_cases)
  case (complete st1 st2 st3)
  let ?cs = "all_contracts (dependency_contracts (pr_behaviors pr) libs) libs" and ?x = "pr_executable pr"
  let ?fs = "object_files be root (pr_behaviors pr)"
    and ?ps = "map (\<lambda>(name, p, _). object_path (be_cache_dir be) name (file_hash be root p)) (pr_patterns pr)"
  have dist: "distinct (map fst (pr_behaviors pr))" "distinct (map fst (pr_patterns pr))" using assms(2) by auto
  have apart: "n \<notin> set (map fst (pr_patterns pr)) \<and> n \<noteq> ex_name ?x" if "n \<in> set (map fst (pr_behaviors pr))" for n
    using that assms(2) by (metis Int_iff Un_iff distinct_append empty_iff list.set_intros(1) set_append)
  have apart2: "n \<noteq> ex_name ?x" if "n \<in> set (map fst (pr_patterns pr))" for n
    using that assms(2) by (metis Int_iff distinct_append empty_iff list.set_intros(1))
  note b = compile_behaviors_current [OF complete(1) dist(1)]
  note p = compile_patterns_current [OF complete(2) dist(2)]
  note e = compile_unit_up_to_date [OF complete(3) [unfolded compile_entry_def Let_def]]
  have version: "same_version \<lparr>bs_manifest = manifest_load (be_compiler_id be) (dk_manifest d), bs_objects = dk_objects d, bs_files = []\<rparr> st3"
    using b p e(4,5) by (simp add: same_version_def)
  have loaded: "manifest_load (be_compiler_id be) (Some (bs_manifest st3)) = bs_manifest st3"
    using version by (intro manifest_load_id) (auto simp: same_version_def manifest_load_def manifest_new_def split: option.splits)
  have keep: "up_to_date st3 n s c h" if "up_to_date st2 n s c h" "n \<noteq> ex_name ?x" for n s c h
    using e(3) that by blast
  have cb: "list_all (behavior_current be root ?cs st3) (pr_behaviors pr)"
  proof (rule behavior_current_mono [where st = st1])
    show "up_to_date st3 n s c h" if "n \<in> set (map fst (pr_behaviors pr))" "up_to_date st1 n s c h" for n s c h
    proof (rule keep)
      show "up_to_date st2 n s c h" "n \<noteq> ex_name ?x" using p that(2) apart [OF that(1)] by blast+
    qed
  qed (use b in simp)
  have cp: "list_all (pattern_current be root st3) (pr_patterns pr)"
  proof (rule pattern_current_mono [where st = st2])
    show "up_to_date st3 n s c h" if "n \<in> set (map fst (pr_patterns pr))" "up_to_date st2 n s c h" for n s c h
      by (rule keep [OF that(2) apart2 [OF that(1)]])
  qed (use p in simp)
  have files: "files = ?fs @ ?ps @ [object_path (be_cache_dir be) (ex_name ?x) (file_hash be root input)]"
    using b p e(2) complete(4) by simp
  let ?st = "\<lambda>fs. \<lparr>bs_manifest = bs_manifest st3, bs_objects = bs_objects st3, bs_files = fs\<rparr>"
  have at: "up_to_date (?st fs) = up_to_date st3" for fs by (simp add: up_to_date_def fun_eq_iff)
  have d': "d' = \<lparr>dk_manifest = Some (bs_manifest st3), dk_objects = bs_objects st3\<rparr>" using complete(5) by simp
  have 1: "compile_behaviors (be\<lparr>be_backend := bk, be_now := now\<rparr>) root ?cs (pr_behaviors pr) (?st []) = (Inr (), ?st ?fs)"
    using compile_behaviors_again [of be root ?cs "?st []"] cb by (simp add: behavior_current_def at)
  have 2: "compile_patterns (be\<lparr>be_backend := bk, be_now := now\<rparr>) root ?cs (pr_patterns pr) (?st ?fs) = (Inr (), ?st (?fs @ ?ps))"
    using compile_patterns_again [of be root "?st ?fs"] cp by (simp add: pattern_current_def at)
  have 3: "compile_entry (be\<lparr>be_backend := bk, be_now := now\<rparr>) root input pr libs (?st (?fs @ ?ps)) = (Inr (), ?st files)"
    using compile_unit_again [OF e(1) [unfolded fun_cong [OF fun_cong [OF fun_cong [OF fun_cong [OF at [of "?fs @ ?ps", symmetric]]]]]]] files
    by (simp add: compile_entry_def Let_def file_hash_def reused_def)
  show ?thesis
    using 1 2 3 loaded by (simp add: build_objects_def Let_def d')
qed simp_all

section \<open>Concrete builds\<close>

text \<open>
  A code generator whose object for a behavior, a pattern or an entry is the list of contracts it was
  given, and which fails on an entry with statements. The hash writes the bytes down in reverse.
\<close>

definition demo_backend :: "(string \<times> contract) list backend" where
  "demo_backend = \<lparr>cg_behavior = (\<lambda>_ _ ext. Inr ext), cg_pattern = (\<lambda>_ _ ext. Inr ext),
     cg_entry = (\<lambda>x deps libs _. if ex_entry x = [] then Inr (deps @ libs) else Inl ''codegen'')\<rparr>"

definition demo_build :: "(string \<times> contract) list build_env" where
  "demo_build = \<lparr>be_sha256 = rev, be_hex = (\<lambda>bs. replicate 16 (CHR ''0'') @ map (\<lambda>b. if b = 1 \<or> b = 49 then CHR ''1'' else CHR ''0'') bs),
     be_backend = demo_backend, be_cache_dir = [''.cache''], be_compiler_id = ''1'', be_now = 0\<rparr>"

definition demo_source :: "uchar list" where
  "demo_source = source_text (''BEHAVIOR a'' @ [newline_char] @ ''CONTRACT'' @ [newline_char] @ ''REQUIRES b''
     @ [newline_char] @ ''END'')"

definition demo_behavior :: behavior where
  "demo_behavior = (behavior_new ''a'')\<lparr>b_contract := empty_contract\<lparr>c_requires :=
     \<lparr>rq_behaviors = [\<lparr>br_name = ''b'', br_hash = []\<rparr>], rq_memory = []\<rparr>\<rparr>\<rparr>"

definition demo_files :: "node list \<Rightarrow> fs" where
  "demo_files entry = FsDir [(''a.beh'', FsFile (Some demo_source)), (''p.pattern'', FsFile (Some [80])), (''main.sigil'', FsFile (Some [48 + int (length entry)]))]"

definition demo_pattern :: pattern where
  "demo_pattern = \<lparr>pt_name = ''p'', pt_memory = [], pt_on_create = [], pt_behaviors = [], pt_on_destroy = []\<rparr>"

definition demo_program :: "node list \<Rightarrow> program" where
  "demo_program entry = \<lparr>pr_executable = \<lparr>ex_name = ''main'', ex_description = None, ex_uses = [], ex_entry = entry\<rparr>,
     pr_behaviors = [(''a'', [''a.beh''], demo_behavior, demo_source)], pr_patterns = [(''p'', [''p.pattern''], demo_pattern)]\<rparr>"

definition demo_libs :: "guarantee list \<Rightarrow> (string, contract) hmap" where
  "demo_libs gs = [(''b'', empty_contract\<lparr>c_guarantees := gs\<rparr>)]"

definition no_cache :: "(string \<times> contract) list disk" where
  "no_cache = \<lparr>dk_manifest = None, dk_objects = []\<rparr>"

definition demo_run :: "node list \<Rightarrow> guarantee list \<Rightarrow> (string \<times> contract) list disk \<Rightarrow> (string + path list) \<times> (string \<times> contract) list disk" where
  "demo_run entry gs d = build_objects demo_build True (demo_files entry) [''main.sigil''] (demo_program entry) (demo_libs gs) d"

definition linked :: "(string + path list) \<times> 'o disk \<Rightarrow> 'o option list" where
  "linked r = (case r of (Inr files, d) \<Rightarrow> map (hm_get (dk_objects d)) files | (Inl _, _) \<Rightarrow> [])"

text \<open>A sequence of builds, with the result and the linked objects of each.\<close>

fun demo_runs :: "(string \<times> contract) list disk \<Rightarrow> (node list \<times> guarantee list) list
    \<Rightarrow> ((string + path list) \<times> (string \<times> contract) list option list) list" where
  "demo_runs d [] = []"
| "demo_runs d ((entry, gs) # rest) = (case demo_run entry gs d of (r, d') \<Rightarrow> (r, linked (r, d')) # demo_runs d' rest)"

lemma demo_parse: "parse_source demo_source = Done demo_behavior"
proof -
  have "(case parse_source demo_source of Done b \<Rightarrow> b = demo_behavior | _ \<Rightarrow> False)" by code_simp
  then show ?thesis by (simp split: outcome.splits)
qed

lemma demo_externs: "externs (demo_libs gs) demo_behavior = demo_libs gs"
  by (simp add: externs_def demo_libs_def List.map_filter_def hm_get_def demo_behavior_def required_def behavior_new_def empty_contract_def)


text \<open>
  The key of a pattern says nothing of the behaviors it calls, and that of the entry nothing of
  libraries: after a library changes a contract, the objects of both are reused although compiling
  them afresh gives others.
\<close>

theorem library_change_leaves_stale_objects:
  "case (demo_runs no_cache [([], []), ([], [Pure])], demo_runs no_cache [([], [Pure])]) of
     ([(r1, l1), (r2, l2)], [(r3, l3)]) \<Rightarrow> r1 = r2 \<and> r2 = r3
       \<and> map2 (=) l2 l1 = [False, True, True] \<and> map2 (=) l2 l3 = [True, False, False]"
  by code_simp

section \<open>The positive results at these builds\<close>

definition demo_inputs :: build_inputs where
  "demo_inputs = {(''a'', demo_source, demo_libs []), (''a'', demo_source, demo_libs [Pure])}"

lemma demo_collision_free: "collision_free demo_build demo_inputs"
proof -
  have "deps_hash demo_build (demo_libs []) \<noteq> deps_hash demo_build (demo_libs [Pure])" by code_simp
  then show ?thesis by (auto simp: collision_free_def demo_inputs_def has_keys_def)
qed

lemma demo_known:
  assumes "gs = [] \<or> gs = [Pure]"
  shows "known_program demo_build demo_inputs (demo_files entry) [''main.sigil''] (demo_program entry) (demo_libs gs)"
proof -
  have "externs (all_contracts (dependency_contracts (pr_behaviors (demo_program entry)) (demo_libs gs)) (demo_libs gs)) demo_behavior
      = demo_libs gs"
    by (simp add: externs_def all_contracts_def dependency_contracts_def demo_program_def demo_libs_def List.map_filter_def
        demo_behavior_def required_def behavior_new_def empty_contract_def hm_contains_key_def)
  with assms show ?thesis
    by (auto simp: known_program_def known_behaviors_def demo_program_def demo_files_def read_to_string_def demo_inputs_def demo_parse)
qed

theorem incremental_build_exact_witness:
  "let d = snd (demo_run [] [] no_cache) in
     cached_disk demo_build demo_inputs d \<and> linked (demo_run [] [Pure] d) \<noteq> []
   \<and> hd (linked (demo_run [] [Pure] d)) = Some (demo_libs [Pure])"
proof -
  let ?d = "snd (demo_run [] [] no_cache)"
  have "case demo_runs no_cache [([], []), ([], [Pure])] of
      [(r1, l1), (r2, l2)] \<Rightarrow> r1 = r2 \<and> r1 \<noteq> Inl [] \<and> (case r1 of Inr (_ # _) \<Rightarrow> True | _ \<Rightarrow> False)" by code_simp
  then obtain f fs d1 d2 where r: "demo_run [] [] no_cache = (Inr (f # fs), d1)" "demo_run [] [Pure] d1 = (Inr (f # fs), d2)"
    by (auto split: prod.splits list.splits sum.splits)
  have long: "long_hashes demo_build" by (simp add: long_hashes_def demo_build_def)
  have "cached_disk demo_build demo_inputs no_cache" by (rule cached_disk.fresh) (simp add: no_cache_def usable_def)
  then have d1: "cached_disk demo_build demo_inputs d1"
    by (rule cached_disk.built [OF _ demo_known r(1) [unfolded demo_run_def]]) simp
  have "clean_objects demo_build (all_contracts (dependency_contracts (pr_behaviors (demo_program [])) (demo_libs [Pure])) (demo_libs [Pure]))
      (pr_behaviors (demo_program [])) = Inr [demo_libs [Pure]]" by code_simp
  with incremental_build_exact [OF long demo_collision_free d1 demo_known, of "[Pure]" "[]" True] r(2)
  have "map (hm_get (dk_objects d2)) (take (length (pr_behaviors (demo_program []))) (f # fs)) = [Some (demo_libs [Pure])]"
    by (simp add: demo_run_def)
  then show ?thesis using r d1 by (simp add: linked_def demo_program_def)
qed

theorem rebuild_compiles_nothing_witness:
  "let r = demo_run [] [] no_cache; mute = demo_backend\<lparr>cg_behavior := \<lambda>_ _ _. Inl ''called''\<rparr>
   in build_objects (demo_build\<lparr>be_backend := mute, be_now := 1\<rparr>) False (demo_files []) [''main.sigil''] (demo_program []) (demo_libs []) (snd r) = r"
proof -
  have "case demo_runs no_cache [([], [])] of [(Inr _, _)] \<Rightarrow> True | _ \<Rightarrow> False" by code_simp
  then obtain files d where r: "demo_run [] [] no_cache = (Inr files, d)" by (auto split: prod.splits sum.splits)
  show ?thesis unfolding r Let_def snd_conv
    by (rule rebuild_compiles_nothing [OF r [unfolded demo_run_def]]) (simp add: demo_program_def)
qed

end
