(* ===== verification/Sigil_Library.thy ===== *)
theory Sigil_Library
  imports Sigil_Cache
begin

text \<open>
  Libraries, after \<^verbatim>\<open>compiler/src/main.rs\<close>: compiling a directory of behavior files
  (\<^verbatim>\<open>--lib\<close>), writing the index, the contract registry and the catalog of a library, and
  reading index and registry back when a program links the library. The registry is read a second
  time, into the behavior graph, by \<^verbatim>\<open>compiler/src/graph/builder.rs\<close>.

  A text file is written from a string of bytes and read as a list of code points;
  \<open>utf8_decode\<close> is what is between the two.
\<close>

section \<open>Text\<close>

definition follow_bits :: "string \<Rightarrow> nat \<Rightarrow> uchar" where
  "follow_bits s i = (if i < length s then of_char (s ! i) - 0x80 else 0)"

function utf8_decode :: "string \<Rightarrow> uchar list" where
  "utf8_decode [] = []"
| "utf8_decode (c # cs) =
     (let b = of_char c in
      if b < 0x80 then b # utf8_decode cs
      else if b < 0xE0 then ((b - 0xC0) * 64 + follow_bits cs 0) # utf8_decode (drop 1 cs)
      else if b < 0xF0 then ((b - 0xE0) * 4096 + follow_bits cs 0 * 64 + follow_bits cs 1) # utf8_decode (drop 2 cs)
      else ((b - 0xF0) * 262144 + follow_bits cs 0 * 4096 + follow_bits cs 1 * 64 + follow_bits cs 2)
             # utf8_decode (drop 3 cs))"
  by pat_completeness auto
termination by (relation "measure length") auto

definition text_lines :: "string \<Rightarrow> string list" where
  "text_lines s = map utf8_text (source_lines [] (utf8_decode s))"

section \<open>The behavior files of a directory\<close>

fun beh_files_in_dir :: "path \<Rightarrow> fs \<Rightarrow> path list"
  and beh_files_in_entries :: "path \<Rightarrow> (string \<times> fs) list \<Rightarrow> path list" where
  "beh_files_in_dir dir (FsFile _) = []"
| "beh_files_in_dir dir (FsDir es) = beh_files_in_entries dir es"
| "beh_files_in_entries dir [] = []"
| "beh_files_in_entries dir ((n, t) # es) =
     (case t of
        FsDir _ \<Rightarrow> beh_files_in_dir (dir @ [n]) t
      | FsFile _ \<Rightarrow> if extension n = Some ''beh'' then [dir @ [n]] else [])
     @ beh_files_in_entries dir es"

definition find_all_beh_files :: "fs \<Rightarrow> path \<Rightarrow> path list" where
  "find_all_beh_files root dir = (case fs_get root dir of None \<Rightarrow> [] | Some t \<Rightarrow> sort (beh_files_in_dir dir t))"

section \<open>Compiling a library\<close>

datatype library_error =
    FrontError program_error
  | NotADirectory path
  | NoBehaviorFiles path
  | DuplicateBehavior string path

fun parse_behaviors :: "load_env \<Rightarrow> path list \<Rightarrow> fs \<Rightarrow> loaded_behavior list outcome \<times> fs" where
  "parse_behaviors env [] root = (Done [], root)"
| "parse_behaviors env (p # ps) root =
     (case parse_behavior_file env p root of
        (Done (b, src), root') \<Rightarrow>
          (case parse_behaviors env ps root' of
             (Done bs, root'') \<Rightarrow> (Done ((b_name b, p, b, src) # bs), root'')
           | (Fails e, root'') \<Rightarrow> (Fails e, root'')
           | (Diverges, root'') \<Rightarrow> (Diverges, root''))
      | (Fails e, root') \<Rightarrow> (Fails e, root')
      | (Diverges, root') \<Rightarrow> (Diverges, root'))"

definition library_contracts_of :: "loaded_behavior list \<Rightarrow> (string, contract) hmap" where
  "library_contracts_of bs = fold (\<lambda>(name, _, b, _) m. hm_insert name (b_contract b) m) bs []"

definition non_native :: "loaded_behavior list \<Rightarrow> loaded_behavior list" where
  "non_native bs = filter (\<lambda>(_, _, b, _). \<not> b_is_native b) bs"

fun find_duplicate :: "string hset \<Rightarrow> loaded_behavior list \<Rightarrow> (string \<times> path) option" where
  "find_duplicate seen [] = None"
| "find_duplicate seen ((name, p, _, _) # bs) =
     (if name \<in> set seen then Some (name, p) else find_duplicate (hs_insert name seen) bs)"

text \<open>Everything before code generation: discovery, parsing, validation and the check of the names.\<close>

definition library_front ::
  "(byte list \<Rightarrow> byte list) \<Rightarrow> (byte list \<Rightarrow> string) \<Rightarrow> load_env \<Rightarrow> path \<Rightarrow> fs
     \<Rightarrow> (library_error + loaded_behavior list) option \<times> fs" where
  "library_front sha256 hex_encode env dir root =
     (if \<not> is_dir root dir then (Some (Inl (NotADirectory dir)), root)
      else (let files = find_all_beh_files root dir in
        if files = [] then (Some (Inl (NoBehaviorFiles dir)), root)
        else (case parse_behaviors env files root of
            (Fails e, root') \<Rightarrow> (Some (Inl (FrontError (LoadFailed e))), root')
          | (Diverges, root') \<Rightarrow> (None, root')
          | (Done bs, root') \<Rightarrow>
              (case validate_all sha256 hex_encode (library_contracts_of bs) (non_native bs) of
                 NoAnswer \<Rightarrow> (None, root')
               | Rejected e \<Rightarrow> (Some (Inl (FrontError e)), root')
               | Accepted _ \<Rightarrow>
                   (case find_duplicate [] bs of
                      Some (name, p) \<Rightarrow> (Some (Inl (DuplicateBehavior name p)), root')
                    | None \<Rightarrow> (Some (Inr bs), root'))))))"

definition library_objects ::
  "'o build_env \<Rightarrow> bool \<Rightarrow> fs \<Rightarrow> loaded_behavior list \<Rightarrow> 'o disk \<Rightarrow> (string + path list) \<times> 'o disk" where
  "library_objects be can_save root bs d =
     (case compile_behaviors be root (library_contracts_of bs) (non_native bs)
             \<lparr>bs_manifest = manifest_load (be_compiler_id be) (dk_manifest d), bs_objects = dk_objects d, bs_files = []\<rparr> of
        (Inl m, st) \<Rightarrow> (Inl m, d\<lparr>dk_objects := bs_objects st\<rparr>)
      | (Inr _, st) \<Rightarrow>
          (Inr (bs_files st),
           \<lparr>dk_manifest = (if can_save then Some (bs_manifest st) else dk_manifest d), dk_objects = bs_objects st\<rparr>))"

section \<open>What is written about a library\<close>

definition index_text :: "loaded_behavior list \<Rightarrow> string" where
  "index_text bs = concat (map (\<lambda>(name, _, b, _). name @ ''@'' @ b_hash b @ [newline_char]) bs)"

fun type_text :: "stype \<Rightarrow> string" where
  "type_text TBytes = ''bytes''"
| "type_text TInt = ''int''"
| "type_text TFloat = ''float''"
| "type_text TString = ''string''"

fun guarantee_text :: "guarantee \<Rightarrow> string" where
  "guarantee_text Pure = ''pure''"
| "guarantee_text NoAlloc = ''no_alloc''"
| "guarantee_text WritesOutput = ''writes_output''"

definition line :: "string \<Rightarrow> string" where
  "line s = s @ [newline_char]"

definition param_line :: "string \<Rightarrow> parameter \<Rightarrow> string" where
  "param_line keyword p = line (''  '' @ keyword @ '' '' @ p_name p @ '' '' @ type_text (p_typ p) @ '' '' @ usize_to_dec (p_size p))"

definition requires_line :: "behavior_ref list \<Rightarrow> string" where
  "requires_line rs = (if rs = [] then []
     else line (''  REQUIRES'' @ concat (map (\<lambda>r. '' '' @ br_name r @ ''@'' @ br_hash r) rs)))"

definition guarantees_line :: "guarantee list \<Rightarrow> string" where
  "guarantees_line gs = (if gs = [] then []
     else line (''  GUARANTEES'' @ concat (map (\<lambda>g. '' '' @ guarantee_text g) gs)))"

definition description_lines :: "string option \<Rightarrow> string" where
  "description_lines d = (case d of
     None \<Rightarrow> []
   | Some desc \<Rightarrow> line ''DESCRIPTION'' @ concat (map (\<lambda>l. line (''  '' @ l)) (text_lines desc)))"

definition registry_block :: "behavior \<Rightarrow> string" where
  "registry_block b =
     line (''BEHAVIOR '' @ b_name b) @ description_lines (b_description b) @ line ''CONTRACT''
     @ concat (map (param_line ''INPUT'') (c_inputs (b_contract b)))
     @ concat (map (param_line ''OUTPUT'') (c_outputs (b_contract b)))
     @ requires_line (required b) @ guarantees_line (c_guarantees (b_contract b))
     @ line (''HASH '' @ b_hash b) @ line ''END'' @ [newline_char]"

definition registry_text :: "loaded_behavior list \<Rightarrow> string" where
  "registry_text bs = concat (map (\<lambda>(_, _, b, _). registry_block b) bs)"

subsection \<open>The catalog\<close>

fun words_of :: "uchar list \<Rightarrow> uchar list \<Rightarrow> uchar list list" where
  "words_of cur [] = (if cur = [] then [] else [cur])"
| "words_of cur (c # cs) =
     (if is_whitespace c then (if cur = [] then [] else [cur]) @ words_of [] cs else words_of (cur @ [c]) cs)"

fun join_words :: "uchar list list \<Rightarrow> uchar list" where
  "join_words [] = []"
| "join_words [w] = w"
| "join_words (w # ws) = w @ [32] @ join_words ws"

definition ends_with :: "uchar list \<Rightarrow> uchar list \<Rightarrow> bool" where
  "ends_with s t \<longleftrightarrow> length t \<le> length s \<and> drop (length s - length t) s = t"

function sentence_end :: "uchar list \<Rightarrow> nat \<Rightarrow> nat" where
  "sentence_end flat from_pos =
     (case find_sub (source_text ''. '') (drop from_pos flat) of
        None \<Rightarrow> length flat
      | Some pos \<Rightarrow>
          (let dot = from_pos + pos; upto_dot = take (dot + 1) flat in
           if ends_with upto_dot (source_text ''e.g.'') \<or> ends_with upto_dot (source_text ''i.e.'')
           then sentence_end flat (dot + 1)
           else dot + 1))"
  by pat_completeness auto
termination
  by (relation "measure (\<lambda>(s, n). length s - n)") (auto simp: source_text_def dest!: find_sub_Some)

declare sentence_end.simps [simp del]

definition purpose :: "string option \<Rightarrow> string" where
  "purpose d = (case d of
     None \<Rightarrow> []
   | Some desc \<Rightarrow> (let flat = join_words (words_of [] (utf8_decode desc)) in utf8_text (take (sentence_end flat 0) flat)))"

definition names_text :: "string list \<Rightarrow> string" where
  "names_text ns = (if ns = [] then ''()'' else join_with '', '' ns)"

definition catalog_line :: "string \<times> behavior \<Rightarrow> string" where
  "catalog_line = (\<lambda>(name, b). line (''- `'' @ name @ ''` ('' @ names_text (map p_name (c_inputs (b_contract b))) @ '' ''
     @ utf8 0x2192 @ '' '' @ names_text (map p_name (c_outputs (b_contract b))) @ '') '' @ utf8 0x2014 @ '' ''
     @ purpose (b_description b)))"

definition catalog_text :: "loaded_behavior list \<Rightarrow> string" where
  "catalog_text bs =
     line ''# Standard Library Catalog'' @ [newline_char]
     @ line (''One line per behavior '' @ utf8 0x2014 @ '' name, (inputs '' @ utf8 0x2192
         @ '' outputs), and purpose. Full contracts (sizes, hashes, guarantees) are in `contracts.registry`.'')
     @ [newline_char]
     @ concat (map catalog_line (sort_key fst (map (\<lambda>(n, _, b, _). (n, b)) bs)))"

section \<open>Reading a library\<close>

definition index_dir :: "path \<Rightarrow> path" where
  "index_dir lib_path = (case parent_of lib_path of Some p \<Rightarrow> p | None \<Rightarrow> []) @ [''.generated'']"

definition index_symbols :: "uchar list \<Rightarrow> string hset" where
  "index_symbols content =
     fold (\<lambda>l s. let name = trim_text (takeWhile (\<lambda>c. c \<noteq> 64) l) in
                 if name \<noteq> [] then hs_insert (utf8_text name) s else s)
       (source_lines [] content) []"

text \<open>The symbols and the contracts of a library; \<^verbatim>\<open>None\<close> is a file that cannot be read.\<close>

definition load_library_symbols :: "fs \<Rightarrow> path \<Rightarrow> string hset option" where
  "load_library_symbols root lib_path =
     (let p = index_dir lib_path @ [''behaviors.index''] in
      if \<not> path_exists root p then Some []
      else map_option index_symbols (read_to_string root p))"

definition block_start :: "uchar list" where
  "block_start = source_text ''BEHAVIOR ''"

definition block_end :: "uchar list" where
  "block_end = 10 # source_text ''END''"

function registry_blocks :: "uchar list \<Rightarrow> uchar list list" where
  "registry_blocks content =
     (case find_sub block_start content of
        None \<Rightarrow> []
      | Some i \<Rightarrow>
          (let rest = drop i content in
           case find_sub block_end rest of
             None \<Rightarrow> []
           | Some e \<Rightarrow> take (e + 4) rest # registry_blocks (drop (e + 4) rest)))"
  by pat_completeness auto
termination
  by (relation "measure length") (auto simp: block_start_def source_text_def dest!: find_sub_Some)

declare registry_blocks.simps [simp del]

definition block_behavior :: "uchar list \<Rightarrow> behavior option" where
  "block_behavior block = (case parse_source block of Done b \<Rightarrow> Some b | _ \<Rightarrow> None)"

definition registry_contracts :: "uchar list \<Rightarrow> (string, contract) hmap" where
  "registry_contracts content =
     fold (\<lambda>b m. hm_insert (b_name b) (b_contract b) m) (List.map_filter block_behavior (registry_blocks content)) []"

definition load_library_contracts :: "fs \<Rightarrow> path \<Rightarrow> (string, contract) hmap option" where
  "load_library_contracts root lib_path =
     (let p = index_dir lib_path @ [''contracts.registry''] in
      if \<not> path_exists root p then Some []
      else map_option registry_contracts (read_to_string root p))"

text \<open>The libraries a program links; one that cannot be read is passed over with a warning.\<close>

definition load_libraries :: "fs \<Rightarrow> path list \<Rightarrow> string hset \<times> (string, contract) hmap" where
  "load_libraries root libs = fold (\<lambda>lib (symbols, contracts).
     (case load_library_symbols root lib of Some s \<Rightarrow> fold hs_insert s symbols | None \<Rightarrow> symbols,
      case load_library_contracts root lib of
        Some m \<Rightarrow> fold (\<lambda>(name, c). hm_insert name c) m contracts | None \<Rightarrow> contracts)) libs ([], [])"

subsection \<open>Into the graph\<close>

definition registry_hashed_contracts :: "uchar list \<Rightarrow> (string, contract \<times> string) hmap" where
  "registry_hashed_contracts content =
     fold (\<lambda>b m. hm_insert (b_name b) (b_contract b, b_hash b) m)
       (List.map_filter block_behavior (registry_blocks content)) []"

definition load_library_into_graph :: "fs \<Rightarrow> path \<Rightarrow> path \<Rightarrow> project_graph \<Rightarrow> (path + nat) \<times> project_graph" where
  "load_library_into_graph root registry_path library_path g =
     (case read_to_string root registry_path of
        None \<Rightarrow> (Inl registry_path, g)
      | Some content \<Rightarrow>
          (let contracts = registry_hashed_contracts content in
           (Inr (length contracts),
            fold (\<lambda>(name, c, h) g. add_library_node g (contract_to_ref name c h (path_text library_path))) contracts g)))"

end
