(* ===== verification/Sigil_Library_Props.thy ===== *)
theory Sigil_Library_Props
  imports Sigil_Library
begin

text \<open>
  What compiling a library checks and what it leaves unchecked, and that the index it writes is read
  back as the names of its behaviors.
\<close>

section \<open>What an accepted library is\<close>

lemma parse_behaviors_Done:
  assumes "\<not> env_fix env" "parse_behaviors env ps root = (Done bs, root')"
  shows "root' = root \<and> map (\<lambda>(_, p, _, _). p) bs = ps
    \<and> list_all (\<lambda>(name, p, b, src). name = b_name b \<and> read_to_string root p = Some src \<and> parse_source src = Done b) bs"
  using assms(2)
proof (induction ps arbitrary: bs root root')
  case (Cons p ps)
  from Cons.prems obtain b src root1 where b: "parse_behavior_file env p root = (Done (b, src), root1)"
    by (auto split: prod.splits outcome.splits)
  then have f: "root1 = root" "read_to_string root p = Some src" "parse_source src = Done b"
    using assms(1) by (auto simp: parse_behavior_file_def Let_def split: option.splits outcome.splits)
  from Cons.prems b f obtain rest where r: "parse_behaviors env ps root = (Done rest, root')" "bs = (b_name b, p, b, src) # rest"
    by (auto split: prod.splits outcome.splits)
  show ?case using Cons.IH [OF r(1)] r(2) f by auto
qed simp

lemma find_duplicate_None: "find_duplicate seen bs = None \<longleftrightarrow> distinct (map fst bs) \<and> set seen \<inter> set (map fst bs) = {}"
  by (induction seen bs rule: find_duplicate.induct) auto

lemma library_contracts_get:
  "distinct (map fst bs) \<Longrightarrow> (name, p, b, src) \<in> set bs \<Longrightarrow> hm_get (library_contracts_of bs) name = Some (b_contract b)"
proof -
  have get: "hm_get (fold (\<lambda>(name, _, b, _) m. hm_insert name (b_contract b) m) bs m) n
      = (case map_of (rev (map (\<lambda>(n, _, b, _). (n, b_contract b)) bs)) n of None \<Rightarrow> hm_get m n | Some c \<Rightarrow> Some c)" for m n
    by (induction bs arbitrary: m) (auto simp: map_add_def split: option.splits)
  assume d: "distinct (map fst bs)" and i: "(name, p, b, src) \<in> set bs"
  have "map fst (rev (map (\<lambda>(n, _, b, _). (n, b_contract b)) bs)) = rev (map fst bs)"
    by (simp add: rev_map case_prod_beta comp_def)
  then have "map_of (rev (map (\<lambda>(n, _, b, _). (n, b_contract b)) bs)) name = Some (b_contract b)"
    using d i by (intro map_of_is_SomeI) force+
  then show ?thesis by (simp add: library_contracts_of_def get)
qed


section \<open>The index\<close>

lemma ascii_small: "is_ascii_alphanumeric c \<or> c = CHR ''_'' \<or> c = CHR ''-'' \<Longrightarrow> ascii c < 0x80 \<and> 32 < ascii c \<and> ascii c \<noteq> 64"
proof -
  have "ascii c = int (of_char c)" by (simp add: ascii_def of_nat_of_char)
  then show "is_ascii_alphanumeric c \<or> c = CHR ''_'' \<or> c = CHR ''-'' \<Longrightarrow> ?thesis"
    by (auto simp: char_class_defs)
qed

lemma ident_chars:
  assumes "ident_name s" "c \<in> set (source_text s)"
  shows "32 < c \<and> c < 0x80 \<and> c \<noteq> 64"
  using assms ascii_small by (auto simp: ident_name_def source_text_def list_all_iff)

lemma decode_ascii: "\<forall>c \<in> set s. ascii c < 0x80 \<Longrightarrow> utf8_decode (s @ t) = source_text s @ utf8_decode t"
  by (induction s) (auto simp: source_text_def ascii_def Let_def)

lemma utf8_ascii: "\<forall>c \<in> set s. ascii c < 0x80 \<Longrightarrow> utf8_text (source_text s) = s"
  by (induction s) (auto simp: utf8_text_def source_text_def utf8_def ascii_def)

lemma source_lines_line:
  "10 \<notin> set l \<Longrightarrow> source_lines cur (l @ 10 # rest) = strip_cr (cur @ l) # source_lines [] rest"
  by (induction l arbitrary: cur) auto

lemma strip_cr_id: "13 \<notin> set l \<Longrightarrow> strip_cr l = l"
  by (metis last_in_set strip_cr_def)

lemma trim_id:
  assumes "\<forall>c \<in> set s. \<not> is_whitespace c"
  shows "trim_text s = s"
proof -
  have *: "dropWhile is_whitespace t = t" if "\<forall>c \<in> set t. \<not> is_whitespace c" for t
    using that by (cases t) auto
  show ?thesis using assms by (simp add: trim_text_def *)
qed

lemma ident_no_space: "ident_name s \<Longrightarrow> \<forall>c \<in> set (source_text s). \<not> is_whitespace c"
  using ident_chars by (fastforce simp: is_whitespace_def)

definition index_ok :: "loaded_behavior list \<Rightarrow> bool" where
  "index_ok bs \<longleftrightarrow> list_all (\<lambda>(name, _, b, _). ident_name name \<and> name \<noteq> [] \<and> ident_name (b_hash b)) bs"

lemma index_line:
  assumes "ident_name name" "ident_name h"
  shows "utf8_decode (name @ ''@'' @ h @ [newline_char] @ t) = (source_text name @ 64 # source_text h) @ 10 # utf8_decode t"
    and "source_lines [] ((source_text name @ 64 # source_text h) @ 10 # r) = (source_text name @ 64 # source_text h) # source_lines [] r"
proof -
  have nl: "ascii newline_char = 10" "ascii (CHR ''@'') = 64" by code_simp+
  have "\<forall>c \<in> set (name @ ''@'' @ h @ [newline_char]). ascii c < 0x80"
    using ident_chars [OF assms(1)] ident_chars [OF assms(2)] nl by (auto simp: source_text_def)
  from decode_ascii [OF this, of t]
  show "utf8_decode (name @ ''@'' @ h @ [newline_char] @ t) = (source_text name @ 64 # source_text h) @ 10 # utf8_decode t"
    by (simp add: source_text_def nl)
  let ?l = "source_text name @ 64 # source_text h"
  have l: "10 \<notin> set ?l" "13 \<notin> set ?l" using ident_chars [OF assms(1)] ident_chars [OF assms(2)] by fastforce+
  show "source_lines [] (?l @ 10 # r) = ?l # source_lines [] r"
    using source_lines_line [OF l(1)] strip_cr_id [OF l(2)] by simp
qed

lemma index_lines:
  "index_ok bs \<Longrightarrow> source_lines [] (utf8_decode (index_text bs))
     = map (\<lambda>(name, _, b, _). source_text name @ 64 # source_text (b_hash b)) bs"
proof (induction bs)
  case (Cons x bs)
  obtain name p b src where x: "x = (name, p, b, src)" by (cases x)
  with Cons.prems have i: "ident_name name" "ident_name (b_hash b)" "index_ok bs" by (auto simp: index_ok_def)
  show ?case
    using index_line(1) [OF i(1,2), of "index_text bs"] index_line(2) [OF i(1,2)] Cons.IH [OF i(3)]
    by (simp add: x index_text_def)
qed (simp add: index_text_def index_ok_def)

text \<open>
  The index of a library is read back as exactly the names of its behaviors, in their order, when
  names and hashes are made of identifier characters.
\<close>

theorem index_roundtrip:
  assumes "index_ok bs"
  shows "index_symbols (utf8_decode (index_text bs)) = fold hs_insert (map fst bs) []"
proof -
  have *: "fold (\<lambda>l s. let name = trim_text (takeWhile (\<lambda>c. c \<noteq> 64) l) in
                 if name \<noteq> [] then hs_insert (utf8_text name) s else s)
       (map (\<lambda>(name, _, b, _). source_text name @ 64 # source_text (b_hash b)) bs) s = fold hs_insert (map fst bs) s" for s
    using assms
  proof (induction bs arbitrary: s)
    case (Cons x bs)
    obtain name p b src where x: "x = (name, p, b, src)" by (cases x)
    with Cons.prems have i: "ident_name name" "name \<noteq> []" "index_ok bs" by (auto simp: index_ok_def)
    have "takeWhile (\<lambda>c. c \<noteq> 64) (source_text name @ 64 # source_text (b_hash b)) = source_text name"
      using ident_chars [OF i(1)] by (subst takeWhile_append2) auto
    moreover have "source_text name \<noteq> []" using i(2) by (simp add: source_text_def)
    moreover have "utf8_text (source_text name) = name"
      using ident_chars [OF i(1)] by (intro utf8_ascii) (auto simp: source_text_def)
    ultimately show ?case using Cons.IH [OF i(3)] trim_id [OF ident_no_space [OF i(1)]] by (simp add: x)
  qed simp
  show ?thesis unfolding index_symbols_def index_lines [OF assms] by (rule *)
qed

section \<open>Concrete libraries\<close>

definition impure_lib :: fs where
  "impure_lib = FsDir [(''lib'', FsDir
     [(''b.beh'', lines_of [''BEHAVIOR b'', ''CONTRACT'', ''IMPLEMENTATION'', ''  x = 1'', ''END'']),
      (''a.beh'', lines_of [''BEHAVIOR a'', ''CONTRACT'', ''  REQUIRES b'', ''  GUARANTEES pure'', ''COMPOSITION'', ''  CALL b'', ''END''])])]"

text \<open>
  Compiling a library leaves out the checks that span behaviors: a library is accepted in which a
  behavior declares itself pure and calls one that does not, which the whole-graph validation of a program
  rejects. And behaviors whose requirements are not pinned, or that have no hash, are written to the
  registry in a form that is not read back.
\<close>

theorem library_skips_graph_checks:
  "case library_front (\<lambda>_. []) (\<lambda>_. []) demo_env [''lib''] impure_lib of
     (Some (Inr bs), _) \<Rightarrow> map fst bs = [''a'', ''b'']
       \<and> map_option isl (whole_graph_validation (\<lambda>_. []) (\<lambda>_. []) (map (\<lambda>(_, p, b, _). (path_text p, b)) bs) []) = Some True
       \<and> registry_contracts (utf8_decode (registry_text bs)) = []
   | _ \<Rightarrow> False"
  by code_simp

lemma impure_lib_accepted:
  "case library_front (\<lambda>_. []) (\<lambda>_. []) demo_env [''lib''] impure_lib of
     (Some (Inr bs), _) \<Rightarrow> map (\<lambda>(n, p, b, src). (n, b_hash b)) bs = [(''a'', []), (''b'', [])]
   | _ \<Rightarrow> False"
  by code_simp


theorem index_roundtrip_witness:
  "case library_front (\<lambda>_. []) (\<lambda>_. []) demo_env [''lib''] impure_lib of
     (Some (Inr bs), _) \<Rightarrow> index_symbols (utf8_decode (index_text bs)) = [''a'', ''b'']
   | _ \<Rightarrow> False"
proof -
  obtain bs root' where l: "library_front (\<lambda>_. []) (\<lambda>_. []) demo_env [''lib''] impure_lib = (Some (Inr bs), root')"
    and n: "map (\<lambda>(n, p, b, src). (n, b_hash b)) bs = [(''a'', []), (''b'', [])]"
    using impure_lib_accepted by (auto split: prod.splits option.splits sum.splits)
  from n obtain p b s p' b' s' where bs: "bs = [(''a'', p, b, s), (''b'', p', b', s')]" "b_hash b = []" "b_hash b' = []"
    by (auto simp: map_eq_Cons_conv)
  have "index_ok bs" unfolding bs index_ok_def by (simp add: bs ident_name_def char_class_defs)
  from index_roundtrip [OF this] show ?thesis by (simp add: l) (simp add: bs hs_insert_def)
qed

end
