(* ===== verification/Sigil_Source.thy ===== *)
theory Sigil_Source
  imports Sigil_Files
begin

text \<open>
  Source files for messages, after \<^verbatim>\<open>compiler/src/source.rs\<close>. The content is the
  string of its UTF-8 bytes, and positions are byte offsets, as in the code. Slicing at an offset
  inside a character is a panic.
\<close>

section \<open>A file and its lines\<close>

record source_file =
  sf_path :: path
  sf_content :: string
  sf_line_starts :: "nat list"

fun starts_after :: "nat \<Rightarrow> string \<Rightarrow> nat list" where
  "starts_after i [] = []"
| "starts_after i (c # cs) = (if c = newline_char then Suc i # starts_after (Suc i) cs else starts_after (Suc i) cs)"

definition compute_line_starts :: "string \<Rightarrow> nat list" where
  "compute_line_starts content = 0 # starts_after 0 content"

definition source_file_new :: "path \<Rightarrow> string \<Rightarrow> source_file" where
  "source_file_new p content = \<lparr>sf_path = p, sf_content = content, sf_line_starts = compute_line_starts content\<rparr>"

definition source_file_load :: "fs \<Rightarrow> path \<Rightarrow> source_file option" where
  "source_file_load root p = map_option (\<lambda>content. source_file_new p (utf8_text content)) (read_to_string root p)"

definition line_count :: "source_file \<Rightarrow> nat" where
  "line_count f = length (sf_line_starts f)"

definition slice :: "string \<Rightarrow> nat \<Rightarrow> nat \<Rightarrow> string" where
  "slice s i j = take (j - i) (drop i s)"

definition byte_at :: "string \<Rightarrow> nat \<Rightarrow> char option" where
  "byte_at s i = (if i < length s then Some (s ! i) else None)"

definition return_char :: char where
  "return_char = CHR 0x0D"

definition get_line :: "source_file \<Rightarrow> nat \<Rightarrow> string option" where
  "get_line f line_num =
     (if line_num = 0 \<or> line_num > length (sf_line_starts f) then None
      else (let line_idx = line_num - 1;
                start = sf_line_starts f ! line_idx;
                end_pos =
                  (if line_idx + 1 < length (sf_line_starts f)
                   then (let next_start = sf_line_starts f ! (line_idx + 1) in
                         if next_start > 0 \<and> byte_at (sf_content f) (next_start - 1) = Some newline_char
                         then next_start - 1 else next_start)
                   else length (sf_content f));
                actual_end = (if end_pos > start \<and> byte_at (sf_content f) (end_pos - 1) = Some return_char
                              then end_pos - 1 else end_pos)
            in Some (slice (sf_content f) start actual_end)))"

definition get_lines :: "source_file \<Rightarrow> nat \<Rightarrow> nat \<Rightarrow> (nat \<times> string) list" where
  "get_lines f start_line end_line =
     List.map_filter (\<lambda>n. map_option (Pair n) (get_line f n)) [start_line..<Suc end_line]"

text \<open>The text of a span, or a panic: \<^verbatim>\<open>None\<close> is an offset inside a character.\<close>

definition is_char_boundary :: "string \<Rightarrow> nat \<Rightarrow> bool" where
  "is_char_boundary s i \<longleftrightarrow>
     i = length s \<or> i < length s \<and> \<not> (0x80 \<le> (of_char (s ! i) :: nat) \<and> (of_char (s ! i) :: nat) < 0xC0)"

definition get_span_text :: "source_file \<Rightarrow> span \<Rightarrow> string option option" where
  "get_span_text f sp =
     (case get_line f (sp_line sp) of
        None \<Rightarrow> Some None
      | Some l \<Rightarrow>
          (let col_start = sp_col sp - 1; col_end = col_start + sp_len sp in
           if col_start \<ge> length l then Some None
           else (let actual_end = min col_end (length l) in
                 if is_char_boundary l col_start \<and> is_char_boundary l actual_end
                 then Some (Some (slice l col_start actual_end)) else None)))"

definition line_byte_offset :: "source_file \<Rightarrow> nat \<Rightarrow> nat option" where
  "line_byte_offset f line_num =
     (if line_num = 0 \<or> line_num > length (sf_line_starts f) then None else Some (sf_line_starts f ! (line_num - 1)))"

section \<open>The manager\<close>

type_synonym source_manager = "(path, source_file) hmap"

definition manager_load :: "fs \<Rightarrow> path \<Rightarrow> source_manager \<Rightarrow> source_file option \<times> source_manager" where
  "manager_load root p m =
     (if hm_contains_key m p then (hm_get m p, m)
      else (case source_file_load root p of
          None \<Rightarrow> (None, m)
        | Some f \<Rightarrow> (Some f, hm_insert p f m)))"

definition add_source :: "path \<Rightarrow> string \<Rightarrow> source_manager \<Rightarrow> source_manager" where
  "add_source p content m = hm_insert p (source_file_new p content) m"

definition manager_get_line :: "source_manager \<Rightarrow> path \<Rightarrow> nat \<Rightarrow> string option" where
  "manager_get_line m p line_num = Option.bind (hm_get m p) (\<lambda>f. get_line f line_num)"

definition manager_get_span_text :: "source_manager \<Rightarrow> path \<Rightarrow> span \<Rightarrow> string option option" where
  "manager_get_span_text m p sp = (case hm_get m p of None \<Rightarrow> Some None | Some f \<Rightarrow> get_span_text f sp)"

section \<open>Lines are the pieces between line feeds\<close>

fun split_lines :: "string \<Rightarrow> string list" where
  "split_lines [] = [[]]"
| "split_lines (c # cs) = (if c = newline_char then [] # split_lines cs else (c # hd (split_lines cs)) # tl (split_lines cs))"

definition drop_return :: "string \<Rightarrow> string" where
  "drop_return l = (if l \<noteq> [] \<and> last l = return_char then butlast l else l)"

lemma split_lines_nonempty [simp]: "split_lines s \<noteq> []"
  by (cases s) auto

lemma hd_tl_split: "hd (split_lines s) # tl (split_lines s) = split_lines s"
  by simp

lemma length_split: "length (split_lines s) = Suc (length (starts_after i s))"
proof (induction s arbitrary: i)
  case (Cons c s)
  then show ?case using Cons.IH [of "Suc i"] by (cases "split_lines s") auto
qed simp

text \<open>The raw line at an index: from its start to the line feed before the next one, or to the end.\<close>

definition raw_end :: "string \<Rightarrow> nat list \<Rightarrow> nat \<Rightarrow> nat" where
  "raw_end content starts i = (if Suc i < length starts then starts ! Suc i - 1 else length content)"

lemma split_at_starts:
  assumes "length pre = k" "i < length (split_lines cs)"
    and "content = pre @ cur @ cs" "starts = k # starts_after (k + length cur) cs"
  shows "slice content (starts ! i) (raw_end content starts i) = (if i = 0 then cur else []) @ split_lines cs ! i
    \<and> starts ! i \<le> raw_end content starts i \<and> raw_end content starts i \<le> length content
    \<and> (Suc i < length starts \<longrightarrow> 0 < starts ! Suc i \<and> byte_at content (starts ! Suc i - 1) = Some newline_char)"
  using assms
proof (induction cs arbitrary: pre cur k i content starts)
  case Nil
  then show ?case by (simp add: slice_def raw_end_def)
next
  case (Cons c cs)
  show ?case
  proof (cases "c = newline_char")
    case False
    have "(pre @ (cur @ [c]) @ cs) = pre @ cur @ c # cs" by simp
    then have 1: "content = pre @ (cur @ [c]) @ cs" "starts = k # starts_after (k + length (cur @ [c])) cs"
      using Cons.prems False by simp_all
    have 2: "split_lines (c # cs) = (c # hd (split_lines cs)) # tl (split_lines cs)" using False by simp
    have 3: "i < length (split_lines cs)" using Cons.prems(2) 2 by (cases "split_lines cs") auto
    show ?thesis
      using Cons.IH [OF Cons.prems(1) 3 1] 2 by (cases i; cases "split_lines cs") auto
  next
    case True
    let ?pre = "pre @ cur @ [c]" and ?k = "k + length cur + 1"
    have split: "split_lines (c # cs) = [] # split_lines cs" using True by simp
    have st: "starts_after (k + length cur) (c # cs) = ?k # starts_after ?k cs" using True by simp
    have 1: "content = ?pre @ [] @ cs" "?k # starts_after ?k cs = ?k # starts_after (?k + length []) cs" "length ?pre = ?k"
      using Cons.prems(1,3) True by simp_all
    have starts: "starts = k # ?k # starts_after ?k cs" using Cons.prems(4) st by simp
    show ?thesis
    proof (cases i)
      case 0
      then show ?thesis
        using Cons.prems True starts by (simp add: slice_def raw_end_def byte_at_def nth_append)
    next
      case (Suc j)
      then have "j < length (split_lines cs)" using Cons.prems(2) split by simp
      from Cons.IH [OF 1(3) this 1(1) refl]
      have "slice content ((?k # starts_after ?k cs) ! j) (raw_end content (?k # starts_after ?k cs) j) = split_lines cs ! j"
        "(?k # starts_after ?k cs) ! j \<le> raw_end content (?k # starts_after ?k cs) j"
        "raw_end content (?k # starts_after ?k cs) j \<le> length content"
        "Suc j < length (?k # starts_after ?k cs) \<Longrightarrow> 0 < (?k # starts_after ?k cs) ! Suc j
           \<and> byte_at content ((?k # starts_after ?k cs) ! Suc j - 1) = Some newline_char"
        by (simp_all split: if_splits)
      moreover have "raw_end content starts i = raw_end content (?k # starts_after ?k cs) j"
        by (simp add: raw_end_def starts Suc)
      ultimately show ?thesis by (simp add: starts Suc True)
    qed
  qed
qed

lemma slice_drop_return:
  assumes "i \<le> j" "j \<le> length s"
  shows "slice s i (if j > i \<and> byte_at s (j - 1) = Some return_char then j - 1 else j) = drop_return (slice s i j)"
proof (cases "i < j")
  case True
  then have "last (slice s i j) = s ! (j - 1)" "slice s i j \<noteq> []"
    using assms by (simp_all add: slice_def last_conv_nth)
  moreover have "butlast (slice s i j) = slice s i (j - 1)"
    using True assms by (simp add: slice_def butlast_take)
  ultimately show ?thesis using True assms by (auto simp: drop_return_def byte_at_def)
next
  case False
  then show ?thesis using assms by (simp add: slice_def drop_return_def)
qed

lemma get_line_pieces:
  "get_line (source_file_new p content) n =
     (if 0 < n \<and> n \<le> length (split_lines content) then Some (drop_return (split_lines content ! (n - 1))) else None)"
proof (cases "0 < n \<and> n \<le> length (split_lines content)")
  case True
  let ?starts = "compute_line_starts content" and ?i = "n - 1"
  have len: "length (split_lines content) = length ?starts" by (simp add: compute_line_starts_def length_split [of content 0])
  have i: "?i < length (split_lines content)" using True by linarith
  from split_at_starts [where pre = "[]" and k = 0 and i = ?i and cs = content and cur = "[]" and content = content and starts = ?starts] i
  have s: "slice content (?starts ! ?i) (raw_end content ?starts ?i) = split_lines content ! ?i"
    "?starts ! ?i \<le> raw_end content ?starts ?i" "raw_end content ?starts ?i \<le> length content"
    "Suc ?i < length ?starts \<Longrightarrow> 0 < ?starts ! Suc ?i \<and> byte_at content (?starts ! Suc ?i - 1) = Some newline_char"
    by (auto simp: compute_line_starts_def)
  have e: "(if ?i + 1 < length ?starts
        then (let next_start = ?starts ! (?i + 1) in
              if next_start > 0 \<and> byte_at content (next_start - 1) = Some newline_char then next_start - 1 else next_start)
        else length content) = raw_end content ?starts ?i"
    using s(4) by (simp add: raw_end_def Let_def)
  have "get_line (source_file_new p content) n = Some (slice content (?starts ! ?i)
      (if raw_end content ?starts ?i > ?starts ! ?i \<and> byte_at content (raw_end content ?starts ?i - 1) = Some return_char
       then raw_end content ?starts ?i - 1 else raw_end content ?starts ?i))"
    using True len unfolding get_line_def source_file_new_def e [symmetric] by (simp add: Let_def)
  then show ?thesis using True s(1) by (simp only: slice_drop_return [OF s(2,3)]) simp
next
  case False
  then show ?thesis
    by (auto simp: get_line_def source_file_new_def compute_line_starts_def length_split [of content 0])
qed

text \<open>
  The line index of a source file is right: \<^verbatim>\<open>get_line\<close> gives for a number from 1 to the number of
  lines the piece of the content between line feeds of that number, without a carriage return at its
  end, and nothing for any other number.
\<close>

theorem get_line_exact:
  "get_line (source_file_new p content) n =
     (if 0 < n \<and> n \<le> length (split_lines content) then Some (drop_return (split_lines content ! (n - 1))) else None)"
  by (rule get_line_pieces)

text \<open>A span of the lexer counts characters, and slicing counts bytes: after a character of two bytes a span ends inside it.\<close>

lemma span_text_panics:
  "get_span_text (source_file_new [] (utf8_text [0xE9, 97])) (span_new 1 1 1) = None"
  by code_simp

end
