(* ===== verification/Sigil_Diagnostic.thy ===== *)
theory Sigil_Diagnostic
  imports Sigil_Error Sigil_Source
begin

text \<open>
  Diagnostics, after \<^verbatim>\<open>compiler/src/diagnostic.rs\<close>, the conversion of the
  analyzer's errors into them and the text of these errors, after
  \<^verbatim>\<open>compiler/src/semantic/types.rs\<close>.
\<close>

section \<open>Codes\<close>

datatype error_code =
    E0101 | E0102 | E0103 | E0104 | E0301 | E0302 | E0303 | E0304
  | E0305 | E0306 | E0307 | E0401 | E0402 | E0403 | E0501 | E0502
  | E0503 | E0504 | E0505 | E0506 | E0507 | E0508 | E0509 | E0510
  | E0511 | E0601 | E0602 | E0603 | E0604 | E0701 | E0702 | E0703
  | E0901

primrec as_str :: "error_code \<Rightarrow> string" where
  "as_str E0101 = ''E0101''"
| "as_str E0102 = ''E0102''"
| "as_str E0103 = ''E0103''"
| "as_str E0104 = ''E0104''"
| "as_str E0301 = ''E0301''"
| "as_str E0302 = ''E0302''"
| "as_str E0303 = ''E0303''"
| "as_str E0304 = ''E0304''"
| "as_str E0305 = ''E0305''"
| "as_str E0306 = ''E0306''"
| "as_str E0307 = ''E0307''"
| "as_str E0401 = ''E0401''"
| "as_str E0402 = ''E0402''"
| "as_str E0403 = ''E0403''"
| "as_str E0501 = ''E0501''"
| "as_str E0502 = ''E0502''"
| "as_str E0503 = ''E0503''"
| "as_str E0504 = ''E0504''"
| "as_str E0505 = ''E0505''"
| "as_str E0506 = ''E0506''"
| "as_str E0507 = ''E0507''"
| "as_str E0508 = ''E0508''"
| "as_str E0509 = ''E0509''"
| "as_str E0510 = ''E0510''"
| "as_str E0511 = ''E0511''"
| "as_str E0601 = ''E0601''"
| "as_str E0602 = ''E0602''"
| "as_str E0603 = ''E0603''"
| "as_str E0604 = ''E0604''"
| "as_str E0701 = ''E0701''"
| "as_str E0702 = ''E0702''"
| "as_str E0703 = ''E0703''"
| "as_str E0901 = ''E0901''"

primrec category :: "error_code \<Rightarrow> string" where
  "category E0101 = ''type error''"
| "category E0102 = ''type error''"
| "category E0103 = ''type error''"
| "category E0104 = ''type error''"
| "category E0301 = ''memory error''"
| "category E0302 = ''memory error''"
| "category E0303 = ''memory error''"
| "category E0304 = ''memory error''"
| "category E0305 = ''memory error''"
| "category E0306 = ''memory error''"
| "category E0307 = ''memory error''"
| "category E0401 = ''control flow error''"
| "category E0402 = ''control flow error''"
| "category E0403 = ''control flow error''"
| "category E0501 = ''contract error''"
| "category E0502 = ''contract error''"
| "category E0503 = ''contract error''"
| "category E0504 = ''contract error''"
| "category E0505 = ''contract error''"
| "category E0506 = ''contract error''"
| "category E0507 = ''contract error''"
| "category E0508 = ''contract error''"
| "category E0509 = ''behavior structure error''"
| "category E0510 = ''behavior structure error''"
| "category E0511 = ''composition completeness error''"
| "category E0601 = ''guarantee violation''"
| "category E0602 = ''guarantee violation''"
| "category E0603 = ''guarantee violation''"
| "category E0604 = ''guarantee violation''"
| "category E0701 = ''concurrency error''"
| "category E0702 = ''concurrency error''"
| "category E0703 = ''concurrency error''"
| "category E0901 = ''error''"

section \<open>Diagnostics\<close>

datatype severity = SevNote | SevWarning | SevError

fun severity_str :: "severity \<Rightarrow> string" where
  "severity_str SevNote = ''note''"
| "severity_str SevWarning = ''warning''"
| "severity_str SevError = ''error''"

record label =
  lb_span :: span
  lb_message :: string
  lb_primary :: bool

definition label_primary :: "span \<Rightarrow> string \<Rightarrow> label" where
  "label_primary sp m = \<lparr>lb_span = sp, lb_message = m, lb_primary = True\<rparr>"

definition label_secondary :: "span \<Rightarrow> string \<Rightarrow> label" where
  "label_secondary sp m = \<lparr>lb_span = sp, lb_message = m, lb_primary = False\<rparr>"

record diagnostic =
  dg_code :: error_code
  dg_severity :: severity
  dg_message :: string
  dg_file :: "path option"
  dg_labels :: "label list"
  dg_help :: "string option"
  dg_notes :: "string list"

definition diag_new :: "severity \<Rightarrow> error_code \<Rightarrow> string \<Rightarrow> diagnostic" where
  "diag_new sev code m = \<lparr>dg_code = code, dg_severity = sev, dg_message = m, dg_file = None, dg_labels = [],
     dg_help = None, dg_notes = []\<rparr>"

definition diag_error :: "error_code \<Rightarrow> string \<Rightarrow> diagnostic" where
  "diag_error = diag_new SevError"

definition diag_warning :: "error_code \<Rightarrow> string \<Rightarrow> diagnostic" where
  "diag_warning = diag_new SevWarning"

definition with_file :: "path \<Rightarrow> diagnostic \<Rightarrow> diagnostic" where
  "with_file p d = d\<lparr>dg_file := Some p\<rparr>"

definition with_label :: "label \<Rightarrow> diagnostic \<Rightarrow> diagnostic" where
  "with_label l d = d\<lparr>dg_labels := dg_labels d @ [l]\<rparr>"

definition with_primary_label :: "span \<Rightarrow> string \<Rightarrow> diagnostic \<Rightarrow> diagnostic" where
  "with_primary_label sp m d = d\<lparr>dg_labels := dg_labels d @ [label_primary sp m]\<rparr>"

definition with_secondary_label :: "span \<Rightarrow> string \<Rightarrow> diagnostic \<Rightarrow> diagnostic" where
  "with_secondary_label sp m d = d\<lparr>dg_labels := dg_labels d @ [label_secondary sp m]\<rparr>"

definition with_help :: "string \<Rightarrow> diagnostic \<Rightarrow> diagnostic" where
  "with_help h d = d\<lparr>dg_help := Some h\<rparr>"

definition with_note :: "string \<Rightarrow> diagnostic \<Rightarrow> diagnostic" where
  "with_note n d = d\<lparr>dg_notes := dg_notes d @ [n]\<rparr>"

definition primary_span :: "diagnostic \<Rightarrow> span option" where
  "primary_span d = map_option lb_span (find lb_primary (dg_labels d))"

definition diag_line :: "diagnostic \<Rightarrow> nat option" where
  "diag_line d = map_option sp_line (primary_span d)"

definition q :: "string \<Rightarrow> string" where
  "q s = CHR 0x27 # s @ [CHR 0x27]"

section \<open>Constructors for common errors\<close>

definition diag_type_mismatch :: "span \<Rightarrow> string \<Rightarrow> string \<Rightarrow> diagnostic" where
  "diag_type_mismatch sp expected found =
     with_primary_label sp (''expected '' @ expected)
       (diag_error E0101 (''type mismatch: expected '' @ expected @ '', found '' @ found))"

definition diag_invalid_int_size :: "span \<Rightarrow> nat \<Rightarrow> diagnostic" where
  "diag_invalid_int_size sp sz =
     with_help (''valid integer sizes are 1, 2, 4, or 8 bytes'')
       (with_primary_label sp (''must be 1, 2, 4, or 8'')
       (diag_error E0102 (''invalid int size '' @ nat_to_dec sz)))"

definition diag_invalid_float_size :: "span \<Rightarrow> nat \<Rightarrow> diagnostic" where
  "diag_invalid_float_size sp sz =
     with_help (''valid float sizes are 4 (single) or 8 (double) bytes'')
       (with_primary_label sp (''must be 4 or 8'')
       (diag_error E0103 (''invalid float size '' @ nat_to_dec sz)))"

definition diag_use_after_free :: "span \<Rightarrow> span \<Rightarrow> string \<Rightarrow> diagnostic" where
  "diag_use_after_free use_span free_span handle =
     with_help (''move this use before the FREE statement'')
       (with_secondary_label free_span (''handle freed here'')
       (with_primary_label use_span (''use of freed handle'')
       (diag_error E0301 (''use of handle '' @ q handle @ '' after free''))))"

definition diag_double_free :: "span \<Rightarrow> span \<Rightarrow> string \<Rightarrow> diagnostic" where
  "diag_double_free second_span first_span handle =
     with_help (''remove one of the FREE statements'')
       (with_secondary_label first_span (''first FREE here'')
       (with_primary_label second_span (''second FREE here'')
       (diag_error E0302 (''double free of handle '' @ q handle))))"

definition diag_memory_leak :: "span \<Rightarrow> string \<Rightarrow> diagnostic" where
  "diag_memory_leak alloc_span handle =
     with_help (''add FREE before all exit paths, or use SCOPE for automatic cleanup'')
       (with_primary_label alloc_span (''allocated here but not freed'')
       (diag_error E0303 (''memory leak: '' @ q handle @ '' not freed on all paths'')))"

definition diag_uninitialized_load :: "span \<Rightarrow> string \<Rightarrow> diagnostic" where
  "diag_uninitialized_load sp handle =
     with_help (''add STORE to initialize the handle before LOAD'')
       (with_primary_label sp (''LOAD without prior STORE'')
       (diag_error E0304 (''load from uninitialized handle '' @ q handle)))"

definition diag_free_borrowed_handle :: "span \<Rightarrow> string \<Rightarrow> diagnostic" where
  "diag_free_borrowed_handle sp handle =
     with_help (''INPUT handles are borrowed and cannot be freed'')
       (with_primary_label sp (''handle borrowed from caller'')
       (diag_error E0305 (''cannot free borrowed handle '' @ q handle)))"

definition diag_free_while_borrowed :: "span \<Rightarrow> span \<Rightarrow> string \<Rightarrow> string \<Rightarrow> diagnostic" where
  "diag_free_while_borrowed free_span spawn_span handle pattern =
     with_help (''call WAIT on the spawn handle before FREE'')
       (with_secondary_label spawn_span (''borrowed by SPAWN here'')
       (with_primary_label free_span (''FREE while borrowed'')
       (diag_error E0306 (''cannot free '' @ q handle @ '' while borrowed by '' @ q pattern))))"

definition diag_undefined_label :: "span \<Rightarrow> string \<Rightarrow> diagnostic" where
  "diag_undefined_label sp name =
     with_primary_label sp (''label not found'')
       (diag_error E0401 (''undefined label '' @ q name))"

definition diag_duplicate_label :: "span \<Rightarrow> span \<Rightarrow> string \<Rightarrow> diagnostic" where
  "diag_duplicate_label second_span first_span name =
     with_secondary_label first_span (''first defined here'')
       (with_primary_label second_span (''duplicate definition'')
       (diag_error E0402 (''duplicate label '' @ q name)))"

definition diag_undeclared_capability :: "span \<Rightarrow> string \<Rightarrow> diagnostic" where
  "diag_undeclared_capability sp syscall =
     with_help (''add '' @ q (''CAPABILITIES syscall:'' @ syscall) @ '' to the contract'')
       (with_primary_label sp (''undeclared syscall'')
       (diag_error E0501 (''syscall '' @ q syscall @ '' not declared in CAPABILITIES'')))"

definition diag_call_arg_count_mismatch :: "span \<Rightarrow> string \<Rightarrow> nat \<Rightarrow> nat \<Rightarrow> diagnostic" where
  "diag_call_arg_count_mismatch sp behavior expected got =
     with_primary_label sp (''expected '' @ nat_to_dec expected @ '' arguments, found '' @ nat_to_dec got)
       (diag_error E0503 (''wrong number of arguments to '' @ q behavior))"

definition diag_pure_violation :: "span \<Rightarrow> string \<Rightarrow> diagnostic" where
  "diag_pure_violation sp reason =
     with_note (''pure behaviors cannot have side effects'')
       (with_primary_label sp (''violates pure'')
       (diag_error E0601 (''pure guarantee violated: '' @ reason)))"

definition diag_output_not_written :: "string list \<Rightarrow> diagnostic" where
  "diag_output_not_written outputs =
     with_help (''ensure all outputs are written before every exit path'')
       (diag_error E0604 (''outputs not written on all paths: '' @ join_with '', '' outputs))"

definition diag_non_atomic_shared_access :: "span \<Rightarrow> string \<Rightarrow> string \<Rightarrow> diagnostic" where
  "diag_non_atomic_shared_access sp handle operation =
     with_help (''use ATOMIC_'' @ operation @ '' for SHARED handles'')
       (with_primary_label sp (''non-atomic access'')
       (diag_error E0701 (''non-atomic '' @ operation @ '' on SHARED handle '' @ q handle)))"

definition diag_spawn_requires_pattern :: "span \<Rightarrow> string \<Rightarrow> diagnostic" where
  "diag_spawn_requires_pattern sp target =
     with_note (''SPAWN creates concurrent pattern instances, use CALL for behaviors'')
       (with_primary_label sp (''not a pattern'')
       (diag_error E0703 (''SPAWN requires a pattern, '' @ q target @ '' is a behavior'')))"

definition diag_undefined_variable :: "span \<Rightarrow> string \<Rightarrow> diagnostic" where
  "diag_undefined_variable sp name =
     with_primary_label sp (''not found in this scope'')
       (diag_error E0901 (''undefined variable '' @ q name))"

section \<open>The analyzer's errors as diagnostics\<close>

text \<open>Code, message, label and help of an error.\<close>

primrec error_parts :: "error_kind \<Rightarrow> error_code \<times> string \<times> string \<times> string option" where
  "error_parts (InvalidIntSize sz) =
     (E0102, ''invalid int size '' @ usize_to_dec sz,
      ''must be 1, 2, 4, or 8'', Some (''valid integer sizes are 1, 2, 4, or 8 bytes''))"
| "error_parts (InvalidFloatSize sz) =
     (E0103, ''invalid float size '' @ usize_to_dec sz,
      ''must be 4 or 8'', Some (''valid float sizes are 4 (single) or 8 (double) bytes''))"
| "error_parts (TypeMismatch expected found) =
     (E0101, ''type mismatch: expected '' @ expected @ '', found '' @ found,
      ''type mismatch here'', None)"
| "error_parts (HandleUsedAsValue operand knd oper) =
     (E0104, knd @ '' '' @ q operand @ '' is a handle, not a value, but '' @ oper @ '' needs a value'',
      ''handle used where a value is expected'', Some (''read the value out with LOAD first, e.g. `v = LOAD <handle> <size>`, then use `v`''))"
| "error_parts (UseAfterFree handle freed_at) =
     (E0301, ''use of handle '' @ q handle @ '' after free at line '' @ nat_to_dec freed_at,
      ''use of freed handle'', Some (''move this use before the FREE statement''))"
| "error_parts (DoubleFree handle first_free_at) =
     (E0302, ''double free of handle '' @ q handle @ '' (first at line '' @ nat_to_dec first_free_at @ '')'',
      ''second FREE here'', Some (''remove one of the FREE statements''))"
| "error_parts (MemoryLeak handle) =
     (E0303, ''memory leak: '' @ q handle @ '' not freed on all paths'',
      ''allocated here'', Some (''add FREE before all exit paths''))"
| "error_parts (UninitializedLoad handle) =
     (E0304, ''load from uninitialized handle '' @ q handle,
      ''LOAD without prior STORE'', Some (''add STORE to initialize before LOAD''))"
| "error_parts (UninitializedRead handle) =
     (E0304, ''read from uninitialized handle '' @ q handle,
      ''may be uninitialized'', None)"
| "error_parts (PossibleBoundsViolation handle offset sz) =
     (E0307, ''possible bounds violation on '' @ q handle @ '' at offset '' @ usize_to_dec offset @ '' size '' @ usize_to_dec sz,
      ''access may be out of bounds'', None)"
| "error_parts (FreeBorrowedHandle handle) =
     (E0305, ''cannot free borrowed handle '' @ q handle,
      ''borrowed from caller'', Some (''INPUT handles cannot be freed''))"
| "error_parts (FreeWhileBorrowed handle borrowed_by) =
     (E0306, ''cannot free '' @ q handle @ '' while borrowed by '' @ q borrowed_by,
      ''FREE while borrowed'', Some (''call WAIT before FREE''))"
| "error_parts (UndefinedLabel name) =
     (E0401, ''undefined label '' @ q name,
      ''label not found'', None)"
| "error_parts (DuplicateLabel name first_line) =
     (E0402, ''duplicate label '' @ q name @ '' (first at line '' @ nat_to_dec first_line @ '')'',
      ''duplicate definition'', None)"
| "error_parts PathDoesNotTerminate =
     (E0403, ''path does not terminate'',
      ''no END reached'', Some (''ensure all paths reach END''))"
| "error_parts (MissingDependency behavior) =
     (E0502, ''missing dependency '' @ q behavior,
      ''not found'', None)"
| "error_parts (CallArgCountMismatch behavior expected got) =
     (E0503, ''wrong argument count for '' @ q behavior @ '': expected '' @ nat_to_dec expected @ '', got '' @ nat_to_dec got,
      ''argument count mismatch'', None)"
| "error_parts (CallArgTypeMismatch behavior param expected found) =
     (E0504, ''type mismatch in call to '' @ q behavior @ '': '' @ q param @ '' expected '' @ expected @ '', found '' @ found,
      ''type mismatch'', None)"
| "error_parts (CallArgSizeMismatch behavior param expected found) =
     (E0505, ''size mismatch in call to '' @ q behavior @ '': '' @ q param @ '' expected '' @ usize_to_dec expected @ '' bytes, found '' @ usize_to_dec found,
      ''size mismatch'', None)"
| "error_parts (OutputSizeMismatch outp expected found) =
     (E0506, ''output '' @ q outp @ '' size mismatch: declared '' @ usize_to_dec expected @ '', storing '' @ usize_to_dec found,
      ''size mismatch'', None)"
| "error_parts (HashMismatch declared computed) =
     (E0507, ''hash mismatch: declared '' @ declared @ '', computed '' @ computed,
      ''hash mismatch'', Some (''update HASH declaration''))"
| "error_parts (DependencyHashMismatch behavior expected actual) =
     (E0508, ''dependency '' @ q behavior @ '' hash mismatch: expected '' @ expected @ '', got '' @ actual,
      ''hash mismatch'', None)"
| "error_parts (CompositeComputes oper) =
     (E0509, ''composite behavior may not use the primitive '' @ q oper,
      ''computation in a composite'', Some (''composites only wire behaviors together; move computation into a leaf (IMPLEMENTATION) or a pattern's ON_CREATE''))"
| "error_parts (LeafCalls behavior) =
     (E0510, ''leaf behavior may not CALL '' @ q behavior,
      ''CALL inside a leaf'', Some (''a behavior that calls others is a composite; use COMPOSITION instead of IMPLEMENTATION''))"
| "error_parts (UnconsumedOutput behavior outp) =
     (E0511, ''output '' @ q outp @ '' from CALL '' @ q behavior @ '' is never consumed'',
      ''unconsumed output'', Some (''route it to a CALL / BRANCH / OUTPUT, or drop it explicitly with DISCARD''))"
| "error_parts (PureViolation reason) =
     (E0601, ''pure guarantee violated: '' @ reason,
      ''violates pure'', Some (''pure behaviors cannot have side effects''))"
| "error_parts (NoAllocViolation reason) =
     (E0602, ''no_alloc guarantee violated: '' @ reason,
      ''allocation not allowed'', None)"
| "error_parts (OutputNotWritten outputs) =
     (E0604, ''outputs not written on all paths: '' @ join_with '', '' outputs,
      ''missing output write on some path'', Some (''every OUTPUT must be written on every path '' @ utf8 0x2014 @ '' including the one where a loop runs zero times or a branch is not taken; write a default before the loop/branch''))"
| "error_parts (NonAtomicSharedAccess handle operation) =
     (E0701, ''non-atomic '' @ operation @ '' on SHARED handle '' @ q handle,
      ''non-atomic access'', Some (''use ATOMIC operations for SHARED''))"
| "error_parts (ChannelTypeMismatch channel expected found) =
     (E0702, ''channel '' @ q channel @ '' type mismatch: expected '' @ expected @ '', found '' @ found,
      ''type mismatch'', None)"
| "error_parts (ChannelSendTypeMismatch channel expected found) =
     (E0702, ''channel '' @ q channel @ '' type mismatch: expected '' @ expected @ '', found '' @ found,
      ''type mismatch'', None)"
| "error_parts (ChannelReceiveTypeMismatch channel expected found) =
     (E0702, ''channel '' @ q channel @ '' type mismatch: expected '' @ expected @ '', found '' @ found,
      ''type mismatch'', None)"
| "error_parts (SpawnRequiresPattern target) =
     (E0703, ''SPAWN requires pattern, '' @ q target @ '' is a behavior'',
      ''not a pattern'', Some (''use CALL for behaviors''))"
| "error_parts (UndefinedVariable name) =
     (E0901, ''undefined variable '' @ q name,
      ''not found'', None)"

definition to_diagnostic :: "semantic_error \<Rightarrow> diagnostic" where
  "to_diagnostic e =
     (case error_parts (se_kind e) of (code, message, lab, help) \<Rightarrow>
        (let diag = with_primary_label (span_new (se_line e) 1 1) lab (diag_error code message);
             diag = (case help of Some h \<Rightarrow> with_help h diag | None \<Rightarrow> diag)
         in case se_context e of Some ctx \<Rightarrow> with_note ctx diag | None \<Rightarrow> diag))"

section \<open>The text of an error\<close>

text \<open>Rust's \<^verbatim>\<open>Debug\<close> form of a list of strings; characters beyond ASCII stand for themselves.\<close>

definition debug_char :: "char \<Rightarrow> string" where
  "debug_char c =
     (if c = CHR 0x22 then [CHR 0x5C, CHR 0x22]
      else if c = CHR 0x5C then [CHR 0x5C, CHR 0x5C]
      else if c = CHR 0x0A then [CHR 0x5C, CHR ''n'']
      else if c = CHR 0x0D then [CHR 0x5C, CHR ''r'']
      else if c = CHR 0x09 then [CHR 0x5C, CHR ''t'']
      else [c])"

definition debug_list :: "string list \<Rightarrow> string" where
  "debug_list xs = ''['' @ join_with '', '' (map (\<lambda>s. CHR 0x22 # concat (map debug_char s) @ [CHR 0x22]) xs) @ '']''"

primrec error_text :: "error_kind \<Rightarrow> string" where
  "error_text (InvalidIntSize sz) =
     ''Invalid int size '' @ usize_to_dec sz @ ''. Must be 1, 2, 4, or 8''"
| "error_text (InvalidFloatSize sz) =
     ''Invalid float size '' @ usize_to_dec sz @ ''. Must be 4 or 8''"
| "error_text (TypeMismatch expected found) =
     ''Type mismatch: expected '' @ expected @ '', found '' @ found"
| "error_text (HandleUsedAsValue operand knd oper) =
     knd @ '' '' @ q operand @ '' is a handle, not a value, but '' @ oper @ '' needs a value. LOAD it first (e.g. `v = LOAD '' @ operand @ '' <size>`)''"
| "error_text (UndefinedLabel name) =
     ''Undefined label '' @ q name"
| "error_text (DuplicateLabel name first_line) =
     ''Duplicate label '' @ q name @ '' (first defined at line '' @ nat_to_dec first_line @ '')''"
| "error_text (UninitializedRead handle) =
     ''Possible read from uninitialized handle '' @ q handle"
| "error_text (PossibleBoundsViolation handle offset sz) =
     ''Possible bounds violation: '' @ handle @ ''['' @ usize_to_dec offset @ '':'' @ usize_to_dec (offset + sz) @ '']''"
| "error_text (MissingDependency behavior) =
     ''Required behavior '' @ q behavior @ '' not found''"
| "error_text (CallArgCountMismatch behavior expected got) =
     ''CALL '' @ q behavior @ '': expected '' @ nat_to_dec expected @ '' arguments, got '' @ nat_to_dec got"
| "error_text (CallArgTypeMismatch behavior param expected found) =
     ''CALL '' @ q behavior @ '': argument '' @ q param @ '' type mismatch: expected '' @ expected @ '', found '' @ found"
| "error_text (CallArgSizeMismatch behavior param expected found) =
     ''CALL '' @ q behavior @ '': argument '' @ q param @ '' size mismatch: expected '' @ usize_to_dec expected @ '' bytes, found '' @ usize_to_dec found"
| "error_text (OutputSizeMismatch outp expected found) =
     ''STORE to output '' @ q outp @ '': size mismatch: declared '' @ usize_to_dec expected @ '' bytes, storing '' @ usize_to_dec found"
| "error_text (HashMismatch declared computed) =
     ''Contract hash mismatch: declared '' @ declared @ '', computed '' @ computed"
| "error_text (DependencyHashMismatch behavior expected actual) =
     ''Dependency '' @ q behavior @ '' hash mismatch: expected '' @ expected @ '', got '' @ actual"
| "error_text (CompositeComputes oper) =
     ''Composite behavior may not use primitive '' @ q oper @ ''. Per the leaf/composite model, composites only wire behaviors; computation belongs in a leaf or pattern''"
| "error_text (LeafCalls behavior) =
     ''Leaf (IMPLEMENTATION) may not CALL '' @ q behavior @ ''. A behavior that calls others is a composite; use COMPOSITION''"
| "error_text (UnconsumedOutput behavior outp) =
     ''Output '' @ q outp @ '' produced by CALL '' @ q behavior @ '' is never consumed. Route it (CALL/BRANCH/OUTPUT) or drop it with DISCARD''"
| "error_text (PureViolation reason) =
     ''Guarantee '' @ q ''pure'' @ '' violated: '' @ reason"
| "error_text (NoAllocViolation reason) =
     ''Guarantee '' @ q ''no_alloc'' @ '' violated: '' @ reason"
| "error_text (OutputNotWritten outputs) =
     ''Outputs not written on all paths: '' @ debug_list outputs"
| "error_text (SpawnRequiresPattern target) =
     ''SPAWN requires a pattern target, '' @ q target @ '' is a behavior. Per Section 9.1, SPAWN creates '' @ q ''concurrent pattern instance''"
| "error_text (NonAtomicSharedAccess handle operation) =
     ''Non-atomic '' @ operation @ '' on SHARED handle '' @ q handle @ ''. Per Section 14.5, use ATOMIC_LOAD/ATOMIC_STORE''"
| "error_text (ChannelTypeMismatch channel expected found) =
     ''Channel '' @ q channel @ '' type mismatch: expected '' @ expected @ '', found '' @ found"
| "error_text (MemoryLeak handle) =
     ''Memory leak: '' @ q handle @ '' allocated but not freed on all paths. Per Section 14.1, every ALLOC must have FREE or be scoped''"
| "error_text (UninitializedLoad handle) =
     ''Uninitialized LOAD from '' @ q handle @ ''. Per Section 14.1, LOAD requires prior STORE on all paths''"
| "error_text PathDoesNotTerminate =
     ''Path does not terminate. Per Section 14.4, all paths must reach END or loop''"
| "error_text (ChannelSendTypeMismatch channel expected found) =
     ''Channel '' @ q channel @ '' send type mismatch: expected '' @ expected @ '', found '' @ found"
| "error_text (ChannelReceiveTypeMismatch channel expected found) =
     ''Channel '' @ q channel @ '' receive type mismatch: expected '' @ expected @ '', found '' @ found"
| "error_text (UseAfterFree handle freed_at) =
     ''Use of handle '' @ q handle @ '' after FREE at line '' @ nat_to_dec freed_at"
| "error_text (DoubleFree handle first_free_at) =
     ''Double FREE of handle '' @ q handle @ '' (first freed at line '' @ nat_to_dec first_free_at @ '')''"
| "error_text (FreeWhileBorrowed handle borrowed_by) =
     ''Cannot FREE handle '' @ q handle @ '' while borrowed by spawned pattern '' @ q borrowed_by"
| "error_text (FreeBorrowedHandle handle) =
     ''Cannot FREE handle '' @ q handle @ '': borrowed from caller (INPUT parameter)''"
| "error_text (UndefinedVariable name) =
     ''Undefined variable '' @ q name"

definition semantic_error_display :: "semantic_error \<Rightarrow> string" where
  "semantic_error_display e = ''Line '' @ nat_to_dec (se_line e) @ '': '' @ error_text (se_kind e)
     @ (case se_context e of Some ctx \<Rightarrow> '' ('' @ ctx @ '')'' | None \<Rightarrow> [])"

end
