(* ===== verification/Sigil_Render.thy ===== *)
theory Sigil_Render
  imports Sigil_Diagnostic
begin

text \<open>
  The rendering of diagnostics as text, after \<^verbatim>\<open>compiler/src/render.rs\<close>, which the
  driver applies to the errors of a behavior.
\<close>

section \<open>Layout\<close>

definition out_line :: "string \<Rightarrow> string" where
  "out_line s = s @ [newline_char]"

definition spaces :: "nat \<Rightarrow> string" where
  "spaces n = replicate n (CHR '' '')"

text \<open>\<^verbatim>\<open>{:>width$}\<close> for text of ASCII characters.\<close>

definition pad_left :: "nat \<Rightarrow> string \<Rightarrow> string" where
  "pad_left width s = spaces (width - length s) @ s"

definition file_text :: "path option \<Rightarrow> string" where
  "file_text f = (case f of Some p \<Rightarrow> join_with ''/'' p | None \<Rightarrow> ''<source>'')"

definition render_header :: "diagnostic \<Rightarrow> string" where
  "render_header d = out_line (severity_str (dg_severity d) @ ''['' @ as_str (dg_code d) @ '']: '' @ dg_message d)"

definition render_location :: "diagnostic \<Rightarrow> string" where
  "render_location d =
     (case find lb_primary (dg_labels d) of
        None \<Rightarrow> []
      | Some l \<Rightarrow> out_line (''  --> '' @ file_text (dg_file d) @ '':'' @ nat_to_dec (sp_line (lb_span l))
                    @ '':'' @ nat_to_dec (sp_col (lb_span l))))"

section \<open>Snippets\<close>

definition underline_label :: "nat \<Rightarrow> label \<Rightarrow> string \<Rightarrow> string" where
  "underline_label source_len l underline =
     (let u = underline @ spaces ((sp_col (lb_span l) - 1) - length underline);
          c = (if lb_primary l then CHR ''^'' else CHR ''-'')
      in fold (\<lambda>_ u. if length u < source_len + sp_len (lb_span l) then u @ [c] else u)
           [0..<max 1 (sp_len (lb_span l))] u)"

definition render_labels_for_line :: "nat \<Rightarrow> string \<Rightarrow> label list \<Rightarrow> string" where
  "render_labels_for_line gutter source_line labels =
     (let sorted_labels = sort_key (\<lambda>l. sp_col (lb_span l)) labels;
          underline = fold (underline_label (length source_line)) sorted_labels []
      in (if underline = [] then [] else out_line (spaces gutter @ '' | '' @ underline))
       @ concat (map (\<lambda>l. if lb_message l = [] then []
             else out_line (spaces gutter @ '' | '' @ spaces (sp_col (lb_span l) - 1) @ ''| '' @ lb_message l))
           sorted_labels))"

text \<open>The labels by line, in the order of the lines.\<close>

definition labels_by_line :: "label list \<Rightarrow> (nat \<times> label list) list" where
  "labels_by_line labels =
     map (\<lambda>n. (n, filter (\<lambda>l. sp_line (lb_span l) = n) labels)) (sort (remdups (map (sp_line \<circ> lb_span) labels)))"

fun render_lines ::
  "source_manager \<Rightarrow> path option \<Rightarrow> nat \<Rightarrow> nat option \<Rightarrow> (nat \<times> label list) list \<Rightarrow> string" where
  "render_lines m file gutter prev [] = []"
| "render_lines m file gutter prev ((n, labels) # rest) =
     (let gap = (case prev of Some k \<Rightarrow> if n > k + 1 then out_line (pad_left gutter ''...'') else [] | None \<Rightarrow> []);
          source_line = (case Option.bind file (\<lambda>p. manager_get_line m p n) of Some l \<Rightarrow> l | None \<Rightarrow> [])
      in gap @ out_line (pad_left gutter (nat_to_dec n) @ '' | '' @ source_line)
         @ render_labels_for_line gutter source_line labels
         @ render_lines m file gutter (Some n) rest)"

definition render_snippets :: "source_manager \<Rightarrow> diagnostic \<Rightarrow> string" where
  "render_snippets m d =
     (if dg_labels d = [] then []
      else (let groups = labels_by_line (dg_labels d);
                gutter = length (nat_to_dec (fold max (map fst groups) 0))
            in out_line (spaces gutter @ '' |'') @ render_lines m (dg_file d) gutter None groups))"

definition render :: "source_manager \<Rightarrow> diagnostic \<Rightarrow> string" where
  "render m d =
     render_header d @ render_location d @ render_snippets m d
     @ (case dg_help d of Some h \<Rightarrow> out_line ''   |'' @ out_line (''   = help: '' @ h) | None \<Rightarrow> [])
     @ concat (map (\<lambda>n. out_line (''   = note: '' @ n)) (dg_notes d))"

definition render_all :: "source_manager \<Rightarrow> diagnostic list \<Rightarrow> string" where
  "render_all m ds = join_with [newline_char] (map (render m) ds)"

definition render_simple :: "diagnostic \<Rightarrow> string" where
  "render_simple d =
     render_header d @ render_location d
     @ concat (map (\<lambda>l. out_line (''   '' @ (if lb_primary l then ''^'' else ''-'') @ '' line '' @ nat_to_dec (sp_line (lb_span l))
         @ '':'' @ nat_to_dec (sp_col (lb_span l)) @ '': '' @ lb_message l)) (dg_labels d))
     @ (case dg_help d of Some h \<Rightarrow> out_line (''   = help: '' @ h) | None \<Rightarrow> [])
     @ concat (map (\<lambda>n. out_line (''   = note: '' @ n)) (dg_notes d))"

text \<open>
  What \<^verbatim>\<open>validate_behavior\<close> in \<^verbatim>\<open>main.rs\<close> reports: the errors of a behavior, each
  rendered with the behavior's source and followed by an empty line.
\<close>

definition render_errors :: "path \<Rightarrow> string \<Rightarrow> semantic_error list \<Rightarrow> string" where
  "render_errors p content errors =
     (let m = add_source p content []
      in concat (map (\<lambda>e. render m (with_file p (to_diagnostic e)) @ [newline_char]) errors))"

section \<open>What is shown of an error\<close>

lemma to_diagnostic_eq:
  assumes "error_parts (se_kind e) = (code, message, lab, hint)"
  shows "to_diagnostic e = \<lparr>dg_code = code, dg_severity = SevError, dg_message = message, dg_file = None,
    dg_labels = [label_primary (span_new (se_line e) 1 1) lab], dg_help = hint,
    dg_notes = (case se_context e of Some ctx \<Rightarrow> [ctx] | None \<Rightarrow> [])\<rparr>"
  unfolding to_diagnostic_def assms
  by (cases hint; cases "se_context e")
    (simp_all add: with_primary_label_def with_help_def with_note_def diag_error_def diag_new_def)

lemma error_label_nonempty: "fst (snd (snd (error_parts k))) \<noteq> []"
  by (cases k) simp_all

text \<open>
  A rendered error shows where it is: the header with code and message, the place, the line of the
  source with that number, without its line ending, marked in its first column with the label of the
  error, then help and context. The line shown is empty where the source has no such line.
\<close>

theorem render_error_exact:
  "render_errors p content [e] =
     (case error_parts (se_kind e) of (code, message, lab, hint) \<Rightarrow>
      let n = se_line e; gutter = length (nat_to_dec n); pieces = split_lines content;
          shown = (if 0 < n \<and> n \<le> length pieces then drop_return (pieces ! (n - 1)) else [])
      in out_line (''error['' @ as_str code @ '']: '' @ message)
       @ out_line (''  --> '' @ join_with ''/'' p @ '':'' @ nat_to_dec n @ '':1'')
       @ out_line (spaces gutter @ '' |'')
       @ out_line (nat_to_dec n @ '' | '' @ shown)
       @ out_line (spaces gutter @ '' | ^'')
       @ out_line (spaces gutter @ '' | | '' @ lab)
       @ (case hint of Some h \<Rightarrow> out_line ''   |'' @ out_line (''   = help: '' @ h) | None \<Rightarrow> [])
       @ (case se_context e of Some ctx \<Rightarrow> out_line (''   = note: '' @ ctx) | None \<Rightarrow> [])
       @ [newline_char])"
proof -
  obtain code message lab hint where parts: "error_parts (se_kind e) = (code, message, lab, hint)"
    by (cases "error_parts (se_kind e)")
  have lab: "lab \<noteq> []" using error_label_nonempty [of "se_kind e"] by (simp add: parts)
  have one: "nat_to_dec (Suc 0) = ''1''" by code_simp
  let ?shown = "if 0 < se_line e \<and> se_line e \<le> length (split_lines content)
    then drop_return (split_lines content ! (se_line e - 1)) else []"
  have line: "(case Option.bind (Some p) (\<lambda>q. manager_get_line (add_source p content []) q (se_line e)) of Some l \<Rightarrow> l | None \<Rightarrow> [])
      = ?shown"
    by (simp add: manager_get_line_def add_source_def hm_get_def get_line_pieces)
  have labels: "render_labels_for_line g src [label_primary (span_new n 1 1) lab]
      = out_line (spaces g @ '' | ^'') @ out_line (spaces g @ '' | | '' @ lab)" for g src n
    using lab by (simp add: render_labels_for_line_def underline_label_def label_primary_def span_new_def spaces_def)
  let ?m = "add_source p content []" and ?g = "length (nat_to_dec (se_line e))"
  define d where "d = with_file p (to_diagnostic e)"
  have d: "d = \<lparr>dg_code = code, dg_severity = SevError, dg_message = message, dg_file = Some p,
    dg_labels = [label_primary (span_new (se_line e) 1 1) lab], dg_help = hint,
    dg_notes = (case se_context e of Some ctx \<Rightarrow> [ctx] | None \<Rightarrow> [])\<rparr>"
    by (simp add: d_def with_file_def to_diagnostic_eq [OF parts])
  have header: "render_header d = out_line (''error['' @ as_str code @ '']: '' @ message)"
    by (simp add: d render_header_def)
  have place: "render_location d = out_line (''  --> '' @ join_with ''/'' p @ '':'' @ nat_to_dec (se_line e) @ '':1'')"
    by (simp add: d render_location_def label_primary_def span_new_def file_text_def one)
  have groups: "labels_by_line (dg_labels d) = [(se_line e, [label_primary (span_new (se_line e) 1 1) lab])]"
    by (simp add: d labels_by_line_def label_primary_def span_new_def)
  have at: "dg_file d = Some p" "dg_labels d \<noteq> []" by (simp_all add: d)
  have snippet: "render_snippets ?m d = out_line (spaces ?g @ '' |'') @ out_line (nat_to_dec (se_line e) @ '' | '' @ ?shown)
      @ out_line (spaces ?g @ '' | ^'') @ out_line (spaces ?g @ '' | | '' @ lab)"
    unfolding render_snippets_def Let_def groups at(1) render_lines.simps line labels
    using at(2) by (simp add: pad_left_def spaces_def)
  show ?thesis
    unfolding render_errors_def Let_def list.map concat.simps d_def [symmetric] parts prod.case render_def header place snippet
    by (simp add: d split: option.splits)
qed

end
