(* ===== verification/Sigil_Codegen_Base.thy ===== *)
theory Sigil_Codegen_Base
  imports Sigil_Ast
begin

text \<open>
  What the code generator is built on (\<^verbatim>\<open>compiler/src/codegen/mod.rs\<close>,
  \<^verbatim>\<open>extern_decl.rs\<close>): values, handles, signatures, errors, its state, and the
  requests it makes of LLVM.

  LLVM and its bindings are third-party code, so what a request does is not modelled: the model keeps
  the requests. A module is the list of its functions and global constants, and each basic block the
  list of the instructions the builder was asked for, numbered in the order of the requests; a value is
  a constant, a parameter, a global, a function or the result of a numbered instruction. Which
  instructions the bindings refuse is the parameter \<open>cg_refuses\<close> of the state. Names of values are
  cosmetic and are left out.

  The methods of \<^verbatim>\<open>CodeGen\<close> read and write the record \<open>cg\<close> and may fail: they are functions from a
  state to an error or a result with the next state, composed by \<open>cg_bind\<close>.
\<close>

section \<open>LLVM types, values and instructions\<close>

type_synonym u64 = "64 word"

datatype fty = F32 | F64

datatype lty = LInt nat | LFloat fty | LPtr

datatype vref =
    RConst u64
  | RFloat string
  | RNull
  | RParam nat
  | RGlobal nat
  | RFunc nat
  | RInstr nat

type_synonym ival = "nat \<times> vref"
type_synonym fval = "fty \<times> vref"
type_synonym pval = vref

datatype lval = VInt ival | VFlt fval | VPtr pval

fun lval_type :: "lval \<Rightarrow> lty" where
  "lval_type (VInt i) = LInt (fst i)"
| "lval_type (VFlt f) = LFloat (fst f)"
| "lval_type (VPtr p) = LPtr"

datatype lbin = LAdd | LSub | LMul | LSDiv | LSRem | LAnd | LOr | LXor | LShl | LLshr | LAshr
datatype lpred = PEq | PNe | PSlt | PSgt | PSle | PSge | PUgt
datatype lfbin = LFAdd | LFSub | LFMul | LFDiv
datatype lfpred = POeq | POne | POlt | POgt | POle | POge

datatype linstr =
    IBin lbin ival ival
  | INot ival
  | IFBin lfbin fval fval
  | IFNeg fval
  | IIcmp lpred ival ival
  | IFcmp lfpred fval fval
  | IZext ival nat
  | ISext ival nat
  | ITrunc ival nat
  | IFtoSI fval nat
  | ISItoF ival fty
  | IPtrToInt pval nat
  | IIntToPtr ival
  | IFloatBits fval nat
  | IAlloca lty
  | IAllocaBytes nat
  | IAllocaArray nat nat
  | ILoad lty pval
  | IStore lval pval
  | IGepByte pval ival
  | IGepElem nat nat pval ival ival
  | IMemcpy pval pval ival
  | ICall nat "lval list"
  | ICmpxchg pval ival ival
  | IExtract nat nat
  | IAtomicRmw lbin pval ival
  | IBr nat
  | ICondBr ival nat nat
  | IRet "ival option"
  | IUnreachable

primrec is_terminator :: "linstr \<Rightarrow> bool" where
  "is_terminator (IBin o' a b) = False"
| "is_terminator (INot a) = False"
| "is_terminator (IFBin o' a b) = False"
| "is_terminator (IFNeg a) = False"
| "is_terminator (IIcmp p a b) = False"
| "is_terminator (IFcmp p a b) = False"
| "is_terminator (IZext a n) = False"
| "is_terminator (ISext a n) = False"
| "is_terminator (ITrunc a n) = False"
| "is_terminator (IFtoSI a n) = False"
| "is_terminator (ISItoF a n) = False"
| "is_terminator (IPtrToInt a n) = False"
| "is_terminator (IIntToPtr a) = False"
| "is_terminator (IFloatBits a n) = False"
| "is_terminator (IAlloca t) = False"
| "is_terminator (IAllocaBytes n) = False"
| "is_terminator (IAllocaArray n m) = False"
| "is_terminator (ILoad t p) = False"
| "is_terminator (IStore v p) = False"
| "is_terminator (IGepByte p i) = False"
| "is_terminator (IGepElem n m p i j) = False"
| "is_terminator (IMemcpy p q i) = False"
| "is_terminator (ICall f vs) = False"
| "is_terminator (ICmpxchg p a b) = False"
| "is_terminator (IExtract n m) = False"
| "is_terminator (IAtomicRmw o' p a) = False"
| "is_terminator (IBr b) = True"
| "is_terminator (ICondBr c b b') = True"
| "is_terminator (IRet r) = True"
| "is_terminator IUnreachable = True"

record fun_decl =
  fd_name :: string
  fd_params :: "lty list"
  fd_ret :: "lty option"

record ir_block =
  bk_fun :: nat
  bk_name :: string
  bk_code :: "(nat \<times> linstr) list"

section \<open>Sigil values\<close>

datatype handle_type = HInt | HFloat | HBytes | HString

primrec handle_type_of :: "stype \<Rightarrow> handle_type" where
  "handle_type_of TInt = HInt"
| "handle_type_of TFloat = HFloat"
| "handle_type_of TBytes = HBytes"
| "handle_type_of TString = HString"

record handle =
  h_ptr :: pval
  h_size :: usize
  h_typ :: handle_type

datatype sval = SHandle handle | SImm ival | SFlt fval

record output_slot =
  os_name :: string
  os_offset :: usize
  os_size :: usize
  os_typ :: handle_type

record call_outputs =
  co_buffer :: handle
  co_slots :: "output_slot list"

record behavior_sig =
  bs_name :: string
  bs_input_sizes :: "usize list"
  bs_outputs :: "output_slot list"

datatype offset = OConst usize | ODynamic ival

definition total_output_size :: "behavior_sig \<Rightarrow> usize" where
  "total_output_size sg = sum_list (map os_size (bs_outputs sg))"

section \<open>Target platforms\<close>

datatype target_platform = Windows | Linux | MacOS

fun str_contains :: "string \<Rightarrow> string \<Rightarrow> bool" where
  "str_contains [] t \<longleftrightarrow> t = []"
| "str_contains (c # cs) t \<longleftrightarrow> take (length t) (c # cs) = t \<or> str_contains cs t"

definition platform_from_triple :: "string \<Rightarrow> target_platform" where
  "platform_from_triple triple =
     (if str_contains triple ''windows'' then Windows
      else if str_contains triple ''darwin'' \<or> str_contains triple ''apple'' then MacOS
      else Linux)"

primrec platform_str :: "target_platform \<Rightarrow> string" where
  "platform_str Windows = ''windows''"
| "platform_str Linux = ''linux''"
| "platform_str MacOS = ''macos''"

section \<open>Errors\<close>

datatype code_gen_error =
    CgTypeError string
  | CgUndefinedVariable string
  | CgUndefinedBehavior string
  | CgUndefinedLabel string
  | CgUndefinedField string string
  | CgLlvmError string

primrec code_gen_error_text :: "code_gen_error \<Rightarrow> string" where
  "code_gen_error_text (CgTypeError m) = ''Type error: '' @ m"
| "code_gen_error_text (CgUndefinedVariable n) = ''Undefined variable: '' @ n"
| "code_gen_error_text (CgUndefinedBehavior n) = ''Undefined behavior: '' @ n"
| "code_gen_error_text (CgUndefinedLabel n) = ''Undefined label: '' @ n"
| "code_gen_error_text (CgUndefinedField v f) = ''Undefined field: '' @ v @ ''.'' @ f"
| "code_gen_error_text (CgLlvmError m) = ''LLVM error: '' @ m"

section \<open>The state and its computations\<close>

record cg =
  cg_refuses :: "linstr \<Rightarrow> string option"
  cg_functions :: "fun_decl list"
  cg_globals :: "byte list list"
  cg_blocks :: "ir_block list"
  cg_pos :: "nat option"
  cg_next :: nat
  cg_platform :: target_platform
  cg_variables :: "(string, sval) hmap"
  cg_call_outputs :: "(string, call_outputs) hmap"
  cg_behavior_sigs :: "(string, behavior_sig) hmap"
  cg_behavior_fns :: "(string, nat) hmap"
  cg_current_function :: "nat option"
  cg_current_scope :: "pval option"
  cg_reassigned :: "string hset"
  cg_mutable_slots :: "(string, pval \<times> lty) hmap"

definition cg_new :: "(linstr \<Rightarrow> string option) \<Rightarrow> target_platform \<Rightarrow> cg" where
  "cg_new refuses platform =
     \<lparr>cg_refuses = refuses, cg_functions = [], cg_globals = [], cg_blocks = [], cg_pos = None,
      cg_next = 0, cg_platform = platform, cg_variables = [], cg_call_outputs = [],
      cg_behavior_sigs = [], cg_behavior_fns = [], cg_current_function = None,
      cg_current_scope = None, cg_reassigned = [], cg_mutable_slots = []\<rparr>"

text \<open>
  A computation ends with a result, with an error of the code generator, or in a panic of the bindings
  (a value read as one of another kind).
\<close>

datatype cg_stop = Fails code_gen_error | Panics

type_synonym 'a cgm = "cg \<Rightarrow> cg_stop + 'a \<times> cg"

definition cg_ret :: "'a \<Rightarrow> 'a cgm" where
  "cg_ret a = (\<lambda>s. Inr (a, s))"

definition cg_fail :: "code_gen_error \<Rightarrow> 'a cgm" where
  "cg_fail e = (\<lambda>s. Inl (Fails e))"

definition cg_panic :: "'a cgm" where
  "cg_panic = (\<lambda>s. Inl Panics)"

definition cg_bind :: "'a cgm \<Rightarrow> ('a \<Rightarrow> 'b cgm) \<Rightarrow> 'b cgm" where
  "cg_bind m f = (\<lambda>s. case m s of Inl e \<Rightarrow> Inl e | Inr (a, s') \<Rightarrow> f a s')"

definition cg_then :: "'a cgm \<Rightarrow> 'b cgm \<Rightarrow> 'b cgm" where
  "cg_then m n = cg_bind m (\<lambda>_. n)"

definition cg_gets :: "(cg \<Rightarrow> 'a) \<Rightarrow> 'a cgm" where
  "cg_gets f = (\<lambda>s. Inr (f s, s))"

definition cg_modify :: "(cg \<Rightarrow> cg) \<Rightarrow> unit cgm" where
  "cg_modify f = (\<lambda>s. Inr ((), f s))"

definition cg_ok_or :: "'a option \<Rightarrow> code_gen_error \<Rightarrow> 'a cgm" where
  "cg_ok_or x e = (case x of None \<Rightarrow> cg_fail e | Some a \<Rightarrow> cg_ret a)"

section \<open>Requests to the builder\<close>

definition add_instr :: "nat \<Rightarrow> nat \<Rightarrow> linstr \<Rightarrow> ir_block list \<Rightarrow> ir_block list" where
  "add_instr b n ins bs = bs[b := (bs ! b)\<lparr>bk_code := bk_code (bs ! b) @ [(n, ins)]\<rparr>]"

definition emit :: "linstr \<Rightarrow> nat cgm" where
  "emit ins = (\<lambda>s. case cg_pos s of
       None \<Rightarrow> Inl (Fails (CgLlvmError ''Builder position is not set''))
     | Some b \<Rightarrow>
         (case cg_refuses s ins of
            Some msg \<Rightarrow> Inl (Fails (CgLlvmError msg))
          | None \<Rightarrow> Inr (cg_next s,
              s\<lparr>cg_blocks := add_instr b (cg_next s) ins (cg_blocks s), cg_next := cg_next s + 1\<rparr>)))"

definition emit_unit :: "linstr \<Rightarrow> unit cgm" where
  "emit_unit ins = cg_then (emit ins) (cg_ret ())"

definition emit_int :: "nat \<Rightarrow> linstr \<Rightarrow> ival cgm" where
  "emit_int bits ins = cg_bind (emit ins) (\<lambda>n. cg_ret (bits, RInstr n))"

definition emit_flt :: "fty \<Rightarrow> linstr \<Rightarrow> fval cgm" where
  "emit_flt t ins = cg_bind (emit ins) (\<lambda>n. cg_ret (t, RInstr n))"

definition emit_ptr :: "linstr \<Rightarrow> pval cgm" where
  "emit_ptr ins = cg_bind (emit ins) (\<lambda>n. cg_ret (RInstr n))"

definition append_basic_block :: "nat \<Rightarrow> string \<Rightarrow> nat cgm" where
  "append_basic_block f name = (\<lambda>s. Inr (length (cg_blocks s),
     s\<lparr>cg_blocks := cg_blocks s @ [\<lparr>bk_fun = f, bk_name = name, bk_code = []\<rparr>]\<rparr>))"

definition position_at_end :: "nat \<Rightarrow> unit cgm" where
  "position_at_end b = cg_modify (\<lambda>s. s\<lparr>cg_pos := Some b\<rparr>)"

fun function_index :: "string \<Rightarrow> fun_decl list \<Rightarrow> nat option" where
  "function_index name [] = None"
| "function_index name (d # ds) =
     (if fd_name d = name then Some 0 else map_option Suc (function_index name ds))"

definition get_function :: "string \<Rightarrow> nat option cgm" where
  "get_function name = cg_gets (\<lambda>s. function_index name (cg_functions s))"

definition add_function :: "string \<Rightarrow> lty list \<Rightarrow> lty option \<Rightarrow> nat cgm" where
  "add_function name params ret = (\<lambda>s. Inr (length (cg_functions s),
     s\<lparr>cg_functions := cg_functions s @ [\<lparr>fd_name = name, fd_params = params, fd_ret = ret\<rparr>]\<rparr>))"

definition add_global :: "byte list \<Rightarrow> pval cgm" where
  "add_global bytes = (\<lambda>s. Inr (RGlobal (length (cg_globals s)),
     s\<lparr>cg_globals := cg_globals s @ [bytes]\<rparr>))"

definition i64_const :: "u64 \<Rightarrow> ival" where
  "i64_const w = (64, RConst w)"

definition block_terminated :: "ir_block \<Rightarrow> bool" where
  "block_terminated b \<longleftrightarrow> bk_code b \<noteq> [] \<and> is_terminator (snd (last (bk_code b)))"

definition needs_terminator :: "bool cgm" where
  "needs_terminator = cg_gets (\<lambda>s. case cg_pos s of
       None \<Rightarrow> False
     | Some b \<Rightarrow> \<not> block_terminated (cg_blocks s ! b))"

section \<open>Runtime functions\<close>

definition get_or_declare :: "string \<Rightarrow> lty list \<Rightarrow> lty option \<Rightarrow> nat cgm" where
  "get_or_declare name params ret =
     cg_bind (get_function name) (\<lambda>f. case f of
       Some i \<Rightarrow> cg_ret i
     | None \<Rightarrow> add_function name params ret)"

definition crt_name :: "target_platform \<Rightarrow> string \<Rightarrow> string" where
  "crt_name p base = (case p of
       Windows \<Rightarrow> ''_'' @ base
     | Linux \<Rightarrow> base
     | MacOS \<Rightarrow> base)"

definition declare_puts :: "nat cgm" where
  "declare_puts = get_or_declare ''puts'' [LPtr] (Some (LInt 32))"

definition declare_write :: "nat cgm" where
  "declare_write = cg_bind (cg_gets cg_platform) (\<lambda>p.
     get_or_declare (crt_name p ''write'') [LInt 64, LPtr, LInt 64] (Some (LInt 64)))"

definition declare_externals :: "unit cgm" where
  "declare_externals = cg_then declare_puts (cg_then declare_write (cg_ret ()))"

definition get_or_declare_abort :: "nat cgm" where
  "get_or_declare_abort = get_or_declare ''abort'' [] None"

definition get_or_declare_sigil_spawn :: "nat cgm" where
  "get_or_declare_sigil_spawn =
     get_or_declare ''sigil_spawn'' [LPtr, LPtr, LInt 64] (Some (LInt 64))"

definition get_or_declare_sigil_wait :: "nat cgm" where
  "get_or_declare_sigil_wait = get_or_declare ''sigil_wait'' [LInt 64, LPtr, LInt 64] None"

definition get_or_declare_sigil_wait_any :: "nat cgm" where
  "get_or_declare_sigil_wait_any =
     get_or_declare ''sigil_wait_any'' [LPtr, LInt 64, LPtr, LInt 64] (Some (LInt 64))"

definition get_or_declare_sigil_channel_create :: "nat cgm" where
  "get_or_declare_sigil_channel_create =
     get_or_declare ''sigil_channel_create'' [LInt 64, LInt 64] (Some (LInt 64))"

definition get_or_declare_sigil_scope_create :: "nat cgm" where
  "get_or_declare_sigil_scope_create = get_or_declare ''sigil_scope_create'' [LPtr] (Some LPtr)"

definition get_or_declare_sigil_scope_alloc :: "nat cgm" where
  "get_or_declare_sigil_scope_alloc =
     get_or_declare ''sigil_scope_alloc'' [LPtr, LInt 64] (Some LPtr)"

definition get_or_declare_sigil_scope_free :: "nat cgm" where
  "get_or_declare_sigil_scope_free = get_or_declare ''sigil_scope_free'' [LPtr, LPtr] None"

definition get_or_declare_sigil_scope_destroy :: "nat cgm" where
  "get_or_declare_sigil_scope_destroy = get_or_declare ''sigil_scope_destroy'' [LPtr] None"

definition get_or_declare_sigil_channel_send :: "nat cgm" where
  "get_or_declare_sigil_channel_send =
     get_or_declare ''sigil_channel_send'' [LInt 64, LPtr] (Some (LInt 64))"

definition get_or_declare_sigil_channel_receive :: "nat cgm" where
  "get_or_declare_sigil_channel_receive =
     get_or_declare ''sigil_channel_receive'' [LInt 64, LPtr] (Some (LInt 64))"

definition get_or_declare_sigil_channel_close :: "nat cgm" where
  "get_or_declare_sigil_channel_close = get_or_declare ''sigil_channel_close'' [LInt 64] None"

end
