(* ===== verification/Sigil_Codegen_Expr.thy ===== *)
theory Sigil_Codegen_Expr
  imports Sigil_Codegen_Base
begin

text \<open>
  The code generated for expressions (\<^verbatim>\<open>compiler/src/codegen/expr.rs\<close>) and the operations on
  handles it uses (\<^verbatim>\<open>compiler/src/codegen/mod.rs\<close>): bounds checks, allocation, loads and
  stores, field access and calls.

  A Sigil string is the list of its UTF-8 bytes, so its length is the byte count of the source. The
  product of a size and 8 wraps as it does in a release build; sizes above \<open>2 ^ 61\<close> are the only ones
  it matters for.
\<close>

section \<open>Helpers\<close>

definition int_bits :: "usize \<Rightarrow> nat" where
  "int_bits n = unat (ucast (n * 8) :: 32 word)"

definition as_handle :: "sval \<Rightarrow> handle cgm" where
  "as_handle v = (case v of
       SHandle h \<Rightarrow> cg_ret h
     | SImm i \<Rightarrow> cg_fail (CgTypeError ''Expected handle, got immediate'')
     | SFlt f \<Rightarrow> cg_fail (CgTypeError ''Expected handle, got immediate''))"

definition as_int :: "sval \<Rightarrow> ival cgm" where
  "as_int v = (case v of
       SImm i \<Rightarrow> cg_ret i
     | SHandle h \<Rightarrow> cg_fail (CgTypeError
         (''Expected int immediate, got handle (size='' @ usize_to_dec (h_size h) @ '')''))
     | SFlt f \<Rightarrow> cg_fail (CgTypeError ''Expected int immediate, got float''))"

definition as_float :: "sval \<Rightarrow> fval cgm" where
  "as_float v = (case v of
       SFlt f \<Rightarrow> cg_ret f
     | SHandle h \<Rightarrow> cg_fail (CgTypeError ''Expected float immediate'')
     | SImm i \<Rightarrow> cg_fail (CgTypeError ''Expected float immediate''))"

definition resize_int :: "ival \<Rightarrow> nat \<Rightarrow> ival cgm" where
  "resize_int v dst =
     (if fst v = dst then cg_ret v
      else if fst v > dst then emit_int dst (ITrunc v dst)
      else emit_int dst (IZext v dst))"

definition normalize_int_types :: "ival \<Rightarrow> ival \<Rightarrow> (ival \<times> ival) cgm" where
  "normalize_int_types av bv =
     (if fst av = fst bv then cg_ret (av, bv)
      else if fst av > fst bv then
        cg_bind (emit_int (fst av) (ISext bv (fst av))) (\<lambda>ext. cg_ret (av, ext))
      else cg_bind (emit_int (fst bv) (ISext av (fst bv))) (\<lambda>ext. cg_ret (ext, bv)))"

definition lookup_variable :: "string \<Rightarrow> sval cgm" where
  "lookup_variable name =
     cg_bind (cg_gets cg_variables) (\<lambda>vs. cg_ok_or (hm_get vs name) (CgUndefinedVariable name))"

definition cg_get_var :: "string \<Rightarrow> sval cgm" where
  "cg_get_var name = cg_bind (cg_gets cg_mutable_slots) (\<lambda>slots. case hm_get slots name of
       Some (ptr, ty) \<Rightarrow> cg_bind (emit (ILoad ty ptr)) (\<lambda>n. case ty of
           LFloat t \<Rightarrow> cg_ret (SFlt (t, RInstr n))
         | LInt b \<Rightarrow> cg_ret (SImm (b, RInstr n))
         | LPtr \<Rightarrow> cg_panic)
     | None \<Rightarrow> lookup_variable name)"

definition set_variable :: "string \<Rightarrow> sval \<Rightarrow> unit cgm" where
  "set_variable name v = cg_modify (\<lambda>s. s\<lparr>cg_variables := hm_insert name v (cg_variables s)\<rparr>)"

definition eval_const_int :: "expr \<Rightarrow> usize option" where
  "eval_const_int e = (case e of IntLit n \<Rightarrow> Some n | _ \<Rightarrow> None)"

definition mangle :: "string \<Rightarrow> string" where
  "mangle name = ''sigil_'' @
     map (\<lambda>c. if c = CHR ''-'' \<or> c = CHR ''/'' then CHR ''_'' else c) name"

definition call_int :: "nat \<Rightarrow> lval list \<Rightarrow> ival cgm" where
  "call_int f args = cg_bind (emit (ICall f args)) (\<lambda>n.
     cg_bind (cg_gets (\<lambda>s. fd_ret (cg_functions s ! f))) (\<lambda>r. case r of
       None \<Rightarrow> cg_ret (i64_const 0)
     | Some t \<Rightarrow> (case t of LInt b \<Rightarrow> cg_ret (b, RInstr n) | _ \<Rightarrow> cg_panic)))"

definition call_ptr :: "nat \<Rightarrow> lval list \<Rightarrow> string \<Rightarrow> pval cgm" where
  "call_ptr f args void_msg = cg_bind (emit (ICall f args)) (\<lambda>n.
     cg_bind (cg_gets (\<lambda>s. fd_ret (cg_functions s ! f))) (\<lambda>r. case r of
       None \<Rightarrow> cg_fail (CgLlvmError void_msg)
     | Some t \<Rightarrow> if t = LPtr then cg_ret (RInstr n) else cg_panic))"

section \<open>Bounds checks\<close>

definition emit_bounds_check :: "ival \<Rightarrow> usize \<Rightarrow> usize \<Rightarrow> nat \<Rightarrow> unit cgm" where
  "emit_bounds_check off access_size allocated_size f =
     cg_bind (emit_int (fst off) (IBin LAdd off (i64_const access_size))) (\<lambda>end_offset.
     cg_bind (emit_int 1 (IIcmp PUgt end_offset (i64_const allocated_size))) (\<lambda>is_violation.
     cg_bind (append_basic_block f ''bounds_violation'') (\<lambda>violation_block.
     cg_bind (append_basic_block f ''bounds_ok'') (\<lambda>continue_block.
     cg_then (emit_unit (ICondBr is_violation violation_block continue_block))
     (cg_then (position_at_end violation_block)
     (cg_bind get_or_declare_abort (\<lambda>abort_fn.
     cg_then (emit_unit (ICall abort_fn []))
     (cg_then (emit_unit IUnreachable)
     (position_at_end continue_block)))))))))"

definition dynamic_bounds_check :: "handle \<Rightarrow> usize \<Rightarrow> offset \<Rightarrow> unit cgm" where
  "dynamic_bounds_check h n off = (case off of
       OConst c \<Rightarrow> cg_ret ()
     | ODynamic v \<Rightarrow> cg_bind (cg_gets cg_current_function) (\<lambda>fn. case fn of
           None \<Rightarrow> cg_ret ()
         | Some f \<Rightarrow> if h_size h > 0 then emit_bounds_check v n (h_size h) f else cg_ret ()))"

section \<open>Handle operations\<close>

definition alloc_handle :: "usize \<Rightarrow> handle_type \<Rightarrow> handle cgm" where
  "alloc_handle n t =
     cg_bind (emit_ptr (IAllocaBytes (unat (ucast n :: 32 word))))
       (\<lambda>p. cg_ret \<lparr>h_ptr = p, h_size = n, h_typ = t\<rparr>)"

definition scope_alloc_handle :: "usize \<Rightarrow> handle_type \<Rightarrow> handle cgm" where
  "scope_alloc_handle n t = cg_bind (cg_gets cg_current_scope) (\<lambda>sc. case sc of
       None \<Rightarrow> alloc_handle n t
     | Some scope \<Rightarrow>
         cg_bind get_or_declare_sigil_scope_alloc (\<lambda>alloc_fn.
         cg_bind (call_ptr alloc_fn [VPtr scope, VInt (i64_const n)]
                    ''sigil_scope_alloc returned void'')
           (\<lambda>p. cg_ret \<lparr>h_ptr = p, h_size = n, h_typ = t\<rparr>)))"

definition gep_at :: "pval \<Rightarrow> usize \<Rightarrow> pval cgm" where
  "gep_at p off = (if off = 0 then cg_ret p else emit_ptr (IGepByte p (i64_const off)))"

definition access_ptr :: "handle \<Rightarrow> offset \<Rightarrow> pval cgm" where
  "access_ptr h off = (case off of
       OConst c \<Rightarrow> gep_at (h_ptr h) c
     | ODynamic v \<Rightarrow> emit_ptr (IGepByte (h_ptr h) v))"

definition load_handle :: "handle \<Rightarrow> usize \<Rightarrow> offset \<Rightarrow> sval cgm" where
  "load_handle h n off =
     cg_then (dynamic_bounds_check h n off)
     (cg_bind (access_ptr h off) (\<lambda>ptr.
        if h_typ h = HFloat then
          (let t = (if n = 4 then F32 else F64)
           in cg_bind (emit_flt t (ILoad (LFloat t) ptr)) (\<lambda>f. cg_ret (SFlt f)))
        else cg_bind (emit_int (int_bits n) (ILoad (LInt (int_bits n)) ptr))
               (\<lambda>i. cg_ret (SImm i))))"

definition store_handle :: "handle \<Rightarrow> sval \<Rightarrow> usize \<Rightarrow> offset \<Rightarrow> unit cgm" where
  "store_handle h v n off =
     cg_then (dynamic_bounds_check h n off)
     (cg_bind (access_ptr h off) (\<lambda>ptr. case v of
        SImm i \<Rightarrow> cg_bind (resize_int i (int_bits n)) (\<lambda>sized. emit_unit (IStore (VInt sized) ptr))
      | SHandle src \<Rightarrow>
          cg_bind (emit_int 64 (IPtrToInt (h_ptr src) 64)) (\<lambda>p.
          cg_bind (resize_int p (int_bits n)) (\<lambda>sized. emit_unit (IStore (VInt sized) ptr)))
      | SFlt f \<Rightarrow> emit_unit (IStore (VFlt f) ptr)))"

definition immediate_to_handle :: "sval \<Rightarrow> handle cgm" where
  "immediate_to_handle v = (case v of
       SHandle h \<Rightarrow> cg_ret h
     | SImm i \<Rightarrow>
         cg_bind (alloc_handle (max (of_nat (fst i div 8)) 8) HInt) (\<lambda>h.
         cg_then (emit_unit (IStore (VInt i) (h_ptr h))) (cg_ret h))
     | SFlt f \<Rightarrow>
         cg_bind (alloc_handle (if fst f = F32 then 4 else 8) HFloat) (\<lambda>h.
         cg_then (emit_unit (IStore (VFlt f) (h_ptr h))) (cg_ret h)))"

definition find_slot :: "string \<Rightarrow> output_slot list \<Rightarrow> output_slot option" where
  "find_slot field slots = List.find (\<lambda>s. os_name s = field) slots"

definition get_field :: "call_outputs \<Rightarrow> string \<Rightarrow> handle cgm" where
  "get_field outs field =
     cg_bind (cg_ok_or (find_slot field (co_slots outs))
                (CgUndefinedField ''call_result'' field)) (\<lambda>slot.
     cg_bind (gep_at (h_ptr (co_buffer outs)) (os_offset slot)) (\<lambda>ptr.
     cg_ret \<lparr>h_ptr = ptr, h_size = os_size slot, h_typ = os_typ slot\<rparr>))"

definition pointer_or_handle :: "string \<Rightarrow> sval \<Rightarrow> handle cgm" where
  "pointer_or_handle err v = (case v of
       SHandle h \<Rightarrow> cg_ret h
     | SImm i \<Rightarrow> cg_bind (emit_ptr (IIntToPtr i)) (\<lambda>p.
         cg_ret \<lparr>h_ptr = p, h_size = 0, h_typ = HInt\<rparr>)
     | SFlt f \<Rightarrow> cg_fail (CgTypeError err))"

section \<open>Operators\<close>

primrec iarith_instr :: "iarith \<Rightarrow> lbin" where
  "iarith_instr Iadd = LAdd"
| "iarith_instr Isub = LSub"
| "iarith_instr Imul = LMul"
| "iarith_instr Idiv = LSDiv"
| "iarith_instr Imod = LSRem"

primrec bitop_instr :: "bitop \<Rightarrow> lbin" where
  "bitop_instr And = LAnd"
| "bitop_instr Or = LOr"
| "bitop_instr Xor = LXor"
| "bitop_instr Shl = LShl"
| "bitop_instr Shr = LLshr"
| "bitop_instr Sar = LAshr"

primrec icmp_pred :: "icmp \<Rightarrow> lpred" where
  "icmp_pred Ieq = PEq"
| "icmp_pred Ine = PNe"
| "icmp_pred Ilt = PSlt"
| "icmp_pred Igt = PSgt"
| "icmp_pred Ile = PSle"
| "icmp_pred Ige = PSge"

primrec farith_instr :: "farith \<Rightarrow> lfbin" where
  "farith_instr Fadd = LFAdd"
| "farith_instr Fsub = LFSub"
| "farith_instr Fmul = LFMul"
| "farith_instr Fdiv = LFDiv"

primrec fcmp_pred :: "fcmp \<Rightarrow> lfpred" where
  "fcmp_pred Feq = POeq"
| "fcmp_pred Fne = POne"
| "fcmp_pred Flt = POlt"
| "fcmp_pred Fgt = POgt"
| "fcmp_pred Fle = POle"
| "fcmp_pred Fge = POge"

definition compile_int_binop :: "sval cgm \<Rightarrow> sval cgm \<Rightarrow> lbin \<Rightarrow> sval cgm" where
  "compile_int_binop ma mb op =
     cg_bind ma (\<lambda>va. cg_bind (as_int va) (\<lambda>av.
     cg_bind mb (\<lambda>vb. cg_bind (as_int vb) (\<lambda>bv.
     cg_bind (normalize_int_types av bv) (\<lambda>(av, bv).
     cg_bind (emit_int (fst av) (IBin op av bv)) (\<lambda>r. cg_ret (SImm r)))))))"

definition compile_int_cmp :: "sval cgm \<Rightarrow> sval cgm \<Rightarrow> lpred \<Rightarrow> sval cgm" where
  "compile_int_cmp ma mb pred =
     cg_bind ma (\<lambda>va. cg_bind (as_int va) (\<lambda>av.
     cg_bind mb (\<lambda>vb. cg_bind (as_int vb) (\<lambda>bv.
     cg_bind (normalize_int_types av bv) (\<lambda>(av, bv).
     cg_bind (emit_int 1 (IIcmp pred av bv)) (\<lambda>cmp.
     cg_bind (emit_int 64 (IZext cmp 64)) (\<lambda>ext. cg_ret (SImm ext))))))))"

definition compile_float_binop :: "sval cgm \<Rightarrow> sval cgm \<Rightarrow> lfbin \<Rightarrow> sval cgm" where
  "compile_float_binop ma mb op =
     cg_bind ma (\<lambda>va. cg_bind (as_float va) (\<lambda>av.
     cg_bind mb (\<lambda>vb. cg_bind (as_float vb) (\<lambda>bv.
     cg_bind (emit_flt (fst av) (IFBin op av bv)) (\<lambda>r. cg_ret (SFlt r))))))"

definition compile_float_cmp :: "sval cgm \<Rightarrow> sval cgm \<Rightarrow> lfpred \<Rightarrow> sval cgm" where
  "compile_float_cmp ma mb pred =
     cg_bind ma (\<lambda>va. cg_bind (as_float va) (\<lambda>av.
     cg_bind mb (\<lambda>vb. cg_bind (as_float vb) (\<lambda>bv.
     cg_bind (emit_int 1 (IFcmp pred av bv)) (\<lambda>cmp.
     cg_bind (emit_int 64 (IZext cmp 64)) (\<lambda>ext. cg_ret (SImm ext)))))))"

definition int_unary :: "sval cgm \<Rightarrow> (ival \<Rightarrow> nat \<times> linstr) \<Rightarrow> sval cgm" where
  "int_unary ma f =
     cg_bind ma (\<lambda>va. cg_bind (as_int va) (\<lambda>av.
     cg_bind (emit_int (fst (f av)) (snd (f av))) (\<lambda>r. cg_ret (SImm r))))"

definition compile_string_lit :: "string \<Rightarrow> sval cgm" where
  "compile_string_lit s =
     (let bytes = map (\<lambda>i. ucast (drop_bit (8 * i) (of_nat (length s) :: u64))) [0..<8]
                  @ map of_char s
      in cg_bind (add_global bytes) (\<lambda>p.
         cg_ret (SHandle \<lparr>h_ptr = p, h_size = of_nat (length bytes), h_typ = HString\<rparr>)))"

definition compile_field :: "string \<Rightarrow> string \<Rightarrow> sval cgm" where
  "compile_field base_name field =
     cg_bind (cg_gets cg_call_outputs) (\<lambda>outs.
     cg_bind (cg_ok_or (hm_get outs base_name) (CgUndefinedField base_name field)) (\<lambda>co.
     cg_bind (get_field co field) (\<lambda>h.
       if h_typ h = HString then
         cg_bind (emit_ptr (ILoad LPtr (h_ptr h))) (\<lambda>p.
         cg_ret (SHandle \<lparr>h_ptr = p, h_size = 0, h_typ = HString\<rparr>))
       else cg_ret (SHandle h))))"

definition compile_load :: "sval cgm \<Rightarrow> usize \<Rightarrow> offset cgm \<Rightarrow> sval cgm" where
  "compile_load msrc n moff =
     cg_bind msrc (\<lambda>v.
     cg_bind (pointer_or_handle ''LOAD source must be handle or pointer value'' v) (\<lambda>h.
     cg_bind moff (\<lambda>off. load_handle h n off)))"

definition compile_cas :: "sval cgm \<Rightarrow> sval cgm \<Rightarrow> sval cgm \<Rightarrow> sval cgm" where
  "compile_cas maddr mexp mnew =
     cg_bind maddr (\<lambda>va. cg_bind (as_handle va) (\<lambda>h.
     cg_bind mexp (\<lambda>ve. cg_bind (as_int ve) (\<lambda>ex.
     cg_bind mnew (\<lambda>vn. cg_bind (as_int vn) (\<lambda>nw.
     cg_bind (emit (ICmpxchg (h_ptr h) ex nw)) (\<lambda>r.
     cg_bind (emit_int 1 (IExtract r 1)) (\<lambda>success.
     cg_bind (emit_int 64 (IZext success 64)) (\<lambda>ext. cg_ret (SImm ext))))))))))"

definition compile_rmw :: "sval cgm \<Rightarrow> sval cgm \<Rightarrow> lbin \<Rightarrow> sval cgm" where
  "compile_rmw maddr mval op =
     cg_bind maddr (\<lambda>va. cg_bind (as_handle va) (\<lambda>h.
     cg_bind mval (\<lambda>vv. cg_bind (as_int vv) (\<lambda>v.
     cg_bind (emit_int (fst v) (IAtomicRmw op (h_ptr h) v)) (\<lambda>r. cg_ret (SImm r))))))"

section \<open>Calls, tasks and channels\<close>

definition callee_of :: "string \<Rightarrow> nat cgm" where
  "callee_of behavior =
     cg_bind (cg_gets (\<lambda>s. case hm_get (cg_behavior_fns s) behavior of
                          Some f \<Rightarrow> Some f
                        | None \<Rightarrow> function_index (mangle behavior) (cg_functions s)))
       (\<lambda>f. cg_ok_or f (CgUndefinedBehavior behavior))"

definition sig_of :: "string \<Rightarrow> nat \<Rightarrow> behavior_sig cgm" where
  "sig_of behavior n = cg_gets (\<lambda>s. case hm_get (cg_behavior_sigs s) behavior of
       Some sg \<Rightarrow> sg
     | None \<Rightarrow> \<lparr>bs_name = behavior, bs_input_sizes = replicate n 8, bs_outputs = []\<rparr>)"

primrec slot_pointers :: "pval \<Rightarrow> output_slot list \<Rightarrow> pval list cgm" where
  "slot_pointers p [] = cg_ret []"
| "slot_pointers p (sl # sls) =
     cg_bind (gep_at p (os_offset sl)) (\<lambda>q.
     cg_bind (slot_pointers p sls) (\<lambda>qs. cg_ret (q # qs)))"

definition pending :: string where
  "pending = ''__pending''"

definition finish_call :: "nat \<Rightarrow> behavior_sig \<Rightarrow> pval list \<Rightarrow> sval cgm" where
  "finish_call callee sg args =
     (if total_output_size sg > 0 then
        cg_bind (scope_alloc_handle (total_output_size sg) HBytes) (\<lambda>h.
        cg_bind (slot_pointers (h_ptr h) (bs_outputs sg)) (\<lambda>outs.
        cg_then (emit_unit (ICall callee (map VPtr (args @ outs))))
        (cg_then (cg_modify (\<lambda>s. s\<lparr>cg_call_outputs := hm_insert pending
                    \<lparr>co_buffer = h, co_slots = bs_outputs sg\<rparr> (cg_call_outputs s)\<rparr>))
        (cg_ret (SHandle h)))))
      else cg_then (emit_unit (ICall callee (map VPtr args))) (cg_ret (SImm (i64_const 0))))"

definition spawn_arg :: "handle \<Rightarrow> nat \<Rightarrow> sval \<Rightarrow> unit cgm" where
  "spawn_arg buf i v = (case v of
       SHandle h \<Rightarrow> cg_bind (emit_int 64 (IPtrToInt (h_ptr h) 64)) (\<lambda>p.
         store_handle buf (SImm p) 8 (OConst (of_nat (i * 8))))
     | SImm w \<Rightarrow> store_handle buf (SImm w) 8 (OConst (of_nat (i * 8)))
     | SFlt f \<Rightarrow> cg_bind (emit_int 64 (IFloatBits f 64)) (\<lambda>p.
         store_handle buf (SImm p) 8 (OConst (of_nat (i * 8)))))"

definition spawn_buffer :: "string \<Rightarrow> nat \<Rightarrow> handle cgm" where
  "spawn_buffer pattern nargs =
     cg_bind (cg_gets (\<lambda>s. case hm_get (cg_behavior_sigs s) pattern of
                          None \<Rightarrow> 0
                        | Some sg \<Rightarrow> (case bs_input_sizes sg of [] \<Rightarrow> 0 | m # ms \<Rightarrow> m))) (\<lambda>memory_size.
     alloc_handle (if memory_size > 0 then memory_size else of_nat (nargs * 8)) HBytes)"

definition compile_wait :: "string \<Rightarrow> sval cgm" where
  "compile_wait handle_name =
     cg_bind get_or_declare_sigil_wait (\<lambda>wait_fn.
     cg_bind (lookup_variable handle_name) (\<lambda>v.
     cg_bind (as_int v) (\<lambda>i.
     cg_then (emit_unit (ICall wait_fn [VInt i, VPtr RNull, VInt (i64_const 0)]))
     (cg_ret (SImm (i64_const 0))))))"

definition compile_channel :: "sval cgm \<Rightarrow> sval cgm" where
  "compile_channel mcap =
     cg_bind get_or_declare_sigil_channel_create (\<lambda>create_fn.
     cg_bind mcap (\<lambda>v. cg_bind (as_int v) (\<lambda>cap.
     cg_bind (call_int create_fn [VInt (i64_const 8), VInt cap]) (\<lambda>h. cg_ret (SImm h)))))"

definition compile_channel_receive :: "string \<Rightarrow> sval cgm" where
  "compile_channel_receive name =
     cg_bind get_or_declare_sigil_channel_receive (\<lambda>recv_fn.
     cg_bind (lookup_variable name) (\<lambda>v. cg_bind (as_int v) (\<lambda>ch.
     cg_bind (alloc_handle 8 HInt) (\<lambda>buf.
     cg_then (emit_unit (ICall recv_fn [VInt ch, VPtr (h_ptr buf)]))
     (cg_bind (emit_int 64 (ILoad (LInt 64) (h_ptr buf))) (\<lambda>r. cg_ret (SImm r)))))))"

section \<open>Expressions\<close>

fun compile_expr :: "expr \<Rightarrow> sval cgm"
  and compile_offset :: "expr option \<Rightarrow> offset cgm"
  and compile_args :: "expr list \<Rightarrow> pval list cgm"
  and compile_spawn_args :: "handle \<Rightarrow> nat \<Rightarrow> expr list \<Rightarrow> unit cgm" where
  "compile_expr (IntLit n) = cg_ret (SImm (i64_const n))"
| "compile_expr (FloatLit f) = cg_ret (SFlt (F64, RFloat f))"
| "compile_expr (StringLit s) = compile_string_lit s"
| "compile_expr (Var name) = cg_get_var name"
| "compile_expr (Field base field) = (case base of
       Var base_name \<Rightarrow> compile_field base_name field
     | _ \<Rightarrow> cg_fail (CgTypeError ''Field access base must be variable''))"
| "compile_expr (Alloc sz typ sh) =
     cg_bind (scope_alloc_handle (case eval_const_int sz of Some n \<Rightarrow> n | None \<Rightarrow> 64)
                (handle_type_of typ)) (\<lambda>h. cg_ret (SHandle h))"
| "compile_expr (Load src n off) = compile_load (compile_expr src) n (compile_offset off)"
| "compile_expr (Call behavior args) =
     cg_bind (callee_of behavior) (\<lambda>callee.
     cg_bind (sig_of behavior (length args)) (\<lambda>sg.
     cg_bind (compile_args args) (\<lambda>ps. finish_call callee sg ps)))"
| "compile_expr (IArith op a b n) =
     compile_int_binop (compile_expr a) (compile_expr b) (iarith_instr op)"
| "compile_expr (Ineg a n) =
     int_unary (compile_expr a) (\<lambda>av. (64, IBin LSub (i64_const 0) av))"
| "compile_expr (ICmp op a b n) =
     compile_int_cmp (compile_expr a) (compile_expr b) (icmp_pred op)"
| "compile_expr (Bitwise op a b n) =
     compile_int_binop (compile_expr a) (compile_expr b) (bitop_instr op)"
| "compile_expr (BNot a n) = int_unary (compile_expr a) (\<lambda>av. (fst av, INot av))"
| "compile_expr (FArith op a b n) =
     compile_float_binop (compile_expr a) (compile_expr b) (farith_instr op)"
| "compile_expr (Fneg a n) =
     cg_bind (compile_expr a) (\<lambda>v. cg_bind (as_float v) (\<lambda>av.
     cg_bind (emit_flt (fst av) (IFNeg av)) (\<lambda>r. cg_ret (SFlt r))))"
| "compile_expr (FCmp op a b n) =
     compile_float_cmp (compile_expr a) (compile_expr b) (fcmp_pred op)"
| "compile_expr (Ftoi a fsize isize) =
     cg_bind (compile_expr a) (\<lambda>v. cg_bind (as_float v) (\<lambda>fv.
     cg_bind (emit_int (int_bits isize) (IFtoSI fv (int_bits isize))) (\<lambda>r. cg_ret (SImm r))))"
| "compile_expr (Itof a isize fsize) =
     cg_bind (compile_expr a) (\<lambda>v. cg_bind (as_int v) (\<lambda>iv.
     (let t = (if fsize = 4 then F32 else F64)
      in cg_bind (emit_flt t (ISItoF iv t)) (\<lambda>r. cg_ret (SFlt r)))))"
| "compile_expr (AtomicLoad src n) =
     cg_bind (compile_expr src) (\<lambda>v. cg_bind (as_handle v) (\<lambda>h. load_handle h n (OConst 0)))"
| "compile_expr (AtomicStore target e n) =
     cg_bind (compile_expr target) (\<lambda>v. cg_bind (as_handle v) (\<lambda>h.
     cg_bind (compile_expr e) (\<lambda>w.
     cg_then (store_handle h w n (OConst 0)) (cg_ret w))))"
| "compile_expr (Cas addr expd new n) =
     compile_cas (compile_expr addr) (compile_expr expd) (compile_expr new)"
| "compile_expr (AtomicAdd target e n) =
     compile_rmw (compile_expr target) (compile_expr e) LAdd"
| "compile_expr (AtomicSub target e n) =
     compile_rmw (compile_expr target) (compile_expr e) LSub"
| "compile_expr (Spawn pattern args) =
     cg_bind get_or_declare_sigil_spawn (\<lambda>spawn_fn.
     cg_bind (get_function (mangle pattern)) (\<lambda>f.
     cg_bind (cg_ok_or f (CgUndefinedBehavior pattern)) (\<lambda>pattern_fn.
     cg_bind (spawn_buffer pattern (length args)) (\<lambda>buf.
     cg_then (compile_spawn_args buf 0 args)
     (cg_bind (call_int spawn_fn [VPtr (RFunc pattern_fn), VPtr (h_ptr buf),
                                 VInt (i64_const (h_size buf))]) (\<lambda>h. cg_ret (SImm h)))))))"
| "compile_expr (Wait handle_name) = compile_wait handle_name"
| "compile_expr (Channel typ capacity) = compile_channel (compile_expr capacity)"
| "compile_expr (ChannelReceive name) = compile_channel_receive name"
| "compile_offset None = cg_ret (OConst 0)"
| "compile_offset (Some e) = (case e of
       IntLit n \<Rightarrow> cg_ret (OConst n)
     | _ \<Rightarrow> cg_bind (compile_expr e) (\<lambda>v. cg_bind (as_int v) (\<lambda>i. cg_ret (ODynamic i))))"
| "compile_args [] = cg_ret []"
| "compile_args (a # as) =
     cg_bind (compile_expr a) (\<lambda>v. cg_bind (immediate_to_handle v) (\<lambda>h.
     cg_bind (compile_args as) (\<lambda>ps. cg_ret (h_ptr h # ps))))"
| "compile_spawn_args buf i [] = cg_ret ()"
| "compile_spawn_args buf i (a # as) =
     cg_bind (compile_expr a) (\<lambda>v.
     cg_then (spawn_arg buf i v) (compile_spawn_args buf (i + 1) as))"

end
