(* ===== verification/Sigil_Codegen.thy ===== *)
theory Sigil_Codegen
  imports Sigil_Codegen_Expr
begin

text \<open>
  The code generated for statements, behaviors, patterns and executables
  (\<^verbatim>\<open>compiler/src/codegen/mod.rs\<close>), and the modules that \<^verbatim>\<open>main.rs\<close> builds from them,
  one for each behavior and pattern and one for the entry.
\<close>

section \<open>Memory scopes\<close>

definition create_scope :: "pval \<Rightarrow> pval cgm" where
  "create_scope parent =
     cg_bind get_or_declare_sigil_scope_create (\<lambda>f.
       call_ptr f [VPtr parent] ''sigil_scope_create returned void'')"

definition create_root_scope :: "pval cgm" where
  "create_root_scope = create_scope RNull"

definition destroy_root_scope :: "pval \<Rightarrow> unit cgm" where
  "destroy_root_scope scope =
     cg_bind get_or_declare_sigil_scope_destroy (\<lambda>f. emit_unit (ICall f [VPtr scope]))"

definition set_scope :: "pval option \<Rightarrow> unit cgm" where
  "set_scope sc = cg_modify (\<lambda>s. s\<lparr>cg_current_scope := sc\<rparr>)"

section \<open>Reassigned locals\<close>

fun count_assignments :: "node list \<Rightarrow> (string, nat) hmap \<Rightarrow> (string, nat) hmap" where
  "count_assignments [] m = m"
| "count_assignments (Node sp k # ns) m = count_assignments ns (case k of
       Assignment target e \<Rightarrow>
         hm_insert target (case hm_get m target of Some c \<Rightarrow> c + 1 | None \<Rightarrow> 1) m
     | Scope inner \<Rightarrow> count_assignments inner m
     | _ \<Rightarrow> m)"

definition collect_reassigned :: "node list \<Rightarrow> string hset" where
  "collect_reassigned ns = map fst (filter (\<lambda>(k, c). c \<ge> 2) (count_assignments ns []))"

fun first_block :: "nat \<Rightarrow> ir_block list \<Rightarrow> nat option" where
  "first_block f [] = None"
| "first_block f (b # bs) = (if bk_fun b = f then Some 0 else map_option Suc (first_block f bs))"

definition create_entry_alloca :: "lty \<Rightarrow> pval cgm" where
  "create_entry_alloca ty = (\<lambda>s. case cg_current_function s of
       None \<Rightarrow> Inl (Fails (CgLlvmError ''no current function for local slot''))
     | Some f \<Rightarrow> (case first_block f (cg_blocks s) of
         None \<Rightarrow> Inl (Fails (CgLlvmError ''function has no entry block''))
       | Some b \<Rightarrow> (case cg_refuses s (IAlloca ty) of
           Some msg \<Rightarrow> Inl (Fails (CgLlvmError msg))
         | None \<Rightarrow> Inr (RInstr (cg_next s), s\<lparr>cg_next := cg_next s + 1,
             cg_blocks := (cg_blocks s)[b := (cg_blocks s ! b)\<lparr>bk_code :=
               (cg_next s, IAlloca ty) # bk_code (cg_blocks s ! b)\<rparr>]\<rparr>))))"

definition local_slot :: "string \<Rightarrow> sval \<Rightarrow> (pval \<times> lty) cgm" where
  "local_slot name value =
     cg_bind (cg_gets cg_mutable_slots) (\<lambda>slots. case hm_get slots name of
       Some pt \<Rightarrow> cg_ret pt
     | None \<Rightarrow>
         cg_bind (case value of
             SImm i \<Rightarrow> cg_ret (LInt 64)
           | SFlt f \<Rightarrow> cg_ret (LFloat (fst f))
           | SHandle h \<Rightarrow> cg_fail (CgLlvmError ''non-scalar mutable local'')) (\<lambda>ty.
         cg_bind (create_entry_alloca ty) (\<lambda>p.
         cg_then (cg_modify (\<lambda>s. s\<lparr>cg_mutable_slots :=
                     hm_insert name (p, ty) (cg_mutable_slots s)\<rparr>))
         (cg_ret (p, ty)))))"

definition store_mutable_local :: "string \<Rightarrow> sval \<Rightarrow> unit cgm" where
  "store_mutable_local name value =
     cg_bind (local_slot name value) (\<lambda>(ptr, ty). case value of
       SImm i \<Rightarrow> (case ty of
           LInt bits \<Rightarrow> cg_bind (resize_int i bits) (\<lambda>sized. emit_unit (IStore (VInt sized) ptr))
         | _ \<Rightarrow> cg_panic)
     | SFlt f \<Rightarrow> emit_unit (IStore (VFlt f) ptr)
     | SHandle h \<Rightarrow> cg_fail (CgLlvmError ''non-scalar mutable local''))"

section \<open>Statements\<close>

type_synonym label_blocks = "(string, nat) hmap"

fun collect_label_blocks :: "nat \<Rightarrow> node list \<Rightarrow> label_blocks \<Rightarrow> label_blocks cgm" where
  "collect_label_blocks f [] labels = cg_ret labels"
| "collect_label_blocks f (Node sp k # ns) labels =
     cg_bind (case k of
         Label name \<Rightarrow> cg_bind (append_basic_block f name) (\<lambda>b. cg_ret (hm_insert name b labels))
       | Scope inner \<Rightarrow> collect_label_blocks f inner labels
       | _ \<Rightarrow> cg_ret labels) (collect_label_blocks f ns)"

definition label_block :: "label_blocks \<Rightarrow> string \<Rightarrow> nat cgm" where
  "label_block labels l = cg_ok_or (hm_get labels l) (CgUndefinedLabel l)"

definition compile_label :: "label_blocks \<Rightarrow> string \<Rightarrow> unit cgm" where
  "compile_label labels name = (case hm_get labels name of
       None \<Rightarrow> cg_ret ()
     | Some b \<Rightarrow>
         cg_bind needs_terminator (\<lambda>nt.
         cg_then (if nt then emit_unit (IBr b) else cg_ret ()) (position_at_end b)))"

definition take_pending :: "call_outputs option cgm" where
  "take_pending = cg_bind (cg_gets cg_call_outputs) (\<lambda>m.
     cg_then (cg_modify (\<lambda>s. s\<lparr>cg_call_outputs := hm_remove pending m\<rparr>))
     (cg_ret (hm_get m pending)))"

definition bind_outputs :: "string \<Rightarrow> unit cgm" where
  "bind_outputs target = cg_bind take_pending (\<lambda>po. case po of
       None \<Rightarrow> cg_ret ()
     | Some co \<Rightarrow> cg_modify (\<lambda>s. s\<lparr>cg_call_outputs := hm_insert target co (cg_call_outputs s)\<rparr>))"

definition is_scalar :: "sval \<Rightarrow> bool" where
  "is_scalar v = (case v of SHandle h \<Rightarrow> False | SImm i \<Rightarrow> True | SFlt f \<Rightarrow> True)"

definition compile_assignment :: "string \<Rightarrow> expr \<Rightarrow> unit cgm" where
  "compile_assignment target e =
     cg_bind (compile_expr e) (\<lambda>value.
     cg_bind (cg_gets (\<lambda>s. target \<in> set (cg_reassigned s) \<and> is_scalar value)) (\<lambda>memory_backed.
     cg_then (if memory_backed then store_mutable_local target value else set_variable target value)
     (case e of Call b args \<Rightarrow> bind_outputs target | _ \<Rightarrow> cg_ret ())))"

definition compile_store :: "string \<Rightarrow> expr \<Rightarrow> usize \<Rightarrow> expr option \<Rightarrow> unit cgm" where
  "compile_store target e n off =
     cg_bind (cg_get_var target) (\<lambda>tv.
     cg_bind (pointer_or_handle ''STORE target must be handle or pointer value'' tv) (\<lambda>h.
     cg_bind (compile_expr e) (\<lambda>v.
     cg_bind (compile_offset off) (\<lambda>o'. store_handle h v n o'))))"

definition compile_jump :: "label_blocks \<Rightarrow> string \<Rightarrow> unit cgm" where
  "compile_jump labels l = cg_bind (label_block labels l) (\<lambda>b. emit_unit (IBr b))"

definition compile_branch :: "label_blocks \<Rightarrow> expr \<Rightarrow> string \<Rightarrow> string \<Rightarrow> unit cgm" where
  "compile_branch labels condition true_label false_label =
     cg_bind (compile_expr condition) (\<lambda>v.
     cg_bind (case v of
         SImm i \<Rightarrow> cg_ret i
       | SHandle h \<Rightarrow>
           cg_bind (load_handle h (min (h_size h) 8) (OConst 0)) as_int
       | SFlt f \<Rightarrow> cg_fail (CgTypeError ''BRANCH condition must be int'')) (\<lambda>cond.
     cg_bind (emit_int 1 (IIcmp PNe cond (fst cond, RConst 0))) (\<lambda>cond_bool.
     cg_bind (label_block labels true_label) (\<lambda>t.
     cg_bind (label_block labels false_label) (\<lambda>f.
     emit_unit (ICondBr cond_bool t f))))))"

definition handle_variable :: "string \<Rightarrow> handle option cgm" where
  "handle_variable name = cg_gets (\<lambda>s. case hm_get (cg_variables s) name of
       Some v \<Rightarrow> (case v of SHandle h \<Rightarrow> Some h | _ \<Rightarrow> None)
     | None \<Rightarrow> None)"

definition compile_set :: "string \<Rightarrow> expr \<Rightarrow> unit cgm" where
  "compile_set target e =
     cg_bind (compile_expr e) (\<lambda>v.
     cg_bind (handle_variable target) (\<lambda>th. case th of
       None \<Rightarrow> set_variable target v
     | Some h \<Rightarrow>
         if h_typ h = HString then store_handle h v 8 (OConst 0)
         else cg_bind (case v of
                  SHandle src \<Rightarrow> load_handle src (min (h_size src) 8) (OConst 0)
                | SImm i \<Rightarrow> cg_ret v
                | SFlt f \<Rightarrow> cg_ret v) (\<lambda>w. store_handle h w (h_size h) (OConst 0))))"

definition redirect_output :: "handle \<Rightarrow> string \<Rightarrow> output_slot \<Rightarrow> unit cgm" where
  "redirect_output src out_name slot =
     cg_bind (handle_variable out_name) (\<lambda>dh. case dh of
       Some dest \<Rightarrow>
         cg_bind (gep_at (h_ptr src) (os_offset slot)) (\<lambda>src_ptr.
           emit_unit (IMemcpy (h_ptr dest) src_ptr (i64_const
             (if h_size dest = 0 then os_size slot else min (os_size slot) (h_size dest)))))
     | None \<Rightarrow>
         cg_bind (load_handle src (os_size slot) (OConst (os_offset slot)))
           (set_variable out_name))"

fun redirect_outputs :: "handle \<Rightarrow> string list \<Rightarrow> output_slot list \<Rightarrow> unit cgm" where
  "redirect_outputs src (n # ns) (sl # sls) =
     cg_then (redirect_output src n sl) (redirect_outputs src ns sls)"
| "redirect_outputs src [] sls = cg_ret ()"
| "redirect_outputs src ns [] = cg_ret ()"

definition compile_call_node ::
  "string option \<Rightarrow> string \<Rightarrow> expr list \<Rightarrow> string list \<Rightarrow> unit cgm" where
  "compile_call_node target behavior args outputs =
     cg_bind (compile_expr (Call behavior args)) (\<lambda>result.
     cg_then (case target of
         None \<Rightarrow> cg_ret ()
       | Some t \<Rightarrow> cg_then (set_variable t result) (bind_outputs t))
     (if outputs = [] then cg_ret ()
      else cg_bind take_pending (\<lambda>po. case po of
          None \<Rightarrow> cg_ret ()
        | Some co \<Rightarrow> (case result of
              SHandle src \<Rightarrow> redirect_outputs src outputs (co_slots co)
            | _ \<Rightarrow> cg_ret ()))))"

definition compile_free :: "string \<Rightarrow> unit cgm" where
  "compile_free name = cg_bind (cg_gets cg_current_scope) (\<lambda>sc. case sc of
       None \<Rightarrow> cg_ret ()
     | Some scope \<Rightarrow> cg_bind (handle_variable name) (\<lambda>hv. case hv of
           None \<Rightarrow> cg_ret ()
         | Some h \<Rightarrow> cg_bind get_or_declare_sigil_scope_free (\<lambda>f.
             emit_unit (ICall f [VPtr scope, VPtr (h_ptr h)]))))"

definition compile_scope :: "unit cgm \<Rightarrow> unit cgm" where
  "compile_scope body =
     cg_bind (cg_gets cg_variables) (\<lambda>saved.
     cg_bind (cg_gets cg_current_scope) (\<lambda>saved_scope.
     cg_bind (case saved_scope of
         None \<Rightarrow> cg_ret None
       | Some parent \<Rightarrow>
           cg_bind (create_scope parent) (\<lambda>c. cg_then (set_scope (Some c)) (cg_ret (Some c))))
       (\<lambda>child.
     cg_then body
     (cg_then (case child of None \<Rightarrow> cg_ret () | Some c \<Rightarrow> destroy_root_scope c)
     (cg_then (set_scope saved_scope)
     (cg_modify (\<lambda>s. s\<lparr>cg_variables := saved\<rparr>)))))))"

definition compile_channel_send :: "string \<Rightarrow> expr \<Rightarrow> unit cgm" where
  "compile_channel_send channel e =
     cg_bind get_or_declare_sigil_channel_send (\<lambda>send_fn.
     cg_bind (lookup_variable channel) (\<lambda>cv. cg_bind (as_int cv) (\<lambda>ch.
     cg_bind (compile_expr e) (\<lambda>v.
     cg_bind (alloc_handle 8 HInt) (\<lambda>buf.
     cg_then (store_handle buf v 8 (OConst 0))
     (emit_unit (ICall send_fn [VInt ch, VPtr (h_ptr buf)])))))))"

definition compile_channel_close :: "string \<Rightarrow> unit cgm" where
  "compile_channel_close channel =
     cg_bind get_or_declare_sigil_channel_close (\<lambda>close_fn.
     cg_bind (lookup_variable channel) (\<lambda>cv. cg_bind (as_int cv) (\<lambda>ch.
     emit_unit (ICall close_fn [VInt ch]))))"

fun wait_each :: "nat \<Rightarrow> string list \<Rightarrow> string list \<Rightarrow> unit cgm" where
  "wait_each wait_fn targets [] = cg_ret ()"
| "wait_each wait_fn targets (h # hs) =
     cg_bind (lookup_variable h) (\<lambda>v. cg_bind (as_int v) (\<lambda>i.
     cg_then (emit_unit (ICall wait_fn [VInt i, VPtr RNull, VInt (i64_const 0)]))
     (cg_then (case targets of
         [] \<Rightarrow> cg_ret ()
       | t # ts \<Rightarrow> set_variable t (SImm (i64_const 0)))
     (wait_each wait_fn (drop 1 targets) hs))))"

definition compile_wait_all :: "string list \<Rightarrow> string list \<Rightarrow> unit cgm" where
  "compile_wait_all targets handles =
     cg_bind get_or_declare_sigil_wait (\<lambda>wait_fn. wait_each wait_fn targets handles)"

fun fill_handles :: "nat \<Rightarrow> pval \<Rightarrow> nat \<Rightarrow> string list \<Rightarrow> unit cgm" where
  "fill_handles count arr i [] = cg_ret ()"
| "fill_handles count arr i (h # hs) =
     cg_bind (lookup_variable h) (\<lambda>v. cg_bind (as_int v) (\<lambda>hi.
     cg_bind (emit_ptr (IGepElem 64 count arr (i64_const 0) (i64_const (of_nat i)))) (\<lambda>p.
     cg_then (emit_unit (IStore (VInt hi) p)) (fill_handles count arr (i + 1) hs))))"

definition compile_wait_any :: "string \<Rightarrow> string \<Rightarrow> string list \<Rightarrow> unit cgm" where
  "compile_wait_any result which handles =
     (let count = length handles; cells = unat (of_nat count :: 32 word)
      in cg_bind (emit_ptr (IAllocaArray 64 cells)) (\<lambda>arr.
         cg_then (fill_handles cells arr 0 handles)
         (cg_bind get_or_declare_sigil_wait_any (\<lambda>f.
          cg_bind (call_int f [VPtr arr, VInt (i64_const (of_nat count)), VPtr RNull,
                              VInt (i64_const 0)]) (\<lambda>w.
          cg_then (set_variable result (SImm (i64_const 0))) (set_variable which (SImm w)))))))"

fun compile_node :: "label_blocks \<Rightarrow> node \<Rightarrow> unit cgm"
  and compile_nodes :: "label_blocks \<Rightarrow> node list \<Rightarrow> unit cgm" where
  "compile_node labels (Node sp (Label name)) = compile_label labels name"
| "compile_node labels (Node sp (Assignment target e)) = compile_assignment target e"
| "compile_node labels (Node sp (Store target e n off)) = compile_store target e n off"
| "compile_node labels (Node sp (Jump l)) = compile_jump labels l"
| "compile_node labels (Node sp (Branch c t f)) = compile_branch labels c t f"
| "compile_node labels (Node sp (Set target e)) = compile_set target e"
| "compile_node labels (Node sp (CallNode target b args outs)) = compile_call_node target b args outs"
| "compile_node labels (Node sp (Free name)) = compile_free name"
| "compile_node labels (Node sp (Discard e)) = cg_ret ()"
| "compile_node labels (Node sp (Scope ns)) = compile_scope (compile_nodes labels ns)"
| "compile_node labels (Node sp (ChannelSend channel e)) = compile_channel_send channel e"
| "compile_node labels (Node sp (ChannelClose channel)) = compile_channel_close channel"
| "compile_node labels (Node sp (SpawnNode target pattern args)) =
     cg_bind (compile_expr (Spawn pattern args)) (set_variable target)"
| "compile_node labels (Node sp (WaitNode target handle_name)) =
     cg_bind (compile_expr (Wait handle_name)) (set_variable target)"
| "compile_node labels (Node sp (WaitAll targets handles)) = compile_wait_all targets handles"
| "compile_node labels (Node sp (WaitAny result which handles)) =
     compile_wait_any result which handles"
| "compile_nodes labels [] = cg_ret ()"
| "compile_nodes labels (n # ns) = cg_then (compile_node labels n) (compile_nodes labels ns)"

definition compile_impl :: "node list \<Rightarrow> nat \<Rightarrow> unit cgm" where
  "compile_impl nodes f =
     cg_bind (collect_label_blocks f nodes []) (\<lambda>labels. compile_nodes labels nodes)"

section \<open>Contracts and calling conventions\<close>

definition param_phys_size :: "parameter \<Rightarrow> usize" where
  "param_phys_size p = (if p_typ p = TString then 8 else p_size p)"

fun output_slots :: "usize \<Rightarrow> parameter list \<Rightarrow> output_slot list" where
  "output_slots off [] = []"
| "output_slots off (p # ps) =
     \<lparr>os_name = p_name p, os_offset = off, os_size = param_phys_size p,
      os_typ = handle_type_of (p_typ p)\<rparr> # output_slots (off + param_phys_size p) ps"

definition build_sig_from_contract :: "string \<Rightarrow> contract \<Rightarrow> behavior_sig" where
  "build_sig_from_contract name c =
     \<lparr>bs_name = name, bs_input_sizes = map param_phys_size (c_inputs c),
      bs_outputs = output_slots 0 (c_outputs c)\<rparr>"

definition function_params :: "contract \<Rightarrow> lty list" where
  "function_params c = replicate (length (c_inputs c) + length (c_outputs c)) LPtr"

definition register_sig :: "string \<Rightarrow> behavior_sig \<Rightarrow> unit cgm" where
  "register_sig name sg = cg_modify (\<lambda>s. s\<lparr>cg_behavior_sigs :=
     hm_insert name sg (cg_behavior_sigs s)\<rparr>)"

definition register_fn :: "string \<Rightarrow> nat \<Rightarrow> unit cgm" where
  "register_fn name f = cg_modify (\<lambda>s. s\<lparr>cg_behavior_fns :=
     hm_insert name f (cg_behavior_fns s)\<rparr>)"

definition declare_external_behavior :: "string \<Rightarrow> contract \<Rightarrow> unit cgm" where
  "declare_external_behavior name c =
     cg_bind (get_function (mangle name)) (\<lambda>f. case f of
       Some i \<Rightarrow> cg_ret ()
     | None \<Rightarrow>
         cg_then (register_sig name (build_sig_from_contract name c))
         (cg_then (add_function (mangle name) (function_params c) None) (cg_ret ())))"

definition pattern_sig :: "string \<Rightarrow> pattern \<Rightarrow> behavior_sig" where
  "pattern_sig name pt =
     \<lparr>bs_name = name, bs_input_sizes = [sum_list (map md_size (pt_memory pt))], bs_outputs = []\<rparr>"

definition declare_external_pattern :: "string \<Rightarrow> pattern \<Rightarrow> unit cgm" where
  "declare_external_pattern name pt =
     cg_bind (get_function (mangle name)) (\<lambda>f. case f of
       Some i \<Rightarrow> cg_ret ()
     | None \<Rightarrow>
         cg_then (register_sig name (pattern_sig name pt))
         (cg_then (add_function (mangle name) [LPtr] None) (cg_ret ())))"

section \<open>Behaviors\<close>

definition select_implementation :: "target_platform \<Rightarrow> behavior \<Rightarrow> platform_impl option" where
  "select_implementation p b =
     (case List.find (\<lambda>i. pi_platform i = Some (platform_str p)) (b_implementations b) of
        Some i \<Rightarrow> Some i
      | None \<Rightarrow> List.find (\<lambda>i. pi_platform i = None) (b_implementations b))"

definition body_nodes :: "target_platform \<Rightarrow> behavior \<Rightarrow> node list option" where
  "body_nodes p b = (case select_implementation p b of
       Some i \<Rightarrow> Some (pi_nodes i)
     | None \<Rightarrow> b_composition b)"

definition compile_body :: "behavior \<Rightarrow> nat \<Rightarrow> unit cgm" where
  "compile_body b f =
     cg_then (cg_modify (\<lambda>s. s\<lparr>cg_mutable_slots := []\<rparr>))
     (cg_bind (cg_gets cg_platform) (\<lambda>p.
      cg_then (case body_nodes p b of
          None \<Rightarrow> cg_ret ()
        | Some nodes \<Rightarrow>
            cg_then (cg_modify (\<lambda>s. s\<lparr>cg_reassigned := collect_reassigned nodes\<rparr>))
            (compile_impl nodes f))
      (cg_modify (\<lambda>s. s\<lparr>cg_reassigned := []\<rparr>))))"

fun bind_params :: "nat \<Rightarrow> parameter list \<Rightarrow> unit cgm" where
  "bind_params i [] = cg_ret ()"
| "bind_params i (p # ps) =
     cg_then (set_variable (p_name p) (SHandle
        \<lparr>h_ptr = RParam i, h_size = param_phys_size p, h_typ = handle_type_of (p_typ p)\<rparr>))
     (bind_params (i + 1) ps)"

definition enter_function :: "nat \<Rightarrow> unit cgm" where
  "enter_function f =
     cg_bind (append_basic_block f ''entry'') (\<lambda>entry.
     cg_then (cg_modify (\<lambda>s. s\<lparr>cg_variables := [], cg_call_outputs := []\<rparr>))
     (cg_then (position_at_end entry)
     (cg_modify (\<lambda>s. s\<lparr>cg_current_function := Some f\<rparr>))))"

definition finish_function :: "(pval option) \<Rightarrow> ival option cgm \<Rightarrow> unit cgm" where
  "finish_function root status =
     cg_bind needs_terminator (\<lambda>nt.
       if nt then
         cg_then (case root of None \<Rightarrow> cg_ret () | Some r \<Rightarrow> destroy_root_scope r)
         (cg_bind status (\<lambda>v. emit_unit (IRet v)))
       else cg_ret ())"

definition restoring :: "unit cgm \<Rightarrow> unit cgm" where
  "restoring m = (\<lambda>s. case m s of
       Inl e \<Rightarrow> Inl e
     | Inr (u, s') \<Rightarrow> Inr (u, s'\<lparr>cg_variables := cg_variables s,
         cg_call_outputs := cg_call_outputs s, cg_current_function := cg_current_function s\<rparr>))"

definition compile_function_body :: "behavior \<Rightarrow> nat \<Rightarrow> unit cgm" where
  "compile_function_body b f =
     cg_then (enter_function f)
     (cg_bind (cg_gets cg_current_scope) (\<lambda>saved_scope.
      cg_bind create_root_scope (\<lambda>root_scope.
      cg_then (set_scope (Some root_scope))
      (cg_then (bind_params 0 (c_inputs (b_contract b)))
      (cg_then (bind_params (length (c_inputs (b_contract b))) (c_outputs (b_contract b)))
      (cg_then (compile_body b f)
      (cg_then (finish_function (Some root_scope) (cg_ret None))
      (set_scope saved_scope))))))))"

definition compile_function :: "behavior \<Rightarrow> string \<Rightarrow> nat cgm" where
  "compile_function b full_name =
     cg_then (if b_is_native b then cg_ret () else declare_externals)
     (cg_bind (add_function (mangle full_name) (function_params (b_contract b)) None) (\<lambda>f.
      cg_then (if b_is_native b then cg_ret () else restoring (compile_function_body b f))
      (cg_then (register_sig full_name (build_sig_from_contract full_name (b_contract b)))
      (cg_then (register_fn full_name f) (cg_ret f)))))"

section \<open>Patterns\<close>

definition mangle_pattern :: "string \<Rightarrow> string" where
  "mangle_pattern name = ''sigil_'' @ map (\<lambda>c. if c = CHR ''-'' then CHR ''_'' else c) name"

fun carve_memory :: "usize \<Rightarrow> memory_decl list \<Rightarrow> unit cgm" where
  "carve_memory off [] = cg_ret ()"
| "carve_memory off (d # ds) =
     cg_bind (gep_at (RParam 0) off) (\<lambda>p.
     cg_then (set_variable (md_name d) (SHandle
        \<lparr>h_ptr = p, h_size = md_size d, h_typ = handle_type_of (md_typ d)\<rparr>))
     (carve_memory (off + md_size d) ds))"

definition compile_pattern :: "pattern \<Rightarrow> nat cgm" where
  "compile_pattern pt =
     cg_then declare_externals
     (cg_bind (add_function (mangle_pattern (pt_name pt)) [LPtr] None) (\<lambda>f.
      cg_then (restoring
        (cg_then (enter_function f)
        (cg_then (carve_memory 0 (pt_memory pt))
        (cg_then (compile_impl (pt_on_create pt) f)
        (finish_function None (cg_ret None))))))
      (cg_then (register_fn (pt_name pt) f)
      (cg_then (register_sig (pt_name pt) (pattern_sig (pt_name pt) pt)) (cg_ret f)))))"

section \<open>Entry points\<close>

fun alloc_params :: "parameter list \<Rightarrow> unit cgm" where
  "alloc_params [] = cg_ret ()"
| "alloc_params (p # ps) =
     cg_bind (alloc_handle (param_phys_size p) (handle_type_of (p_typ p))) (\<lambda>h.
     cg_then (set_variable (p_name p) (SHandle h)) (alloc_params ps))"

definition get_return_status :: "behavior \<Rightarrow> ival cgm" where
  "get_return_status b = (case c_outputs (b_contract b) of
       [] \<Rightarrow> cg_ret (32, RConst 0)
     | out # outs \<Rightarrow>
         if p_typ out = TInt \<and> p_size out \<le> 8 then
           cg_bind (handle_variable (p_name out)) (\<lambda>hv. case hv of
             None \<Rightarrow> cg_ret (32, RConst 0)
           | Some h \<Rightarrow>
               cg_bind (load_handle h (min (p_size out) 4) (OConst 0)) (\<lambda>v.
               cg_bind (as_int v) (\<lambda>i. resize_int i 32)))
         else cg_ret (32, RConst 0))"

definition compile_main_with :: "(nat \<Rightarrow> unit cgm) \<Rightarrow> ival cgm \<Rightarrow> nat cgm" where
  "compile_main_with body status =
     cg_then declare_externals
     (cg_bind (add_function ''main'' [] (Some (LInt 32))) (\<lambda>f.
      cg_then (enter_function f)
      (cg_bind (cg_gets cg_current_scope) (\<lambda>saved_scope.
       cg_bind create_root_scope (\<lambda>root_scope.
       cg_then (set_scope (Some root_scope))
       (cg_then (body f)
       (cg_then (finish_function (Some root_scope) (cg_bind status (\<lambda>v. cg_ret (Some v))))
       (cg_then (set_scope saved_scope) (cg_ret f)))))))))"

definition compile_main :: "behavior \<Rightarrow> nat cgm" where
  "compile_main b = compile_main_with
     (\<lambda>f. cg_then (alloc_params (c_inputs (b_contract b)))
           (cg_then (alloc_params (c_outputs (b_contract b))) (compile_body b f)))
     (get_return_status b)"

definition compile_executable_main :: "executable \<Rightarrow> nat cgm" where
  "compile_executable_main ex = compile_main_with
     (compile_impl (ex_entry ex)) (cg_ret (32, RConst 0))"

section \<open>Modules\<close>

fun declare_behaviors :: "(string \<times> contract) list \<Rightarrow> unit cgm" where
  "declare_behaviors [] = cg_ret ()"
| "declare_behaviors ((n, c) # cs) =
     cg_then (declare_external_behavior n c) (declare_behaviors cs)"

fun declare_patterns :: "(string \<times> pattern) list \<Rightarrow> unit cgm" where
  "declare_patterns [] = cg_ret ()"
| "declare_patterns ((n, p) # ps) =
     cg_then (declare_external_pattern n p) (declare_patterns ps)"

definition required_contracts :: "(string, contract) hmap \<Rightarrow> behavior \<Rightarrow> (string \<times> contract) list" where
  "required_contracts all_contracts b =
     List.map_filter (\<lambda>r. map_option (\<lambda>c. (br_name r, c)) (hm_get all_contracts (br_name r)))
       (rq_behaviors (c_requires (b_contract b)))"

type_synonym builder = "linstr \<Rightarrow> string option"

definition behavior_module ::
  "builder \<Rightarrow> target_platform \<Rightarrow> (string, contract) hmap \<Rightarrow> string \<Rightarrow> behavior \<Rightarrow> cg_stop + nat \<times> cg" where
  "behavior_module B p all_contracts full_name b =
     cg_then (declare_behaviors (required_contracts all_contracts b))
       (compile_function b full_name) (cg_new B p)"

definition pattern_module ::
  "builder \<Rightarrow> target_platform \<Rightarrow> (string, contract) hmap \<Rightarrow> pattern \<Rightarrow> cg_stop + nat \<times> cg" where
  "pattern_module B p all_contracts pt =
     cg_then (declare_behaviors all_contracts) (compile_pattern pt) (cg_new B p)"

definition entry_module ::
  "builder \<Rightarrow> target_platform \<Rightarrow> (string \<times> behavior) list \<Rightarrow> (string, contract) hmap
    \<Rightarrow> (string \<times> pattern) list \<Rightarrow> executable \<Rightarrow> cg_stop + nat \<times> cg" where
  "entry_module B p dependencies library_contracts patterns ex =
     cg_then (declare_behaviors (map (\<lambda>(n, b). (n, b_contract b)) dependencies))
     (cg_then (declare_behaviors library_contracts)
     (cg_then (declare_patterns patterns) (compile_executable_main ex))) (cg_new B p)"

end
