(* ===== verification/Sigil_Codegen_Logic.thy ===== *)
theory Sigil_Codegen_Logic
  imports Sigil_Codegen
begin

text \<open>
  Reasoning about the computations of the code generator: the weakest precondition \<open>cg_wp m Q\<close> of a
  postcondition on the result and the next state, with one rewrite rule per combinator
  (\<open>cg_wp_simps\<close>). A computation that fails satisfies every postcondition.
\<close>

named_theorems cg_wp_simps \<open>weakest preconditions of the combinators\<close>
named_theorems cg_value_simps \<open>weakest preconditions of the views of values\<close>

definition cg_wp :: "'a cgm \<Rightarrow> ('a \<Rightarrow> cg \<Rightarrow> bool) \<Rightarrow> cg \<Rightarrow> bool" where
  "cg_wp m Q s \<longleftrightarrow> (case m s of Inl e \<Rightarrow> True | Inr (a, s') \<Rightarrow> Q a s')"

lemma cg_wpI: "(\<And>a s'. m s = Inr (a, s') \<Longrightarrow> Q a s') \<Longrightarrow> cg_wp m Q s"
  by (auto simp: cg_wp_def split: sum.split)

lemma cg_wpD: "cg_wp m Q s \<Longrightarrow> m s = Inr (a, s') \<Longrightarrow> Q a s'"
  by (simp add: cg_wp_def)

lemma cg_wp_mono: "cg_wp m Q s \<Longrightarrow> (\<And>a s'. Q a s' \<Longrightarrow> R a s') \<Longrightarrow> cg_wp m R s"
  by (auto simp: cg_wp_def split: sum.splits)

lemma cg_wp_ret [cg_wp_simps]: "cg_wp (cg_ret a) Q = Q a"
  by (simp add: cg_wp_def cg_ret_def fun_eq_iff)

lemma cg_wp_fail [cg_wp_simps]: "cg_wp (cg_fail e) Q s"
  by (simp add: cg_wp_def cg_fail_def)

lemma cg_wp_panic [cg_wp_simps]: "cg_wp cg_panic Q s"
  by (simp add: cg_wp_def cg_panic_def)

lemma cg_wp_bind [cg_wp_simps]: "cg_wp (cg_bind m f) Q = cg_wp m (\<lambda>a. cg_wp (f a) Q)"
  by (auto simp: cg_wp_def cg_bind_def fun_eq_iff split: sum.split)

lemma cg_wp_then [cg_wp_simps]: "cg_wp (cg_then m n) Q = cg_wp m (\<lambda>a. cg_wp n Q)"
  by (simp add: cg_then_def cg_wp_bind)

lemma cg_wp_gets [cg_wp_simps]: "cg_wp (cg_gets f) Q s = Q (f s) s"
  by (simp add: cg_wp_def cg_gets_def)

lemma cg_wp_modify [cg_wp_simps]: "cg_wp (cg_modify f) Q s = Q () (f s)"
  by (simp add: cg_wp_def cg_modify_def)

lemma cg_wp_ok_or [cg_wp_simps]: "cg_wp (cg_ok_or x e) Q s \<longleftrightarrow> (\<forall>a. x = Some a \<longrightarrow> Q a s)"
  by (auto simp: cg_ok_or_def cg_wp_simps split: option.split)

lemma cg_wp_if [cg_wp_simps]:
  "cg_wp (if b then m else n) Q s \<longleftrightarrow> (b \<longrightarrow> cg_wp m Q s) \<and> (\<not> b \<longrightarrow> cg_wp n Q s)"
  by simp

lemma cg_wp_option [cg_wp_simps]:
  "cg_wp (case x of None \<Rightarrow> m | Some a \<Rightarrow> f a) Q s \<longleftrightarrow>
     (x = None \<longrightarrow> cg_wp m Q s) \<and> (\<forall>a. x = Some a \<longrightarrow> cg_wp (f a) Q s)"
  by (simp split: option.split)

lemma cg_wp_prod [cg_wp_simps]:
  "cg_wp (case p of (a, b) \<Rightarrow> f a b) Q s \<longleftrightarrow> (\<forall>a b. p = (a, b) \<longrightarrow> cg_wp (f a b) Q s)"
  by (simp split: prod.split)

lemma cg_wp_sval [cg_wp_simps]:
  "cg_wp (case v of SHandle h \<Rightarrow> m h | SImm i \<Rightarrow> n i | SFlt f \<Rightarrow> k f) Q s \<longleftrightarrow>
     (\<forall>h. v = SHandle h \<longrightarrow> cg_wp (m h) Q s) \<and> (\<forall>i. v = SImm i \<longrightarrow> cg_wp (n i) Q s)
   \<and> (\<forall>f. v = SFlt f \<longrightarrow> cg_wp (k f) Q s)"
  by (simp split: sval.split)

lemma cg_wp_offset [cg_wp_simps]:
  "cg_wp (case v of OConst c \<Rightarrow> m c | ODynamic i \<Rightarrow> n i) Q s \<longleftrightarrow>
     (\<forall>c. v = OConst c \<longrightarrow> cg_wp (m c) Q s) \<and> (\<forall>i. v = ODynamic i \<longrightarrow> cg_wp (n i) Q s)"
  by (simp split: offset.split)

lemma cg_wp_lty [cg_wp_simps]:
  "cg_wp (case t of LInt b \<Rightarrow> m b | LFloat f \<Rightarrow> n f | LPtr \<Rightarrow> k) Q s \<longleftrightarrow>
     (\<forall>b. t = LInt b \<longrightarrow> cg_wp (m b) Q s) \<and> (\<forall>f. t = LFloat f \<longrightarrow> cg_wp (n f) Q s)
   \<and> (t = LPtr \<longrightarrow> cg_wp k Q s)"
  by (simp split: lty.split)

lemma cg_wp_let [cg_wp_simps]: "cg_wp (let x = a in f x) Q s = cg_wp (f a) Q s"
  by simp

lemma cg_wp_get_function [cg_wp_simps]:
  "cg_wp (get_function name) Q s = Q (function_index name (cg_functions s)) s"
  by (simp add: get_function_def cg_wp_simps)

lemma cg_wp_position_at_end:
  "cg_wp (position_at_end b) Q s = Q () (s\<lparr>cg_pos := Some b\<rparr>)"
  by (simp add: position_at_end_def cg_wp_simps)

lemma cg_wp_needs_terminator [cg_wp_simps]:
  "cg_wp needs_terminator Q s = Q (case cg_pos s of
       None \<Rightarrow> False | Some b \<Rightarrow> \<not> block_terminated (cg_blocks s ! b)) s"
  by (simp add: needs_terminator_def cg_wp_simps)

lemma cg_wp_emit_unit [cg_wp_simps]: "cg_wp (emit_unit ins) Q s = cg_wp (emit ins) (\<lambda>n. Q ()) s"
  by (simp add: emit_unit_def cg_wp_simps)

lemma cg_wp_emit_int [cg_wp_simps]:
  "cg_wp (emit_int b ins) Q s = cg_wp (emit ins) (\<lambda>n. Q (b, RInstr n)) s"
  by (simp add: emit_int_def cg_wp_simps)

lemma cg_wp_emit_flt [cg_wp_simps]:
  "cg_wp (emit_flt t ins) Q s = cg_wp (emit ins) (\<lambda>n. Q (t, RInstr n)) s"
  by (simp add: emit_flt_def cg_wp_simps)

lemma cg_wp_emit_ptr [cg_wp_simps]:
  "cg_wp (emit_ptr ins) Q s = cg_wp (emit ins) (\<lambda>n. Q (RInstr n)) s"
  by (simp add: emit_ptr_def cg_wp_simps)

lemma cg_wp_as_handle [cg_value_simps]:
  "cg_wp (as_handle v) Q s \<longleftrightarrow> (\<forall>h. v = SHandle h \<longrightarrow> Q h s)"
  by (simp add: as_handle_def cg_wp_simps)

lemma cg_wp_as_int [cg_value_simps]:
  "cg_wp (as_int v) Q s \<longleftrightarrow> (\<forall>i. v = SImm i \<longrightarrow> Q i s)"
  by (simp add: as_int_def cg_wp_simps)

lemma cg_wp_as_float [cg_value_simps]:
  "cg_wp (as_float v) Q s \<longleftrightarrow> (\<forall>f. v = SFlt f \<longrightarrow> Q f s)"
  by (simp add: as_float_def cg_wp_simps)

lemma cg_wp_lookup_variable:
  "cg_wp (lookup_variable x) Q s \<longleftrightarrow> (\<forall>v. hm_get (cg_variables s) x = Some v \<longrightarrow> Q v s)"
  by (simp add: lookup_variable_def cg_wp_simps)

lemma cg_wp_handle_variable:
  "cg_wp (handle_variable x) Q s = Q (case hm_get (cg_variables s) x of
       Some v \<Rightarrow> (case v of SHandle h \<Rightarrow> Some h | _ \<Rightarrow> None) | None \<Rightarrow> None) s"
  by (simp add: handle_variable_def cg_wp_simps)

text \<open>Where functions are found.\<close>

lemma function_index_less: "function_index n fs = Some f \<Longrightarrow> f < length fs"
  by (induction n fs arbitrary: f rule: function_index.induct) (auto split: if_splits)

lemma function_index_name: "function_index n fs = Some f \<Longrightarrow> fd_name (fs ! f) = n"
  by (induction n fs arbitrary: f rule: function_index.induct) (auto split: if_splits)

lemma function_index_None: "function_index n fs = None \<longleftrightarrow> n \<notin> fd_name ` set fs"
  by (induction n fs rule: function_index.induct) auto

lemma function_index_append:
  "function_index n (fs @ gs) = (case function_index n fs of
     Some f \<Rightarrow> Some f | None \<Rightarrow> map_option (\<lambda>i. length fs + i) (function_index n gs))"
proof (induction n fs rule: function_index.induct)
  case (1 name)
  then show ?case by (cases "function_index name gs") auto
next
  case (2 name d ds)
  then show ?case by (cases "function_index name gs") (auto split: option.split)
qed

text \<open>The bodies a behavior may be compiled from.\<close>

definition all_bodies :: "behavior \<Rightarrow> node list list" where
  "all_bodies b = map pi_nodes (b_implementations b) @
     (case b_composition b of None \<Rightarrow> [] | Some ns \<Rightarrow> [ns])"

lemma body_nodes_in: "body_nodes p b = Some ns \<Longrightarrow> ns \<in> set (all_bodies b)"
  unfolding body_nodes_def select_implementation_def all_bodies_def
  by (auto split: option.splits dest!: find_SomeD)

text \<open>The declarations of runtime functions.\<close>

lemmas runtime_defs = get_or_declare_abort_def get_or_declare_sigil_spawn_def
  get_or_declare_sigil_wait_def get_or_declare_sigil_wait_any_def
  get_or_declare_sigil_channel_create_def get_or_declare_sigil_scope_create_def
  get_or_declare_sigil_scope_alloc_def get_or_declare_sigil_scope_free_def
  get_or_declare_sigil_scope_destroy_def get_or_declare_sigil_channel_send_def
  get_or_declare_sigil_channel_receive_def get_or_declare_sigil_channel_close_def

end
