(* ===== verification/Sigil_Codegen_Blocks.thy ===== *)
theory Sigil_Codegen_Blocks
  imports Sigil_Codegen_Logic
begin

text \<open>
  Basic blocks of the generated code. LLVM requires every block to end in its only terminator. The
  generator closes a block when it emits a jump or branch and opens another when it reaches a label,
  but nothing stops it from emitting into a closed block. It does not for bodies in which every jump
  and branch is the last statement or followed by a label and no scope ends in one (\<open>tidy\<close>).
\<close>

section \<open>Open and closed blocks\<close>

definition block_open :: "ir_block \<Rightarrow> bool" where
  "block_open b \<longleftrightarrow> list_all (\<lambda>c. \<not> is_terminator (snd c)) (bk_code b)"

definition block_closed :: "ir_block \<Rightarrow> bool" where
  "block_closed b \<longleftrightarrow> bk_code b \<noteq> [] \<and> is_terminator (snd (last (bk_code b)))
     \<and> list_all (\<lambda>c. \<not> is_terminator (snd c)) (butlast (bk_code b))"

lemma block_closed_terminated: "block_closed b \<Longrightarrow> block_terminated b"
  by (simp add: block_closed_def block_terminated_def)

lemma block_open_terminated: "block_open b \<Longrightarrow> \<not> block_terminated b"
  by (auto simp: block_open_def block_terminated_def list_all_iff)

text \<open>
  \<open>shape L P s\<close>: the block under construction satisfies \<open>P\<close>, the blocks \<open>L\<close> of labels not reached yet
  are empty and every other block is closed.
\<close>

definition shape :: "nat set \<Rightarrow> (ir_block \<Rightarrow> bool) \<Rightarrow> cg \<Rightarrow> bool" where
  "shape L P s \<longleftrightarrow> (\<exists>b e f. cg_pos s = Some b \<and> b < length (cg_blocks s) \<and> b \<notin> L \<and> P (cg_blocks s ! b)
     \<and> (\<forall>i < length (cg_blocks s). i \<noteq> b \<longrightarrow> i \<notin> L \<longrightarrow> block_closed (cg_blocks s ! i))
     \<and> (\<forall>i \<in> L. i < length (cg_blocks s) \<and> bk_code (cg_blocks s ! i) = [])
     \<and> cg_current_function s = Some f \<and> first_block f (cg_blocks s) = Some e \<and> e \<notin> L)"

definition keeps :: "'a cgm \<Rightarrow> bool" where
  "keeps m \<longleftrightarrow> (\<forall>L s. shape L block_open s \<longrightarrow> cg_wp m (\<lambda>a. shape L block_open) s)"

lemma keepsD: "keeps m \<Longrightarrow> shape L block_open s \<Longrightarrow> cg_wp m (\<lambda>a. shape L block_open) s"
  by (simp add: keeps_def)

named_theorems keeps_intros \<open>computations that leave the current block open\<close>

lemma keeps_ret [keeps_intros]: "keeps (cg_ret a)"
  by (simp add: keeps_def cg_wp_simps)

lemma keeps_fail [keeps_intros]: "keeps (cg_fail e)"
  by (simp add: keeps_def cg_wp_simps)

lemma keeps_panic [keeps_intros]: "keeps cg_panic"
  by (simp add: keeps_def cg_wp_simps)

lemma keeps_gets [keeps_intros]: "keeps (cg_gets f)"
  by (simp add: keeps_def cg_wp_simps)

lemma keeps_ok_or [keeps_intros]: "keeps (cg_ok_or x e)"
  by (simp add: keeps_def cg_wp_simps)

lemma keeps_get_function [keeps_intros]: "keeps (get_function n)"
  by (simp add: keeps_def cg_wp_simps)

lemma keeps_bind [keeps_intros]: "keeps m \<Longrightarrow> (\<And>a. keeps (f a)) \<Longrightarrow> keeps (cg_bind m f)"
  unfolding keeps_def cg_wp_bind by (blast intro: cg_wp_mono)

lemma keeps_then [keeps_intros]: "keeps m \<Longrightarrow> keeps n \<Longrightarrow> keeps (cg_then m n)"
  unfolding cg_then_def by (intro keeps_bind)

lemma keeps_if [keeps_intros]: "(b \<Longrightarrow> keeps m) \<Longrightarrow> (\<not> b \<Longrightarrow> keeps n) \<Longrightarrow> keeps (if b then m else n)"
  by simp

lemma keeps_option [keeps_intros]:
  "keeps m \<Longrightarrow> (\<And>a. keeps (f a)) \<Longrightarrow> keeps (case x of None \<Rightarrow> m | Some a \<Rightarrow> f a)"
  by (simp split: option.split)

lemma keeps_prod [keeps_intros]: "(\<And>a b. keeps (f a b)) \<Longrightarrow> keeps (case p of (a, b) \<Rightarrow> f a b)"
  by (simp split: prod.split)

lemma keeps_list [keeps_intros]:
  "keeps m \<Longrightarrow> (\<And>a as. keeps (f a as)) \<Longrightarrow> keeps (case x of [] \<Rightarrow> m | a # as \<Rightarrow> f a as)"
  by (simp split: list.split)

lemma keeps_sval [keeps_intros]:
  "(\<And>h. keeps (m h)) \<Longrightarrow> (\<And>i. keeps (n i)) \<Longrightarrow> (\<And>f. keeps (k f)) \<Longrightarrow>
     keeps (case v of SHandle h \<Rightarrow> m h | SImm i \<Rightarrow> n i | SFlt f \<Rightarrow> k f)"
  by (simp split: sval.split)

lemma keeps_offset [keeps_intros]:
  "(\<And>c. keeps (m c)) \<Longrightarrow> (\<And>i. keeps (n i)) \<Longrightarrow> keeps (case v of OConst c \<Rightarrow> m c | ODynamic i \<Rightarrow> n i)"
  by (simp split: offset.split)

lemma keeps_lty [keeps_intros]:
  "(\<And>b. keeps (m b)) \<Longrightarrow> (\<And>f. keeps (n f)) \<Longrightarrow> keeps k \<Longrightarrow>
     keeps (case t of LInt b \<Rightarrow> m b | LFloat f \<Rightarrow> n f | LPtr \<Rightarrow> k)"
  by (simp split: lty.split)

lemma keeps_modify:
  assumes "\<And>s. cg_pos (f s) = cg_pos s" "\<And>s. cg_blocks (f s) = cg_blocks s"
    "\<And>s. cg_current_function (f s) = cg_current_function s"
  shows "keeps (cg_modify f)"
  unfolding keeps_def cg_wp_modify shape_def using assms by simp

text \<open>Building a block.\<close>

lemma first_block_map: "map bk_fun bs = map bk_fun bs' \<Longrightarrow> first_block f bs = first_block f bs'"
proof (induction bs arbitrary: bs')
  case (Cons b bs)
  then show ?case by (cases bs') auto
qed simp

lemma first_block_append: "first_block f bs = Some e \<Longrightarrow> first_block f (bs @ cs) = Some e"
  by (induction bs arbitrary: e) (auto split: if_splits)

lemma map_fun_update:
  assumes "bk_fun x = bk_fun (bs ! i)"
  shows "map bk_fun (bs[i := x]) = map bk_fun bs"
proof (cases "i < length bs")
  case True
  then have "(map bk_fun bs)[i := bk_fun x] = map bk_fun bs"
    using assms by (simp add: list_update_same_conv)
  then show ?thesis by (simp add: map_update)
qed (simp add: list_update_beyond)

lemma shape_update:
  assumes s: "shape L P s" and b: "cg_pos s = Some b"
    and x: "bk_fun x = bk_fun (cg_blocks s ! b)" "R x"
  shows "shape L R (s\<lparr>cg_blocks := (cg_blocks s)[b := x], cg_next := n\<rparr>)"
proof -
  have "first_block f ((cg_blocks s)[b := x]) = first_block f (cg_blocks s)" for f
    by (rule first_block_map) (rule map_fun_update [OF x(1)])
  then show ?thesis using s b x unfolding shape_def by (auto simp: nth_list_update)
qed

lemma shape_emit:
  assumes s: "shape L block_open s"
  shows "cg_wp (emit ins) (\<lambda>n. shape L (if is_terminator ins then block_closed else block_open)) s"
proof -
  obtain b where b: "cg_pos s = Some b" "block_open (cg_blocks s ! b)" using s by (auto simp: shape_def)
  have "(if is_terminator ins then block_closed else block_open)
      ((cg_blocks s ! b)\<lparr>bk_code := bk_code (cg_blocks s ! b) @ [(cg_next s, ins)]\<rparr>)"
    using b(2) by (auto simp: block_open_def block_closed_def)
  then show ?thesis using shape_update [OF s b(1)] b(1)
    unfolding emit_def add_instr_def by (auto simp: cg_wp_def split: option.split)
qed

lemma keeps_emit [keeps_intros]: "\<not> is_terminator ins \<Longrightarrow> keeps (emit ins)"
  unfolding keeps_def using shape_emit [where ins = ins] by simp

lemma closes_emit:
  assumes "shape L block_open s" "is_terminator ins" "\<And>n s'. shape L block_closed s' \<Longrightarrow> Q n s'"
  shows "cg_wp (emit ins) Q s"
  using shape_emit [OF assms(1), of ins] assms(2,3) by (auto elim: cg_wp_mono)

lemma first_block_less: "first_block f bs = Some e \<Longrightarrow> e < length bs"
  by (induction bs arbitrary: e) (auto split: if_splits)

lemma shape_append:
  assumes "shape L P s"
  shows "shape (insert (length (cg_blocks s)) L) P (s\<lparr>cg_blocks := cg_blocks s @ [\<lparr>bk_fun = f, bk_name = n, bk_code = []\<rparr>]\<rparr>)"
  using assms unfolding shape_def
  by (force simp: nth_append first_block_append less_Suc_eq dest: first_block_less)

lemma shape_position:
  assumes "shape L block_closed s" "b \<in> L"
  shows "shape (L - {b}) block_open (s\<lparr>cg_pos := Some b\<rparr>)"
  using assms unfolding shape_def by (auto simp: block_open_def)

lemma keeps_emits [keeps_intros]:
  "\<not> is_terminator ins \<Longrightarrow> keeps (emit_unit ins)" "\<not> is_terminator ins \<Longrightarrow> keeps (emit_int b ins)"
  "\<not> is_terminator ins \<Longrightarrow> keeps (emit_flt t ins)" "\<not> is_terminator ins \<Longrightarrow> keeps (emit_ptr ins)"
  unfolding emit_unit_def emit_int_def emit_flt_def emit_ptr_def by (auto intro!: keeps_intros)

lemma keeps_add_function [keeps_intros]: "keeps (add_function n ps r)"
  by (simp add: keeps_def cg_wp_def add_function_def shape_def)

lemma keeps_add_global [keeps_intros]: "keeps (add_global bytes)"
  by (simp add: keeps_def cg_wp_def add_global_def shape_def)

lemma keeps_get_or_declare [keeps_intros]: "keeps (get_or_declare n ps r)"
  unfolding get_or_declare_def by (auto intro!: keeps_intros)

section \<open>Expressions\<close>

lemma keeps_bounds_check [keeps_intros]: "keeps (emit_bounds_check off n m f)"
proof -
  have tail: "cg_wp (cg_then (emit_unit (ICondBr c v k)) (cg_then (position_at_end v)
      (cg_bind get_or_declare_abort (\<lambda>abort_fn. cg_then (emit_unit (ICall abort_fn []))
      (cg_then (emit_unit IUnreachable) (position_at_end k))))))
      (\<lambda>u. shape L block_open) s"
    if s: "shape (insert k (insert v L)) block_open s" and new: "v \<notin> L" "k \<notin> L" "v \<noteq> k" for c v k L s
  proof -
    have end_check: "cg_wp (emit IUnreachable) (\<lambda>_. cg_wp (position_at_end k) (\<lambda>u. shape L block_open)) s'"
      if "shape (insert k L) block_open s'" for s'
      using that new shape_position [of "insert k L" _ k]
      by (auto elim!: closes_emit simp: cg_wp_position_at_end)
    have call: "keeps (cg_bind get_or_declare_abort (\<lambda>f. emit_unit (ICall f [])))"
      unfolding get_or_declare_abort_def by (auto intro!: keeps_intros)
    have "cg_wp (cg_bind get_or_declare_abort (\<lambda>f. cg_then (emit_unit (ICall f []))
        (cg_then (emit_unit IUnreachable) (position_at_end k)))) (\<lambda>u. shape L block_open) s'"
      if "shape (insert k L) block_open s'" for s'
      using keepsD [OF call that] end_check by (auto simp: cg_wp_simps elim!: cg_wp_mono)
    moreover have "shape (insert k L) block_open (s'\<lparr>cg_pos := Some v\<rparr>)"
      if "shape (insert k (insert v L)) block_closed s'" for s'
      using shape_position [OF that, of v] new by (simp add: insert_Diff_if)
    ultimately show ?thesis using s
      by (auto simp: cg_wp_simps cg_wp_position_at_end elim!: closes_emit)
  qed
  have "cg_wp (append_basic_block f n1) (\<lambda>v. cg_wp (append_basic_block f n2) (\<lambda>k.
      cg_wp (m v k) (\<lambda>u. shape L block_open))) s"
    if s: "shape L block_open s" and m: "\<And>v k s. shape (insert k (insert v L)) block_open s \<Longrightarrow>
      v \<notin> L \<Longrightarrow> k \<notin> L \<Longrightarrow> v \<noteq> k \<Longrightarrow> cg_wp (m v k) (\<lambda>u. shape L block_open) s" for n1 n2 m L s
  proof -
    have "length (cg_blocks s) \<notin> L" "Suc (length (cg_blocks s)) \<notin> L" using s by (auto simp: shape_def)
    then show ?thesis using shape_append [OF s, of f n1] shape_append [OF shape_append [OF s, of f n1], of f n2] m
      by (auto simp: append_basic_block_def cg_wp_def)
  qed
  then have blocks: "keeps (cg_bind (append_basic_block f n1) (\<lambda>v. cg_bind (append_basic_block f n2) (m v)))"
    if "\<And>L v k s. shape (insert k (insert v L)) block_open s \<Longrightarrow>
      v \<notin> L \<Longrightarrow> k \<notin> L \<Longrightarrow> v \<noteq> k \<Longrightarrow> cg_wp (m v k) (\<lambda>u. shape L block_open) s" for n1 n2 m
    unfolding keeps_def cg_wp_bind using that by blast
  show ?thesis unfolding emit_bounds_check_def
    by (intro keeps_bind keeps_emits blocks tail) simp_all
qed

lemmas helper_defs = as_handle_def as_int_def as_float_def resize_int_def normalize_int_types_def
  lookup_variable_def cg_get_var_def set_variable_def call_int_def call_ptr_def dynamic_bounds_check_def
  alloc_handle_def scope_alloc_handle_def gep_at_def access_ptr_def load_handle_def store_handle_def
  immediate_to_handle_def get_field_def pointer_or_handle_def compile_int_binop_def compile_int_cmp_def
  compile_float_binop_def compile_float_cmp_def int_unary_def compile_string_lit_def compile_field_def
  compile_load_def compile_cas_def compile_rmw_def callee_of_def sig_of_def finish_call_def
  spawn_arg_def spawn_buffer_def compile_wait_def compile_channel_def compile_channel_receive_def
  handle_variable_def

lemma keeps_views [keeps_intros]:
  "keeps (as_handle v)" "keeps (as_int v)" "keeps (as_float v)" "keeps (lookup_variable x)"
  "keeps (handle_variable x)"
  unfolding helper_defs by (auto intro!: keeps_intros)

lemma keeps_set_variable [keeps_intros]: "keeps (set_variable x v)"
  unfolding set_variable_def by (rule keeps_modify) simp_all

lemma keeps_ints [keeps_intros]:
  "keeps (resize_int i n)" "keeps (normalize_int_types i j)" "keeps (cg_get_var x)"
  "keeps (call_int f vs)" "keeps (call_ptr f vs msg)"
  unfolding helper_defs by (auto intro!: keeps_intros)

lemma keeps_handles [keeps_intros]:
  "keeps (dynamic_bounds_check h n off)" "keeps (alloc_handle n t)" "keeps (gep_at p w)"
  "keeps (pointer_or_handle msg v)"
  unfolding dynamic_bounds_check_def alloc_handle_def gep_at_def pointer_or_handle_def
  by (auto intro!: keeps_intros)

lemma keeps_accesses [keeps_intros]:
  "keeps (scope_alloc_handle n t)" "keeps (access_ptr h off)" "keeps (immediate_to_handle v)"
  "keeps (get_field co f)"
  unfolding scope_alloc_handle_def access_ptr_def immediate_to_handle_def get_field_def runtime_defs
  by (auto intro!: keeps_intros)

lemma keeps_load_store [keeps_intros]:
  "keeps (load_handle h n off)" "keeps (store_handle h v n off)"
  unfolding load_handle_def store_handle_def Let_def by (auto intro!: keeps_intros)

lemma keeps_operators [keeps_intros]:
  assumes "keeps ma" "keeps mb"
  shows "keeps (compile_int_binop ma mb op)" "keeps (compile_int_cmp ma mb pr)"
    "keeps (compile_float_binop ma mb fop)" "keeps (compile_float_cmp ma mb fpr)"
    "keeps (compile_rmw ma mb op)"
  unfolding compile_int_binop_def compile_int_cmp_def compile_float_binop_def compile_float_cmp_def
    compile_rmw_def by (auto intro!: keeps_intros assms)

lemma keeps_unary [keeps_intros]:
  assumes "keeps ma" "\<And>i. \<not> is_terminator (snd (g i))"
  shows "keeps (int_unary ma g)"
  unfolding int_unary_def by (auto intro!: keeps_intros assms)

lemma keeps_memory [keeps_intros]:
  assumes "keeps ma" "keeps mb" "keeps mc" "keeps moff"
  shows "keeps (compile_cas ma mb mc)" "keeps (compile_load ma n moff)" "keeps (compile_channel ma)"
  unfolding compile_cas_def compile_load_def compile_channel_def runtime_defs
  by (auto intro!: keeps_intros assms)

lemma keeps_leaves [keeps_intros]:
  "keeps (compile_string_lit t)" "keeps (compile_field x f)" "keeps (compile_wait x)"
  "keeps (compile_channel_receive x)" "keeps (callee_of b)" "keeps (sig_of b n)"
  "keeps (spawn_arg buf i v)" "keeps (spawn_buffer p n)"
  unfolding compile_string_lit_def compile_field_def compile_wait_def compile_channel_receive_def
    callee_of_def sig_of_def spawn_arg_def spawn_buffer_def runtime_defs Let_def
  by (auto intro!: keeps_intros)

lemma keeps_slot_pointers [keeps_intros]: "keeps (slot_pointers p sls)"
  by (induction sls) (auto intro!: keeps_intros)

lemma keeps_finish_call [keeps_intros]: "keeps (finish_call f sg ps)"
  unfolding finish_call_def by (auto intro!: keeps_intros keeps_modify)

lemma keeps_compile_exprs [keeps_intros]:
  "keeps (compile_expr e)" "keeps (compile_offset off)" "keeps (compile_args as)"
  "keeps (compile_spawn_args buf i bs)"
proof (induction e and off and as and buf i bs
    rule: compile_expr_compile_offset_compile_args_compile_spawn_args.induct)
  case (5 b f)
  then show ?case by (cases b) (auto intro!: keeps_intros)
next
  case (29 e)
  then show ?case
    by (cases e) (auto simp del: compile_expr.simps intro!: keeps_bind keeps_views keeps_ret)
qed (auto intro!: keeps_intros simp: Let_def runtime_defs)

section \<open>Statements\<close>

lemma keeps_statement_parts [keeps_intros]:
  "keeps (create_scope p)" "keeps (destroy_root_scope p)" "keeps (label_block labels l)"
  "keeps take_pending"
  unfolding create_scope_def destroy_root_scope_def label_block_def take_pending_def runtime_defs
  by (auto intro!: keeps_intros keeps_modify)

lemma keeps_set_scope [keeps_intros]: "keeps (set_scope sc)"
  unfolding set_scope_def by (rule keeps_modify) simp_all

lemma keeps_bind_outputs [keeps_intros]: "keeps (bind_outputs x)"
  unfolding bind_outputs_def by (auto intro!: keeps_intros keeps_modify)

lemma keeps_create_entry_alloca [keeps_intros]: "keeps (create_entry_alloca t)"
proof -
  have "shape L block_open (s\<lparr>cg_next := n, cg_blocks :=
      (cg_blocks s)[e := (cg_blocks s ! e)\<lparr>bk_code := (m, IAlloca t) # bk_code (cg_blocks s ! e)\<rparr>]\<rparr>)"
    if s: "shape L block_open s" and e: "cg_current_function s = Some f" "first_block f (cg_blocks s) = Some e"
    for L s f e n m
  proof -
    let ?x = "(cg_blocks s ! e)\<lparr>bk_code := (m, IAlloca t) # bk_code (cg_blocks s ! e)\<rparr>"
    have "first_block f' ((cg_blocks s)[e := ?x]) = first_block f' (cg_blocks s)" for f'
      by (rule first_block_map) (rule map_fun_update, simp)
    moreover have "block_open (cg_blocks s ! e) \<Longrightarrow> block_open ?x" "block_closed (cg_blocks s ! e) \<Longrightarrow> block_closed ?x"
      by (simp_all add: block_open_def block_closed_def)
    moreover have "e < length (cg_blocks s)" using e(2) by (rule first_block_less)
    moreover obtain b where "cg_pos s = Some b" "b < length (cg_blocks s)" "b \<notin> L" "block_open (cg_blocks s ! b)"
      "\<forall>i < length (cg_blocks s). i \<noteq> b \<longrightarrow> i \<notin> L \<longrightarrow> block_closed (cg_blocks s ! i)"
      "\<forall>i \<in> L. i < length (cg_blocks s) \<and> bk_code (cg_blocks s ! i) = []" "e \<notin> L"
      using s e unfolding shape_def by auto
    ultimately show ?thesis using e unfolding shape_def
      by (intro exI [of _ b] exI [of _ e] exI [of _ f]) (auto simp: nth_list_update)
  qed
  then show ?thesis unfolding keeps_def create_entry_alloca_def
    by (auto simp: cg_wp_def split: option.split)
qed

lemma keeps_store_mutable_local [keeps_intros]: "keeps (store_mutable_local x v)"
  unfolding store_mutable_local_def local_slot_def by (auto intro!: keeps_intros keeps_modify)

lemma keeps_statements [keeps_intros]:
  "keeps (compile_store x e n off)" "keeps (compile_set x e)" "keeps (compile_free x)"
  "keeps (compile_channel_send x e)" "keeps (compile_channel_close x)"
  unfolding compile_store_def compile_set_def compile_free_def compile_channel_send_def
    compile_channel_close_def runtime_defs
  by (auto intro!: keeps_intros)

lemma keeps_compile_assignment [keeps_intros]: "keeps (compile_assignment x e)"
proof -
  have "keeps (case e of Call b args \<Rightarrow> bind_outputs x | _ \<Rightarrow> cg_ret ())"
    by (cases e) (auto intro!: keeps_intros)
  then show ?thesis unfolding compile_assignment_def by (auto intro!: keeps_intros)
qed

lemma keeps_redirect_outputs [keeps_intros]: "keeps (redirect_outputs src outs sls)"
  by (induction src outs sls rule: redirect_outputs.induct)
    (auto simp: redirect_output_def intro!: keeps_intros)

lemma keeps_compile_call_node [keeps_intros]: "keeps (compile_call_node t b args outs)"
  unfolding compile_call_node_def by (auto simp del: compile_expr.simps intro!: keeps_intros)

lemma keeps_wait_each [keeps_intros]: "keeps (wait_each f xs hs)"
  by (induction f xs hs rule: wait_each.induct) (auto intro!: keeps_intros)

lemma keeps_fill_handles [keeps_intros]: "keeps (fill_handles c arr i hs)"
  by (induction c arr i hs rule: fill_handles.induct) (auto intro!: keeps_intros)

lemma keeps_waits [keeps_intros]: "keeps (compile_wait_all xs hs)" "keeps (compile_wait_any r w hs)"
  unfolding compile_wait_all_def compile_wait_any_def runtime_defs Let_def
  by (auto intro!: keeps_intros)

text \<open>
  The syntactic condition: \<open>tidy\<close> gives whether the block after the statements is open, if it starts
  open or closed as told and nothing is emitted into a closed block.
\<close>

fun tidy :: "bool \<Rightarrow> node list \<Rightarrow> bool option" where
  "tidy opn [] = Some opn"
| "tidy opn (Node sp k # ns) = (case k of
       Label l \<Rightarrow> tidy True ns
     | Discard e \<Rightarrow> tidy opn ns
     | Jump l \<Rightarrow> if opn then tidy False ns else None
     | Branch c t f \<Rightarrow> if opn then tidy False ns else None
     | Scope inner \<Rightarrow> if opn \<and> tidy True inner = Some True then tidy True ns else None
     | _ \<Rightarrow> if opn then tidy True ns else None)"

fun label_names :: "node list \<Rightarrow> string list" where
  "label_names [] = []"
| "label_names (Node sp k # ns) = (case k of
       Label l \<Rightarrow> l # label_names ns
     | Scope inner \<Rightarrow> label_names inner @ label_names ns
     | _ \<Rightarrow> label_names ns)"

definition at_end :: "bool \<Rightarrow> ir_block \<Rightarrow> bool" where
  "at_end opn = (if opn then block_open else block_closed)"

lemma closes_jump:
  assumes "shape L block_open s"
  shows "cg_wp (compile_jump labels l) (\<lambda>u. shape L block_closed) s"
  using assms unfolding compile_jump_def label_block_def
  by (auto simp: cg_wp_simps elim!: closes_emit)

lemma closes_branch:
  assumes "shape L block_open s"
  shows "cg_wp (compile_branch labels c t f) (\<lambda>u. shape L block_closed) s"
proof -
  have k: "keeps (cg_bind (compile_expr c) (\<lambda>v. cg_bind (case v of
         SImm i \<Rightarrow> cg_ret i
       | SHandle h \<Rightarrow> cg_bind (load_handle h (min (h_size h) 8) (OConst 0)) as_int
       | SFlt f \<Rightarrow> cg_fail (CgTypeError ''BRANCH condition must be int'')) (\<lambda>cond.
     emit_int 1 (IIcmp PNe cond (fst cond, RConst 0)))))"
    by (auto intro!: keeps_intros)
  have "cg_wp (cg_bind (label_block labels t) (\<lambda>t'. cg_bind (label_block labels f) (\<lambda>f'.
      emit_unit (ICondBr b t' f')))) (\<lambda>u. shape L block_closed) s'"
    if "shape L block_open s'" for s' b
    using that by (auto simp: label_block_def cg_wp_simps elim!: closes_emit)
  then show ?thesis using keepsD [OF k assms] unfolding compile_branch_def cg_wp_bind
    by (auto elim!: cg_wp_mono)
qed

lemma opens_label:
  assumes "shape L (at_end opn) s" "hm_get labels l = Some b" "b \<in> L"
  shows "cg_wp (compile_label labels l) (\<lambda>u. shape (L - {b}) block_open) s"
proof -
  have pos: "cg_wp (position_at_end b) (\<lambda>u. shape (L - {b}) block_open) s'"
    if "shape L block_closed s'" for s'
    using shape_position [OF that assms(3)] by (simp add: cg_wp_position_at_end)
  obtain p where p: "cg_pos s = Some p" "at_end opn (cg_blocks s ! p)"
    using assms(1) by (auto simp: shape_def)
  show ?thesis
  proof (cases opn)
    case True
    then show ?thesis using assms p block_open_terminated pos unfolding compile_label_def
      by (auto simp: cg_wp_simps at_end_def elim!: closes_emit)
  next
    case False
    then show ?thesis using assms p block_closed_terminated pos unfolding compile_label_def
      by (auto simp: cg_wp_simps at_end_def)
  qed
qed

text \<open>
  Labels have blocks of their own: \<open>blocks_of labels ns\<close> are those of the labels in \<open>ns\<close>.
\<close>

definition blocks_of :: "label_blocks \<Rightarrow> node list \<Rightarrow> nat set" where
  "blocks_of labels ns = {b. \<exists>l \<in> set (label_names ns). hm_get labels l = Some b}"

definition label_map :: "label_blocks \<Rightarrow> string list \<Rightarrow> bool" where
  "label_map labels ls \<longleftrightarrow> distinct ls \<and> (\<forall>l \<in> set ls. hm_get labels l \<noteq> None)
     \<and> inj_on (hm_get labels) (set ls)"

lemma label_map_append:
  "label_map labels (ls @ ks) \<Longrightarrow> label_map labels ls \<and> label_map labels ks"
  by (auto simp: label_map_def inj_on_Un)

lemma blocks_of_disjoint:
  assumes "label_map labels (label_names ms @ label_names ns)"
  shows "blocks_of labels ms \<inter> blocks_of labels ns = {}"
proof (rule ccontr)
  assume "\<not> ?thesis"
  then obtain b l k where b: "l \<in> set (label_names ms)" "k \<in> set (label_names ns)"
    "hm_get labels l = Some b" "hm_get labels k = Some b"
    by (auto simp: blocks_of_def)
  have "inj_on (hm_get labels) (set (label_names ms) \<union> set (label_names ns))"
    using assms by (simp add: label_map_def)
  then have "l = k" by (rule inj_onD) (use b in auto)
  then show False using assms b by (auto simp: label_map_def)
qed

lemma shape_compile_scope:
  assumes s: "shape L block_open s"
    and body: "\<And>s. shape L block_open s \<Longrightarrow> cg_wp body (\<lambda>u. shape M block_open) s"
  shows "cg_wp (compile_scope body) (\<lambda>u. shape M block_open) s"
proof -
  have before: "keeps (case sc of None \<Rightarrow> cg_ret None
      | Some parent \<Rightarrow> cg_bind (create_scope parent) (\<lambda>c. cg_then (set_scope (Some c)) (cg_ret (Some c))))" for sc
    by (auto intro!: keeps_intros)
  have after: "keeps (cg_then (case child of None \<Rightarrow> cg_ret () | Some c \<Rightarrow> destroy_root_scope c)
      (cg_then (set_scope saved) (cg_modify (\<lambda>s. s\<lparr>cg_variables := vs\<rparr>))))" for child saved vs
    by (auto intro!: keeps_intros keeps_modify)
  show ?thesis unfolding compile_scope_def cg_wp_bind cg_wp_gets cg_wp_then [of body]
    using keepsD [OF before s] body keepsD [OF after]
    by (fastforce elim!: cg_wp_mono)
qed

lemma shape_compile_nodes:
  "\<lbrakk>tidy o1 [n] = Some o1'; label_map labels (label_names [n]); blocks_of labels [n] \<subseteq> L1;
     shape L1 (at_end o1) s1\<rbrakk> \<Longrightarrow>
   cg_wp (compile_node labels n) (\<lambda>u. shape (L1 - blocks_of labels [n]) (at_end o1')) s1"
  "\<lbrakk>tidy opn ns = Some opn'; label_map labels (label_names ns); blocks_of labels ns \<subseteq> L;
     shape L (at_end opn) s\<rbrakk> \<Longrightarrow>
   cg_wp (compile_nodes labels ns) (\<lambda>u. shape (L - blocks_of labels ns) (at_end opn')) s"
proof (induction labels n and labels ns arbitrary: o1 o1' L1 s1 and opn opn' L s
    rule: compile_node_compile_nodes.induct)
  case (1 labels sp l)
  then obtain b where b: "hm_get labels l = Some b" by (auto simp: label_map_def)
  then have "blocks_of labels [Node sp (Label l)] = {b}" by (auto simp: blocks_of_def)
  then show ?case using 1 opens_label [OF 1(4) b] b by (auto simp: at_end_def)
next
  case (10 labels sp ns)
  then have o1: "o1" "tidy True ns = Some True" "o1'" by (auto split: if_splits)
  have bo: "blocks_of labels [Node sp (Scope ns)] = blocks_of labels ns" by (simp add: blocks_of_def)
  have "cg_wp (compile_nodes labels ns) (\<lambda>u. shape (L1 - blocks_of labels ns) block_open) s"
    if "shape L1 block_open s" for s
    using 10 o1 bo that 10(1) [of True True L1 s] by (simp add: at_end_def)
  moreover have "shape L1 block_open s1" using 10(5) o1 by (simp add: at_end_def)
  ultimately show ?case using o1 shape_compile_scope unfolding bo by (auto simp: at_end_def)
next
  case (13 labels sp x p args)
  have "keeps (compile_node labels (Node sp (SpawnNode x p args)))"
    unfolding compile_node.simps by (intro keeps_bind keeps_intros)
  then show ?case using 13 by (auto simp: at_end_def blocks_of_def keepsD split: if_splits)
next
  case (14 labels sp x h)
  have "keeps (compile_node labels (Node sp (WaitNode x h)))"
    unfolding compile_node.simps by (intro keeps_bind keeps_intros)
  then show ?case using 14 by (auto simp: at_end_def blocks_of_def keepsD split: if_splits)
next
  case (17 labels)
  then show ?case by (simp add: cg_wp_simps blocks_of_def)
next
  case (18 labels n ns)
  obtain sp k where n: "n = Node sp k" by (cases n)
  have names: "label_names (n # ns) = label_names [n] @ label_names ns"
    unfolding n by (auto split: node_kind.split)
  obtain om where om: "tidy opn [n] = Some om" "tidy om ns = Some opn'"
    using 18(3) unfolding n by (auto split: node_kind.splits if_splits)
  have bo: "blocks_of labels (n # ns) = blocks_of labels [n] \<union> blocks_of labels ns"
    unfolding blocks_of_def names by auto
  have lm: "label_map labels (label_names [n])" "label_map labels (label_names ns)"
    using 18(4) unfolding names by (auto dest: label_map_append)
  have disj: "blocks_of labels [n] \<inter> blocks_of labels ns = {}"
    using 18(4) unfolding names by (rule blocks_of_disjoint)
  have "cg_wp (compile_nodes labels ns) (\<lambda>u. shape (L - blocks_of labels (n # ns)) (at_end opn')) s'"
    if "shape (L - blocks_of labels [n]) (at_end om) s'" for s'
    using 18(2) [OF om(2) lm(2) _ that] 18(5) disj unfolding bo by (auto simp: Diff_eq Int_assoc)
  then show ?case using 18(1) [OF om(1) lm(1) _ 18(6)] 18(5) unfolding bo
    by (auto simp: cg_wp_simps elim!: cg_wp_mono)
qed (auto simp: at_end_def blocks_of_def cg_wp_simps split: if_splits
      intro!: keepsD keeps_intros closes_jump closes_branch simp del: compile_expr.simps)

section \<open>Functions\<close>

definition label_pairs :: "nat \<Rightarrow> node list \<Rightarrow> (string \<times> nat) list" where
  "label_pairs n ns = zip (label_names ns) [n..<n + length (label_names ns)]"

definition empty_blocks :: "nat \<Rightarrow> string list \<Rightarrow> ir_block list" where
  "empty_blocks f ls = map (\<lambda>l. \<lparr>bk_fun = f, bk_name = l, bk_code = []\<rparr>) ls"

lemma zip_upt_append:
  "zip (xs @ ys) [n..<n + (length xs + length ys)] =
     zip xs [n..<n + length xs] @ zip ys [n + length xs..<n + length xs + length ys]"
proof -
  have "[n..<n + (length xs + length ys)] = [n..<n + length xs] @ [n + length xs..<n + length xs + length ys]"
    using upt_add_eq_append [of n "n + length xs" "length ys"] by (simp only: add.assoc le_add1)
  then show ?thesis by (simp only: zip_append length_upt diff_add_inverse)
qed

lemma collect_label_blocks_eq:
  "collect_label_blocks f ns labels s =
     Inr (fold (\<lambda>(l, b). hm_insert l b) (label_pairs (length (cg_blocks s)) ns) labels,
          s\<lparr>cg_blocks := cg_blocks s @ empty_blocks f (label_names ns)\<rparr>)"
proof (induction f ns labels arbitrary: s rule: collect_label_blocks.induct)
  case (1 f labels)
  then show ?case by (simp add: label_pairs_def empty_blocks_def cg_ret_def)
next
  case (2 f sp k ns labels)
  show ?case
  proof (cases k)
    case (Label l)
    have "[n..<Suc (n + m)] = n # [Suc n..<Suc (n + m)]" for n m :: nat by (simp add: upt_conv_Cons)
    then show ?thesis using 2(2)
      by (simp add: Label cg_bind_def cg_ret_def append_basic_block_def label_pairs_def empty_blocks_def)
  next
    case (Scope inner)
    show ?thesis using 2(1) [OF Scope] 2(2)
      by (simp add: Scope cg_bind_def label_pairs_def empty_blocks_def zip_upt_append)
  qed (use 2(2) in \<open>simp_all add: cg_bind_def cg_ret_def label_pairs_def\<close>)
qed

lemma map_of_rev_eq:
  assumes "distinct (map fst xs)"
  shows "map_of (rev xs) = map_of xs"
proof
  fix k
  have d: "distinct (map fst (rev xs))" using assms by (simp add: rev_map [symmetric])
  show "map_of (rev xs) k = map_of xs k"
  proof (cases "map_of xs k")
    case None
    then have "map_of (rev xs) k = None" by (simp add: map_of_eq_None_iff)
    then show ?thesis using None by simp
  next
    case (Some v)
    then have "(k, v) \<in> set (rev xs)" by (auto dest: map_of_SomeD)
    then show ?thesis using Some d by (simp add: map_of_eq_Some_iff)
  qed
qed

lemma label_pairs_get:
  assumes "distinct (label_names ns)"
  shows "hm_get (fold (\<lambda>(l, b). hm_insert l b) (label_pairs n ns) []) l = map_of (label_pairs n ns) l"
proof -
  have "distinct (map fst (label_pairs n ns))" using assms by (simp add: label_pairs_def)
  then have "map_of (rev (label_pairs n ns)) = map_of (label_pairs n ns)" by (rule map_of_rev_eq)
  then show ?thesis by (simp add: hm.get_fold_insert split: option.split)
qed

lemma label_blocks_fresh:
  assumes d: "distinct (label_names ns)"
    and labels: "labels = fold (\<lambda>(l, b). hm_insert l b) (label_pairs n ns) []"
  shows "label_map labels (label_names ns)" "blocks_of labels ns = {n..<n + length (label_names ns)}"
proof -
  let ?ls = "label_names ns"
  have get: "hm_get labels l = Some b \<longleftrightarrow> (\<exists>i < length ?ls. l = ?ls ! i \<and> b = n + i)" for l b
  proof -
    have "hm_get labels l = Some b \<longleftrightarrow> (l, b) \<in> set (label_pairs n ns)"
      unfolding labels label_pairs_get [OF d] by (rule map_of_eq_Some_iff) (simp add: label_pairs_def d)
    then show ?thesis by (auto simp: label_pairs_def in_set_zip)
  qed
  show "blocks_of labels ns = {n..<n + length ?ls}"
  proof (intro set_eqI iffI)
    fix b assume "b \<in> blocks_of labels ns"
    then show "b \<in> {n..<n + length ?ls}" by (auto simp: blocks_of_def get)
  next
    fix b assume b: "b \<in> {n..<n + length ?ls}"
    then have "hm_get labels (?ls ! (b - n)) = Some b" unfolding get by (intro exI [of _ "b - n"]) auto
    moreover have "?ls ! (b - n) \<in> set ?ls" using b by (intro nth_mem) auto
    ultimately show "b \<in> blocks_of labels ns" by (auto simp: blocks_of_def)
  qed
  have some: "\<exists>b. hm_get labels l = Some b" if "l \<in> set ?ls" for l
    using that unfolding get by (metis in_set_conv_nth)
  have "inj_on (hm_get labels) (set ?ls)"
  proof (rule inj_onI)
    fix l k assume l: "l \<in> set ?ls" and eq: "hm_get labels l = hm_get labels k"
    obtain b where "hm_get labels l = Some b" using some [OF l] by blast
    then have "hm_get labels l = Some b" "hm_get labels k = Some b" using eq by simp_all
    then show "l = k" unfolding get by auto
  qed
  then show "label_map labels ?ls" using d some unfolding label_map_def by auto
qed

lemma shape_append_empty:
  assumes "shape L P s"
  shows "shape (L \<union> {length (cg_blocks s)..<length (cg_blocks s) + length ls}) P
     (s\<lparr>cg_blocks := cg_blocks s @ empty_blocks f ls\<rparr>)"
  using assms
proof (induction ls arbitrary: L s)
  case Nil
  then show ?case by (simp add: empty_blocks_def)
next
  case (Cons l ls)
  let ?n = "length (cg_blocks s)"
  have "insert ?n L \<union> {Suc ?n..<Suc ?n + length ls} = L \<union> {?n..<?n + length (l # ls)}" by auto
  then show ?case using Cons.IH [OF shape_append [OF Cons.prems, of f l]]
    by (simp add: empty_blocks_def)
qed

lemma shape_compile_impl:
  assumes s: "shape {} block_open s" and d: "distinct (label_names ns)" and t: "tidy True ns = Some opn"
  shows "cg_wp (compile_impl ns f) (\<lambda>u. shape {} (at_end opn)) s"
proof -
  let ?n = "length (cg_blocks s)"
  define labels where "labels = fold (\<lambda>(l, b). hm_insert l b) (label_pairs ?n ns) []"
  note fresh = label_blocks_fresh [OF d labels_def]
  have "cg_wp (compile_nodes labels ns) (\<lambda>u. shape ({?n..<?n + length (label_names ns)} - blocks_of labels ns) (at_end opn))
      (s\<lparr>cg_blocks := cg_blocks s @ empty_blocks f (label_names ns)\<rparr>)"
    by (rule shape_compile_nodes(2) [OF t fresh(1)])
      (use shape_append_empty [OF s, of "label_names ns" f] fresh(2) in \<open>auto simp: at_end_def\<close>)
  then show ?thesis
    by (simp add: compile_impl_def cg_wp_def cg_bind_def collect_label_blocks_eq labels_def [symmetric] fresh(2))
qed

text \<open>A body is well structured if its labels are distinct and every body it may select is tidy.\<close>

definition structured :: "node list \<Rightarrow> bool" where
  "structured ns \<longleftrightarrow> distinct (label_names ns) \<and> tidy True ns \<noteq> None"

definition all_closed :: "cg \<Rightarrow> bool" where
  "all_closed s \<longleftrightarrow> list_all block_closed (cg_blocks s)"

lemma shape_all_closed: "shape {} block_closed s \<Longrightarrow> all_closed s"
  by (auto simp: shape_def all_closed_def list_all_length)

lemma closes_finish:
  assumes "shape {} (at_end opn) s"
  shows "cg_wp (finish_function (Some r) (cg_ret v)) (\<lambda>u. shape {} block_closed) s"
proof -
  obtain b where b: "cg_pos s = Some b" "at_end opn (cg_blocks s ! b)" using assms by (auto simp: shape_def)
  have ret: "cg_wp (emit (IRet v)) (\<lambda>n. shape {} block_closed) s'" if "shape {} block_open s'" for s'
    using that by (auto elim!: closes_emit)
  show ?thesis
  proof (cases opn)
    case True
    have "cg_wp (destroy_root_scope r) (\<lambda>u. shape {} block_open) s"
      using assms True by (auto simp: at_end_def intro!: keepsD keeps_intros)
    then show ?thesis using b True block_open_terminated ret unfolding finish_function_def
      by (auto simp: cg_wp_simps at_end_def elim!: cg_wp_mono)
  next
    case False
    then show ?thesis using assms b block_closed_terminated unfolding finish_function_def
      by (auto simp: cg_wp_simps at_end_def)
  qed
qed

lemma keeps_bind_params [keeps_intros]: "keeps (bind_params i ps)"
  by (induction i ps rule: bind_params.induct) (auto intro!: keeps_intros)

lemma shape_compile_body:
  assumes s: "shape {} block_open s" and b: "list_all structured (all_bodies b)"
  shows "cg_wp (compile_body b f) (\<lambda>u s'. \<exists>opn. shape {} (at_end opn) s') s"
proof -
  have m: "shape {} P (s'\<lparr>cg_reassigned := r\<rparr>)" if "shape {} P s'" for s' P r
    using that by (simp add: shape_def)
  have "cg_wp (compile_impl ns f) (\<lambda>u s'. \<exists>opn. shape {} (at_end opn) (s'\<lparr>cg_reassigned := []\<rparr>)) s'"
    if "shape {} block_open s'" "body_nodes p b = Some ns" for s' ns p
  proof -
    have "structured ns" using b body_nodes_in [OF that(2)] by (simp add: list_all_iff)
    then obtain opn where "distinct (label_names ns)" "tidy True ns = Some opn" by (auto simp: structured_def)
    then show ?thesis using shape_compile_impl [OF that(1)] m by (blast intro: cg_wp_mono)
  qed
  moreover have "shape {} (at_end True) s" using s by (simp add: at_end_def)
  moreover have "shape {} block_open (s\<lparr>cg_mutable_slots := []\<rparr>)" using s by (simp add: shape_def)
  ultimately show ?thesis using s m [of "at_end True"] m [of block_open]
    unfolding compile_body_def cg_wp_simps by (auto simp: shape_def at_end_def)
qed

lemma shape_enter_function:
  assumes "cg_blocks s = []"
  shows "cg_wp (enter_function f) (\<lambda>u. shape {} block_open) s"
  using assms by (simp add: enter_function_def cg_wp_def cg_bind_def cg_then_def cg_modify_def
      position_at_end_def append_basic_block_def shape_def block_open_def)

lemma closed_function_body:
  assumes s: "cg_blocks s = []" and b: "list_all structured (all_bodies b)"
  shows "cg_wp (compile_function_body b f) (\<lambda>u. shape {} block_closed) s"
proof -
  have start: "keeps (cg_bind (cg_gets cg_current_scope) (\<lambda>saved. cg_bind create_root_scope (\<lambda>root.
      cg_then (set_scope (Some root)) (cg_then (bind_params 0 ins) (cg_then (bind_params n outs)
      (cg_ret (saved, root)))))))" for ins n outs
    unfolding create_root_scope_def by (auto intro!: keeps_intros)
  have scope: "cg_wp (set_scope sc) (\<lambda>u. shape {} block_closed) s'" if "shape {} block_closed s'" for sc s'
    using that by (simp add: set_scope_def cg_wp_simps shape_def)
  have "cg_wp (cg_then (compile_body b f) (cg_then (finish_function (Some root) (cg_ret None)) (set_scope saved)))
      (\<lambda>u. shape {} block_closed) s'" if "shape {} block_open s'" for s' root saved
    using shape_compile_body [OF that b] closes_finish scope
    unfolding cg_wp_then by (blast intro: cg_wp_mono)
  then have "cg_wp (cg_bind (cg_gets cg_current_scope) (\<lambda>saved. cg_bind create_root_scope (\<lambda>root.
      cg_then (set_scope (Some root)) (cg_then (bind_params 0 ins) (cg_then (bind_params n outs)
      (cg_then (compile_body b f) (cg_then (finish_function (Some root) (cg_ret None)) (set_scope saved))))))))
      (\<lambda>u. shape {} block_closed) s'" if "shape {} block_open s'" for ins n outs s'
    using keepsD [OF start that, of ins n outs] unfolding cg_wp_simps
    by (auto elim!: cg_wp_mono)
  then show ?thesis using shape_enter_function [OF s] unfolding compile_function_body_def cg_wp_then [of "enter_function f"]
    by (blast intro: cg_wp_mono)
qed

text \<open>Declarations add no block.\<close>

lemma blocks_get_or_declare:
  "cg_blocks s = bs \<Longrightarrow> cg_wp (get_or_declare n ps r) (\<lambda>f s'. cg_blocks s' = bs) s"
  by (auto simp: get_or_declare_def cg_wp_simps) (simp add: cg_wp_def add_function_def)

lemma blocks_declare_externals:
  "cg_blocks s = bs \<Longrightarrow> cg_wp declare_externals (\<lambda>u s'. cg_blocks s' = bs) s"
  unfolding declare_externals_def declare_puts_def declare_write_def cg_wp_simps
  by (blast intro: cg_wp_mono blocks_get_or_declare)

lemma blocks_declare_behaviors:
  "cg_blocks s = bs \<Longrightarrow> cg_wp (declare_behaviors cs) (\<lambda>u s'. cg_blocks s' = bs) s"
proof (induction cs arbitrary: s rule: declare_behaviors.induct)
  case (2 n c cs)
  have "cg_wp (declare_external_behavior n c) (\<lambda>u s'. cg_blocks s' = bs) s"
    using 2(2) by (auto simp: declare_external_behavior_def cg_wp_simps register_sig_def)
      (simp add: cg_wp_def add_function_def)
  then show ?case using 2(1) by (auto simp: cg_wp_simps elim!: cg_wp_mono)
qed (simp add: cg_wp_simps)

lemma wp_restoring_closed:
  "cg_wp m (\<lambda>u. shape {} block_closed) s \<Longrightarrow> cg_wp (restoring m) (\<lambda>u. all_closed) s"
  unfolding cg_wp_def restoring_def by (auto split: sum.splits dest: shape_all_closed simp: all_closed_def)

lemma closed_compile_function:
  assumes s: "cg_blocks s = []" and b: "list_all structured (all_bodies b)"
  shows "cg_wp (compile_function b full_name) (\<lambda>f. all_closed) s"
proof -
  have reg: "cg_wp (register_sig n sg) (\<lambda>_. cg_wp (register_fn n f) (\<lambda>_. cg_wp (cg_ret f) (\<lambda>f. all_closed))) s'"
    if "all_closed s'" for s' n sg f
    using that by (simp add: register_sig_def register_fn_def cg_wp_simps all_closed_def)
  have "cg_wp (if b_is_native b then cg_ret () else restoring (compile_function_body b f)) (\<lambda>u. all_closed) s'"
    if "cg_blocks s' = []" for s' f
    using wp_restoring_closed [OF closed_function_body [OF that b]] that
    by (auto simp: cg_wp_simps all_closed_def)
  then have "cg_wp (add_function n ps r) (\<lambda>f. cg_wp (if b_is_native b then cg_ret ()
      else restoring (compile_function_body b f)) (\<lambda>u. all_closed)) s'" if "cg_blocks s' = []" for s' n ps r
    using that by (auto simp: cg_wp_def add_function_def split: sum.splits)
  moreover have "cg_wp (if b_is_native b then cg_ret () else declare_externals) (\<lambda>u s'. cg_blocks s' = []) s"
    using s blocks_declare_externals [OF s] by (simp add: cg_wp_simps)
  ultimately show ?thesis using reg unfolding compile_function_def cg_wp_bind cg_wp_then
    by (blast intro: cg_wp_mono)
qed

text \<open>
  C13: in the code of a behavior whose bodies are well structured (labels are distinct, nothing
  follows a jump or branch but a label, no scope ends in one), every basic block ends in a
  terminator and contains no other, whatever expressions and bounds checks are compiled.
\<close>

theorem structured_blocks_closed:
  assumes "list_all structured (all_bodies b)"
    and "behavior_module B p contracts full_name b = Inr (f, s)"
  shows "all_closed s"
proof -
  have "cg_blocks (cg_new B p) = []" by (simp add: cg_new_def)
  then have "cg_wp (cg_then (declare_behaviors (required_contracts contracts b)) (compile_function b full_name))
      (\<lambda>f. all_closed) (cg_new B p)"
    using blocks_declare_behaviors closed_compile_function [OF _ assms(1)]
    unfolding cg_wp_then by (blast intro: cg_wp_mono)
  then show ?thesis using assms(2) unfolding behavior_module_def by (rule cg_wpD)
qed

end
