(* ===== verification/Sigil_Codegen_Labels.thy ===== *)
theory Sigil_Codegen_Labels
  imports Sigil_Analyze Sigil_Codegen_Blocks
begin

text \<open>
  What the semantic analyzer promises the code generator about labels: the jumps and branches of an
  accepted body find their blocks, so that \<^verbatim>\<open>CodeGenError::UndefinedLabel\<close> never comes up; and what it
  does not promise, since it looks at the first implementation only.
\<close>

section \<open>Computations that never miss a label\<close>

definition label_safe :: "'a cgm \<Rightarrow> bool" where
  "label_safe m \<longleftrightarrow> (\<forall>s l. m s \<noteq> Inl (Fails (CgUndefinedLabel l)))"

named_theorems label_safe_intros \<open>computations that never miss a label\<close>

lemma label_safe_ret [label_safe_intros]: "label_safe (cg_ret a)"
  by (simp add: label_safe_def cg_ret_def)

lemma label_safe_fail [label_safe_intros]:
  "label_safe (cg_fail (CgTypeError m))" "label_safe (cg_fail (CgLlvmError m))"
  by (simp_all add: label_safe_def cg_fail_def)

lemma label_safe_panic [label_safe_intros]: "label_safe cg_panic"
  by (simp add: label_safe_def cg_panic_def)

lemma label_safe_gets [label_safe_intros]: "label_safe (cg_gets f)"
  by (simp add: label_safe_def cg_gets_def)

lemma label_safe_modify [label_safe_intros]: "label_safe (cg_modify f)"
  by (simp add: label_safe_def cg_modify_def)

lemma label_safe_bind [label_safe_intros]:
  "label_safe m \<Longrightarrow> (\<And>a. label_safe (f a)) \<Longrightarrow> label_safe (cg_bind m f)"
  by (simp add: label_safe_def cg_bind_def split: sum.split) blast

lemma label_safe_then [label_safe_intros]: "label_safe m \<Longrightarrow> label_safe n \<Longrightarrow> label_safe (cg_then m n)"
  unfolding cg_then_def by (rule label_safe_bind)

lemma label_safe_ok_or [label_safe_intros]:
  "label_safe (cg_ok_or x (CgTypeError m))" "label_safe (cg_ok_or x (CgUndefinedVariable m))"
  "label_safe (cg_ok_or x (CgUndefinedBehavior m))" "label_safe (cg_ok_or x (CgUndefinedField m n))"
  "label_safe (cg_ok_or x (CgLlvmError m))"
  by (simp_all add: label_safe_def cg_ok_or_def cg_ret_def cg_fail_def split: option.split)

lemma label_safe_cases [label_safe_intros]:
  "\<And>b. label_safe m \<Longrightarrow> label_safe n \<Longrightarrow> label_safe (if b then m else n)"
  "\<And>x. label_safe m \<Longrightarrow> (\<And>a. label_safe (f a)) \<Longrightarrow> label_safe (case x of None \<Rightarrow> m | Some a \<Rightarrow> f a)"
  "\<And>x. label_safe m \<Longrightarrow> (\<And>a as. label_safe (c a as)) \<Longrightarrow> label_safe (case x of [] \<Rightarrow> m | a # as \<Rightarrow> c a as)"
  "\<And>p. (\<And>a b. label_safe (g a b)) \<Longrightarrow> label_safe (case p of (a, b) \<Rightarrow> g a b)"
  "\<And>v. (\<And>h. label_safe (mh h)) \<Longrightarrow> (\<And>i. label_safe (mi i)) \<Longrightarrow> (\<And>q. label_safe (mf q)) \<Longrightarrow>
     label_safe (case v of SHandle h \<Rightarrow> mh h | SImm i \<Rightarrow> mi i | SFlt q \<Rightarrow> mf q)"
  "\<And>o'. (\<And>i. label_safe (mk i)) \<Longrightarrow> (\<And>j. label_safe (md j)) \<Longrightarrow>
     label_safe (case o' of OConst i \<Rightarrow> mk i | ODynamic j \<Rightarrow> md j)"
  "\<And>t. (\<And>b. label_safe (ti b)) \<Longrightarrow> (\<And>q. label_safe (tf q)) \<Longrightarrow> label_safe tp \<Longrightarrow>
     label_safe (case t of LInt b \<Rightarrow> ti b | LFloat q \<Rightarrow> tf q | LPtr \<Rightarrow> tp)"
  by (simp_all split: option.split list.split prod.split sval.split offset.split lty.split)

text \<open>The requests to the builder, and everything made of them.\<close>

lemma label_safe_emit [label_safe_intros]: "label_safe (emit ins)"
  by (simp add: label_safe_def emit_def split: option.split)

lemma label_safe_builder [label_safe_intros]:
  "label_safe (append_basic_block f name)" "label_safe (add_function name ps t)" "label_safe (add_global bytes)"
  by (simp_all add: label_safe_def append_basic_block_def add_function_def add_global_def)

lemma label_safe_emits [label_safe_intros]:
  "label_safe (emit_unit ins)" "label_safe (emit_int b ins)" "label_safe (emit_flt t ins)"
  "label_safe (emit_ptr ins)" "label_safe (position_at_end k)" "label_safe (get_function name)"
  "label_safe needs_terminator" "label_safe (get_or_declare name ps r)"
  unfolding emit_unit_def emit_int_def emit_flt_def emit_ptr_def position_at_end_def get_function_def
    needs_terminator_def get_or_declare_def
  by (intro label_safe_intros)+

lemma label_safe_runtime [label_safe_intros]:
  "label_safe get_or_declare_abort" "label_safe get_or_declare_sigil_spawn"
  "label_safe get_or_declare_sigil_wait" "label_safe get_or_declare_sigil_wait_any"
  "label_safe get_or_declare_sigil_channel_create" "label_safe get_or_declare_sigil_scope_create"
  "label_safe get_or_declare_sigil_scope_alloc" "label_safe get_or_declare_sigil_scope_free"
  "label_safe get_or_declare_sigil_scope_destroy" "label_safe get_or_declare_sigil_channel_send"
  "label_safe get_or_declare_sigil_channel_receive" "label_safe get_or_declare_sigil_channel_close"
  "label_safe declare_externals"
  unfolding runtime_defs declare_externals_def declare_puts_def declare_write_def
  by (intro label_safe_intros)+

lemma label_safe_values [label_safe_intros]:
  "label_safe (as_int v)" "label_safe (as_float v)" "label_safe (as_handle v)"
  "label_safe (lookup_variable x)" "label_safe (set_variable x v)" "label_safe (handle_variable x)"
  "label_safe (call_int f args)" "label_safe (call_ptr f args msg)" "label_safe (resize_int i b)"
  "label_safe (normalize_int_types i j)" "label_safe (set_scope sc)" "label_safe take_pending"
  unfolding as_int_def as_float_def as_handle_def lookup_variable_def set_variable_def handle_variable_def
    call_int_def call_ptr_def resize_int_def normalize_int_types_def set_scope_def take_pending_def
  by (intro label_safe_intros)+

lemma label_safe_get_var [label_safe_intros]: "label_safe (cg_get_var x)"
  unfolding cg_get_var_def by (intro label_safe_intros)

lemma label_safe_bounds [label_safe_intros]:
  "label_safe (emit_bounds_check i n m f)" "label_safe (gep_at p n)"
  unfolding emit_bounds_check_def gep_at_def by (intro label_safe_intros)+

lemma label_safe_access [label_safe_intros]:
  "label_safe (dynamic_bounds_check h n off)" "label_safe (access_ptr h off)" "label_safe (alloc_handle n t)"
  unfolding dynamic_bounds_check_def access_ptr_def alloc_handle_def by (intro label_safe_intros)+

lemma label_safe_handles [label_safe_intros]:
  "label_safe (load_handle h n off)" "label_safe (store_handle h v n off)"
  "label_safe (scope_alloc_handle n t)" "label_safe (immediate_to_handle v)"
  "label_safe (get_field co field)" "label_safe (pointer_or_handle msg v)"
  unfolding load_handle_def store_handle_def scope_alloc_handle_def immediate_to_handle_def get_field_def
    pointer_or_handle_def Let_def
  by (intro label_safe_intros)+

lemma label_safe_operators [label_safe_intros]:
  "label_safe ma \<Longrightarrow> label_safe mb \<Longrightarrow> label_safe (compile_int_binop ma mb op)"
  "label_safe ma \<Longrightarrow> label_safe mb \<Longrightarrow> label_safe (compile_int_cmp ma mb pr)"
  "label_safe ma \<Longrightarrow> label_safe mb \<Longrightarrow> label_safe (compile_float_binop ma mb fop)"
  "label_safe ma \<Longrightarrow> label_safe mb \<Longrightarrow> label_safe (compile_float_cmp ma mb fpr)"
  "label_safe ma \<Longrightarrow> label_safe (int_unary ma g)"
  "label_safe ma \<Longrightarrow> label_safe mo \<Longrightarrow> label_safe (compile_load ma n mo)"
  "label_safe ma \<Longrightarrow> label_safe mb \<Longrightarrow> label_safe mc \<Longrightarrow> label_safe (compile_cas ma mb mc)"
  "label_safe ma \<Longrightarrow> label_safe mb \<Longrightarrow> label_safe (compile_rmw ma mb op)"
  "label_safe ma \<Longrightarrow> label_safe (compile_channel ma)"
  unfolding compile_int_binop_def compile_int_cmp_def compile_float_binop_def compile_float_cmp_def
    int_unary_def compile_load_def compile_cas_def compile_rmw_def compile_channel_def
  by (intro label_safe_intros; assumption)+

lemma label_safe_leaves [label_safe_intros]:
  "label_safe (compile_string_lit t)" "label_safe (compile_field x field)" "label_safe (callee_of name)"
  "label_safe (sig_of name n)" "label_safe (compile_wait x)" "label_safe (compile_channel_receive x)"
  "label_safe (spawn_arg buf n v)" "label_safe (spawn_buffer name n)"
  unfolding compile_string_lit_def compile_field_def callee_of_def sig_of_def compile_wait_def
    compile_channel_receive_def spawn_arg_def spawn_buffer_def Let_def
  by (intro label_safe_intros)+

lemma label_safe_slot_pointers [label_safe_intros]: "label_safe (slot_pointers p sls)"
  by (induction sls arbitrary: p) (auto intro!: label_safe_intros)

lemma label_safe_finish_call [label_safe_intros]: "label_safe (finish_call f sg args)"
  unfolding finish_call_def by (intro label_safe_intros)

lemma label_safe_expr_cases:
  "(\<And>n. label_safe (mi n)) \<Longrightarrow> label_safe m \<Longrightarrow> label_safe (case e of IntLit n \<Rightarrow> mi n | _ \<Rightarrow> m)"
  "(\<And>x. label_safe (mv x)) \<Longrightarrow> label_safe m \<Longrightarrow> label_safe (case e of Var x \<Rightarrow> mv x | _ \<Rightarrow> m)"
  by (simp_all split: expr.split)

lemma label_safe_expr [label_safe_intros]:
  "label_safe (compile_expr e)"
  "label_safe (compile_offset off)"
  "label_safe (compile_args es)"
  "label_safe (compile_spawn_args buf n fs)"
proof (induction e and off and es and buf n fs rule: compile_expr_compile_offset_compile_args_compile_spawn_args.induct)
  case (29 e)
  have "(\<exists>n. e = IntLit n) \<or> label_safe (compile_expr e)"
    using 29 by (cases e) (simp_all del: compile_expr.simps)
  then show ?case
    unfolding compile_offset.simps by (elim disjE exE) (auto split: expr.split simp del: compile_expr.simps intro!: label_safe_intros)
qed (simp only: compile_expr.simps compile_offset.simps compile_args.simps compile_spawn_args.simps Let_def;
  (intro label_safe_intros label_safe_expr_cases; assumption?))+

section \<open>Statements\<close>

lemma label_safe_local_slot [label_safe_intros]: "label_safe (local_slot x v)"
proof -
  have "label_safe (create_entry_alloca ty)" for ty
    by (simp add: label_safe_def create_entry_alloca_def split: option.split)
  then show ?thesis unfolding local_slot_def by (intro label_safe_intros) auto
qed

lemma label_safe_statements [label_safe_intros]:
  "label_safe (store_mutable_local x v)" "label_safe (bind_outputs x)" "label_safe (create_scope p)"
  "label_safe (destroy_root_scope p)" "label_safe (compile_label labels l)" "label_safe (compile_free x)"
  "label_safe (redirect_output h x slot)" "label_safe (compile_channel_close x)"
  unfolding store_mutable_local_def bind_outputs_def create_scope_def destroy_root_scope_def compile_label_def
    compile_free_def redirect_output_def compile_channel_close_def
  by (intro label_safe_intros)+

lemma label_safe_redirect_outputs [label_safe_intros]: "label_safe (redirect_outputs h xs slots)"
  by (induction h xs slots rule: redirect_outputs.induct) (auto intro!: label_safe_intros)

lemma label_safe_wait_each [label_safe_intros]: "label_safe (wait_each f xs hs)"
  by (induction f xs hs rule: wait_each.induct) (auto intro!: label_safe_intros)

lemma label_safe_fill_handles [label_safe_intros]: "label_safe (fill_handles n p i hs)"
  by (induction n p i hs rule: fill_handles.induct) (auto intro!: label_safe_intros)

lemma label_safe_compound [label_safe_intros]:
  "label_safe (compile_store x e n off)" "label_safe (compile_set x e)"
  "label_safe (compile_call_node tgt name args outs)" "label_safe (compile_channel_send x e)"
  "label_safe (compile_wait_all xs hs)" "label_safe (compile_wait_any x y hs)"
  "label_safe m \<Longrightarrow> label_safe (compile_scope m)"
  unfolding compile_store_def compile_set_def compile_call_node_def
    compile_channel_send_def compile_wait_all_def compile_wait_any_def compile_scope_def Let_def
  by (intro label_safe_intros; assumption?)+

lemma label_safe_assignment [label_safe_intros]: "label_safe (compile_assignment x e)"
  unfolding compile_assignment_def by (auto intro!: label_safe_intros split: expr.split)

lemma label_safe_label_block: "hm_get labels l \<noteq> None \<Longrightarrow> label_safe (label_block labels l)"
  by (auto simp: label_safe_def label_block_def cg_ok_or_def cg_ret_def)

lemma label_names_labels_of: "label_names ns = labels_of ns"
  by (induction ns rule: labels_of.induct) (auto split: node_kind.split)

lemma label_safe_nodes:
  "(\<Union>k \<in> set (leaves [n]). targets k) \<subseteq> {l. hm_get labels l \<noteq> None} \<Longrightarrow> label_safe (compile_node labels n)"
  "(\<Union>k \<in> set (leaves ns). targets k) \<subseteq> {l. hm_get labels l \<noteq> None} \<Longrightarrow> label_safe (compile_nodes labels ns)"
proof (induction labels n and labels ns rule: compile_node_compile_nodes.induct)
  case (4 labels sp l)
  then have "label_safe (label_block labels l)" by (auto simp: targets_def intro: label_safe_label_block)
  then show ?case unfolding compile_node.simps compile_jump_def by (intro label_safe_intros)
next
  case (5 labels sp c t f)
  then have "label_safe (label_block labels t)" "label_safe (label_block labels f)"
    by (auto simp: targets_def intro: label_safe_label_block)
  then show ?case unfolding compile_node.simps compile_branch_def by (intro label_safe_intros)
next
  case (10 labels sp ns)
  then have "label_safe (compile_nodes labels ns)" by simp
  then show ?case unfolding compile_node.simps by (rule label_safe_compound)
next
  case (18 labels n ns)
  obtain sp k where n: "n = Node sp k" by (cases n)
  have "leaves (n # ns) = leaves [n] @ leaves ns" unfolding n by simp
  then have "label_safe (compile_node labels n)" "label_safe (compile_nodes labels ns)"
    using 18 by auto
  then show ?case unfolding compile_nodes.simps by (rule label_safe_then)
qed (simp only: compile_node.simps compile_nodes.simps, intro label_safe_intros)+

text \<open>The map of labels has every label of the body.\<close>

lemma label_pairs_keys:
  "{l. hm_get (fold (\<lambda>(l, b). hm_insert l b) ps labels) l \<noteq> None} = {l. hm_get labels l \<noteq> None} \<union> fst ` set ps"
  by (induction ps arbitrary: labels) (auto split: if_splits)

lemma label_safe_impl:
  assumes "(\<Union>k \<in> set (leaves ns). targets k) \<subseteq> set (labels_of ns)"
  shows "label_safe (compile_impl ns f)"
proof -
  have "label_safe (compile_nodes labels ns)"
    if "collect_label_blocks f ns [] s = Inr (labels, s')" for labels s s'
  proof (rule label_safe_nodes(2))
    have "fst ` set (label_pairs n ns) = set (labels_of ns)" for n
      unfolding label_pairs_def label_names_labels_of [symmetric] by (metis length_map length_upt diff_add_inverse map_fst_zip set_map)
    moreover have "labels = fold (\<lambda>(l, b). hm_insert l b) (label_pairs (length (cg_blocks s)) ns) []"
      using that by (simp add: collect_label_blocks_eq)
    ultimately have "{l. hm_get labels l \<noteq> None} = set (labels_of ns)"
      using label_pairs_keys [of "label_pairs (length (cg_blocks s)) ns" "[]"] by simp
    then show "(\<Union>k \<in> set (leaves ns). targets k) \<subseteq> {l. hm_get labels l \<noteq> None}" using assms by simp
  qed
  then show ?thesis
    unfolding compile_impl_def label_safe_def cg_bind_def
    by (auto simp: collect_label_blocks_eq split: sum.split)
qed

section \<open>Modules\<close>

lemma label_safe_declare [label_safe_intros]: "label_safe (declare_behaviors cs)"
  by (induction cs rule: declare_behaviors.induct)
    (auto simp: declare_external_behavior_def register_sig_def intro!: label_safe_intros)

lemma label_safe_bind_params [label_safe_intros]: "label_safe (bind_params i ps)"
  by (induction i ps rule: bind_params.induct) (auto intro!: label_safe_intros)

lemma label_safe_restoring [label_safe_intros]: "label_safe m \<Longrightarrow> label_safe (restoring m)"
  unfolding label_safe_def restoring_def by (auto split: sum.split)

lemma label_safe_functions [label_safe_intros]:
  "label_safe (enter_function f)" "label_safe create_root_scope" "label_safe (register_sig name sg)"
  "label_safe (register_fn name f)" "label_safe st \<Longrightarrow> label_safe (finish_function root st)"
  unfolding enter_function_def create_root_scope_def register_sig_def register_fn_def finish_function_def
  by (intro label_safe_intros; assumption?)+

lemma label_safe_compile_function:
  assumes "\<And>p ns. body_nodes p b = Some ns \<Longrightarrow>
    (\<Union>k \<in> set (leaves ns). targets k) \<subseteq> set (labels_of ns)"
  shows "label_safe (compile_function b full_name)"
proof -
  have body: "label_safe (case body_nodes p b of None \<Rightarrow> cg_ret () | Some nodes \<Rightarrow>
      cg_then (cg_modify (\<lambda>s. s\<lparr>cg_reassigned := collect_reassigned nodes\<rparr>)) (compile_impl nodes f))" for p f
    by (cases "body_nodes p b") (auto intro!: label_safe_intros label_safe_impl dest: assms)
  have "label_safe (compile_body b f)" for f
    unfolding compile_body_def by (intro body label_safe_then label_safe_bind label_safe_modify label_safe_gets)
  then have "label_safe (compile_function_body b f)" for f
    unfolding compile_function_body_def by (intro label_safe_intros)
  then show ?thesis unfolding compile_function_def by (intro label_safe_intros)
qed

text \<open>
  C14: a behavior the analyzer accepts, with one body, never stops code generation at an undefined
  label: on every platform and whatever the builder does, each jump and branch, in whatever scope,
  finds the block of its label.
\<close>

theorem accepted_labels_resolve:
  assumes "analyze sha256 hex_encode b dependencies patterns = Some (Inr ())"
    and "all_bodies b = [nodes]"
  shows "behavior_module B p contracts full_name b \<noteq> Inl (Fails (CgUndefinedLabel l))"
proof -
  have one: "bodies b = {nodes}" "all_labels b = labels_of nodes"
    using assms(2) by (auto simp: all_bodies_def bodies_def impl_body_def all_labels_def body_labels_def Cons_eq_append_conv
        split: option.splits list.splits)
  have "label_safe (compile_function b full_name)"
    by (rule label_safe_compile_function)
      (use accepted_targets [OF assms(1)] one assms(2) body_nodes_in in \<open>fastforce\<close>)
  then have "label_safe (cg_then (declare_behaviors (required_contracts contracts b)) (compile_function b full_name))"
    by (intro label_safe_intros)
  then show ?thesis unfolding behavior_module_def label_safe_def by blast
qed

section \<open>What is not promised\<close>

text \<open>
  C31: the analyzer looks at the first implementation only. Whatever the implementations for the other
  platforms are, the verdict on the behavior is the same.
\<close>

theorem later_implementations_unchecked:
  "analyze sha256 hex_encode (b\<lparr>b_implementations := i # js\<rparr>) dependencies patterns =
   analyze sha256 hex_encode (b\<lparr>b_implementations := [i]\<rparr>) dependencies patterns"
proof -
  let ?b = "b\<lparr>b_implementations := i # js\<rparr>" and ?c = "b\<lparr>b_implementations := [i]\<rparr>"
  have same: "impl_body ?b = impl_body ?c" "b_composition ?b = b_composition ?c"
    "context_new ?b = context_new ?c" "validate_contract sha256 hex_encode ?b = validate_contract sha256 hex_encode ?c"
    "validate_guarantees ?b = validate_guarantees ?c"
    by (simp_all add: impl_body_def context_new_def validate_contract_def validate_guarantees_def fun_eq_iff Let_def)
  have "collect_labels ?b = collect_labels ?c" "check_roles ?b = check_roles ?c"
    unfolding collect_labels_def check_roles_def same by (rule refl)+
  then show ?thesis unfolding analyze_def analyze_phases_def same by (simp only:)
qed

text \<open>
  A behavior with an implementation for Windows and one for Linux, the second with a jump to
  nowhere: the analyzer accepts it, code generation for Linux stops.
\<close>

definition two_platforms :: behavior where
  "two_platforms = (behavior_new ''two'')\<lparr>b_implementations :=
     [\<lparr>pi_platform = Some ''windows'', pi_nodes = [Node demo_line (Assignment ''v'' (IntLit 1))]\<rparr>,
      \<lparr>pi_platform = Some ''linux'', pi_nodes = [Node demo_line (Jump ''nowhere'')]\<rparr>]\<rparr>"

definition any_builder :: builder where
  "any_builder = (\<lambda>_. None)"

lemma two_platforms_accepted:
  "analyze sha256 hex_encode two_platforms [] [] = Some (Inr ())"
  by code_simp

text \<open>The blocks of a module, or why there is none.\<close>

definition module_code :: "cg_stop + nat \<times> cg \<Rightarrow> cg_stop + (string \<times> (nat \<times> linstr) list) list" where
  "module_code r = (case r of
       Inl e \<Rightarrow> Inl e
     | Inr (f, s) \<Rightarrow> Inr (map (\<lambda>b. (bk_name b, bk_code b)) (cg_blocks s)))"

lemma two_platforms_undefined_label:
  "module_code (behavior_module any_builder Linux [] ''two'' two_platforms) =
     Inl (Fails (CgUndefinedLabel ''nowhere''))"
  by code_simp

lemma accepted_labels_resolve_witness:
  "behavior_module any_builder Linux [] ''demo'' demo \<noteq> Inl (Fails (CgUndefinedLabel ''done''))"
  by (rule accepted_labels_resolve [OF demo_accepted])
    (simp add: all_bodies_def demo_def behavior_new_def)

end
