(* ===== verification/Sigil_Codegen_Types.thy ===== *)
theory Sigil_Codegen_Types
  imports Sigil_Codegen_Logic
begin

text \<open>
  Types of the generated code. LLVM requires the operands of an instruction to agree in type; the
  bindings check little of it and a release build of LLVM nothing, so the generator has to get it
  right. It does for programs that keep to a discipline of widths, given here as a check on the syntax
  tree: narrow integers (results of a \<^verbatim>\<open>LOAD\<close> of less than 8 bytes) may be computed
  with, compared, branched on, stored and passed, but not negated, nor used as offsets, atomics or
  handles.
\<close>

section \<open>Well-typed instructions\<close>

primrec fty_bits :: "fty \<Rightarrow> nat" where
  "fty_bits F32 = 32"
| "fty_bits F64 = 64"

primrec instr_typed :: "fun_decl list \<Rightarrow> linstr \<Rightarrow> bool" where
  "instr_typed fs (IBin o' a b) \<longleftrightarrow> fst a = fst b"
| "instr_typed fs (INot a) \<longleftrightarrow> True"
| "instr_typed fs (IFBin o' a b) \<longleftrightarrow> fst a = fst b"
| "instr_typed fs (IFNeg a) \<longleftrightarrow> True"
| "instr_typed fs (IIcmp p a b) \<longleftrightarrow> fst a = fst b"
| "instr_typed fs (IFcmp p a b) \<longleftrightarrow> fst a = fst b"
| "instr_typed fs (IZext a n) \<longleftrightarrow> fst a < n"
| "instr_typed fs (ISext a n) \<longleftrightarrow> fst a < n"
| "instr_typed fs (ITrunc a n) \<longleftrightarrow> n < fst a"
| "instr_typed fs (IFtoSI a n) \<longleftrightarrow> True"
| "instr_typed fs (ISItoF a n) \<longleftrightarrow> True"
| "instr_typed fs (IPtrToInt a n) \<longleftrightarrow> True"
| "instr_typed fs (IIntToPtr a) \<longleftrightarrow> True"
| "instr_typed fs (IFloatBits a n) \<longleftrightarrow> n = fty_bits (fst a)"
| "instr_typed fs (IAlloca t) \<longleftrightarrow> True"
| "instr_typed fs (IAllocaBytes n) \<longleftrightarrow> True"
| "instr_typed fs (IAllocaArray n m) \<longleftrightarrow> True"
| "instr_typed fs (ILoad t p) \<longleftrightarrow> True"
| "instr_typed fs (IStore v p) \<longleftrightarrow> True"
| "instr_typed fs (IGepByte p i) \<longleftrightarrow> True"
| "instr_typed fs (IGepElem n m p i j) \<longleftrightarrow> True"
| "instr_typed fs (IMemcpy p q i) \<longleftrightarrow> True"
| "instr_typed fs (ICall f vs) \<longleftrightarrow> f < length fs \<and> map lval_type vs = fd_params (fs ! f)"
| "instr_typed fs (ICmpxchg p a b) \<longleftrightarrow> fst a = fst b"
| "instr_typed fs (IExtract n m) \<longleftrightarrow> True"
| "instr_typed fs (IAtomicRmw o' p a) \<longleftrightarrow> True"
| "instr_typed fs (IBr b) \<longleftrightarrow> True"
| "instr_typed fs (ICondBr c b b') \<longleftrightarrow> fst c = 1"
| "instr_typed fs (IRet r) \<longleftrightarrow> True"
| "instr_typed fs IUnreachable \<longleftrightarrow> True"

declare instr_typed.simps(23) [simp del]

definition blocks_typed :: "fun_decl list \<Rightarrow> ir_block list \<Rightarrow> bool" where
  "blocks_typed fs bs \<longleftrightarrow> list_all (\<lambda>b. list_all (\<lambda>c. instr_typed fs (snd c)) (bk_code b)) bs"

definition code_typed :: "cg \<Rightarrow> bool" where
  "code_typed s \<longleftrightarrow> blocks_typed (cg_functions s) (cg_blocks s)"

section \<open>The discipline\<close>

text \<open>
  \<open>G\<close> holds the names that only ever hold full-width scalars, \<open>ar\<close> the number of inputs of the
  behaviors that can be called.
\<close>

fun wide_expr :: "string list \<Rightarrow> expr \<Rightarrow> bool" where
  "wide_expr G (IntLit n) \<longleftrightarrow> True"
| "wide_expr G (FloatLit f) \<longleftrightarrow> True"
| "wide_expr G (StringLit t) \<longleftrightarrow> True"
| "wide_expr G (Var x) \<longleftrightarrow> x \<in> set G"
| "wide_expr G (Field b f) \<longleftrightarrow> True"
| "wide_expr G (Load e n off) \<longleftrightarrow> n = 8"
| "wide_expr G (Alloc e t sh) \<longleftrightarrow> True"
| "wide_expr G (IArith op a b n) \<longleftrightarrow> wide_expr G a \<and> wide_expr G b"
| "wide_expr G (Ineg a n) \<longleftrightarrow> True"
| "wide_expr G (FArith op a b n) \<longleftrightarrow> wide_expr G a"
| "wide_expr G (Fneg a n) \<longleftrightarrow> wide_expr G a"
| "wide_expr G (ICmp op a b n) \<longleftrightarrow> True"
| "wide_expr G (FCmp op a b n) \<longleftrightarrow> True"
| "wide_expr G (Bitwise op a b n) \<longleftrightarrow> wide_expr G a \<and> wide_expr G b"
| "wide_expr G (BNot a n) \<longleftrightarrow> wide_expr G a"
| "wide_expr G (AtomicLoad e n) \<longleftrightarrow> n = 8"
| "wide_expr G (AtomicStore t v n) \<longleftrightarrow> wide_expr G v"
| "wide_expr G (Cas a e v n) \<longleftrightarrow> True"
| "wide_expr G (AtomicAdd t v n) \<longleftrightarrow> wide_expr G v"
| "wide_expr G (AtomicSub t v n) \<longleftrightarrow> wide_expr G v"
| "wide_expr G (Ftoi a n m) \<longleftrightarrow> m = 8"
| "wide_expr G (Itof a n m) \<longleftrightarrow> m \<noteq> 4"
| "wide_expr G (Call b args) \<longleftrightarrow> True"
| "wide_expr G (Channel t c) \<longleftrightarrow> True"
| "wide_expr G (ChannelReceive c) \<longleftrightarrow> True"
| "wide_expr G (Spawn p args) \<longleftrightarrow> True"
| "wide_expr G (Wait h) \<longleftrightarrow> True"

type_synonym arities = "(string \<times> nat) list"

fun disc_expr :: "arities \<Rightarrow> string list \<Rightarrow> expr \<Rightarrow> bool"
  and disc_offset :: "arities \<Rightarrow> string list \<Rightarrow> expr option \<Rightarrow> bool"
  and disc_args :: "arities \<Rightarrow> string list \<Rightarrow> expr list \<Rightarrow> bool" where
  "disc_expr ar G (IntLit n) \<longleftrightarrow> True"
| "disc_expr ar G (FloatLit f) \<longleftrightarrow> True"
| "disc_expr ar G (StringLit t) \<longleftrightarrow> True"
| "disc_expr ar G (Var x) \<longleftrightarrow> True"
| "disc_expr ar G (Field b f) \<longleftrightarrow> True"
| "disc_expr ar G (Load e n off) \<longleftrightarrow> disc_expr ar G e \<and> disc_offset ar G off"
| "disc_expr ar G (Alloc e t sh) \<longleftrightarrow> True"
| "disc_expr ar G (IArith op a b n) \<longleftrightarrow> disc_expr ar G a \<and> disc_expr ar G b"
| "disc_expr ar G (Ineg a n) \<longleftrightarrow> disc_expr ar G a \<and> wide_expr G a"
| "disc_expr ar G (FArith op a b n) \<longleftrightarrow>
     disc_expr ar G a \<and> disc_expr ar G b \<and> wide_expr G a \<and> wide_expr G b"
| "disc_expr ar G (Fneg a n) \<longleftrightarrow> disc_expr ar G a"
| "disc_expr ar G (ICmp op a b n) \<longleftrightarrow> disc_expr ar G a \<and> disc_expr ar G b"
| "disc_expr ar G (FCmp op a b n) \<longleftrightarrow>
     disc_expr ar G a \<and> disc_expr ar G b \<and> wide_expr G a \<and> wide_expr G b"
| "disc_expr ar G (Bitwise op a b n) \<longleftrightarrow> disc_expr ar G a \<and> disc_expr ar G b"
| "disc_expr ar G (BNot a n) \<longleftrightarrow> disc_expr ar G a"
| "disc_expr ar G (AtomicLoad e n) \<longleftrightarrow> disc_expr ar G e"
| "disc_expr ar G (AtomicStore t v n) \<longleftrightarrow> disc_expr ar G t \<and> disc_expr ar G v"
| "disc_expr ar G (Cas a e v n) \<longleftrightarrow>
     disc_expr ar G a \<and> disc_expr ar G e \<and> disc_expr ar G v \<and> wide_expr G e \<and> wide_expr G v"
| "disc_expr ar G (AtomicAdd t v n) \<longleftrightarrow> disc_expr ar G t \<and> disc_expr ar G v"
| "disc_expr ar G (AtomicSub t v n) \<longleftrightarrow> disc_expr ar G t \<and> disc_expr ar G v"
| "disc_expr ar G (Ftoi a n m) \<longleftrightarrow> disc_expr ar G a"
| "disc_expr ar G (Itof a n m) \<longleftrightarrow> disc_expr ar G a"
| "disc_expr ar G (Call b args) \<longleftrightarrow> map_of ar b = Some (length args) \<and> disc_args ar G args"
| "disc_expr ar G (Channel t c) \<longleftrightarrow> disc_expr ar G c \<and> wide_expr G c"
| "disc_expr ar G (ChannelReceive c) \<longleftrightarrow> c \<in> set G"
| "disc_expr ar G (Spawn p args) \<longleftrightarrow> disc_args ar G args \<and> list_all (wide_expr G) args"
| "disc_expr ar G (Wait h) \<longleftrightarrow> h \<in> set G"
| "disc_offset ar G None \<longleftrightarrow> True"
| "disc_offset ar G (Some e) \<longleftrightarrow> disc_expr ar G e \<and> wide_expr G e"
| "disc_args ar G [] \<longleftrightarrow> True"
| "disc_args ar G (a # as) \<longleftrightarrow> disc_expr ar G a \<and> disc_args ar G as"

fun disc_node :: "arities \<Rightarrow> string list \<Rightarrow> node \<Rightarrow> bool"
  and disc_nodes :: "arities \<Rightarrow> string list \<Rightarrow> node list \<Rightarrow> bool" where
  "disc_node ar G (Node sp (Label l)) \<longleftrightarrow> True"
| "disc_node ar G (Node sp (Assignment x e)) \<longleftrightarrow> disc_expr ar G e \<and> (x \<in> set G \<longrightarrow> wide_expr G e)"
| "disc_node ar G (Node sp (Store t e n off)) \<longleftrightarrow> disc_expr ar G e \<and> disc_offset ar G off"
| "disc_node ar G (Node sp (Jump l)) \<longleftrightarrow> True"
| "disc_node ar G (Node sp (Branch c t f)) \<longleftrightarrow> disc_expr ar G c"
| "disc_node ar G (Node sp (Set x e)) \<longleftrightarrow> disc_expr ar G e \<and> (x \<in> set G \<longrightarrow> wide_expr G e)"
| "disc_node ar G (Node sp (CallNode t b args outs)) \<longleftrightarrow>
     disc_expr ar G (Call b args) \<and> list_all (\<lambda>x. x \<notin> set G) outs"
| "disc_node ar G (Node sp (Free x)) \<longleftrightarrow> True"
| "disc_node ar G (Node sp (Discard e)) \<longleftrightarrow> True"
| "disc_node ar G (Node sp (Scope ns)) \<longleftrightarrow> disc_nodes ar G ns"
| "disc_node ar G (Node sp (ChannelSend c e)) \<longleftrightarrow> c \<in> set G \<and> disc_expr ar G e"
| "disc_node ar G (Node sp (ChannelClose c)) \<longleftrightarrow> c \<in> set G"
| "disc_node ar G (Node sp (SpawnNode x p args)) \<longleftrightarrow> disc_expr ar G (Spawn p args)"
| "disc_node ar G (Node sp (WaitNode x h)) \<longleftrightarrow> h \<in> set G"
| "disc_node ar G (Node sp (WaitAll xs hs)) \<longleftrightarrow> list_all (\<lambda>h. h \<in> set G) hs"
| "disc_node ar G (Node sp (WaitAny r w hs)) \<longleftrightarrow> list_all (\<lambda>h. h \<in> set G) hs"
| "disc_nodes ar G [] \<longleftrightarrow> True"
| "disc_nodes ar G (n # ns) \<longleftrightarrow> disc_node ar G n \<and> disc_nodes ar G ns"

section \<open>The invariant\<close>

definition wide_val :: "sval \<Rightarrow> bool" where
  "wide_val v \<longleftrightarrow> (case v of SHandle h \<Rightarrow> True | SImm i \<Rightarrow> fst i = 64 | SFlt f \<Rightarrow> fst f = F64)"

lemma wide_val_simps [simp]:
  "wide_val (SHandle h)" "wide_val (SImm i) \<longleftrightarrow> fst i = 64" "wide_val (SFlt f) \<longleftrightarrow> fst f = F64"
  by (simp_all add: wide_val_def)

lemma int_bits_8 [simp]: "int_bits 8 = 64"
  by (simp add: int_bits_def)

definition runtime_funs :: "(string \<times> lty list \<times> lty option) list" where
  "runtime_funs =
     [(''abort'', [], None), (''sigil_spawn'', [LPtr, LPtr, LInt 64], Some (LInt 64)),
      (''sigil_wait'', [LInt 64, LPtr, LInt 64], None),
      (''sigil_wait_any'', [LPtr, LInt 64, LPtr, LInt 64], Some (LInt 64)),
      (''sigil_channel_create'', [LInt 64, LInt 64], Some (LInt 64)),
      (''sigil_scope_create'', [LPtr], Some LPtr), (''sigil_scope_alloc'', [LPtr, LInt 64], Some LPtr),
      (''sigil_scope_free'', [LPtr, LPtr], None), (''sigil_scope_destroy'', [LPtr], None),
      (''sigil_channel_send'', [LInt 64, LPtr], Some (LInt 64)),
      (''sigil_channel_receive'', [LInt 64, LPtr], Some (LInt 64)),
      (''sigil_channel_close'', [LInt 64], None)]"

definition decl_as :: "fun_decl list \<Rightarrow> nat \<Rightarrow> lty list \<times> lty option \<Rightarrow> bool" where
  "decl_as fs f t \<longleftrightarrow> f < length fs \<and> fd_params (fs ! f) = fst t \<and> fd_ret (fs ! f) = snd t"

lemma decl_as_append: "decl_as fs f t \<Longrightarrow> decl_as (fs @ gs) f t"
  by (auto simp: decl_as_def nth_append)

definition runtime_ok :: "fun_decl list \<Rightarrow> bool" where
  "runtime_ok fs \<longleftrightarrow> (\<forall>r t f. map_of runtime_funs r = Some t \<longrightarrow> function_index r fs = Some f \<longrightarrow>
     decl_as fs f t)"

definition callee_index :: "(string, nat) hmap \<Rightarrow> fun_decl list \<Rightarrow> string \<Rightarrow> nat option" where
  "callee_index fns fs b = (case hm_get fns b of
       Some f \<Rightarrow> Some f
     | None \<Rightarrow> function_index (mangle b) fs)"

definition callable ::
  "(string, nat) hmap \<Rightarrow> (string, behavior_sig) hmap \<Rightarrow> fun_decl list \<Rightarrow> string \<Rightarrow> nat \<Rightarrow> bool" where
  "callable fns sigs fs b k \<longleftrightarrow> (\<exists>f sg. callee_index fns fs b = Some f \<and> hm_get sigs b = Some sg
     \<and> decl_as fs f (replicate (k + length (bs_outputs sg)) LPtr, None)
     \<and> (bs_outputs sg \<noteq> [] \<longrightarrow> total_output_size sg > 0))"

definition callables ::
  "arities \<Rightarrow> (string, nat) hmap \<Rightarrow> (string, behavior_sig) hmap \<Rightarrow> fun_decl list \<Rightarrow> bool" where
  "callables ar fns sigs fs \<longleftrightarrow> (\<forall>b k. map_of ar b = Some k \<longrightarrow> callable fns sigs fs b k)"

definition wide_slot :: "pval \<times> lty \<Rightarrow> bool" where
  "wide_slot pt \<longleftrightarrow> snd pt = LInt 64 \<or> snd pt = LFloat F64"

definition all_wide :: "string list \<Rightarrow> ('v \<Rightarrow> bool) \<Rightarrow> (string, 'v) hmap \<Rightarrow> bool" where
  "all_wide G P m \<longleftrightarrow> (\<forall>x v. x \<in> set G \<longrightarrow> hm_get m x = Some v \<longrightarrow> P v)"

type_synonym known_funs = "(nat \<times> lty list \<times> lty option) set"

definition knowns :: "known_funs \<Rightarrow> fun_decl list \<Rightarrow> bool" where
  "knowns K fs \<longleftrightarrow> (\<forall>(f, t) \<in> K. decl_as fs f t)"

definition typed_inv :: "arities \<Rightarrow> string list \<Rightarrow> known_funs \<Rightarrow> cg \<Rightarrow> bool" where
  "typed_inv ar G K s \<longleftrightarrow> blocks_typed (cg_functions s) (cg_blocks s)
     \<and> all_wide G wide_val (cg_variables s) \<and> all_wide G wide_slot (cg_mutable_slots s)
     \<and> runtime_ok (cg_functions s)
     \<and> callables ar (cg_behavior_fns s) (cg_behavior_sigs s) (cg_functions s)
     \<and> knowns K (cg_functions s)"

lemma all_wide_insert: "all_wide G P m \<Longrightarrow> (x \<in> set G \<longrightarrow> P v) \<Longrightarrow> all_wide G P (hm_insert x v m)"
  by (simp add: all_wide_def)

lemma all_wide_empty [simp]: "all_wide G P []"
  by (simp add: all_wide_def)

lemma typed_inv_frames [simp]:
  "typed_inv ar G K (s\<lparr>cg_pos := b\<rparr>) = typed_inv ar G K s"
  "typed_inv ar G K (s\<lparr>cg_globals := gs\<rparr>) = typed_inv ar G K s"
  "typed_inv ar G K (s\<lparr>cg_call_outputs := co\<rparr>) = typed_inv ar G K s"
  "typed_inv ar G K (s\<lparr>cg_current_scope := sc\<rparr>) = typed_inv ar G K s"
  "typed_inv ar G K (s\<lparr>cg_current_function := fn\<rparr>) = typed_inv ar G K s"
  "typed_inv ar G K (s\<lparr>cg_reassigned := re\<rparr>) = typed_inv ar G K s"
  "typed_inv ar G K (s\<lparr>cg_next := n\<rparr>) = typed_inv ar G K s"
  "typed_inv ar G K (s\<lparr>cg_blocks := bs, cg_next := n\<rparr>) = typed_inv ar G K (s\<lparr>cg_blocks := bs\<rparr>)"
  by (simp_all add: typed_inv_def)

section \<open>Every computation keeps it\<close>

named_theorems cg_typed \<open>computations of the code generator keep the typing invariant\<close>

lemma typed_weaken: "typed_inv ar G K' s \<Longrightarrow> K \<subseteq> K' \<Longrightarrow> typed_inv ar G K s"
  unfolding typed_inv_def knowns_def by blast

lemma typed_weaken_insert [cg_typed]: "typed_inv ar G (insert t K) s \<Longrightarrow> typed_inv ar G K s"
  by (erule typed_weaken) blast

lemma typed_variable: "typed_inv ar G K s \<Longrightarrow> hm_get (cg_variables s) x = Some v \<Longrightarrow> x \<in> set G \<Longrightarrow> wide_val v"
  by (simp add: typed_inv_def all_wide_def)

lemma typed_slot: "typed_inv ar G K s \<Longrightarrow> hm_get (cg_mutable_slots s) x = Some pt \<Longrightarrow> x \<in> set G \<Longrightarrow> wide_slot pt"
  unfolding typed_inv_def all_wide_def by blast

lemma typed_known: "typed_inv ar G K s \<Longrightarrow> (f, t) \<in> K \<Longrightarrow> decl_as (cg_functions s) f t"
  by (auto simp: typed_inv_def knowns_def)

lemma typed_known_ret: "typed_inv ar G K s \<Longrightarrow> (f, ps, r) \<in> K \<Longrightarrow> fd_ret (cg_functions s ! f) = r"
  by (drule (1) typed_known) (simp add: decl_as_def)

lemma typed_call:
  "typed_inv ar G K s \<Longrightarrow> (f, ps, r) \<in> K \<Longrightarrow> map lval_type vs = ps \<Longrightarrow> instr_typed (cg_functions s) (ICall f vs)"
  by (drule (1) typed_known) (simp add: decl_as_def instr_typed.simps(23))

lemma typed_call_new [cg_typed]:
  "typed_inv ar G (insert (f, ps, r) K) s \<Longrightarrow> map lval_type vs = ps \<Longrightarrow> instr_typed (cg_functions s) (ICall f vs)"
  by (erule typed_call) auto

lemma list_all_update: "list_all P xs \<Longrightarrow> P x \<Longrightarrow> list_all P (xs[i := x])"
  by (induction xs arbitrary: i) (auto split: nat.split)

lemma list_all_nth: "list_all P xs \<Longrightarrow> i < length xs \<Longrightarrow> P (xs ! i)"
  by (simp add: list_all_length)

lemma blocks_typed_add_instr:
  assumes bs: "blocks_typed fs bs" and t: "instr_typed fs ins"
  shows "blocks_typed fs (add_instr i n ins bs)"
proof (cases "i < length bs")
  case True
  then show ?thesis using bs list_all_nth [OF bs [unfolded blocks_typed_def] True] t
    unfolding blocks_typed_def add_instr_def by (intro list_all_update) simp_all
next
  case False
  then show ?thesis using bs by (simp add: add_instr_def list_update_beyond)
qed

lemma wp_emit [cg_typed]:
  assumes i: "typed_inv ar G K s" and t': "typed_inv ar G K s \<Longrightarrow> instr_typed (cg_functions s) ins"
    and k: "\<And>n s'. typed_inv ar G K s' \<Longrightarrow> Q n s'"
  shows "cg_wp (emit ins) Q s"
proof -
  note t = t' [OF i]
  have "typed_inv ar G K (s\<lparr>cg_blocks := add_instr b (cg_next s) ins (cg_blocks s)\<rparr>)" for b
    using i t blocks_typed_add_instr unfolding typed_inv_def by simp
  then show ?thesis using k by (auto simp: cg_wp_def emit_def split: option.split)
qed

lemma runtime_ok_add:
  assumes "runtime_ok fs" and "map_of runtime_funs (fd_name d) = Some (fd_params d, fd_ret d) \<or>
     map_of runtime_funs (fd_name d) = None"
  shows "runtime_ok (fs @ [d])"
  using assms unfolding runtime_ok_def
  by (auto simp: function_index_append decl_as_append decl_as_def nth_append split: option.splits)

lemma typed_inv_add_function:
  assumes i: "typed_inv ar G K s" and d: "map_of runtime_funs (fd_name d) = Some (fd_params d, fd_ret d) \<or>
     map_of runtime_funs (fd_name d) = None"
  shows "typed_inv ar G (insert (length (cg_functions s), fd_params d, fd_ret d) K)
     (s\<lparr>cg_functions := cg_functions s @ [d]\<rparr>)"
proof -
  have t: "instr_typed (cg_functions s) ins \<Longrightarrow> instr_typed (cg_functions s @ [d]) ins" for ins
    by (cases ins) (auto simp: nth_append instr_typed.simps(23))
  have "blocks_typed (cg_functions s @ [d]) (cg_blocks s)"
    using i t unfolding typed_inv_def blocks_typed_def by (auto simp: list_all_iff)
  moreover have "callable fns sigs fs b k \<Longrightarrow> callable fns sigs (fs @ [d]) b k" for fns sigs fs b k
    by (fastforce simp: callable_def callee_index_def function_index_append decl_as_append split: option.splits)
  then have "callables ar (cg_behavior_fns s) (cg_behavior_sigs s) (cg_functions s @ [d])"
    using i by (simp add: typed_inv_def callables_def)
  moreover have "decl_as (cg_functions s @ [d]) (length (cg_functions s)) (fd_params d, fd_ret d)"
    by (simp add: decl_as_def)
  then have "knowns (insert (length (cg_functions s), fd_params d, fd_ret d) K) (cg_functions s @ [d])"
    using i by (auto simp: typed_inv_def knowns_def decl_as_append)
  ultimately show ?thesis
    using i runtime_ok_add [OF _ d] unfolding typed_inv_def by simp
qed

lemma wp_get_or_declare [cg_typed]:
  assumes i: "typed_inv ar G K s" and r: "map_of runtime_funs name = Some (ps, rt)"
    and k: "\<And>f s'. typed_inv ar G (insert (f, ps, rt) K) s' \<Longrightarrow> Q f s'"
  shows "cg_wp (get_or_declare name ps rt) Q s"
proof (cases "function_index name (cg_functions s)")
  case (Some f)
  then have "typed_inv ar G (insert (f, ps, rt) K) s"
    using i r unfolding typed_inv_def runtime_ok_def knowns_def by auto
  then show ?thesis using Some k by (simp add: get_or_declare_def cg_wp_simps)
next
  case None
  then show ?thesis
    using k typed_inv_add_function [OF i, of "\<lparr>fd_name = name, fd_params = ps, fd_ret = rt\<rparr>"] r
    by (simp add: get_or_declare_def cg_wp_simps add_function_def) (simp add: cg_wp_def)
qed

lemma runtime_lookups [simp]:
  "map_of runtime_funs ''abort'' = Some ([], None)"
  "map_of runtime_funs ''sigil_spawn'' = Some ([LPtr, LPtr, LInt 64], Some (LInt 64))"
  "map_of runtime_funs ''sigil_wait'' = Some ([LInt 64, LPtr, LInt 64], None)"
  "map_of runtime_funs ''sigil_wait_any'' = Some ([LPtr, LInt 64, LPtr, LInt 64], Some (LInt 64))"
  "map_of runtime_funs ''sigil_channel_create'' = Some ([LInt 64, LInt 64], Some (LInt 64))"
  "map_of runtime_funs ''sigil_scope_create'' = Some ([LPtr], Some LPtr)"
  "map_of runtime_funs ''sigil_scope_alloc'' = Some ([LPtr, LInt 64], Some LPtr)"
  "map_of runtime_funs ''sigil_scope_free'' = Some ([LPtr, LPtr], None)"
  "map_of runtime_funs ''sigil_scope_destroy'' = Some ([LPtr], None)"
  "map_of runtime_funs ''sigil_channel_send'' = Some ([LInt 64, LPtr], Some (LInt 64))"
  "map_of runtime_funs ''sigil_channel_receive'' = Some ([LInt 64, LPtr], Some (LInt 64))"
  "map_of runtime_funs ''sigil_channel_close'' = Some ([LInt 64], None)"
  by (simp_all add: runtime_funs_def)

lemma wp_append_basic_block [cg_typed]:
  assumes "typed_inv ar G K s" and "\<And>b s'. typed_inv ar G K s' \<Longrightarrow> Q b s'"
  shows "cg_wp (append_basic_block f name) Q s"
proof -
  have "typed_inv ar G K (s\<lparr>cg_blocks := cg_blocks s @ [\<lparr>bk_fun = f, bk_name = name, bk_code = []\<rparr>]\<rparr>)"
    using assms(1) unfolding typed_inv_def blocks_typed_def by simp
  then show ?thesis using assms(2) by (simp add: cg_wp_def append_basic_block_def)
qed

lemma wp_add_global [cg_typed]:
  assumes "typed_inv ar G K s" and "\<And>p s'. typed_inv ar G K s' \<Longrightarrow> Q p s'"
  shows "cg_wp (add_global bytes) Q s"
  using assms by (simp add: cg_wp_def add_global_def)

lemma wp_set_variable [cg_typed]:
  assumes "typed_inv ar G K s" "x \<in> set G \<longrightarrow> wide_val v" and "\<And>s'. typed_inv ar G K s' \<Longrightarrow> Q () s'"
  shows "cg_wp (set_variable x v) Q s"
  using assms unfolding set_variable_def cg_wp_modify typed_inv_def by (simp add: all_wide_insert)

lemma wp_resize_int [cg_typed]:
  assumes "typed_inv ar G K s" and "\<And>r s'. typed_inv ar G K s' \<Longrightarrow> fst r = dst \<Longrightarrow> Q r s'"
  shows "cg_wp (resize_int v dst) Q s"
  using assms by (cases v) (auto simp: resize_int_def cg_wp_simps elim!: cg_typed)

lemma wp_normalize [cg_typed]:
  assumes "typed_inv ar G K s"
    and "\<And>r s'. typed_inv ar G K s' \<Longrightarrow> fst (fst r) = max (fst a) (fst b) \<Longrightarrow> fst (snd r) = max (fst a) (fst b) \<Longrightarrow> Q r s'"
  shows "cg_wp (normalize_int_types a b) Q s"
  using assms by (cases a; cases b) (auto simp: normalize_int_types_def cg_wp_simps elim!: cg_typed)

lemma wp_position_at_end [cg_typed]:
  assumes "typed_inv ar G K s" and "\<And>s'. typed_inv ar G K s' \<Longrightarrow> Q () s'"
  shows "cg_wp (position_at_end b) Q s"
  using assms by (simp add: cg_wp_position_at_end)

lemma wp_lookup_variable [cg_typed]:
  assumes "typed_inv ar G K s" and "\<And>v. typed_inv ar G K s \<Longrightarrow> x \<in> set G \<longrightarrow> wide_val v \<Longrightarrow> Q v s"
  shows "cg_wp (lookup_variable x) Q s"
  using assms typed_variable [OF assms(1)] by (simp add: cg_wp_lookup_variable)

lemma wp_handle_variable [cg_typed]:
  assumes "typed_inv ar G K s" and "\<And>h. typed_inv ar G K s \<Longrightarrow> Q h s"
  shows "cg_wp (handle_variable x) Q s"
  using assms by (simp add: cg_wp_handle_variable)

lemma wp_call_int [cg_typed]:
  assumes i: "typed_inv ar G (insert (f, ps, Some (LInt 64)) K) s" and vs: "map lval_type vs = ps"
    and k: "\<And>i s'. typed_inv ar G K s' \<Longrightarrow> fst i = 64 \<Longrightarrow> Q i s'"
  shows "cg_wp (call_int f vs) Q s"
proof -
  have "cg_wp (cg_bind (cg_gets (\<lambda>s. fd_ret (cg_functions s ! f))) (\<lambda>r. case r of
     None \<Rightarrow> cg_ret (i64_const 0) | Some t \<Rightarrow> (case t of LInt b \<Rightarrow> cg_ret (b, RInstr n) | _ \<Rightarrow> cg_panic))) Q s'"
    if s': "typed_inv ar G (insert (f, ps, Some (LInt 64)) K) s'" for n s'
    using typed_known_ret [OF s', of f ps "Some (LInt 64)"]
      k [OF typed_weaken_insert [OF s'], of "(64, RInstr n)"]
    by (simp add: cg_wp_simps)
  then show ?thesis using i vs unfolding call_int_def cg_wp_bind
    by (elim wp_emit) (auto elim!: typed_call_new)
qed

lemma wp_call_ptr [cg_typed]:
  assumes i: "typed_inv ar G (insert (f, ps, Some LPtr) K) s" and vs: "map lval_type vs = ps"
    and k: "\<And>p s'. typed_inv ar G K s' \<Longrightarrow> Q p s'"
  shows "cg_wp (call_ptr f vs msg) Q s"
  using i vs unfolding call_ptr_def
  by (auto simp: cg_wp_simps elim!: cg_typed intro!: k)

lemma wp_bounds_check [cg_typed]:
  assumes "typed_inv ar G K s" "fst off = 64" and "\<And>s'. typed_inv ar G K s' \<Longrightarrow> Q () s'"
  shows "cg_wp (emit_bounds_check off n m f) Q s"
  using assms(1,2) unfolding emit_bounds_check_def runtime_defs
  by (auto simp: cg_wp_simps i64_const_def elim!: cg_typed intro!: assms(3))

lemma wp_dynamic_bounds_check [cg_typed]:
  assumes "typed_inv ar G K s" "\<forall>i. off = ODynamic i \<longrightarrow> fst i = 64"
    and "\<And>s'. typed_inv ar G K s' \<Longrightarrow> Q () s'"
  shows "cg_wp (dynamic_bounds_check h n off) Q s"
  using assms unfolding dynamic_bounds_check_def by (auto simp: cg_wp_simps elim!: cg_typed)

lemma wp_alloc_handle [cg_typed]:
  assumes "typed_inv ar G K s" and "\<And>h s'. typed_inv ar G K s' \<Longrightarrow> Q h s'"
  shows "cg_wp (alloc_handle n t) Q s"
  using assms unfolding alloc_handle_def by (auto simp: cg_wp_simps elim!: cg_typed)

lemma wp_scope_alloc_handle [cg_typed]:
  assumes "typed_inv ar G K s" and k: "\<And>h s'. typed_inv ar G K s' \<Longrightarrow> Q h s'"
  shows "cg_wp (scope_alloc_handle n t) Q s"
  using assms(1) unfolding scope_alloc_handle_def runtime_defs
  by (auto simp: cg_wp_simps i64_const_def elim!: cg_typed intro!: k)

lemma wp_gep_at [cg_typed]:
  assumes "typed_inv ar G K s" and "\<And>p s'. typed_inv ar G K s' \<Longrightarrow> Q p s'"
  shows "cg_wp (gep_at p off) Q s"
  using assms unfolding gep_at_def by (auto simp: cg_wp_simps elim!: cg_typed)

lemma wp_access_ptr [cg_typed]:
  assumes "typed_inv ar G K s" and "\<And>p s'. typed_inv ar G K s' \<Longrightarrow> Q p s'"
  shows "cg_wp (access_ptr h off) Q s"
  using assms unfolding access_ptr_def by (auto simp: cg_wp_simps elim!: cg_typed)

definition wide_offset :: "offset \<Rightarrow> bool" where
  "wide_offset off \<longleftrightarrow> (\<forall>i. off = ODynamic i \<longrightarrow> fst i = 64)"

lemma wide_offset_simps [simp]: "wide_offset (OConst c)" "wide_offset (ODynamic i) \<longleftrightarrow> fst i = 64"
  by (simp_all add: wide_offset_def)

lemma wp_load_handle [cg_typed]:
  assumes "typed_inv ar G K s" "wide_offset off"
    and "\<And>v s'. typed_inv ar G K s' \<Longrightarrow> n = 8 \<longrightarrow> wide_val v \<Longrightarrow> Q v s'"
  shows "cg_wp (load_handle h n off) Q s"
  using assms unfolding load_handle_def wide_offset_def
  by (auto simp: cg_wp_simps Let_def elim!: cg_typed)

lemma wp_store_handle [cg_typed]:
  assumes "typed_inv ar G K s" "wide_offset off" and "\<And>s'. typed_inv ar G K s' \<Longrightarrow> Q () s'"
  shows "cg_wp (store_handle h v n off) Q s"
  using assms unfolding store_handle_def wide_offset_def
  by (auto simp: cg_wp_simps elim!: cg_typed)

lemma wp_immediate_to_handle [cg_typed]:
  assumes "typed_inv ar G K s" and "\<And>h s'. typed_inv ar G K s' \<Longrightarrow> Q h s'"
  shows "cg_wp (immediate_to_handle v) Q s"
  using assms unfolding immediate_to_handle_def by (auto simp: cg_wp_simps elim!: cg_typed)

lemma wp_get_field [cg_typed]:
  assumes "typed_inv ar G K s" and "\<And>h s'. typed_inv ar G K s' \<Longrightarrow> Q h s'"
  shows "cg_wp (get_field co f) Q s"
  using assms unfolding get_field_def by (auto simp: cg_wp_simps elim!: cg_typed)

lemma wp_pointer_or_handle [cg_typed]:
  assumes "typed_inv ar G K s" and "\<And>h s'. typed_inv ar G K s' \<Longrightarrow> Q h s'"
  shows "cg_wp (pointer_or_handle msg v) Q s"
  using assms unfolding pointer_or_handle_def by (auto simp: cg_wp_simps elim!: cg_typed)

lemma wp_get_var [cg_typed]:
  assumes "typed_inv ar G K s" and "\<And>v s'. typed_inv ar G K s' \<Longrightarrow> x \<in> set G \<longrightarrow> wide_val v \<Longrightarrow> Q v s'"
  shows "cg_wp (cg_get_var x) Q s"
  using assms typed_slot [OF assms(1)] typed_variable [OF assms(1)] unfolding cg_get_var_def
  by (fastforce simp: cg_wp_simps cg_value_simps wide_slot_def elim!: cg_typed)

lemma wp_compile_field [cg_typed]:
  assumes "typed_inv ar G K s" and "\<And>v s'. typed_inv ar G K s' \<Longrightarrow> wide_val v \<Longrightarrow> Q v s'"
  shows "cg_wp (compile_field x f) Q s"
  using assms unfolding compile_field_def by (auto simp: cg_wp_simps elim!: cg_typed)

lemma wp_compile_string_lit [cg_typed]:
  assumes "typed_inv ar G K s" and "\<And>v s'. typed_inv ar G K s' \<Longrightarrow> wide_val v \<Longrightarrow> Q v s'"
  shows "cg_wp (compile_string_lit t) Q s"
  using assms unfolding compile_string_lit_def by (auto simp: cg_wp_simps Let_def elim!: cg_typed)

lemma wp_slot_pointers:
  assumes "typed_inv ar G K s"
    and "\<And>ps s'. typed_inv ar G K s' \<Longrightarrow> length ps = length sls \<Longrightarrow> Q ps s'"
  shows "cg_wp (slot_pointers p sls) Q s"
  using assms
proof (induction sls arbitrary: s Q)
  case Nil
  then show ?case by (simp add: cg_wp_simps)
next
  case (Cons sl sls)
  show ?case using Cons.prems
    by (auto simp: cg_wp_simps elim!: cg_typed intro!: Cons.IH)
qed

lemma wp_spawn_arg [cg_typed]:
  assumes "typed_inv ar G K s" "wide_val v" and "\<And>s'. typed_inv ar G K s' \<Longrightarrow> Q () s'"
  shows "cg_wp (spawn_arg buf i v) Q s"
  using assms unfolding spawn_arg_def by (auto simp: cg_wp_simps elim!: cg_typed)

lemma wp_spawn_buffer [cg_typed]:
  assumes "typed_inv ar G K s" and "\<And>h s'. typed_inv ar G K s' \<Longrightarrow> Q h s'"
  shows "cg_wp (spawn_buffer p n) Q s"
  using assms unfolding spawn_buffer_def by (auto simp: cg_wp_simps elim!: cg_typed)

lemma wp_compile_wait [cg_typed]:
  assumes i: "typed_inv ar G K s" and x: "x \<in> set G"
    and k: "\<And>v s'. typed_inv ar G K s' \<Longrightarrow> wide_val v \<Longrightarrow> Q v s'"
  shows "cg_wp (compile_wait x) Q s"
  using i x unfolding compile_wait_def runtime_defs
  by (auto simp: cg_wp_simps cg_value_simps i64_const_def elim!: cg_typed intro!: k)

lemma wp_compile_channel_receive [cg_typed]:
  assumes i: "typed_inv ar G K s" and x: "x \<in> set G"
    and k: "\<And>v s'. typed_inv ar G K s' \<Longrightarrow> wide_val v \<Longrightarrow> Q v s'"
  shows "cg_wp (compile_channel_receive x) Q s"
  using i x unfolding compile_channel_receive_def runtime_defs
  by (auto simp: cg_wp_simps cg_value_simps i64_const_def elim!: cg_typed intro!: k)

subsection \<open>Expressions\<close>

text \<open>What an expression yields: a wide one only full-width scalars.\<close>

definition yields :: "arities \<Rightarrow> string list \<Rightarrow> sval cgm \<Rightarrow> bool \<Rightarrow> bool" where
  "yields ar G m w \<longleftrightarrow> (\<forall>K s Q. typed_inv ar G K s \<longrightarrow>
     (\<forall>v s'. typed_inv ar G K s' \<longrightarrow> (w \<longrightarrow> wide_val v) \<longrightarrow> Q v s') \<longrightarrow> cg_wp m Q s)"

lemma yieldsI:
  assumes "\<And>K s Q. typed_inv ar G K s \<Longrightarrow>
     (\<And>v s'. typed_inv ar G K s' \<Longrightarrow> w \<longrightarrow> wide_val v \<Longrightarrow> Q v s') \<Longrightarrow> cg_wp m Q s"
  shows "yields ar G m w"
  using assms unfolding yields_def by blast

lemma wp_yields:
  assumes "typed_inv ar G K s" "yields ar G m w"
    and "\<And>v s'. typed_inv ar G K s' \<Longrightarrow> w \<longrightarrow> wide_val v \<Longrightarrow> Q v s'"
  shows "cg_wp m Q s"
  using assms unfolding yields_def by blast

lemma yields_int_binop:
  assumes "yields ar G ma wa" "yields ar G mb wb"
  shows "yields ar G (compile_int_binop ma mb op) (wa \<and> wb)"
  unfolding compile_int_binop_def
  by (intro yieldsI)
    (auto simp: cg_wp_simps cg_value_simps elim!: cg_typed wp_yields [OF _ assms(1)] wp_yields [OF _ assms(2)])

lemma yields_int_cmp:
  assumes "yields ar G ma wa" "yields ar G mb wb"
  shows "yields ar G (compile_int_cmp ma mb pred) True"
  unfolding compile_int_cmp_def
  by (intro yieldsI)
    (auto simp: cg_wp_simps cg_value_simps elim!: cg_typed wp_yields [OF _ assms(1)] wp_yields [OF _ assms(2)])

lemma yields_float_binop:
  assumes "yields ar G ma True" "yields ar G mb True"
  shows "yields ar G (compile_float_binop ma mb op) True"
  unfolding compile_float_binop_def
  by (intro yieldsI)
    (auto simp: cg_wp_simps cg_value_simps elim!: cg_typed wp_yields [OF _ assms(1)] wp_yields [OF _ assms(2)])

lemma yields_float_cmp:
  assumes "yields ar G ma True" "yields ar G mb True"
  shows "yields ar G (compile_float_cmp ma mb pred) True"
  unfolding compile_float_cmp_def
  by (intro yieldsI)
    (auto simp: cg_wp_simps cg_value_simps elim!: cg_typed wp_yields [OF _ assms(1)] wp_yields [OF _ assms(2)])

lemma yields_load:
  assumes "yields ar G ma w"
    and off: "\<And>K s Q. typed_inv ar G K s \<Longrightarrow>
      (\<And>off s'. typed_inv ar G K s' \<Longrightarrow> wide_offset off \<Longrightarrow> Q off s') \<Longrightarrow> cg_wp moff Q s"
  shows "yields ar G (compile_load ma n moff) (n = 8)"
  unfolding compile_load_def
  by (intro yieldsI) (auto simp: cg_wp_simps elim!: cg_typed off wp_yields [OF _ assms(1)])

lemma yields_cas:
  assumes "yields ar G ma wa" "yields ar G mb True" "yields ar G mc True"
  shows "yields ar G (compile_cas ma mb mc) True"
  unfolding compile_cas_def
  by (intro yieldsI) (auto simp: cg_wp_simps cg_value_simps
    elim!: cg_typed wp_yields [OF _ assms(1)] wp_yields [OF _ assms(2)] wp_yields [OF _ assms(3)])

lemma yields_rmw:
  assumes "yields ar G ma wa" "yields ar G mb wb"
  shows "yields ar G (compile_rmw ma mb op) wb"
  unfolding compile_rmw_def
  by (intro yieldsI)
    (auto simp: cg_wp_simps cg_value_simps elim!: cg_typed wp_yields [OF _ assms(1)] wp_yields [OF _ assms(2)])

lemma yields_channel:
  assumes "yields ar G ma True"
  shows "yields ar G (compile_channel ma) True"
  unfolding compile_channel_def runtime_defs
  by (intro yieldsI)
    (auto simp: cg_wp_simps cg_value_simps i64_const_def elim!: cg_typed wp_yields [OF _ assms(1)])

lemma wp_sig_of:
  assumes i: "typed_inv ar G K s" and ar: "map_of ar b = Some k"
    and k: "\<And>f sg. typed_inv ar G (insert (f, replicate (k + length (bs_outputs sg)) LPtr, None) K) s \<Longrightarrow>
      bs_outputs sg \<noteq> [] \<longrightarrow> total_output_size sg > 0 \<Longrightarrow> cg_wp (m f sg) Q s"
  shows "cg_wp (cg_bind (callee_of b) (\<lambda>f. cg_bind (sig_of b n) (m f))) Q s"
proof -
  obtain f sg where c: "callee_index (cg_behavior_fns s) (cg_functions s) b = Some f"
    "hm_get (cg_behavior_sigs s) b = Some sg"
    "decl_as (cg_functions s) f (replicate (k + length (bs_outputs sg)) LPtr, None)"
    "bs_outputs sg \<noteq> [] \<longrightarrow> total_output_size sg > 0"
    using i ar unfolding typed_inv_def callables_def callable_def by blast
  then have "typed_inv ar G (insert (f, replicate (k + length (bs_outputs sg)) LPtr, None) K) s"
    using i by (auto simp: typed_inv_def knowns_def)
  then show ?thesis using c k
    by (simp add: callee_of_def sig_of_def cg_wp_simps callee_index_def)
qed

lemma wp_finish_call:
  assumes i: "typed_inv ar G (insert (f, replicate (length ps + length (bs_outputs sg)) LPtr, None) K) s"
    and sz: "bs_outputs sg \<noteq> [] \<longrightarrow> total_output_size sg > 0"
    and k: "\<And>v s'. typed_inv ar G K s' \<Longrightarrow> wide_val v \<Longrightarrow> Q v s'"
  shows "cg_wp (finish_call f sg ps) Q s"
proof -
  have ptrs: "map (lval_type \<circ> VPtr) qs = replicate (length qs) LPtr" for qs
    by (induction qs) auto
  have none: "\<not> total_output_size sg > 0 \<Longrightarrow> length (bs_outputs sg) = 0"
    using sz by auto
  show ?thesis using i none unfolding finish_call_def
    by (auto simp: cg_wp_simps i64_const_def ptrs replicate_add elim!: cg_typed wp_slot_pointers intro!: k)
qed

text \<open>The four mutually recursive functions keep the invariant.\<close>

lemma wp_compile_exprs:
  "disc_expr ar G e \<Longrightarrow> yields ar G (compile_expr e) (wide_expr G e)"
  "disc_offset ar G off \<Longrightarrow> typed_inv ar G K1 s1 \<Longrightarrow>
     (\<And>o' s'. typed_inv ar G K1 s' \<Longrightarrow> wide_offset o' \<Longrightarrow> Q1 o' s') \<Longrightarrow> cg_wp (compile_offset off) Q1 s1"
  "disc_args ar G as \<Longrightarrow> typed_inv ar G K2 s2 \<Longrightarrow>
     (\<And>ps s'. typed_inv ar G K2 s' \<Longrightarrow> length ps = length as \<Longrightarrow> Q2 ps s') \<Longrightarrow> cg_wp (compile_args as) Q2 s2"
  "disc_args ar G bs \<Longrightarrow> list_all (wide_expr G) bs \<Longrightarrow> typed_inv ar G K3 s3 \<Longrightarrow>
     (\<And>s'. typed_inv ar G K3 s' \<Longrightarrow> Q3 () s') \<Longrightarrow> cg_wp (compile_spawn_args buf i bs) Q3 s3"
proof (induction e and off and as and buf i bs arbitrary: and K1 s1 Q1 and K2 s2 Q2 and K3 s3 Q3
    rule: compile_expr_compile_offset_compile_args_compile_spawn_args.induct)
  case (1 n) then show ?case by (auto intro!: yieldsI simp: cg_wp_simps i64_const_def)
next
  case (2 f) then show ?case by (auto intro!: yieldsI simp: cg_wp_simps)
next
  case (3 s) then show ?case by (auto intro!: yieldsI elim!: cg_typed)
next
  case (4 x) then show ?case by (auto intro!: yieldsI elim!: cg_typed)
next
  case (5 b f) then show ?case
    by (auto intro!: yieldsI elim!: cg_typed simp: cg_wp_simps split: expr.split)
next
  case (6 sz t sh) then show ?case by (auto intro!: yieldsI elim!: cg_typed simp: cg_wp_simps)
next
  case (7 e n off)
  then show ?case by (auto intro!: yields_load)
next
  case (8 b args)
  then have ar: "map_of ar b = Some (length args)" and args: "disc_args ar G args" by simp_all
  show ?case
    by (intro yieldsI, simp only: compile_expr.simps, rule wp_sig_of [OF _ ar], assumption,
        simp only: cg_wp_bind, rule 8(1) [OF args], assumption)
      (auto intro!: wp_finish_call)
next
  case (9 op a b n)
  then show ?case using yields_int_binop by simp
next
  case (10 a n)
  then have a: "yields ar G (compile_expr a) True" by simp
  show ?case
    by (intro yieldsI) (auto simp: int_unary_def i64_const_def cg_wp_simps cg_value_simps elim!: cg_typed wp_yields [OF _ a])
next
  case (11 op a b n)
  then show ?case using yields_int_cmp by simp
next
  case (12 op a b n)
  then show ?case using yields_int_binop by simp
next
  case (13 a n)
  then have a: "yields ar G (compile_expr a) (wide_expr G a)" by simp
  show ?case
    by (intro yieldsI) (auto simp: int_unary_def cg_wp_simps cg_value_simps elim!: cg_typed wp_yields [OF _ a])
next
  case (14 op a b n)
  then show ?case using yields_float_binop by simp
next
  case (15 a n)
  then have a: "yields ar G (compile_expr a) (wide_expr G a)" by simp
  show ?case
    by (intro yieldsI) (auto simp: cg_wp_simps cg_value_simps elim!: cg_typed wp_yields [OF _ a])
next
  case (16 op a b n)
  then show ?case using yields_float_cmp by simp
next
  case (17 a n m)
  then have a: "yields ar G (compile_expr a) (wide_expr G a)" by simp
  show ?case
    by (intro yieldsI) (auto simp: cg_wp_simps cg_value_simps elim!: cg_typed wp_yields [OF _ a])
next
  case (18 a n m)
  then have a: "yields ar G (compile_expr a) (wide_expr G a)" by simp
  show ?case
    by (intro yieldsI) (auto simp: cg_wp_simps cg_value_simps Let_def elim!: cg_typed wp_yields [OF _ a])
next
  case (19 e n)
  then have a: "yields ar G (compile_expr e) (wide_expr G e)" by simp
  show ?case
    by (intro yieldsI) (auto simp: cg_wp_simps cg_value_simps elim!: cg_typed wp_yields [OF _ a])
next
  case (20 t v n)
  then have a: "yields ar G (compile_expr t) (wide_expr G t)" "yields ar G (compile_expr v) (wide_expr G v)"
    by simp_all
  show ?case
    by (intro yieldsI)
      (auto simp: cg_wp_simps cg_value_simps elim!: cg_typed wp_yields [OF _ a(1)] wp_yields [OF _ a(2)])
next
  case (21 a e v n)
  then show ?case using yields_cas by simp
next
  case (22 t v n)
  then show ?case using yields_rmw by simp
next
  case (23 t v n)
  then show ?case using yields_rmw by simp
next
  case (24 p args)
  then show ?case
    by (intro yieldsI) (auto simp: cg_wp_simps runtime_defs i64_const_def elim!: cg_typed intro!: 24(1))
next
  case (25 h)
  then show ?case by (auto intro!: yieldsI elim!: cg_typed)
next
  case (26 t c)
  then show ?case using yields_channel by simp
next
  case (27 c)
  then show ?case by (auto intro!: yieldsI elim!: cg_typed)
next
  case 28
  then show ?case by (simp add: cg_wp_simps)
next
  case (29 e)
  then have a: "\<nexists>n. e = IntLit n \<Longrightarrow> yields ar G (compile_expr e) True" by (cases e) simp_all
  show ?case
  proof (cases "\<exists>n. e = IntLit n")
    case True
    then show ?thesis using 29 by (auto simp: cg_wp_simps)
  next
    case False
    then have "compile_offset (Some e) =
        cg_bind (compile_expr e) (\<lambda>v. cg_bind (as_int v) (\<lambda>i. cg_ret (ODynamic i)))"
      by (cases e) simp_all
    then show ?thesis using 29 a False
      by (auto simp: cg_wp_simps cg_value_simps elim!: wp_yields)
  qed
next
  case 30
  then show ?case by (simp add: cg_wp_simps)
next
  case (31 a as)
  then have a: "yields ar G (compile_expr a) (wide_expr G a)" by simp
  show ?case using 31
    by (auto simp: cg_wp_simps elim!: cg_typed wp_yields [OF _ a] intro!: 31(2))
next
  case (32 buf i)
  then show ?case by (simp add: cg_wp_simps)
next
  case (33 buf i a as)
  then have a: "yields ar G (compile_expr a) True" by simp
  show ?case using 33
    by (auto simp: cg_wp_simps elim!: cg_typed wp_yields [OF _ a] intro!: 33(2))
qed

end
