(* ===== verification/Sigil_Codegen_Typed.thy ===== *)
theory Sigil_Codegen_Typed
  imports Sigil_Codegen_Types
begin

text \<open>
  Statements, behaviors and modules keep the typing invariant of \<open>Sigil_Codegen_Types\<close>, so the
  code of a disciplined behavior is well typed.
\<close>

section \<open>Statements\<close>

lemma wp_create_entry_alloca [cg_typed]:
  assumes i: "typed_inv ar G K s" and k: "\<And>p s'. typed_inv ar G K s' \<Longrightarrow> Q p s'"
  shows "cg_wp (create_entry_alloca t) Q s"
proof -
  have "blocks_typed fs bs \<Longrightarrow>
      blocks_typed fs (bs[b := (bs ! b)\<lparr>bk_code := (n, IAlloca t) # bk_code (bs ! b)\<rparr>])" for fs bs b n
    by (cases "b < length bs")
      (auto simp: blocks_typed_def list_update_beyond dest: list_all_nth intro!: list_all_update)
  then show ?thesis using i k unfolding create_entry_alloca_def
    by (auto simp: cg_wp_def typed_inv_def split: option.split)
qed

lemma wp_local_slot [cg_typed]:
  assumes i: "typed_inv ar G K s" and v: "x \<in> set G \<longrightarrow> wide_val v"
    and k: "\<And>pt s'. typed_inv ar G K s' \<Longrightarrow> x \<in> set G \<longrightarrow> wide_slot pt \<Longrightarrow> Q pt s'"
  shows "cg_wp (local_slot x v) Q s"
proof -
  have add: "typed_inv ar G K (s'\<lparr>cg_mutable_slots := hm_insert x pt (cg_mutable_slots s')\<rparr>)"
    if "typed_inv ar G K s'" "x \<in> set G \<longrightarrow> wide_slot pt" for s' pt
    using that by (simp add: typed_inv_def all_wide_insert)
  show ?thesis using i v typed_slot [OF i] unfolding local_slot_def
    by (auto simp: cg_wp_simps wide_slot_def elim!: cg_typed intro!: k add)
qed

lemma wp_store_mutable_local [cg_typed]:
  assumes i: "typed_inv ar G K s" and v: "x \<in> set G \<longrightarrow> wide_val v"
    and k: "\<And>s'. typed_inv ar G K s' \<Longrightarrow> Q () s'"
  shows "cg_wp (store_mutable_local x v) Q s"
  using i v unfolding store_mutable_local_def
  by (auto simp: cg_wp_simps elim!: cg_typed intro!: k)

lemma wp_take_pending [cg_typed]:
  assumes "typed_inv ar G K s" and "\<And>po s'. typed_inv ar G K s' \<Longrightarrow> Q po s'"
  shows "cg_wp take_pending Q s"
  using assms unfolding take_pending_def by (simp add: cg_wp_simps)

lemma wp_bind_outputs [cg_typed]:
  assumes "typed_inv ar G K s" and "\<And>s'. typed_inv ar G K s' \<Longrightarrow> Q () s'"
  shows "cg_wp (bind_outputs x) Q s"
  using assms unfolding bind_outputs_def by (auto simp: cg_wp_simps elim!: cg_typed)

lemma wp_set_scope [cg_typed]:
  assumes "typed_inv ar G K s" and "\<And>s'. typed_inv ar G K s' \<Longrightarrow> Q () s'"
  shows "cg_wp (set_scope sc) Q s"
  using assms unfolding set_scope_def by (simp add: cg_wp_simps)

lemma wp_create_scope [cg_typed]:
  assumes i: "typed_inv ar G K s" and k: "\<And>p s'. typed_inv ar G K s' \<Longrightarrow> Q p s'"
  shows "cg_wp (create_scope p) Q s"
  using i unfolding create_scope_def runtime_defs
  by (auto simp: cg_wp_simps elim!: cg_typed intro!: k)

lemma wp_destroy_root_scope [cg_typed]:
  assumes i: "typed_inv ar G K s" and k: "\<And>s'. typed_inv ar G K s' \<Longrightarrow> Q () s'"
  shows "cg_wp (destroy_root_scope p) Q s"
  using i unfolding destroy_root_scope_def runtime_defs
  by (auto simp: cg_wp_simps elim!: cg_typed intro!: k)

lemma wp_label_block [cg_typed]:
  assumes "typed_inv ar G K s" and "\<And>b. typed_inv ar G K s \<Longrightarrow> Q b s"
  shows "cg_wp (label_block labels l) Q s"
  using assms unfolding label_block_def by (simp add: cg_wp_simps)

lemma wp_compile_jump [cg_typed]:
  assumes i: "typed_inv ar G K s" and k: "\<And>s'. typed_inv ar G K s' \<Longrightarrow> Q () s'"
  shows "cg_wp (compile_jump labels l) Q s"
  using i unfolding compile_jump_def
  by (auto simp: cg_wp_simps elim!: cg_typed intro!: k)

lemma wp_compile_label [cg_typed]:
  assumes i: "typed_inv ar G K s" and k: "\<And>s'. typed_inv ar G K s' \<Longrightarrow> Q () s'"
  shows "cg_wp (compile_label labels l) Q s"
  using i unfolding compile_label_def
  by (auto simp: cg_wp_simps elim!: cg_typed intro!: k)

lemma wp_compile_assignment [cg_typed]:
  assumes i: "typed_inv ar G K s" and d: "disc_expr ar G e" "x \<in> set G \<longrightarrow> wide_expr G e"
    and k: "\<And>s'. typed_inv ar G K s' \<Longrightarrow> Q () s'"
  shows "cg_wp (compile_assignment x e) Q s"
proof -
  have "cg_wp (case e of Call b args \<Rightarrow> bind_outputs x | _ \<Rightarrow> cg_ret ()) Q s'" if "typed_inv ar G K s'" for s'
    using that k by (auto simp: cg_wp_simps elim!: cg_typed split: expr.split)
  then show ?thesis using i d(2) unfolding compile_assignment_def
    by (auto simp: cg_wp_simps elim!: cg_typed wp_yields [OF _ wp_compile_exprs(1) [OF d(1)]])
qed

lemma wp_compile_store [cg_typed]:
  assumes i: "typed_inv ar G K s" and d: "disc_expr ar G e" "disc_offset ar G off"
    and k: "\<And>s'. typed_inv ar G K s' \<Longrightarrow> Q () s'"
  shows "cg_wp (compile_store x e n off) Q s"
  using i unfolding compile_store_def
  by (auto simp: cg_wp_simps elim!: cg_typed wp_yields [OF _ wp_compile_exprs(1) [OF d(1)]]
      wp_compile_exprs(2) [OF d(2)] intro!: k)

lemma wp_compile_branch [cg_typed]:
  assumes i: "typed_inv ar G K s" and d: "disc_expr ar G e"
    and k: "\<And>s'. typed_inv ar G K s' \<Longrightarrow> Q () s'"
  shows "cg_wp (compile_branch labels e t f) Q s"
  using i unfolding compile_branch_def
  by (auto simp: cg_wp_simps cg_value_simps elim!: cg_typed wp_yields [OF _ wp_compile_exprs(1) [OF d]] intro!: k)

lemma wp_compile_set [cg_typed]:
  assumes i: "typed_inv ar G K s" and d: "disc_expr ar G e" "x \<in> set G \<longrightarrow> wide_expr G e"
    and k: "\<And>s'. typed_inv ar G K s' \<Longrightarrow> Q () s'"
  shows "cg_wp (compile_set x e) Q s"
  using i d(2) unfolding compile_set_def
  by (auto simp: cg_wp_simps elim!: cg_typed wp_yields [OF _ wp_compile_exprs(1) [OF d(1)]] intro!: k)

lemma wp_redirect_outputs:
  assumes "typed_inv ar G K s" "list_all (\<lambda>x. x \<notin> set G) outs" "\<And>s'. typed_inv ar G K s' \<Longrightarrow> Q () s'"
  shows "cg_wp (redirect_outputs src outs sls) Q s"
  using assms
proof (induction src outs sls arbitrary: s rule: redirect_outputs.induct)
  case (1 src n ns sl sls)
  then show ?case
    by (auto simp: cg_wp_simps redirect_output_def elim!: cg_typed)
qed (auto simp: cg_wp_simps)

lemma wp_compile_call_node [cg_typed]:
  assumes i: "typed_inv ar G K s" and d: "disc_expr ar G (Call b args)" "list_all (\<lambda>x. x \<notin> set G) outs"
    and k: "\<And>s'. typed_inv ar G K s' \<Longrightarrow> Q () s'"
  shows "cg_wp (compile_call_node t b args outs) Q s"
proof -
  have y: "yields ar G (compile_expr (Call b args)) True"
    using wp_compile_exprs(1) [OF d(1)] by simp
  show ?thesis using i d(2) unfolding compile_call_node_def
    by (auto simp: cg_wp_simps simp del: compile_expr.simps
        elim!: cg_typed wp_redirect_outputs wp_yields [OF _ y] intro!: k)
qed

lemma wp_compile_free [cg_typed]:
  assumes i: "typed_inv ar G K s" and k: "\<And>s'. typed_inv ar G K s' \<Longrightarrow> Q () s'"
  shows "cg_wp (compile_free x) Q s"
  using i unfolding compile_free_def runtime_defs
  by (auto simp: cg_wp_simps elim!: cg_typed intro!: k)

lemma wp_compile_channel_send [cg_typed]:
  assumes i: "typed_inv ar G K s" and d: "c \<in> set G" "disc_expr ar G e"
    and k: "\<And>s'. typed_inv ar G K s' \<Longrightarrow> Q () s'"
  shows "cg_wp (compile_channel_send c e) Q s"
  using i d(1) unfolding compile_channel_send_def runtime_defs
  by (auto simp: cg_wp_simps cg_value_simps elim!: cg_typed wp_yields [OF _ wp_compile_exprs(1) [OF d(2)]] intro!: k)

lemma wp_compile_channel_close [cg_typed]:
  assumes i: "typed_inv ar G K s" and d: "c \<in> set G"
    and k: "\<And>s'. typed_inv ar G K s' \<Longrightarrow> Q () s'"
  shows "cg_wp (compile_channel_close c) Q s"
  using i d unfolding compile_channel_close_def runtime_defs
  by (auto simp: cg_wp_simps cg_value_simps elim!: cg_typed intro!: k)

lemma wp_wait_each:
  assumes "typed_inv ar G (insert (f, [LInt 64, LPtr, LInt 64], None) K) s"
    "list_all (\<lambda>x. x \<in> set G) hs" "\<And>s'. typed_inv ar G K s' \<Longrightarrow> Q () s'"
  shows "cg_wp (wait_each f xs hs) Q s"
  using assms
proof (induction f xs hs arbitrary: s rule: wait_each.induct)
  case (2 f xs h hs)
  then show ?case
    by (auto simp: cg_wp_simps cg_value_simps i64_const_def elim!: cg_typed split: list.split)
next
  case (1 f xs)
  then show ?case by (auto simp: cg_wp_simps dest: typed_weaken_insert)
qed

lemma wp_fill_handles:
  assumes "typed_inv ar G K s" "list_all (\<lambda>x. x \<in> set G) hs" "\<And>s'. typed_inv ar G K s' \<Longrightarrow> Q () s'"
  shows "cg_wp (fill_handles c arr i hs) Q s"
  using assms
proof (induction c arr i hs arbitrary: s rule: fill_handles.induct)
  case (2 c arr i h hs)
  then show ?case by (auto simp: cg_wp_simps cg_value_simps elim!: cg_typed)
qed (auto simp: cg_wp_simps)

lemma wp_compile_wait_all [cg_typed]:
  assumes i: "typed_inv ar G K s" and d: "list_all (\<lambda>x. x \<in> set G) hs"
    and k: "\<And>s'. typed_inv ar G K s' \<Longrightarrow> Q () s'"
  shows "cg_wp (compile_wait_all xs hs) Q s"
  using i d unfolding compile_wait_all_def runtime_defs
  by (auto simp: cg_wp_simps elim!: cg_typed wp_wait_each intro!: k)

lemma wp_compile_wait_any [cg_typed]:
  assumes i: "typed_inv ar G K s" and d: "list_all (\<lambda>x. x \<in> set G) hs"
    and k: "\<And>s'. typed_inv ar G K s' \<Longrightarrow> Q () s'"
  shows "cg_wp (compile_wait_any r w hs) Q s"
  using i d unfolding compile_wait_any_def runtime_defs
  by (auto simp: cg_wp_simps Let_def i64_const_def elim!: cg_typed wp_fill_handles intro!: k)

lemma wp_compile_scope:
  assumes i: "typed_inv ar G K s"
    and body: "\<And>s Q. typed_inv ar G K s \<Longrightarrow> (\<And>s'. typed_inv ar G K s' \<Longrightarrow> Q () s') \<Longrightarrow> cg_wp body Q s"
    and k: "\<And>s'. typed_inv ar G K s' \<Longrightarrow> Q () s'"
  shows "cg_wp (compile_scope body) Q s"
proof -
  have "typed_inv ar G K (s'\<lparr>cg_variables := cg_variables s\<rparr>)" if "typed_inv ar G K s'" for s'
    using that i by (simp add: typed_inv_def)
  then have after: "cg_wp (cg_then (case child of None \<Rightarrow> cg_ret () | Some c \<Rightarrow> destroy_root_scope c)
      (cg_then (set_scope sc) (cg_modify (\<lambda>s'. s'\<lparr>cg_variables := cg_variables s\<rparr>)))) Q s'"
    if "typed_inv ar G K s'" for s' child sc
    using that by (cases child) (auto simp: cg_wp_simps elim!: cg_typed intro!: k)
  have inside: "cg_wp body (\<lambda>_. cg_wp (cg_then (case child of None \<Rightarrow> cg_ret () | Some c \<Rightarrow> destroy_root_scope c)
      (cg_then (set_scope sc) (cg_modify (\<lambda>s'. s'\<lparr>cg_variables := cg_variables s\<rparr>)))) Q) s'"
    if "typed_inv ar G K s'" for s' child sc
    using that by (rule body) (rule after)
  have before: "cg_wp (cg_bind (create_scope p) (\<lambda>c. cg_then (set_scope (Some c)) (cg_ret (Some c)))) R s"
    if "\<And>c s'. typed_inv ar G K s' \<Longrightarrow> R c s'" for p R
    using i that by (auto simp: cg_wp_simps elim!: cg_typed)
  show ?thesis
  proof (cases "cg_current_scope s")
    case None
    then show ?thesis unfolding compile_scope_def cg_wp_bind cg_wp_gets cg_wp_then [of body]
      using inside [OF i, of None None] by (simp only: option.case cg_wp_ret)
  next
    case (Some p)
    then show ?thesis unfolding compile_scope_def cg_wp_gets cg_wp_bind [of "cg_gets _"]
      by (simp only: option.case cg_wp_bind [of "cg_bind _ _"] cg_wp_then [of body])
        (rule before, rule inside)
  qed
qed

lemma wp_compile_nodes:
  "disc_node ar G n \<Longrightarrow> typed_inv ar G K1 s1 \<Longrightarrow>
     (\<And>s'. typed_inv ar G K1 s' \<Longrightarrow> Q1 () s') \<Longrightarrow> cg_wp (compile_node labels n) Q1 s1"
  "disc_nodes ar G ns \<Longrightarrow> typed_inv ar G K s \<Longrightarrow>
     (\<And>s'. typed_inv ar G K s' \<Longrightarrow> Q () s') \<Longrightarrow> cg_wp (compile_nodes labels ns) Q s"
proof (induction labels n and labels ns arbitrary: K1 s1 Q1 and K s Q rule: compile_node_compile_nodes.induct)
  case (10 labels sp ns)
  then show ?case by (auto elim!: wp_compile_scope)
next
  case (13 labels sp x p args)
  then have y: "yields ar G (compile_expr (Spawn p args)) True"
    using wp_compile_exprs(1) [of ar G "Spawn p args"] by simp
  show ?case using 13
    by (auto simp: cg_wp_simps simp del: compile_expr.simps disc_expr.simps elim!: cg_typed wp_yields [OF _ y])
next
  case (18 labels n ns)
  then show ?case by (simp add: cg_wp_simps)
qed (auto simp: cg_wp_simps elim!: cg_typed)

section \<open>Modules\<close>

definition arities_of :: "(string \<times> contract) list \<Rightarrow> arities" where
  "arities_of cs = rev (map (\<lambda>(n, c). (n, length (c_inputs c))) cs)"

definition declarable :: "(string \<times> contract) list \<Rightarrow> bool" where
  "declarable cs \<longleftrightarrow> distinct (map (\<lambda>nc. mangle (fst nc)) cs) \<and>
     list_all (\<lambda>(n, c). map_of runtime_funs (mangle n) = None
       \<and> (c_outputs c \<noteq> [] \<longrightarrow> total_output_size (build_sig_from_contract n c) > 0)) cs"

definition disciplined ::
  "string list \<Rightarrow> (string, contract) hmap \<Rightarrow> string \<Rightarrow> behavior \<Rightarrow> bool" where
  "disciplined G contracts full_name b \<longleftrightarrow>
     declarable (required_contracts contracts b) \<and> map_of runtime_funs (mangle full_name) = None
     \<and> list_all (disc_nodes (arities_of (required_contracts contracts b)) G) (all_bodies b)"

lemma typed_inv_new: "typed_inv [] G {} (cg_new B p)"
  by (simp add: typed_inv_def cg_new_def blocks_typed_def runtime_ok_def callables_def knowns_def)

lemma output_slots_eq_Nil [simp]: "output_slots off ps = [] \<longleftrightarrow> ps = []"
  by (cases ps) auto

lemma length_output_slots [simp]: "length (output_slots off ps) = length ps"
  by (induction off ps rule: output_slots.induct) auto

lemma wp_declare_external_behavior:
  assumes i: "typed_inv ar G K s" "cg_behavior_fns s = []"
    and n: "mangle n \<notin> fd_name ` set (cg_functions s)" "map_of runtime_funs (mangle n) = None"
    and sz: "c_outputs c \<noteq> [] \<longrightarrow> total_output_size (build_sig_from_contract n c) > 0"
    and k: "\<And>s'. typed_inv ((n, length (c_inputs c)) # ar) G K s' \<Longrightarrow> cg_behavior_fns s' = [] \<Longrightarrow>
      fd_name ` set (cg_functions s') = insert (mangle n) (fd_name ` set (cg_functions s)) \<Longrightarrow> Q () s'"
  shows "cg_wp (declare_external_behavior n c) Q s"
proof -
  let ?d = "\<lparr>fd_name = mangle n, fd_params = function_params c, fd_ret = None\<rparr>"
  let ?sg = "build_sig_from_contract n c"
  let ?s = "s\<lparr>cg_behavior_sigs := hm_insert n ?sg (cg_behavior_sigs s), cg_functions := cg_functions s @ [?d]\<rparr>"
  have none: "function_index (mangle n) (cg_functions s) = None" using n by (simp add: function_index_None)
  have j: "typed_inv ar G K (s\<lparr>cg_functions := cg_functions s @ [?d]\<rparr>)"
    using typed_inv_add_function [OF i(1), of ?d] n(2) typed_weaken_insert by simp
  have "callable [] (cg_behavior_sigs ?s) (cg_functions ?s) n (length (c_inputs c))"
    using none sz unfolding callable_def callee_index_def
    by (simp add: function_index_append decl_as_def function_params_def build_sig_from_contract_def)
  moreover have "callable [] (cg_behavior_sigs ?s) (cg_functions ?s) m k"
    if "callable [] (cg_behavior_sigs s) (cg_functions ?s) m k" "m \<noteq> n" for m k
    using that by (simp add: callable_def)
  ultimately have "callables ((n, length (c_inputs c)) # ar) (cg_behavior_fns ?s) (cg_behavior_sigs ?s) (cg_functions ?s)"
    using j i(2) by (auto simp: typed_inv_def callables_def)
  then have "typed_inv ((n, length (c_inputs c)) # ar) G K ?s"
    using j by (simp add: typed_inv_def)
  then show ?thesis using k [of ?s] none i(2)
    by (simp add: declare_external_behavior_def cg_wp_simps register_sig_def add_function_def)
      (simp add: cg_wp_def)
qed

lemma wp_declare_behaviors:
  assumes "typed_inv ar G K s" "cg_behavior_fns s = []" "declarable cs"
    and "\<forall>nc \<in> set cs. mangle (fst nc) \<notin> fd_name ` set (cg_functions s)"
    and "\<And>s'. typed_inv (arities_of cs @ ar) G K s' \<Longrightarrow> Q () s'"
  shows "cg_wp (declare_behaviors cs) Q s"
  using assms
proof (induction cs arbitrary: ar s rule: declare_behaviors.induct)
  case (1 ar s)
  then show ?case by (simp add: cg_wp_simps arities_of_def)
next
  case (2 n c cs ar s)
  have fresh: "mangle n \<notin> (\<lambda>nc. mangle (fst nc)) ` set cs"
    using 2 by (auto simp: declarable_def)
  have next_one: "cg_wp (declare_behaviors cs) Q s'"
    if i: "typed_inv ((n, length (c_inputs c)) # ar) G K s'" "cg_behavior_fns s' = []"
      and names: "fd_name ` set (cg_functions s') = insert (mangle n) (fd_name ` set (cg_functions s))" for s'
  proof (rule "2.IH" [OF i])
    show "declarable cs" using 2 by (simp add: declarable_def)
    show "\<forall>nc \<in> set cs. mangle (fst nc) \<notin> fd_name ` set (cg_functions s')"
      unfolding names using 2 fresh by (auto simp: image_iff)
    show "typed_inv (arities_of cs @ (n, length (c_inputs c)) # ar) G K s'' \<Longrightarrow> Q () s''" for s''
      using 2 by (simp add: arities_of_def)
  qed
  show ?case
    unfolding declare_behaviors.simps cg_wp_then
    by (rule wp_declare_external_behavior [OF "2.prems"(1,2)])
      (use 2 next_one in \<open>auto simp: declarable_def\<close>)
qed

lemma wp_collect_label_blocks:
  assumes "typed_inv ar G K s" "\<And>ls s'. typed_inv ar G K s' \<Longrightarrow> Q ls s'"
  shows "cg_wp (collect_label_blocks f ns labels) Q s"
  using assms
proof (induction f ns labels arbitrary: s Q rule: collect_label_blocks.induct)
  case (2 f sp k ns labels)
  have m: "cg_wp (case k of
         Label name \<Rightarrow> cg_bind (append_basic_block f name) (\<lambda>b. cg_ret (hm_insert name b labels))
       | Scope inner \<Rightarrow> collect_label_blocks f inner labels
       | _ \<Rightarrow> cg_ret labels) R s'"
    if "typed_inv ar G K s'" "\<And>ls s'. typed_inv ar G K s' \<Longrightarrow> R ls s'" for R s'
    using that 2(1) by (cases k) (auto simp: cg_wp_simps elim!: cg_typed)
  show ?case using 2 by (auto simp: cg_wp_simps elim!: m)
qed (auto simp: cg_wp_simps)

lemma wp_compile_impl:
  assumes "typed_inv ar G K s" "disc_nodes ar G ns" "\<And>s'. typed_inv ar G K s' \<Longrightarrow> Q () s'"
  shows "cg_wp (compile_impl ns f) Q s"
  using assms unfolding compile_impl_def
  by (auto simp: cg_wp_simps elim!: wp_collect_label_blocks wp_compile_nodes(2))

lemma typed_inv_empty_slots:
  "typed_inv ar G K s \<Longrightarrow> typed_inv ar G K (s\<lparr>cg_mutable_slots := []\<rparr>)"
  by (simp add: typed_inv_def)

lemma wp_compile_body:
  assumes i: "typed_inv ar G K s"
    and d: "list_all (disc_nodes ar G) (all_bodies b)"
    and k: "\<And>s'. typed_inv ar G K s' \<Longrightarrow> Q () s'"
  shows "cg_wp (compile_body b f) Q s"
  using typed_inv_empty_slots [OF i] d k unfolding compile_body_def
  by (auto simp: cg_wp_simps list_all_iff dest!: body_nodes_in intro!: wp_compile_impl)

lemma wp_bind_params [cg_typed]:
  assumes "typed_inv ar G K s" "\<And>s'. typed_inv ar G K s' \<Longrightarrow> Q () s'"
  shows "cg_wp (bind_params i ps) Q s"
  using assms
  by (induction i ps arbitrary: s rule: bind_params.induct) (auto simp: cg_wp_simps elim!: cg_typed)

lemma wp_enter_function [cg_typed]:
  assumes "typed_inv ar G K s" "\<And>s'. typed_inv ar G K s' \<Longrightarrow> Q () s'"
  shows "cg_wp (enter_function f) Q s"
proof -
  have "typed_inv ar G K s' \<Longrightarrow> typed_inv ar G K (s'\<lparr>cg_variables := [], cg_call_outputs := []\<rparr>)" for s'
    by (simp add: typed_inv_def)
  then show ?thesis using assms unfolding enter_function_def
    by (auto simp: cg_wp_simps cg_wp_position_at_end elim!: cg_typed)
qed

lemma wp_finish_function [cg_typed]:
  assumes "typed_inv ar G K s" "\<And>s'. typed_inv ar G K s' \<Longrightarrow> Q () s'"
  shows "cg_wp (finish_function root (cg_ret v)) Q s"
  using assms unfolding finish_function_def by (auto simp: cg_wp_simps elim!: cg_typed)

lemma wp_add_function [cg_typed]:
  assumes "typed_inv ar G K s" "map_of runtime_funs name = None"
    and "\<And>f s'. typed_inv ar G K s' \<Longrightarrow> Q f s'"
  shows "cg_wp (add_function name ps r) Q s"
  using assms typed_inv_add_function [OF assms(1), of "\<lparr>fd_name = name, fd_params = ps, fd_ret = r\<rparr>"]
    typed_weaken_insert by (simp add: cg_wp_def add_function_def)

lemma runtime_lookup_None: "map_of runtime_funs n = None \<longleftrightarrow> n \<notin> fst ` set runtime_funs"
  by (rule map_of_eq_None_iff)

lemma wp_declare_externals [cg_typed]:
  assumes "typed_inv ar G K s" "\<And>s'. typed_inv ar G K s' \<Longrightarrow> Q () s'"
  shows "cg_wp declare_externals Q s"
proof -
  have "map_of runtime_funs ''puts'' = None" "map_of runtime_funs (crt_name p ''write'') = None" for p
    by (cases p; simp add: crt_name_def runtime_funs_def)+
  then show ?thesis using assms
    unfolding declare_externals_def declare_puts_def declare_write_def get_or_declare_def
    by (auto simp: cg_wp_simps elim!: cg_typed)
qed

lemma wp_restoring:
  assumes i: "typed_inv ar G K s"
    and m: "\<And>Q. (\<And>s'. typed_inv ar G K s' \<Longrightarrow> Q () s') \<Longrightarrow> cg_wp m Q s"
    and k: "\<And>s'. typed_inv ar G K s' \<Longrightarrow> Q () s'"
  shows "cg_wp (restoring m) Q s"
proof -
  have "cg_wp m (\<lambda>u s'. typed_inv ar G K s') s" by (rule m)
  then have "typed_inv ar G K (s'\<lparr>cg_variables := cg_variables s, cg_call_outputs := co,
      cg_current_function := fn\<rparr>)" if "m s = Inr (u, s')" for u s' co fn
    using that i by (auto simp: cg_wp_def typed_inv_def)
  then show ?thesis using k by (auto simp: cg_wp_def restoring_def split: sum.split)
qed

lemma wp_register [cg_typed]:
  assumes "code_typed s" "\<And>s'. code_typed s' \<Longrightarrow> Q () s'"
  shows "cg_wp (register_sig n sg) Q s" "cg_wp (register_fn n f) Q s"
  using assms by (simp_all add: register_sig_def register_fn_def cg_wp_simps code_typed_def)

lemma typed_inv_code: "typed_inv ar G K s \<Longrightarrow> code_typed s"
  by (simp add: typed_inv_def code_typed_def)

lemma wp_compile_function_body:
  assumes i: "typed_inv ar G K s" and d: "list_all (disc_nodes ar G) (all_bodies b)"
    and k: "\<And>s'. typed_inv ar G K s' \<Longrightarrow> Q () s'"
  shows "cg_wp (compile_function_body b f) Q s"
  using i k unfolding compile_function_body_def create_root_scope_def
  by (auto simp: cg_wp_simps elim!: cg_typed wp_compile_body [OF _ d])

lemma wp_compile_function:
  assumes i: "typed_inv ar G K s" and d: "list_all (disc_nodes ar G) (all_bodies b)"
    and n: "map_of runtime_funs (mangle full_name) = None"
    and k: "\<And>f s'. code_typed s' \<Longrightarrow> Q f s'"
  shows "cg_wp (compile_function b full_name) Q s"
proof -
  have rest: "cg_wp (register_sig full_name sg) (\<lambda>_. cg_wp (register_fn full_name f) (\<lambda>_. Q f)) s'"
    if "typed_inv ar G K s'" for s' sg f
    using typed_inv_code [OF that] by (auto elim!: wp_register intro!: k)
  have body: "cg_wp (restoring (compile_function_body b f)) R s'"
    if "typed_inv ar G K s'" "\<And>s''. typed_inv ar G K s'' \<Longrightarrow> R () s''" for s' R f
    using that(2) by (intro wp_restoring [OF that(1)] wp_compile_function_body [OF that(1) d])
  show ?thesis using i n unfolding compile_function_def
    by (auto simp: cg_wp_simps elim!: cg_typed body intro!: rest)
qed

text \<open>
  C12: every instruction generated for a behavior that keeps to the discipline of widths is well
  typed, whatever the bindings and the platform: the operands of arithmetic, comparisons and
  compare-exchanges agree, extensions widen, truncations narrow, conditions are single bits, and
  every call passes what its callee was declared with.
\<close>

theorem disciplined_code_typed:
  assumes "disciplined G contracts full_name b"
    and "behavior_module B p contracts full_name b = Inr (f, s)"
  shows "code_typed s"
proof -
  have "cg_wp (cg_then (declare_behaviors (required_contracts contracts b)) (compile_function b full_name))
      (\<lambda>f. code_typed) (cg_new B p)"
    unfolding cg_wp_then
    by (rule wp_declare_behaviors [OF typed_inv_new])
      (use assms(1) in \<open>auto simp: disciplined_def cg_new_def intro!: wp_compile_function\<close>)
  then show ?thesis using assms(2) unfolding behavior_module_def by (rule cg_wpD)
qed

end
