(* ===== verification/Sigil_Codegen_Sem.thy ===== *)
theory Sigil_Codegen_Sem
  imports Sigil_Codegen_Logic "HOL-Library.Signed_Division"
begin

unbundle bit_operations_syntax

text \<open>
  What the integer code computes. The meaning of LLVM's instructions is not in the repository: the
  operations on 64-bit integers are a parameter (\<open>llvm_ops\<close>), and \<open>langref\<close> collects what the LLVM
  language reference documents of them. The reference semantics of Sigil expressions
  (\<^verbatim>\<open>docs/SIGIL-LANGUAGE-REFERENCE.md\<close>, sections 4.3, 4.4 and 4.8) is \<open>sigil_value\<close>, which
  has no value where the language or LLVM leave the result undefined: division by zero or of the
  least integer by -1, and shifts by 64 or more.
\<close>

section \<open>Running straight-line integer code\<close>

record llvm_ops =
  lo_bin :: "lbin \<Rightarrow> u64 \<Rightarrow> u64 \<Rightarrow> u64"
  lo_cmp :: "lpred \<Rightarrow> u64 \<Rightarrow> u64 \<Rightarrow> bool"
  lo_not :: "u64 \<Rightarrow> u64"

definition least_int :: u64 where
  "least_int = push_bit 63 1"

definition word_sdiv :: "u64 \<Rightarrow> u64 \<Rightarrow> u64" where
  "word_sdiv x y = word_of_int (sint x sdiv sint y)"

definition word_smod :: "u64 \<Rightarrow> u64 \<Rightarrow> u64" where
  "word_smod x y = word_of_int (sint x smod sint y)"

definition div_defined :: "u64 \<Rightarrow> u64 \<Rightarrow> bool" where
  "div_defined x y \<longleftrightarrow> y \<noteq> 0 \<and> \<not> (x = least_int \<and> y = -1)"

definition langref :: "llvm_ops \<Rightarrow> bool" where
  "langref ops \<longleftrightarrow>
     (\<forall>x y. lo_bin ops LAdd x y = x + y \<and> lo_bin ops LSub x y = x - y \<and> lo_bin ops LMul x y = x * y
       \<and> (div_defined x y \<longrightarrow> lo_bin ops LSDiv x y = word_sdiv x y \<and> lo_bin ops LSRem x y = word_smod x y)
       \<and> lo_bin ops LAnd x y = x AND y \<and> lo_bin ops LOr x y = x OR y \<and> lo_bin ops LXor x y = x XOR y
       \<and> (y < 64 \<longrightarrow> lo_bin ops LShl x y = push_bit (unat y) x
                  \<and> lo_bin ops LLshr x y = drop_bit (unat y) x
                  \<and> lo_bin ops LAshr x y = signed_drop_bit (unat y) x)
       \<and> lo_cmp ops PEq x y = (x = y) \<and> lo_cmp ops PNe x y = (x \<noteq> y)
       \<and> lo_cmp ops PSlt x y = (sint x < sint y) \<and> lo_cmp ops PSgt x y = (sint y < sint x)
       \<and> lo_cmp ops PSle x y = (sint x \<le> sint y) \<and> lo_cmp ops PSge x y = (sint y \<le> sint x)
       \<and> lo_cmp ops PUgt x y = (y < x)
       \<and> lo_not ops x = NOT x)"

definition bool_word :: "bool \<Rightarrow> u64" where
  "bool_word b = (if b then 1 else 0)"

text \<open>An integer is held as the unsigned reading of its bits; other references are not integers.\<close>

definition ref_value :: "(nat \<Rightarrow> u64) \<Rightarrow> vref \<Rightarrow> u64" where
  "ref_value env r = (case r of RConst w \<Rightarrow> w | RInstr n \<Rightarrow> env n | _ \<Rightarrow> 0)"

definition run_instr :: "llvm_ops \<Rightarrow> nat \<times> linstr \<Rightarrow> (nat \<Rightarrow> u64) \<Rightarrow> (nat \<Rightarrow> u64)" where
  "run_instr ops c env = (case snd c of
       IBin op a b \<Rightarrow> env(fst c := lo_bin ops op (ref_value env (snd a)) (ref_value env (snd b)))
     | INot a \<Rightarrow> env(fst c := lo_not ops (ref_value env (snd a)))
     | IIcmp p a b \<Rightarrow>
         env(fst c := bool_word (lo_cmp ops p (ref_value env (snd a)) (ref_value env (snd b))))
     | IZext a n \<Rightarrow> env(fst c := ref_value env (snd a))
     | _ \<Rightarrow> env)"

definition run_code :: "llvm_ops \<Rightarrow> (nat \<times> linstr) list \<Rightarrow> (nat \<Rightarrow> u64) \<Rightarrow> (nat \<Rightarrow> u64)" where
  "run_code ops code env = fold (run_instr ops) code env"

section \<open>The value of an expression\<close>

primrec sigil_iarith :: "iarith \<Rightarrow> u64 \<Rightarrow> u64 \<Rightarrow> u64 option" where
  "sigil_iarith Iadd x y = Some (x + y)"
| "sigil_iarith Isub x y = Some (x - y)"
| "sigil_iarith Imul x y = Some (x * y)"
| "sigil_iarith Idiv x y = (if div_defined x y then Some (word_sdiv x y) else None)"
| "sigil_iarith Imod x y = (if div_defined x y then Some (word_smod x y) else None)"

primrec sigil_icmp :: "icmp \<Rightarrow> u64 \<Rightarrow> u64 \<Rightarrow> bool" where
  "sigil_icmp Ieq x y = (x = y)"
| "sigil_icmp Ine x y = (x \<noteq> y)"
| "sigil_icmp Ilt x y = (sint x < sint y)"
| "sigil_icmp Igt x y = (sint x > sint y)"
| "sigil_icmp Ile x y = (sint x \<le> sint y)"
| "sigil_icmp Ige x y = (sint x \<ge> sint y)"

primrec sigil_bitop :: "bitop \<Rightarrow> u64 \<Rightarrow> u64 \<Rightarrow> u64 option" where
  "sigil_bitop And x y = Some (x AND y)"
| "sigil_bitop Or x y = Some (x OR y)"
| "sigil_bitop Xor x y = Some (x XOR y)"
| "sigil_bitop Shl x y = (if y < 64 then Some (push_bit (unat y) x) else None)"
| "sigil_bitop Shr x y = (if y < 64 then Some (drop_bit (unat y) x) else None)"
| "sigil_bitop Sar x y = (if y < 64 then Some (signed_drop_bit (unat y) x) else None)"

text \<open>Integer expressions over locals: \<open>rho\<close> gives the values of the locals.\<close>

fun sigil_value :: "(string \<Rightarrow> u64) \<Rightarrow> expr \<Rightarrow> u64 option" where
  "sigil_value rho (IntLit n) = Some n"
| "sigil_value rho (Var x) = Some (rho x)"
| "sigil_value rho (IArith op a b n) = (case (sigil_value rho a, sigil_value rho b) of
       (Some x, Some y) \<Rightarrow> sigil_iarith op x y
     | _ \<Rightarrow> None)"
| "sigil_value rho (Ineg a n) = map_option uminus (sigil_value rho a)"
| "sigil_value rho (ICmp op a b n) = (case (sigil_value rho a, sigil_value rho b) of
       (Some x, Some y) \<Rightarrow> Some (bool_word (sigil_icmp op x y))
     | _ \<Rightarrow> None)"
| "sigil_value rho (Bitwise op a b n) = (case (sigil_value rho a, sigil_value rho b) of
       (Some x, Some y) \<Rightarrow> sigil_bitop op x y
     | _ \<Rightarrow> None)"
| "sigil_value rho (BNot a n) = map_option NOT (sigil_value rho a)"
| "sigil_value rho e = None"

fun int_vars :: "expr \<Rightarrow> string list" where
  "int_vars (Var x) = [x]"
| "int_vars (IArith op a b n) = int_vars a @ int_vars b"
| "int_vars (Ineg a n) = int_vars a"
| "int_vars (ICmp op a b n) = int_vars a @ int_vars b"
| "int_vars (Bitwise op a b n) = int_vars a @ int_vars b"
| "int_vars (BNot a n) = int_vars a"
| "int_vars e = []"

section \<open>Emitting straight-line code\<close>

definition ready :: "nat \<Rightarrow> cg \<Rightarrow> bool" where
  "ready b s \<longleftrightarrow> cg_pos s = Some b \<and> b < length (cg_blocks s) \<and> (\<forall>i. cg_refuses s i = None)"

definition append_code :: "nat \<Rightarrow> (nat \<times> linstr) list \<Rightarrow> cg \<Rightarrow> cg" where
  "append_code b code s = s\<lparr>cg_blocks := (cg_blocks s)[b := (cg_blocks s ! b)\<lparr>bk_code :=
      bk_code (cg_blocks s ! b) @ code\<rparr>], cg_next := cg_next s + length code\<rparr>"

definition numbered :: "nat \<Rightarrow> (nat \<times> linstr) list \<Rightarrow> bool" where
  "numbered n code \<longleftrightarrow> map fst code = [n..<n + length code]"

lemma append_code_Nil [simp]: "append_code b [] s = s"
  by (simp add: append_code_def)

lemma append_code_append:
  "ready b s \<Longrightarrow> append_code b d (append_code b c s) = append_code b (c @ d) s"
  by (simp add: append_code_def ready_def add.assoc)

lemma ready_append_code [simp]: "ready b (append_code b c s) = ready b s"
  by (simp add: ready_def append_code_def)

lemma append_code_fields [simp]:
  "cg_next (append_code b c s) = cg_next s + length c"
  "cg_variables (append_code b c s) = cg_variables s"
  "cg_mutable_slots (append_code b c s) = cg_mutable_slots s"
  by (simp_all add: append_code_def)

lemma emit_ready: "ready b s \<Longrightarrow> emit ins s = Inr (cg_next s, append_code b [(cg_next s, ins)] s)"
  by (simp add: ready_def emit_def add_instr_def append_code_def)

lemma run_code_append: "run_code ops (c @ d) env = run_code ops d (run_code ops c env)"
  by (simp add: run_code_def)

lemma run_instr_other: "fst c \<noteq> k \<Longrightarrow> run_instr ops c env k = env k"
  by (cases "snd c") (simp_all add: run_instr_def)

lemma run_code_other: "k \<notin> fst ` set code \<Longrightarrow> run_code ops code env k = env k"
  unfolding run_code_def by (induction code arbitrary: env) (auto simp: run_instr_other)

lemma numbered_range: "numbered n code \<Longrightarrow> fst ` set code = {n..<n + length code}"
  unfolding numbered_def by (metis list.set_map set_upt)

text \<open>A value that is already there, and that later code leaves alone.\<close>

definition settled :: "nat \<Rightarrow> vref \<Rightarrow> bool" where
  "settled n r \<longleftrightarrow> (\<exists>w. r = RConst w) \<or> (\<exists>k < n. r = RInstr k)"

lemma settled_mono: "settled n r \<Longrightarrow> n \<le> m \<Longrightarrow> settled m r"
  by (auto simp: settled_def)

lemma ref_value_run_code:
  assumes "numbered n code" "settled n r"
  shows "ref_value (run_code ops code env) r = ref_value env r"
proof -
  have "run_code ops code env k = env k" if "k < n" for k
    using that numbered_range [OF assms(1)] by (intro run_code_other) auto
  then show ?thesis using assms(2) by (auto simp: settled_def ref_value_def)
qed

text \<open>Instructions that read and write no memory.\<close>

definition pure_instr :: "linstr \<Rightarrow> bool" where
  "pure_instr ins = (case ins of IBin _ _ _ \<Rightarrow> True | INot _ \<Rightarrow> True | IIcmp _ _ _ \<Rightarrow> True | IZext _ _ \<Rightarrow> True | _ \<Rightarrow> False)"

definition pure_code :: "(nat \<times> linstr) list \<Rightarrow> bool" where
  "pure_code code \<longleftrightarrow> (\<forall>c \<in> set code. pure_instr (snd c))"

lemma pure_code_simps [simp]:
  "pure_code []" "pure_code (c # code) \<longleftrightarrow> pure_instr (snd c) \<and> pure_code code"
  "pure_code (code @ rest) \<longleftrightarrow> pure_code code \<and> pure_code rest"
  by (auto simp: pure_code_def)

lemma pure_instr_simps [simp]:
  "pure_instr (IBin op a b)" "pure_instr (INot a)" "pure_instr (IIcmp pr a b)" "pure_instr (IZext a n)"
  by (simp_all add: pure_instr_def)

text \<open>\<open>computes\<close>: the computation emits straight-line code that leaves the value \<open>w\<close> in its result.\<close>

definition computes :: "llvm_ops \<Rightarrow> nat \<Rightarrow> (nat \<Rightarrow> u64) \<Rightarrow> cg \<Rightarrow> sval cgm \<Rightarrow> u64 \<Rightarrow> bool" where
  "computes ops b env s m w \<longleftrightarrow> (\<exists>r code. m s = Inr (SImm (64, r), append_code b code s)
     \<and> numbered (cg_next s) code \<and> pure_code code \<and> settled (cg_next s + length code) r
     \<and> ref_value (run_code ops code env) r = w)"

definition holds_vars :: "(nat \<Rightarrow> u64) \<Rightarrow> (string \<Rightarrow> u64) \<Rightarrow> string list \<Rightarrow> cg \<Rightarrow> bool" where
  "holds_vars env rho xs s \<longleftrightarrow> (\<forall>x \<in> set xs. hm_get (cg_mutable_slots s) x = None
     \<and> (\<exists>r. hm_get (cg_variables s) x = Some (SImm (64, r)) \<and> settled (cg_next s) r \<and> ref_value env r = rho x))"

lemma holds_vars_append_code:
  assumes "holds_vars env rho xs s" "numbered (cg_next s) code"
  shows "holds_vars (run_code ops code env) rho xs (append_code b code s)"
  using assms unfolding holds_vars_def by (fastforce simp: ref_value_run_code intro: settled_mono)

lemma numbered_append:
  "numbered n c \<Longrightarrow> numbered (n + length c) d \<Longrightarrow> numbered n (c @ d)"
  using upt_add_eq_append [of n "n + length c" "length d"]
  by (simp only: numbered_def map_append length_append add.assoc le_add1)

lemma numbered_single [simp]: "numbered n [(n, ins)]" "numbered n []"
  by (simp_all add: numbered_def)

lemma settled_simps [simp]: "settled n (RConst w)" "settled n (RInstr k) \<longleftrightarrow> k < n"
  by (auto simp: settled_def)

lemma ref_value_simps [simp]: "ref_value env (RConst w) = w" "ref_value env (RInstr n) = env n"
  by (simp_all add: ref_value_def)

text \<open>One more instruction after code that computed its operands.\<close>

lemma computes_step:
  assumes rd: "ready b s" and num: "numbered (cg_next s) code"
    and w: "run_instr ops (cg_next s + length code, ins) (run_code ops code env) (cg_next s + length code) = w"
  shows "emit ins (append_code b code s) =
      Inr (cg_next s + length code, append_code b (code @ [(cg_next s + length code, ins)]) s)"
    and "numbered (cg_next s) (code @ [(cg_next s + length code, ins)])"
    and "ref_value (run_code ops (code @ [(cg_next s + length code, ins)]) env) (RInstr (cg_next s + length code)) = w"
  using emit_ready [of b "append_code b code s" ins] append_code_append [OF rd, of "[(cg_next s + length code, ins)]" code]
    rd w numbered_append [OF num] by (simp_all add: run_code_append) (simp add: run_code_def)

lemma computes_binary:
  assumes rd: "ready b s" and a: "computes ops b env s ma x"
    and bb: "\<And>code. numbered (cg_next s) code \<Longrightarrow>
      computes ops b (run_code ops code env) (append_code b code s) mb y"
    and fin: "\<And>r q s' code. ready b s \<Longrightarrow> numbered (cg_next s) code \<Longrightarrow>
      ref_value (run_code ops code env) r = x \<Longrightarrow> ref_value (run_code ops code env) q = y \<Longrightarrow>
      settled (cg_next s + length code) r \<Longrightarrow> settled (cg_next s + length code) q \<Longrightarrow>
      \<exists>t more. k (64, r) (64, q) (append_code b code s) = Inr (SImm (64, t), append_code b (code @ more) s)
        \<and> numbered (cg_next s) (code @ more) \<and> pure_code more \<and> settled (cg_next s + length (code @ more)) t
        \<and> ref_value (run_code ops (code @ more) env) t = w"
  shows "computes ops b env s (cg_bind ma (\<lambda>va. cg_bind (as_int va) (\<lambda>av.
     cg_bind mb (\<lambda>vb. cg_bind (as_int vb) (\<lambda>bv. k av bv))))) w"
proof -
  obtain r c where r: "ma s = Inr (SImm (64, r), append_code b c s)" "numbered (cg_next s) c"
    "settled (cg_next s + length c) r" "ref_value (run_code ops c env) r = x" and pc: "pure_code c"
    using a by (auto simp: computes_def)
  obtain q d where q: "mb (append_code b c s) = Inr (SImm (64, q), append_code b d (append_code b c s))"
    "numbered (cg_next s + length c) d" "settled (cg_next s + length c + length d) q"
    "ref_value (run_code ops d (run_code ops c env)) q = y" and pd: "pure_code d"
    using bb [OF r(2)] by (auto simp: computes_def)
  have "ref_value (run_code ops (c @ d) env) r = x"
    using r q by (simp add: run_code_append ref_value_run_code)
  then obtain t more where "k (64, r) (64, q) (append_code b (c @ d) s) = Inr (SImm (64, t), append_code b ((c @ d) @ more) s)"
    "numbered (cg_next s) ((c @ d) @ more)" "settled (cg_next s + length ((c @ d) @ more)) t"
    "ref_value (run_code ops ((c @ d) @ more) env) t = w" "pure_code more"
    using fin [OF rd numbered_append [OF r(2) q(2)], of r q] q r settled_mono [OF r(3)]
    by (auto simp: run_code_append add.assoc)
  then show ?thesis
    using r(1) q(1) rd pc pd unfolding computes_def
    by (intro exI [of _ t] exI [of _ "(c @ d) @ more"])
      (simp add: cg_bind_def as_int_def cg_ret_def append_code_append)
qed

lemma computes_int_binop:
  assumes "ready b s" "computes ops b env s ma x"
    and "\<And>code. numbered (cg_next s) code \<Longrightarrow> computes ops b (run_code ops code env) (append_code b code s) mb y"
    and w: "lo_bin ops op x y = w"
  shows "computes ops b env s (compile_int_binop ma mb op) w"
  unfolding compile_int_binop_def
proof (rule computes_binary [OF assms(1-3)])
  fix r q s' code
  assume h: "ready b s" "numbered (cg_next s) code" "ref_value (run_code ops code env) r = x"
    "ref_value (run_code ops code env) q = y"
  let ?i = "IBin op (64, r) (64, q)" and ?n = "cg_next s + length code"
  have "run_instr ops (?n, ?i) (run_code ops code env) ?n = w" using h w by (simp add: run_instr_def)
  note step = computes_step [OF h(1,2) this]
  show "\<exists>t more. cg_bind (normalize_int_types (64, r) (64, q)) (\<lambda>(av, bv). cg_bind (emit_int (fst av) (IBin op av bv))
      (\<lambda>r. cg_ret (SImm r))) (append_code b code s) = Inr (SImm (64, t), append_code b (code @ more) s)
      \<and> numbered (cg_next s) (code @ more) \<and> pure_code more \<and> settled (cg_next s + length (code @ more)) t
      \<and> ref_value (run_code ops (code @ more) env) t = w"
    using step by (intro exI [of _ "RInstr ?n"] exI [of _ "[(?n, ?i)]"])
      (simp add: normalize_int_types_def emit_int_def cg_bind_def cg_ret_def)
qed

lemma computes_int_cmp:
  assumes "ready b s" "computes ops b env s ma x"
    and "\<And>code. numbered (cg_next s) code \<Longrightarrow> computes ops b (run_code ops code env) (append_code b code s) mb y"
    and w: "bool_word (lo_cmp ops pr x y) = w"
  shows "computes ops b env s (compile_int_cmp ma mb pr) w"
  unfolding compile_int_cmp_def
proof (rule computes_binary [OF assms(1-3)])
  fix r q s' code
  assume h: "ready b s" "numbered (cg_next s) code" "ref_value (run_code ops code env) r = x"
    "ref_value (run_code ops code env) q = y"
  let ?i = "IIcmp pr (64, r) (64, q)" and ?n = "cg_next s + length code"
  let ?j = "IZext (1, RInstr ?n) 64"
  have "run_instr ops (?n, ?i) (run_code ops code env) ?n = w" using h w by (simp add: run_instr_def)
  note s1 = computes_step [OF h(1,2) this]
  have "run_instr ops (?n + 1, ?j) (run_code ops (code @ [(?n, ?i)]) env) (?n + 1) = w"
    using s1(3) by (simp add: run_instr_def)
  then have s2: "run_instr ops (cg_next s + length (code @ [(?n, ?i)]), ?j) (run_code ops (code @ [(?n, ?i)]) env)
      (cg_next s + length (code @ [(?n, ?i)])) = w" by simp
  note s2 = computes_step [OF h(1) s1(2) s2]
  show "\<exists>t more. cg_bind (normalize_int_types (64, r) (64, q)) (\<lambda>(av, bv). cg_bind (emit_int 1 (IIcmp pr av bv))
      (\<lambda>cmp. cg_bind (emit_int 64 (IZext cmp 64)) (\<lambda>ext. cg_ret (SImm ext))))
      (append_code b code s) = Inr (SImm (64, t), append_code b (code @ more) s)
      \<and> numbered (cg_next s) (code @ more) \<and> pure_code more \<and> settled (cg_next s + length (code @ more)) t
      \<and> ref_value (run_code ops (code @ more) env) t = w"
    using s1 s2 by (intro exI [of _ "RInstr (?n + 1)"] exI [of _ "[(?n, ?i), (?n + 1, ?j)]"])
      (simp add: normalize_int_types_def emit_int_def cg_bind_def cg_ret_def)
qed

lemma computes_unary:
  assumes rd: "ready b s" and a: "computes ops b env s ma x"
    and f: "\<And>r. snd (f (64, r)) = g r" "\<And>r. fst (f (64, r)) = 64" "\<And>r. pure_instr (g r)"
    and w: "\<And>r env' n. ref_value env' r = x \<Longrightarrow> run_instr ops (n, g r) env' n = w"
  shows "computes ops b env s (int_unary ma f) w"
proof -
  obtain r c where r: "ma s = Inr (SImm (64, r), append_code b c s)" "numbered (cg_next s) c"
    "ref_value (run_code ops c env) r = x" "pure_code c"
    using a by (auto simp: computes_def)
  note step = computes_step [OF rd r(2) w [OF r(3)]]
  show ?thesis unfolding computes_def
    using step r(1,4) by (intro exI [of _ "RInstr (cg_next s + length c)"] exI [of _ "c @ [(cg_next s + length c, g r)]"])
      (simp add: int_unary_def cg_bind_def as_int_def cg_ret_def emit_int_def f)
qed

lemma langref_sub: "langref ops \<Longrightarrow> lo_bin ops LSub x y = x - y"
  unfolding langref_def by blast

lemma langref_not: "langref ops \<Longrightarrow> lo_not ops x = NOT x"
  unfolding langref_def by blast

lemma langref_iarith: "langref ops \<Longrightarrow> sigil_iarith op x y = Some w \<Longrightarrow> lo_bin ops (iarith_instr op) x y = w"
  by (cases op) (auto simp: langref_def split: if_splits)

lemma langref_icmp: "langref ops \<Longrightarrow> lo_cmp ops (icmp_pred op) x y = sigil_icmp op x y"
  by (cases op) (auto simp: langref_def)

lemma langref_bitop: "langref ops \<Longrightarrow> sigil_bitop op x y = Some w \<Longrightarrow> lo_bin ops (bitop_instr op) x y = w"
  by (cases op) (auto simp: langref_def split: if_splits)

lemma computes_expr:
  assumes ops: "langref ops"
  shows "ready b s \<Longrightarrow> holds_vars env rho (int_vars e) s \<Longrightarrow> sigil_value rho e = Some w \<Longrightarrow>
    computes ops b env s (compile_expr e) w"
proof (induction rho e arbitrary: s env w rule: sigil_value.induct)
  case (1 rho n)
  then show ?case by (auto simp: computes_def cg_ret_def i64_const_def intro!: exI [of _ "[]"] exI [of _ "RConst n"] simp: run_code_def)
next
  case (2 rho x)
  then obtain r where "hm_get (cg_variables s) x = Some (SImm (64, r))" "hm_get (cg_mutable_slots s) x = None"
    "settled (cg_next s) r" "ref_value env r = rho x"
    by (auto simp: holds_vars_def)
  then show ?case using 2
    by (auto simp: computes_def cg_get_var_def lookup_variable_def cg_bind_def cg_gets_def cg_ok_or_def cg_ret_def
        run_code_def intro!: exI [of _ "[]"] exI [of _ r])
next
  case (3 rho op a b' n)
  then obtain x y where xy: "sigil_value rho a = Some x" "sigil_value rho b' = Some y" "sigil_iarith op x y = Some w"
    by (auto split: option.splits)
  have v: "holds_vars env rho (int_vars a) s" "holds_vars env rho (int_vars b') s"
    using 3(4) by (auto simp: holds_vars_def)
  show ?case unfolding compile_expr.simps
    by (rule computes_int_binop [OF 3(3) 3(1) [OF 3(3) v(1) xy(1)] _ langref_iarith [OF ops xy(3)]])
      (use 3(2,3) v xy holds_vars_append_code in auto)
next
  case (4 rho a n)
  then obtain x where x: "sigil_value rho a = Some x" "w = - x" by auto
  have v: "holds_vars env rho (int_vars a) s" using 4(3) by simp
  show ?case unfolding compile_expr.simps
    by (rule computes_unary [OF 4(2) 4(1) [OF 4(2) v x(1)]])
      (use x in \<open>auto simp: run_instr_def i64_const_def langref_sub [OF ops]\<close>)
next
  case (5 rho op a b' n)
  then obtain x y where xy: "sigil_value rho a = Some x" "sigil_value rho b' = Some y" "w = bool_word (sigil_icmp op x y)"
    by (auto split: option.splits)
  have v: "holds_vars env rho (int_vars a) s" "holds_vars env rho (int_vars b') s"
    using 5(4) by (auto simp: holds_vars_def)
  show ?case unfolding compile_expr.simps
    by (rule computes_int_cmp [OF 5(3) 5(1) [OF 5(3) v(1) xy(1)]])
      (use 5(2,3) v xy holds_vars_append_code langref_icmp [OF ops] in auto)
next
  case (6 rho op a b' n)
  then obtain x y where xy: "sigil_value rho a = Some x" "sigil_value rho b' = Some y" "sigil_bitop op x y = Some w"
    by (auto split: option.splits)
  have v: "holds_vars env rho (int_vars a) s" "holds_vars env rho (int_vars b') s"
    using 6(4) by (auto simp: holds_vars_def)
  show ?case unfolding compile_expr.simps
    by (rule computes_int_binop [OF 6(3) 6(1) [OF 6(3) v(1) xy(1)] _ langref_bitop [OF ops xy(3)]])
      (use 6(2,3) v xy holds_vars_append_code in auto)
next
  case (7 rho a n)
  then obtain x where x: "sigil_value rho a = Some x" "w = NOT x" by auto
  have v: "holds_vars env rho (int_vars a) s" using 7(3) by simp
  show ?case unfolding compile_expr.simps
    by (rule computes_unary [OF 7(2) 7(1) [OF 7(2) v x(1)]])
      (use x in \<open>auto simp: run_instr_def langref_not [OF ops]\<close>)
qed simp_all

section \<open>A documented machine\<close>

text \<open>One meaning of the instructions that has every documented fact (\<open>langref\<close> can hold).\<close>

primrec reference_bin :: "lbin \<Rightarrow> u64 \<Rightarrow> u64 \<Rightarrow> u64" where
  "reference_bin LAdd x y = x + y"
| "reference_bin LSub x y = x - y"
| "reference_bin LMul x y = x * y"
| "reference_bin LSDiv x y = word_sdiv x y"
| "reference_bin LSRem x y = word_smod x y"
| "reference_bin LAnd x y = x AND y"
| "reference_bin LOr x y = x OR y"
| "reference_bin LXor x y = x XOR y"
| "reference_bin LShl x y = push_bit (unat y) x"
| "reference_bin LLshr x y = drop_bit (unat y) x"
| "reference_bin LAshr x y = signed_drop_bit (unat y) x"

primrec reference_cmp :: "lpred \<Rightarrow> u64 \<Rightarrow> u64 \<Rightarrow> bool" where
  "reference_cmp PEq x y = (x = y)"
| "reference_cmp PNe x y = (x \<noteq> y)"
| "reference_cmp PSlt x y = (sint x < sint y)"
| "reference_cmp PSgt x y = (sint y < sint x)"
| "reference_cmp PSle x y = (sint x \<le> sint y)"
| "reference_cmp PSge x y = (sint y \<le> sint x)"
| "reference_cmp PUgt x y = (y < x)"

definition reference_ops :: llvm_ops where
  "reference_ops = \<lparr>lo_bin = reference_bin, lo_cmp = reference_cmp, lo_not = (\<lambda>x. NOT x)\<rparr>"

lemma langref_reference: "langref reference_ops"
  by (simp add: langref_def reference_ops_def)

section \<open>Correctness of integer expressions\<close>

text \<open>C11: the code of an integer expression is right. When the locals hold their values and the language
  gives the expression the value \<open>w\<close>, code generation succeeds, appends straight-line code to the current
  block (numbered from the next instruction on) and changes nothing else, and on any machine with LLVM's
  documented arithmetic that code leaves \<open>w\<close> in the operand it returns.\<close>

theorem int_expr_code_correct:
  assumes "langref ops" and "ready b s" and "holds_vars env rho (int_vars e) s"
    and "sigil_value rho e = Some w"
  shows "\<exists>r code. compile_expr e s = Inr (SImm (64, r), append_code b code s)
    \<and> map fst code = [cg_next s..<cg_next s + length code]
    \<and> (\<forall>k < cg_next s. run_code ops code env k = env k)
    \<and> ref_value (run_code ops code env) r = w"
proof -
  obtain r code where c: "compile_expr e s = Inr (SImm (64, r), append_code b code s)"
    "numbered (cg_next s) code" "ref_value (run_code ops code env) r = w"
    using computes_expr [OF assms] unfolding computes_def by blast
  have "run_code ops code env k = env k" if "k < cg_next s" for k
    using that numbered_range [OF c(2)] by (intro run_code_other) auto
  then show ?thesis using c unfolding numbered_def by blast
qed

text \<open>\<open>(x + 2) * -3\<close> at \<open>x = 5\<close>, with \<open>x\<close> in the first instruction.\<close>

definition demo_block :: cg where
  "demo_block = (cg_new (\<lambda>_. None) Linux)\<lparr>cg_blocks := [\<lparr>bk_fun = 0, bk_name = ''entry'', bk_code = []\<rparr>],
     cg_pos := Some 0, cg_next := 1, cg_variables := [(''x'', SImm (64, RInstr 0))]\<rparr>"

definition demo_int_expr :: expr where
  "demo_int_expr = IArith Imul (IArith Iadd (Var ''x'') (IntLit 2) 1) (Ineg (IntLit 3) 1) 1"

lemma int_expr_code_correct_witness:
  "\<exists>r code. compile_expr demo_int_expr demo_block = Inr (SImm (64, r), append_code 0 code demo_block)
    \<and> map fst code = [cg_next demo_block..<cg_next demo_block + length code]
    \<and> (\<forall>k < cg_next demo_block. run_code reference_ops code (\<lambda>_. 5) k = 5)
    \<and> ref_value (run_code reference_ops code (\<lambda>_. 5)) r = - 21"
proof (rule int_expr_code_correct [OF langref_reference])
  show "ready 0 demo_block" by (simp add: ready_def demo_block_def cg_new_def)
  show "holds_vars (\<lambda>_. 5) (\<lambda>_. 5) (int_vars demo_int_expr) demo_block"
    by (simp add: holds_vars_def demo_block_def demo_int_expr_def cg_new_def hm_get_def)
  show "sigil_value (\<lambda>_. 5) demo_int_expr = Some (- 21)"
    by (simp add: demo_int_expr_def)
qed

section \<open>The bounds check\<close>

text \<open>Where control goes at the end of a block, from the values before the code \<open>code\<close> of its tail.\<close>

definition successor :: "llvm_ops \<Rightarrow> (nat \<Rightarrow> u64) \<Rightarrow> (nat \<times> linstr) list \<Rightarrow> nat option" where
  "successor ops env code = (case snd (last code) of
       IBr t \<Rightarrow> Some t
     | ICondBr c t f \<Rightarrow> Some (if ref_value (run_code ops code env) (snd c) \<noteq> 0 then t else f)
     | _ \<Rightarrow> None)"

lemma get_or_declare_names:
  "\<exists>i s'. get_or_declare name ps t s = Inr (i, s') \<and> i < length (cg_functions s')
     \<and> fd_name (cg_functions s' ! i) = name \<and> cg_blocks s' = cg_blocks s \<and> cg_pos s' = cg_pos s
     \<and> cg_next s' = cg_next s \<and> cg_refuses s' = cg_refuses s"
proof -
  have idx: "function_index name ds = Some i \<Longrightarrow> i < length ds \<and> fd_name (ds ! i) = name" for ds i
    by (induction ds arbitrary: i) (auto split: if_splits simp: nth_Cons')
  show ?thesis
    using idx by (auto simp: get_or_declare_def get_function_def add_function_def cg_bind_def cg_gets_def
        cg_ret_def nth_append split: option.splits)
qed

lemma langref_add: "langref ops \<Longrightarrow> lo_bin ops LAdd x y = x + y"
  unfolding langref_def by blast

lemma langref_ugt: "langref ops \<Longrightarrow> lo_cmp ops PUgt x y = (y < x)"
  unfolding langref_def by blast

lemma bounds_check_code:
  assumes ops: "langref ops" and rd: "ready b s" and st: "settled (cg_next s) r"
  shows "\<exists>s' code abort_fn i j. emit_bounds_check (64, r) n m f s = Inr ((), s')
    \<and> bk_code (cg_blocks s' ! b) = bk_code (cg_blocks s ! b) @ code
    \<and> successor ops env code =
        Some (if m < ref_value env r + n then length (cg_blocks s) else length (cg_blocks s) + 1)
    \<and> bk_code (cg_blocks s' ! length (cg_blocks s)) = [(i, ICall abort_fn []), (j, IUnreachable)]
    \<and> fd_name (cg_functions s' ! abort_fn) = ''abort''
    \<and> cg_pos s' = Some (length (cg_blocks s) + 1)
    \<and> bk_code (cg_blocks s' ! (length (cg_blocks s) + 1)) = []"
proof -
  let ?n = "cg_next s" and ?v = "length (cg_blocks s)"
  let ?code = "[(?n, IBin LAdd (64, r) (64, RConst n)), (?n + 1, IIcmp PUgt (64, RInstr ?n) (64, RConst m)),
     (?n + 2, ICondBr (1, RInstr (?n + 1)) ?v (?v + 1))]"
  have env: "ref_value (run_code ops ?code env) (RInstr (?n + 1)) = bool_word (m < ref_value env r + n)"
    by (simp add: run_code_def run_instr_def langref_add [OF ops] langref_ugt [OF ops])
  then have succ: "successor ops env ?code = Some (if m < ref_value env r + n then ?v else ?v + 1)"
    by (simp add: successor_def bool_word_def del: ref_value_simps)
  have b: "cg_pos s = Some b" "b < ?v" "\<And>i. cg_refuses s i = None" using rd by (auto simp: ready_def)
  define s1 where "s1 = s\<lparr>cg_blocks := (cg_blocks s)[b := (cg_blocks s ! b)\<lparr>bk_code := bk_code (cg_blocks s ! b) @ ?code\<rparr>]
      @ [\<lparr>bk_fun = f, bk_name = ''bounds_violation'', bk_code = []\<rparr>, \<lparr>bk_fun = f, bk_name = ''bounds_ok'', bk_code = []\<rparr>],
      cg_next := ?n + 3, cg_pos := Some ?v\<rparr>"
  obtain a s2 where a: "get_or_declare_abort s1 = Inr (a, s2)" "fd_name (cg_functions s2 ! a) = ''abort''"
    "cg_blocks s2 = cg_blocks s1" "cg_pos s2 = cg_pos s1" "cg_next s2 = cg_next s1" "cg_refuses s2 = cg_refuses s1"
    using get_or_declare_names [of "''abort''" "[]" None s1] unfolding get_or_declare_abort_def by blast
  define s' where "s' = s2\<lparr>cg_blocks := (cg_blocks s1)[?v := \<lparr>bk_fun = f, bk_name = ''bounds_violation'',
      bk_code = [(?n + 3, ICall a []), (?n + 4, IUnreachable)]\<rparr>], cg_next := ?n + 5, cg_pos := Some (?v + 1)\<rparr>"
  have front: "cg_bind (emit_int 64 (IBin LAdd (64, r) (64, RConst n))) (\<lambda>e.
      cg_bind (emit_int 1 (IIcmp PUgt e (64, RConst m))) (\<lambda>v.
      cg_bind (append_basic_block f ''bounds_violation'') (\<lambda>vb. cg_bind (append_basic_block f ''bounds_ok'') (\<lambda>cb.
      cg_then (emit_unit (ICondBr v vb cb)) (cg_then (position_at_end vb) (K cb)))))) s = K (?v + 1) s1"
    for K :: "nat \<Rightarrow> unit cgm"
    using b by (simp add: cg_bind_def cg_then_def emit_int_def emit_unit_def emit_def
        add_instr_def append_basic_block_def position_at_end_def cg_modify_def cg_ret_def s1_def
        list_update_append nth_append numeral_3_eq_3)
  have run: "emit_bounds_check (64, r) n m f s = Inr ((), s')"
    unfolding emit_bounds_check_def i64_const_def fst_conv front using a b
    by (simp add: cg_bind_def cg_then_def emit_unit_def emit_def
        add_instr_def position_at_end_def cg_modify_def cg_ret_def s1_def s'_def list_update_append nth_append)
  have blocks: "bk_code (cg_blocks s' ! b) = bk_code (cg_blocks s ! b) @ ?code"
    "bk_code (cg_blocks s' ! ?v) = [(?n + 3, ICall a []), (?n + 4, IUnreachable)]"
    "bk_code (cg_blocks s' ! (?v + 1)) = []" "cg_pos s' = Some (?v + 1)"
    "fd_name (cg_functions s' ! a) = ''abort''"
    using b a by (simp_all add: s'_def s1_def nth_append)
  show ?thesis
    by (intro exI [of _ s'] exI [of _ ?code] exI [of _ a] exI [of _ "?n + 3"] exI [of _ "?n + 4"] conjI
        run succ blocks)
qed

lemma word_bound_sum:
  fixes x n m :: u64
  shows "unat x + unat n < 2 ^ 64 \<Longrightarrow> m < x + n \<longleftrightarrow> unat m < unat x + unat n"
    and "2 ^ 64 \<le> unat x + unat n \<Longrightarrow> n \<le> m \<Longrightarrow> \<not> m < x + n"
proof -
  assume h: "unat x + unat n < 2 ^ 64"
  then show "m < x + n \<longleftrightarrow> unat m < unat x + unat n"
    by (simp add: word_less_nat_alt unat_word_ariths)
next
  assume h: "2 ^ 64 \<le> unat x + unat n" "n \<le> m"
  have "unat x < 2 ^ 64" "unat n < 2 ^ 64" using unsigned_less [of x] unsigned_less [of n] by simp_all
  then have "(unat x + unat n) mod 2 ^ 64 = unat x + unat n - 2 ^ 64"
    using h(1) by (simp add: le_mod_geq)
  then have "unat (x + n) = unat x + unat n - 2 ^ 64" by (simp add: unat_word_ariths)
  then have "unat (x + n) < unat n" using h(1) \<open>unat x < 2 ^ 64\<close> by arith
  then show "\<not> m < x + n" using h(2) by (simp add: word_less_nat_alt word_le_nat_alt)
qed



end
