(* ===== verification/Sigil_Codegen_Layout.thy ===== *)
theory Sigil_Codegen_Layout
  imports Sigil_Codegen_Logic
begin

text \<open>
  The calling convention for outputs (\<open>build_sig_from_contract\<close>): the caller allocates one buffer for
  all outputs of a call and passes a pointer to the slot of each; the callee gives each output
  parameter the size of its slot. Sizes and offsets are \<^verbatim>\<open>usize\<close>, so the layout is right as long
  as the outputs fit in the address space.
\<close>

definition outputs_fit :: "parameter list \<Rightarrow> bool" where
  "outputs_fit ps \<longleftrightarrow> sum_list (map (\<lambda>p. unat (param_phys_size p)) ps) < 2 ^ 64"

definition slot_end :: "output_slot \<Rightarrow> nat" where
  "slot_end sl = unat (os_offset sl) + unat (os_size sl)"

text \<open>The slots follow one another without gaps.\<close>

fun contiguous :: "nat \<Rightarrow> output_slot list \<Rightarrow> bool" where
  "contiguous n [] \<longleftrightarrow> True"
| "contiguous n (sl # sls) \<longleftrightarrow> unat (os_offset sl) = n \<and> contiguous (slot_end sl) sls"

lemma unat_plus_fits: "unat x + unat y < 2 ^ 64 \<Longrightarrow> unat (x + y) = unat x + unat y" for x y :: u64
  by (simp add: unat_word_ariths)

lemma output_slots_contiguous:
  "unat off + sum_list (map (\<lambda>p. unat (param_phys_size p)) ps) < 2 ^ 64 \<Longrightarrow>
     contiguous (unat off) (output_slots off ps)"
proof (induction off ps rule: output_slots.induct)
  case (2 off p ps)
  then have "unat (off + param_phys_size p) = unat off + unat (param_phys_size p)"
    by (intro unat_plus_fits) simp
  then show ?case using 2 by (simp add: slot_end_def add.assoc)
qed simp

lemma contiguous_bounds:
  "contiguous n sls \<Longrightarrow> sl \<in> set sls \<Longrightarrow>
     n \<le> unat (os_offset sl) \<and> slot_end sl \<le> n + sum_list (map (\<lambda>sl. unat (os_size sl)) sls)"
  by (induction n sls rule: contiguous.induct) (fastforce simp: slot_end_def)+

lemma contiguous_disjoint:
  "contiguous n sls \<Longrightarrow> i < j \<Longrightarrow> j < length sls \<Longrightarrow> slot_end (sls ! i) \<le> unat (os_offset (sls ! j))"
proof (induction n sls arbitrary: i j rule: contiguous.induct)
  case (2 n sl sls)
  then obtain k where k: "j = Suc k" "k < length sls" by (cases j) auto
  show ?case
  proof (cases i)
    case 0
    then show ?thesis using 2(2) k contiguous_bounds [of "slot_end sl" sls "sls ! k"] by auto
  next
    case (Suc m)
    then show ?thesis using 2(1) [of m k] 2(2,3) k by auto
  qed
qed simp

lemma output_slots_fields:
  "map os_name (output_slots off ps) = map p_name ps"
  "map os_size (output_slots off ps) = map param_phys_size ps"
  "map os_typ (output_slots off ps) = map (\<lambda>p. handle_type_of (p_typ p)) ps"
  by (induction off ps rule: output_slots.induct) auto

lemma unat_sum_list:
  "sum_list (map unat xs) < 2 ^ 64 \<Longrightarrow> unat (sum_list xs) = sum_list (map unat xs)" for xs :: "u64 list"
  by (induction xs) (simp_all add: unat_plus_fits)

lemma find_slot_distinct:
  "distinct (map os_name sls) \<Longrightarrow> i < length sls \<Longrightarrow> find_slot (os_name (sls ! i)) sls = Some (sls ! i)"
  unfolding find_slot_def by (auto simp: find_Some_iff nth_eq_iff_index_eq distinct_map dest: inj_onD
      intro!: exI [of _ i])


definition demo_outputs :: contract where
  "demo_outputs = \<lparr>c_inputs = [], c_outputs = [\<lparr>p_name = ''n'', p_typ = TInt, p_size = 4\<rparr>,
     \<lparr>p_name = ''t'', p_typ = TString, p_size = 32\<rparr>], c_requires = requirements_default, c_guarantees = []\<rparr>"


end
