(* ===== verification/Sigil_Codegen_Examples.thy ===== *)
theory Sigil_Codegen_Examples
  imports Sigil_Codegen_Labels Sigil_Codegen_Typed Sigil_Codegen_Sem Sigil_Codegen_Layout
begin

text \<open>
  The analyzer and the code generator side by side on concrete behaviors: one that both are right
  about, and behaviors the analyzer accepts for which the code generated is not what the language says.
\<close>

definition try_behavior :: "node list \<Rightarrow> behavior" where
  "try_behavior ns = (behavior_new ''try'')\<lparr>b_contract :=
     \<lparr>c_inputs = [\<lparr>p_name = ''x'', p_typ = TInt, p_size = 8\<rparr>],
      c_outputs = [\<lparr>p_name = ''o'', p_typ = TInt, p_size = 8\<rparr>],
      c_requires = requirements_default, c_guarantees = [WritesOutput]\<rparr>,
     b_implementations := [\<lparr>pi_platform = None, pi_nodes = ns\<rparr>]\<rparr>"

definition try_module :: "node list \<Rightarrow> cg_stop + nat \<times> cg" where
  "try_module ns = behavior_module any_builder Linux [] ''try'' (try_behavior ns)"

definition line :: "node_kind \<Rightarrow> node" where
  "line k = Node demo_line k"

abbreviation accepts :: "node list \<Rightarrow> bool" where
  "accepts ns \<equiv> analyze (\<lambda>_. []) (\<lambda>_. []) (try_behavior ns) [] [] = Some (Inr ())"

section \<open>The hypotheses of the theorems\<close>

definition tidy_body :: "node list" where
  "tidy_body = [line (Assignment ''v'' (Load (Var ''x'') 8 None)),
     line (Branch (ICmp Ilt (Var ''v'') (IntLit 0) 8) ''minus'' ''plus''),
     line (Label ''minus''), line (Store ''o'' (Ineg (Var ''v'') 8) 8 None), line (Jump ''end''),
     line (Label ''plus''), line (Store ''o'' (Var ''v'') 8 None), line (Label ''end'')]"

lemma tidy_body_accepted: "accepts tidy_body"
  by code_simp

lemma disciplined_code_typed_witness:
  "\<exists>f s. try_module tidy_body = Inr (f, s) \<and> code_typed s"
proof -
  have "disciplined [''v''] [] ''try'' (try_behavior tidy_body)" by code_simp
  moreover have "\<not> isl (try_module tidy_body)" by code_simp
  ultimately show ?thesis
    using disciplined_code_typed unfolding try_module_def by (metis sum.collapse(2) surj_pair)
qed

lemma structured_blocks_closed_witness:
  "\<exists>f s. try_module tidy_body = Inr (f, s) \<and> all_closed s"
proof -
  have "list_all structured (all_bodies (try_behavior tidy_body))" by code_simp
  moreover have "\<not> isl (try_module tidy_body)" by code_simp
  ultimately show ?thesis
    using structured_blocks_closed unfolding try_module_def by (metis sum.collapse(2) surj_pair)
qed

section \<open>Accepted behaviors with faulty code\<close>

definition module_state :: "cg_stop + nat \<times> cg \<Rightarrow> (cg \<Rightarrow> bool) \<Rightarrow> bool" where
  "module_state r P = (case r of Inl e \<Rightarrow> False | Inr (f, s) \<Rightarrow> P s)"

text \<open>
  \<^verbatim>\<open>INEG\<close> of a byte: the subtraction is built at 64 bits with an operand of 8, which LLVM
  refuses when it verifies the module.
\<close>

definition narrow_negation :: "node list" where
  "narrow_negation = [line (Assignment ''v'' (Load (Var ''x'') 1 None)),
     line (Assignment ''w'' (Ineg (Var ''v'') 1)), line (Store ''o'' (Var ''w'') 8 None)]"

lemma narrow_negation_untyped:
  "accepts narrow_negation" "module_state (try_module narrow_negation) (\<lambda>s. \<not> code_typed s)"
  by code_simp+

text \<open>
  A jump out of a scope: the call that destroys the scope is put behind the branch, and another
  branch after it, so the block is not well formed and the scope is not destroyed.
\<close>

definition jump_from_scope :: "node list" where
  "jump_from_scope = [line (Scope [line (Assignment ''v'' (IntLit 1)), line (Jump ''end'')]),
     line (Label ''end''), line (Store ''o'' (IntLit 2) 8 None)]"

lemma jump_from_scope_open:
  "accepts jump_from_scope" "module_state (try_module jump_from_scope) (\<lambda>s. \<not> all_closed s)"
  by code_simp+

text \<open>A channel in a variable that is assigned twice: sends look for it among the variables only.\<close>

definition channel_twice :: "node list" where
  "channel_twice = [line (Assignment ''c'' (Channel TInt (IntLit 1))),
     line (Assignment ''c'' (Channel TInt (IntLit 2))), line (ChannelSend ''c'' (IntLit 1)),
     line (ChannelClose ''c''), line (Store ''o'' (IntLit 2) 8 None)]"

lemma channel_twice_undefined:
  "accepts channel_twice" "module_code (try_module channel_twice) = Inl (Fails (CgUndefinedVariable ''c''))"
  by code_simp+

text \<open>
  \<^verbatim>\<open>SET\<close> of a variable that is assigned twice: the new value goes to the variables, later reads to
  the slot in memory. No instruction mentions the 3, and the output gets the 2.
\<close>

definition set_twice :: "node list" where
  "set_twice = [line (Assignment ''v'' (IntLit 1)), line (Assignment ''v'' (IntLit 2)),
     line (Set ''v'' (IntLit 3)), line (Store ''o'' (Var ''v'') 8 None)]"

lemma set_twice_lost:
  "accepts set_twice"
  "module_code (try_module set_twice) = Inr [(''entry'',
     [(1, IAlloca (LInt 64)), (0, ICall 3 [VPtr RNull]),
      (2, IStore (VInt (64, RConst 1)) (RInstr 1)), (3, IStore (VInt (64, RConst 2)) (RInstr 1)),
      (4, ILoad (LInt 64) (RInstr 1)), (5, IStore (VInt (64, RInstr 4)) (RParam 1)),
      (6, ICall 4 [VPtr (RInstr 0)]), (7, IRet None)])]"
  by code_simp+

text \<open>
  A handle allocated on both arms of a branch: the code after the join uses the allocation of the
  second arm (instruction 6), which the first arm never executes.
\<close>

definition alloc_on_both_arms :: "node list" where
  "alloc_on_both_arms = [line (Assignment ''v'' (Load (Var ''x'') 8 None)),
     line (Branch (Var ''v'') ''a'' ''b''),
     line (Label ''a''), line (Assignment ''h'' (Alloc (IntLit 8) TInt False)), line (Jump ''c''),
     line (Label ''b''), line (Assignment ''h'' (Alloc (IntLit 16) TInt False)),
     line (Label ''c''), line (Store ''h'' (IntLit 7) 8 None), line (Store ''o'' (IntLit 1) 8 None),
     line (Free ''h'')]"

lemma alloc_on_both_arms_second:
  "accepts alloc_on_both_arms"
  "module_state (try_module alloc_on_both_arms) (\<lambda>s. map (map snd \<circ> bk_code) (cg_blocks s) =
     [[ICall 3 [VPtr RNull], ILoad (LInt 64) (RParam 0), IIcmp PNe (64, RInstr 1) (64, RConst 0),
       ICondBr (1, RInstr 2) 1 2],
      [ICall 4 [VPtr (RInstr 0), VInt (64, RConst 8)], IBr 3],
      [ICall 4 [VPtr (RInstr 0), VInt (64, RConst 16)], IBr 3],
      [IStore (VInt (64, RConst 7)) (RInstr 6), IStore (VInt (64, RConst 1)) (RParam 1),
       ICall 5 [VPtr (RInstr 0), VPtr (RInstr 6)], ICall 6 [VPtr (RInstr 0)], IRet None]])"
  by code_simp+

section \<open>Patterns\<close>

text \<open>
  The locals of patterns and entries are never backed by memory (\<open>collect_reassigned\<close> is for
  behaviors): in a loop the counter reads as its first value. The branch below compares the
  constant 3.
\<close>

definition countdown :: pattern where
  "countdown = \<lparr>pt_name = ''countdown'', pt_memory = [], pt_on_create =
     [line (Assignment ''i'' (IntLit 3)), line (Label ''loop''),
      line (Branch (Var ''i'') ''body'' ''end''), line (Label ''body''),
      line (Assignment ''i'' (IArith Isub (Var ''i'') (IntLit 1) 8)), line (Jump ''loop''),
      line (Label ''end'')], pt_behaviors = [], pt_on_destroy = []\<rparr>"

lemma countdown_never_ends:
  "module_state (pattern_module any_builder Linux [] countdown) (\<lambda>s. map (map snd \<circ> bk_code) (cg_blocks s) =
     [[IBr 1], [IIcmp PNe (64, RConst 3) (64, RConst 0), ICondBr (1, RInstr 1) 2 3],
      [IBin LSub (64, RConst 3) (64, RConst 1), IBr 1], [IRet None]])"
  by code_simp

text \<open>
  The behaviors and the \<^verbatim>\<open>ON_DESTROY\<close> statements of a pattern are not compiled: the module is the
  same without them.
\<close>

lemma pattern_module_ignores:
  "pattern_module B p contracts (pt\<lparr>pt_on_destroy := ns, pt_behaviors := bs\<rparr>) = pattern_module B p contracts pt"
  by (simp add: pattern_module_def compile_pattern_def pattern_sig_def)

text \<open>
  Arguments of a \<^verbatim>\<open>SPAWN\<close> beyond the memory of the pattern are stored past the buffer: 8 bytes are
  allocated, and the third argument is stored at offset 16.
\<close>

definition small_memory :: pattern where
  "small_memory = \<lparr>pt_name = ''small'', pt_memory = [\<lparr>md_name = ''m'', md_typ = TInt, md_size = 8\<rparr>],
     pt_on_create = [], pt_behaviors = [], pt_on_destroy = []\<rparr>"

definition spawn_three :: executable where
  "spawn_three = \<lparr>ex_name = ''run'', ex_description = None, ex_uses = [''small''],
     ex_entry = [line (SpawnNode ''t'' ''small'' [IntLit 1, IntLit 2, IntLit 3])]\<rparr>"

lemma spawn_three_overflows:
  "module_state (entry_module any_builder Linux [] [] [(''small'', small_memory)] spawn_three)
     (\<lambda>s. take 7 (map snd (bk_code (cg_blocks s ! 0))) =
     [ICall 4 [VPtr RNull], IAllocaBytes 8, IStore (VInt (64, RConst 1)) (RInstr 1),
      IGepByte (RInstr 1) (64, RConst 8), IStore (VInt (64, RConst 2)) (RInstr 3),
      IGepByte (RInstr 1) (64, RConst 16), IStore (VInt (64, RConst 3)) (RInstr 5)])"
  by code_simp

text \<open>An atomic load of a handle is compiled as the plain load of it, and an atomic store as a plain store.\<close>

lemma atomic_load_plain:
  "cg_get_var x s = Inr (SHandle h, s') \<Longrightarrow>
     compile_expr (AtomicLoad (Var x) n) s = compile_expr (Load (Var x) n None) s"
  by (simp add: cg_bind_def compile_load_def as_handle_def pointer_or_handle_def cg_ret_def)

lemma atomic_store_plain:
  assumes "cg_get_var x s = Inr (SHandle h, s)"
  shows "cg_then (compile_expr (AtomicStore (Var x) e n)) (cg_ret ()) s = compile_store x e n None s"
  using assms by (simp add: cg_bind_def cg_then_def compile_store_def as_handle_def pointer_or_handle_def cg_ret_def
      split: sum.split)

text \<open>Names that differ are mangled alike; the second declaration is dropped and both calls go to the first.\<close>

lemma mangle_collides: "mangle ''read-all'' = mangle ''read_all''" "mangle ''wait'' = ''sigil_wait''"
  by code_simp+

end
