(* ===== verification/Sigil_Codegen_Run.thy ===== *)
theory Sigil_Codegen_Run
  imports Sigil_Codegen_Sem Sigil_Codegen_Blocks
begin

text \<open>
  Compiled behaviors computing what they should: for the leaf behaviors whose body is a sequence of
  loads of inputs, integer assignments and stores to outputs, all 8 bytes wide, running the code of
  the module leaves in the memory of the parameters what the statements say.

  The memory is seen through the parameters, each of which points to a cell of its own; the functions
  of the runtime do not touch those cells.
\<close>

section \<open>Running code with memory\<close>

type_synonym machine = "(nat \<Rightarrow> u64) \<times> (nat \<Rightarrow> u64)"

definition run_mem_instr :: "llvm_ops \<Rightarrow> nat \<times> linstr \<Rightarrow> machine \<Rightarrow> machine" where
  "run_mem_instr ops c m = (case snd c of
       ILoad t p \<Rightarrow> (case p of RParam i \<Rightarrow> ((fst m)(fst c := snd m i), snd m) | _ \<Rightarrow> m)
     | IStore v p \<Rightarrow> (case (v, p) of
           (VInt a, RParam i) \<Rightarrow> (fst m, (snd m)(i := ref_value (fst m) (snd a)))
         | _ \<Rightarrow> m)
     | _ \<Rightarrow> (run_instr ops c (fst m), snd m))"

definition run_mem :: "llvm_ops \<Rightarrow> (nat \<times> linstr) list \<Rightarrow> machine \<Rightarrow> machine" where
  "run_mem ops code m = fold (run_mem_instr ops) code m"

lemma run_mem_simps [simp]:
  "run_mem ops [] m = m" "run_mem ops (c # code) m = run_mem ops code (run_mem_instr ops c m)"
  "run_mem ops (code @ rest) m = run_mem ops rest (run_mem ops code m)"
  by (simp_all add: run_mem_def)

lemma run_mem_pure: "pure_code code \<Longrightarrow> run_mem ops code (env, mem) = (run_code ops code env, mem)"
proof (induction code arbitrary: env)
  case (Cons c code)
  have "run_mem_instr ops c (env, mem) = (run_instr ops c env, mem)"
    using Cons.prems by (cases "snd c") (auto simp: run_mem_instr_def pure_instr_def)
  then show ?case using Cons by (simp add: run_code_def)
qed (simp add: run_code_def)

section \<open>What the statements say\<close>

text \<open>
  The state of a run: the locals assigned so far with their values, and the cells of the parameters.
\<close>

type_synonym sigil_run_state = "string list \<times> (string \<Rightarrow> u64) \<times> (string \<Rightarrow> u64)"

definition param_read :: "expr \<Rightarrow> string option" where
  "param_read e = (case e of
       Load src n off \<Rightarrow> (case src of Var p \<Rightarrow> if n = 8 \<and> off = None then Some p else None | _ \<Rightarrow> None)
     | _ \<Rightarrow> None)"

definition value_of :: "string list \<Rightarrow> sigil_run_state \<Rightarrow> expr \<Rightarrow> u64 option" where
  "value_of ps = (\<lambda>(known, rho, cells) e. case param_read e of
       Some p \<Rightarrow> if p \<in> set ps then Some (cells p) else None
     | None \<Rightarrow> if set (int_vars e) \<subseteq> set known then sigil_value rho e else None)"

definition sigil_step :: "string list \<Rightarrow> node \<Rightarrow> sigil_run_state \<Rightarrow> sigil_run_state option" where
  "sigil_step ps stmt = (\<lambda>(known, rho, cells). case node_kind_of stmt of
       Assignment x e \<Rightarrow> if x \<in> set ps then None
         else map_option (\<lambda>w. (x # known, rho(x := w), cells)) (value_of ps (known, rho, cells) e)
     | Store p e n off \<Rightarrow> if p \<in> set ps \<and> n = 8 \<and> off = None
         then map_option (\<lambda>w. (known, rho, cells(p := w))) (value_of ps (known, rho, cells) e)
         else None
     | _ \<Rightarrow> None)"

fun sigil_run :: "string list \<Rightarrow> node list \<Rightarrow> sigil_run_state \<Rightarrow> sigil_run_state option" where
  "sigil_run ps [] st = Some st"
| "sigil_run ps (n # ns) st = Option.bind (sigil_step ps n st) (sigil_run ps ns)"

section \<open>One statement\<close>

text \<open>Code that neither branches nor calls.\<close>

definition straight_instr :: "linstr \<Rightarrow> bool" where
  "straight_instr ins = (case ins of ICall f vs \<Rightarrow> False | _ \<Rightarrow> \<not> is_terminator ins)"

definition straight_code :: "(nat \<times> linstr) list \<Rightarrow> bool" where
  "straight_code code \<longleftrightarrow> list_all (\<lambda>c. straight_instr (snd c)) code"

lemma straight_code_simps [simp]:
  "straight_code []" "straight_code (c # code) \<longleftrightarrow> straight_instr (snd c) \<and> straight_code code"
  "straight_code (code @ rest) \<longleftrightarrow> straight_code code \<and> straight_code rest"
  "straight_instr (ILoad t p)" "straight_instr (IStore v p)"
  by (simp_all add: straight_code_def straight_instr_def)

lemma pure_instr_straight: "pure_instr ins \<Longrightarrow> straight_instr ins"
  by (cases ins) (simp_all add: pure_instr_def straight_instr_def)

lemma pure_straight: "pure_code code \<Longrightarrow> straight_code code"
  using pure_instr_straight by (auto simp: pure_code_def straight_code_def list_all_iff)

definition word_param :: "nat \<Rightarrow> sval" where
  "word_param i = SHandle \<lparr>h_ptr = RParam i, h_size = 8, h_typ = HInt\<rparr>"

text \<open>What relates the generator, the machine and the run.\<close>

definition related ::
  "string list \<Rightarrow> nat \<Rightarrow> cg \<Rightarrow> machine \<Rightarrow> sigil_run_state \<Rightarrow> bool" where
  "related ps b s m = (\<lambda>(known, rho, cells). ready b s \<and> cg_mutable_slots s = [] \<and> cg_reassigned s = []
     \<and> (\<forall>i < length ps. hm_get (cg_variables s) (ps ! i) = Some (word_param i) \<and> snd m i = cells (ps ! i))
     \<and> holds_vars (fst m) rho known s)"

lemma int_bits_word [simp]: "int_bits 8 = 64"
  by (simp add: int_bits_def)

lemma cg_bind_step: "m s = Inr (a, s') \<Longrightarrow> cg_bind m f s = f a s'"
  "m s = Inr (a, s') \<Longrightarrow> cg_then m n s = n s'"
  by (simp_all add: cg_then_def cg_bind_def)

lemma load_param_code:
  "ready b s \<Longrightarrow> load_handle \<lparr>h_ptr = RParam i, h_size = 8, h_typ = HInt\<rparr> 8 (OConst 0) s =
     Inr (SImm (64, RInstr (cg_next s)), append_code b [(cg_next s, ILoad (LInt 64) (RParam i))] s)"
  by (simp add: load_handle_def dynamic_bounds_check_def access_ptr_def gep_at_def cg_then_def cg_bind_def cg_ret_def
      emit_int_def emit_ready)

lemma store_param_code:
  "ready b s \<Longrightarrow> store_handle \<lparr>h_ptr = RParam i, h_size = 8, h_typ = HInt\<rparr> (SImm (64, r)) 8 (OConst 0) s =
     Inr ((), append_code b [(cg_next s, IStore (VInt (64, r)) (RParam i))] s)"
  by (simp add: store_handle_def dynamic_bounds_check_def access_ptr_def gep_at_def cg_then_def cg_bind_def cg_ret_def
      emit_unit_def emit_ready resize_int_def)

text \<open>The value of an expression, a load of a parameter included.\<close>

lemma value_code:
  assumes ops: "langref ops" and rel: "related ps b s (env, mem) st" and v: "value_of ps st e = Some w"
    and d: "distinct ps"
  shows "\<exists>r code. compile_expr e s = Inr (SImm (64, r), append_code b code s)
    \<and> straight_code code \<and> settled (cg_next s + length code) r
    \<and> (\<exists>env'. run_mem ops code (env, mem) = (env', mem) \<and> (\<forall>k < cg_next s. env' k = env k) \<and> ref_value env' r = w)"
proof (cases "param_read e")
  case (Some p)
  obtain known rho cells where st: "st = (known, rho, cells)" by (cases st)
  from Some have e: "e = Load (Var p) 8 None"
    by (auto simp: param_read_def split: expr.splits if_splits)
  from v Some have "p \<in> set ps" "w = cells p" by (auto simp: st value_of_def split: if_splits)
  then obtain i where i: "i < length ps" "p = ps ! i" by (auto simp: in_set_conv_nth)
  then have var: "hm_get (cg_variables s) p = Some (word_param i)" and mem: "mem i = w"
    and rd: "ready b s" and ms: "cg_mutable_slots s = []"
    using rel \<open>w = cells p\<close> by (auto simp: related_def st)
  have "compile_expr e s = Inr (SImm (64, RInstr (cg_next s)), append_code b [(cg_next s, ILoad (LInt 64) (RParam i))] s)"
    using var ms load_param_code [OF rd, of i]
    by (simp add: e compile_load_def cg_bind_def cg_get_var_def lookup_variable_def cg_gets_def cg_ok_or_def cg_ret_def
        word_param_def pointer_or_handle_def hm_get_def)
  then show ?thesis
    by (intro exI [of _ "RInstr (cg_next s)"] exI [of _ "[(cg_next s, ILoad (LInt 64) (RParam i))]"])
      (simp add: run_mem_instr_def mem)
next
  case None
  obtain known rho cells where st: "st = (known, rho, cells)" by (cases st)
  have "holds_vars env rho (int_vars e) s" "ready b s" "sigil_value rho e = Some w"
    using rel v None by (auto simp: related_def st value_of_def holds_vars_def split: if_splits)
  from computes_expr [OF ops this(2,1,3)] obtain r code where c:
    "compile_expr e s = Inr (SImm (64, r), append_code b code s)" "numbered (cg_next s) code" "pure_code code"
    "settled (cg_next s + length code) r" "ref_value (run_code ops code env) r = w"
    unfolding computes_def by blast
  have "run_code ops code env k = env k" if "k < cg_next s" for k
    using that numbered_range [OF c(2)] by (intro run_code_other) auto
  then show ?thesis using c run_mem_pure [OF c(3)] pure_straight [OF c(3)] by blast
qed

lemma holds_vars_kept:
  assumes "holds_vars env rho xs s" "\<forall>k < cg_next s. env' k = env k" "cg_next s \<le> cg_next s'"
    "cg_mutable_slots s' = cg_mutable_slots s" "\<And>x. x \<in> set xs \<Longrightarrow> hm_get (cg_variables s') x = hm_get (cg_variables s) x"
  shows "holds_vars env' rho xs s'"
  unfolding holds_vars_def
proof
  fix x assume x: "x \<in> set xs"
  then obtain r where r: "hm_get (cg_variables s) x = Some (SImm (64, r))" "settled (cg_next s) r" "ref_value env r = rho x"
    using assms(1) unfolding holds_vars_def by blast
  have "ref_value env' r = ref_value env r" using r(2) assms(2) by (auto simp: settled_def)
  then show "hm_get (cg_mutable_slots s') x = None \<and> (\<exists>r. hm_get (cg_variables s') x = Some (SImm (64, r))
      \<and> settled (cg_next s') r \<and> ref_value env' r = rho x)"
    using r settled_mono [OF r(2) assms(3)] assms(1,4,5) x unfolding holds_vars_def by auto
qed

lemma value_of_no_call: "value_of ps st e = Some w \<Longrightarrow> (case e of Call f as \<Rightarrow> c f as | _ \<Rightarrow> d) = d"
  by (cases e; cases st) (auto simp: value_of_def param_read_def)

lemma assignment_code:
  assumes ops: "langref ops" and rel: "related ps b s (env, mem) (known, rho, cells)"
    and v: "value_of ps (known, rho, cells) e = Some w" and x: "x \<notin> set ps" and d: "distinct ps"
  shows "\<exists>code vs. compile_assignment x e s = Inr ((), (append_code b code s)\<lparr>cg_variables := vs\<rparr>)
    \<and> straight_code code
    \<and> related ps b ((append_code b code s)\<lparr>cg_variables := vs\<rparr>) (run_mem ops code (env, mem)) (x # known, rho(x := w), cells)"
proof -
  obtain r code env' where c: "compile_expr e s = Inr (SImm (64, r), append_code b code s)"
    "settled (cg_next s + length code) r" "run_mem ops code (env, mem) = (env', mem)"
    "\<forall>k < cg_next s. env' k = env k" "ref_value env' r = w" "straight_code code"
    using value_code [OF ops rel v d] by blast
  let ?vs = "hm_insert x (SImm (64, r)) (cg_variables s)"
  let ?s = "(append_code b code s)\<lparr>cg_variables := ?vs\<rparr>"
  have s: "ready b s" "cg_mutable_slots s = []" "cg_reassigned s = []" "holds_vars env rho known s"
    "\<And>i. i < length ps \<Longrightarrow> hm_get (cg_variables s) (ps ! i) = Some (word_param i) \<and> mem i = cells (ps ! i)"
    using rel by (auto simp: related_def)
  have run: "compile_assignment x e s = Inr ((), ?s)"
    using c(1) s(3) value_of_no_call [OF v, where c = "\<lambda>_ _. bind_outputs x" and d = "cg_ret ()"]
    by (simp add: compile_assignment_def cg_bind_def cg_then_def cg_gets_def set_variable_def cg_modify_def cg_ret_def
        append_code_def)
  have vars: "holds_vars env' (rho(x := w)) (x # known) ?s"
    unfolding holds_vars_def
  proof
    fix y assume y: "y \<in> set (x # known)"
    show "hm_get (cg_mutable_slots ?s) y = None \<and> (\<exists>r. hm_get (cg_variables ?s) y = Some (SImm (64, r))
        \<and> settled (cg_next ?s) r \<and> ref_value env' r = (rho(x := w)) y)"
    proof (cases "y = x")
      case False
      then have "holds_vars env' rho [y] ?s"
        using y by (intro holds_vars_kept [OF _ c(4)]) (use s(4) in \<open>auto simp: holds_vars_def\<close>)
      then show ?thesis using False by (simp add: holds_vars_def)
    qed (use c(2,5) s(2) in simp)
  qed
  have "hm_get ?vs (ps ! i) = Some (word_param i)" if "i < length ps" for i
    using s(5) [OF that] x nth_mem [OF that] by auto
  then have "related ps b ?s (env', mem) (x # known, rho(x := w), cells)"
    using s vars by (simp add: related_def ready_def append_code_def)
  then show ?thesis
    using run c(3,6) by (intro exI [of _ code] exI [of _ ?vs]) simp
qed

lemma store_code:
  assumes ops: "langref ops" and rel: "related ps b s (env, mem) (known, rho, cells)"
    and v: "value_of ps (known, rho, cells) e = Some w" and p: "p \<in> set ps" and d: "distinct ps"
  shows "\<exists>code. compile_store p e 8 None s = Inr ((), append_code b code s) \<and> straight_code code
    \<and> related ps b (append_code b code s) (run_mem ops code (env, mem)) (known, rho, cells(p := w))"
proof -
  obtain r code env' where c: "compile_expr e s = Inr (SImm (64, r), append_code b code s)"
    "settled (cg_next s + length code) r" "run_mem ops code (env, mem) = (env', mem)"
    "\<forall>k < cg_next s. env' k = env k" "ref_value env' r = w" "straight_code code"
    using value_code [OF ops rel v d] by blast
  obtain i where i: "i < length ps" "p = ps ! i" using p by (auto simp: in_set_conv_nth)
  have s: "ready b s" "cg_mutable_slots s = []" "cg_reassigned s = []" "holds_vars env rho known s"
    "\<And>i. i < length ps \<Longrightarrow> hm_get (cg_variables s) (ps ! i) = Some (word_param i) \<and> mem i = cells (ps ! i)"
    using rel by (auto simp: related_def)
  let ?st = "(cg_next s + length code, IStore (VInt (64, r)) (RParam i))"
  have "compile_store p e 8 None s = Inr ((), append_code b (code @ [?st]) s)"
    using c(1) s(2) s(5) [OF i(1)] s(1) store_param_code [of b "append_code b code s" i r]
    by (simp add: compile_store_def cg_bind_def cg_get_var_def lookup_variable_def cg_gets_def cg_ok_or_def cg_ret_def
        word_param_def pointer_or_handle_def hm_get_def i(2) append_code_append)
  moreover have "run_mem ops (code @ [?st]) (env, mem) = (env', mem(i := w))"
    using c(3,5) by (simp add: run_mem_instr_def)
  moreover have "holds_vars env' rho known (append_code b (code @ [?st]) s)"
    by (rule holds_vars_kept [OF s(4) c(4)]) simp_all
  then have "related ps b (append_code b (code @ [?st]) s) (env', mem(i := w)) (known, rho, cells(p := w))"
    using s d i by (auto simp: related_def nth_eq_iff_index_eq) (simp_all add: append_code_def)
  moreover have "straight_code (code @ [?st])" using c(6) by simp
  ultimately show ?thesis by auto
qed

text \<open>A body: the code of its statements, one after the other.\<close>

lemma body_code:
  assumes ops: "langref ops" and d: "distinct ps"
  shows "sigil_run ps ns st = Some st' \<Longrightarrow> related ps b s m st \<Longrightarrow>
    \<exists>code vs. compile_nodes labels ns s = Inr ((), (append_code b code s)\<lparr>cg_variables := vs\<rparr>) \<and> straight_code code
      \<and> related ps b ((append_code b code s)\<lparr>cg_variables := vs\<rparr>) (run_mem ops code m) st'"
proof (induction ns arbitrary: s m st)
  case Nil
  then show ?case
    by (intro exI [of _ "[]"] exI [of _ "cg_variables s"]) (simp add: cg_ret_def)
next
  case (Cons n ns)
  obtain st1 where st1: "sigil_step ps n st = Some st1" "sigil_run ps ns st1 = Some st'"
    using Cons.prems(1) by (cases "sigil_step ps n st") auto
  obtain known rho cells env mem where e: "st = (known, rho, cells)" "m = (env, mem)" by (cases st; cases m)
  obtain sp k where n: "n = Node sp k" by (cases n)
  have "\<exists>code vs. compile_node labels n s = Inr ((), (append_code b code s)\<lparr>cg_variables := vs\<rparr>) \<and> straight_code code
      \<and> related ps b ((append_code b code s)\<lparr>cg_variables := vs\<rparr>) (run_mem ops code m) st1"
  proof (cases k)
    case (Assignment x a)
    then show ?thesis
      using st1(1) assignment_code [OF ops Cons.prems(2) [unfolded e] _ _ d]
      by (auto simp: sigil_step_def e n split: if_splits)
  next
    case (Store p a sz off)
    then obtain w where "value_of ps (known, rho, cells) a = Some w" "p \<in> set ps" "sz = 8" "off = None"
      "st1 = (known, rho, cells(p := w))"
      using st1(1) by (auto simp: sigil_step_def e n split: if_splits)
    moreover obtain code where "compile_store p a 8 None s = Inr ((), append_code b code s)" "straight_code code"
      "related ps b (append_code b code s) (run_mem ops code m) (known, rho, cells(p := w))"
      using store_code [OF ops Cons.prems(2) [unfolded e] _ _ d] calculation(1,2) e by blast
    ultimately show ?thesis
      by (intro exI [of _ code] exI [of _ "cg_variables s"]) (simp add: n Store append_code_def)
  qed (use st1(1) in \<open>simp_all add: sigil_step_def e n\<close>)
  then obtain code vs where c: "compile_node labels n s = Inr ((), (append_code b code s)\<lparr>cg_variables := vs\<rparr>)"
    "related ps b ((append_code b code s)\<lparr>cg_variables := vs\<rparr>) (run_mem ops code m) st1" "straight_code code"
    by blast
  obtain code' vs' where c': "compile_nodes labels ns ((append_code b code s)\<lparr>cg_variables := vs\<rparr>) =
      Inr ((), (append_code b code' ((append_code b code s)\<lparr>cg_variables := vs\<rparr>))\<lparr>cg_variables := vs'\<rparr>)"
    "related ps b ((append_code b code' ((append_code b code s)\<lparr>cg_variables := vs\<rparr>))\<lparr>cg_variables := vs'\<rparr>)
      (run_mem ops code' (run_mem ops code m)) st'" "straight_code code'"
    using Cons.IH [OF st1(2) c(2)] by blast
  have "ready b s" using Cons.prems(2) by (simp add: related_def e)
  then have "(append_code b code' ((append_code b code s)\<lparr>cg_variables := vs\<rparr>))\<lparr>cg_variables := vs'\<rparr> =
      (append_code b (code @ code') s)\<lparr>cg_variables := vs'\<rparr>"
    by (simp add: append_code_def ready_def)
  then show ?case using c(1,3) c'
    by (intro exI [of _ "code @ code'"] exI [of _ vs']) (simp add: cg_bind_step)
qed

section \<open>The function around the body\<close>

fun bound_params :: "nat \<Rightarrow> parameter list \<Rightarrow> (string, sval) hmap \<Rightarrow> (string, sval) hmap" where
  "bound_params i [] vs = vs"
| "bound_params i (p # ps) vs = bound_params (i + 1) ps (hm_insert (p_name p)
     (SHandle \<lparr>h_ptr = RParam i, h_size = param_phys_size p, h_typ = handle_type_of (p_typ p)\<rparr>) vs)"

lemma bind_params_eq:
  "bind_params i ps s = Inr ((), s\<lparr>cg_variables := bound_params i ps (cg_variables s)\<rparr>)"
  by (induction i ps arbitrary: s rule: bind_params.induct)
    (simp_all add: cg_ret_def cg_then_def cg_bind_def set_variable_def cg_modify_def)

lemma bound_params_append:
  "bound_params i (ps @ qs) vs = bound_params (i + length ps) qs (bound_params i ps vs)"
  by (induction ps arbitrary: i vs) simp_all

lemma bound_params_other:
  "x \<notin> set (map p_name ps) \<Longrightarrow> hm_get (bound_params i ps vs) x = hm_get vs x"
  by (induction ps arbitrary: i vs) auto

definition word_parameter :: "parameter \<Rightarrow> bool" where
  "word_parameter p \<longleftrightarrow> p_typ p = TInt \<and> p_size p = 8"

lemma bound_params_word:
  "distinct (map p_name ps) \<Longrightarrow> list_all word_parameter ps \<Longrightarrow> j < length ps \<Longrightarrow>
    hm_get (bound_params i ps vs) (map p_name ps ! j) = Some (word_param (i + j))"
proof (induction ps arbitrary: i j vs)
  case (Cons p ps)
  show ?case
  proof (cases j)
    case 0
    then show ?thesis
      using Cons.prems by (simp add: bound_params_other word_param_def word_parameter_def param_phys_size_def)
  qed (use Cons.IH [where i = "i + 1"] Cons.prems in simp)
qed simp

lemma sigil_run_no_labels: "sigil_run ps ns st = Some st' \<Longrightarrow> label_names ns = []"
proof (induction ns arbitrary: st)
  case (Cons n ns)
  obtain st1 where "sigil_step ps n st = Some st1" "sigil_run ps ns st1 = Some st'"
    using Cons.prems by (cases "sigil_step ps n st") auto
  then show ?case
    using Cons.IH by (cases n; cases "node_kind_of n") (auto simp: sigil_step_def split: prod.splits)
qed simp

lemma append_code_inj:
  "b < length (cg_blocks s) \<Longrightarrow> (append_code b c s)\<lparr>cg_variables := vs\<rparr> = (append_code b d s)\<lparr>cg_variables := ws\<rparr> \<Longrightarrow> c = d"
  by (drule arg_cong [of _ _ "\<lambda>s. bk_code (cg_blocks s ! b)"]) (simp add: append_code_def)

text \<open>The code of a body does not depend on the memory it will run on.\<close>

definition start_memory :: "string list \<Rightarrow> (string \<Rightarrow> u64) \<Rightarrow> (nat \<Rightarrow> u64) \<Rightarrow> bool" where
  "start_memory ps cells mem \<longleftrightarrow> (\<forall>i < length ps. mem i = cells (ps ! i))"

lemma body_code_fixed:
  assumes ops: "langref ops" and d: "distinct ps" and run: "sigil_run ps ns ([], rho, cells) = Some (known', rho', cells')"
    and s: "ready b s" "cg_mutable_slots s = []" "cg_reassigned s = []"
    and vars: "\<And>i. i < length ps \<Longrightarrow> hm_get (cg_variables s) (ps ! i) = Some (word_param i)"
  shows "\<exists>code vs. compile_nodes labels ns s = Inr ((), (append_code b code s)\<lparr>cg_variables := vs\<rparr>) \<and> straight_code code
    \<and> (\<forall>env mem. start_memory ps cells mem \<longrightarrow> start_memory ps cells' (snd (run_mem ops code (env, mem))))"
proof -
  have rel: "related ps b s (env, mem) ([], rho, cells)" if "start_memory ps cells mem" for env mem
    using s vars that by (simp add: related_def holds_vars_def start_memory_def)
  have each: "\<exists>code vs. compile_nodes labels ns s = Inr ((), (append_code b code s)\<lparr>cg_variables := vs\<rparr>)
      \<and> straight_code code \<and> start_memory ps cells' (snd (run_mem ops code (env, mem)))"
    if "start_memory ps cells mem" for env mem
    using body_code [OF ops d run rel [OF that]] by (fastforce simp: related_def start_memory_def)
  have "start_memory ps cells (\<lambda>i. cells (ps ! i))" by (simp add: start_memory_def)
  then obtain code vs where c: "compile_nodes labels ns s = Inr ((), (append_code b code s)\<lparr>cg_variables := vs\<rparr>)"
    "straight_code code" using each by blast
  have "start_memory ps cells' (snd (run_mem ops code (env, mem)))" if m: "start_memory ps cells mem" for env mem
  proof -
    obtain code' vs' where c': "compile_nodes labels ns s = Inr ((), (append_code b code' s)\<lparr>cg_variables := vs'\<rparr>)"
      "start_memory ps cells' (snd (run_mem ops code' (env, mem)))" using each [OF m, of env] by blast
    then have "code' = code" using c(1) s(1) append_code_inj [of b s vs' code' vs code] by (simp add: ready_def)
    then show ?thesis using c'(2) by simp
  qed
  then show ?thesis using c by blast
qed

text \<open>The module of such a behavior, one block with the body between the calls of the root scope.\<close>

definition straight_behavior :: "target_platform \<Rightarrow> (string, contract) hmap \<Rightarrow> string \<Rightarrow> behavior \<Rightarrow> bool" where
  "straight_behavior p contracts full_name b \<longleftrightarrow> \<not> b_is_native b
     \<and> list_all word_parameter (c_inputs (b_contract b) @ c_outputs (b_contract b))
     \<and> distinct (map p_name (c_inputs (b_contract b) @ c_outputs (b_contract b)))
     \<and> required_contracts contracts b = []
     \<and> (case body_nodes p b of None \<Rightarrow> False | Some ns \<Rightarrow> collect_reassigned ns = [])
     \<and> mangle full_name \<noteq> ''sigil_scope_create'' \<and> mangle full_name \<noteq> ''sigil_scope_destroy''"

text \<open>The functions of the module, in the order they are declared: the behavior's own is number 2.\<close>

definition leaf_functions :: "target_platform \<Rightarrow> string \<Rightarrow> lty list \<Rightarrow> fun_decl list" where
  "leaf_functions p name params =
     [\<lparr>fd_name = ''puts'', fd_params = [LPtr], fd_ret = Some (LInt 32)\<rparr>,
      \<lparr>fd_name = crt_name p ''write'', fd_params = [LInt 64, LPtr, LInt 64], fd_ret = Some (LInt 64)\<rparr>,
      \<lparr>fd_name = name, fd_params = params, fd_ret = None\<rparr>]"

definition scope_create_decl :: fun_decl where
  "scope_create_decl = \<lparr>fd_name = ''sigil_scope_create'', fd_params = [LPtr], fd_ret = Some LPtr\<rparr>"

definition scope_destroy_decl :: fun_decl where
  "scope_destroy_decl = \<lparr>fd_name = ''sigil_scope_destroy'', fd_params = [LPtr], fd_ret = None\<rparr>"

definition entry_state :: "target_platform \<Rightarrow> fun_decl list \<Rightarrow> nat \<Rightarrow> cg" where
  "entry_state p fs f = (cg_new (\<lambda>_. None) p)\<lparr>cg_functions := fs,
     cg_blocks := [\<lparr>bk_fun = f, bk_name = ''entry'', bk_code = []\<rparr>], cg_pos := Some 0,
     cg_current_function := Some f\<rparr>"

lemma enter_function_eq:
  "enter_function f ((cg_new (\<lambda>_. None) p)\<lparr>cg_functions := fs\<rparr>) = Inr ((), entry_state p fs f)"
  by (simp add: enter_function_def append_basic_block_def position_at_end_def cg_bind_def cg_then_def cg_modify_def
      entry_state_def cg_new_def)

lemma crt_name_other [simp]:
  "crt_name p ''write'' \<noteq> ''puts''" "crt_name p ''write'' \<noteq> ''sigil_scope_create''"
  "crt_name p ''write'' \<noteq> ''sigil_scope_destroy''" "''puts'' \<noteq> crt_name p ''write''"
  by (cases p; simp add: crt_name_def)+

lemma function_numbers:
  "(2::nat) = Suc (Suc 0)" "(3::nat) = Suc (Suc (Suc 0))" "(4::nat) = Suc (Suc (Suc (Suc 0)))"
  by simp_all

lemma declare_then_add:
  "cg_then declare_externals (cg_bind (add_function name params None) k) (cg_new B p) =
     k 2 ((cg_new B p)\<lparr>cg_functions := leaf_functions p name params\<rparr>)"
  by (simp add: declare_externals_def declare_puts_def declare_write_def get_or_declare_def get_function_def
      add_function_def cg_then_def cg_bind_def cg_gets_def cg_ret_def cg_new_def leaf_functions_def
      function_numbers)

lemma create_root_scope_leaf:
  assumes "ready b s" "cg_functions s = leaf_functions p name params" "name \<noteq> ''sigil_scope_create''"
  shows "create_root_scope s = Inr (RInstr (cg_next s),
     append_code b [(cg_next s, ICall 3 [VPtr RNull])] (s\<lparr>cg_functions := cg_functions s @ [scope_create_decl]\<rparr>))"
proof -
  have "ready b (s\<lparr>cg_functions := fs\<rparr>)" for fs using assms(1) by (simp add: ready_def)
  from emit_ready [OF this] show ?thesis
    using assms(2,3) by (simp add: create_root_scope_def create_scope_def get_or_declare_sigil_scope_create_def
        get_or_declare_def get_function_def add_function_def call_ptr_def cg_bind_def cg_gets_def cg_ret_def
        append_code_def leaf_functions_def scope_create_decl_def function_numbers)
qed

lemma destroy_root_scope_leaf:
  assumes "ready b s" "cg_functions s = leaf_functions p name params @ [scope_create_decl]" "name \<noteq> ''sigil_scope_destroy''"
  shows "destroy_root_scope r s = Inr ((),
     append_code b [(cg_next s, ICall 4 [VPtr r])] (s\<lparr>cg_functions := cg_functions s @ [scope_destroy_decl]\<rparr>))"
proof -
  have "ready b (s\<lparr>cg_functions := fs\<rparr>)" for fs using assms(1) by (simp add: ready_def)
  from emit_ready [OF this] show ?thesis
    using assms(2,3) by (simp add: destroy_root_scope_def get_or_declare_sigil_scope_destroy_def
        get_or_declare_def get_function_def add_function_def emit_unit_def cg_then_def cg_bind_def cg_gets_def cg_ret_def
        leaf_functions_def scope_create_decl_def scope_destroy_decl_def function_numbers)
qed

lemma straight_not_terminated:
  assumes "ready b s" "bk_code (cg_blocks s ! b) = (n, ICall f vs) # code" "straight_code code"
  shows "needs_terminator s = Inr (True, s)"
proof -
  have "\<not> is_terminator (snd (last ((n, ICall f vs) # code)))"
    using assms(3) by (cases code rule: rev_cases) (auto simp: straight_instr_def split: linstr.splits)
  then show ?thesis
    using assms(1,2) by (simp add: needs_terminator_def cg_gets_def ready_def block_terminated_def)
qed

text \<open>The body between its two calls.\<close>

definition leaf_code :: "(nat \<times> linstr) list \<Rightarrow> (nat \<times> linstr) list" where
  "leaf_code body = (0, ICall 3 [VPtr RNull]) # body
     @ [(1 + length body, ICall 4 [VPtr (RInstr 0)]), (2 + length body, IRet None)]"

lemma run_leaf_code: "run_mem ops (leaf_code body) m = run_mem ops body m"
  by (simp add: leaf_code_def run_mem_instr_def run_instr_def)

lemma compile_function_body_leaf:
  assumes ops: "langref ops" and b: "straight_behavior p contracts full_name b"
    and ps: "ps = map p_name (c_inputs (b_contract b) @ c_outputs (b_contract b))"
    and ns: "body_nodes p b = Some ns"
    and run: "sigil_run ps ns ([], rho, cells) = Some (known', rho', cells')"
  shows "\<exists>body s. compile_function_body b 2 ((cg_new (\<lambda>_. None) p)\<lparr>cg_functions := leaf_functions p (mangle full_name) params\<rparr>)
      = Inr ((), s)
    \<and> cg_functions s = leaf_functions p (mangle full_name) params @ [scope_create_decl, scope_destroy_decl]
    \<and> cg_blocks s = [\<lparr>bk_fun = 2, bk_name = ''entry'', bk_code = leaf_code body\<rparr>] \<and> straight_code body
    \<and> (\<forall>env mem. start_memory ps cells mem \<longrightarrow> start_memory ps cells' (snd (run_mem ops body (env, mem))))"
proof -
  let ?qs = "c_inputs (b_contract b) @ c_outputs (b_contract b)" and ?fs = "leaf_functions p (mangle full_name) params"
  let ?call = "(0, ICall 3 [VPtr RNull])"
  define s1 where "s1 = append_code 0 [?call] ((entry_state p ?fs 2)\<lparr>cg_functions := ?fs @ [scope_create_decl],
     cg_current_scope := Some (RInstr 0), cg_variables := bound_params 0 ?qs []\<rparr>)"
  have s1: "ready 0 s1" "cg_mutable_slots s1 = []" "cg_reassigned s1 = []" "cg_platform s1 = p" "cg_next s1 = 1"
    "cg_blocks s1 = [\<lparr>bk_fun = 2, bk_name = ''entry'', bk_code = [?call]\<rparr>]"
    "cg_functions s1 = ?fs @ [scope_create_decl]"
    by (simp_all add: s1_def ready_def entry_state_def cg_new_def append_code_def)
  have d: "distinct ps" using b by (simp add: straight_behavior_def ps)
  have vars: "hm_get (cg_variables s1) (ps ! i) = Some (word_param i)" if "i < length ps" for i
    using bound_params_word [of ?qs i 0] that b by (simp add: straight_behavior_def ps s1_def)
  obtain body vs where c: "compile_nodes [] ns s1 = Inr ((), (append_code 0 body s1)\<lparr>cg_variables := vs\<rparr>)"
    "straight_code body"
    "\<forall>env mem. start_memory ps cells mem \<longrightarrow> start_memory ps cells' (snd (run_mem ops body (env, mem)))"
    using body_code_fixed [OF ops d run s1(1-3) vars] by blast
  define s2 where "s2 = (append_code 0 body s1)\<lparr>cg_variables := vs\<rparr>"
  have s2: "ready 0 s2" "cg_reassigned s2 = []" "cg_next s2 = 1 + length body"
    "cg_blocks s2 = [\<lparr>bk_fun = 2, bk_name = ''entry'', bk_code = ?call # body\<rparr>]"
    "cg_functions s2 = ?fs @ [scope_create_decl]"
    using s1 by (simp_all add: s2_def ready_def append_code_def)
  have same: "s1\<lparr>cg_mutable_slots := [], cg_reassigned := []\<rparr> = s1" "s2\<lparr>cg_reassigned := []\<rparr> = s2"
    using s1(2,3) s2(2) by (simp_all add: cg.equality)
  have body: "compile_body b 2 s1 = Inr ((), s2)"
    using c(1) [folded s2_def] same s1(4) b ns sigil_run_no_labels [OF run]
    by (simp add: compile_body_def cg_then_def cg_bind_def cg_modify_def cg_gets_def compile_impl_def
        collect_label_blocks_eq label_pairs_def empty_blocks_def straight_behavior_def)
  have m: "mangle full_name \<noteq> ''sigil_scope_create''" "mangle full_name \<noteq> ''sigil_scope_destroy''"
    using b by (auto simp: straight_behavior_def)
  let ?s3 = "append_code 0 [(1 + length body, ICall 4 [VPtr (RInstr 0)])]
     (s2\<lparr>cg_functions := cg_functions s2 @ [scope_destroy_decl]\<rparr>)"
  have rd: "ready 0 (s2\<lparr>cg_functions := fs\<rparr>)" for fs using s2(1) by (simp add: ready_def)
  have fin: "finish_function (Some (RInstr 0)) (cg_ret None) s2 =
      Inr ((), append_code 0 [(2 + length body, IRet None)] ?s3)"
    using straight_not_terminated [OF s2(1) _ c(2)] s2 destroy_root_scope_leaf [OF s2(1,5) m(2)] emit_ready [of 0 ?s3] rd
    by (simp add: finish_function_def cg_bind_def cg_then_def cg_ret_def emit_unit_def)
  have create: "create_root_scope (entry_state p ?fs 2) = Inr (RInstr 0, append_code 0 [?call]
      ((entry_state p ?fs 2)\<lparr>cg_functions := ?fs @ [scope_create_decl]\<rparr>))"
    using create_root_scope_leaf [of 0 "entry_state p ?fs 2"] m(1)
    by (simp add: entry_state_def ready_def cg_new_def)
  have front: "bind_params (length (c_inputs (b_contract b))) (c_outputs (b_contract b))
      ((append_code 0 [?call] ((entry_state p ?fs 2)\<lparr>cg_functions := ?fs @ [scope_create_decl]\<rparr>))
       \<lparr>cg_current_scope := Some (RInstr 0), cg_variables := bound_params 0 (c_inputs (b_contract b)) []\<rparr>) = Inr ((), s1)"
    by (simp add: bind_params_eq s1_def bound_params_append append_code_def)
  have "compile_function_body b 2 ((cg_new (\<lambda>_. None) p)\<lparr>cg_functions := ?fs\<rparr>) =
      Inr ((), (append_code 0 [(2 + length body, IRet None)] ?s3)\<lparr>cg_current_scope := None\<rparr>)"
    using front body fin create
    by (simp add: compile_function_body_def enter_function_eq cg_bind_def cg_then_def cg_gets_def set_scope_def
        cg_modify_def bind_params_eq) (simp add: entry_state_def cg_new_def append_code_def)
  then show ?thesis using c(2,3) s2 by (simp add: append_code_def leaf_code_def)
qed

section \<open>Compiled leaf behaviors\<close>

text \<open>C10: compiled code does what the body says. For a behavior with 8-byte integer parameters of different
  names that requires no other behavior, and a body of statements that the language gives a meaning to
  (\<open>sigil_run\<close>: assignments of integer expressions and loads of parameters to locals assigned once, and
  stores to parameters), the module has one block. It consists of the call that creates the root scope,
  code that neither branches nor calls, the call that destroys the scope and the return. Run on a machine
  with LLVM's documented arithmetic, from memory in which the parameters hold \<open>cells\<close>, it leaves every
  parameter with the value the statements leave in it.\<close>

theorem straight_line_behavior_correct:
  assumes ops: "langref ops" and b: "straight_behavior p contracts full_name b"
    and ps: "ps = map p_name (c_inputs (b_contract b) @ c_outputs (b_contract b))"
    and ns: "body_nodes p b = Some ns"
    and run: "sigil_run ps ns ([], rho, cells) = Some (known', rho', cells')"
  shows "\<exists>body s. behavior_module (\<lambda>_. None) p contracts full_name b = Inr (2, s)
    \<and> map fd_name (cg_functions s) = [''puts'', crt_name p ''write'', mangle full_name,
        ''sigil_scope_create'', ''sigil_scope_destroy'']
    \<and> cg_blocks s = [\<lparr>bk_fun = 2, bk_name = ''entry'', bk_code = (0, ICall 3 [VPtr RNull]) # body
        @ [(1 + length body, ICall 4 [VPtr (RInstr 0)]), (2 + length body, IRet None)]\<rparr>]
    \<and> straight_code body
    \<and> (\<forall>env mem i. (\<forall>j < length ps. mem j = cells (ps ! j)) \<and> i < length ps \<longrightarrow>
        snd (run_mem ops (bk_code (hd (cg_blocks s))) (env, mem)) i = cells' (ps ! i))"
proof -
  obtain body s where s: "compile_function_body b 2 ((cg_new (\<lambda>_. None) p)\<lparr>cg_functions :=
      leaf_functions p (mangle full_name) (function_params (b_contract b))\<rparr>) = Inr ((), s)"
    "cg_functions s = leaf_functions p (mangle full_name) (function_params (b_contract b)) @ [scope_create_decl, scope_destroy_decl]"
    "cg_blocks s = [\<lparr>bk_fun = 2, bk_name = ''entry'', bk_code = leaf_code body\<rparr>]" "straight_code body"
    and mem: "\<forall>env mem. start_memory ps cells mem \<longrightarrow> start_memory ps cells' (snd (run_mem ops body (env, mem)))"
    using compile_function_body_leaf [OF ops b ps ns run] by blast
  have req: "required_contracts contracts b = []" "\<not> b_is_native b" using b by (auto simp: straight_behavior_def)
  have skip: "cg_then (cg_ret ()) n st = n st" for n :: "nat cgm" and st by (simp add: cg_then_def cg_bind_def cg_ret_def)
  obtain s' where s': "behavior_module (\<lambda>_. None) p contracts full_name b = Inr (2, s')"
    "cg_functions s' = cg_functions s" "cg_blocks s' = cg_blocks s"
    using s(1) req by (simp add: behavior_module_def compile_function_def skip declare_then_add)
      (simp add: restoring_def cg_then_def cg_bind_def cg_ret_def register_sig_def register_fn_def cg_modify_def)
  show ?thesis
    using s' s(2-4) mem run_leaf_code [of ops body]
    by (intro exI [of _ body] exI [of _ s'])
      (auto simp: leaf_code_def leaf_functions_def scope_create_decl_def scope_destroy_decl_def start_memory_def)
qed

text \<open>\<open>o := (x + 2) * y\<close>, and \<open>x\<close> is cleared: with 5 and -3 the output is -21.\<close>

definition product_nodes :: "node list" where
  "product_nodes = map (Node (span_new 1 1 1))
     [Assignment ''v'' (Load (Var ''x'') 8 None), Assignment ''w'' (Load (Var ''y'') 8 None),
      Assignment ''u'' (IArith Imul (IArith Iadd (Var ''v'') (IntLit 2) 8) (Var ''w'') 8),
      Store ''o'' (Var ''u'') 8 None, Store ''x'' (IntLit 0) 8 None]"

definition product_behavior :: behavior where
  "product_behavior = (behavior_new ''product'')\<lparr>b_contract :=
     \<lparr>c_inputs = [\<lparr>p_name = ''x'', p_typ = TInt, p_size = 8\<rparr>, \<lparr>p_name = ''y'', p_typ = TInt, p_size = 8\<rparr>],
      c_outputs = [\<lparr>p_name = ''o'', p_typ = TInt, p_size = 8\<rparr>],
      c_requires = requirements_default, c_guarantees = [WritesOutput]\<rparr>,
     b_implementations := [\<lparr>pi_platform = None, pi_nodes = product_nodes\<rparr>]\<rparr>"

definition product_cells :: "string \<Rightarrow> u64" where
  "product_cells x = (if x = ''x'' then 5 else if x = ''y'' then - 3 else 0)"

lemma straight_line_behavior_correct_witness:
  "\<exists>body s. behavior_module (\<lambda>_. None) Linux [] ''product'' product_behavior = Inr (2, s)
    \<and> cg_blocks s = [\<lparr>bk_fun = 2, bk_name = ''entry'', bk_code = (0, ICall 3 [VPtr RNull]) # body
        @ [(1 + length body, ICall 4 [VPtr (RInstr 0)]), (2 + length body, IRet None)]\<rparr>]
    \<and> snd (run_mem reference_ops (bk_code (hd (cg_blocks s))) (\<lambda>_. 0, \<lambda>i. [5, - 3, 0] ! i)) 2 = - 21
    \<and> snd (run_mem reference_ops (bk_code (hd (cg_blocks s))) (\<lambda>_. 0, \<lambda>i. [5, - 3, 0] ! i)) 0 = 0"
proof -
  have b: "straight_behavior Linux [] ''product'' product_behavior" by code_simp
  have ps: "[''x'', ''y'', ''o''] = map p_name (c_inputs (b_contract product_behavior) @ c_outputs (b_contract product_behavior))"
    by (simp add: product_behavior_def)
  have ns: "body_nodes Linux product_behavior = Some product_nodes" by code_simp
  have run: "sigil_run [''x'', ''y'', ''o''] product_nodes ([], \<lambda>_. 0, product_cells) = Some ([''u'', ''w'', ''v''],
      (\<lambda>_. 0)(''v'' := 5, ''w'' := - 3, ''u'' := - 21), product_cells(''o'' := - 21, ''x'' := 0))"
    by (simp add: product_nodes_def sigil_step_def value_of_def param_read_def product_cells_def)
  obtain body s where s: "behavior_module (\<lambda>_. None) Linux [] ''product'' product_behavior = Inr (2, s)"
    "cg_blocks s = [\<lparr>bk_fun = 2, bk_name = ''entry'', bk_code = (0, ICall 3 [VPtr RNull]) # body
        @ [(1 + length body, ICall 4 [VPtr (RInstr 0)]), (2 + length body, IRet None)]\<rparr>]"
    and m: "\<And>env mem i. (\<forall>j < length [''x'', ''y'', ''o'']. mem j = product_cells ([''x'', ''y'', ''o''] ! j))
        \<and> i < length [''x'', ''y'', ''o''] \<Longrightarrow> snd (run_mem reference_ops (bk_code (hd (cg_blocks s))) (env, mem)) i
          = (product_cells(''o'' := - 21, ''x'' := 0)) ([''x'', ''y'', ''o''] ! i)"
    using straight_line_behavior_correct [OF langref_reference b ps ns run] by blast
  have start: "\<forall>j < length [''x'', ''y'', ''o'']. [5, - 3, 0] ! j = product_cells ([''x'', ''y'', ''o''] ! j)"
    by (auto simp: product_cells_def less_Suc_eq)
  show ?thesis
    using m [of "\<lambda>i. [5, - 3, 0] ! i" 2] m [of "\<lambda>i. [5, - 3, 0] ! i" 0] start
    by (intro exI [of _ body] exI [of _ s]) (simp add: s)
qed

end
