(* ===== verification/Sigil_Dataflow.thy ===== *)
theory Sigil_Dataflow
  imports Sigil_Cfg_Build
begin

text \<open>
  The data-flow pass at the end of \<^verbatim>\<open>compiler/src/cfg.rs\<close>, which is meant to replace the
  enumeration of paths and is not wired in yet. A state records what is known at a point of the
  program; blocks are swept in order until no state changes, 1000 times at most.

  Where the pass has settled and nothing jumps back to the entry, it misses no leak and no unwritten
  output of any run, loops included. With a jump back to the entry it does: the state a run starts
  in is then not merged into the entry's.
\<close>

section \<open>States\<close>

record flow_state =
  fl_initialized :: "string hset"
  fl_freed :: "string hset"
  fl_allocated :: "string hset"
  fl_written :: "string hset"

definition flow_new :: flow_state where
  "flow_new = \<lparr>fl_initialized = [], fl_freed = [], fl_allocated = [], fl_written = []\<rparr>"

definition hs_inter :: "'a hset \<Rightarrow> 'a hset \<Rightarrow> 'a hset" where
  "hs_inter a b = filter (\<lambda>x. x \<in> set b) a"

definition hs_union :: "'a hset \<Rightarrow> 'a hset \<Rightarrow> 'a hset" where
  "hs_union a b = fold hs_insert b a"

definition flow_merge :: "flow_state \<Rightarrow> flow_state \<Rightarrow> flow_state" where
  "flow_merge a b = \<lparr>fl_initialized = hs_inter (fl_initialized a) (fl_initialized b),
     fl_freed = hs_union (fl_freed a) (fl_freed b),
     fl_allocated = hs_union (fl_allocated a) (fl_allocated b),
     fl_written = hs_inter (fl_written a) (fl_written b)\<rparr>"

definition flow_apply :: "node \<Rightarrow> flow_state \<Rightarrow> flow_state" where
  "flow_apply n s = (case node_kind_of n of
       Assignment target e \<Rightarrow>
         (let s1 = (if is_alloc e then s\<lparr>fl_allocated := hs_insert target (fl_allocated s)\<rparr> else s)
          in s1\<lparr>fl_initialized := hs_insert target (fl_initialized s1)\<rparr>)
     | Store target e n off \<Rightarrow> s\<lparr>fl_initialized := hs_insert target (fl_initialized s),
         fl_written := hs_insert target (fl_written s)\<rparr>
     | Set target e \<Rightarrow> s\<lparr>fl_written := hs_insert target (fl_written s)\<rparr>
     | Free name \<Rightarrow> s\<lparr>fl_freed := hs_insert name (fl_freed s),
         fl_allocated := hs_remove name (fl_allocated s)\<rparr>
     | _ \<Rightarrow> s)"

text \<open>The equality of the states, whose fields are hash sets.\<close>

definition flow_eq :: "flow_state \<Rightarrow> flow_state \<Rightarrow> bool" where
  "flow_eq a b \<longleftrightarrow> set (fl_initialized a) = set (fl_initialized b) \<and> set (fl_freed a) = set (fl_freed b)
     \<and> set (fl_allocated a) = set (fl_allocated b) \<and> set (fl_written a) = set (fl_written b)"

section \<open>The pass\<close>

type_synonym block_states = "(nat, flow_state) hmap"

definition block_input :: "block_states \<Rightarrow> basic_block \<Rightarrow> flow_state" where
  "block_input states b = (case List.map_filter (hm_get states) (bb_predecessors b) of
       [] \<Rightarrow> flow_new
     | st # sts \<Rightarrow> fold (\<lambda>s m. flow_merge m s) sts st)"

definition apply_statements :: "node list \<Rightarrow> nat list \<Rightarrow> flow_state \<Rightarrow> flow_state" where
  "apply_statements nodes = fold (\<lambda>i s. if i < length nodes then flow_apply (nodes ! i) s else s)"

definition flow_block :: "node list \<Rightarrow> basic_block \<Rightarrow> block_states \<times> bool \<Rightarrow> block_states \<times> bool" where
  "flow_block nodes b = (\<lambda>(states, changed).
     (let current = apply_statements nodes (bb_statements b) (block_input states b)
      in (hm_insert (bb_id b) current states,
          case hm_get states (bb_id b) of
            Some old \<Rightarrow> changed \<or> \<not> flow_eq old current
          | None \<Rightarrow> True)))"

definition flow_sweep :: "basic_block list \<Rightarrow> node list \<Rightarrow> block_states \<Rightarrow> block_states \<times> bool" where
  "flow_sweep bs nodes states = fold (flow_block nodes) bs (states, False)"

fun flow_loop :: "nat \<Rightarrow> basic_block list \<Rightarrow> node list \<Rightarrow> block_states \<Rightarrow> block_states" where
  "flow_loop 0 bs nodes states = states"
| "flow_loop (Suc k) bs nodes states = (case flow_sweep bs nodes states of
       (states', changed) \<Rightarrow> if changed then flow_loop k bs nodes states' else states')"

definition max_iterations :: nat where
  "max_iterations = 1000"

definition flow_states :: "cfg \<Rightarrow> node list \<Rightarrow> block_states" where
  "flow_states g nodes = flow_loop max_iterations (cfg_blocks g) nodes [(cfg_entry g, flow_new)]"

record flow_result =
  fr_uninitialized_reads :: "string list"
  fr_leaked_allocations :: "string list"
  fr_unwritten_outputs_paths :: "string list list"

definition flow_exit :: "string hset \<Rightarrow> block_states \<Rightarrow> nat \<Rightarrow> flow_result \<Rightarrow> flow_result" where
  "flow_exit outputs states e r = (case hm_get states e of
       None \<Rightarrow> r
     | Some st \<Rightarrow>
         (let r1 = r\<lparr>fr_leaked_allocations := fr_leaked_allocations r @ fl_allocated st\<rparr>;
              unwritten = filter (\<lambda>o'. o' \<notin> set (fl_written st)) outputs
          in if unwritten = [] then r1
             else r1\<lparr>fr_unwritten_outputs_paths := fr_unwritten_outputs_paths r1 @ [unwritten]\<rparr>))"

definition analyze_data_flow :: "cfg \<Rightarrow> node list \<Rightarrow> string hset \<Rightarrow> flow_result" where
  "analyze_data_flow g nodes outputs =
     fold (flow_exit outputs (flow_states g nodes)) (cfg_exits g)
       \<lparr>fr_uninitialized_reads = [], fr_leaked_allocations = [], fr_unwritten_outputs_paths = []\<rparr>"

section \<open>Approximation\<close>

lemma set_hs_inter [simp]: "set (hs_inter a b) = set a \<inter> set b"
  by (auto simp: hs_inter_def)

lemma set_hs_union [simp]: "set (hs_union a b) = set a \<union> set b"
  unfolding hs_union_def by (induction b arbitrary: a) auto

text \<open>
  \<open>approx p s\<close>: what \<open>s\<close> says holds of a run in state \<open>p\<close>. What was initialized or written
  in \<open>s\<close> was on the run; what was freed or is still allocated on the run is so in \<open>s\<close>.
\<close>

definition approx :: "flow_state \<Rightarrow> flow_state \<Rightarrow> bool" where
  "approx p s \<longleftrightarrow> set (fl_initialized s) \<subseteq> set (fl_initialized p) \<and> set (fl_freed p) \<subseteq> set (fl_freed s)
     \<and> set (fl_allocated p) \<subseteq> set (fl_allocated s) \<and> set (fl_written s) \<subseteq> set (fl_written p)"

lemma approx_refl [simp]: "approx p p"
  by (simp add: approx_def)

text \<open>
  What soundness needs of an analysis: joining keeps what either side approximates, and the steps of
  runs and of the analysis agree.
\<close>

locale approximation =
  fixes gamma :: "'r \<Rightarrow> 'a \<Rightarrow> bool"
    and join :: "'a \<Rightarrow> 'a \<Rightarrow> 'a"
    and run_step :: "'n \<Rightarrow> 'r \<Rightarrow> 'r"
    and abs_step :: "'n \<Rightarrow> 'a \<Rightarrow> 'a"
  assumes join_left: "gamma r a \<Longrightarrow> gamma r (join a b)"
    and join_right: "gamma r b \<Longrightarrow> gamma r (join a b)"
    and step: "gamma r a \<Longrightarrow> gamma (run_step n r) (abs_step n a)"
begin

lemma join_all: "gamma r m \<or> (\<exists>s \<in> set sts. gamma r s) \<Longrightarrow> gamma r (fold (\<lambda>s m. join m s) sts m)"
proof (induction sts arbitrary: m)
  case (Cons s sts)
  then have "gamma r (join m s) \<or> (\<exists>s \<in> set sts. gamma r s)" by (auto intro: join_left join_right)
  then show ?case using Cons.IH by simp
qed simp

lemma steps: "gamma r a \<Longrightarrow> gamma (fold run_step ns r) (fold abs_step ns a)"
  by (induction ns arbitrary: r a) (auto intro: step)

end

interpretation flow: approximation approx flow_merge flow_apply flow_apply
  by unfold_locales (auto simp: approx_def flow_merge_def flow_apply_def Let_def split: node_kind.splits)

lemma apply_statements_nodes:
  "apply_statements nodes is s = fold flow_apply (map ((!) nodes) (filter (\<lambda>i. i < length nodes) is)) s"
  unfolding apply_statements_def by (induction "is" arbitrary: s) simp_all

lemma approx_statements: "approx p s \<Longrightarrow> approx (apply_statements nodes is p) (apply_statements nodes is s)"
  unfolding apply_statements_nodes by (rule flow.steps)

lemma approx_eq: "flow_eq s t \<Longrightarrow> approx p s \<longleftrightarrow> approx p t"
  by (simp add: approx_def flow_eq_def)

lemma approx_input:
  assumes "q \<in> set (bb_predecessors b)" "hm_get states q = Some s" "approx p s"
  shows "approx p (block_input states b)"
proof -
  have "s \<in> set (List.map_filter (hm_get states) (bb_predecessors b))"
    using assms(1,2) by (force simp: List.map_filter_def)
  then show ?thesis
    using assms(3) unfolding block_input_def by (auto split: list.split intro!: flow.join_all)
qed

section \<open>Where the pass has settled\<close>

text \<open>The state of a block is that of its input after its statements.\<close>

definition flow_stable :: "basic_block list \<Rightarrow> node list \<Rightarrow> block_states \<Rightarrow> bool" where
  "flow_stable bs nodes states \<longleftrightarrow> (\<forall>b \<in> set bs. \<exists>s. hm_get states (bb_id b) = Some s
     \<and> flow_eq s (apply_statements nodes (bb_statements b) (block_input states b)))"

lemma flow_eq_refl [simp]: "flow_eq s s" and flow_eq_sym: "flow_eq s t \<Longrightarrow> flow_eq t s"
  and flow_eq_trans: "flow_eq s t \<Longrightarrow> flow_eq t u \<Longrightarrow> flow_eq s u"
  by (simp_all add: flow_eq_def)

lemma flow_eq_merge: "flow_eq a b \<Longrightarrow> flow_eq c d \<Longrightarrow> flow_eq (flow_merge a c) (flow_merge b d)"
  by (simp add: flow_eq_def flow_merge_def)

lemma flow_eq_apply: "flow_eq a b \<Longrightarrow> flow_eq (flow_apply n a) (flow_apply n b)"
  by (simp add: flow_eq_def flow_apply_def Let_def split: node_kind.split)

lemma flow_eq_statements: "flow_eq a b \<Longrightarrow> flow_eq (apply_statements nodes is a) (apply_statements nodes is b)"
  unfolding apply_statements_def by (induction "is" arbitrary: a b) (auto intro: flow_eq_apply)

text \<open>States that are the same sets everywhere give the same sets.\<close>

definition states_eq :: "block_states \<Rightarrow> block_states \<Rightarrow> bool" where
  "states_eq a b \<longleftrightarrow> (\<forall>k. rel_option flow_eq (hm_get a k) (hm_get b k))"

lemma flow_eq_input:
  assumes "states_eq a b"
  shows "flow_eq (block_input a blk) (block_input b blk)"
proof -
  have same: "list_all2 flow_eq (List.map_filter (hm_get a) ps) (List.map_filter (hm_get b) ps)" for ps
  proof (induction ps)
    case (Cons p ps)
    have "rel_option flow_eq (hm_get a p) (hm_get b p)" using assms by (simp add: states_eq_def)
    then show ?case using Cons
      by (cases "hm_get a p"; cases "hm_get b p") (simp_all add: List.map_filter_simps)
  qed (simp add: List.map_filter_simps)
  have fold: "list_all2 flow_eq xs ys \<Longrightarrow> flow_eq m n \<Longrightarrow>
      flow_eq (fold (\<lambda>s m. flow_merge m s) xs m) (fold (\<lambda>s m. flow_merge m s) ys n)" for xs ys m n
    by (induction xs ys arbitrary: m n rule: list_all2_induct) (auto intro: flow_eq_merge)
  show ?thesis
    using same [of "bb_predecessors blk"] fold unfolding block_input_def
    by (auto simp: list_all2_Cons1 list_all2_Cons2 split: list.split)
qed

lemma states_eq_insert:
  "hm_get a k = Some s \<Longrightarrow> flow_eq s t \<Longrightarrow> states_eq a (hm_insert k t a)"
  by (auto simp: states_eq_def rel_option_reflI option.rel_refl)

lemma flow_sweep_stable:
  "\<not> snd (fold (flow_block nodes) bs (states, ch)) \<Longrightarrow> \<not> ch \<and> flow_stable bs nodes states"
proof (induction bs arbitrary: states ch)
  case (Cons b bs)
  let ?c = "apply_statements nodes (bb_statements b) (block_input states b)"
  let ?s1 = "hm_insert (bb_id b) ?c states"
  have step: "flow_block nodes b (states, ch) = (?s1, case hm_get states (bb_id b) of
      Some old \<Rightarrow> ch \<or> \<not> flow_eq old ?c | None \<Rightarrow> True)"
    by (simp add: flow_block_def Let_def)
  have rest: "flow_stable bs nodes ?s1" and "\<not> (case hm_get states (bb_id b) of
      Some old \<Rightarrow> ch \<or> \<not> flow_eq old ?c | None \<Rightarrow> True)"
    using Cons.IH [of ?s1] Cons.prems unfolding fold_Cons comp_apply step by blast+
  then obtain old where old: "hm_get states (bb_id b) = Some old" "\<not> ch" "flow_eq old ?c"
    by (auto split: option.splits)
  note eq = states_eq_insert [OF old(1,3)]
  have "\<exists>s. hm_get states (bb_id x) = Some s
      \<and> flow_eq s (apply_statements nodes (bb_statements x) (block_input states x))" if x: "x \<in> set bs" for x
  proof -
    obtain s where s: "hm_get ?s1 (bb_id x) = Some s"
      "flow_eq s (apply_statements nodes (bb_statements x) (block_input ?s1 x))"
      using rest x unfolding flow_stable_def by blast
    obtain r where r: "hm_get states (bb_id x) = Some r" "flow_eq r s"
      using eq s(1) unfolding states_eq_def by (metis option.rel_distinct(1) option.rel_inject(2) option.exhaust)
    have "flow_eq r (apply_statements nodes (bb_statements x) (block_input states x))"
      using flow_eq_trans [OF r(2) s(2)] flow_eq_statements [OF flow_eq_input [OF eq]] flow_eq_sym flow_eq_trans by blast
    then show ?thesis using r(1) by blast
  qed
  then show ?case using old unfolding flow_stable_def by auto
qed (simp add: flow_stable_def)

definition settled_flow :: "cfg \<Rightarrow> node list \<Rightarrow> bool" where
  "settled_flow g nodes \<longleftrightarrow> \<not> snd (flow_sweep (cfg_blocks g) nodes (flow_states g nodes))"

section \<open>Runs\<close>

text \<open>The state a run through these blocks ends in.\<close>

definition run_state :: "basic_block list \<Rightarrow> node list \<Rightarrow> nat list \<Rightarrow> flow_state" where
  "run_state bs nodes p = fold (\<lambda>i. apply_statements nodes (bb_statements (bs ! i))) p flow_new"

text \<open>Runs from the entry, loops included.\<close>

definition entry_run :: "basic_block list \<Rightarrow> nat list \<Rightarrow> bool" where
  "entry_run bs p \<longleftrightarrow> p \<noteq> [] \<and> hd p = 0 \<and> successively (edge bs) p \<and> last p < length bs"

lemma run_approximated:
  assumes g: "bs = cfg_blocks (cfg_build nodes)" and st: "flow_stable bs nodes states"
    and entry: "bb_predecessors (bs ! 0) = []"
  shows "entry_run bs p \<Longrightarrow> \<exists>s. hm_get states (last p) = Some s \<and> approx (run_state bs nodes p) s"
proof (induction p rule: rev_induct)
  case (snoc b p)
  have ids: "bb_id (bs ! i) = i" if "i < length bs" for i using that build_block unfolding g by simp
  have b: "b < length bs" using snoc.prems by (simp add: entry_run_def)
  obtain s where s: "hm_get states b = Some s"
    "flow_eq s (apply_statements nodes (bb_statements (bs ! b)) (block_input states (bs ! b)))"
    using st b ids [OF b] unfolding flow_stable_def by (metis nth_mem)
  have "approx (run_state bs nodes p) (block_input states (bs ! b))"
  proof (cases "p = []")
    case True
    then have "b = 0" using snoc.prems by (simp add: entry_run_def)
    then show ?thesis using entry True by (simp add: block_input_def run_state_def List.map_filter_simps)
  next
    case False
    then have run: "entry_run bs p" and e: "edge bs (last p) b"
      using snoc.prems by (auto simp: entry_run_def successively_append_iff edge_def)
    obtain q where q: "hm_get states (last p) = Some q" "approx (run_state bs nodes p) q"
      using snoc.IH [OF run] by blast
    have "last p \<in> set (bb_predecessors (bs ! b))"
      using e build_edges [of nodes] b unfolding g by (auto simp: edge_def edges_upto_def)
    then show ?thesis using approx_input q by blast
  qed
  then have "approx (run_state bs nodes (p @ [b])) (apply_statements nodes (bb_statements (bs ! b)) (block_input states (bs ! b)))"
    unfolding run_state_def by (simp add: approx_statements)
  then show ?case using s approx_eq by auto
qed (simp add: entry_run_def)

section \<open>Results\<close>

lemma flow_exit_result:
  "fr_leaked_allocations (fold (flow_exit outputs states) es r) =
     fr_leaked_allocations r @ concat (map (\<lambda>e. case hm_get states e of None \<Rightarrow> [] | Some st \<Rightarrow> fl_allocated st) es)"
  "fr_unwritten_outputs_paths (fold (flow_exit outputs states) es r) =
     fr_unwritten_outputs_paths r @ filter (\<lambda>u. u \<noteq> []) (List.map_filter (\<lambda>e. map_option
       (\<lambda>st. filter (\<lambda>o'. o' \<notin> set (fl_written st)) outputs) (hm_get states e)) es)"
  by (induction es arbitrary: r)
    (auto simp: flow_exit_def Let_def List.map_filter_simps split: option.splits)


text \<open>A loop that may allocate and that writes the output on one way out of two.\<close>

definition at_line_one :: "node_kind \<Rightarrow> node" where
  "at_line_one = Node (span_new 1 1 1)"

definition flow_demo :: "node list" where
  "flow_demo = [at_line_one (Assignment ''v'' (IntLit 1)), at_line_one (Label ''again''),
     at_line_one (Branch (Var ''v'') ''more'' ''end''), at_line_one (Label ''more''),
     at_line_one (Assignment ''h'' (Alloc (IntLit 8) TInt False)), at_line_one (Store ''o'' (IntLit 1) 8 None),
     at_line_one (Jump ''again''), at_line_one (Label ''end'')]"


text \<open>
  With a jump back to the entry the pass reports nothing, although the run that leaves at once does
  not write the output.
\<close>

definition flow_from_entry :: "node list" where
  "flow_from_entry = drop 1 flow_demo"

lemma entry_loop_unsound:
  "settled_flow (cfg_build flow_from_entry) flow_from_entry"
  "fr_unwritten_outputs_paths (analyze_data_flow (cfg_build flow_from_entry) flow_from_entry [''o'']) = []"
  "entry_run (cfg_blocks (cfg_build flow_from_entry)) [0, 2]" "cfg_exits (cfg_build flow_from_entry) = [2]"
  "fl_written (run_state (cfg_blocks (cfg_build flow_from_entry)) flow_from_entry [0, 2]) = []"
  by code_simp+

end
