(* ===== verification/Sigil_Linker.thy ===== *)
theory Sigil_Linker
  imports Sigil_Driver "HOL-Library.List_Lexorder" "HOL-Library.Char_ord"
begin

text \<open>
  Archiving the objects of a library and linking those of an executable
  (\<^verbatim>\<open>compiler/src/linker.rs\<close>). The file system and the tools that are run are parameters: a
  record of functions on a state of the world. What is modelled is what the compiler asks of them, in
  which order, and what it makes of their answers. Paths are written with \<^verbatim>\<open>/\<close> on every
  platform, and the exit code as its text.
\<close>

section \<open>The outside world\<close>

record run_output =
  ro_success :: bool
  ro_code :: string
  ro_stdout :: string
  ro_stderr :: string

text \<open>Operations that fail answer with the text of the error.\<close>

record 'w tools =
  tl_exists :: "path \<Rightarrow> 'w \<Rightarrow> bool"
  tl_create_dirs :: "path \<Rightarrow> 'w \<Rightarrow> string option \<times> 'w"
  tl_remove :: "path \<Rightarrow> 'w \<Rightarrow> string option \<times> 'w"
  tl_run :: "string \<Rightarrow> string list \<Rightarrow> 'w \<Rightarrow> (string + run_output) \<times> 'w"

type_synonym link_result = "string compiler_error + unit"

section \<open>Archives\<close>

definition run_archiver :: "'w tools \<Rightarrow> path list \<Rightarrow> path \<Rightarrow> 'w \<Rightarrow> link_result \<times> 'w" where
  "run_archiver t objs lib w =
     (case tl_run t ''llvm-ar'' (''rcs'' # path_text lib # map path_text objs) w of
        (Inl e, w') \<Rightarrow> (Inl (ce_link (''Failed to run llvm-ar: '' @ e)), w')
      | (Inr out, w') \<Rightarrow>
          (if ro_success out then Inr () else Inl (ce_link (''llvm-ar failed: '' @ ro_stderr out)), w'))"

definition archive_objects :: "'w tools \<Rightarrow> path list \<Rightarrow> path \<Rightarrow> 'w \<Rightarrow> link_result \<times> 'w" where
  "archive_objects t objs lib w =
     (if objs = [] then (Inl (ce_link ''No object files to archive''), w)
      else (case (if lib = [] then (None, w) else tl_create_dirs t (butlast lib) w) of
          (Some e, w1) \<Rightarrow> (Inl (ce_io (''Failed to create output directory: '' @ e)), w1)
        | (None, w1) \<Rightarrow>
            (case (if tl_exists t lib w1 then tl_remove t lib w1 else (None, w1)) of
               (Some e, w2) \<Rightarrow>
                 (Inl (ce_io (''Failed to remove stale archive '' @ path_text lib @ '': '' @ e)), w2)
             | (None, w2) \<Rightarrow> run_archiver t objs lib w2)))"

section \<open>Executables\<close>

text \<open>What a failed linker leaves behind in the error, and what a failed start of it does.\<close>

definition linker_failed :: "string \<Rightarrow> run_output \<Rightarrow> string" where
  "linker_failed linker out = ''linker '' @ [CHR 0x27] @ linker @ [CHR 0x27] @ '' failed (exit code '' @ ro_code out @ ''):''
     @ [CHR 0x0A] @ ro_stdout out @ ro_stderr out"

definition run_linker :: "'w tools \<Rightarrow> string \<Rightarrow> string list \<Rightarrow> (string \<Rightarrow> string) \<Rightarrow> 'w \<Rightarrow> link_result \<times> 'w" where
  "run_linker t linker link_args not_run w = (case tl_run t linker link_args w of
       (Inl e, w') \<Rightarrow> (Inl (ce_link (not_run e)), w')
     | (Inr out, w') \<Rightarrow>
         (if ro_success out then Inr () else Inl (ce_link (linker_failed linker out)), w'))"

text \<open>Failing to create the directory is ignored: the linker will fail with a clear message.\<close>

definition make_parent :: "'w tools \<Rightarrow> path \<Rightarrow> 'w \<Rightarrow> 'w" where
  "make_parent t exe w = (if exe = [] then w else snd (tl_create_dirs t (butlast exe) w))"

text \<open>Linux and macOS differ in the driver and in the hint.\<close>

record unix_linker =
  ul_linker :: string
  ul_hint :: string

definition linux_linker :: unix_linker where
  "linux_linker = \<lparr>ul_linker = ''gcc'', ul_hint = ''Make sure gcc is installed and in PATH''\<rparr>"

definition macos_linker :: unix_linker where
  "macos_linker = \<lparr>ul_linker = ''clang'', ul_hint = ''Make sure Xcode Command Line Tools are installed''\<rparr>"

definition unix_link_args :: "path list \<Rightarrow> path list \<Rightarrow> path list \<Rightarrow> path \<Rightarrow> string list" where
  "unix_link_args objs sigil_libs native_libs exe =
     [''-o'', path_text exe] @ map path_text objs @ map path_text sigil_libs @ map path_text native_libs
       @ [''-lpthread'']"

definition link_objects_unix ::
  "unix_linker \<Rightarrow> 'w tools \<Rightarrow> path list \<Rightarrow> path list \<Rightarrow> path list \<Rightarrow> path \<Rightarrow> 'w \<Rightarrow> link_result \<times> 'w" where
  "link_objects_unix ul t objs sigil_libs native_libs exe w =
     run_linker t (ul_linker ul) (unix_link_args objs sigil_libs native_libs exe)
       (\<lambda>e. ''failed to run '' @ ul_linker ul @ '': '' @ e @ ''. '' @ ul_hint ul) (make_parent t exe w)"

text \<open>
  On Windows the linker is searched for: the environment, its files and the output of
  \<^verbatim>\<open>vswhere.exe\<close> are parameters.
\<close>

record win_env =
  we_var :: "string \<Rightarrow> string option"
  we_path_dirs :: "string list"
  we_exists :: "string \<Rightarrow> bool"
  we_vswhere :: "string \<Rightarrow> string option"
  we_read :: "string \<Rightarrow> string option"
  we_read_dir :: "string \<Rightarrow> string list option"

definition back_join :: "string list \<Rightarrow> string" where
  "back_join = join_with [CHR 0x5C]"

definition trim_string :: "string \<Rightarrow> string" where
  "trim_string s = rev (dropWhile (\<lambda>c. is_whitespace (of_char c))
     (rev (dropWhile (\<lambda>c. is_whitespace (of_char c)) s)))"

definition on_path :: "win_env \<Rightarrow> string \<Rightarrow> bool" where
  "on_path we exe \<longleftrightarrow> list_ex (\<lambda>dir. we_exists we (back_join [dir, exe])) (we_path_dirs we)"

definition latest_windows_sdk_libs :: "win_env \<Rightarrow> string \<Rightarrow> (string \<times> string) option" where
  "latest_windows_sdk_libs we pf86 =
     (let lib_root = back_join [pf86, ''Windows Kits'', ''10'', ''Lib'']
      in case we_read_dir we lib_root of
           None \<Rightarrow> None
         | Some entries \<Rightarrow>
             (case sort (filter (\<lambda>n. take 3 n = ''10.'' \<and> we_exists we (back_join [lib_root, n, ''ucrt''])) entries) of
                [] \<Rightarrow> None
              | v # vs \<Rightarrow> Some (back_join [lib_root, last (v # vs), ''ucrt'', ''x64''],
                              back_join [lib_root, last (v # vs), ''um'', ''x64''])))"

definition discover_via_vswhere :: "win_env \<Rightarrow> (string \<times> string list) option" where
  "discover_via_vswhere we =
     (case (case we_var we ''ProgramFiles(x86)'' of Some v \<Rightarrow> Some v | None \<Rightarrow> we_var we ''ProgramFiles'') of
        None \<Rightarrow> None
      | Some pf86 \<Rightarrow>
          (let vswhere = back_join [pf86, ''Microsoft Visual Studio'', ''Installer'', ''vswhere.exe'']
           in if \<not> we_exists we vswhere then None
              else (case we_vswhere we vswhere of
                  None \<Rightarrow> None
                | Some out \<Rightarrow>
                    (let install = trim_string out
                     in if install = [] then None
                        else (case we_read we (back_join [install, ''VC'', ''Auxiliary'', ''Build'',
                                         ''Microsoft.VCToolsVersion.default.txt'']) of
                            None \<Rightarrow> None
                          | Some ver \<Rightarrow>
                              (let tools = back_join [install, ''VC'', ''Tools'', ''MSVC'', trim_string ver];
                                   link_exe = back_join [tools, ''bin'', ''Hostx64'', ''x64'', ''link.exe'']
                               in if \<not> we_exists we link_exe then None
                                  else Some (link_exe, back_join [tools, ''lib'', ''x64''] #
                                         (case latest_windows_sdk_libs we pf86 of
                                            None \<Rightarrow> []
                                          | Some (ucrt, um) \<Rightarrow> [ucrt, um]))))))))"

definition find_windows_linker :: "win_env \<Rightarrow> string \<times> string list" where
  "find_windows_linker we =
     (if on_path we ''link.exe'' \<and> we_var we ''LIB'' \<noteq> None then (''link.exe'', [])
      else (case discover_via_vswhere we of
          Some found \<Rightarrow> found
        | None \<Rightarrow> (''lld-link.exe'', [])))"

text \<open>\<^verbatim>\<open>Path::extension\<close>: the part after the last dot, unless the dot is the first character.\<close>

definition has_extension :: "path \<Rightarrow> bool" where
  "has_extension p \<longleftrightarrow> p \<noteq> [] \<and> last p \<noteq> ''..'' \<and> CHR ''.'' \<in> set (drop 1 (last p))"

definition windows_exe :: "path \<Rightarrow> path" where
  "windows_exe p = (if has_extension p \<or> p = [] then p else butlast p @ [last p @ ''.exe''])"

definition windows_link_args ::
  "string list \<Rightarrow> path list \<Rightarrow> path list \<Rightarrow> path list \<Rightarrow> path \<Rightarrow> string list" where
  "windows_link_args lib_paths objs sigil_libs native_libs exe =
     [''/NOLOGO'', ''/SUBSYSTEM:CONSOLE''] @ map ((@) ''/LIBPATH:'') lib_paths
       @ map path_text objs @ map path_text sigil_libs @ map path_text native_libs
       @ [''msvcrt.lib'', ''ucrt.lib'', ''legacy_stdio_definitions.lib'', ''kernel32.lib'', ''ws2_32.lib'',
          ''/OUT:'' @ path_text exe]"

definition link_objects_windows ::
  "win_env \<Rightarrow> 'w tools \<Rightarrow> path list \<Rightarrow> path list \<Rightarrow> path list \<Rightarrow> path \<Rightarrow> 'w \<Rightarrow> link_result \<times> 'w" where
  "link_objects_windows we t objs sigil_libs native_libs output_path w =
     (let exe = windows_exe output_path; (linker, lib_paths) = find_windows_linker we
      in run_linker t linker (windows_link_args lib_paths objs sigil_libs native_libs exe)
           (\<lambda>e. ''failed to run linker '' @ [CHR 0x27] @ linker @ [CHR 0x27] @ '': '' @ e
              @ ''. Run from a Visual Studio Developer Command Prompt (or after vcvars64.bat), or install Visual Studio Build Tools / LLVM (lld-link).'')
           (make_parent t exe w))"

definition link_objects_unsupported :: link_result where
  "link_objects_unsupported =
     Inl (ce_link ''linking not supported on this platform; link the object files manually'')"

section \<open>An archive holds the objects of its build\<close>

text \<open>
  What the archiver and the file system are documented to do: \<open>members\<close> gives the member names of the
  archive at a path, if there is one. \<^verbatim>\<open>llvm-ar rcs\<close> creates a missing archive and replaces
  or inserts the files it is given, each under its file name, but removes none.
\<close>

definition file_name_of :: "string \<Rightarrow> string" where
  "file_name_of s = rev (takeWhile (\<lambda>c. c \<noteq> CHR ''/'') (rev s))"

definition member_name :: "path \<Rightarrow> string" where
  "member_name p = file_name_of (path_text p)"

definition archiver_documented :: "'w tools \<Rightarrow> ('w \<Rightarrow> path \<Rightarrow> string set option) \<Rightarrow> bool" where
  "archiver_documented t members \<longleftrightarrow>
     (\<forall>p w. tl_exists t p w = (members w p \<noteq> None))
   \<and> (\<forall>d w p. members (snd (tl_create_dirs t d w)) p = members w p)
   \<and> (\<forall>p w w'. tl_remove t p w = (None, w') \<longrightarrow> members w' p = None)
   \<and> (\<forall>lib objs w out w'. tl_run t ''llvm-ar'' (''rcs'' # path_text lib # map path_text objs) w = (Inr out, w')
        \<longrightarrow> ro_success out \<longrightarrow> members w' lib = Some ((case members w lib of None \<Rightarrow> {} | Some ms \<Rightarrow> ms)
              \<union> set (map member_name objs)))"

text \<open>
  C33: an archive that was built holds the objects of this build and nothing else, whatever was at its
  path before: the members that an earlier build left are gone.
\<close>

theorem archive_has_this_build:
  assumes "archiver_documented t members" and "archive_objects t objs lib w = (Inr (), w')"
  shows "objs \<noteq> [] \<and> members w' lib = Some (set (map member_name objs))"
proof -
  obtain e1 w1 where d: "(if lib = [] then (None, w) else tl_create_dirs t (butlast lib) w) = (e1, w1)" by fastforce
  obtain e2 w2 where rm: "(if tl_exists t lib w1 then tl_remove t lib w1 else (None, w1)) = (e2, w2)" by fastforce
  have "objs \<noteq> []" "e1 = None" "e2 = None" and run: "run_archiver t objs lib w2 = (Inr (), w')"
    using assms(2) unfolding archive_objects_def d
    by (cases e1; cases e2; simp add: rm split: if_splits)+
  obtain out where ar: "tl_run t ''llvm-ar'' (''rcs'' # path_text lib # map path_text objs) w2 = (Inr out, w')" "ro_success out"
    using run unfolding run_archiver_def by (auto split: if_splits prod.splits sum.splits)
  have "members w2 lib = None"
    using assms(1) rm \<open>e2 = None\<close> unfolding archiver_documented_def by (auto split: if_splits)
  moreover have "members w' lib = Some ((case members w2 lib of None \<Rightarrow> {} | Some ms \<Rightarrow> ms) \<union> set (map member_name objs))"
    using assms(1) ar unfolding archiver_documented_def by blast
  ultimately show ?thesis using \<open>objs \<noteq> []\<close> by simp
qed

text \<open>An archiver that does what is documented, over archives named by the text of their path.\<close>

definition demo_tools :: "(string \<Rightarrow> string set option) tools" where
  "demo_tools = \<lparr>tl_exists = (\<lambda>p w. w (path_text p) \<noteq> None), tl_create_dirs = (\<lambda>d w. (None, w)),
     tl_remove = (\<lambda>p w. (None, w(path_text p := None))),
     tl_run = (\<lambda>cmd args w. (Inr \<lparr>ro_success = True, ro_code = ''Some(0)'', ro_stdout = [], ro_stderr = []\<rparr>,
        case args of
          op # lib # objs \<Rightarrow> w(lib := Some ((case w lib of None \<Rightarrow> {} | Some ms \<Rightarrow> ms) \<union> set (map file_name_of objs)))
        | _ \<Rightarrow> w))\<rparr>"

lemma archive_has_this_build_witness:
  "snd (archive_objects demo_tools [[''cache'', ''add_2.o'']] [''out'', ''math.lib''] [''out/math.lib'' \<mapsto> {''add_1.o''}])
     ''out/math.lib'' = Some {''add_2.o''}"
proof -
  let ?w = "[''out/math.lib'' \<mapsto> {''add_1.o''}]" and ?objs = "[[''cache'', ''add_2.o'']]"
  let ?lib = "[''out'', ''math.lib'']"
  have "archiver_documented demo_tools (\<lambda>w p. w (path_text p))"
    by (simp add: archiver_documented_def demo_tools_def member_name_def image_image)
  moreover have "fst (archive_objects demo_tools ?objs ?lib ?w) = Inr ()"
    by (simp add: archive_objects_def run_archiver_def demo_tools_def)
  then have "archive_objects demo_tools ?objs ?lib ?w = (Inr (), snd (archive_objects demo_tools ?objs ?lib ?w))"
    by (metis prod.collapse)
  ultimately show ?thesis
    using archive_has_this_build by (fastforce simp: path_text_def member_name_def file_name_of_def)
qed

text \<open>
  The newest kit is the last in the order of strings, which is not the order of versions.
\<close>

lemma sdk_order_of_strings:
  "latest_windows_sdk_libs \<lparr>we_var = (\<lambda>_. None), we_path_dirs = [], we_exists = (\<lambda>_. True), we_vswhere = (\<lambda>_. None),
     we_read = (\<lambda>_. None), we_read_dir = (\<lambda>_. Some [''10.0.9600.0'', ''10.0.22621.0''])\<rparr> ''P'' =
   Some (back_join [''P'', ''Windows Kits'', ''10'', ''Lib'', ''10.0.9600.0'', ''ucrt'', ''x64''],
         back_join [''P'', ''Windows Kits'', ''10'', ''Lib'', ''10.0.9600.0'', ''um'', ''x64''])"
  by code_simp

end
