(* ===== verification/Sigil_Main.thy ===== *)
theory Sigil_Main
  imports Sigil_Library Sigil_Cache_Props Sigil_Linker Sigil_Codegen
begin

text \<open>
  The compiler as a program: the command line and \<^verbatim>\<open>run\<close> in
  \<^verbatim>\<open>compiler/src/main.rs\<close>, which put the phases together. The backend of the
  incremental compilation is the code generator, followed by LLVM's passes and object writer, which
  are parameters; the directories, texts and tools outside are those of the linker's world.

  Paths given on the command line are read into their components. What is printed on the way is left
  out.
\<close>

section \<open>The command line\<close>

record 'i args =
  ag_input :: 'i
  ag_output :: "string option"
  ag_lib_mode :: bool
  ag_fix_hashes :: bool
  ag_hash_only :: bool
  ag_link_libs :: "string list"
  ag_native_libs :: "string list"

definition no_args :: "string option args" where
  "no_args = \<lparr>ag_input = None, ag_output = None, ag_lib_mode = False, ag_fix_hashes = False,
     ag_hash_only = False, ag_link_libs = [], ag_native_libs = []\<rparr>"

definition usage_text :: string where
  "usage_text = ''Usage: sigil [--lib] [--fix-hashes] [--hash] <input> [-o output] [--link lib] [--native-lib lib]...''"

fun scan_args :: "string list \<Rightarrow> string option args \<Rightarrow> string compiler_error + string option args" where
  "scan_args [] a = Inr a"
| "scan_args (x # xs) a =
     (if x = ''--lib'' then scan_args xs (a\<lparr>ag_lib_mode := True\<rparr>)
      else if x = ''--fix-hashes'' then scan_args xs (a\<lparr>ag_fix_hashes := True\<rparr>)
      else if x = ''--hash'' then scan_args xs (a\<lparr>ag_hash_only := True\<rparr>)
      else if x = ''--link'' then
        (case xs of
           [] \<Rightarrow> Inl (ce_cli ''--link requires a library path'')
         | v # ys \<Rightarrow> scan_args ys (a\<lparr>ag_link_libs := ag_link_libs a @ [v]\<rparr>))
      else if x = ''--native-lib'' then
        (case xs of
           [] \<Rightarrow> Inl (ce_cli ''--native-lib requires a library path'')
         | v # ys \<Rightarrow> scan_args ys (a\<lparr>ag_native_libs := ag_native_libs a @ [v]\<rparr>))
      else if x = ''-o'' then
        (case xs of
           [] \<Rightarrow> Inl (ce_cli ''-o requires an output path'')
         | v # ys \<Rightarrow> scan_args ys (a\<lparr>ag_output := Some v\<rparr>))
      else if x = ''--help'' \<or> x = ''-h'' then Inl (ce_cli usage_text)
      else if take 1 x \<noteq> ''-'' then
        scan_args xs (if ag_input a = None then a\<lparr>ag_input := Some x\<rparr> else a)
      else Inl (ce_cli (''Unknown argument: '' @ x)))"

definition parse_args :: "string list \<Rightarrow> string compiler_error + string args" where
  "parse_args argv = (case scan_args (drop 1 argv) no_args of
       Inl e \<Rightarrow> Inl e
     | Inr a \<Rightarrow> (case ag_input a of
           None \<Rightarrow> Inl (ce_cli ''No input file specified'')
         | Some i \<Rightarrow> Inr \<lparr>ag_input = i, ag_output = ag_output a, ag_lib_mode = ag_lib_mode a,
             ag_fix_hashes = ag_fix_hashes a, ag_hash_only = ag_hash_only a,
             ag_link_libs = ag_link_libs a, ag_native_libs = ag_native_libs a\<rparr>))"

text \<open>\<^verbatim>\<open>Path::components\<close>, \<^verbatim>\<open>file_name\<close> and \<^verbatim>\<open>file_stem\<close>.\<close>

fun split_at_slash :: "string \<Rightarrow> string \<Rightarrow> string list" where
  "split_at_slash cur [] = [cur]"
| "split_at_slash cur (c # cs) =
     (if c = CHR ''/'' then cur # split_at_slash [] cs else split_at_slash (cur @ [c]) cs)"

definition path_of :: "string \<Rightarrow> path" where
  "path_of s = (let parts = split_at_slash [] s in
     (if take 1 s = ''/'' then [''/''] else if hd parts = ''.'' then [''.''] else [])
       @ filter (\<lambda>p. p \<noteq> [] \<and> p \<noteq> ''.'') parts)"

definition file_name :: "path \<Rightarrow> string option" where
  "file_name p = (if p = [] \<or> last p \<in> {''.'', ''..'', ''/''} then None else Some (last p))"

definition stem :: "string \<Rightarrow> string" where
  "stem f = (case extension f of None \<Rightarrow> f | Some e \<Rightarrow> take (length f - length e - 1) f)"

definition parent_or_dot :: "path \<Rightarrow> path" where
  "parent_or_dot p = (case parent_of p of None \<Rightarrow> [''.''] | Some d \<Rightarrow> d)"

definition library_output :: "target_platform \<Rightarrow> string args \<Rightarrow> path" where
  "library_output os a = (case ag_output a of
       Some o' \<Rightarrow> path_of o'
     | None \<Rightarrow>
         (let dir = path_of (ag_input a); name = (case file_name dir of None \<Rightarrow> ''library'' | Some n \<Rightarrow> n)
          in dir @ [name @ ''.'' @ (if os = Windows then ''lib'' else ''a'')]))"

definition executable_output :: "target_platform \<Rightarrow> string args \<Rightarrow> path" where
  "executable_output os a = (case ag_output a of
       Some o' \<Rightarrow> path_of o'
     | None \<Rightarrow>
         (let input = path_of (ag_input a); name = map_option stem (file_name input)
          in parent_or_dot input @ [case name of
               None \<Rightarrow> if os = Windows then ''output.exe'' else ''output''
             | Some n \<Rightarrow> if os = Windows then n @ ''.exe'' else n]))"

section \<open>The code generator as a backend\<close>

record 'o llvm =
  lv_initialize :: "string option"
  lv_from_triple :: "string option"
  lv_machine :: bool
  lv_triple :: string
  lv_builder :: builder
  lv_optimize :: "cg \<Rightarrow> string + cg"
  lv_object :: "cg \<Rightarrow> string + 'o"

definition native_target :: "'o llvm \<Rightarrow> string compiler_error + target_platform" where
  "native_target l = (case lv_initialize l of
       Some e \<Rightarrow> Inl (ce_codegen (''Failed to initialize native target: '' @ e))
     | None \<Rightarrow> (case lv_from_triple l of
           Some e \<Rightarrow> Inl (ce_codegen (''Failed to get target: '' @ e))
         | None \<Rightarrow> if lv_machine l then Inr (platform_from_triple (lv_triple l))
                  else Inl (ce_codegen ''Failed to create target machine'')))"

text \<open>A panic of the bindings ends the run like an error, with a message that is not the code's.\<close>

definition module_object :: "'o llvm \<Rightarrow> string \<Rightarrow> string \<Rightarrow> cg_stop + nat \<times> cg \<Rightarrow> string + 'o" where
  "module_object l what unwritten m = (case m of
       Inl (cg_stop.Fails e) \<Rightarrow> Inl (''Codegen error'' @ what @ '': '' @ code_gen_error_text e)
     | Inl Panics \<Rightarrow> Inl ''panic''
     | Inr (f, s) \<Rightarrow> (case lv_optimize l s of
           Inl e \<Rightarrow> Inl (''Optimization error'' @ what @ '': '' @ e)
         | Inr s' \<Rightarrow> (case lv_object l s' of
               Inl e \<Rightarrow> Inl (unwritten @ '': '' @ e)
             | Inr obj \<Rightarrow> Inr obj)))"

definition unit_object :: "'o llvm \<Rightarrow> string \<Rightarrow> cg_stop + nat \<times> cg \<Rightarrow> string + 'o" where
  "unit_object l name = module_object l ('' for '' @ name) (''Failed to write object file for '' @ name)"

definition llvm_backend :: "'o llvm \<Rightarrow> target_platform \<Rightarrow> 'o backend" where
  "llvm_backend l platform =
     \<lparr>cg_behavior = (\<lambda>b name ext. unit_object l name
         (cg_then (declare_behaviors ext) (compile_function b name) (cg_new (lv_builder l) platform))),
      cg_pattern = (\<lambda>pt name contracts. unit_object l (''pattern '' @ name)
         (pattern_module (lv_builder l) platform contracts pt)),
      cg_entry = (\<lambda>x deps libs patterns. module_object l [] ''Failed to write entry object file''
         (cg_then (declare_behaviors deps)
           (cg_then (declare_behaviors libs)
             (cg_then (declare_patterns patterns) (compile_executable_main x)))
           (cg_new (lv_builder l) platform)))\<rparr>"

section \<open>Running the compiler\<close>

record ('o, 'w) host =
  ho_os :: target_platform
  ho_win :: win_env
  ho_tools :: "'w tools"
  ho_write :: "path \<Rightarrow> string \<Rightarrow> 'w \<Rightarrow> string option \<times> 'w"
  ho_can_write :: "path \<Rightarrow> bool"
  ho_can_save :: bool
  ho_sha256 :: "byte list \<Rightarrow> byte list"
  ho_hex :: "byte list \<Rightarrow> string"
  ho_version :: string
  ho_exe :: "(nat \<times> nat option) option"
  ho_now :: nat
  ho_llvm :: "'o llvm"

text \<open>The compiler's executable, when it can be inspected: its length and its modification time.\<close>

definition compiler_build_id :: "string \<Rightarrow> (nat \<times> nat option) option \<Rightarrow> string" where
  "compiler_build_id version exe = (case exe of
       Some (len, modified) \<Rightarrow>
         version @ ''-'' @ nat_to_dec len @ ''-'' @ nat_to_dec (case modified of None \<Rightarrow> 0 | Some t \<Rightarrow> t)
     | None \<Rightarrow> version)"

definition ho_compiler_id :: "('o, 'w) host \<Rightarrow> string" where
  "ho_compiler_id h = compiler_build_id (ho_version h) (ho_exe h)"

record ('o, 'w) world =
  wo_fs :: fs
  wo_disk :: "path \<Rightarrow> 'o disk"
  wo_out :: 'w

datatype run_error =
    CompilerFails "string compiler_error"
  | Refused program_error
  | LibraryRefused library_error
  | NotCompiled string

datatype run_result = Built path | Printed string | RunFails run_error | NoReturn

definition host_env :: "('o, 'w) host \<Rightarrow> string hset \<Rightarrow> bool \<Rightarrow> load_env" where
  "host_env h symbols fix_hashes =
     \<lparr>env_search = [], env_library = symbols, env_fix = fix_hashes, env_can_write = ho_can_write h,
      env_hash = compute_contract_hash (ho_sha256 h) (ho_hex h)\<rparr>"

definition host_build :: "('o, 'w) host \<Rightarrow> target_platform \<Rightarrow> path \<Rightarrow> 'o build_env" where
  "host_build h platform cache_dir =
     \<lparr>be_sha256 = ho_sha256 h, be_hex = ho_hex h, be_backend = llvm_backend (ho_llvm h) platform,
      be_cache_dir = cache_dir, be_compiler_id = ho_compiler_id h, be_now = ho_now h\<rparr>"

definition cache_dir_of :: "path \<Rightarrow> path" where
  "cache_dir_of output = parent_or_dot output @ [''.cache'']"

definition link_objects ::
  "('o, 'w) host \<Rightarrow> path list \<Rightarrow> path list \<Rightarrow> path list \<Rightarrow> path \<Rightarrow> 'w \<Rightarrow> link_result \<times> 'w" where
  "link_objects h = (case ho_os h of
       Windows \<Rightarrow> link_objects_windows (ho_win h) (ho_tools h)
     | Linux \<Rightarrow> link_objects_unix linux_linker (ho_tools h)
     | MacOS \<Rightarrow> link_objects_unix macos_linker (ho_tools h))"

subsection \<open>The hash of one behavior\<close>

definition run_hash :: "('o, 'w) host \<Rightarrow> string args \<Rightarrow> fs \<Rightarrow> run_result" where
  "run_hash h a root = (case fst (parse_behavior_file (host_env h [] False) (path_of (ag_input a)) root) of
       Done (b, src) \<Rightarrow> Printed (compute_contract_hash (ho_sha256 h) (ho_hex h) (b_contract b))
     | outcome.Fails e \<Rightarrow> RunFails (Refused (LoadFailed e))
     | Diverges \<Rightarrow> NoReturn)"

subsection \<open>Executables\<close>

text \<open>The sources after the front end: hashes may have been repaired, also when it fails later.\<close>

definition front_files :: "load_env \<Rightarrow> nat \<Rightarrow> path \<Rightarrow> fs \<Rightarrow> fs" where
  "front_files env n input root =
     (if input = [] \<or> extension (last input) \<noteq> Some ''sigil'' then root
      else (case load_executable_file root input of
          Done x \<Rightarrow>
            if check_entry_is_composite (ex_entry x) \<noteq> [] then root
            else (case load_all (with_search input env) n (collect_call_behaviors (ex_entry x) []) (load_start root) of
                (Done _, st1) \<Rightarrow>
                  (case bind_c (of_outcome (load_patterns (search_paths input) (ls_fs st1) (ex_uses x) [])) (\<lambda>ps1.
                          of_outcome (load_patterns (search_paths input) (ls_fs st1) (collect_spawn_patterns (ex_entry x) []) ps1)) of
                     Accepted ps2 \<Rightarrow> ls_fs (snd (load_all (with_search input env) n (pattern_calls ps2) st1))
                   | _ \<Rightarrow> ls_fs st1)
              | (_, st1) \<Rightarrow> ls_fs st1)
        | _ \<Rightarrow> root))"

definition run_executable ::
  "('o, 'w) host \<Rightarrow> nat \<Rightarrow> target_platform \<Rightarrow> string args \<Rightarrow> ('o, 'w) world \<Rightarrow> run_result \<times> ('o, 'w) world" where
  "run_executable h n platform a w =
     (let input = path_of (ag_input a);
          output = executable_output (ho_os h) a;
          cache_dir = cache_dir_of output;
          lib_paths = map path_of (ag_link_libs a) in
      case load_libraries (wo_fs w) lib_paths of (symbols, libs) \<Rightarrow>
     (let env = host_env h symbols (ag_fix_hashes a);
          root = front_files env n input (wo_fs w) in
      case front_end (ho_sha256 h) (ho_hex h) env n libs input (wo_fs w) of
        NoAnswer \<Rightarrow> (NoReturn, w\<lparr>wo_fs := root\<rparr>)
      | Rejected e \<Rightarrow> (RunFails (Refused e), w\<lparr>wo_fs := root\<rparr>)
      | Accepted pr \<Rightarrow>
          (case tl_create_dirs (ho_tools h) (cache_dir @ [''objects'']) (wo_out w) of
             (Some e, o1) \<Rightarrow>
               (RunFails (CompilerFails (ce_io (''Failed to create cache/objects directory: '' @ e))),
                w\<lparr>wo_fs := root, wo_out := o1\<rparr>)
           | (None, o1) \<Rightarrow>
               (case build_objects (host_build h platform cache_dir) (ho_can_save h) root input pr libs (wo_disk w cache_dir) of
                  (Inl m, d) \<Rightarrow>
                    (RunFails (NotCompiled m),
                     w\<lparr>wo_fs := root, wo_disk := (wo_disk w)(cache_dir := d), wo_out := o1\<rparr>)
                | (Inr files, d) \<Rightarrow>
                    (case link_objects h files lib_paths (map path_of (ag_native_libs a)) output o1 of (r, o2) \<Rightarrow>
                       (case r of Inl e \<Rightarrow> RunFails (CompilerFails e) | Inr _ \<Rightarrow> Built output,
                        w\<lparr>wo_fs := root, wo_disk := (wo_disk w)(cache_dir := d), wo_out := o2\<rparr>))))))"

subsection \<open>Libraries\<close>

fun write_files :: "('o, 'w) host \<Rightarrow> path \<Rightarrow> (string \<times> string) list \<Rightarrow> 'w \<Rightarrow> link_result \<times> 'w" where
  "write_files h dir [] w = (Inr (), w)"
| "write_files h dir ((name, content) # fs) w =
     (case ho_write h (dir @ [name]) content w of
        (Some e, w') \<Rightarrow> (Inl (ce_io (''Failed to write '' @ name @ '': '' @ e)), w')
      | (None, w') \<Rightarrow> write_files h dir fs w')"

definition generate_library_index ::
  "('o, 'w) host \<Rightarrow> loaded_behavior list \<Rightarrow> path \<Rightarrow> 'w \<Rightarrow> link_result \<times> 'w" where
  "generate_library_index h bs output_dir w =
     (let gen_dir = output_dir @ [''.generated''] in
      case tl_create_dirs (ho_tools h) gen_dir w of
        (Some e, w') \<Rightarrow> (Inl (ce_io (''Failed to create .generated dir: '' @ e)), w')
      | (None, w') \<Rightarrow> write_files h gen_dir [(''behaviors.index'', index_text bs),
          (''contracts.registry'', registry_text bs), (''catalog.md'', catalog_text bs)] w')"

text \<open>The cache directory is made before the names are checked.\<close>

definition run_library ::
  "('o, 'w) host \<Rightarrow> target_platform \<Rightarrow> string args \<Rightarrow> ('o, 'w) world \<Rightarrow> run_result \<times> ('o, 'w) world" where
  "run_library h platform a w =
     (let dir = path_of (ag_input a);
          output = library_output (ho_os h) a;
          cache_dir = cache_dir_of output;
          make_dirs = tl_create_dirs (ho_tools h) (cache_dir @ [''objects'']);
          no_dir = (\<lambda>e. RunFails (CompilerFails (ce_io (''Failed to create cache directory: '' @ e)))) in
      case library_front (ho_sha256 h) (ho_hex h) (host_env h [] (ag_fix_hashes a)) dir (wo_fs w) of (r, root) \<Rightarrow>
     (case r of
        None \<Rightarrow> (NoReturn, w\<lparr>wo_fs := root\<rparr>)
      | Some (Inl e) \<Rightarrow>
          (case e of
             DuplicateBehavior name p \<Rightarrow>
               (case make_dirs (wo_out w) of
                  (Some m, o1) \<Rightarrow> (no_dir m, w\<lparr>wo_fs := root, wo_out := o1\<rparr>)
                | (None, o1) \<Rightarrow> (RunFails (LibraryRefused e), w\<lparr>wo_fs := root, wo_out := o1\<rparr>))
           | _ \<Rightarrow> (RunFails (LibraryRefused e), w\<lparr>wo_fs := root\<rparr>))
      | Some (Inr bs) \<Rightarrow>
          (case make_dirs (wo_out w) of
             (Some m, o1) \<Rightarrow> (no_dir m, w\<lparr>wo_fs := root, wo_out := o1\<rparr>)
           | (None, o1) \<Rightarrow>
               (case library_objects (host_build h platform cache_dir) (ho_can_save h) root bs (wo_disk w cache_dir) of
                  (Inl m, d) \<Rightarrow>
                    (RunFails (NotCompiled m),
                     w\<lparr>wo_fs := root, wo_disk := (wo_disk w)(cache_dir := d), wo_out := o1\<rparr>)
                | (Inr files, d) \<Rightarrow>
                    (case archive_objects (ho_tools h) files output o1 of
                       (Inl e, o2) \<Rightarrow>
                         (RunFails (CompilerFails e),
                          w\<lparr>wo_fs := root, wo_disk := (wo_disk w)(cache_dir := d), wo_out := o2\<rparr>)
                     | (Inr _, o2) \<Rightarrow>
                         (case generate_library_index h bs (parent_or_dot output) o2 of (g, o3) \<Rightarrow>
                            (case g of Inl e \<Rightarrow> RunFails (CompilerFails e) | Inr _ \<Rightarrow> Built output,
                             w\<lparr>wo_fs := root, wo_disk := (wo_disk w)(cache_dir := d), wo_out := o3\<rparr>)))))))"

subsection \<open>The program\<close>

definition run :: "('o, 'w) host \<Rightarrow> nat \<Rightarrow> string list \<Rightarrow> ('o, 'w) world \<Rightarrow> run_result \<times> ('o, 'w) world" where
  "run h n argv w = (case parse_args argv of
       Inl e \<Rightarrow> (RunFails (CompilerFails e), w)
     | Inr a \<Rightarrow>
         if ag_hash_only a then (run_hash h a (wo_fs w), w)
         else (case native_target (ho_llvm h) of
             Inl e \<Rightarrow> (RunFails (CompilerFails e), w)
           | Inr platform \<Rightarrow>
               if ag_lib_mode a then run_library h platform a w else run_executable h n platform a w))"

text \<open>\<^verbatim>\<open>main\<close>: the exit code; a run that does not return has none.\<close>

definition exit_code :: "run_result \<Rightarrow> nat option" where
  "exit_code r = (case r of Built p \<Rightarrow> Some 0 | Printed s \<Rightarrow> Some 0 | RunFails e \<Rightarrow> Some 1 | NoReturn \<Rightarrow> None)"

end
