(* ===== verification/Sigil_Main_Props.thy ===== *)
theory Sigil_Main_Props
  imports Sigil_Main
begin

text \<open>
  What a run of the compiler gives: which command lines it takes and what it reads in them, and, end to
  end, what an executable that was built consists of.
\<close>

section \<open>The command line\<close>

text \<open>A command line is a sequence of requests.\<close>

datatype request = RLib | RFix | RHash | RLink string | RNative string | ROutput string | RInput string

fun request_text :: "request \<Rightarrow> string list" where
  "request_text RLib = [''--lib'']"
| "request_text RFix = [''--fix-hashes'']"
| "request_text RHash = [''--hash'']"
| "request_text (RLink v) = [''--link'', v]"
| "request_text (RNative v) = [''--native-lib'', v]"
| "request_text (ROutput v) = [''-o'', v]"
| "request_text (RInput x) = [x]"

fun request_ok :: "request \<Rightarrow> bool" where
  "request_ok (RInput x) \<longleftrightarrow> take 1 x \<noteq> ''-''"
| "request_ok r \<longleftrightarrow> True"

fun apply_request :: "request \<Rightarrow> string option args \<Rightarrow> string option args" where
  "apply_request RLib a = a\<lparr>ag_lib_mode := True\<rparr>"
| "apply_request RFix a = a\<lparr>ag_fix_hashes := True\<rparr>"
| "apply_request RHash a = a\<lparr>ag_hash_only := True\<rparr>"
| "apply_request (RLink v) a = a\<lparr>ag_link_libs := ag_link_libs a @ [v]\<rparr>"
| "apply_request (RNative v) a = a\<lparr>ag_native_libs := ag_native_libs a @ [v]\<rparr>"
| "apply_request (ROutput v) a = a\<lparr>ag_output := Some v\<rparr>"
| "apply_request (RInput x) a = (if ag_input a = None then a\<lparr>ag_input := Some x\<rparr> else a)"

fun inputs_of :: "request list \<Rightarrow> string list" where
  "inputs_of [] = []"
| "inputs_of (r # rs) = (case r of RInput x \<Rightarrow> x # inputs_of rs | _ \<Rightarrow> inputs_of rs)"

fun outputs_of :: "request list \<Rightarrow> string list" where
  "outputs_of [] = []"
| "outputs_of (r # rs) = (case r of ROutput x \<Rightarrow> x # outputs_of rs | _ \<Rightarrow> outputs_of rs)"

fun links_of :: "request list \<Rightarrow> string list" where
  "links_of [] = []"
| "links_of (r # rs) = (case r of RLink x \<Rightarrow> x # links_of rs | _ \<Rightarrow> links_of rs)"

fun natives_of :: "request list \<Rightarrow> string list" where
  "natives_of [] = []"
| "natives_of (r # rs) = (case r of RNative x \<Rightarrow> x # natives_of rs | _ \<Rightarrow> natives_of rs)"

lemma scan_word:
  assumes "take 1 x \<noteq> ''-''"
  shows "scan_args (x # xs) a = scan_args xs (apply_request (RInput x) a)"
proof -
  have "x \<noteq> CHR ''-'' # cs" for cs using assms by auto
  then show ?thesis using assms by (simp del: take_Suc_Cons)
qed

lemma scan_request:
  "request_ok r \<Longrightarrow> scan_args (request_text r @ xs) a = scan_args xs (apply_request r a)"
proof (cases r)
  case (RInput x)
  assume "request_ok r"
  then have "take 1 x \<noteq> ''-''" by (simp add: RInput)
  from scan_word [OF this] show ?thesis by (simp only: RInput request_text.simps append_Cons append_Nil)
qed simp_all

lemma scan_requests:
  "list_all request_ok rs \<Longrightarrow> scan_args (concat (map request_text rs)) a = Inr (fold apply_request rs a)"
  by (induction rs arbitrary: a) (simp_all add: scan_request del: scan_args.simps(2))

lemma scan_args_requests:
  "scan_args xs a = Inr b \<Longrightarrow> \<exists>rs. xs = concat (map request_text rs) \<and> list_all request_ok rs \<and> b = fold apply_request rs a"
proof (induction xs a rule: scan_args.induct)
  case (1 a)
  then show ?case by (intro exI [of _ "[]"]) simp
next
  case (2 x xs a)
  have step: ?case if "x # xs = request_text r @ ys" "request_ok r"
    and "\<exists>rs. ys = concat (map request_text rs) \<and> list_all request_ok rs \<and> b = fold apply_request rs (apply_request r a)" for r ys
  proof -
    from that(3) obtain rs where "ys = concat (map request_text rs)" "list_all request_ok rs"
      "b = fold apply_request rs (apply_request r a)" by blast
    then show ?thesis using that(1,2) by (intro exI [of _ "r # rs"]) simp
  qed
  consider "x = ''--lib''" | "x = ''--fix-hashes''" | "x = ''--hash''" | "x = ''--link''" | "x = ''--native-lib''"
    | "x = ''-o''" | "x = ''--help'' \<or> x = ''-h''"
    | "x \<notin> {''--lib'', ''--fix-hashes'', ''--hash'', ''--link'', ''--native-lib'', ''-o'', ''--help'', ''-h''}" by auto
  then show ?case
  proof cases
    case 1
    then show ?thesis using 2 by (intro step [of RLib xs]) auto
  next
    case c: 2
    then show ?thesis using 2 by (intro step [of RFix xs]) auto
  next
    case 3
    then show ?thesis using 2 by (intro step [of RHash xs]) auto
  next
    case 4
    then obtain v ys where "xs = v # ys" using 2(8) by (cases xs) auto
    then show ?thesis using 4 2 by (intro step [of "RLink v" ys]) auto
  next
    case 5
    then obtain v ys where "xs = v # ys" using 2(8) by (cases xs) auto
    then show ?thesis using 5 2 by (intro step [of "RNative v" ys]) auto
  next
    case 6
    then obtain v ys where "xs = v # ys" using 2(8) by (cases xs) auto
    then show ?thesis using 6 2 by (intro step [of "ROutput v" ys]) auto
  next
    case 7
    then show ?thesis using 2(8) by auto
  next
    case 8
    then have "take 1 x \<noteq> ''-''" using 2(8) by (auto split: if_splits)
    then show ?thesis using 8 2 by (intro step [of "RInput x" xs]) (auto split: if_splits)
  qed
qed

lemma requests_summary:
  "fold apply_request rs a =
     \<lparr>ag_input = (if ag_input a = None \<and> inputs_of rs \<noteq> [] then Some (hd (inputs_of rs)) else ag_input a),
      ag_output = (if outputs_of rs = [] then ag_output a else Some (last (outputs_of rs))),
      ag_lib_mode = (ag_lib_mode a \<or> RLib \<in> set rs), ag_fix_hashes = (ag_fix_hashes a \<or> RFix \<in> set rs),
      ag_hash_only = (ag_hash_only a \<or> RHash \<in> set rs),
      ag_link_libs = ag_link_libs a @ links_of rs, ag_native_libs = ag_native_libs a @ natives_of rs\<rparr>"
  by (induction rs arbitrary: a) (auto split: request.splits)

text \<open>
  C38. The command line that is taken: a sequence of flags, of options each followed by its value, and of
  words without a dash, in any order, at least one of them a word. The first word is the input and the last
  \<^verbatim>\<open>-o\<close> the output; libraries are kept in order; later words are ignored. Everything else is an error.
\<close>

theorem parse_args_exact:
  "parse_args (program # xs) = Inr a \<longleftrightarrow>
     (\<exists>rs. xs = concat (map request_text rs) \<and> list_all request_ok rs \<and> inputs_of rs \<noteq> []
       \<and> a = \<lparr>ag_input = hd (inputs_of rs),
              ag_output = (if outputs_of rs = [] then None else Some (last (outputs_of rs))),
              ag_lib_mode = (RLib \<in> set rs), ag_fix_hashes = (RFix \<in> set rs), ag_hash_only = (RHash \<in> set rs),
              ag_link_libs = links_of rs, ag_native_libs = natives_of rs\<rparr>)"
proof
  assume "parse_args (program # xs) = Inr a"
  then obtain b where b: "scan_args xs no_args = Inr b" "ag_input b \<noteq> None"
    and a: "a = \<lparr>ag_input = the (ag_input b), ag_output = ag_output b, ag_lib_mode = ag_lib_mode b,
      ag_fix_hashes = ag_fix_hashes b, ag_hash_only = ag_hash_only b, ag_link_libs = ag_link_libs b,
      ag_native_libs = ag_native_libs b\<rparr>"
    by (auto simp: parse_args_def split: sum.splits option.splits)
  from scan_args_requests [OF b(1)] obtain rs where rs: "xs = concat (map request_text rs)" "list_all request_ok rs"
    "b = fold apply_request rs no_args" by blast
  then show "\<exists>rs. xs = concat (map request_text rs) \<and> list_all request_ok rs \<and> inputs_of rs \<noteq> []
       \<and> a = \<lparr>ag_input = hd (inputs_of rs),
              ag_output = (if outputs_of rs = [] then None else Some (last (outputs_of rs))),
              ag_lib_mode = (RLib \<in> set rs), ag_fix_hashes = (RFix \<in> set rs), ag_hash_only = (RHash \<in> set rs),
              ag_link_libs = links_of rs, ag_native_libs = natives_of rs\<rparr>"
    using b(2) a by (intro exI [of _ rs]) (auto simp: requests_summary no_args_def split: if_splits)
qed (auto simp: parse_args_def scan_requests requests_summary no_args_def simp del: scan_args.simps)

section \<open>What the front end read\<close>

lemma parse_with_readable: "parse_with f root p = Done x \<Longrightarrow> read_to_string root p \<noteq> None"
  by (auto simp: parse_with_def split: option.splits)

lemma load_patterns_readable:
  "load_patterns search root names acc = Done pts \<Longrightarrow> \<forall>(n, p, pt) \<in> set acc. read_to_string root p \<noteq> None \<Longrightarrow>
    \<forall>(n, p, pt) \<in> set pts. read_to_string root p \<noteq> None"
proof (induction search root names acc rule: load_patterns.induct)
  case (2 search root name rest acc)
  show ?case
  proof (cases "name \<in> set (map fst acc)")
    case True
    then have "load_patterns search root rest acc = Done pts" using 2(3) by (simp only: load_patterns.simps if_True)
    then show ?thesis using 2(1) [OF True] 2(4) by blast
  next
    case False
    then obtain p pt where p: "find_pattern root name search = Some p" "load_pattern_file root p = Done pt"
      and rest: "load_patterns search root rest (acc @ [(name, p, pt)]) = Done pts"
      using 2(3) by (auto split: option.splits outcome.splits)
    have "read_to_string root p \<noteq> None" using p(2) parse_with_readable by (auto simp: load_pattern_file_def)
    then show ?thesis using 2(2) [OF False p rest] 2(4) by auto
  qed
qed simp

lemma front_end_reads:
  assumes "\<not> env_fix env" "front_end sha256 hex_encode env n libs input root = Accepted pr"
  shows "front_files env n input root = root" "read_to_string root input \<noteq> None"
    "\<forall>(n, p, pt) \<in> set (pr_patterns pr). read_to_string root p \<noteq> None"
    "distinct (map fst (pr_behaviors pr))"
    "\<forall>(name, p, b, src) \<in> set (pr_behaviors pr). read_to_string root p = Some src \<and> parse_source src = Done b
       \<and> analyze sha256 hex_encode b (dependency_contracts (pr_behaviors pr) libs) [] = Some (Inr ())"
proof -
  have nofix: "\<not> env_fix (with_search input env)" using assms(1) by simp
  let ?x = "pr_executable pr" and ?sp = "search_paths input"
  let ?load = "load_all (with_search input env) n"
  obtain st1 st2 ps1 where ext: "input \<noteq> []" "extension (last input) = Some ''sigil''"
    and ps: "load_patterns ?sp (ls_fs st1) (ex_uses ?x) [] = Done ps1"
      "load_patterns ?sp (ls_fs st1) (collect_spawn_patterns (ex_entry ?x) []) ps1 = Done (pr_patterns pr)"
    and x: "load_executable_file root input = Done ?x" "check_entry_is_composite (ex_entry ?x) = []"
    and l1: "?load (collect_call_behaviors (ex_entry ?x) []) (load_start root) = (Done (), st1)"
    and l2: "?load (pattern_calls (pr_patterns pr)) st1 = (Done (), st2)" and pr: "pr_behaviors pr = ls_behaviors st2"
    and v: "validate_all sha256 hex_encode (dependency_contracts (pr_behaviors pr) libs) (pr_behaviors pr) = Accepted ()"
    using front_end_phases [OF assms(2)] by metis
  have ok1: "load_ok (with_search input env) root st1"
    using load_all_result [OF nofix l1 load_ok_start] by (simp add: load_result_def)
  then have ok2: "load_ok (with_search input env) root st2"
    using load_all_result [OF nofix l2] by (simp add: load_result_def)
  note same = load_okD(1) [OF ok1] load_okD(1) [OF ok2]
  show "distinct (map fst (pr_behaviors pr))" using load_okD(2) [OF ok2] pr by simp
  show "\<forall>(name, p, b, src) \<in> set (pr_behaviors pr). read_to_string root p = Some src \<and> parse_source src = Done b
       \<and> analyze sha256 hex_encode b (dependency_contracts (pr_behaviors pr) libs) [] = Some (Inr ())"
    using fetched_file [OF nofix load_okD(7) [OF ok2]] v pr by (fastforce simp: validate_all_Accepted list_all_iff)
  show "front_files env n input root = root"
    using ext x l1 l2 ps same
    by (simp add: front_files_def bind_c_def of_outcome_def del: load_all.simps load_patterns.simps)
  show "read_to_string root input \<noteq> None"
    using x(1) parse_with_readable by (auto simp: load_executable_file_def)
  have "\<forall>(n, p, pt) \<in> set ps1. read_to_string root p \<noteq> None"
    using load_patterns_readable [OF ps(1)] same by simp
  then show "\<forall>(n, p, pt) \<in> set (pr_patterns pr). read_to_string root p \<noteq> None"
    using load_patterns_readable [OF ps(2)] same by simp
qed

section \<open>The objects of a first build\<close>

text \<open>The inputs of one build alone: nothing of earlier builds has to be known.\<close>

definition own_inputs :: "(string, contract) hmap \<Rightarrow> loaded_behavior list \<Rightarrow> build_inputs" where
  "own_inputs contracts bs = (\<lambda>(name, p, b, src). (name, src, externs contracts b)) ` set bs"

lemma own_inputs_names [simp]: "fst ` own_inputs contracts bs = set (map fst bs)"
  by (force simp: own_inputs_def image_image split: prod.splits)

lemma own_inputs_mem: "(name, p, b, src) \<in> set bs \<Longrightarrow> (name, src, externs contracts b) \<in> own_inputs contracts bs"
  by (force simp: own_inputs_def)

lemma own_inputs_collision_free: "distinct (map fst bs) \<Longrightarrow> collision_free be (own_inputs contracts bs)"
  by (auto simp: collision_free_def own_inputs_def dest: eq_key_imp_eq_value)

lemma clean_objects_zip:
  "clean_objects be contracts bs = Inr objs \<Longrightarrow>
    list_all2 (\<lambda>(name, p, b, src) obj. cg_behavior (be_backend be) b name (externs contracts b) = Inr obj) bs objs"
proof (induction be contracts bs arbitrary: objs rule: clean_objects.induct)
  case (2 be contracts name p b src rest)
  then show ?case by (cases "clean_objects be contracts rest") (auto split: sum.splits)
qed simp

lemma compile_unit_files: "compile_unit be name p sh ch dh code st = (Inr (), st') \<Longrightarrow> length (bs_files st') = Suc (length (bs_files st))"
  by (cases rule: compile_unit_cases [of st name sh ch dh be p code]) auto

lemma compile_behaviors_files:
  "compile_behaviors be root contracts bs st = (Inr (), st') \<Longrightarrow> length (bs_files st') = length bs + length (bs_files st)"
  by (induction be root contracts bs st rule: compile_behaviors.induct)
    (auto split: prod.splits sum.splits dest!: compile_unit_files)

lemma compile_patterns_files:
  "compile_patterns be root contracts pts st = (Inr (), st') \<Longrightarrow> length (bs_files st') = length pts + length (bs_files st)"
  by (induction be root contracts pts st rule: compile_patterns.induct)
    (auto split: prod.splits sum.splits dest!: compile_unit_files)

lemma build_files:
  assumes "build_objects be can_save root input pr libs d = (Inr files, d')"
  shows "length files = length (pr_behaviors pr) + length (pr_patterns pr) + 1"
  using assms
proof (cases rule: build_objects_cases)
  case (complete st1 st2 st3)
  then show ?thesis
    using compile_behaviors_files [OF complete(1)] compile_patterns_files [OF complete(2)]
      compile_unit_files [OF complete(3) [unfolded compile_entry_def Let_def]] by simp
qed simp_all

lemma required_contracts_externs: "required_contracts contracts b = externs contracts b"
  by (simp add: required_contracts_def externs_def required_def)

lemma backend_behavior:
  "cg_behavior (llvm_backend l platform) b name (externs contracts b) =
     unit_object l name (behavior_module (lv_builder l) platform contracts name b)"
  by (simp add: llvm_backend_def behavior_module_def required_contracts_externs)

definition units_apart :: "program \<Rightarrow> bool" where
  "units_apart pr \<longleftrightarrow> set (map fst (pr_behaviors pr)) \<inter> (set (map fst (pr_patterns pr)) \<union> {ex_name (pr_executable pr)}) = {}"

definition new_cache :: "('o, 'w) host \<Rightarrow> 'o disk \<Rightarrow> bool" where
  "new_cache h d \<longleftrightarrow> manifest_load (ho_compiler_id h) (dk_manifest d) = manifest_new (ho_compiler_id h)"

lemma first_build:
  assumes "long_hashes be" "manifest_load (be_compiler_id be) (dk_manifest d) = manifest_new (be_compiler_id be)"
    and "\<not> env_fix env" "front_end sha256 hex_encode env n libs input root = Accepted pr" "units_apart pr"
    and "build_objects be can_save root input pr libs d = (Inr files, d')"
  shows "list_all2 (\<lambda>(name, p, b, src) f. \<exists>obj. hm_get (dk_objects d') f = Some obj
      \<and> cg_behavior (be_backend be) b name (externs (all_contracts (dependency_contracts (pr_behaviors pr) libs) libs) b) = Inr obj)
    (pr_behaviors pr) (take (length (pr_behaviors pr)) files)"
proof -
  let ?cs = "all_contracts (dependency_contracts (pr_behaviors pr) libs) libs" and ?bs = "pr_behaviors pr"
  note r = front_end_reads [OF assms(3,4)]
  have known: "known_program be (own_inputs ?cs ?bs) root input pr libs"
    unfolding known_program_def known_behaviors_def own_inputs_names
  proof (intro conjI)
    show "\<forall>(name, p, b, src) \<in> set ?bs. read_to_string root p = Some src \<and> parse_source src = Done b
        \<and> (name, src, externs ?cs b) \<in> own_inputs ?cs ?bs"
      using r(5) own_inputs_mem by blast
    show "\<forall>(name, p, pt) \<in> set (pr_patterns pr). name \<notin> set (map fst ?bs) \<and> read_to_string root p \<noteq> None"
    proof clarify
      fix name p pt
      assume i: "(name, p, pt) \<in> set (pr_patterns pr)"
      then have "name \<in> set (map fst (pr_patterns pr))" by force
      then show "name \<notin> set (map fst ?bs) \<and> read_to_string root p \<noteq> None"
        using r(3) i assms(5) unfolding units_apart_def by blast
    qed
    show "ex_name (pr_executable pr) \<notin> set (map fst ?bs)" using assms(5) by (simp add: units_apart_def)
  qed (rule r)+
  have "disk_ok be (own_inputs ?cs ?bs) d" using assms(2) by (simp add: disk_ok_def cache_ok_new)
  from build_complete [OF assms(1) own_inputs_collision_free [OF r(4)] this known assms(6)]
  obtain objs fs where o: "clean_objects be ?cs ?bs = Inr objs" "files = object_files be root ?bs @ fs"
    "map (hm_get (dk_objects d')) (object_files be root ?bs) = map Some objs" by metis
  have len: "length (object_files be root ?bs) = length ?bs" by (simp add: object_files_def)
  have "hm_get (dk_objects d') (object_files be root ?bs ! i) = Some (objs ! i)" if "i < length ?bs" for i
    using o(3) that len by (metis length_map nth_map)
  then show ?thesis
    using clean_objects_zip [OF o(1)] o(2) len by (fastforce simp: list_all2_conv_all_nth split_beta)
qed

lemma list_all2_mono_in:
  "list_all2 P xs ys \<Longrightarrow> \<forall>x \<in> set xs. Q x \<Longrightarrow> (\<And>x y. P x y \<Longrightarrow> Q x \<Longrightarrow> R x y) \<Longrightarrow> list_all2 R xs ys"
  by (auto simp: list_all2_conv_all_nth)

lemma run_executable_Built:
  assumes "run_executable h n platform a w = (Built out, w')" "\<not> ag_fix_hashes a"
  defines "libs \<equiv> snd (load_libraries (wo_fs w) (map path_of (ag_link_libs a)))"
    and "symbols \<equiv> fst (load_libraries (wo_fs w) (map path_of (ag_link_libs a)))"
  obtains pr o1 files where "out = executable_output (ho_os h) a"
    and "front_end (ho_sha256 h) (ho_hex h) (host_env h symbols False) n libs (path_of (ag_input a)) (wo_fs w) = Accepted pr"
    and "build_objects (host_build h platform (cache_dir_of out)) (ho_can_save h) (wo_fs w) (path_of (ag_input a)) pr libs
      (wo_disk w (cache_dir_of out)) = (Inr files, wo_disk w' (cache_dir_of out))"
    and "link_objects h files (map path_of (ag_link_libs a)) (map path_of (ag_native_libs a)) out o1 = (Inr (), wo_out w')"
proof -
  let ?input = "path_of (ag_input a)" and ?out = "executable_output (ho_os h) a"
  let ?env = "host_env h symbols False"
  have nofix: "\<not> env_fix ?env" by (simp add: host_env_def)
  have ll: "load_libraries (wo_fs w) (map path_of (ag_link_libs a)) = (symbols, libs)"
    by (simp add: libs_def symbols_def)
  obtain pr where pr: "front_end (ho_sha256 h) (ho_hex h) ?env n libs ?input (wo_fs w) = Accepted pr"
    using assms(1,2) by (auto simp: run_executable_def Let_def ll split: checked.splits)
  note root = front_end_reads(1) [OF nofix pr]
  obtain o1 where o1: "tl_create_dirs (ho_tools h) (cache_dir_of ?out @ [''objects'']) (wo_out w) = (None, o1)"
    using assms(1,2) by (auto simp: run_executable_def Let_def ll pr split: prod.splits option.splits)
  obtain files d where b: "build_objects (host_build h platform (cache_dir_of ?out)) (ho_can_save h) (wo_fs w) ?input pr libs
      (wo_disk w (cache_dir_of ?out)) = (Inr files, d)"
    using assms(1,2) by (auto simp: run_executable_def Let_def ll pr root o1 split: prod.splits sum.splits)
  obtain r o2 where l: "link_objects h files (map path_of (ag_link_libs a)) (map path_of (ag_native_libs a)) ?out o1 = (r, o2)"
    by fastforce
  have "r = Inr ()" "out = ?out" "w' = w\<lparr>wo_fs := wo_fs w, wo_disk := (wo_disk w)(cache_dir_of ?out := d), wo_out := o2\<rparr>"
    using assms(1,2) by (auto simp: run_executable_def Let_def ll pr root o1 b l split: sum.splits)
  then show ?thesis using that [of pr files o1] pr b l by simp
qed

text \<open>
  C2. End to end: when the compiler reports that it built an executable (hashes not being repaired), the
  front end accepted the program, and the linker was run with success on one object for each behavior,
  pattern and entry. If the cache held nothing that this compiler takes up, the object of each
  behavior is what LLVM makes of the module the code generator gives for it, and the behavior was accepted by
  the analyzer against the contracts of the program. (Hashes have at least 16 digits, and no pattern or executable has
  the name of a behavior.)
\<close>

theorem built_executable:
  assumes "run h n argv w = (Built out, w')" "parse_args argv = Inr a"
    and "\<not> ag_lib_mode a" "\<not> ag_hash_only a" "\<not> ag_fix_hashes a"
  defines "libs \<equiv> snd (load_libraries (wo_fs w) (map path_of (ag_link_libs a)))"
    and "symbols \<equiv> fst (load_libraries (wo_fs w) (map path_of (ag_link_libs a)))"
  shows "\<exists>platform pr files o1. native_target (ho_llvm h) = Inr platform
    \<and> front_end (ho_sha256 h) (ho_hex h) (host_env h symbols False) n libs (path_of (ag_input a)) (wo_fs w) = Accepted pr
    \<and> link_objects h files (map path_of (ag_link_libs a)) (map path_of (ag_native_libs a)) out o1 = (Inr (), wo_out w')
    \<and> length files = length (pr_behaviors pr) + length (pr_patterns pr) + 1
    \<and> (new_cache h (wo_disk w (cache_dir_of out)) \<and> (\<forall>bs. 16 \<le> length (ho_hex h (ho_sha256 h bs))) \<and> units_apart pr \<longrightarrow>
        list_all2 (\<lambda>(name, p, b, src) f.
            analyze (ho_sha256 h) (ho_hex h) b (dependency_contracts (pr_behaviors pr) libs) [] = Some (Inr ())
          \<and> (\<exists>obj. hm_get (dk_objects (wo_disk w' (cache_dir_of out))) f = Some obj
               \<and> unit_object (ho_llvm h) name (behavior_module (lv_builder (ho_llvm h)) platform
                   (all_contracts (dependency_contracts (pr_behaviors pr) libs) libs) name b) = Inr obj))
          (pr_behaviors pr) (take (length (pr_behaviors pr)) files))"
proof -
  obtain platform where pf: "native_target (ho_llvm h) = Inr platform" "run_executable h n platform a w = (Built out, w')"
    using assms(1-4) by (auto simp: run_def split: sum.splits)
  obtain pr files o1 where r: "front_end (ho_sha256 h) (ho_hex h) (host_env h symbols False) n libs (path_of (ag_input a)) (wo_fs w) = Accepted pr"
    "build_objects (host_build h platform (cache_dir_of out)) (ho_can_save h) (wo_fs w) (path_of (ag_input a)) pr libs
      (wo_disk w (cache_dir_of out)) = (Inr files, wo_disk w' (cache_dir_of out))"
    "link_objects h files (map path_of (ag_link_libs a)) (map path_of (ag_native_libs a)) out o1 = (Inr (), wo_out w')"
    using run_executable_Built [OF pf(2) assms(5)] unfolding libs_def symbols_def by metis
  have nofix: "\<not> env_fix (host_env h symbols False)" by (simp add: host_env_def)
  have host: "be_sha256 (host_build h platform d) = ho_sha256 h" "be_hex (host_build h platform d) = ho_hex h"
    "be_compiler_id (host_build h platform d) = ho_compiler_id h"
    "be_backend (host_build h platform d) = llvm_backend (ho_llvm h) platform" for d
    by (simp_all add: host_build_def)
  let ?cs = "all_contracts (dependency_contracts (pr_behaviors pr) libs) libs"
  have "list_all2 (\<lambda>(name, p, b, src) f.
            analyze (ho_sha256 h) (ho_hex h) b (dependency_contracts (pr_behaviors pr) libs) [] = Some (Inr ())
          \<and> (\<exists>obj. hm_get (dk_objects (wo_disk w' (cache_dir_of out))) f = Some obj
               \<and> unit_object (ho_llvm h) name (behavior_module (lv_builder (ho_llvm h)) platform ?cs name b) = Inr obj))
          (pr_behaviors pr) (take (length (pr_behaviors pr)) files)"
    if "new_cache h (wo_disk w (cache_dir_of out))" "\<forall>bs. 16 \<le> length (ho_hex h (ho_sha256 h bs))" "units_apart pr"
  proof -
    have "long_hashes (host_build h platform (cache_dir_of out))" using that(2) by (simp add: long_hashes_def host)
    from first_build [OF this _ nofix r(1) that(3) r(2)] that(1) have
      "list_all2 (\<lambda>(name, p, b, src) f. \<exists>obj. hm_get (dk_objects (wo_disk w' (cache_dir_of out))) f = Some obj
         \<and> unit_object (ho_llvm h) name (behavior_module (lv_builder (ho_llvm h)) platform ?cs name b) = Inr obj)
       (pr_behaviors pr) (take (length (pr_behaviors pr)) files)"
      by (simp add: host new_cache_def backend_behavior)
    then show ?thesis
      using front_end_reads(5) [OF nofix r(1)] by (rule list_all2_mono_in) auto
  qed
  then show ?thesis using pf(1) r build_files [OF r(2)] by blast
qed

text \<open>A machine whose object files are the code of their module, and whose tools always succeed.\<close>

type_synonym code_text = "(string \<times> (nat \<times> linstr) list) list"

definition tiny_llvm :: "code_text llvm" where
  "tiny_llvm = \<lparr>lv_initialize = None, lv_from_triple = None, lv_machine = True, lv_triple = ''x86_64-unknown-linux-gnu'',
     lv_builder = (\<lambda>_. None), lv_optimize = Inr, lv_object = (\<lambda>s. Inr (map (\<lambda>b. (bk_name b, bk_code b)) (cg_blocks s)))\<rparr>"

definition tiny_fs :: fs where
  "tiny_fs = FsDir
     [(''m.sigil'', lines_of [''EXECUTABLE m'', ''ENTRY'', ''CALL c'', ''END_EXECUTABLE'']),
      (''c.beh'', lines_of [''BEHAVIOR c'', ''CONTRACT'', ''IMPLEMENTATION'', ''v = 1'', ''END''])]"

definition tiny_host :: "(code_text, string \<Rightarrow> string set option) host" where
  "tiny_host = \<lparr>ho_os = Linux, ho_win = \<lparr>we_var = (\<lambda>_. None), we_path_dirs = [], we_exists = (\<lambda>_. False),
       we_vswhere = (\<lambda>_. None), we_read = (\<lambda>_. None), we_read_dir = (\<lambda>_. None)\<rparr>,
     ho_tools = demo_tools, ho_write = (\<lambda>_ _ w. (None, w)), ho_can_write = (\<lambda>_. True), ho_can_save = True,
     ho_sha256 = (\<lambda>_. []), ho_hex = (\<lambda>_. replicate 16 (CHR ''0'')), ho_version = ''0.1.0'', ho_exe = Some (1024, None), ho_now = 0,
     ho_llvm = tiny_llvm\<rparr>"

definition tiny_world :: "(code_text, string \<Rightarrow> string set option) world" where
  "tiny_world = \<lparr>wo_fs = tiny_fs, wo_disk = (\<lambda>_. \<lparr>dk_manifest = None, dk_objects = []\<rparr>), wo_out = (\<lambda>_. None)\<rparr>"

abbreviation tiny_args :: "string list" where
  "tiny_args \<equiv> [''sigil'', ''m.sigil'']"

lemma tiny_built: "fst (run tiny_host 1 tiny_args tiny_world) = Built [''m'']"
  by code_simp

lemma tiny_front:
  "case front_end (ho_sha256 tiny_host) (ho_hex tiny_host) (host_env tiny_host [] False) 1 [] [''m.sigil''] tiny_fs of
     Accepted pr \<Rightarrow> map fst (pr_behaviors pr) = [''c''] \<and> units_apart pr
   | _ \<Rightarrow> False"
  by code_simp

lemma tiny_parse_args:
  "parse_args tiny_args = Inr \<lparr>ag_input = ''m.sigil'', ag_output = None, ag_lib_mode = False, ag_fix_hashes = False,
     ag_hash_only = False, ag_link_libs = [], ag_native_libs = []\<rparr>"
  by code_simp

lemma tiny_parts:
  "path_of ''m.sigil'' = [''m.sigil'']" "load_libraries r [] = ([], [])" "cache_dir_of [''m''] = [''.cache'']"
  "native_target tiny_llvm = Inr Linux" "new_cache tiny_host (wo_disk tiny_world d)"
  "16 \<le> length (ho_hex tiny_host (ho_sha256 tiny_host bs))"
  "wo_fs tiny_world = tiny_fs" "ho_llvm tiny_host = tiny_llvm" "lv_builder tiny_llvm = (\<lambda>_. None)"
proof -
  show "path_of ''m.sigil'' = [''m.sigil'']" "cache_dir_of [''m''] = [''.cache'']"
    "native_target tiny_llvm = Inr Linux" by code_simp+
qed (simp_all add: load_libraries_def new_cache_def tiny_world_def tiny_host_def manifest_load_def tiny_llvm_def)

lemma built_executable_witness:
  "\<exists>b f obj. unit_object tiny_llvm ''c'' (behavior_module (\<lambda>_. None) Linux [(''c'', b_contract b)] ''c'' b) = Inr obj
     \<and> hm_get (dk_objects (wo_disk (snd (run tiny_host 1 tiny_args tiny_world)) [''.cache''])) f = Some obj
     \<and> analyze (\<lambda>_. []) (\<lambda>_. replicate 16 (CHR ''0'')) b [(''c'', b_contract b)] [] = Some (Inr ())"
proof -
  obtain w' where run: "run tiny_host 1 tiny_args tiny_world = (Built [''m''], w')"
    using tiny_built by (metis prod.collapse)
  obtain platform pr files where p: "Inr Linux = (Inr platform :: string compiler_error + target_platform)"
    and pr: "front_end (ho_sha256 tiny_host) (ho_hex tiny_host) (host_env tiny_host [] False) 1 [] [''m.sigil''] tiny_fs = Accepted pr"
    and len: "length files = length (pr_behaviors pr) + length (pr_patterns pr) + 1"
    and objs: "new_cache tiny_host (wo_disk tiny_world [''.cache''])
        \<and> (\<forall>bs. 16 \<le> length (ho_hex tiny_host (ho_sha256 tiny_host bs))) \<and> units_apart pr \<longrightarrow> list_all2 (\<lambda>(name, p, b, src) f.
            analyze (ho_sha256 tiny_host) (ho_hex tiny_host) b (dependency_contracts (pr_behaviors pr) []) [] = Some (Inr ())
          \<and> (\<exists>obj. hm_get (dk_objects (wo_disk w' [''.cache''])) f = Some obj
               \<and> unit_object tiny_llvm name (behavior_module (\<lambda>_. None) platform
                   (all_contracts (dependency_contracts (pr_behaviors pr) []) []) name b) = Inr obj))
          (pr_behaviors pr) (take (length (pr_behaviors pr)) files)"
    using built_executable [OF run tiny_parse_args, unfolded args.simps list.map tiny_parts prod.sel simp_thms, OF TrueI TrueI TrueI]
    by (elim exE conjE) (rule that)
  have n: "map fst (pr_behaviors pr) = [''c'']" "units_apart pr" using tiny_front pr by auto
  then obtain p b src where bs: "pr_behaviors pr = [(''c'', p, b, src)]" by (cases "pr_behaviors pr") auto
  then obtain f fs where "files = f # fs" using len by (cases files) auto
  moreover have "all_contracts (dependency_contracts (pr_behaviors pr) []) [] = [(''c'', b_contract b)]"
    "dependency_contracts (pr_behaviors pr) [] = [(''c'', b_contract b)]"
    by (simp_all add: bs dependency_contracts_def all_contracts_def)
  ultimately obtain obj where "analyze (ho_sha256 tiny_host) (ho_hex tiny_host) b [(''c'', b_contract b)] [] = Some (Inr ())"
    "hm_get (dk_objects (wo_disk w' [''.cache''])) f = Some obj"
    "unit_object tiny_llvm ''c'' (behavior_module (\<lambda>_. None) Linux [(''c'', b_contract b)] ''c'' b) = Inr obj"
    using objs n(2) p tiny_parts(5,6) by (auto simp: bs)
  moreover have "ho_sha256 tiny_host = (\<lambda>_. [])" "ho_hex tiny_host = (\<lambda>_. replicate 16 (CHR ''0''))"
    by (simp_all add: tiny_host_def)
  ultimately show ?thesis by (intro exI [of _ b] exI [of _ f] exI [of _ obj]) (simp add: run del: One_nat_def)
qed

end
