(* ===== verification/Spec2Isabelle.thy ===== *)
theory Spec2Isabelle
  imports Sigil_Analyze Sigil_Graph_Validate Sigil_Hash_Text Sigil_Parser_Expr Sigil_Cache_Props Sigil_Library_Props
    Sigil_Render Sigil_Codegen_Examples Sigil_Codegen_Run Sigil_Dataflow Sigil_Main_Props
begin

text \<open>
  A verification development for the Sigil compiler, the Rust program under
  \<^verbatim>\<open>compiler/src\<close>.

  \<^bold>\<open>The program.\<close> A Sigil program is a set of behaviors, each a contract (inputs, outputs, required
  behaviors pinned by a hash of their contracts, guarantees) with a body that either computes (a leaf)
  or only calls other behaviors (a composite); patterns, which are spawned; and an executable whose
  entry wires behaviors. The compiler finds and parses the behaviors an entry needs, checks each
  against the contracts of the others, checks the program as a graph, and compiles behavior by
  behavior, reusing objects of earlier runs.

  \<^bold>\<open>The theories\<close>, in the order of the phases, with the files they model:

  \<^item> \<open>Sigil_Prelude\<close>: machine integers, hash maps and hash sets with their interfaces as the
    locales \<open>hash_map\<close> and \<open>hash_set\<close>, character classes and number printing.
  \<^item> \<open>Sigil_Ast\<close>: the syntax tree (\<^verbatim>\<open>ast.rs\<close>).
  \<^item> \<open>Sigil_Lexer\<close>, \<open>Sigil_Lexer_Props\<close>: the lexer (\<^verbatim>\<open>lexer.rs\<close>). Its tokens tile the
    source at the positions of their spans, and literals and words are read back.
  \<^item> \<open>Sigil_Parser\<close>, \<open>Sigil_Parser_Total\<close>, \<open>Sigil_Parser_Expr\<close>, \<open>Sigil_Hash_Text\<close>: the
    parser (\<^verbatim>\<open>parser.rs\<close>). It returns on every token list; its expression parser
    accepts exactly a grammar; contract hashes survive being written, lexed and parsed.
  \<^item> \<open>Sigil_Hash\<close>: contract hashes (\<^verbatim>\<open>hash.rs\<close>). The hashed bytes determine a contract whose
    requirements are pinned, and do not determine others.
  \<^item> \<open>Sigil_Cfg\<close>, \<open>Sigil_Cfg_Paths\<close>, \<open>Sigil_Cfg_Build\<close>: control flow graphs
    (\<^verbatim>\<open>cfg.rs\<close>). The builder's blocks and edges are the transfers of control
    between statements, and the path enumeration gives exactly the loop-free runs.
    \<open>Sigil_Dataflow\<close>: the data-flow pass that is to replace the enumeration, sound for all runs
    where nothing jumps back to the entry.
  \<^item> \<open>Sigil_Error\<close>, \<open>Sigil_Context\<close>, \<open>Sigil_Expr_Check\<close>, \<open>Sigil_Node_Check\<close>,
    \<open>Sigil_Wiring\<close>, \<open>Sigil_Ownership\<close>, \<open>Sigil_Analyze\<close>: the semantic analyzer
    (\<^verbatim>\<open>semantic/\<close>). Each check reports exactly the violations of a
    declarative rule, and a behavior without reports is memory safe on every loop-free run, keeps its
    guarantees and has the structure its role demands.
  \<^item> \<open>Sigil_Graph\<close>, \<open>Sigil_Graph_Inv\<close>, \<open>Sigil_Kahn\<close>, \<open>Sigil_Graph_Validate\<close>: the
    behavior graph, its gap detector, its builder and its validation
    (\<^verbatim>\<open>graph/\<close>). Every reachable graph is well formed; the validation reports nothing
    exactly when dependencies resolve, pins are current, the dependency relation is acyclic and purity
    holds transitively. The two uses of Kahn's algorithm are interpretations of one locale.
  \<^item> \<open>Sigil_Files\<close>, \<open>Sigil_Loader\<close>, \<open>Sigil_Loader_Props\<close>: compiler errors
    (\<^verbatim>\<open>error.rs\<close>), finding files and loading behaviors with what they require
    (\<^verbatim>\<open>main.rs\<close>). What is loaded is found, parsed, closed under requirements and ordered;
    loading ends when no chain of requirements is endless, and does not end on a cycle.
  \<^item> \<open>Sigil_Driver\<close>: the phases of \<^verbatim>\<open>run\<close> in \<^verbatim>\<open>main.rs\<close> up to code
    generation, composed from the above, and what acceptance of an executable means end to end.
  \<^item> \<open>Sigil_Cache\<close>, \<open>Sigil_Cache_Props\<close>: the object cache (\<^verbatim>\<open>cache.rs\<close>) and the
    incremental compilation of \<^verbatim>\<open>main.rs\<close>. Incremental builds link the objects of a clean
    build as long as builds succeed; two concrete runs show where they do not.
  \<^item> \<open>Sigil_Library\<close>, \<open>Sigil_Library_Props\<close>: library mode, and the texts that describe a
    library, written and read back (\<^verbatim>\<open>main.rs\<close>, \<^verbatim>\<open>graph/builder.rs\<close>).
  \<^item> \<open>Sigil_Source\<close>, \<open>Sigil_Diagnostic\<close>, \<open>Sigil_Render\<close>: source files and their lines,
    diagnostics and their rendering (\<^verbatim>\<open>source.rs\<close>, \<^verbatim>\<open>diagnostic.rs\<close>,
    \<^verbatim>\<open>semantic/types.rs\<close>, \<^verbatim>\<open>render.rs\<close>).

  \<^item> \<open>Sigil_Codegen_Base\<close>, \<open>Sigil_Codegen_Expr\<close>, \<open>Sigil_Codegen\<close>: the code generator
    (\<^verbatim>\<open>codegen/mod.rs\<close>, \<^verbatim>\<open>codegen/expr.rs\<close>, \<^verbatim>\<open>codegen/extern_decl.rs\<close>) as a
    state transformer over the requests it makes of LLVM's builder, and the modules that
    \<^verbatim>\<open>main.rs\<close> has it make. \<open>Sigil_Codegen_Logic\<close> has its weakest preconditions;
    \<open>Sigil_Codegen_Types\<close>, \<open>Sigil_Codegen_Typed\<close> (the instructions are well typed),
    \<open>Sigil_Codegen_Blocks\<close> (basic blocks are closed), \<open>Sigil_Codegen_Layout\<close> (outputs of a call do not
    overlap), \<open>Sigil_Codegen_Sem\<close> (integer expressions and bounds checks compute what they should),
    \<open>Sigil_Codegen_Run\<close> (so do straight-line behaviors) and \<open>Sigil_Codegen_Labels\<close> (labels of
    accepted bodies are found) are about the code generated;
    \<open>Sigil_Codegen_Examples\<close> has accepted behaviors whose code is faulty.

  \<^item> \<open>Sigil_Linker\<close>: archiving and linking (\<^verbatim>\<open>linker.rs\<close>), with the tools that are
    run as parameters. An archive holds the objects of its build only.
  \<^item> \<open>Sigil_Main\<close>, \<open>Sigil_Main_Props\<close>: the command line and \<^verbatim>\<open>run\<close>
    (\<^verbatim>\<open>main.rs\<close>), which put everything together, with the code generator as the backend of the
    incremental compilation. Which command lines are taken, and what a built executable consists of.

  \<^bold>\<open>How the code is read.\<close> A struct is a record and an enum a datatype with the source's variants; a
  \<^verbatim>\<open>usize\<close> or \<^verbatim>\<open>i64\<close> that the program computes with is a 64-bit word, a position
  or a count is a natural number. A \<^verbatim>\<open>HashMap\<close> is an association list and a
  \<^verbatim>\<open>HashSet\<close> a list, in whatever order Rust iterates: results hold for every order.
  Text is a list of code points where the program looks at characters and a string of UTF-8 bytes
  where it stores them. Mutable state is passed and returned; \<^verbatim>\<open>Result\<close> is a sum or an
  outcome type with the source's errors, and an early return is a branch. Third-party code is a
  parameter: SHA-256 and hexadecimal encoding (\<open>sha256\<close>, \<open>hex_encode\<close>), the file system as a tree,
  the JSON form of the cache manifest, and LLVM: the object files that the incremental compilation
  handles come from a \<open>backend\<close>, which \<open>Sigil_Main\<close> makes of the code generator and
  LLVM (\<open>llvm\<close>), which instructions the bindings refuse is the argument \<open>cg_refuses\<close>, and what the integer instructions compute is \<open>llvm_ops\<close>, of which \<open>langref\<close> collects the documented facts.
  The code generator's output is the list of requests, in order, block by block.

  \<^bold>\<open>Bounds and fuel.\<close> Loops with a decreasing measure are total functions. The mutually recursive parser
  takes fuel for its recursion depth; its entry points supply one more than the number of tokens, and
  \<open>parse_total\<close> shows that this never runs out. The recursion of the dependency loader has nothing in
  the code that bounds it, so its fuel is an argument and running out is the outcome \<open>Diverges\<close>:
  \<open>load_all_terminates\<close> gives enough fuel for every program without endless chains, and
  \<open>cyclic_requires_never_returns\<close> shows that no fuel is enough for a cycle. The analyzer and the graph
  checks return an option where the code can panic or overflow, and are shown to return.

  \<^bold>\<open>What runs mean.\<close> Memory safety is stated over the loop-free runs of the flow graph, which is what
  the analyzer enumerates; a violation that needs two rounds of a loop is outside it, as it is
  outside the compiler's check. The data-flow pass is judged by all runs.

  What generated code does is stated for straight-line code over 8-byte integers, whole behaviors with
  loads and stores of parameters included, and for the branch of a bounds check. Each parameter is taken
  to point to a cell of its own. For the rest of it the theorems are about its form: types, blocks, labels, layout.

  \<^bold>\<open>Not modelled.\<close> LLVM's meaning of memory in general, calls and floating point, its optimization passes and the
  writing of object files (third-party); what the platform's linker and archiver do; and the runtime
  library, which is not Rust. What is printed while the compiler runs is left out, except the hash that
  \<^verbatim>\<open>--hash\<close> prints; the clock, the metadata of the compiler's executable and the making of
  directories are parameters. Paths on the command line are read into their components; \<^verbatim>\<open>..\<close> is
  a component like any other. The value of a float literal stays text.
\<close>

end
